(* ===== verification/Cyclus_Prelude.thy ===== *)
theory Cyclus_Prelude
  imports Complex_Main "HOL-Library.Multiset"
begin

text \<open>
  The shared vocabulary of the development: the C++ types of the sources as HOL types, the
  exceptions as values, the parts of the C++ standard library the sources rely on (ordered
  maps and sets, stable sort, smallest and largest element), and generic lemmas on them.

  Conventions used by every other theory.
  \<^item> A \<open>double\<close> is an exact \<^typ>\<open>real\<close>: rounding is not modelled. Where the sources use or
    compute an infinity or a NaN on purpose or in a reachable corner case, the type
    \<open>xdouble\<close> below is used instead, with the comparisons of IEEE 754.
  \<^item> A pointer is an address (\<^typ>\<open>nat\<close>), so containers ordered by pointer are ordered by
    address as in C++; a pointer that may be NULL is an option.
  \<^item> \<open>std::map\<close> is an association list with strictly increasing keys, so iteration order is
    visible; \<open>std::set\<close> is a strictly increasing list.
  \<^item> An operation that can throw returns \<open>(exn + 'a) \<times> 's\<close>: the state component is the state
    at the throw, since what the code changed before throwing stays changed.
\<close>

named_theorems omap_simps \<open>lookups after updates of ordered maps and sets\<close>
named_theorems exec_simps \<open>unfolding of the exception plumbing\<close>

type_synonym double = real
type_synonym ptr = nat

section \<open>Exceptions\<close>

text \<open>
  The classes of error.h, then what the C++ library and runtime add: \<open>std::out_of_range\<close> of
  \<open>at()\<close>, \<open>std::domain_error\<close> and the failed casts of the boost functions, a failed \<open>assert\<close>, and undefined behaviour (a NULL dereference, a vector read past
  its end), which the model stops at instead of giving it a value.
\<close>

datatype exn =
    Error_exn | ValueError | KeyError | StateError | IOError | CastError
  | ValidationError | DepricationError
  | OutOfRange | DomainError | BadAnyCast | AssertFailed | Undefined

type_synonym ('s, 'a) exec = "(exn + 'a) \<times> 's"

definition throw :: "exn \<Rightarrow> 's \<Rightarrow> ('s, 'a) exec" where
  "throw e s = (Inl e, s)"

definition ok :: "'a \<Rightarrow> 's \<Rightarrow> ('s, 'a) exec" where
  "ok a s = (Inr a, s)"

definition andThen :: "('s, 'a) exec \<Rightarrow> ('a \<Rightarrow> 's \<Rightarrow> ('s, 'b) exec) \<Rightarrow> ('s, 'b) exec" where
  "andThen r f = (case r of (Inl e, s) \<Rightarrow> (Inl e, s) | (Inr a, s) \<Rightarrow> f a s)"

lemma andThen_simps [simp, exec_simps]:
  "andThen (throw e s) f = throw e s"
  "andThen (ok a s) f = f a s"
  "andThen (Inl e, s) f = (Inl e, s)"
  "andThen (Inr a, s) f = f a s"
  by (simp_all add: andThen_def throw_def ok_def)

lemma andThen_Inr [exec_simps]:
  "andThen r f = (Inr b, s') \<longleftrightarrow> (\<exists>a s. r = (Inr a, s) \<and> f a s = (Inr b, s'))"
  by (cases r; cases "fst r") (auto simp: andThen_def)

lemma exec_eq_simps [simp]:
  "throw e s = (Inl e', s') \<longleftrightarrow> e = e' \<and> s = s'"
  "throw e s \<noteq> (Inr a, s')"
  "ok a s = (Inr b, s') \<longleftrightarrow> a = b \<and> s = s'"
  "ok a s \<noteq> (Inl e', s')"
  by (auto simp: throw_def ok_def)

text \<open>A predicate of the final state, whether the run threw or not.\<close>

lemma snd_andThenI:
  "P (snd r) \<Longrightarrow> (\<And>a. fst r = Inr a \<Longrightarrow> P (snd (f a (snd r)))) \<Longrightarrow> P (snd (andThen r f))"
  by (cases r; cases "fst r") (auto simp: andThen_def)

lemma snd_exec [simp]: "snd (throw e s) = s" "snd (ok a s) = s"
  "fst (throw e s) = Inl e" "fst (ok a s) = Inr a"
  by (simp_all add: throw_def ok_def)

text \<open>Reading through a pointer: a NULL or dangling one is undefined behaviour.\<close>

definition deref :: "'a option \<Rightarrow> 's \<Rightarrow> ('a \<Rightarrow> ('s, 'b) exec) \<Rightarrow> ('s, 'b) exec" where
  "deref x s f = (case x of None \<Rightarrow> throw Undefined s | Some a \<Rightarrow> f a)"

lemma deref_simps [simp, exec_simps]:
  "deref None s f = throw Undefined s" "deref (Some a) s f = f a"
  by (simp_all add: deref_def)

lemma deref_Inr [exec_simps]: "deref x s f = (Inr b, s') \<longleftrightarrow> (\<exists>a. x = Some a \<and> f a = (Inr b, s'))"
  by (cases x) (auto simp: throw_def)

lemma snd_derefI: "P s \<Longrightarrow> (\<And>a. x = Some a \<Longrightarrow> P (snd (f a))) \<Longrightarrow> P (snd (deref x s f))"
  by (cases x) (auto simp: throw_def)

text \<open>A loop whose body may throw: the rest of the list is skipped at the first exception.\<close>

fun foreach :: "('a \<Rightarrow> 's \<Rightarrow> ('s, unit) exec) \<Rightarrow> 'a list \<Rightarrow> 's \<Rightarrow> ('s, unit) exec" where
  "foreach f [] s = ok () s"
| "foreach f (x # xs) s = andThen (f x s) (\<lambda>_ s'. foreach f xs s')"

lemma foreach_append:
  "foreach f (xs @ ys) s = andThen (foreach f xs s) (\<lambda>_ s'. foreach f ys s')"
  by (induction xs arbitrary: s) (auto simp: andThen_def ok_def split: prod.splits sum.splits)

lemma foreach_invariant:
  assumes "I s"
    and "\<And>x s s' r. x \<in> set xs \<Longrightarrow> I s \<Longrightarrow> f x s = (r, s') \<Longrightarrow> I s'"
    and "foreach f xs s = (r, s')"
  shows "I s'"
  using assms
proof (induction xs arbitrary: s)
  case Nil
  then show ?case by (simp add: ok_def)
next
  case (Cons x xs)
  obtain r1 s1 where fx: "f x s = (r1, s1)" by (cases "f x s")
  have I1: "I s1" using Cons.prems(2)[of x s r1 s1] Cons.prems(1) fx by simp
  show ?case
  proof (cases r1)
    case (Inl e)
    with Cons.prems(3) fx I1 show ?thesis by simp
  next
    case (Inr u)
    with Cons.prems(3) fx have "foreach f xs s1 = (r, s')" by simp
    moreover have "\<And>y t t' q. y \<in> set xs \<Longrightarrow> I t \<Longrightarrow> f y t = (q, t') \<Longrightarrow> I t'"
      using Cons.prems(2) by (meson list.set_intros(2))
    ultimately show ?thesis using Cons.IH[OF I1] by blast
  qed
qed

section \<open>Doubles that may be infinite or not a number\<close>

datatype xdouble = Fin double | PInf | NInf | NaN

text \<open>IEEE 754 \<open><\<close>: every comparison with a NaN is false.\<close>

fun xless :: "xdouble \<Rightarrow> xdouble \<Rightarrow> bool" where
  "xless NaN _ = False"
| "xless _ NaN = False"
| "xless (Fin a) (Fin b) = (a < b)"
| "xless (Fin _) PInf = True"
| "xless (Fin _) NInf = False"
| "xless PInf _ = False"
| "xless NInf PInf = True"
| "xless NInf (Fin _) = True"
| "xless NInf NInf = False"

text \<open>Division of two finite doubles; a zero divisor is taken as \<open>+0\<close>.\<close>

definition xdiv :: "double \<Rightarrow> double \<Rightarrow> xdouble" where
  "xdiv a b =
     (if b \<noteq> 0 then Fin (a / b)
      else if a > 0 then PInf else if a < 0 then NInf else NaN)"

fun xadd :: "xdouble \<Rightarrow> xdouble \<Rightarrow> xdouble" where
  "xadd NaN _ = NaN"
| "xadd _ NaN = NaN"
| "xadd (Fin a) (Fin b) = Fin (a + b)"
| "xadd PInf NInf = NaN"
| "xadd NInf PInf = NaN"
| "xadd PInf _ = PInf"
| "xadd _ PInf = PInf"
| "xadd NInf _ = NInf"
| "xadd _ NInf = NInf"

text \<open>Multiplication and division of any value by a finite one.\<close>

fun xscale :: "xdouble \<Rightarrow> double \<Rightarrow> xdouble" where
  "xscale (Fin a) b = Fin (a * b)"
| "xscale NaN b = NaN"
| "xscale PInf b = (if b > 0 then PInf else if b < 0 then NInf else NaN)"
| "xscale NInf b = (if b > 0 then NInf else if b < 0 then PInf else NaN)"

fun xmul :: "xdouble \<Rightarrow> xdouble \<Rightarrow> xdouble" where
  "xmul a (Fin b) = xscale a b"
| "xmul (Fin a) b = xscale b a"
| "xmul NaN _ = NaN"
| "xmul _ NaN = NaN"
| "xmul PInf PInf = PInf"
| "xmul NInf NInf = PInf"
| "xmul _ _ = NInf"

fun xquot :: "xdouble \<Rightarrow> double \<Rightarrow> xdouble" where
  "xquot (Fin a) b = xdiv a b"
| "xquot NaN b = NaN"
| "xquot PInf b = (if b < 0 then NInf else PInf)"
| "xquot NInf b = (if b < 0 then PInf else NInf)"

lemma xdiv_Fin [simp]: "b \<noteq> 0 \<Longrightarrow> xdiv a b = Fin (a / b)"
  by (simp add: xdiv_def)

text \<open>\<open>std::min(a, b)\<close> is \<open>(b < a) ? b : a\<close>, \<open>std::max(a, b)\<close> is \<open>(a < b) ? b : a\<close>.\<close>

definition xmin :: "xdouble \<Rightarrow> xdouble \<Rightarrow> xdouble" where
  "xmin a b = (if xless b a then b else a)"

definition xmax :: "xdouble \<Rightarrow> xdouble \<Rightarrow> xdouble" where
  "xmax a b = (if xless a b then b else a)"

definition std_min :: "double \<Rightarrow> double \<Rightarrow> double" where
  "std_min a b = (if b < a then b else a)"

definition std_max :: "double \<Rightarrow> double \<Rightarrow> double" where
  "std_max a b = (if a < b then b else a)"

lemma xmin_Fin [simp]: "xmin (Fin a) (Fin b) = Fin (min a b)"
  by (simp add: xmin_def min_def)

lemma xmax_Fin [simp]: "xmax (Fin a) (Fin b) = Fin (max a b)"
  by (simp add: xmax_def max_def)

lemma std_min_min [simp]: "std_min a b = min a b"
  by (simp add: std_min_def min_def)

lemma std_max_max [simp]: "std_max a b = max a b"
  by (simp add: std_max_def max_def)

text \<open>
  \<open>std::min_element\<close> and \<open>std::max_element\<close> over a non-empty range, as the loops the standard
  describes: the first smallest and the first largest element under the given \<open><\<close>.
\<close>

fun min_element :: "('a \<Rightarrow> 'a \<Rightarrow> bool) \<Rightarrow> 'a \<Rightarrow> 'a list \<Rightarrow> 'a" where
  "min_element lt m [] = m"
| "min_element lt m (x # xs) = min_element lt (if lt x m then x else m) xs"

fun max_element :: "('a \<Rightarrow> 'a \<Rightarrow> bool) \<Rightarrow> 'a \<Rightarrow> 'a list \<Rightarrow> 'a" where
  "max_element lt m [] = m"
| "max_element lt m (x # xs) = max_element lt (if lt m x then x else m) xs"

lemma Min_Cons2: "Min (set (m # x # xs)) = Min (set (min m x # xs))" for m :: double
  by (cases "xs = []") (auto simp: min.assoc)

lemma Max_Cons2: "Max (set (m # x # xs)) = Max (set (max m x # xs))" for m :: double
  by (cases "xs = []") (auto simp: max.assoc)

lemma min_element_Fin:
  "min_element xless (Fin m) (map Fin xs) = Fin (Min (set (m # xs)))"
proof (induction xs arbitrary: m)
  case (Cons x xs)
  have "min_element xless (Fin m) (map Fin (x # xs)) = min_element xless (Fin (min m x)) (map Fin xs)"
    by (simp add: min_def)
  also have "\<dots> = Fin (Min (set (m # x # xs)))"
    by (simp only: Cons.IH Min_Cons2)
  finally show ?case .
qed simp

lemma max_element_Fin:
  "max_element xless (Fin m) (map Fin xs) = Fin (Max (set (m # xs)))"
proof (induction xs arbitrary: m)
  case (Cons x xs)
  have "max_element xless (Fin m) (map Fin (x # xs)) = max_element xless (Fin (max m x)) (map Fin xs)"
    by (simp add: max_def)
  also have "\<dots> = Fin (Max (set (m # x # xs)))"
    by (simp only: Cons.IH Max_Cons2)
  finally show ?case .
qed simp

section \<open>Ordered maps and sets\<close>

text \<open>
  \<open>std::map\<close> as an association list with strictly increasing keys. \<open>map_of\<close> is \<open>find\<close>;
  \<open>omap_put\<close> is \<open>m[k] = v\<close>; \<open>omap_ins\<close> is \<open>insert\<close>, which keeps an entry already there;
  \<open>omap_del\<close> is \<open>erase(k)\<close>; \<open>omap_touch\<close> is what the read \<open>m[k]\<close> does to the map (a missing
  key gets the default value); \<open>omap_sub\<close> is the value such a read gives.
\<close>

type_synonym ('k, 'v) omap = "('k \<times> 'v) list"

definition omap_inv :: "('k :: linorder, 'v) omap \<Rightarrow> bool" where
  "omap_inv m \<longleftrightarrow> sorted_wrt (<) (map fst m)"

fun omap_put :: "'k :: linorder \<Rightarrow> 'v \<Rightarrow> ('k, 'v) omap \<Rightarrow> ('k, 'v) omap" where
  "omap_put k v [] = [(k, v)]"
| "omap_put k v ((k', v') # m) =
     (if k < k' then (k, v) # (k', v') # m
      else if k = k' then (k, v) # m
      else (k', v') # omap_put k v m)"

fun omap_del :: "'k :: linorder \<Rightarrow> ('k, 'v) omap \<Rightarrow> ('k, 'v) omap" where
  "omap_del k [] = []"
| "omap_del k ((k', v') # m) = (if k = k' then m else (k', v') # omap_del k m)"

definition omap_sub :: "'v \<Rightarrow> ('k, 'v) omap \<Rightarrow> 'k \<Rightarrow> 'v" where
  "omap_sub d m k = (case map_of m k of None \<Rightarrow> d | Some v \<Rightarrow> v)"

definition omap_ins :: "'k :: linorder \<Rightarrow> 'v \<Rightarrow> ('k, 'v) omap \<Rightarrow> ('k, 'v) omap" where
  "omap_ins k v m = (case map_of m k of None \<Rightarrow> omap_put k v m | Some _ \<Rightarrow> m)"

definition omap_touch :: "'v \<Rightarrow> 'k :: linorder \<Rightarrow> ('k, 'v) omap \<Rightarrow> ('k, 'v) omap" where
  "omap_touch d k m = omap_ins k d m"

text \<open>\<open>m[k].push_back(x)\<close> on a map of vectors.\<close>

definition omap_push :: "'k :: linorder \<Rightarrow> 'v \<Rightarrow> ('k, 'v list) omap \<Rightarrow> ('k, 'v list) omap" where
  "omap_push k x m = omap_put k (omap_sub [] m k @ [x]) m"

lemma omap_inv_Nil [simp, intro]: "omap_inv []"
  by (simp add: omap_inv_def)

lemma omap_inv_Cons [simp]:
  "omap_inv ((k, v) # m) \<longleftrightarrow> (\<forall>k' \<in> fst ` set m. k < k') \<and> omap_inv m"
  by (auto simp: omap_inv_def)

lemma map_of_omap_put [simp, omap_simps]:
  "map_of (omap_put k v m) k' = (if k' = k then Some v else map_of m k')"
  by (induction m) auto

lemma keys_omap_put [simp, omap_simps]: "fst ` set (omap_put k v m) = insert k (fst ` set m)"
  by (induction m rule: omap_put.induct) auto

lemma omap_inv_put [simp, intro]: "omap_inv m \<Longrightarrow> omap_inv (omap_put k v m)"
  by (induction m rule: omap_put.induct) (auto simp: omap_inv_def[symmetric])

lemma omap_inv_distinct: "omap_inv m \<Longrightarrow> distinct (map fst m)"
  by (auto simp: omap_inv_def strict_sorted_iff)

lemma map_of_omap_del [omap_simps]:
  "omap_inv m \<Longrightarrow> map_of (omap_del k m) k' = (if k' = k then None else map_of m k')"
proof (induction m)
  case (Cons p m)
  obtain a b where p: "p = (a, b)" by (cases p)
  have "a \<notin> fst ` set m" using Cons.prems by (auto simp: p)
  then have "map_of m a = None" by (simp add: map_of_eq_None_iff)
  with Cons show ?case by (auto simp: p)
qed simp

lemma keys_omap_del_subset: "fst ` set (omap_del k m) \<subseteq> fst ` set m"
  by (induction m rule: omap_del.induct) auto

lemma keys_omap_del [omap_simps]: "omap_inv m \<Longrightarrow> fst ` set (omap_del k m) = fst ` set m - {k}"
  by (induction m rule: omap_del.induct) auto

lemma omap_inv_del [simp, intro]: "omap_inv m \<Longrightarrow> omap_inv (omap_del k m)"
  by (induction m rule: omap_del.induct) (auto simp: keys_omap_del)

lemma map_of_omap_ins [omap_simps]:
  "map_of (omap_ins k v m) k' =
     (if k' = k \<and> map_of m k = None then Some v else map_of m k')"
  by (auto simp: omap_ins_def split: option.splits)

lemma omap_inv_ins [simp, intro]: "omap_inv m \<Longrightarrow> omap_inv (omap_ins k v m)"
  by (auto simp: omap_ins_def split: option.splits)

lemma omap_inv_touch [simp, intro]: "omap_inv m \<Longrightarrow> omap_inv (omap_touch d k m)"
  by (simp add: omap_touch_def)

lemma omap_touch_present [simp]: "map_of m k = Some v \<Longrightarrow> omap_touch d k m = m"
  by (simp add: omap_touch_def omap_ins_def)

lemma omap_sub_touch [simp, omap_simps]: "omap_sub d (omap_touch d k m) k' = omap_sub d m k'"
  by (auto simp: omap_sub_def omap_touch_def omap_simps split: option.splits)

lemma omap_sub_put [simp, omap_simps]:
  "omap_sub d (omap_put k v m) k' = (if k' = k then v else omap_sub d m k')"
  by (simp add: omap_sub_def)

lemma omap_sub_Some: "map_of m k = Some v \<Longrightarrow> omap_sub d m k = v"
  by (simp add: omap_sub_def)

lemma omap_sub_push [omap_simps]:
  "omap_sub [] (omap_push k x m) k' = (if k' = k then omap_sub [] m k @ [x] else omap_sub [] m k')"
  by (simp add: omap_push_def)

lemma omap_inv_push [simp, intro]: "omap_inv m \<Longrightarrow> omap_inv (omap_push k x m)"
  by (simp add: omap_push_def)

lemma omap_eqI:
  assumes "omap_inv m" "omap_inv m'" "map_of m = map_of m'"
  shows "m = m'"
  using assms
proof (induction m arbitrary: m')
  case Nil
  then have "map_of m' = Map.empty" by simp
  then show ?case by simp
next
  case (Cons p m)
  obtain k v where p: "p = (k, v)" by (cases p)
  from Cons.prems(3) obtain q n where m': "m' = q # n"
    using fun_cong[OF Cons.prems(3), of k] by (cases m') (auto simp: p)
  obtain k' v' where q: "q = (k', v')" by (cases q)
  have "fst ` set (p # m) = fst ` set m'"
    using Cons.prems(3) by (metis dom_map_of_conv_image_fst)
  then have ks: "insert k (fst ` set m) = insert k' (fst ` set n)"
    by (simp add: p m' q)
  have k: "\<forall>x \<in> fst ` set m. k < x" and k': "\<forall>x \<in> fst ` set n. k' < x"
    using Cons.prems(1,2) by (auto simp: p m' q)
  have kk: "k = k'"
  proof (rule ccontr)
    assume "k \<noteq> k'"
    with ks have "k \<in> fst ` set n" "k' \<in> fst ` set m" by auto
    with k k' have "k' < k" "k < k'" by auto
    then show False by simp
  qed
  have vv: "v = v'" using Cons.prems(3) fun_cong[OF Cons.prems(3), of k] by (simp add: p m' q kk)
  have none: "map_of m k = None" "map_of n k = None"
    using k k' kk by (auto simp: map_of_eq_None_iff)
  have "map_of m = map_of n"
  proof
    fix x
    show "map_of m x = map_of n x"
      using fun_cong[OF Cons.prems(3), of x] none by (cases "x = k") (auto simp: p m' q kk)
  qed
  moreover have "omap_inv m" "omap_inv n" using Cons.prems by (auto simp: p m' q)
  ultimately have "m = n" using Cons.IH by blast
  then show ?case by (simp add: p m' q kk vv)
qed

text \<open>
  The contract the clients of \<open>std::map\<close> rely on, as an interface, and its interpretation on
  the ordered association lists.
\<close>

locale std_map =
  fixes empty :: 'm
    and put :: "'k \<Rightarrow> 'v \<Rightarrow> 'm \<Rightarrow> 'm"
    and del :: "'k \<Rightarrow> 'm \<Rightarrow> 'm"
    and find :: "'m \<Rightarrow> 'k \<Rightarrow> 'v option"
    and inv :: "'m \<Rightarrow> bool"
  assumes find_empty: "find empty k = None"
    and find_put: "inv m \<Longrightarrow> find (put k v m) k' = (if k' = k then Some v else find m k')"
    and find_del: "inv m \<Longrightarrow> find (del k m) k' = (if k' = k then None else find m k')"
    and inv_empty: "inv empty"
    and inv_put: "inv m \<Longrightarrow> inv (put k v m)"
    and inv_del: "inv m \<Longrightarrow> inv (del k m)"
begin

lemma put_all_inv: "inv m \<Longrightarrow> inv (foldl (\<lambda>m' x. put (f x) (g x) m') m xs)"
  by (induction xs arbitrary: m) (auto simp: inv_put)

text \<open>A loop of assignments: the last value assigned to a key is the one found.\<close>

lemma find_put_all:
  "inv m \<Longrightarrow> find (foldl (\<lambda>m' x. put (f x) (g x) m') m xs) k =
     (case List.find (\<lambda>x. f x = k) (rev xs) of None \<Rightarrow> find m k | Some x \<Rightarrow> Some (g x))"
  by (induction xs rule: rev_induct) (auto simp: find_put put_all_inv)

lemma del_all_inv: "inv m \<Longrightarrow> inv (foldl (\<lambda>m' x. del x m') m xs)"
  by (induction xs arbitrary: m) (auto simp: inv_del)

lemma find_del_all:
  "inv m \<Longrightarrow> find (foldl (\<lambda>m' x. del x m') m xs) k = (if k \<in> set xs then None else find m k)"
  by (induction xs rule: rev_induct) (auto simp: find_del del_all_inv)

end

interpretation om: std_map "[]" omap_put omap_del map_of omap_inv
  by unfold_locales (auto simp: map_of_omap_del)

text \<open>\<open>std::set\<close> as a strictly increasing list.\<close>

fun oset_ins :: "'a :: linorder \<Rightarrow> 'a list \<Rightarrow> 'a list" where
  "oset_ins x [] = [x]"
| "oset_ins x (y # ys) = (if x < y then x # y # ys else if x = y then y # ys else y # oset_ins x ys)"

definition oset_del :: "'a \<Rightarrow> 'a list \<Rightarrow> 'a list" where
  "oset_del x xs = filter (\<lambda>y. y \<noteq> x) xs"

definition oset_inv :: "'a :: linorder list \<Rightarrow> bool" where
  "oset_inv xs \<longleftrightarrow> sorted_wrt (<) xs"

lemma set_oset_ins [simp, omap_simps]: "set (oset_ins x xs) = insert x (set xs)"
  by (induction xs) auto

lemma set_oset_del [simp, omap_simps]: "set (oset_del x xs) = set xs - {x}"
  by (auto simp: oset_del_def)

lemma oset_inv_ins [simp, intro]: "oset_inv xs \<Longrightarrow> oset_inv (oset_ins x xs)"
  by (induction xs) (auto simp: oset_inv_def)

lemma oset_inv_del [simp, intro]: "oset_inv xs \<Longrightarrow> oset_inv (oset_del x xs)"
  by (simp add: oset_inv_def oset_del_def sorted_wrt_filter)

lemma oset_inv_Nil [simp, intro]: "oset_inv []"
  by (simp add: oset_inv_def)

lemma oset_inv_distinct: "oset_inv xs \<Longrightarrow> distinct xs"
  by (simp add: oset_inv_def strict_sorted_iff)

lemma oset_eq: "oset_inv xs \<Longrightarrow> xs = sorted_list_of_set (set xs)"
  by (simp add: oset_inv_def strict_sorted_equal)

section \<open>Stable sorting\<close>

text \<open>
  \<open>std::stable_sort(first, last, cmp)\<close> under the contract the C++ standard gives it: the
  result is ordered by \<open>cmp\<close> and elements that \<open>cmp\<close> does not separate keep their order.
  For a strict weak order this determines the result, and insertion from the right computes it.
\<close>

fun stable_insert :: "('a \<Rightarrow> 'a \<Rightarrow> bool) \<Rightarrow> 'a \<Rightarrow> 'a list \<Rightarrow> 'a list" where
  "stable_insert cmp x [] = [x]"
| "stable_insert cmp x (y # ys) =
     (if cmp y x then y # stable_insert cmp x ys else x # y # ys)"

definition stable_sort :: "('a \<Rightarrow> 'a \<Rightarrow> bool) \<Rightarrow> 'a list \<Rightarrow> 'a list" where
  "stable_sort cmp xs = foldr (stable_insert cmp) xs []"

lemma mset_stable_insert [simp]: "mset (stable_insert cmp x xs) = add_mset x (mset xs)"
  by (induction xs) auto

lemma mset_stable_sort [simp]: "mset (stable_sort cmp xs) = mset xs"
  by (induction xs) (auto simp: stable_sort_def)

lemma set_stable_insert [simp]: "set (stable_insert cmp x xs) = insert x (set xs)"
  by (induction xs) auto

lemma set_stable_sort [simp]: "set (stable_sort cmp xs) = set xs"
  by (metis mset_stable_sort set_mset_mset)

lemma length_stable_sort [simp]: "length (stable_sort cmp xs) = length xs"
  by (metis mset_stable_sort size_mset)

lemma distinct_stable_sort [simp]: "distinct (stable_sort cmp xs) = distinct xs"
  by (metis mset_eq_imp_distinct_iff mset_stable_sort)

lemma stable_sort_Cons: "stable_sort cmp (x # xs) = stable_insert cmp x (stable_sort cmp xs)"
  by (simp add: stable_sort_def)

lemma stable_insert_cong:
  "(\<And>y. y \<in> set ys \<Longrightarrow> c y x = d y x) \<Longrightarrow> stable_insert c x ys = stable_insert d x ys"
  by (induction ys) auto

lemma stable_sort_cong:
  "(\<And>x y. x \<in> set xs \<Longrightarrow> y \<in> set xs \<Longrightarrow> c x y = d x y) \<Longrightarrow> stable_sort c xs = stable_sort d xs"
proof (induction xs)
  case (Cons x xs)
  have "stable_insert c x (stable_sort d xs) = stable_insert d x (stable_sort d xs)"
    by (rule stable_insert_cong) (use Cons.prems in simp)
  then show ?case using Cons by (simp add: stable_sort_Cons)
qed (simp add: stable_sort_def)

text \<open>
  The requirement \<open>Compare\<close> of the C++ standard on a comparison used for sorting: a strict weak
  order. Sorting by it is correct and stable.
\<close>

locale compare =
  fixes cmp :: "'a \<Rightarrow> 'a \<Rightarrow> bool"
  assumes asym: "cmp x y \<Longrightarrow> \<not> cmp y x"
    and co_trans: "cmp x z \<Longrightarrow> cmp x y \<or> cmp y z"
begin

definition equiv :: "'a \<Rightarrow> 'a \<Rightarrow> bool" where
  "equiv x y \<longleftrightarrow> \<not> cmp x y \<and> \<not> cmp y x"

lemma not_comp_trans: "\<not> cmp y x \<Longrightarrow> \<not> cmp z y \<Longrightarrow> \<not> cmp z x"
  using co_trans by blast

lemma sorted_insert:
  assumes "sorted_wrt (\<lambda>a b. \<not> cmp b a) xs"
  shows "sorted_wrt (\<lambda>a b. \<not> cmp b a) (stable_insert cmp x xs)"
  using assms
proof (induction xs)
  case (Cons y ys)
  show ?case
  proof (cases "cmp y x")
    case True
    with Cons asym show ?thesis by auto
  next
    case False
    with Cons.prems not_comp_trans show ?thesis by auto
  qed
qed simp

lemma sorted_stable_sort: "sorted_wrt (\<lambda>a b. \<not> cmp b a) (stable_sort cmp xs)"
  by (induction xs) (auto simp: stable_sort_Cons sorted_insert stable_sort_def)

lemma filter_stable_insert_eq:
  assumes "sorted_wrt (\<lambda>a b. \<not> cmp b a) xs" "equiv z x"
  shows "filter (equiv z) (stable_insert cmp x xs) = x # filter (equiv z) xs"
  using assms(1)
proof (induction xs)
  case (Cons y ys)
  show ?case
  proof (cases "cmp y x")
    case True
    then have "\<not> equiv z y" using assms(2) co_trans unfolding equiv_def by blast
    with True Cons show ?thesis by simp
  qed (use assms(2) in simp)
qed (use assms(2) in simp)

lemma filter_stable_insert_neq:
  "\<not> equiv z x \<Longrightarrow> filter (equiv z) (stable_insert cmp x xs) = filter (equiv z) xs"
  by (induction xs) auto

lemma stable_sort_stable: "filter (equiv z) (stable_sort cmp xs) = filter (equiv z) xs"
proof (induction xs)
  case (Cons x xs)
  show ?case
  proof (cases "equiv z x")
    case True
    with Cons filter_stable_insert_eq[OF sorted_stable_sort True] show ?thesis
      by (simp add: stable_sort_Cons)
  next
    case False
    with Cons show ?thesis by (simp add: stable_sort_Cons filter_stable_insert_neq)
  qed
qed (simp add: stable_sort_def)

end

section \<open>Sums over lists\<close>

lemma sum_list_map_mset:
  fixes f :: "'a \<Rightarrow> double"
  assumes "mset xs = mset ys"
  shows "sum_list (map f xs) = sum_list (map f ys)"
proof -
  have "mset (map f xs) = mset (map f ys)" using assms by simp
  then show ?thesis by (metis sum_mset_sum_list)
qed

lemma sum_list_filter_le:
  fixes f :: "'a \<Rightarrow> double"
  assumes "\<And>x. x \<in> set xs \<Longrightarrow> 0 \<le> f x"
  shows "sum_list (map f (filter P xs)) \<le> sum_list (map f xs)"
  using assms by (induction xs) (auto simp: add_increasing)

lemma foldl_plus_sum_list: "foldl (\<lambda>a x. a + f x) c xs = c + sum_list (map f xs)"
  for c :: double
  by (induction xs arbitrary: c) auto

text \<open>An accumulation from the left.\<close>

lemma foldl_sum: "foldl (+) (a :: double) qs = a + sum_list qs"
  by (induction qs arbitrary: a) auto

end
