(* ===== verification/Comp_Math.thy ===== *)
theory Comp_Math
  imports Cyclus_Prelude
begin

text \<open>
  cyc_limits.h, cyc_arithmetic.{h,cc} and comp_math.{h,cc}: tolerances, summation, and the
  operations on nuclide vectors (\<open>CompMap\<close>). The global tolerances \<open>cy_eps\<close> and \<open>cy_eps_rsrc\<close>
  are set by the input file, so they are arguments here. Summation is modelled over an arbitrary
  rounding function \<open>fl\<close>: every arithmetic operation of the C++ code is the exact operation
  followed by \<open>fl\<close>, and \<open>fl = id\<close> is the exact arithmetic the other theories use.
\<close>

section \<open>Tolerances\<close>

definition IsNegative :: "double \<Rightarrow> double \<Rightarrow> bool" where
  "IsNegative cy_eps d \<longleftrightarrow> d < (-1) * cy_eps"

definition AlmostEq_dbl :: "double \<Rightarrow> double \<Rightarrow> double \<Rightarrow> bool" where
  "AlmostEq_dbl cy_eps d1 d2 \<longleftrightarrow> \<bar>d1 - d2\<bar> < cy_eps"

text \<open>\<open>static const double float_ulp_eq = 2\<close>, and \<open>std::numeric_limits<double>::max()\<close>.\<close>

definition float_ulp_eq :: double where
  "float_ulp_eq = 2"

definition DBL_MAX :: double where
  "DBL_MAX = (2 - 1 / 2 ^ 52) * 2 ^ 1023"

section \<open>Summation\<close>

definition sort_ascending :: "double list \<Rightarrow> double list" where
  "sort_ascending to_sort = sort to_sort"

definition sort_ascending_map :: "(int, double) omap \<Rightarrow> double list" where
  "sort_ascending_map to_sort = sort_ascending (map snd to_sort)"

fun kahan_loop :: "(double \<Rightarrow> double) \<Rightarrow> double \<Rightarrow> double \<Rightarrow> double list \<Rightarrow> double" where
  "kahan_loop fl s c [] = s"
| "kahan_loop fl s c (x # input) =
     (let y = fl (x - c);
          t = fl (s + y);
          c' = fl (fl (t - s) - y)
      in kahan_loop fl t c' input)"

definition KahanSum_fl :: "(double \<Rightarrow> double) \<Rightarrow> double list \<Rightarrow> double" where
  "KahanSum_fl fl input = kahan_loop fl 0 0 (sort_ascending input)"

definition KahanSum :: "double list \<Rightarrow> double" where
  "KahanSum = KahanSum_fl id"

lemma kahan_loop_exact: "kahan_loop id s 0 xs = s + sum_list xs"
  by (induction xs arbitrary: s) (auto simp: Let_def)

lemma KahanSum_exact [simp]: "KahanSum xs = sum_list xs"
proof -
  have "sum_list (sort xs) = sum_list xs"
    using sum_list_map_mset[of "sort xs" xs "\<lambda>x. x"] by simp
  then show ?thesis
    by (simp add: KahanSum_def KahanSum_fl_def kahan_loop_exact sort_ascending_def)
qed

lemma KahanSum_fl_perm: "mset xs = mset ys \<Longrightarrow> KahanSum_fl fl xs = KahanSum_fl fl ys"
  by (metis KahanSum_fl_def sort_ascending_def mset_sort properties_for_sort sorted_sort)

section \<open>Nuclide vectors\<close>

type_synonym Nuc = int
type_synonym CompMap = "(Nuc, double) omap"

text \<open>The quantity of a nuclide; a nuclide that is not in the map counts as zero.\<close>

abbreviation nuc_qty :: "CompMap \<Rightarrow> Nuc \<Rightarrow> double" where
  "nuc_qty \<equiv> omap_sub 0"

fun compmath_Add :: "CompMap \<Rightarrow> CompMap \<Rightarrow> CompMap" where
  "compmath_Add out [] = out"
| "compmath_Add out ((nuc, q) # v2) = compmath_Add (omap_put nuc (nuc_qty out nuc + q) out) v2"

fun compmath_Sub :: "CompMap \<Rightarrow> CompMap \<Rightarrow> CompMap" where
  "compmath_Sub out [] = out"
| "compmath_Sub out ((nuc, q) # v2) = compmath_Sub (omap_put nuc (nuc_qty out nuc - q) out) v2"

definition compmath_Sum :: "CompMap \<Rightarrow> double" where
  "compmath_Sum v = KahanSum (map snd v)"

definition compmath_ApplyThreshold :: "double \<Rightarrow> CompMap \<Rightarrow> (CompMap, unit) exec" where
  "compmath_ApplyThreshold threshold v =
     (if threshold < 0 then throw ValueError v
      else ok () (filter (\<lambda>(nuc, q). \<not> \<bar>q\<bar> \<le> threshold) v))"

definition compmath_Normalize :: "double \<Rightarrow> CompMap \<Rightarrow> CompMap" where
  "compmath_Normalize val v =
     (let total = compmath_Sum v
      in if total \<noteq> val \<and> total \<noteq> 0
         then let mult = val / total in map (\<lambda>(nuc, q). (nuc, q * mult)) v
         else v)"

text \<open>\<open>pyne::nucname::isnuclide\<close> is an argument.\<close>

definition compmath_ValidNucs :: "(Nuc \<Rightarrow> bool) \<Rightarrow> CompMap \<Rightarrow> bool" where
  "compmath_ValidNucs isnuclide v \<longleftrightarrow> list_all (\<lambda>(nuc, q). isnuclide nuc) v"

definition compmath_AllPositive :: "CompMap \<Rightarrow> bool" where
  "compmath_AllPositive v \<longleftrightarrow> list_all (\<lambda>(nuc, q). \<not> q < 0) v"

text \<open>The body of the loop of \<open>AlmostEq\<close> on one nuclide: whether the loop goes on.\<close>

definition nuc_close :: "double \<Rightarrow> double \<Rightarrow> double \<Rightarrow> bool" where
  "nuc_close threshold minuend subtrahend =
     (let diff = minuend - subtrahend
      in if \<bar>minuend\<bar> = 0 \<or> \<bar>subtrahend\<bar> = 0
         then \<not> \<bar>diff\<bar> > \<bar>diff\<bar> * threshold
         else \<not> (\<bar>diff\<bar> > \<bar>minuend\<bar> * threshold \<or> \<bar>diff\<bar> > \<bar>subtrahend\<bar> * threshold))"

fun almost_eq_loop :: "double \<Rightarrow> CompMap \<Rightarrow> CompMap \<Rightarrow> CompMap \<Rightarrow> bool" where
  "almost_eq_loop threshold n1 n2 [] = True"
| "almost_eq_loop threshold n1 n2 ((nuc, _) # it) =
     (if map_of n2 nuc = None then False
      else if nuc_close threshold (nuc_qty n2 nuc) (nuc_qty n1 nuc)
      then almost_eq_loop threshold n1 n2 it else False)"

definition compmath_AlmostEq :: "CompMap \<Rightarrow> CompMap \<Rightarrow> double \<Rightarrow> exn + bool" where
  "compmath_AlmostEq v1 v2 threshold =
     (if threshold < 0 then Inl ValueError
      else if length v1 \<noteq> length v2 then Inr False
      else if v1 = [] \<and> v2 = [] then Inr True
      else Inr (almost_eq_loop threshold v1 v2 v1))"

subsection \<open>Invariants and lookups\<close>

lemma omap_inv_Add [simp, intro]: "omap_inv v1 \<Longrightarrow> omap_inv (compmath_Add v1 v2)"
  by (induction v1 v2 rule: compmath_Add.induct) auto

lemma omap_inv_Sub [simp, intro]: "omap_inv v1 \<Longrightarrow> omap_inv (compmath_Sub v1 v2)"
  by (induction v1 v2 rule: compmath_Sub.induct) auto

lemma nuc_qty_Cons [simp]:
  "nuc_qty ((n, q) # v) k = (if k = n then q else nuc_qty v k)"
  by (simp add: omap_sub_def)

lemma nuc_qty_notin: "k \<notin> fst ` set v \<Longrightarrow> nuc_qty v k = 0"
  by (metis map_of_eq_None_iff omap_sub_def option.simps(4))

lemma nuc_qty_Add [omap_simps]:
  "omap_inv v2 \<Longrightarrow> nuc_qty (compmath_Add v1 v2) k = nuc_qty v1 k + nuc_qty v2 k"
proof (induction v1 v2 rule: compmath_Add.induct)
  case (2 out nuc q v2)
  then have "nuc \<notin> fst ` set v2" by auto
  with 2 show ?case by (auto simp: nuc_qty_notin)
qed (simp add: omap_sub_def)

lemma nuc_qty_Sub [omap_simps]:
  "omap_inv v2 \<Longrightarrow> nuc_qty (compmath_Sub v1 v2) k = nuc_qty v1 k - nuc_qty v2 k"
proof (induction v1 v2 rule: compmath_Sub.induct)
  case (2 out nuc q v2)
  then have "nuc \<notin> fst ` set v2" by auto
  with 2 show ?case by (auto simp: nuc_qty_notin)
qed (simp add: omap_sub_def)

lemma keys_Add: "fst ` set (compmath_Add v1 v2) = fst ` set v1 \<union> fst ` set v2"
  by (induction v1 v2 rule: compmath_Add.induct) auto

lemma keys_Sub: "fst ` set (compmath_Sub v1 v2) = fst ` set v1 \<union> fst ` set v2"
  by (induction v1 v2 rule: compmath_Sub.induct) auto

lemma map_of_keys: "map_of v k = (if k \<in> fst ` set v then Some (nuc_qty v k) else None)"
  by (auto simp: omap_sub_def map_of_eq_None_iff split: option.splits)

lemma CompMap_eqI:
  assumes "omap_inv v" "omap_inv w" "fst ` set v = fst ` set w" "\<And>k. nuc_qty v k = nuc_qty w k"
  shows "v = w"
  using assms by (intro omap_eqI) (auto simp: map_of_keys)

lemma nuc_qty_filter:
  "omap_inv v \<Longrightarrow>
   nuc_qty (filter (\<lambda>(n, q). P q) v) k = (if P (nuc_qty v k) then nuc_qty v k else 0)"
proof (induction v)
  case (Cons x v)
  obtain n q where x: "x = (n, q)" by (cases x)
  have "n \<notin> fst ` set v" using Cons.prems by (auto simp: x)
  then have "nuc_qty v n = 0" "nuc_qty (filter (\<lambda>(n, q). P q) v) n = 0"
    by (auto intro!: nuc_qty_notin)
  with Cons show ?case by (auto simp: x)
qed (simp add: omap_sub_def)

lemma omap_inv_filter [simp, intro]: "omap_inv v \<Longrightarrow> omap_inv (filter P v)"
  by (induction v) auto

lemma map_scale: "map_of (map (\<lambda>(n, q). (n, q * m)) v) k = map_option (\<lambda>q. q * m) (map_of v k)"
  by (induction v) auto

lemma keys_Normalize [simp]: "map fst (compmath_Normalize val v) = map fst v"
  by (auto simp: compmath_Normalize_def Let_def)

lemma omap_inv_Normalize [simp, intro]: "omap_inv v \<Longrightarrow> omap_inv (compmath_Normalize val v)"
  unfolding omap_inv_def keys_Normalize .

lemma Normalize_scale:
  assumes "compmath_Sum v \<noteq> 0"
  shows "compmath_Normalize val v = map (\<lambda>(n, q). (n, q * (val / compmath_Sum v))) v"
proof (cases "compmath_Sum v = val")
  case True
  then have "val / compmath_Sum v = 1" using assms by simp
  then have "map (\<lambda>(n, q). (n, q * (val / compmath_Sum v))) v = v"
    by (simp only: mult_1_right case_prod_eta) simp
  with True show ?thesis by (simp add: compmath_Normalize_def)
next
  case False
  with assms show ?thesis by (simp add: compmath_Normalize_def Let_def)
qed

lemma nuc_qty_Normalize:
  assumes "compmath_Sum v \<noteq> 0"
  shows "nuc_qty (compmath_Normalize val v) k = nuc_qty v k * (val / compmath_Sum v)"
  unfolding Normalize_scale[OF assms] omap_sub_def map_scale by (cases "map_of v k") simp_all

subsection \<open>Sums\<close>

lemma compmath_Sum_eq: "compmath_Sum v = sum_list (map snd v)"
  by (simp add: compmath_Sum_def)

lemma compmath_Sum_Nil [simp]: "compmath_Sum [] = 0"
  by (simp add: compmath_Sum_eq)

lemma compmath_Sum_Cons [simp]: "compmath_Sum ((n, q) # v) = q + compmath_Sum v"
  by (simp add: compmath_Sum_eq)

lemma Sum_put: "compmath_Sum (omap_put k q v) = compmath_Sum v - nuc_qty v k + q" if "omap_inv v"
  using that
proof (induction k q v rule: omap_put.induct)
  case (1 k v)
  then show ?case by (simp add: compmath_Sum_eq omap_sub_def)
next
  case (2 k v k' v' m)
  have "k \<notin> fst ` set m" if "k < k'" using 2(2) that by fastforce
  with 2 show ?case by (auto simp: compmath_Sum_eq nuc_qty_notin)
qed

lemma Sum_Add:
  "omap_inv v1 \<Longrightarrow> compmath_Sum (compmath_Add v1 v2) = compmath_Sum v1 + compmath_Sum v2"
  by (induction v1 v2 rule: compmath_Add.induct) (simp_all add: Sum_put)

lemma Sum_Sub:
  "omap_inv v1 \<Longrightarrow> compmath_Sum (compmath_Sub v1 v2) = compmath_Sum v1 - compmath_Sum v2"
  by (induction v1 v2 rule: compmath_Sub.induct) (simp_all add: Sum_put)

lemma Sum_scale: "sum_list (map snd (map (\<lambda>(n, q). (n, q * m)) v)) = sum_list (map snd v) * m"
  for m :: double
  by (induction v) (auto simp: algebra_simps)

lemma Sum_Normalize:
  assumes "compmath_Sum v \<noteq> 0"
  shows "compmath_Sum (compmath_Normalize val v) = val"
  using assms Sum_scale[of "val / compmath_Sum v" v]
  by (simp only: Normalize_scale[OF assms] compmath_Sum_eq) simp

lemma Sum_nonneg: "compmath_AllPositive v \<Longrightarrow> 0 \<le> compmath_Sum v"
  by (induction v) (auto simp: compmath_AllPositive_def)

lemma AllPositive_Normalize:
  "compmath_AllPositive v \<Longrightarrow> 0 \<le> val \<Longrightarrow> compmath_AllPositive (compmath_Normalize val v)"
  using Sum_nonneg[of v]
  by (auto simp: compmath_Normalize_def Let_def compmath_AllPositive_def list_all_iff not_less
      intro!: mult_nonneg_nonneg divide_nonneg_nonneg)

subsection \<open>Comparison\<close>

lemma almost_eq_loop_iff:
  "almost_eq_loop thr n1 n2 it \<longleftrightarrow>
     (\<forall>n \<in> fst ` set it. n \<in> fst ` set n2 \<and> nuc_close thr (nuc_qty n2 n) (nuc_qty n1 n))"
  by (induction thr n1 n2 it rule: almost_eq_loop.induct) (auto simp: map_of_eq_None_iff)

lemma nuc_close_sym: "nuc_close thr a b = nuc_close thr b a"
  by (auto simp: nuc_close_def Let_def abs_minus_commute)

lemma nuc_close_refl: "0 \<le> thr \<Longrightarrow> nuc_close thr a a"
  by (simp add: nuc_close_def not_less)

lemma omap_same_keys:
  assumes "omap_inv v1" "omap_inv v2" "length v1 = length v2" "fst ` set v1 \<subseteq> fst ` set v2"
  shows "fst ` set v1 = fst ` set v2"
proof -
  have "card (fst ` set v1) = length v1" "card (fst ` set v2) = length v2"
    using assms(1,2)[THEN omap_inv_distinct] distinct_card[of "map fst v1"] distinct_card[of "map fst v2"]
    by simp_all
  then show ?thesis using assms(3,4) by (intro card_subset_eq) auto
qed

lemma AlmostEq_True_iff:
  assumes "omap_inv v1" "omap_inv v2" "0 \<le> thr"
  shows "compmath_AlmostEq v1 v2 thr = Inr True \<longleftrightarrow>
     fst ` set v1 = fst ` set v2 \<and>
     (\<forall>n \<in> fst ` set v1. nuc_close thr (nuc_qty v2 n) (nuc_qty v1 n))"
proof -
  have len: "length v1 = length v2" if "fst ` set v1 = fst ` set v2"
    using that assms(1,2)[THEN omap_inv_distinct] distinct_card[of "map fst v1"]
      distinct_card[of "map fst v2"] by simp
  have eq: "compmath_AlmostEq v1 v2 thr = Inr True \<longleftrightarrow>
     length v1 = length v2 \<and> almost_eq_loop thr v1 v2 v1"
    using assms(3) by (auto simp: compmath_AlmostEq_def)
  have sub: "fst ` set v1 = fst ` set v2"
    if "length v1 = length v2" "almost_eq_loop thr v1 v2 v1"
    using that omap_same_keys[OF assms(1,2)] unfolding almost_eq_loop_iff by blast
  show ?thesis
    using eq len sub unfolding almost_eq_loop_iff by metis
qed

subsection \<open>Properties\<close>

text \<open>The summation used for every mass total sorts its input first, so under any rounding
  of the floating-point operations its result depends only on which values are summed, not on
  the order they are given in; with exact operations the compensation term vanishes and the
  result is the sum.\<close>

theorem KahanSum_order_independent:
  assumes "mset xs = mset ys"
  shows "KahanSum_fl fl xs = KahanSum_fl fl ys \<and> KahanSum_fl id xs = sum_list ys"
  using KahanSum_fl_perm[OF assms] KahanSum_fl_perm[OF assms, of id] KahanSum_exact[of ys]
  by (simp add: KahanSum_def)

theorem KahanSum_order_independent_witness:
  "KahanSum_fl (\<lambda>x. of_int (round x)) [1, 5 / 2, 3] = KahanSum_fl (\<lambda>x. of_int (round x)) [3, 1, 5 / 2] \<and>
   KahanSum_fl id [1, 5 / 2, 3] = sum_list [3, 1, 5 / 2]"
proof -
  have h: "mset [1, 5 / 2, 3 :: double] = mset [3, 1, 5 / 2]" by simp
  show ?thesis by (rule KahanSum_order_independent [OF h])
qed

text \<open>Mixing two nuclide vectors the way a material absorbs another (each normalised to its
  own mass, then added) conserves mass: the total is the sum of the two masses, every nuclide has
  the mass-weighted amount of the two parts, and no amount becomes negative.\<close>

theorem mixing_conserves_mass:
  assumes "omap_inv v1" "omap_inv v2" "compmath_Sum v1 \<noteq> 0" "compmath_Sum v2 \<noteq> 0"
    and "compmath_AllPositive v1" "compmath_AllPositive v2" "0 \<le> m1" "0 \<le> m2"
  shows "compmath_Sum (compmath_Add (compmath_Normalize m1 v1) (compmath_Normalize m2 v2)) = m1 + m2
    \<and> nuc_qty (compmath_Add (compmath_Normalize m1 v1) (compmath_Normalize m2 v2)) n =
        m1 * (nuc_qty v1 n / compmath_Sum v1) + m2 * (nuc_qty v2 n / compmath_Sum v2)
    \<and> 0 \<le> nuc_qty (compmath_Add (compmath_Normalize m1 v1) (compmath_Normalize m2 v2)) n"
proof -
  have pos: "0 \<le> nuc_qty v n" if "compmath_AllPositive v" for v
    using that by (induction v) (auto simp: compmath_AllPositive_def omap_sub_def)
  have "0 \<le> nuc_qty (compmath_Normalize m1 v1) n" "0 \<le> nuc_qty (compmath_Normalize m2 v2) n"
    by (rule pos, rule AllPositive_Normalize, fact, fact)+
  then show ?thesis
    using assms by (simp add: Sum_Add Sum_Normalize nuc_qty_Add nuc_qty_Normalize mult.commute)
qed

theorem mixing_conserves_mass_witness:
  "compmath_Sum (compmath_Add (compmath_Normalize 2 [(922350000, 1), (922380000, 3)])
      (compmath_Normalize 1 [(922380000, 5)])) = 3"
proof -
  have "omap_inv [(922350000 :: Nuc, 1 :: double), (922380000, 3)]"
    and "omap_inv [(922380000 :: Nuc, 5 :: double)]"
    and "compmath_Sum [(922350000, 1), (922380000, 3)] \<noteq> 0" and "compmath_Sum [(922380000, 5)] \<noteq> 0"
    and "compmath_AllPositive [(922350000, 1), (922380000, 3)]"
    and "compmath_AllPositive [(922380000, 5)]"
    by (simp_all add: compmath_AllPositive_def)
  from mixing_conserves_mass [OF this, of 2 1] show ?thesis by simp
qed

text \<open>The tolerance comparison of two nuclide vectors does not depend on the order of its
  arguments and accepts every vector as equal to itself; a negative threshold is an error in
  both orders.\<close>

theorem AlmostEq_symmetric:
  assumes "omap_inv v1" "omap_inv v2"
  shows "compmath_AlmostEq v1 v2 thr = compmath_AlmostEq v2 v1 thr \<and>
    (0 \<le> thr \<longrightarrow> compmath_AlmostEq v1 v1 thr = Inr True)"
proof (cases "0 \<le> thr")
  case True
  have sym: "compmath_AlmostEq v1 v2 thr = Inr True \<longleftrightarrow> compmath_AlmostEq v2 v1 thr = Inr True"
    unfolding AlmostEq_True_iff[OF assms True] AlmostEq_True_iff[OF assms(2,1) True]
    using nuc_close_sym by metis
  have "\<exists>b. compmath_AlmostEq v w thr = Inr b" for v w
    using True by (auto simp: compmath_AlmostEq_def)
  then obtain b c where "compmath_AlmostEq v1 v2 thr = Inr b" "compmath_AlmostEq v2 v1 thr = Inr c"
    by blast
  with sym have "compmath_AlmostEq v1 v2 thr = compmath_AlmostEq v2 v1 thr" by (cases b; cases c) auto
  then show ?thesis
    using AlmostEq_True_iff[OF assms(1) assms(1) True] nuc_close_refl[OF True] by blast
qed (simp add: compmath_AlmostEq_def)

theorem AlmostEq_symmetric_witness:
  "compmath_AlmostEq [(10010000, 1)] [(10010000, 3 / 2)] 1 =
   compmath_AlmostEq [(10010000, 3 / 2)] [(10010000, 1)] 1"
proof -
  have "omap_inv [(10010000 :: Nuc, 1 :: double)]" "omap_inv [(10010000 :: Nuc, 3 / 2 :: double)]"
    by simp_all
  from AlmostEq_symmetric [OF this, of 1] show ?thesis by blast
qed

end
