(* ===== verification/World.thy ===== *)
theory World
  imports Comp_Math
begin

text \<open>
  The objects of a simulation that hold matter, as an explicit store. \<open>Composition\<close>,
  \<open>Material\<close> and \<open>Product\<close> objects are reached through shared pointers and changed in place, so
  they live in partial maps from addresses; the static counters of the classes, the part of the
  \<open>Context\<close> they read (time, decay mode, time step) and the rows they send to the recorder are
  fields of the same record. Counters are unbounded integers: the wrap-around of a 32-bit
  counter after \<open>2^31\<close> objects is not modelled.
\<close>

text \<open>
  Nuclear data and the decay solver come from the bundled third-party PyNE library and its data
  tables; they are arguments of the definitions that use them.
\<close>

record nucdata =
  isnuclide :: "Nuc \<Rightarrow> bool"
  atomic_mass :: "Nuc \<Rightarrow> double"
  decay_const :: "Nuc \<Rightarrow> double"
  pyne_decay :: "CompMap \<Rightarrow> double \<Rightarrow> CompMap"

text \<open>class Composition; \<open>decay_line\<close> points to the chain shared by all compositions decayed from
  the same one.\<close>

record composition =
  comp_id :: int
  comp_recorded :: bool
  comp_atom :: CompMap
  comp_mass :: CompMap
  prev_decay :: int
  decay_line :: ptr

type_synonym chain = "(int, ptr) omap"

text \<open>
  class Resource with its two subclasses. The members of the embedded \<open>ResTracker\<close> are the
  fields \<open>parent1\<close> to \<open>tracker_res\<close>: \<open>tracker_res\<close> is the tracker's back pointer, which after the
  implicit copy in \<open>Clone\<close> still names the original object.
\<close>

datatype res_body =
    MatBody (mat_comp: ptr) (mat_prev_decay_time: int)
  | ProdBody (prod_quality: string)

record resource =
  state_id :: int
  obj_id :: int
  quantity :: double
  has_ctx :: bool
  parent1 :: int
  parent2 :: int
  tracked :: bool
  tracker_res :: ptr
  body :: res_body

text \<open>The rows written through \<open>Context::NewDatum\<close>, one constructor per table.\<close>

datatype row =
    Resources (row_id: int) (row_obj: int) (row_type: string) (row_time: int) (row_qty: double)
      (row_units: string) (row_qual: int) (row_parent1: int) (row_parent2: int)
  | ResCreators int int
  | MaterialInfo int int
  | Compositions int Nuc double
  | Products int string

record world =
  w_res :: "ptr \<rightharpoonup> resource"
  w_comp :: "ptr \<rightharpoonup> composition"
  w_chain :: "ptr \<rightharpoonup> chain"
  w_next :: ptr
  nextstate_id :: int
  nextobj_id :: int
  next_comp_id :: int
  qualids :: "(string \<times> int) list"
  next_qualid :: int
  w_time :: int
  w_decay :: string
  w_dt :: nat
  w_db :: "row list"

definition init_world :: "string \<Rightarrow> nat \<Rightarrow> world" where
  "init_world decay dt =
     \<lparr>w_res = Map.empty, w_comp = Map.empty, w_chain = Map.empty, w_next = 0,
      nextstate_id = 1, nextobj_id = 1, next_comp_id = 1, qualids = [], next_qualid = 1,
      w_time = 0, w_decay = decay, w_dt = dt, w_db = []\<rparr>"

text \<open>Accessors and updates of the store; a dangling address is undefined behaviour.\<close>

definition upd_res :: "ptr \<Rightarrow> (resource \<Rightarrow> resource) \<Rightarrow> world \<Rightarrow> world" where
  "upd_res p f w = w\<lparr>w_res := (w_res w)(p := map_option f (w_res w p))\<rparr>"

definition upd_comp :: "ptr \<Rightarrow> (composition \<Rightarrow> composition) \<Rightarrow> world \<Rightarrow> world" where
  "upd_comp p f w = w\<lparr>w_comp := (w_comp w)(p := map_option f (w_comp w p))\<rparr>"

definition with_res :: "ptr \<Rightarrow> world \<Rightarrow> (resource \<Rightarrow> (world, 'a) exec) \<Rightarrow> (world, 'a) exec" where
  "with_res p w f = (case w_res w p of None \<Rightarrow> throw Undefined w | Some r \<Rightarrow> f r)"

definition with_comp :: "ptr \<Rightarrow> world \<Rightarrow> (composition \<Rightarrow> (world, 'a) exec) \<Rightarrow> (world, 'a) exec" where
  "with_comp p w f = (case w_comp w p of None \<Rightarrow> throw Undefined w | Some c \<Rightarrow> f c)"

definition emit :: "row \<Rightarrow> world \<Rightarrow> world" where
  "emit r w = w\<lparr>w_db := w_db w @ [r]\<rparr>"

lemma upd_res_sel [simp]:
  "w_res (upd_res p f w) = (w_res w)(p := map_option f (w_res w p))"
  "w_comp (upd_res p f w) = w_comp w" "w_chain (upd_res p f w) = w_chain w"
  "w_next (upd_res p f w) = w_next w" "nextstate_id (upd_res p f w) = nextstate_id w"
  "nextobj_id (upd_res p f w) = nextobj_id w" "next_comp_id (upd_res p f w) = next_comp_id w"
  "w_time (upd_res p f w) = w_time w" "w_decay (upd_res p f w) = w_decay w"
  "w_dt (upd_res p f w) = w_dt w" "w_db (upd_res p f w) = w_db w"
  "qualids (upd_res p f w) = qualids w" "next_qualid (upd_res p f w) = next_qualid w"
  by (simp_all add: upd_res_def)

lemma upd_comp_sel [simp]:
  "w_comp (upd_comp p g w) = (w_comp w)(p := map_option g (w_comp w p))"
  "w_res (upd_comp p g w) = w_res w" "w_chain (upd_comp p g w) = w_chain w"
  "w_next (upd_comp p g w) = w_next w" "nextstate_id (upd_comp p g w) = nextstate_id w"
  "nextobj_id (upd_comp p g w) = nextobj_id w" "next_comp_id (upd_comp p g w) = next_comp_id w"
  "w_time (upd_comp p g w) = w_time w" "w_decay (upd_comp p g w) = w_decay w"
  "w_dt (upd_comp p g w) = w_dt w" "w_db (upd_comp p g w) = w_db w"
  "qualids (upd_comp p g w) = qualids w" "next_qualid (upd_comp p g w) = next_qualid w"
  by (simp_all add: upd_comp_def)

lemma emit_sel [simp]:
  "w_res (emit r w) = w_res w" "w_comp (emit r w) = w_comp w" "w_chain (emit r w) = w_chain w"
  "w_next (emit r w) = w_next w" "nextstate_id (emit r w) = nextstate_id w"
  "nextobj_id (emit r w) = nextobj_id w" "next_comp_id (emit r w) = next_comp_id w"
  "w_time (emit r w) = w_time w" "w_decay (emit r w) = w_decay w" "w_dt (emit r w) = w_dt w"
  "w_db (emit r w) = w_db w @ [r]"
  "qualids (emit r w) = qualids w" "next_qualid (emit r w) = next_qualid w"
  by (simp_all add: emit_def)

lemma with_res_Some [simp]: "w_res w p = Some r \<Longrightarrow> with_res p w f = f r"
  by (simp add: with_res_def)

lemma with_comp_Some [simp]: "w_comp w p = Some c \<Longrightarrow> with_comp p w g = g c"
  by (simp add: with_comp_def)

lemma with_res_Inr: "with_res p w f = (Inr a, w') \<Longrightarrow> \<exists>r. w_res w p = Some r \<and> f r = (Inr a, w')"
  by (auto simp: with_res_def split: option.splits)

lemma with_comp_Inr: "with_comp p w g = (Inr a, w') \<Longrightarrow> \<exists>c. w_comp w p = Some c \<and> g c = (Inr a, w')"
  by (auto simp: with_comp_def split: option.splits)

lemma snd_with_resI:
  "P w \<Longrightarrow> (\<And>r. w_res w p = Some r \<Longrightarrow> P (snd (f r))) \<Longrightarrow> P (snd (with_res p w f))"
  by (auto simp: with_res_def split: option.splits)

lemma snd_with_compI:
  "P w \<Longrightarrow> (\<And>c. w_comp w p = Some c \<Longrightarrow> P (snd (f c))) \<Longrightarrow> P (snd (with_comp p w f))"
  by (auto simp: with_comp_def split: option.splits)

end
