(* ===== verification/Composition_Model.thy ===== *)
theory Composition_Model
  imports World
begin

text \<open>
  composition.{h,cc}: creation with validation, the lazily converted atom and mass vectors, the
  decay chain shared between compositions, and recording.
\<close>

definition new_composition :: "int \<Rightarrow> ptr \<Rightarrow> world \<Rightarrow> ptr \<times> world" where
  "new_composition prev line w =
     (let p = w_next w
      in (p, w\<lparr>w_comp := (w_comp w)(p \<mapsto>
                 \<lparr>comp_id = next_comp_id w, comp_recorded = False, comp_atom = [], comp_mass = [],
                  prev_decay = prev, decay_line = line\<rparr>),
               w_next := Suc p, next_comp_id := next_comp_id w + 1\<rparr>))"

text \<open>The default constructor makes its own, empty chain.\<close>

definition new_chain :: "world \<Rightarrow> ptr \<times> world" where
  "new_chain w = (w_next w, w\<lparr>w_chain := (w_chain w)(w_next w \<mapsto> []), w_next := Suc (w_next w)\<rparr>)"

definition new_composition0 :: "world \<Rightarrow> ptr \<times> world" where
  "new_composition0 w = (let (line, w1) = new_chain w in new_composition 0 line w1)"

definition CreateFromAtom :: "nucdata \<Rightarrow> CompMap \<Rightarrow> world \<Rightarrow> (world, ptr) exec" where
  "CreateFromAtom nd v w =
     (if \<not> compmath_ValidNucs (isnuclide nd) v then throw ValueError w
      else if \<not> compmath_AllPositive v then throw ValueError w
      else let (c, w1) = new_composition0 w in ok c (upd_comp c (comp_atom_update (\<lambda>_. v)) w1))"

definition CreateFromMass :: "nucdata \<Rightarrow> CompMap \<Rightarrow> world \<Rightarrow> (world, ptr) exec" where
  "CreateFromMass nd v w =
     (if \<not> compmath_ValidNucs (isnuclide nd) v then throw ValueError w
      else if \<not> compmath_AllPositive v then throw ValueError w
      else let (c, w1) = new_composition0 w in ok c (upd_comp c (comp_mass_update (\<lambda>_. v)) w1))"

definition atom_of_mass :: "nucdata \<Rightarrow> CompMap \<Rightarrow> CompMap" where
  "atom_of_mass nd v = map (\<lambda>(nuc, q). (nuc, q / atomic_mass nd nuc)) v"

definition mass_of_atom :: "nucdata \<Rightarrow> CompMap \<Rightarrow> CompMap" where
  "mass_of_atom nd v = map (\<lambda>(nuc, q). (nuc, q * atomic_mass nd nuc)) v"

definition Composition_atom :: "nucdata \<Rightarrow> ptr \<Rightarrow> world \<Rightarrow> (world, CompMap) exec" where
  "Composition_atom nd c w = with_comp c w (\<lambda>cp.
     if comp_atom cp = []
     then let v = atom_of_mass nd (comp_mass cp)
          in ok v (upd_comp c (comp_atom_update (\<lambda>_. v)) w)
     else ok (comp_atom cp) w)"

definition Composition_mass :: "nucdata \<Rightarrow> ptr \<Rightarrow> world \<Rightarrow> (world, CompMap) exec" where
  "Composition_mass nd c w = with_comp c w (\<lambda>cp.
     if comp_mass cp = []
     then let v = mass_of_atom nd (comp_atom cp)
          in ok v (upd_comp c (comp_mass_update (\<lambda>_. v)) w)
     else ok (comp_mass cp) w)"

definition NewDecay :: "nucdata \<Rightarrow> ptr \<Rightarrow> int \<Rightarrow> nat \<Rightarrow> world \<Rightarrow> (world, ptr) exec" where
  "NewDecay nd c delta secs_per_timestep w =
     with_comp c w (\<lambda>cp.
       let tot_decay = prev_decay cp + delta
       in andThen (Composition_atom nd c w) (\<lambda>atom w1.
            let (decayed, w2) = new_composition tot_decay (decay_line cp) w1
            in if atom = [] then ok decayed w2
               else ok decayed
                 (upd_comp decayed (comp_atom_update (\<lambda>_.
                    pyne_decay nd atom (real secs_per_timestep * of_int delta))) w2)))"

definition Composition_Decay :: "nucdata \<Rightarrow> ptr \<Rightarrow> int \<Rightarrow> nat \<Rightarrow> world \<Rightarrow> (world, ptr) exec" where
  "Composition_Decay nd c delta secs_per_timestep w =
     with_comp c w (\<lambda>cp.
       let tot_decay = prev_decay cp + delta
       in case w_chain w (decay_line cp) of
            None \<Rightarrow> throw Undefined w
          | Some chain \<Rightarrow>
              (case map_of chain tot_decay of
                 Some p \<Rightarrow> ok p w
               | None \<Rightarrow>
                   andThen (NewDecay nd c delta secs_per_timestep w) (\<lambda>decayed w1.
                     ok decayed (w1\<lparr>w_chain := (w_chain w1)(decay_line cp \<mapsto>
                       omap_put tot_decay decayed chain)\<rparr>))))"

definition kDefaultTimeStepDur :: nat where
  "kDefaultTimeStepDur = 2629846"

definition Composition_Record :: "nucdata \<Rightarrow> ptr \<Rightarrow> world \<Rightarrow> (world, unit) exec" where
  "Composition_Record nd c w =
     with_comp c w (\<lambda>cp.
       if comp_recorded cp then ok () w
       else andThen (Composition_mass nd c (upd_comp c (comp_recorded_update (\<lambda>_. True)) w)) (\<lambda>mass w1.
              let cm = compmath_Normalize 1 mass
              in ok () (foldl (\<lambda>w' (nuc, q). emit (Compositions (comp_id cp) nuc q) w') w1 cm)))"

section \<open>Frame conditions\<close>

text \<open>
  What the operations on compositions leave alone: the resources and their counters, and every
  composition already there up to the lazily filled vectors.
\<close>

definition res_frame :: "world \<Rightarrow> world \<Rightarrow> bool" where
  "res_frame w w' \<longleftrightarrow> w_res w' = w_res w \<and> w_next w \<le> w_next w' \<and>
     nextstate_id w' = nextstate_id w \<and> nextobj_id w' = nextobj_id w \<and>
     w_time w' = w_time w \<and> w_decay w' = w_decay w \<and> w_dt w' = w_dt w \<and>
     qualids w' = qualids w \<and> next_qualid w' = next_qualid w"

lemma res_frame_refl [simp, intro]: "res_frame w w"
  by (simp add: res_frame_def)

lemma res_frame_trans [trans]: "res_frame w w' \<Longrightarrow> res_frame w' w'' \<Longrightarrow> res_frame w w''"
  by (auto simp: res_frame_def)

lemma res_frame_upd_comp [simp]: "res_frame w (upd_comp c f w') = res_frame w w'"
  by (simp add: res_frame_def)

lemma res_frame_emit [simp]: "res_frame w (emit r w') = res_frame w w'"
  by (simp add: res_frame_def)

lemma res_frame_upd_comp_left [simp]: "res_frame (upd_comp c f w) w' = res_frame w w'"
  by (simp add: res_frame_def)

lemma res_frame_new_composition: "new_composition prev line w = (p, w') \<Longrightarrow> res_frame w w'"
  by (auto simp: new_composition_def Let_def res_frame_def)

lemma res_frame_new_composition0: "new_composition0 w = (p, w') \<Longrightarrow> res_frame w w'"
  by (auto simp: new_composition0_def new_chain_def new_composition_def Let_def res_frame_def)

lemma res_frame_CreateFromMass: "CreateFromMass nd v w = (r, w') \<Longrightarrow> res_frame w w'"
  by (auto simp: CreateFromMass_def Let_def throw_def ok_def split: if_splits prod.splits
      dest!: res_frame_new_composition0 intro: res_frame_trans)

lemma res_frame_CreateFromAtom: "CreateFromAtom nd v w = (r, w') \<Longrightarrow> res_frame w w'"
  by (auto simp: CreateFromAtom_def Let_def throw_def ok_def split: if_splits prod.splits
      dest!: res_frame_new_composition0 intro: res_frame_trans)

lemma res_frame_mass: "Composition_mass nd c w = (r, w') \<Longrightarrow> res_frame w w'"
  by (auto simp: Composition_mass_def with_comp_def Let_def throw_def ok_def
      split: if_splits option.splits)

lemma res_frame_atom: "Composition_atom nd c w = (r, w') \<Longrightarrow> res_frame w w'"
  by (auto simp: Composition_atom_def with_comp_def Let_def throw_def ok_def
      split: if_splits option.splits)

lemma res_frame_andThen:
  assumes "andThen r f = (q, w')" "res_frame w (snd r)"
    and "\<And>a q w'. f a (snd r) = (q, w') \<Longrightarrow> res_frame (snd r) w'"
  shows "res_frame w w'"
proof (cases r)
  case (Pair x s)
  with assms show ?thesis
    by (cases x) (auto intro: res_frame_trans)
qed

lemma res_frame_NewDecay: "NewDecay nd c delta secs w = (r, w') \<Longrightarrow> res_frame w w'"
  by (auto simp: NewDecay_def with_comp_def Let_def throw_def ok_def
      split: if_splits option.splits prod.splits
      elim!: res_frame_andThen dest!: res_frame_new_composition
      intro: res_frame_trans res_frame_atom[OF prod.collapse[symmetric]])

lemma res_frame_Decay: "Composition_Decay nd c delta secs w = (r, w') \<Longrightarrow> res_frame w w'"
  by (auto simp: Composition_Decay_def with_comp_def Let_def throw_def ok_def res_frame_def[of _ "_\<lparr>w_chain := _\<rparr>"]
      split: if_splits option.splits prod.splits elim!: res_frame_andThen
      intro: res_frame_NewDecay[OF prod.collapse[symmetric]])

lemma res_frame_mass_upd: "res_frame w (snd (Composition_mass nd c (upd_comp c' f w)))"
  by (rule res_frame_upd_comp_left[THEN iffD1], rule res_frame_mass) (rule prod.collapse[symmetric])

lemma emit_all_frame: "res_frame w (foldl (\<lambda>w' (nuc, q). emit (Compositions i nuc q) w') w cm)"
  by (induction cm rule: rev_induct) (auto split: prod.splits)

lemma res_frame_Record: "Composition_Record nd c w = (r, w') \<Longrightarrow> res_frame w w'"
  by (auto simp: Composition_Record_def with_comp_def Let_def throw_def ok_def
      split: if_splits option.splits prod.splits elim!: res_frame_andThen
      intro: emit_all_frame res_frame_mass_upd)

section \<open>Well-formed compositions and chains\<close>

definition chain_ok :: "world \<Rightarrow> ptr \<Rightarrow> chain \<Rightarrow> bool" where
  "chain_ok w line chain \<longleftrightarrow> omap_inv chain \<and>
     (\<forall>(t, p) \<in> set chain. \<exists>cp. w_comp w p = Some cp \<and> prev_decay cp = t \<and> decay_line cp = line)"

definition comp_inv :: "world \<Rightarrow> bool" where
  "comp_inv w \<longleftrightarrow>
     (\<forall>p cp. w_comp w p = Some cp \<longrightarrow> p < w_next w \<and> decay_line cp \<in> dom (w_chain w) \<and>
        omap_inv (comp_atom cp) \<and> omap_inv (comp_mass cp) \<and> comp_id cp < next_comp_id w) \<and>
     (\<forall>line chain. w_chain w line = Some chain \<longrightarrow> line < w_next w \<and> chain_ok w line chain)"

lemma comp_invD:
  assumes "comp_inv w" "w_comp w p = Some cp"
  shows "p < w_next w" "\<exists>chain. w_chain w (decay_line cp) = Some chain"
    "omap_inv (comp_atom cp)" "omap_inv (comp_mass cp)" "comp_id cp < next_comp_id w"
  using assms by (auto simp: comp_inv_def)

lemma chain_okD: "comp_inv w \<Longrightarrow> w_chain w line = Some chain \<Longrightarrow> chain_ok w line chain"
  by (simp add: comp_inv_def)

lemma chain_fresh: "comp_inv w \<Longrightarrow> w_next w \<le> p \<Longrightarrow> w_comp w p = None \<and> w_chain w p = None"
  by (metis comp_inv_def leD not_None_eq)

text \<open>An update that keeps a composition's place in its chain and its vectors ordered.\<close>

lemma comp_inv_upd_comp:
  assumes inv: "comp_inv w"
    and keep: "\<And>cp. w_comp w c = Some cp \<Longrightarrow> prev_decay (f cp) = prev_decay cp \<and>
      decay_line (f cp) = decay_line cp \<and> comp_id (f cp) = comp_id cp \<and>
      omap_inv (comp_atom (f cp)) \<and> omap_inv (comp_mass (f cp))"
  shows "comp_inv (upd_comp c f w)"
proof -
  have 1: "p < w_next w \<and> decay_line cp \<in> dom (w_chain w) \<and> omap_inv (comp_atom cp) \<and>
      omap_inv (comp_mass cp) \<and> comp_id cp < next_comp_id w"
    if "w_comp (upd_comp c f w) p = Some cp" for p cp
    using that keep comp_invD[OF inv] by (auto split: if_splits)
  have 2: "line < w_next w \<and> chain_ok (upd_comp c f w) line chain" if ch: "w_chain w line = Some chain" for line chain
  proof -
    have ok: "chain_ok w line chain" "line < w_next w" using inv ch by (auto simp: comp_inv_def)
    have "\<exists>cp. w_comp (upd_comp c f w) p = Some cp \<and> prev_decay cp = t \<and> decay_line cp = line"
      if "(t, p) \<in> set chain" for t p
      using ok(1) that keep by (cases "p = c") (auto simp: chain_ok_def)
    with ok show ?thesis unfolding chain_ok_def by blast
  qed
  show ?thesis unfolding comp_inv_def using 1 2 by simp
qed

lemma comp_inv_new_composition:
  assumes inv: "comp_inv w" and line: "line \<in> dom (w_chain w)"
    and new: "new_composition prev line w = (p, w')"
  shows "comp_inv w'" "w_comp w' p = Some \<lparr>comp_id = next_comp_id w, comp_recorded = False,
      comp_atom = [], comp_mass = [], prev_decay = prev, decay_line = line\<rparr>"
    "w_chain w' = w_chain w" "p = w_next w" "w_next w' = Suc (w_next w)"
    "\<And>q. q \<noteq> p \<Longrightarrow> w_comp w' q = w_comp w q"
proof -
  have w': "w' = w\<lparr>w_comp := (w_comp w)(p \<mapsto> \<lparr>comp_id = next_comp_id w, comp_recorded = False,
      comp_atom = [], comp_mass = [], prev_decay = prev, decay_line = line\<rparr>),
      w_next := Suc p, next_comp_id := next_comp_id w + 1\<rparr>" and p: "p = w_next w"
    using new by (auto simp: new_composition_def Let_def)
  have fresh: "w_comp w p = None" using chain_fresh[OF inv] p by simp
  have "chain_ok w' l ch" if "chain_ok w l ch" for l ch
    using that fresh unfolding chain_ok_def w' by fastforce
  moreover have "q < Suc p \<and> decay_line cp \<in> dom (w_chain w) \<and> omap_inv (comp_atom cp) \<and>
      omap_inv (comp_mass cp) \<and> comp_id cp < next_comp_id w + 1"
    if "w_comp w' q = Some cp" for q cp
    using that line comp_invD[OF inv, of q cp] by (auto simp: w' p split: if_splits)
  ultimately show "comp_inv w'"
    using inv unfolding comp_inv_def by (auto simp: w' p less_Suc_eq)
  show "w_comp w' p = Some \<lparr>comp_id = next_comp_id w, comp_recorded = False,
      comp_atom = [], comp_mass = [], prev_decay = prev, decay_line = line\<rparr>"
    "w_chain w' = w_chain w" "p = w_next w" "w_next w' = Suc (w_next w)"
    "\<And>q. q \<noteq> p \<Longrightarrow> w_comp w' q = w_comp w q"
    by (simp_all add: w' p)
qed

lemma comp_inv_new_chain:
  assumes "comp_inv w" "new_chain w = (line, w')"
  shows "comp_inv w'" "w_chain w' line = Some []" "w_comp w' = w_comp w" "line = w_next w"
    "w_next w' = Suc (w_next w)"
proof -
  have w': "w' = w\<lparr>w_chain := (w_chain w)(w_next w \<mapsto> []), w_next := Suc (w_next w)\<rparr>"
    and l: "line = w_next w" using assms(2) by (auto simp: new_chain_def)
  have "chain_ok w' k ch" if "chain_ok w k ch" for k ch
    using that by (auto simp: chain_ok_def w')
  then show "comp_inv w'"
    using assms(1) unfolding comp_inv_def by (auto simp: w' less_Suc_eq chain_ok_def)
  show "w_chain w' line = Some []" "w_comp w' = w_comp w" "line = w_next w" "w_next w' = Suc (w_next w)"
    by (simp_all add: w' l)
qed

lemma comp_inv_new_composition0:
  assumes "comp_inv w" "new_composition0 w = (c, w')"
  shows "comp_inv w'" "c = Suc (w_next w)" "w_next w' = Suc (Suc (w_next w))"
    "\<And>q. q \<noteq> c \<Longrightarrow> w_comp w' q = w_comp w q"
    "\<exists>cp. w_comp w' c = Some cp \<and> comp_atom cp = [] \<and> comp_mass cp = [] \<and>
       w_chain w' (decay_line cp) = Some [] \<and> prev_decay cp = 0"
proof -
  obtain line w1 where ch: "new_chain w = (line, w1)" by (cases "new_chain w")
  with assms(2) have new: "new_composition 0 line w1 = (c, w')" by (simp add: new_composition0_def)
  note c1 = comp_inv_new_chain[OF assms(1) ch]
  have "line \<in> dom (w_chain w1)" using c1(2) by auto
  note c2 = comp_inv_new_composition[OF c1(1) this new]
  show "comp_inv w'" "c = Suc (w_next w)" "w_next w' = Suc (Suc (w_next w))"
    "\<And>q. q \<noteq> c \<Longrightarrow> w_comp w' q = w_comp w q"
    "\<exists>cp. w_comp w' c = Some cp \<and> comp_atom cp = [] \<and> comp_mass cp = [] \<and>
       w_chain w' (decay_line cp) = Some [] \<and> prev_decay cp = 0"
    using c1 c2 by auto
qed

lemma CreateFromMass_spec:
  assumes inv: "comp_inv w" and v: "omap_inv v"
    and res: "CreateFromMass nd v w = (Inr c, w')"
  shows "comp_inv w'" "c \<ge> w_next w" "c < w_next w'"
    "\<And>q. q < w_next w \<Longrightarrow> w_comp w' q = w_comp w q"
    "\<exists>cp. w_comp w' c = Some cp \<and> comp_mass cp = v \<and> comp_atom cp = [] \<and> prev_decay cp = 0"
    "compmath_ValidNucs (isnuclide nd) v" "compmath_AllPositive v"
proof -
  obtain c' w1 where new: "new_composition0 w = (c', w1)" by (cases "new_composition0 w")
  with res have w': "w' = upd_comp c (comp_mass_update (\<lambda>_. v)) w1" and c': "c' = c"
    and ok: "compmath_ValidNucs (isnuclide nd) v" "compmath_AllPositive v"
    by (auto simp: CreateFromMass_def split: if_splits)
  note n = comp_inv_new_composition0[OF inv new]
  show "comp_inv w'" unfolding w'
    using v n(1) comp_invD(3)[OF n(1)] by (intro comp_inv_upd_comp) auto
  show "c \<ge> w_next w" "c < w_next w'" using n(2,3) by (simp_all add: w' c'[symmetric])
  show "w_comp w' q = w_comp w q" if "q < w_next w" for q
    using that n(2,4) by (simp add: w' c'[symmetric])
  show "\<exists>cp. w_comp w' c = Some cp \<and> comp_mass cp = v \<and> comp_atom cp = [] \<and> prev_decay cp = 0"
    using n(5) by (auto simp: w' c')
  show "compmath_ValidNucs (isnuclide nd) v" "compmath_AllPositive v" by fact+
qed

lemma omap_inv_atom_of_mass [simp]: "omap_inv (atom_of_mass nd v) = omap_inv v"
  by (simp add: omap_inv_def atom_of_mass_def case_prod_unfold comp_def)

lemma omap_inv_mass_of_atom [simp]: "omap_inv (mass_of_atom nd v) = omap_inv v"
  by (simp add: omap_inv_def mass_of_atom_def case_prod_unfold comp_def)

lemma comp_inv_atom:
  assumes "comp_inv w" "Composition_atom nd c w = (r, w')"
  shows "comp_inv w'"
  using assms
  by (auto simp: Composition_atom_def with_comp_def Let_def throw_def ok_def comp_invD(3,4)[OF assms(1)]
      split: option.splits if_splits intro!: comp_inv_upd_comp)

lemma comp_inv_mass:
  assumes "comp_inv w" "Composition_mass nd c w = (r, w')"
  shows "comp_inv w'"
  using assms
  by (auto simp: Composition_mass_def with_comp_def Let_def throw_def ok_def comp_invD(3,4)[OF assms(1)]
      split: option.splits if_splits intro!: comp_inv_upd_comp)

text \<open>Filling the cached vectors changes neither an object's place in its chain nor the chains.\<close>

lemma atom_keeps:
  assumes "Composition_atom nd c w = (Inr v, w')"
  shows "w_chain w' = w_chain w" "w_next w' = w_next w"
    "w_comp w q = Some cp \<Longrightarrow> \<exists>cp'. w_comp w' q = Some cp' \<and> prev_decay cp' = prev_decay cp \<and>
       decay_line cp' = decay_line cp"
  using assms
  by (auto simp: Composition_atom_def with_comp_def Let_def ok_def throw_def split: option.splits if_splits)

subsection \<open>Decay\<close>

text \<open>What \<open>std::map\<close> gives by its type: the decay solver returns an ordered vector.\<close>

definition decay_ordered :: "nucdata \<Rightarrow> bool" where
  "decay_ordered nd \<longleftrightarrow> (\<forall>v t. omap_inv v \<longrightarrow> omap_inv (pyne_decay nd v t))"

lemma atom_omap_inv:
  assumes "comp_inv w" "Composition_atom nd c w = (Inr v, w')"
  shows "omap_inv v"
  using assms comp_invD(3,4)[OF assms(1)]
  by (auto simp: Composition_atom_def with_comp_def Let_def throw_def ok_def split: option.splits if_splits)

lemma NewDecay_spec:
  assumes inv: "comp_inv w" and nd: "decay_ordered nd" and c: "w_comp w c = Some cp"
  obtains p w' where "NewDecay nd c delta secs w = (Inr p, w')" "comp_inv w'"
    "w_chain w' = w_chain w" "p = w_next w" "w_next w' = Suc (w_next w)"
    "\<exists>dp. w_comp w' p = Some dp \<and> prev_decay dp = prev_decay cp + delta \<and> decay_line dp = decay_line cp"
    "\<And>q qp. w_comp w q = Some qp \<Longrightarrow> \<exists>qp'. w_comp w' q = Some qp' \<and>
       prev_decay qp' = prev_decay qp \<and> decay_line qp' = decay_line qp"
proof -
  have "\<exists>v w1. Composition_atom nd c w = (Inr v, w1)"
    by (simp add: Composition_atom_def c Let_def ok_def)
  then obtain v w1 where at: "Composition_atom nd c w = (Inr v, w1)" by blast
  note k = atom_keeps[OF at]
  have inv1: "comp_inv w1" by (rule comp_inv_atom[OF inv at])
  obtain p w2 where new: "new_composition (prev_decay cp + delta) (decay_line cp) w1 = (p, w2)"
    by (cases "new_composition (prev_decay cp + delta) (decay_line cp) w1")
  have "decay_line cp \<in> dom (w_chain w1)" using comp_invD(2)[OF inv c] k(1) by auto
  note n = comp_inv_new_composition[OF inv1 this new]
  define w' where "w' = (if v = [] then w2 else upd_comp p (comp_atom_update (\<lambda>_.
       pyne_decay nd v (real secs * of_int delta))) w2)"
  have res: "NewDecay nd c delta secs w = (Inr p, w')"
    by (simp add: NewDecay_def c at new w'_def Let_def ok_def)
  have inv': "comp_inv w'"
    using n(1,2) nd atom_omap_inv[OF inv at]
    by (auto simp: w'_def decay_ordered_def intro!: comp_inv_upd_comp)
  have old: "\<exists>qp'. w_comp w' q = Some qp' \<and> prev_decay qp' = prev_decay qp \<and> decay_line qp' = decay_line qp"
    if q: "w_comp w q = Some qp" for q qp
  proof -
    obtain qp1 where "w_comp w1 q = Some qp1" "prev_decay qp1 = prev_decay qp" "decay_line qp1 = decay_line qp"
      using k(3)[OF q] by blast
    moreover have "q \<noteq> p" using comp_invD(1)[OF inv q] n(4) k(2) by simp
    ultimately show ?thesis using n(6)[of q] by (auto simp: w'_def)
  qed
  show thesis
    by (rule that[OF res inv']) (use n k old in \<open>auto simp: w'_def\<close>)
qed

lemma map_of_chain: "chain_ok w line chain \<Longrightarrow> map_of chain t = Some p \<Longrightarrow>
    \<exists>cp. w_comp w p = Some cp \<and> prev_decay cp = t \<and> decay_line cp = line"
  by (auto simp: chain_ok_def dest!: map_of_SomeD)

text \<open>
  \<open>Decay\<close> never fails on a live composition. Its result sits on the same chain at the summed
  time, the chain now holds it under that time, and everything already on a chain stays.
\<close>

lemma Decay_spec:
  assumes inv: "comp_inv w" and nd: "decay_ordered nd" and c: "w_comp w c = Some cp"
  obtains p w' ch where "Composition_Decay nd c delta secs w = (Inr p, w')" "comp_inv w'"
    "w_chain w' (decay_line cp) = Some ch" "map_of ch (prev_decay cp + delta) = Some p"
    "\<And>line t q ch0. w_chain w line = Some ch0 \<Longrightarrow> map_of ch0 t = Some q \<Longrightarrow>
       \<exists>ch'. w_chain w' line = Some ch' \<and> map_of ch' t = Some q"
    "\<exists>dp. w_comp w' p = Some dp \<and> prev_decay dp = prev_decay cp + delta \<and> decay_line dp = decay_line cp"
    "\<And>q qp. w_comp w q = Some qp \<Longrightarrow> \<exists>qp'. w_comp w' q = Some qp' \<and>
       prev_decay qp' = prev_decay qp \<and> decay_line qp' = decay_line qp"
proof -
  obtain chain where ch: "w_chain w (decay_line cp) = Some chain" using comp_invD(2)[OF inv c] by blast
  note cok = chain_okD[OF inv ch]
  show thesis
  proof (cases "map_of chain (prev_decay cp + delta)")
    case (Some p)
    then have "Composition_Decay nd c delta secs w = (Inr p, w)"
      by (simp add: Composition_Decay_def c ch Let_def ok_def)
    then show thesis
      by (rule that[OF _ inv ch Some]) (use map_of_chain[OF cok Some] in auto)
  next
    case None
    obtain p w1 where nw: "NewDecay nd c delta secs w = (Inr p, w1)" "comp_inv w1"
      "w_chain w1 = w_chain w" "p = w_next w" "w_next w1 = Suc (w_next w)"
      "\<exists>dp. w_comp w1 p = Some dp \<and> prev_decay dp = prev_decay cp + delta \<and> decay_line dp = decay_line cp"
      "\<And>q qp. w_comp w q = Some qp \<Longrightarrow> \<exists>qp'. w_comp w1 q = Some qp' \<and>
       prev_decay qp' = prev_decay qp \<and> decay_line qp' = decay_line qp"
      by (rule NewDecay_spec[OF inv nd c, of delta secs]) blast
    define ch' where "ch' = omap_put (prev_decay cp + delta) p chain"
    define w' where "w' = w1\<lparr>w_chain := (w_chain w1)(decay_line cp \<mapsto> ch')\<rparr>"
    have res: "Composition_Decay nd c delta secs w = (Inr p, w')"
      using None by (simp add: Composition_Decay_def c ch nw(1) Let_def ok_def w'_def ch'_def)
    have "omap_inv chain" using cok by (simp add: chain_ok_def)
    have cok1: "chain_ok w1 (decay_line cp) chain" using chain_okD[OF nw(2)] ch nw(3) by simp
    have entries: "\<exists>x. w_comp w' q = Some x \<and> prev_decay x = t \<and> decay_line x = decay_line cp"
      if "(t, q) \<in> set ch'" for t q
    proof -
      have "omap_inv ch'" using \<open>omap_inv chain\<close> by (simp add: ch'_def)
      then have "map_of ch' t = Some q" using map_of_is_SomeI[OF omap_inv_distinct that] by blast
      then have mem: "(if t = prev_decay cp + delta then Some p else map_of chain t) = Some q"
        by (simp add: ch'_def)
      show ?thesis
      proof (cases "t = prev_decay cp + delta")
        case True
        with mem nw(6) show ?thesis by (simp add: w'_def)
      next
        case False
        with mem map_of_chain[OF cok1] show ?thesis by (simp add: w'_def)
      qed
    qed
    have "chain_ok w' (decay_line cp) ch'"
      using entries \<open>omap_inv chain\<close> by (auto simp: chain_ok_def ch'_def)
    then have inv': "comp_inv w'"
      using nw(2) ch unfolding comp_inv_def
      by (auto simp: w'_def nw(3) chain_ok_def split: if_splits)
    show thesis
      by (rule that[OF res inv', of ch'])
        (use nw ch None in \<open>auto simp: w'_def ch'_def split: if_splits\<close>)
  qed
qed

lemma Decay_cached:
  assumes "w_comp w c = Some cp" "w_chain w (decay_line cp) = Some ch"
    "map_of ch (prev_decay cp + delta) = Some p"
  shows "Composition_Decay nd c delta secs w = (Inr p, w)"
  using assms by (simp add: Composition_Decay_def Let_def ok_def)

section \<open>The mass vector a composition stands for\<close>

definition mass_vec :: "nucdata \<Rightarrow> composition \<Rightarrow> CompMap" where
  "mass_vec nd cp = (if comp_mass cp = [] then mass_of_atom nd (comp_atom cp) else comp_mass cp)"

lemma omap_inv_mass_vec: "comp_inv w \<Longrightarrow> w_comp w c = Some cp \<Longrightarrow> omap_inv (mass_vec nd cp)"
  by (auto simp: mass_vec_def dest: comp_invD(3,4))

text \<open>Nothing already there changes its meaning; lazily filled vectors may appear.\<close>

definition mframe :: "nucdata \<Rightarrow> world \<Rightarrow> world \<Rightarrow> bool" where
  "mframe nd w w' \<longleftrightarrow> (\<forall>c cp. w_comp w c = Some cp \<longrightarrow>
     (\<exists>cp'. w_comp w' c = Some cp' \<and> mass_vec nd cp' = mass_vec nd cp))"

lemma mframe_refl [simp, intro]: "mframe nd w w"
  by (simp add: mframe_def)

lemma mframe_trans: "mframe nd w w' \<Longrightarrow> mframe nd w' w'' \<Longrightarrow> mframe nd w w''"
  by (fastforce simp: mframe_def)

lemma mframeD: "mframe nd w w' \<Longrightarrow> w_comp w c = Some cp \<Longrightarrow>
    \<exists>cp'. w_comp w' c = Some cp' \<and> mass_vec nd cp' = mass_vec nd cp"
  by (simp add: mframe_def)

lemma mframe_upd_comp:
  "(\<And>cp. w_comp w' c = Some cp \<Longrightarrow> mass_vec nd (f cp) = mass_vec nd cp) \<Longrightarrow> mframe nd w w' \<Longrightarrow>
   mframe nd w (upd_comp c f w')"
  unfolding mframe_def by fastforce

lemma mframe_emit [simp]: "mframe nd w (emit x w') = mframe nd w w'"
  by (simp add: mframe_def)

lemma mframe_upd_res [simp]: "mframe nd w (upd_res p f w') = mframe nd w w'"
  by (simp add: mframe_def)

lemmas mframe_andThen = snd_andThenI[where P = "mframe nd w" for nd w]
lemmas mframe_with_comp = snd_with_compI[where P = "mframe nd w" for nd w]

lemma mframe_mass: "mframe nd w w' \<Longrightarrow> mframe nd w (snd (Composition_mass nd c w'))"
  by (auto simp: Composition_mass_def Let_def mass_vec_def
      intro!: mframe_with_comp mframe_upd_comp)

lemma mframe_atom: "mframe nd w w' \<Longrightarrow> mframe nd w (snd (Composition_atom nd c w'))"
  by (auto simp: Composition_atom_def Let_def mass_vec_def atom_of_mass_def mass_of_atom_def
      intro!: mframe_with_comp mframe_upd_comp)

lemma mframe_Record: "mframe nd w w' \<Longrightarrow> mframe nd w (snd (Composition_Record nd c w'))"
proof -
  have loop: "mframe nd w w1 \<Longrightarrow> mframe nd w (foldl (\<lambda>w' (nuc, q). emit (Compositions i nuc q) w') w1 cm)"
    for w w1 i cm by (induction cm arbitrary: w1) auto
  show "mframe nd w w' \<Longrightarrow> ?thesis"
    by (auto simp: Composition_Record_def Let_def mass_vec_def
        intro!: mframe_with_comp mframe_andThen loop mframe_mass mframe_upd_comp)
qed

lemma Composition_mass_spec:
  assumes "w_comp w c = Some cp"
  obtains w' where "Composition_mass nd c w = (Inr (mass_vec nd cp), w')" "mframe nd w w'" "res_frame w w'"
    "comp_inv w \<Longrightarrow> comp_inv w'"
proof -
  let ?r = "Composition_mass nd c w"
  have "?r = (Inr (mass_vec nd cp), snd ?r)"
    using assms by (auto simp: Composition_mass_def mass_vec_def Let_def ok_def)
  moreover have "mframe nd w (snd ?r)" by (rule mframe_mass[OF mframe_refl])
  moreover have "res_frame w (snd ?r)" by (rule res_frame_mass[OF prod.collapse[symmetric]])
  moreover have "comp_inv w \<Longrightarrow> comp_inv (snd ?r)" by (rule comp_inv_mass[OF _ prod.collapse[symmetric]])
  ultimately show thesis by (rule that)
qed

lemma mframe_CreateFromMass:
  assumes "comp_inv w" "omap_inv v" "CreateFromMass nd v w = (Inr c, w')"
  shows "mframe nd w w'"
  unfolding mframe_def
proof (intro allI impI)
  fix q cp assume q: "w_comp w q = Some cp"
  have "w_comp w' q = w_comp w q"
    by (rule CreateFromMass_spec(4)[OF assms]) (rule comp_invD(1)[OF assms(1) q])
  with q show "\<exists>cp'. w_comp w' q = Some cp' \<and> mass_vec nd cp' = mass_vec nd cp" by simp
qed

lemma CreateFromMass_mass_vec:
  assumes "comp_inv w" "omap_inv v" "CreateFromMass nd v w = (Inr c, w')"
  shows "\<exists>cp. w_comp w' c = Some cp \<and> mass_vec nd cp = v"
  using CreateFromMass_spec(5)[OF assms] by (auto simp: mass_vec_def mass_of_atom_def)

text \<open>Converting masses to atoms and back loses nothing.\<close>

lemma mass_atom_roundtrip:
  assumes "\<And>n q. (n, q) \<in> set v \<Longrightarrow> atomic_mass nd n \<noteq> 0"
  shows "mass_of_atom nd (atom_of_mass nd v) = v"
  using assms by (auto simp: mass_of_atom_def atom_of_mass_def intro!: map_idI)

section \<open>Properties\<close>

lemma comp_inv_init: "comp_inv (init_world decay dt)"
  by (simp add: comp_inv_def init_world_def)

text \<open>C31. All compositions decayed from one composition share one decay line: decaying by \<open>d1\<close>
  and the result by \<open>d2\<close> always succeeds, and a later decay of the original by \<open>d1 + d2\<close> is the
  same object, found on the line without computing anything; the store stays well formed.\<close>

theorem decay_line_shared:
  assumes inv: "comp_inv w" and nd: "decay_ordered nd" and c: "w_comp w c = Some cp"
  shows "\<exists>p1 w1 p2 w2. Composition_Decay nd c d1 secs w = (Inr p1, w1) \<and>
    Composition_Decay nd p1 d2 secs w1 = (Inr p2, w2) \<and>
    Composition_Decay nd c (d1 + d2) secs w2 = (Inr p2, w2) \<and> comp_inv w2"
proof -
  obtain p1 w1 where d1: "Composition_Decay nd c d1 secs w = (Inr p1, w1)" and i1: "comp_inv w1"
    and p1: "\<exists>dp. w_comp w1 p1 = Some dp \<and> prev_decay dp = prev_decay cp + d1 \<and> decay_line dp = decay_line cp"
    and c1: "\<exists>cp1. w_comp w1 c = Some cp1 \<and> prev_decay cp1 = prev_decay cp \<and> decay_line cp1 = decay_line cp"
    by (rule Decay_spec[OF inv nd c, of d1 secs], use c in blast)
  from p1 obtain dp where dp: "w_comp w1 p1 = Some dp" "prev_decay dp = prev_decay cp + d1"
    "decay_line dp = decay_line cp" by blast
  from c1 obtain cp1 where cp1: "w_comp w1 c = Some cp1" "prev_decay cp1 = prev_decay cp"
    "decay_line cp1 = decay_line cp" by blast
  obtain p2 w2 ch where d2: "Composition_Decay nd p1 d2 secs w1 = (Inr p2, w2)" and i2: "comp_inv w2"
    and ch: "w_chain w2 (decay_line dp) = Some ch" "map_of ch (prev_decay dp + d2) = Some p2"
    and c2: "\<exists>cp2. w_comp w2 c = Some cp2 \<and> prev_decay cp2 = prev_decay cp1 \<and> decay_line cp2 = decay_line cp1"
    by (rule Decay_spec[OF i1 nd dp(1), of d2 secs], use cp1(1) in blast)
  from c2 obtain cp2 where cp2: "w_comp w2 c = Some cp2" "prev_decay cp2 = prev_decay cp"
    "decay_line cp2 = decay_line cp" using cp1 by auto
  have "map_of ch (prev_decay cp2 + (d1 + d2)) = Some p2"
    using ch(2) dp(2) cp2(2) by (simp add: add.assoc)
  moreover have "w_chain w2 (decay_line cp2) = Some ch" using ch(1) dp(3) cp2(3) by simp
  ultimately have "Composition_Decay nd c (d1 + d2) secs w2 = (Inr p2, w2)"
    by (intro Decay_cached[OF cp2(1)])
  with d1 d2 i2 show ?thesis by blast
qed

text \<open>A small instance for the witnesses: identity decay, one composition made from masses.\<close>

definition demo_nd :: nucdata where
  "demo_nd = \<lparr>isnuclide = (\<lambda>n. 0 < n), atomic_mass = (\<lambda>_. 2), decay_const = (\<lambda>_. 0),
     pyne_decay = (\<lambda>v t. map (\<lambda>(n, q). (n, q + t)) v)\<rparr>"

definition demo_world :: world where
  "demo_world = snd (CreateFromMass demo_nd [(10010000, 6)] (init_world ''manual'' 5))"

lemma demo_world_comp: "w_comp demo_world 1 = Some \<lparr>comp_id = 1, comp_recorded = False, comp_atom = [],
    comp_mass = [(10010000, 6)], prev_decay = 0, decay_line = 0\<rparr>"
  by (simp add: demo_world_def CreateFromMass_def compmath_ValidNucs_def compmath_AllPositive_def
      demo_nd_def new_composition0_def new_chain_def new_composition_def init_world_def ok_def Let_def)

lemma demo_world_inv: "comp_inv demo_world"
proof -
  have "CreateFromMass demo_nd [(10010000, 6)] (init_world ''manual'' 5) = (Inr 1, demo_world)"
    by (simp add: demo_world_def CreateFromMass_def compmath_ValidNucs_def compmath_AllPositive_def
        demo_nd_def new_composition0_def new_chain_def new_composition_def init_world_def ok_def Let_def)
  from CreateFromMass_spec(1)[OF comp_inv_init _ this] show ?thesis by simp
qed

lemma demo_nd_ordered: "decay_ordered demo_nd"
  by (simp add: decay_ordered_def demo_nd_def omap_inv_def case_prod_unfold comp_def)

theorem decay_line_shared_witness:
  "\<exists>p1 w1 p2 w2. Composition_Decay demo_nd 1 3 5 demo_world = (Inr p1, w1) \<and>
    Composition_Decay demo_nd p1 4 5 w1 = (Inr p2, w2) \<and>
    Composition_Decay demo_nd 1 7 5 w2 = (Inr p2, w2) \<and> comp_inv w2"
  using decay_line_shared [OF demo_world_inv demo_nd_ordered demo_world_comp, of 3 5 4] by simp

text \<open>C34. The decay line is keyed by the number of time steps alone: once a decay over \<open>delta\<close>
  steps has been computed with one time-step length, asking for the same number of steps of any
  other length returns the stored composition, whatever the decay solver would give for it.\<close>

theorem decay_cache_ignores_step_length:
  assumes inv: "comp_inv w" and nd: "decay_ordered nd" and c: "w_comp w c = Some cp"
    and res: "Composition_Decay nd c delta secs w = (Inr p, w1)"
  shows "Composition_Decay nd c delta secs' w1 = (Inr p, w1)"
proof -
  obtain p' w' ch where r: "Composition_Decay nd c delta secs w = (Inr p', w')"
    and 1: "w_chain w' (decay_line cp) = Some ch" "map_of ch (prev_decay cp + delta) = Some p'"
    and 2: "\<exists>cp1. w_comp w' c = Some cp1 \<and> prev_decay cp1 = prev_decay cp \<and> decay_line cp1 = decay_line cp"
    by (rule Decay_spec[OF inv nd c, of delta secs], use c in blast)
  have "p' = p" "w' = w1" using r res by auto
  with 1 2 show ?thesis using Decay_cached by metis
qed

theorem decay_cache_ignores_step_length_witness:
  "\<exists>p w1. Composition_Decay demo_nd 1 3 5 demo_world = (Inr p, w1) \<and>
     Composition_Decay demo_nd 1 3 7 w1 = (Inr p, w1) \<and>
     pyne_decay demo_nd [(10010000, 3)] (5 * 3) \<noteq> pyne_decay demo_nd [(10010000, 3)] (7 * 3)"
proof -
  obtain p w1 where r: "Composition_Decay demo_nd 1 3 5 demo_world = (Inr p, w1)"
    by (rule Decay_spec[OF demo_world_inv demo_nd_ordered demo_world_comp, of 3 5]) blast
  from decay_cache_ignores_step_length [OF demo_world_inv demo_nd_ordered demo_world_comp r, of 7] r
  show ?thesis by (auto simp: demo_nd_def)
qed

end
