(* ===== verification/Resource_Model.thy ===== *)
theory Resource_Model
  imports Composition_Model
begin

text \<open>
  resource.{h,cc}, res_tracker.{h,cc}, product.{h,cc} and material.{h,cc}: the objects that carry
  quantity, the identifiers and parent links recorded for each change, and the operations
  create, clone, extract, absorb, transmute and decay.
\<close>

section \<open>Resource and ResTracker\<close>

text \<open>The constructors of \<open>Resource\<close> and of the embedded tracker.\<close>

definition new_resource :: "res_body \<Rightarrow> double \<Rightarrow> bool \<Rightarrow> world \<Rightarrow> ptr \<times> world" where
  "new_resource b q ctx w =
     (let p = w_next w
      in (p, w\<lparr>w_res := (w_res w)(p \<mapsto>
                 \<lparr>state_id = nextstate_id w, obj_id = nextobj_id w, quantity = q, has_ctx = ctx,
                  parent1 = 0, parent2 = 0, tracked = True, tracker_res = p, body = b\<rparr>),
               w_next := Suc p, nextstate_id := nextstate_id w + 1, nextobj_id := nextobj_id w + 1\<rparr>))"

definition BumpStateId :: "ptr \<Rightarrow> world \<Rightarrow> world" where
  "BumpStateId p w =
     (upd_res p (state_id_update (\<lambda>_. nextstate_id w)) w)\<lparr>nextstate_id := nextstate_id w + 1\<rparr>"

definition DontTrack :: "ptr \<Rightarrow> world \<Rightarrow> world" where
  "DontTrack p w = upd_res p (tracked_update (\<lambda>_. False)) w"

definition res_type :: "res_body \<Rightarrow> string" where
  "res_type b = (case b of MatBody _ _ \<Rightarrow> ''Material'' | ProdBody _ \<Rightarrow> ''Product'')"

definition res_units :: "res_body \<Rightarrow> string" where
  "res_units b = (case b of MatBody _ _ \<Rightarrow> ''kg'' | ProdBody _ \<Rightarrow> ''NONE'')"

text \<open>
  \<open>qual_id()\<close>: the composition's id, or the id of the product's quality. A quality that has no
  id yet reads as the zero \<open>operator[]\<close> inserts.
\<close>

definition qual_id :: "resource \<Rightarrow> world \<Rightarrow> (world, int) exec" where
  "qual_id r w =
     (case body r of
        MatBody c _ \<Rightarrow> with_comp c w (\<lambda>cp. ok (comp_id cp) w)
      | ProdBody ql \<Rightarrow>
          (case map_of (qualids w) ql of
             Some i \<Rightarrow> ok i w
           | None \<Rightarrow> ok 0 (w\<lparr>qualids := (ql, 0) # qualids w\<rparr>)))"

text \<open>\<open>Material::Record\<close> and the empty \<open>Product::Record\<close>.\<close>

definition res_Record :: "nucdata \<Rightarrow> ptr \<Rightarrow> world \<Rightarrow> (world, unit) exec" where
  "res_Record nd p w = with_res p w (\<lambda>r.
     case body r of
       ProdBody _ \<Rightarrow> ok () w
     | MatBody c t \<Rightarrow>
         if \<not> has_ctx r then throw Undefined w
         else Composition_Record nd c (emit (MaterialInfo (state_id r) t) w))"

text \<open>\<open>ResTracker::Record\<close> of the tracker inside resource \<open>p\<close>.\<close>

definition tracker_Record :: "nucdata \<Rightarrow> ptr \<Rightarrow> world \<Rightarrow> (world, unit) exec" where
  "tracker_Record nd p w = with_res p w (\<lambda>t.
     let q = tracker_res t; w1 = BumpStateId q w
     in if \<not> has_ctx t then throw Undefined w1
        else with_res q w1 (\<lambda>r.
          andThen (qual_id r w1) (\<lambda>qid w2.
            res_Record nd q
              (emit (Resources (state_id r) (obj_id r) (res_type (body r)) (w_time w2) (quantity r)
                 (res_units (body r)) qid (parent1 t) (parent2 t)) w2))))"

definition set_parents :: "ptr \<Rightarrow> int \<Rightarrow> int \<Rightarrow> world \<Rightarrow> world" where
  "set_parents p i j w = upd_res p (\<lambda>t. t\<lparr>parent1 := i, parent2 := j\<rparr>) w"

text \<open>\<open>res_->state_id()\<close> of the tracker inside \<open>p\<close>.\<close>

definition tracked_state_id :: "ptr \<Rightarrow> world \<Rightarrow> (int \<Rightarrow> (world, 'a) exec) \<Rightarrow> (world, 'a) exec" where
  "tracked_state_id p w f = with_res p w (\<lambda>t. with_res (tracker_res t) w (\<lambda>r. f (state_id r)))"

definition tracker_Create :: "nucdata \<Rightarrow> ptr \<Rightarrow> int \<Rightarrow> world \<Rightarrow> (world, unit) exec" where
  "tracker_Create nd p creator w = with_res p w (\<lambda>t.
     if \<not> tracked t then ok () w
     else andThen (tracker_Record nd p (set_parents p 0 0 w)) (\<lambda>_ w1.
            tracked_state_id p w1 (\<lambda>i. ok () (emit (ResCreators i creator) w1))))"

definition tracker_Modify :: "nucdata \<Rightarrow> ptr \<Rightarrow> world \<Rightarrow> (world, unit) exec" where
  "tracker_Modify nd p w = with_res p w (\<lambda>t.
     if \<not> tracked t then ok () w
     else tracked_state_id p w (\<lambda>i. tracker_Record nd p (set_parents p i 0 w)))"

definition tracker_Extract :: "nucdata \<Rightarrow> ptr \<Rightarrow> ptr \<Rightarrow> world \<Rightarrow> (world, unit) exec" where
  "tracker_Extract nd p removed w = with_res p w (\<lambda>t.
     if \<not> tracked t then ok () w
     else tracked_state_id p w (\<lambda>i.
       let w1 = set_parents p i 0 w;
           w2 = upd_res removed (\<lambda>o'. o'\<lparr>parent1 := i, parent2 := 0, tracked := tracked t\<rparr>) w1
       in andThen (tracker_Record nd p w2) (\<lambda>_ w3. tracker_Record nd removed w3)))"

definition tracker_Absorb :: "nucdata \<Rightarrow> ptr \<Rightarrow> ptr \<Rightarrow> world \<Rightarrow> (world, unit) exec" where
  "tracker_Absorb nd p absorbed w = with_res p w (\<lambda>t.
     if \<not> tracked t then ok () w
     else tracked_state_id p w (\<lambda>i. tracked_state_id absorbed w (\<lambda>j.
            tracker_Record nd p (set_parents p i j w))))"

section \<open>Product\<close>

definition Product_new :: "bool \<Rightarrow> double \<Rightarrow> string \<Rightarrow> world \<Rightarrow> ptr \<times> world" where
  "Product_new ctx q quality w = new_resource (ProdBody quality) q ctx w"

definition Product_Create :: "nucdata \<Rightarrow> int \<Rightarrow> double \<Rightarrow> string \<Rightarrow> world \<Rightarrow> (world, ptr) exec" where
  "Product_Create nd creator q quality w =
     (let w1 = (case map_of (qualids w) quality of
                  Some _ \<Rightarrow> w
                | None \<Rightarrow> emit (Products (next_qualid w) quality)
                    (w\<lparr>qualids := (quality, next_qualid w) # qualids w, next_qualid := next_qualid w + 1\<rparr>));
          (p, w2) = Product_new True q quality w1
      in andThen (tracker_Create nd p creator w2) (\<lambda>_ w3. ok p w3))"

definition Product_CreateUntracked :: "double \<Rightarrow> string \<Rightarrow> world \<Rightarrow> ptr \<times> world" where
  "Product_CreateUntracked q quality w =
     (let (p, w1) = Product_new False q quality w in (p, DontTrack p w1))"

text \<open>\<open>Clone()\<close> of either class: a member-wise copy at a new address that is not tracked.\<close>

definition res_Clone :: "ptr \<Rightarrow> world \<Rightarrow> (world, ptr) exec" where
  "res_Clone p w = with_res p w (\<lambda>r.
     let c = w_next w
     in ok c (w\<lparr>w_res := (w_res w)(c \<mapsto> r\<lparr>tracked := False\<rparr>), w_next := Suc c\<rparr>))"

definition Product_Absorb :: "nucdata \<Rightarrow> ptr \<Rightarrow> ptr \<Rightarrow> world \<Rightarrow> (world, unit) exec" where
  "Product_Absorb nd p other w = with_res p w (\<lambda>r. with_res other w (\<lambda>ro.
     case (body r, body ro) of
       (ProdBody ql, ProdBody qlo) \<Rightarrow>
         if qlo \<noteq> ql then throw ValueError w
         else let w1 = upd_res p (quantity_update (\<lambda>x. x + quantity ro)) w;
                  w2 = upd_res other (quantity_update (\<lambda>_. 0)) w1
              in tracker_Absorb nd p other w2
     | _ \<Rightarrow> throw Undefined w))"

definition Product_Extract :: "nucdata \<Rightarrow> ptr \<Rightarrow> double \<Rightarrow> world \<Rightarrow> (world, ptr) exec" where
  "Product_Extract nd p q w = with_res p w (\<lambda>r.
     case body r of
       ProdBody ql \<Rightarrow>
         if q > quantity r then throw ValueError w
         else let w1 = upd_res p (quantity_update (\<lambda>x. x - q)) w;
                  (other, w2) = Product_new (has_ctx r) q ql w1
              in andThen (tracker_Extract nd p other w2) (\<lambda>_ w3. ok other w3)
     | _ \<Rightarrow> throw Undefined w)"

section \<open>Material\<close>

definition Material_new :: "bool \<Rightarrow> double \<Rightarrow> ptr \<Rightarrow> world \<Rightarrow> ptr \<times> world" where
  "Material_new ctx q c w =
     (let (p, w1) = new_resource (MatBody c (if ctx then w_time w else 0)) q ctx w
      in (p, if ctx then w1 else DontTrack p w1))"

definition Material_Create :: "nucdata \<Rightarrow> int \<Rightarrow> double \<Rightarrow> ptr \<Rightarrow> world \<Rightarrow> (world, ptr) exec" where
  "Material_Create nd creator q c w =
     (let (p, w1) = Material_new True q c w
      in andThen (tracker_Create nd p creator w1) (\<lambda>_ w2. ok p w2))"

definition Material_CreateUntracked :: "double \<Rightarrow> ptr \<Rightarrow> world \<Rightarrow> ptr \<times> world" where
  "Material_CreateUntracked q c w = Material_new False q c w"

definition NewBlankMaterial :: "nucdata \<Rightarrow> double \<Rightarrow> world \<Rightarrow> (world, ptr) exec" where
  "NewBlankMaterial nd q w =
     andThen (CreateFromMass nd [] w) (\<lambda>c w1. let (p, w2) = Material_CreateUntracked q c w1 in ok p w2)"

text \<open>Assignments to the members \<open>comp_\<close> and \<open>prev_decay_time_\<close>.\<close>

definition set_comp :: "ptr \<Rightarrow> ptr \<Rightarrow> world \<Rightarrow> world" where
  "set_comp p c w = upd_res p (body_update (\<lambda>b. case b of MatBody _ t \<Rightarrow> MatBody c t | _ \<Rightarrow> b)) w"

definition set_prev_decay_time :: "ptr \<Rightarrow> int \<Rightarrow> world \<Rightarrow> world" where
  "set_prev_decay_time p t w =
     upd_res p (body_update (\<lambda>b. case b of MatBody c _ \<Rightarrow> MatBody c t | _ \<Rightarrow> b)) w"

definition with_mat :: "ptr \<Rightarrow> world \<Rightarrow> (resource \<Rightarrow> ptr \<Rightarrow> int \<Rightarrow> (world, 'a) exec) \<Rightarrow> (world, 'a) exec" where
  "with_mat p w f = with_res p w (\<lambda>r.
     case body r of MatBody c t \<Rightarrow> f r c t | ProdBody _ \<Rightarrow> throw Undefined w)"

definition Transmute :: "nucdata \<Rightarrow> ptr \<Rightarrow> ptr \<Rightarrow> world \<Rightarrow> (world, unit) exec" where
  "Transmute nd p c w =
     andThen (tracker_Modify nd p (set_comp p c w)) (\<lambda>_ w1.
       with_mat p w1 (\<lambda>r _ t.
         if has_ctx r \<and> w_time w1 > t then ok () (set_prev_decay_time p (w_time w1) w1)
         else ok () w1))"

text \<open>
  The test of \<open>Material::Decay\<close> whether any nuclide would change by the fraction \<open>1e-3\<close>, read
  over the reversed map as in the source.
\<close>

definition decays_noticeably :: "nucdata \<Rightarrow> nat \<Rightarrow> int \<Rightarrow> CompMap \<Rightarrow> bool" where
  "decays_noticeably nd secs_per_timestep dt c \<longleftrightarrow>
     list_ex (\<lambda>(nuc, _).
       let lambda_timesteps = decay_const nd nuc * real secs_per_timestep;
           change = 1 - exp (- lambda_timesteps * of_int dt)
       in change \<ge> 1 / 1000) (rev c)"

definition Material_Decay :: "nucdata \<Rightarrow> ptr \<Rightarrow> int \<Rightarrow> world \<Rightarrow> (world, unit) exec" where
  "Material_Decay nd p curr_time0 w = with_mat p w (\<lambda>r comp0 t.
     if has_ctx r \<and> w_decay w = ''never'' then ok () w
     else if curr_time0 < 0 \<and> \<not> has_ctx r then throw ValueError w
     else
       let curr_time = (if curr_time0 < 0 then w_time w else curr_time0);
           dt = curr_time - t
       in if dt = 0 then ok () w
          else andThen (Composition_atom nd comp0 w) (\<lambda>c w1.
            let secs_per_timestep = (if has_ctx r then w_dt w1 else kDefaultTimeStepDur)
            in if \<not> (length c > 100) \<and> \<not> decays_noticeably nd secs_per_timestep dt c then ok () w1
               else let w2 = set_prev_decay_time p curr_time w1
                    in andThen (Composition_Decay nd comp0 dt secs_per_timestep w2) (\<lambda>decayed w3.
                         Transmute nd p decayed w3)))"

text \<open>\<open>comp()\<close>: forces the decay in lazy mode.\<close>

definition Material_comp :: "nucdata \<Rightarrow> ptr \<Rightarrow> world \<Rightarrow> (world, ptr) exec" where
  "Material_comp nd p w = with_mat p w (\<lambda>r _ _.
     andThen (if has_ctx r \<and> w_decay w = ''lazy'' then Material_Decay nd p (-1) w else ok () w)
       (\<lambda>_ w1. with_mat p w1 (\<lambda>_ c _. ok c w1)))"

text \<open>The composition left behind by an extraction, and the one of a mixture.\<close>

definition extract_remainder :: "nucdata \<Rightarrow> double \<Rightarrow> ptr \<Rightarrow> double \<Rightarrow> ptr \<Rightarrow> double \<Rightarrow> world \<Rightarrow> (world, ptr) exec" where
  "extract_remainder nd qty0 comp0 q c threshold w =
     andThen (Composition_mass nd comp0 w) (\<lambda>mass w1.
     andThen (Composition_mass nd c w1) (\<lambda>mass' w2.
       let v = compmath_Normalize qty0 mass;
           otherv = compmath_Normalize q mass';
           newv = compmath_Sub v otherv
       in case compmath_ApplyThreshold threshold newv of
            (Inl e, _) \<Rightarrow> throw e w2
          | (Inr _, newv') \<Rightarrow> CreateFromMass nd newv' w2))"

definition absorb_mixture :: "nucdata \<Rightarrow> double \<Rightarrow> ptr \<Rightarrow> double \<Rightarrow> ptr \<Rightarrow> world \<Rightarrow> (world, ptr) exec" where
  "absorb_mixture nd qty0 c0 q1 c1 w =
     andThen (Composition_mass nd c0 w) (\<lambda>mass w1.
     andThen (Composition_mass nd c1 w1) (\<lambda>mass' w2.
       CreateFromMass nd (compmath_Add (compmath_Normalize qty0 mass) (compmath_Normalize q1 mass')) w2))"

definition ExtractComp :: "nucdata \<Rightarrow> ptr \<Rightarrow> double \<Rightarrow> ptr \<Rightarrow> double \<Rightarrow> world \<Rightarrow> (world, ptr) exec" where
  "ExtractComp nd p q c threshold w = with_mat p w (\<lambda>r comp0 t.
     if quantity r < q then throw ValueError w
     else andThen
       (if comp0 \<noteq> c
        then andThen (extract_remainder nd (quantity r) comp0 q c threshold w)
               (\<lambda>c' w1. ok () (set_comp p c' w1))
        else ok () w)
       (\<lambda>_ w2.
          let w3 = upd_res p (quantity_update (\<lambda>x. x - q)) w2;
              (other, w4) = Material_new (has_ctx r) q c w3;
              w5 = set_prev_decay_time other t w4
          in andThen (tracker_Extract nd p other w5) (\<lambda>_ w6. ok other w6)))"

definition ExtractQty :: "nucdata \<Rightarrow> double \<Rightarrow> ptr \<Rightarrow> double \<Rightarrow> world \<Rightarrow> (world, ptr) exec" where
  "ExtractQty nd eps_rsrc p q w = with_mat p w (\<lambda>_ comp0 _. ExtractComp nd p q comp0 eps_rsrc w)"

text \<open>\<open>Absorb\<close> after the two \<open>comp()\<close> calls: mixing, decay time, quantities, tracker.\<close>

definition absorb_rest :: "nucdata \<Rightarrow> ptr \<Rightarrow> ptr \<Rightarrow> ptr \<Rightarrow> ptr \<Rightarrow> world \<Rightarrow> (world, unit) exec" where
  "absorb_rest nd p mat c0 c1 w2 =
     with_mat p w2 (\<lambda>r _ t. with_mat mat w2 (\<lambda>rm _ tm.
       andThen
         (if c0 \<noteq> c1
          then andThen (absorb_mixture nd (quantity r) c0 (quantity rm) c1 w2)
                 (\<lambda>c' w3. ok () (set_comp p c' w3))
          else ok () w2)
         (\<lambda>_ w4.
            let w5 = (if quantity r < quantity rm then set_prev_decay_time p tm w4 else w4);
                w6 = upd_res p (quantity_update (\<lambda>x. x + quantity rm)) w5;
                w7 = upd_res mat (quantity_update (\<lambda>_. 0)) w6
            in tracker_Absorb nd p mat w7)))"

definition Material_Absorb :: "nucdata \<Rightarrow> ptr \<Rightarrow> ptr \<Rightarrow> world \<Rightarrow> (world, unit) exec" where
  "Material_Absorb nd p mat w =
     andThen (Material_comp nd p w) (\<lambda>c0 w1.
     andThen (Material_comp nd mat w1) (\<lambda>c1 w2. absorb_rest nd p mat c0 c1 w2))"

section \<open>Conservation of quantity\<close>

text \<open>
  \<open>qframe w w'\<close>: the step from \<open>w\<close> to \<open>w'\<close> changed no quantity and freed nothing. Recording,
  decay and transmutation only do this; it holds whether or not they threw.
\<close>

definition qframe :: "world \<Rightarrow> world \<Rightarrow> bool" where
  "qframe w w' \<longleftrightarrow> (\<forall>p. map_option quantity (w_res w' p) = map_option quantity (w_res w p)) \<and>
     w_next w \<le> w_next w'"

lemma qframe_refl [simp, intro]: "qframe w w"
  by (simp add: qframe_def)

lemma qframe_trans: "qframe w w' \<Longrightarrow> qframe w' w'' \<Longrightarrow> qframe w w''"
  by (auto simp: qframe_def)

lemma qframe_of_res_frame: "res_frame w w' \<Longrightarrow> qframe w w'"
  by (simp add: qframe_def res_frame_def)

lemma qframe_upd_res: "(\<And>r. quantity (f r) = quantity r) \<Longrightarrow> qframe w (upd_res p f w') = qframe w w'"
  by (auto simp: qframe_def option.map_comp comp_def)

lemma qframe_simps [simp]:
  "qframe w (BumpStateId p w') = qframe w w'"
  "qframe w (DontTrack p w') = qframe w w'"
  "qframe w (set_parents p i j w') = qframe w w'"
  "qframe w (set_comp p c w') = qframe w w'"
  "qframe w (set_prev_decay_time p t w') = qframe w w'"
  "qframe w (emit x w') = qframe w w'"
  "qframe w (w'\<lparr>qualids := q\<rparr>) = qframe w w'"
  "qframe w (w'\<lparr>next_qualid := n\<rparr>) = qframe w w'"
proof -
  show "qframe w (BumpStateId p w') = qframe w w'"
    unfolding BumpStateId_def qframe_def by (auto simp: option.map_comp comp_def)
qed (simp_all add: DontTrack_def set_parents_def set_comp_def set_prev_decay_time_def qframe_upd_res,
     simp_all add: qframe_def)

lemmas qframe_andThen = snd_andThenI[where P = "qframe w" for w]
lemmas qframe_with_res = snd_with_resI[where P = "qframe w" for w]
lemmas qframe_with_comp = snd_with_compI[where P = "qframe w" for w]

lemma qframe_with_mat:
  "qframe w w' \<Longrightarrow> (\<And>r c t. w_res w' p = Some r \<Longrightarrow> body r = MatBody c t \<Longrightarrow> qframe w (snd (f r c t))) \<Longrightarrow>
   qframe w (snd (with_mat p w' f))"
  unfolding with_mat_def by (rule qframe_with_res) (auto split: res_body.splits)

lemma qframe_comp_ops:
  "qframe w w' \<Longrightarrow> qframe w (snd (Composition_Record nd c w'))"
  "qframe w w' \<Longrightarrow> qframe w (snd (Composition_atom nd c w'))"
  "qframe w w' \<Longrightarrow> qframe w (snd (Composition_mass nd c w'))"
  "qframe w w' \<Longrightarrow> qframe w (snd (Composition_Decay nd c d s w'))"
  "qframe w w' \<Longrightarrow> qframe w (snd (CreateFromMass nd v w'))"
  by (blast intro: qframe_trans qframe_of_res_frame res_frame_Record res_frame_atom res_frame_mass
      res_frame_Decay res_frame_CreateFromMass prod.collapse[symmetric])+

lemma qframe_qual_id: "qframe w w' \<Longrightarrow> qframe w (snd (qual_id r w'))"
  by (auto simp: qual_id_def split: res_body.splits option.splits intro!: qframe_with_comp)

lemma qframe_res_Record: "qframe w w' \<Longrightarrow> qframe w (snd (res_Record nd p w'))"
  by (auto simp: res_Record_def split: res_body.splits intro!: qframe_with_res qframe_comp_ops)

lemma qframe_tracker_Record: "qframe w w' \<Longrightarrow> qframe w (snd (tracker_Record nd p w'))"
  by (auto simp: tracker_Record_def Let_def
      intro!: qframe_with_res qframe_andThen qframe_qual_id qframe_res_Record)

lemma qframe_tracked_state_id:
  "qframe w w' \<Longrightarrow> (\<And>i. qframe w (snd (f i))) \<Longrightarrow> qframe w (snd (tracked_state_id p w' f))"
  by (auto simp: tracked_state_id_def intro!: qframe_with_res)

lemma qframe_removed [simp]:
  "qframe w (upd_res p (\<lambda>o'. o'\<lparr>parent1 := i, parent2 := 0, tracked := b\<rparr>) w') = qframe w w'"
  by (simp add: qframe_upd_res)

lemma qframe_tracker_ops:
  "qframe w w' \<Longrightarrow> qframe w (snd (tracker_Create nd p creator w'))"
  "qframe w w' \<Longrightarrow> qframe w (snd (tracker_Modify nd p w'))"
  "qframe w w' \<Longrightarrow> qframe w (snd (tracker_Extract nd p p' w'))"
  "qframe w w' \<Longrightarrow> qframe w (snd (tracker_Absorb nd p p' w'))"
  by (auto simp: tracker_Create_def tracker_Modify_def tracker_Extract_def tracker_Absorb_def Let_def
      intro!: qframe_with_res qframe_andThen qframe_tracker_Record qframe_tracked_state_id)

lemma qframe_Transmute: "qframe w w' \<Longrightarrow> qframe w (snd (Transmute nd p c w'))"
  by (auto simp: Transmute_def intro!: qframe_andThen qframe_with_mat qframe_tracker_ops)

lemma qframe_Material_Decay: "qframe w w' \<Longrightarrow> qframe w (snd (Material_Decay nd p t w'))"
  by (auto simp: Material_Decay_def Let_def
      intro!: qframe_with_mat qframe_andThen qframe_comp_ops qframe_Transmute)

lemma qframe_Material_comp: "qframe w w' \<Longrightarrow> qframe w (snd (Material_comp nd p w'))"
  by (auto simp: Material_comp_def intro!: qframe_with_mat qframe_andThen qframe_Material_Decay)

lemma qframe_extract_remainder:
  "qframe w w' \<Longrightarrow> qframe w (snd (extract_remainder nd q c q' c' thr w'))"
  by (auto simp: extract_remainder_def Let_def split: prod.splits sum.splits
      intro!: qframe_andThen qframe_comp_ops)

lemma qframe_absorb_mixture:
  "qframe w w' \<Longrightarrow> qframe w (snd (absorb_mixture nd q c q' c' w'))"
  by (auto simp: absorb_mixture_def intro!: qframe_andThen qframe_comp_ops)

subsection \<open>The total quantity in the store\<close>

definition qty_at :: "world \<Rightarrow> ptr \<Rightarrow> double" where
  "qty_at w p = (case w_res w p of None \<Rightarrow> 0 | Some r \<Rightarrow> quantity r)"

definition total_qty :: "world \<Rightarrow> double" where
  "total_qty w = (\<Sum>p < w_next w. qty_at w p)"

definition res_fresh :: "world \<Rightarrow> bool" where
  "res_fresh w \<longleftrightarrow> (\<forall>p \<ge> w_next w. w_res w p = None)"

lemma res_freshD: "res_fresh w \<Longrightarrow> w_res w p = Some r \<Longrightarrow> p < w_next w"
  by (metis linorder_not_less option.distinct(1) res_fresh_def)

lemma qframe_qty_at: "qframe w w' \<Longrightarrow> qty_at w' p = qty_at w p"
  unfolding qframe_def qty_at_def
  by (metis (mono_tags, lifting) option.case_eq_if option.map_disc_iff option.map_sel)

lemma qframe_fresh: "qframe w w' \<Longrightarrow> res_fresh w \<Longrightarrow> res_fresh w'"
  unfolding qframe_def res_fresh_def
  by (metis dual_order.trans option.map_disc_iff)

lemma total_qty_extend:
  assumes "res_fresh w" "w_next w \<le> n"
  shows "(\<Sum>p < n. qty_at w p) = total_qty w"
proof -
  have "(\<Sum>p < n. qty_at w p) = (\<Sum>p < w_next w. qty_at w p)"
    using assms by (intro sum.mono_neutral_right) (auto simp: res_fresh_def qty_at_def)
  then show ?thesis by (simp add: total_qty_def)
qed

lemma total_qty_qframe: "qframe w w' \<Longrightarrow> res_fresh w \<Longrightarrow> total_qty w' = total_qty w"
proof -
  assume q: "qframe w w'" and f: "res_fresh w"
  have "qty_at w' = qty_at w" using qframe_qty_at[OF q] by (rule ext)
  then show ?thesis using total_qty_extend[OF f, of "w_next w'"] q by (simp add: total_qty_def qframe_def)
qed

lemma qty_at_upd_res [simp]:
  "qty_at (upd_res p f w) q = (if q = p \<and> w_res w p \<noteq> None then quantity (f (the (w_res w p))) else qty_at w q)"
  by (auto simp: qty_at_def split: option.splits)

lemma total_qty_upd_res:
  assumes "res_fresh w" "w_res w p = Some r"
  shows "total_qty (upd_res p f w) = total_qty w + (quantity (f r) - quantity r)"
proof -
  have p: "p \<in> {..<w_next w}" using res_freshD[OF assms] by simp
  have "total_qty (upd_res p f w) = quantity (f r) + (\<Sum>q \<in> {..<w_next w} - {p}. qty_at w q)"
    using assms(2) by (simp add: total_qty_def sum.remove[OF _ p] cong: sum.cong_simp)
  moreover have "total_qty w = quantity r + (\<Sum>q \<in> {..<w_next w} - {p}. qty_at w q)"
    using assms(2) by (simp add: total_qty_def sum.remove[OF _ p] qty_at_def)
  ultimately show ?thesis by simp
qed

lemma res_fresh_upd_res [simp]: "res_fresh (upd_res p f w) = res_fresh w"
  by (auto simp: res_fresh_def)

lemma total_qty_new_resource:
  assumes "res_fresh w" "new_resource b q ctx w = (p, w')"
  shows "total_qty w' = total_qty w + q" "res_fresh w'" "p = w_next w"
    "w_res w' = (w_res w)(p \<mapsto> \<lparr>state_id = nextstate_id w, obj_id = nextobj_id w, quantity = q,
       has_ctx = ctx, parent1 = 0, parent2 = 0, tracked = True, tracker_res = p, body = b\<rparr>)"
    "w_next w' = Suc (w_next w)"
  using assms by (auto simp: new_resource_def Let_def total_qty_def qty_at_def res_fresh_def)

lemma total_qty_Material_new:
  assumes "res_fresh w" "Material_new ctx q c w = (p, w')"
  shows "total_qty w' = total_qty w + q" "res_fresh w'" "p = w_next w"
proof -
  obtain w1 where n: "new_resource (MatBody c (if ctx then w_time w else 0)) q ctx w = (p, w1)"
    and w': "w' = (if ctx then w1 else DontTrack p w1)"
    using assms(2) by (auto simp: Material_new_def split: prod.splits)
  have "qframe w1 w'" by (simp add: w')
  with total_qty_new_resource[OF assms(1) n]
  show "total_qty w' = total_qty w + q" "res_fresh w'" "p = w_next w"
    by (auto simp: total_qty_qframe qframe_fresh)
qed

text \<open>Each operation's effect on the total: \<open>conserves d w r\<close> says the run adds \<open>d\<close>.\<close>

definition conserves :: "double \<Rightarrow> world \<Rightarrow> world \<Rightarrow> bool" where
  "conserves d w w' \<longleftrightarrow> total_qty w' = total_qty w + d \<and> res_fresh w'"

lemma conserves_qframe: "res_fresh w \<Longrightarrow> qframe w w' \<Longrightarrow> conserves 0 w w'"
  by (simp add: conserves_def total_qty_qframe qframe_fresh)

lemma conserves_trans_qframe: "conserves d w w' \<Longrightarrow> qframe w' w'' \<Longrightarrow> conserves d w w''"
  by (auto simp: conserves_def total_qty_qframe qframe_fresh)

lemma conserves_Material_Create:
  assumes "res_fresh w"
  shows "conserves q w (snd (Material_Create nd creator q c w))"
proof -
  obtain p w1 where n: "Material_new True q c w = (p, w1)" by (cases "Material_new True q c w")
  note t = total_qty_Material_new[OF assms n]
  have "conserves q w w1" using t(1,2) by (simp add: conserves_def)
  moreover have "qframe w1 (snd (Material_Create nd creator q c w))"
    by (auto simp: Material_Create_def n intro!: qframe_andThen qframe_tracker_ops)
  ultimately show ?thesis by (rule conserves_trans_qframe)
qed

lemma conserves_Product_Create:
  assumes "res_fresh w"
  shows "conserves q w (snd (Product_Create nd creator q ql w))"
proof -
  define w1 where "w1 = (case map_of (qualids w) ql of Some _ \<Rightarrow> w
     | None \<Rightarrow> emit (Products (next_qualid w) ql)
         (w\<lparr>qualids := (ql, next_qualid w) # qualids w, next_qualid := next_qualid w + 1\<rparr>))"
  have q1: "qframe w w1" by (auto simp: w1_def qframe_def split: option.splits)
  obtain p w2 where n: "new_resource (ProdBody ql) q True w1 = (p, w2)"
    by (cases "new_resource (ProdBody ql) q True w1")
  note t = total_qty_new_resource[OF qframe_fresh[OF q1 assms] n]
  have "Product_Create nd creator q ql w = andThen (tracker_Create nd p creator w2) (\<lambda>_ w3. ok p w3)"
    by (simp add: Product_Create_def Product_new_def Let_def n w1_def[symmetric])
  then have "qframe w2 (snd (Product_Create nd creator q ql w))"
    by (auto intro!: qframe_andThen qframe_tracker_ops)
  moreover have "conserves q w w2"
    using t(1,2) total_qty_qframe[OF q1 assms] by (simp add: conserves_def)
  ultimately show ?thesis by (rule conserves_trans_qframe[rotated])
qed

lemma conserves_Clone:
  assumes "res_fresh w" "w_res w p = Some r"
  shows "conserves (quantity r) w (snd (res_Clone p w))"
  using assms by (auto simp: res_Clone_def conserves_def total_qty_def qty_at_def res_fresh_def Let_def)

lemma conserves_ExtractComp:
  assumes "res_fresh w"
  shows "conserves 0 w (snd (ExtractComp nd p q c thr w))"
proof (cases "\<exists>r c0 t. w_res w p = Some r \<and> body r = MatBody c0 t \<and> \<not> quantity r < q")
  case False
  then have "snd (ExtractComp nd p q c thr w) = w"
    by (auto simp: ExtractComp_def with_mat_def with_res_def split: option.splits res_body.splits)
  with assms show ?thesis by (simp add: conserves_qframe)
next
  case True
  then obtain r c0 t where r: "w_res w p = Some r" "body r = MatBody c0 t" "\<not> quantity r < q" by blast
  define rem where "rem = (if c0 \<noteq> c
        then andThen (extract_remainder nd (quantity r) c0 q c thr w) (\<lambda>c' w1. ok () (set_comp p c' w1))
        else ok () w)"
  define rest where "rest = (\<lambda>(u :: unit) w2. let w3 = upd_res p (quantity_update (\<lambda>x. x - q)) w2;
              (other, w4) = Material_new (has_ctx r) q c w3;
              w5 = set_prev_decay_time other t w4
          in andThen (tracker_Extract nd p other w5) (\<lambda>_ w6. ok other w6))"
  have eq: "ExtractComp nd p q c thr w = andThen rem rest"
    using r by (simp add: ExtractComp_def with_mat_def rem_def rest_def)
  have q2: "qframe w (snd rem)"
    by (auto simp: rem_def intro!: qframe_andThen qframe_extract_remainder)
  show ?thesis
  proof (cases "fst rem")
    case (Inl e)
    then have "snd (andThen rem rest) = snd rem" by (cases rem) simp
    then show ?thesis using q2 assms by (simp add: eq conserves_qframe)
  next
    case (Inr u)
    define w2 where "w2 = snd rem"
    have fw2: "res_fresh w2" "qframe w w2" using q2 assms qframe_fresh by (auto simp: w2_def)
    have "map_option quantity (w_res w2 p) = Some (quantity r)" using fw2(2) r(1) by (simp add: qframe_def)
    then obtain r2 where r2: "w_res w2 p = Some r2" "quantity r2 = quantity r" by auto
    define w3 where "w3 = upd_res p (quantity_update (\<lambda>x. x - q)) w2"
    obtain other w4 where n: "Material_new (has_ctx r) q c w3 = (other, w4)"
      by (cases "Material_new (has_ctx r) q c w3")
    have f3: "res_fresh w3" using fw2 by (simp add: w3_def)
    have t3: "total_qty w3 = total_qty w - q"
      using total_qty_upd_res[OF fw2(1) r2(1), of "quantity_update (\<lambda>x. x - q)"]
        total_qty_qframe[OF fw2(2) assms] by (simp add: w3_def)
    have c4: "conserves 0 w w4" using total_qty_Material_new(1,2)[OF f3 n] t3 by (simp add: conserves_def)
    have "snd (andThen rem rest) = snd (rest u w2)" using Inr by (cases rem) (simp add: w2_def)
    moreover have "qframe w4 (snd (rest u w2))"
      by (auto simp: rest_def Let_def w3_def[symmetric] n intro!: qframe_andThen qframe_tracker_ops)
    ultimately show ?thesis using conserves_trans_qframe[OF c4] by (simp add: eq)
  qed
qed

lemma conserves_ExtractQty:
  assumes "res_fresh w"
  shows "conserves 0 w (snd (ExtractQty nd eps p q w))"
  using conserves_ExtractComp[OF assms] conserves_qframe[OF assms qframe_refl]
  by (auto simp: ExtractQty_def with_mat_def with_res_def split: option.splits res_body.splits)

lemma conserves_Product_Extract:
  assumes "res_fresh w"
  shows "conserves 0 w (snd (Product_Extract nd p q w))"
proof (cases "\<exists>r ql. w_res w p = Some r \<and> body r = ProdBody ql \<and> \<not> q > quantity r")
  case False
  then have "snd (Product_Extract nd p q w) = w"
    by (auto simp: Product_Extract_def with_res_def split: option.splits res_body.splits)
  with assms show ?thesis by (simp add: conserves_qframe)
next
  case True
  then obtain r ql where r: "w_res w p = Some r" "body r = ProdBody ql" "\<not> q > quantity r" by blast
  define w1 where "w1 = upd_res p (quantity_update (\<lambda>x. x - q)) w"
  obtain other w2 where n: "new_resource (ProdBody ql) q (has_ctx r) w1 = (other, w2)"
    by (cases "new_resource (ProdBody ql) q (has_ctx r) w1")
  have f1: "res_fresh w1" using assms by (simp add: w1_def)
  have t1: "total_qty w1 = total_qty w - q"
    using total_qty_upd_res[OF assms r(1), of "quantity_update (\<lambda>x. x - q)"] by (simp add: w1_def)
  have "conserves 0 w w2" using total_qty_new_resource(1,2)[OF f1 n] t1 by (simp add: conserves_def)
  moreover have "qframe w2 (snd (Product_Extract nd p q w))"
    using r by (auto simp: Product_Extract_def Product_new_def Let_def w1_def[symmetric] n
        intro!: qframe_andThen qframe_tracker_ops)
  ultimately show ?thesis by (rule conserves_trans_qframe)
qed

text \<open>Moving a whole quantity from one object to another.\<close>

definition move_qty :: "ptr \<Rightarrow> ptr \<Rightarrow> double \<Rightarrow> world \<Rightarrow> world" where
  "move_qty p other q w =
     upd_res other (quantity_update (\<lambda>_. 0)) (upd_res p (quantity_update (\<lambda>x. x + q)) w)"

lemma conserves_move_qty:
  assumes "res_fresh w" "p \<noteq> other" "w_res w p = Some r" "w_res w other = Some ro"
  shows "conserves 0 w (move_qty p other (quantity ro) w)"
proof -
  define w1 where "w1 = upd_res p (quantity_update (\<lambda>x. x + quantity ro)) w"
  have f1: "res_fresh w1" and o1: "w_res w1 other = Some ro" using assms by (simp_all add: w1_def)
  have "total_qty w1 = total_qty w + quantity ro"
    using total_qty_upd_res[OF assms(1,3), of "quantity_update (\<lambda>x. x + quantity ro)"] by (simp add: w1_def)
  then have "total_qty (move_qty p other (quantity ro) w) = total_qty w"
    using total_qty_upd_res[OF f1 o1, of "quantity_update (\<lambda>_. 0)"] by (simp add: move_qty_def w1_def)
  with assms show ?thesis by (simp add: conserves_def move_qty_def)
qed

lemma conserves_Product_Absorb:
  assumes "res_fresh w" "p \<noteq> other"
  shows "conserves 0 w (snd (Product_Absorb nd p other w))"
proof (cases "\<exists>r ro ql. w_res w p = Some r \<and> w_res w other = Some ro \<and> body r = ProdBody ql \<and> body ro = ProdBody ql")
  case False
  then have "snd (Product_Absorb nd p other w) = w"
    by (auto simp: Product_Absorb_def with_res_def split: option.splits res_body.splits)
  with assms show ?thesis by (simp add: conserves_qframe)
next
  case True
  then obtain r ro ql where r: "w_res w p = Some r" "w_res w other = Some ro" "body r = ProdBody ql"
    "body ro = ProdBody ql" by blast
  have "qframe (move_qty p other (quantity ro) w) (snd (Product_Absorb nd p other w))"
    using r by (auto simp: Product_Absorb_def Let_def move_qty_def intro!: qframe_tracker_ops)
  then show ?thesis by (rule conserves_trans_qframe[OF conserves_move_qty[OF assms r(1,2)]])
qed

lemma conserves_andThen:
  assumes "res_fresh w" "qframe w (snd m)"
    and "\<And>a. fst m = Inr a \<Longrightarrow> res_fresh (snd m) \<Longrightarrow> conserves 0 (snd m) (snd (f a (snd m)))"
  shows "conserves 0 w (snd (andThen m f))"
proof (cases "fst m")
  case (Inl e)
  then have "snd (andThen m f) = snd m" by (cases m) simp
  then show ?thesis using assms(1,2) by (simp add: conserves_qframe)
next
  case (Inr a)
  have "conserves 0 (snd m) (snd (f a (snd m)))"
    by (rule assms(3)[OF Inr qframe_fresh[OF assms(2,1)]])
  moreover have "snd (andThen m f) = snd (f a (snd m))" using Inr by (cases m) simp
  ultimately show ?thesis
    using total_qty_qframe[OF assms(2,1)] by (simp add: conserves_def)
qed

lemma conserves_with_mat:
  assumes "res_fresh w"
    and "\<And>r c t. w_res w p = Some r \<Longrightarrow> body r = MatBody c t \<Longrightarrow> conserves 0 w (snd (f r c t))"
  shows "conserves 0 w (snd (with_mat p w f))"
  using assms conserves_qframe[OF assms(1) qframe_refl]
  by (auto simp: with_mat_def with_res_def split: option.splits res_body.splits)

lemma qframe_resD: "qframe w w' \<Longrightarrow> w_res w p = Some r \<Longrightarrow> \<exists>r'. w_res w' p = Some r' \<and> quantity r' = quantity r"
  unfolding qframe_def by (metis map_option_eq_Some option.simps(9))

lemma conserves_absorb_rest:
  assumes "res_fresh w" "p \<noteq> mat"
  shows "conserves 0 w (snd (absorb_rest nd p mat c0 c1 w))"
  unfolding absorb_rest_def
proof (intro conserves_with_mat conserves_andThen assms(1))
  fix r rm :: resource and tm and u :: unit
  let ?m = "if c0 \<noteq> c1
    then andThen (absorb_mixture nd (quantity r) c0 (quantity rm) c1 w) (\<lambda>c' w3. ok () (set_comp p c' w3))
    else ok () w"
  show q4: "qframe w (snd ?m)" by (auto intro!: qframe_andThen qframe_absorb_mixture)
  assume r: "w_res w p = Some r" and rm: "w_res w mat = Some rm" and f4: "res_fresh (snd ?m)"
  define w5 where "w5 = (if quantity r < quantity rm then set_prev_decay_time p tm (snd ?m) else snd ?m)"
  have q45: "qframe (snd ?m) w5" by (simp add: w5_def)
  note q5 = qframe_trans[OF q4 q45]
  obtain r5 rm5 where r5: "w_res w5 p = Some r5" "w_res w5 mat = Some rm5" "quantity rm5 = quantity rm"
    using qframe_resD[OF q5 r] qframe_resD[OF q5 rm] by blast
  have "conserves 0 w5 (move_qty p mat (quantity rm) w5)"
    using conserves_move_qty[OF qframe_fresh[OF q45 f4] assms(2) r5(1,2)] r5(3) by simp
  then have "conserves 0 (snd ?m) (move_qty p mat (quantity rm) w5)"
    using conserves_qframe[OF f4 q45] by (simp add: conserves_def)
  then show "conserves 0 (snd ?m) (snd (let w5 = (if quantity r < quantity rm then set_prev_decay_time p tm (snd ?m) else snd ?m);
          w6 = upd_res p (quantity_update (\<lambda>x. x + quantity rm)) w5;
          w7 = upd_res mat (quantity_update (\<lambda>_. 0)) w6
      in tracker_Absorb nd p mat w7))"
    unfolding Let_def w5_def[symmetric] move_qty_def
    by (rule conserves_trans_qframe) (rule qframe_tracker_ops(4)[OF qframe_refl])
qed

lemma conserves_Material_Absorb:
  assumes "res_fresh w" "p \<noteq> mat"
  shows "conserves 0 w (snd (Material_Absorb nd p mat w))"
  unfolding Material_Absorb_def
  by (intro conserves_andThen[OF assms(1)] conserves_andThen conserves_absorb_rest[OF _ assms(2)]
      qframe_Material_comp qframe_refl)

text \<open>
  Absorbing an object into itself: nothing in the code stops it, and the object's own quantity is
  set to zero after it was doubled. After a step that only tracks, an exception is undefined
  behaviour.
\<close>

definition only_ub :: "('s, 'a) exec \<Rightarrow> bool" where
  "only_ub r \<longleftrightarrow> (\<forall>e. fst r = Inl e \<longrightarrow> e = Undefined)"

lemma only_ub_simps [simp]: "only_ub (ok a s)" "only_ub (throw e s) = (e = Undefined)" "only_ub (Inr a, s)" "only_ub (Inl e, s) = (e = Undefined)"
  by (simp_all add: only_ub_def)

lemma only_ub_andThen: "only_ub r \<Longrightarrow> (\<And>a s. only_ub (f a s)) \<Longrightarrow> only_ub (andThen r f)"
  by (auto simp: only_ub_def andThen_def split: prod.splits sum.splits)

lemma only_ub_with: "(\<And>r. only_ub (f r)) \<Longrightarrow> only_ub (with_res p w f)" "(\<And>cp. only_ub (g cp)) \<Longrightarrow> only_ub (with_comp c w g)"
  by (auto simp: with_res_def with_comp_def split: option.splits)

lemma only_ub_res_Record: "only_ub (res_Record nd p w)"
  by (auto simp: res_Record_def Composition_Record_def Composition_mass_def Let_def split: res_body.splits
      intro!: only_ub_with only_ub_andThen)

lemma only_ub_tracker_Absorb: "only_ub (tracker_Absorb nd p q w)"
  by (auto simp: tracker_Absorb_def tracked_state_id_def tracker_Record_def qual_id_def Let_def split: res_body.splits option.splits
      intro!: only_ub_with only_ub_andThen only_ub_res_Record)

lemma conserves_zeroed:
  assumes "res_fresh w" "qframe w w1" "w_res w p = Some r" "qframe (upd_res p (quantity_update (\<lambda>_. 0)) (upd_res p (quantity_update g) w1)) w'"
  shows "conserves (- qty_at w p) w w'"
proof -
  obtain r1 where r1: "w_res w1 p = Some r1" "quantity r1 = quantity r" using qframe_resD[OF assms(2,3)] by blast
  have f: "res_fresh w1" "res_fresh (upd_res p (quantity_update g) w1)" using qframe_fresh[OF assms(2,1)] by simp_all
  have "total_qty (upd_res p (quantity_update (\<lambda>_. 0)) (upd_res p (quantity_update g) w1)) = total_qty w - quantity r"
    using total_qty_upd_res[OF f(1) r1(1), of "quantity_update g"]
      total_qty_upd_res[OF f(2), of p "r1\<lparr>quantity := g (quantity r1)\<rparr>" "quantity_update (\<lambda>_. 0)"]
      total_qty_qframe[OF assms(2,1)] r1 by simp
  then show ?thesis
    using total_qty_qframe[OF assms(4)] qframe_fresh[OF assms(4)] f assms(3) by (simp add: conserves_def qty_at_def)
qed

lemma conserves_Product_Absorb_self:
  assumes "res_fresh w" "Product_Absorb nd p p w = (x, w')" "x \<noteq> Inl Undefined"
  shows "conserves (if x = Inr () then - qty_at w p else 0) w w'"
proof -
  obtain r ql where r: "w_res w p = Some r" "body r = ProdBody ql"
    using assms(2,3) by (auto simp: Product_Absorb_def with_res_def throw_def split: option.splits res_body.splits)
  let ?w = "upd_res p (quantity_update (\<lambda>_. 0)) (upd_res p (quantity_update (\<lambda>x. x + quantity r)) w)"
  have t: "tracker_Absorb nd p p ?w = (x, w')" using assms(2) r by (simp add: Product_Absorb_def Let_def)
  then have "qframe ?w w'" using qframe_tracker_ops(4)[OF qframe_refl, of ?w nd p p] by simp
  moreover have "x = Inr ()" using only_ub_tracker_Absorb[of nd p p ?w] t assms(3) by (cases x) (auto simp: only_ub_def)
  ultimately show ?thesis using conserves_zeroed[OF assms(1) qframe_refl r(1)] by simp
qed

lemma conserves_absorb_rest_self:
  assumes "res_fresh w" "absorb_rest nd p p c0 c1 w = (x, w')" "x \<noteq> Inl Undefined"
  shows "conserves (if x = Inr () then - qty_at w p else 0) w w'"
proof -
  obtain r c t where r: "w_res w p = Some r" "body r = MatBody c t"
    using assms(2,3) by (auto simp: absorb_rest_def with_mat_def with_res_def throw_def split: option.splits res_body.splits)
  define m where "m = (if c0 \<noteq> c1
    then andThen (absorb_mixture nd (quantity r) c0 (quantity r) c1 w) (\<lambda>c' w3. ok () (set_comp p c' w3)) else ok () w)"
  have q: "qframe w (snd m)" unfolding m_def by (auto intro!: qframe_andThen qframe_absorb_mixture)
  have e: "andThen m (\<lambda>_ w4. tracker_Absorb nd p p (upd_res p (quantity_update (\<lambda>_. 0)) (upd_res p (quantity_update (\<lambda>x. x + quantity r)) w4))) = (x, w')"
    using assms(2) r by (simp add: absorb_rest_def with_mat_def Let_def m_def)
  show ?thesis
  proof (cases "fst m")
    case (Inl y)
    then have "x = Inl y" "w' = snd m" using e by (cases m; simp)+
    then show ?thesis using conserves_qframe[OF assms(1) q] by simp
  next
    case (Inr u)
    let ?w = "upd_res p (quantity_update (\<lambda>_. 0)) (upd_res p (quantity_update (\<lambda>x. x + quantity r)) (snd m))"
    have t: "tracker_Absorb nd p p ?w = (x, w')" using e Inr by (cases m) simp
    then have "qframe ?w w'" using qframe_tracker_ops(4)[OF qframe_refl, of ?w nd p p] by simp
    moreover have "x = Inr ()" using only_ub_tracker_Absorb[of nd p p ?w] t assms(3) by (cases x) (auto simp: only_ub_def)
    ultimately show ?thesis using conserves_zeroed[OF assms(1) q r(1)] by simp
  qed
qed

lemma conserves_Material_Absorb_self:
  assumes "res_fresh w" "Material_Absorb nd p p w = (x, w')" "x \<noteq> Inl Undefined"
  shows "conserves (if x = Inr () then - qty_at w p else 0) w w'"
proof -
  define m1 where "m1 = Material_comp nd p w"
  define m2 where "m2 = Material_comp nd p (snd m1)"
  have q1: "qframe w (snd m1)" and q2: "qframe (snd m1) (snd m2)" unfolding m1_def m2_def by (rule qframe_Material_comp[OF qframe_refl])+
  note q = qframe_trans[OF q1 q2]
  have e: "andThen m1 (\<lambda>c0 w1. andThen (Material_comp nd p w1) (\<lambda>c1 w2. absorb_rest nd p p c0 c1 w2)) = (x, w')"
    using assms(2) by (simp add: Material_Absorb_def m1_def)
  show ?thesis
  proof (cases "fst m1")
    case (Inl y)
    then have "x = Inl y" "w' = snd m1" using e by (cases m1; simp)+
    then show ?thesis using conserves_qframe[OF assms(1) q1] by simp
  next
    case c0: (Inr c0)
    then have e2: "andThen m2 (\<lambda>c1 w2. absorb_rest nd p p c0 c1 w2) = (x, w')" using e by (cases m1) (simp add: m2_def)
    show ?thesis
    proof (cases "fst m2")
      case (Inl y)
      then have "x = Inl y" "w' = snd m2" using e2 by (cases m2; simp)+
      then show ?thesis using conserves_qframe[OF assms(1) q] by simp
    next
      case (Inr c1)
      then have "absorb_rest nd p p c0 c1 (snd m2) = (x, w')" using e2 by (cases m2) simp
      then show ?thesis
        using conserves_absorb_rest_self[OF qframe_fresh[OF q assms(1)]] assms(3) total_qty_qframe[OF q assms(1)] qframe_qty_at[OF q]
        by (simp add: conserves_def)
    qed
  qed
qed

section \<open>Sequences of operations\<close>

text \<open>
  One step is any operation of the public interface on any objects, with the quantity it brings in
  from outside; a thrown exception is a step too. Compositions are made by their two factories and by
  decay. An object absorbed into itself loses its quantity, which counts negative. \<open>set_time\<close> is the
  timer moving on.
\<close>

inductive res_step :: "nucdata \<Rightarrow> double \<Rightarrow> world \<Rightarrow> double \<Rightarrow> world \<Rightarrow> bool" for nd eps_rsrc where
  comp_mass_new: "res_step nd eps_rsrc w 0 (snd (CreateFromMass nd v w))"
| comp_atom_new: "res_step nd eps_rsrc w 0 (snd (CreateFromAtom nd v w))"
| comp_decay: "res_step nd eps_rsrc w 0 (snd (Composition_Decay nd c delta secs w))"
| create_mat: "res_step nd eps_rsrc w q (snd (Material_Create nd creator q c w))"
| create_prod: "res_step nd eps_rsrc w q (snd (Product_Create nd creator q ql w))"
| untracked_mat: "res_step nd eps_rsrc w q (snd (Material_CreateUntracked q c w))"
| untracked_prod: "res_step nd eps_rsrc w q (snd (Product_CreateUntracked q ql w))"
| clone: "w_res w p = Some r \<Longrightarrow> res_step nd eps_rsrc w (quantity r) (snd (res_Clone p w))"
| extract_comp: "res_step nd eps_rsrc w 0 (snd (ExtractComp nd p q c thr w))"
| extract_qty: "res_step nd eps_rsrc w 0 (snd (ExtractQty nd eps_rsrc p q w))"
| extract_prod: "res_step nd eps_rsrc w 0 (snd (Product_Extract nd p q w))"
| absorb_mat: "p \<noteq> mat \<Longrightarrow> res_step nd eps_rsrc w 0 (snd (Material_Absorb nd p mat w))"
| absorb_prod: "p \<noteq> other \<Longrightarrow> res_step nd eps_rsrc w 0 (snd (Product_Absorb nd p other w))"
| absorb_mat_self: "Material_Absorb nd p p w = (x, w') \<Longrightarrow> x \<noteq> Inl Undefined \<Longrightarrow>
    res_step nd eps_rsrc w (if x = Inr () then - qty_at w p else 0) w'"
| absorb_prod_self: "Product_Absorb nd p p w = (x, w') \<Longrightarrow> x \<noteq> Inl Undefined \<Longrightarrow>
    res_step nd eps_rsrc w (if x = Inr () then - qty_at w p else 0) w'"
| transmute: "res_step nd eps_rsrc w 0 (snd (Transmute nd p c w))"
| decay: "res_step nd eps_rsrc w 0 (snd (Material_Decay nd p t w))"
| get_comp: "res_step nd eps_rsrc w 0 (snd (Material_comp nd p w))"
| set_time: "res_step nd eps_rsrc w 0 (w\<lparr>w_time := t\<rparr>)"

inductive res_run :: "nucdata \<Rightarrow> double \<Rightarrow> world \<Rightarrow> double list \<Rightarrow> world \<Rightarrow> bool" for nd eps_rsrc where
  run_nil: "res_run nd eps_rsrc w [] w"
| run_snoc: "res_run nd eps_rsrc w ds w' \<Longrightarrow> res_step nd eps_rsrc w' d w'' \<Longrightarrow>
    res_run nd eps_rsrc w (ds @ [d]) w''"

lemma conserves_untracked:
  assumes "res_fresh w"
  shows "conserves q w (snd (Material_CreateUntracked q c w))"
    "conserves q w (snd (Product_CreateUntracked q ql w))"
proof -
  obtain p w1 where n: "Material_new False q c w = (p, w1)" by (cases "Material_new False q c w")
  show "conserves q w (snd (Material_CreateUntracked q c w))"
    using total_qty_Material_new(1,2)[OF assms n] by (simp add: Material_CreateUntracked_def n conserves_def)
  obtain p' w1' where n': "new_resource (ProdBody ql) q False w = (p', w1')"
    by (cases "new_resource (ProdBody ql) q False w")
  have "conserves q w w1'" using total_qty_new_resource(1,2)[OF assms n'] by (simp add: conserves_def)
  then show "conserves q w (snd (Product_CreateUntracked q ql w))"
    by (rule conserves_trans_qframe) (simp add: Product_CreateUntracked_def Product_new_def n')
qed

lemmas conserves_ops = conserves_Material_Create conserves_Product_Create conserves_untracked
  conserves_Clone conserves_ExtractComp conserves_ExtractQty conserves_Product_Extract
  conserves_Material_Absorb conserves_Product_Absorb

lemma qframe_compositions:
  "qframe w (snd (CreateFromMass nd v w))" "qframe w (snd (CreateFromAtom nd v w))" "qframe w (snd (Composition_Decay nd c delta secs w))"
proof -
  show "qframe w (snd (CreateFromMass nd v w))" "qframe w (snd (CreateFromAtom nd v w))"
    by (auto simp: CreateFromMass_def CreateFromAtom_def new_composition0_def new_chain_def new_composition_def Let_def qframe_def throw_def ok_def)
  show "qframe w (snd (Composition_Decay nd c delta secs w))"
    by (rule qframe_of_res_frame) (rule res_frame_Decay[OF prod.collapse[symmetric]])
qed

lemma res_step_conserves:
  assumes "res_step nd eps w d w'" "res_fresh w"
  shows "conserves d w w'"
  using assms
proof (induction rule: res_step.induct)
  case (set_time w t)
  then show ?case by (intro conserves_qframe) (simp_all add: qframe_def)
next
  case (absorb_mat_self p w x w')
  then show ?case by (intro conserves_Material_Absorb_self)
next
  case (absorb_prod_self p w x w')
  then show ?case by (intro conserves_Product_Absorb_self)
qed (auto intro: conserves_ops
    conserves_qframe qframe_compositions qframe_Transmute qframe_Material_Decay qframe_Material_comp)

text \<open>C7. Mass balance over any history: whatever sequence of operations is performed on
  compositions, materials and products (creating, cloning, extracting, absorbing, transmuting,
  decaying, in any order, on any objects, with or without exceptions), the total quantity held by all
  objects is the total at the start plus exactly what was created or cloned, less the quantity of every
  object that was absorbed into itself, which the code destroys.\<close>

theorem quantity_conserved:
  assumes "res_run nd eps w ds w'" "res_fresh w"
  shows "total_qty w' = total_qty w + sum_list ds \<and> res_fresh w'"
  using assms
proof (induction rule: res_run.induct)
  case (run_snoc w ds w' d w'')
  then show ?case using res_step_conserves[OF run_snoc.hyps(2)] by (simp add: conserves_def)
qed simp

theorem quantity_conserved_witness:
  "let w1 = snd (Product_CreateUntracked 5 ''widget'' (init_world ''never'' 1));
       w2 = snd (Product_Extract demo_nd 0 2 w1)
   in total_qty w2 = 5 \<and> qty_at w2 0 = 3 \<and> qty_at w2 1 = 2"
proof -
  define w0 where "w0 = init_world ''never'' 1"
  define w1 where "w1 = snd (Product_CreateUntracked 5 ''widget'' w0)"
  define w2 where "w2 = snd (Product_Extract demo_nd 0 2 w1)"
  have "res_run demo_nd 0 w0 ([] @ [5]) w1"
    unfolding w1_def by (rule run_snoc[OF run_nil untracked_prod])
  then have "res_run demo_nd 0 w0 (([] @ [5]) @ [0]) w2"
    unfolding w2_def by (rule run_snoc[OF _ extract_prod])
  moreover have "res_fresh w0" "total_qty w0 = 0"
    by (simp_all add: w0_def init_world_def res_fresh_def total_qty_def)
  ultimately have "total_qty w2 = 5" using quantity_conserved [of demo_nd 0 w0 "([] @ [5]) @ [0]" w2] by simp
  moreover have "qty_at w2 0 = 3 \<and> qty_at w2 1 = 2"
    by (simp add: w2_def w1_def w0_def init_world_def Product_CreateUntracked_def Product_new_def
        new_resource_def DontTrack_def Product_Extract_def tracker_Extract_def Let_def qty_at_def)
  ultimately show ?thesis by (simp add: w2_def w1_def w0_def Let_def)
qed

section \<open>Nuclide balance of extraction and absorption\<close>

text \<open>
  \<open>tframe\<close>: tracking and recording change neither quantities nor the material or product data
  of any object, and no composition changes its meaning.
\<close>

definition tframe :: "nucdata \<Rightarrow> world \<Rightarrow> world \<Rightarrow> bool" where
  "tframe nd w w' \<longleftrightarrow> mframe nd w w' \<and>
     (\<forall>p. map_option (\<lambda>r. (quantity r, body r)) (w_res w' p) = map_option (\<lambda>r. (quantity r, body r)) (w_res w p))"

lemma tframe_refl [simp, intro]: "tframe nd w w"
  by (simp add: tframe_def)

lemma tframe_upd_res:
  "(\<And>r. quantity (f r) = quantity r \<and> body (f r) = body r) \<Longrightarrow> tframe nd w (upd_res p f w') = tframe nd w w'"
  unfolding tframe_def by (auto simp: option.map_comp comp_def)

lemma tframe_simps [simp]:
  "tframe nd w (BumpStateId p w') = tframe nd w w'"
  "tframe nd w (DontTrack p w') = tframe nd w w'"
  "tframe nd w (set_parents p i j w') = tframe nd w w'"
  "tframe nd w (upd_res p (\<lambda>o'. o'\<lparr>parent1 := i, parent2 := j, tracked := b\<rparr>) w') = tframe nd w w'"
  "tframe nd w (emit x w') = tframe nd w w'"
  "tframe nd w (w'\<lparr>qualids := q\<rparr>) = tframe nd w w'"
proof -
  show "tframe nd w (BumpStateId p w') = tframe nd w w'"
    unfolding BumpStateId_def tframe_def mframe_def by (auto simp: option.map_comp comp_def)
qed (simp_all add: DontTrack_def set_parents_def tframe_upd_res, simp_all add: tframe_def mframe_def)

lemma tframe_of_comp: "tframe nd w w' \<Longrightarrow> mframe nd w' w'' \<Longrightarrow> res_frame w' w'' \<Longrightarrow> tframe nd w w''"
  by (auto simp: tframe_def res_frame_def dest: mframe_trans)

lemmas tframe_andThen = snd_andThenI[where P = "tframe nd w" for nd w]
lemmas tframe_with_res = snd_with_resI[where P = "tframe nd w" for nd w]
lemmas tframe_with_comp = snd_with_compI[where P = "tframe nd w" for nd w]

lemma tframe_Composition_Record: "tframe nd w w' \<Longrightarrow> tframe nd w (snd (Composition_Record nd c w'))"
  by (erule tframe_of_comp) (auto intro: mframe_Record res_frame_Record[OF prod.collapse[symmetric]])

lemma tframe_qual_id: "tframe nd w w' \<Longrightarrow> tframe nd w (snd (qual_id r w'))"
  by (auto simp: qual_id_def split: res_body.splits option.splits intro!: tframe_with_comp)

lemma tframe_res_Record: "tframe nd w w' \<Longrightarrow> tframe nd w (snd (res_Record nd p w'))"
  by (auto simp: res_Record_def split: res_body.splits intro!: tframe_with_res tframe_Composition_Record)

lemma tframe_tracker_Record: "tframe nd w w' \<Longrightarrow> tframe nd w (snd (tracker_Record nd p w'))"
  by (auto simp: tracker_Record_def Let_def
      intro!: tframe_with_res tframe_andThen tframe_qual_id tframe_res_Record)

lemma tframe_tracked_state_id:
  "tframe nd w w' \<Longrightarrow> (\<And>i. tframe nd w (snd (f i))) \<Longrightarrow> tframe nd w (snd (tracked_state_id p w' f))"
  by (auto simp: tracked_state_id_def intro!: tframe_with_res)

lemma tframe_tracker_ops:
  "tframe nd w w' \<Longrightarrow> tframe nd w (snd (tracker_Create nd p creator w'))"
  "tframe nd w w' \<Longrightarrow> tframe nd w (snd (tracker_Modify nd p w'))"
  "tframe nd w w' \<Longrightarrow> tframe nd w (snd (tracker_Extract nd p p' w'))"
  "tframe nd w w' \<Longrightarrow> tframe nd w (snd (tracker_Absorb nd p p' w'))"
  by (auto simp: tracker_Create_def tracker_Modify_def tracker_Extract_def tracker_Absorb_def Let_def
      intro!: tframe_with_res tframe_andThen tframe_tracker_Record tframe_tracked_state_id)

lemma tframe_resD:
  "tframe nd w w' \<Longrightarrow> w_res w p = Some r \<Longrightarrow>
   \<exists>r'. w_res w' p = Some r' \<and> quantity r' = quantity r \<and> body r' = body r"
  unfolding tframe_def by (drule conjunct2, drule spec[of _ p]) auto

lemma tframe_compD:
  "tframe nd w w' \<Longrightarrow> w_comp w c = Some cp \<Longrightarrow> \<exists>cp'. w_comp w' c = Some cp' \<and> mass_vec nd cp' = mass_vec nd cp"
  by (auto simp: tframe_def dest: mframeD)

text \<open>The mass vector \<open>ExtractComp\<close> computes for what stays behind.\<close>

definition remainder_vec :: "double \<Rightarrow> CompMap \<Rightarrow> double \<Rightarrow> CompMap \<Rightarrow> double \<Rightarrow> CompMap" where
  "remainder_vec Q v0 q v thr =
     filter (\<lambda>(n, x). \<not> \<bar>x\<bar> \<le> thr) (compmath_Sub (compmath_Normalize Q v0) (compmath_Normalize q v))"

lemma remainder_vec_close:
  assumes "omap_inv v0" "omap_inv v" "0 \<le> thr"
  shows "\<bar>nuc_qty (compmath_Normalize Q v0) n - nuc_qty (compmath_Normalize q v) n
           - nuc_qty (remainder_vec Q v0 q v thr) n\<bar> \<le> thr"
proof -
  let ?new = "compmath_Sub (compmath_Normalize Q v0) (compmath_Normalize q v)"
  have "nuc_qty (remainder_vec Q v0 q v thr) n = (if \<not> \<bar>nuc_qty ?new n\<bar> \<le> thr then nuc_qty ?new n else 0)"
    unfolding remainder_vec_def using assms by (intro nuc_qty_filter) auto
  moreover have "nuc_qty ?new n = nuc_qty (compmath_Normalize Q v0) n - nuc_qty (compmath_Normalize q v) n"
    using assms by (simp add: nuc_qty_Sub)
  ultimately show ?thesis using assms(3) by simp
qed

lemma nuc_qty_nonneg: "compmath_AllPositive v \<Longrightarrow> 0 \<le> nuc_qty v n"
  by (induction v) (auto simp: compmath_AllPositive_def omap_sub_def)

lemma extract_remainder_spec:
  assumes inv: "comp_inv w" and c0: "w_comp w c0 = Some cp0" and c: "w_comp w c = Some cp"
    and res: "extract_remainder nd Q c0 q c thr w = (Inr c', w')"
  shows "comp_inv w'" "mframe nd w w'" "res_frame w w'" "0 \<le> thr"
    "\<exists>cp'. w_comp w' c' = Some cp' \<and> mass_vec nd cp' = remainder_vec Q (mass_vec nd cp0) q (mass_vec nd cp) thr"
    "compmath_AllPositive (remainder_vec Q (mass_vec nd cp0) q (mass_vec nd cp) thr)"
proof -
  obtain w1 where w1: "Composition_mass nd c0 w = (Inr (mass_vec nd cp0), w1)" "mframe nd w w1"
    "res_frame w w1" "comp_inv w1"
    by (rule Composition_mass_spec[OF c0, of nd]) (use inv in blast)
  obtain cp1 where cp1: "w_comp w1 c = Some cp1" "mass_vec nd cp1 = mass_vec nd cp"
    using mframeD[OF w1(2) c] by blast
  obtain w2 where w2: "Composition_mass nd c w1 = (Inr (mass_vec nd cp), w2)" "mframe nd w1 w2"
    "res_frame w1 w2" "comp_inv w2"
    by (rule Composition_mass_spec[OF cp1(1), of nd]) (use w1(4) cp1(2) in simp)
  define kept where "kept = remainder_vec Q (mass_vec nd cp0) q (mass_vec nd cp) thr"
  have sorted: "omap_inv kept"
    using omap_inv_mass_vec[OF inv c0] by (auto simp: kept_def remainder_vec_def)
  have cr: "0 \<le> thr" "CreateFromMass nd kept w2 = (Inr c', w')"
    using res by (auto simp: extract_remainder_def w1(1) w2(1) Let_def kept_def remainder_vec_def
        compmath_ApplyThreshold_def ok_def throw_def split: if_splits)
  note spec = CreateFromMass_spec[OF w2(4) sorted cr(2)]
  show "comp_inv w'" "0 \<le> thr" by fact+
  show "mframe nd w w'"
    by (rule mframe_trans[OF w1(2) mframe_trans[OF w2(2) mframe_CreateFromMass[OF w2(4) sorted cr(2)]]])
  show "res_frame w w'"
    by (rule res_frame_trans[OF w1(3) res_frame_trans[OF w2(3) res_frame_CreateFromMass[OF cr(2)]]])
  show "\<exists>cp'. w_comp w' c' = Some cp' \<and> mass_vec nd cp' = remainder_vec Q (mass_vec nd cp0) q (mass_vec nd cp) thr"
    using CreateFromMass_mass_vec[OF w2(4) sorted cr(2)] by (simp add: kept_def)
  show "compmath_AllPositive (remainder_vec Q (mass_vec nd cp0) q (mass_vec nd cp) thr)"
    using spec(7) by (simp add: kept_def)
qed

text \<open>The end of \<open>ExtractComp\<close>: quantities, the new object, its tracker.\<close>

lemma Material_new_spec:
  assumes "Material_new ctx q c w = (p, w')"
  shows "p = w_next w" "w_comp w' = w_comp w" "\<And>x. x \<noteq> p \<Longrightarrow> w_res w' x = w_res w x"
    "\<exists>r. w_res w' p = Some r \<and> quantity r = q \<and> body r = MatBody c (if ctx then w_time w else 0)"
  using assms
  by (auto simp: Material_new_def new_resource_def DontTrack_def Let_def split: if_splits prod.splits)

lemma extract_finish:
  assumes fresh: "res_fresh w" and r: "w_res w p = Some r"
    and new: "Material_new ctx q c (upd_res p (quantity_update (\<lambda>x. x - q)) w) = (other, w1)"
    and tr: "tracker_Extract nd p other (set_prev_decay_time other t w1) = (Inr u, w')"
  shows "other \<noteq> p"
    "\<exists>r'. w_res w' p = Some r' \<and> quantity r' = quantity r - q \<and> body r' = body r"
    "\<exists>ro. w_res w' other = Some ro \<and> quantity ro = q \<and> body ro = MatBody c t"
    "\<And>d cp. w_comp w d = Some cp \<Longrightarrow> \<exists>cp'. w_comp w' d = Some cp' \<and> mass_vec nd cp' = mass_vec nd cp"
proof -
  note n = Material_new_spec[OF new]
  show neq: "other \<noteq> p" using n(1) res_freshD[OF fresh r] by simp
  have "tframe nd (set_prev_decay_time other t w1) (snd (tracker_Extract nd p other (set_prev_decay_time other t w1)))"
    by (rule tframe_tracker_ops(3)[OF tframe_refl])
  then have tf: "tframe nd (set_prev_decay_time other t w1) w'" by (simp add: tr)
  have "w_res (set_prev_decay_time other t w1) p = Some (r\<lparr>quantity := quantity r - q\<rparr>)"
    using n(3)[of p] neq r by (simp add: set_prev_decay_time_def)
  from tframe_resD[OF tf this]
  show "\<exists>r'. w_res w' p = Some r' \<and> quantity r' = quantity r - q \<and> body r' = body r" by simp
  obtain ro where "w_res w1 other = Some ro" "quantity ro = q" "\<exists>t0. body ro = MatBody c t0" using n(4) by blast
  then have "\<exists>ro. w_res (set_prev_decay_time other t w1) other = Some ro \<and> quantity ro = q \<and> body ro = MatBody c t"
    by (auto simp: set_prev_decay_time_def)
  then show "\<exists>ro. w_res w' other = Some ro \<and> quantity ro = q \<and> body ro = MatBody c t"
    using tframe_resD[OF tf] by metis
  show "\<exists>cp'. w_comp w' d = Some cp' \<and> mass_vec nd cp' = mass_vec nd cp" if "w_comp w d = Some cp" for d cp
    using tframe_compD[OF tf] that n(2) by (simp add: set_prev_decay_time_def)
qed

lemma extract_other_comp:
  assumes inv: "comp_inv w" and fresh: "res_fresh w" and r: "w_res w p = Some r" "body r = MatBody c0 t"
    and c0: "w_comp w c0 = Some cp0" and c: "w_comp w c = Some cp" and neq: "c0 \<noteq> c"
    and res: "ExtractComp nd p q c thr w = (Inr other, w')"
  shows "\<exists>r' ro c1 cp1. w_res w' p = Some r' \<and> quantity r' = quantity r - q \<and> body r' = MatBody c1 t \<and>
     w_res w' other = Some ro \<and> quantity ro = q \<and> body ro = MatBody c t \<and> other \<noteq> p \<and>
     w_comp w' c1 = Some cp1 \<and>
     (\<forall>n. \<bar>nuc_qty (compmath_Normalize (quantity r) (mass_vec nd cp0)) n
           - nuc_qty (compmath_Normalize q (mass_vec nd cp)) n - nuc_qty (mass_vec nd cp1) n\<bar> \<le> thr \<and>
          0 \<le> nuc_qty (mass_vec nd cp1) n)"
proof -
  from res r neq obtain c1 w1 where rem: "extract_remainder nd (quantity r) c0 q c thr w = (Inr c1, w1)"
    and rest: "(let w3 = upd_res p (quantity_update (\<lambda>x. x - q)) (set_comp p c1 w1);
              (other, w4) = Material_new (has_ctx r) q c w3;
              w5 = set_prev_decay_time other t w4
          in andThen (tracker_Extract nd p other w5) (\<lambda>_ w6. ok other w6)) = (Inr other, w')"
    by (auto simp: ExtractComp_def with_mat_def andThen_Inr split: if_splits)
  note spec = extract_remainder_spec[OF inv c0 c rem]
  define w2 where "w2 = set_comp p c1 w1"
  have r2: "w_res w2 p = Some (r\<lparr>body := MatBody c1 t\<rparr>)"
    using spec(3) r by (simp add: w2_def set_comp_def res_frame_def)
  have f2: "res_fresh w2"
    using qframe_fresh[OF qframe_of_res_frame[OF spec(3)] fresh] by (simp add: w2_def set_comp_def)
  obtain w4 where new: "Material_new (has_ctx r) q c (upd_res p (quantity_update (\<lambda>x. x - q)) w2) = (other, w4)"
    and tr: "tracker_Extract nd p other (set_prev_decay_time other t w4) = (Inr (), w')"
    using rest by (auto simp: w2_def Let_def andThen_Inr split: prod.splits)
  note fin = extract_finish[OF f2 r2 new tr]
  obtain cpr where cpr: "w_comp w2 c1 = Some cpr"
    "mass_vec nd cpr = remainder_vec (quantity r) (mass_vec nd cp0) q (mass_vec nd cp) thr"
    using spec(5) by (auto simp: w2_def set_comp_def)
  obtain cp1 where cp1: "w_comp w' c1 = Some cp1" "mass_vec nd cp1 = mass_vec nd cpr"
    using fin(4)[OF cpr(1)] by blast
  have "\<bar>nuc_qty (compmath_Normalize (quantity r) (mass_vec nd cp0)) n
           - nuc_qty (compmath_Normalize q (mass_vec nd cp)) n - nuc_qty (mass_vec nd cp1) n\<bar> \<le> thr \<and>
        0 \<le> nuc_qty (mass_vec nd cp1) n" for n
    using remainder_vec_close[OF omap_inv_mass_vec[OF inv c0] omap_inv_mass_vec[OF inv c] spec(4)]
      nuc_qty_nonneg[OF spec(6)] by (simp add: cp1(2) cpr(2))
  then show ?thesis using fin(1-3) cp1(1) by auto
qed

text \<open>Extracting the composition the material has already: nothing but the quantities changes.\<close>

lemma nuc_qty_zero_sum:
  assumes "compmath_AllPositive v" "compmath_Sum v = 0"
  shows "nuc_qty v k = 0"
  using assms
proof (induction v)
  case (Cons x v)
  have "0 \<le> compmath_Sum v" "0 \<le> snd x" using Cons(2) Sum_nonneg[of v] by (auto simp: compmath_AllPositive_def)
  then show ?case using Cons by (cases x) (auto simp: compmath_AllPositive_def omap_sub_def)
qed (simp add: omap_sub_def)

lemma Normalize_split:
  assumes "compmath_AllPositive v"
  shows "nuc_qty (compmath_Normalize Q v) n - nuc_qty (compmath_Normalize q v) n = nuc_qty (compmath_Normalize (Q - q) v) n"
proof (cases "compmath_Sum v = 0")
  case True
  then have "compmath_Normalize x v = v" for x by (simp add: compmath_Normalize_def)
  then show ?thesis using nuc_qty_zero_sum[OF assms True] by simp
next
  case False
  then show ?thesis by (simp add: nuc_qty_Normalize field_simps)
qed

lemma extract_same_comp:
  assumes fresh: "res_fresh w" and r: "w_res w p = Some r" "body r = MatBody c t"
    and c: "w_comp w c = Some cp" and res: "ExtractComp nd p q c thr w = (Inr other, w')"
  shows "\<exists>r' ro cp1. w_res w' p = Some r' \<and> quantity r' = quantity r - q \<and> body r' = MatBody c t \<and>
     w_res w' other = Some ro \<and> quantity ro = q \<and> body ro = MatBody c t \<and> other \<noteq> p \<and>
     w_comp w' c = Some cp1 \<and> mass_vec nd cp1 = mass_vec nd cp \<and> q \<le> quantity r"
proof -
  have qle: "q \<le> quantity r" using res r by (auto simp: ExtractComp_def with_mat_def throw_def split: if_splits)
  obtain w4 where new: "Material_new (has_ctx r) q c (upd_res p (quantity_update (\<lambda>x. x - q)) w) = (other, w4)"
    and tr: "tracker_Extract nd p other (set_prev_decay_time other t w4) = (Inr (), w')"
    using res r by (auto simp: ExtractComp_def with_mat_def Let_def andThen_Inr throw_def split: prod.splits if_splits)
  note fin = extract_finish[OF fresh r(1) new tr]
  show ?thesis using fin(1-3) fin(4)[OF c] r(2) qle by auto
qed

text \<open>C14. Extracting a given composition from a material: when it succeeds the new object has
  exactly the asked quantity and composition and the same decay time, the source loses exactly
  that quantity, and for every nuclide the mass that stays is what was there minus what was
  taken, and is never negative. When the composition asked for is another one than the material's the
  balance holds up to the threshold below which residues are dropped. When it is the material's own (the
  only case \<open>ExtractQty\<close> makes) the balance is exact and the composition is kept; there the mass
  fractions of the material are assumed not negative, which the code checks only when a composition is
  created from given fractions.\<close>

theorem extract_balance:
  assumes inv: "comp_inv w" and fresh: "res_fresh w" and r: "w_res w p = Some r" "body r = MatBody c0 t"
    and c0: "w_comp w c0 = Some cp0" and c: "w_comp w c = Some cp"
    and pos: "c0 = c \<Longrightarrow> compmath_AllPositive (mass_vec nd cp0)"
    and res: "ExtractComp nd p q c thr w = (Inr other, w')"
  shows "\<exists>r' ro c1 cp1 kept. w_res w' p = Some r' \<and> quantity r' = quantity r - q \<and> body r' = MatBody c1 t \<and>
     w_res w' other = Some ro \<and> quantity ro = q \<and> body ro = MatBody c t \<and> other \<noteq> p \<and>
     w_comp w' c1 = Some cp1 \<and>
     (if c0 = c then c1 = c0 \<and> kept = compmath_Normalize (quantity r') (mass_vec nd cp1) else kept = mass_vec nd cp1) \<and>
     (\<forall>n. \<bar>nuc_qty (compmath_Normalize (quantity r) (mass_vec nd cp0)) n
           - nuc_qty (compmath_Normalize q (mass_vec nd cp)) n - nuc_qty kept n\<bar> \<le> (if c0 = c then 0 else thr) \<and>
          0 \<le> nuc_qty kept n)"
proof (cases "c0 = c")
  case True
  have e: "cp = cp0" using c c0 True by simp
  obtain r' ro cp1 where h: "w_res w' p = Some r'" "quantity r' = quantity r - q" "body r' = MatBody c t"
     "w_res w' other = Some ro" "quantity ro = q" "body ro = MatBody c t" "other \<noteq> p"
     "w_comp w' c = Some cp1" "mass_vec nd cp1 = mass_vec nd cp0" "q \<le> quantity r"
    using extract_same_comp[OF fresh r(1) r(2)[unfolded True] c res] unfolding e by blast
  have "0 \<le> nuc_qty (compmath_Normalize (quantity r') (mass_vec nd cp1)) n" for n
    using AllPositive_Normalize[OF pos[OF True], of "quantity r'"] h(2,9,10) by (intro nuc_qty_nonneg) simp
  then show ?thesis using h True Normalize_split[OF pos[OF True], of "quantity r" _ q] by (simp add: e)
next
  case False
  then show ?thesis using extract_other_comp[OF inv fresh r c0 c False res] by auto
qed

text \<open>
  A store for the witnesses: the composition at address 1, a second one at address 3, and an
  untracked material of 4 kg of the second at address 4.
\<close>

definition demo_world2 :: world where
  "demo_world2 = snd (CreateFromMass demo_nd [(10010000, 1), (922350000, 1)] demo_world)"

definition demo_world3 :: world where
  "demo_world3 = snd (Material_CreateUntracked 4 3 demo_world2)"

lemmas demo_eval = demo_world_def demo_world2_def demo_world3_def demo_nd_def init_world_def
  CreateFromMass_def compmath_ValidNucs_def compmath_AllPositive_def
  new_composition0_def new_chain_def new_composition_def ok_def throw_def Let_def
  Material_CreateUntracked_def Material_new_def new_resource_def DontTrack_def

lemma demo_world2_created:
  "CreateFromMass demo_nd [(10010000, 1), (922350000, 1)] demo_world = (Inr 3, demo_world2)"
  by (simp add: demo_eval)

lemma demo_world2_inv: "comp_inv demo_world2"
  by (rule CreateFromMass_spec(1)[OF demo_world_inv _ demo_world2_created]) simp

lemma comp_inv_grow:
  assumes "comp_inv w" "w_comp w' = w_comp w" "w_chain w' = w_chain w" "w_next w \<le> w_next w'"
    "next_comp_id w' = next_comp_id w"
  shows "comp_inv w'"
  using assms(1) unfolding comp_inv_def chain_ok_def assms(2,3,5)
  by (meson assms(4) order_less_le_trans)

lemma demo_world3_facts:
  "comp_inv demo_world3" "res_fresh demo_world3"
  "\<exists>r. w_res demo_world3 4 = Some r \<and> quantity r = 4 \<and> body r = MatBody 3 0"
  "\<exists>cp. w_comp demo_world3 3 = Some cp \<and> mass_vec demo_nd cp = [(10010000, 1), (922350000, 1)]"
  "\<exists>cp. w_comp demo_world3 1 = Some cp \<and> mass_vec demo_nd cp = [(10010000, 6)]"
proof -
  show "comp_inv demo_world3"
    by (rule comp_inv_grow[OF demo_world2_inv]) (simp_all add: demo_eval)
qed (auto simp: demo_eval res_fresh_def mass_vec_def)

lemmas extract_eval = ExtractComp_def extract_remainder_def Composition_mass_def with_mat_def with_comp_def
  compmath_Normalize_def compmath_Sum_eq compmath_ApplyThreshold_def set_comp_def set_prev_decay_time_def
  tracker_Extract_def

theorem extract_balance_witness:
  "(\<exists>w' r' ro cp1 c1. ExtractComp demo_nd 4 1 1 0 demo_world3 = (Inr 7, w') \<and>
     w_res w' 4 = Some r' \<and> quantity r' = 3 \<and> body r' = MatBody c1 0 \<and>
     w_res w' 7 = Some ro \<and> quantity ro = 1 \<and> w_comp w' c1 = Some cp1 \<and>
     nuc_qty (mass_vec demo_nd cp1) 10010000 = 1 \<and> nuc_qty (mass_vec demo_nd cp1) 922350000 = 2) \<and>
   (\<exists>w' r' ro. ExtractQty demo_nd 0 4 1 demo_world3 = (Inr 5, w') \<and>
     w_res w' 4 = Some r' \<and> quantity r' = 3 \<and> body r' = MatBody 3 0 \<and>
     w_res w' 5 = Some ro \<and> quantity ro = 1 \<and> body ro = MatBody 3 0)"
proof -
  obtain r where r: "w_res demo_world3 4 = Some r" "quantity r = 4" "body r = MatBody 3 0"
    using demo_world3_facts(3) by blast
  obtain cp0 where cp0: "w_comp demo_world3 3 = Some cp0" "mass_vec demo_nd cp0 = [(10010000, 1), (922350000, 1)]"
    using demo_world3_facts(4) by blast
  obtain cp where cp: "w_comp demo_world3 1 = Some cp" "mass_vec demo_nd cp = [(10010000, 6)]"
    using demo_world3_facts(5) by blast
  have "\<exists>w'. ExtractComp demo_nd 4 1 1 0 demo_world3 = (Inr 7, w')"
    by (simp add: extract_eval demo_eval)
  then obtain w' where e: "ExtractComp demo_nd 4 1 1 0 demo_world3 = (Inr 7, w')" by blast
  have neq: "(3 :: ptr) = 1 \<Longrightarrow> compmath_AllPositive (mass_vec demo_nd cp0)" by simp
  obtain r' ro c1 cp1 where h: "w_res w' 4 = Some r'" "quantity r' = quantity r - 1" "body r' = MatBody c1 0"
    "w_res w' 7 = Some ro" "quantity ro = 1" "w_comp w' c1 = Some cp1"
    "\<And>n. \<bar>nuc_qty (compmath_Normalize (quantity r) (mass_vec demo_nd cp0)) n -
         nuc_qty (compmath_Normalize 1 (mass_vec demo_nd cp)) n - nuc_qty (mass_vec demo_nd cp1) n\<bar> \<le> 0"
    using extract_balance [OF demo_world3_facts(1,2) r(1,3) cp0(1) cp(1) neq e] by auto
  have "nuc_qty (mass_vec demo_nd cp1) 10010000 = 1" "nuc_qty (mass_vec demo_nd cp1) 922350000 = 2"
    using h(7)[of 10010000] h(7)[of 922350000]
    by (simp_all add: r(2) cp0(2) cp(2) compmath_Normalize_def compmath_Sum_eq omap_sub_def)
  note first = this h(1-6) e r(2)
  have "\<exists>w'. ExtractComp demo_nd 4 1 3 0 demo_world3 = (Inr 5, w')" by (simp add: extract_eval demo_eval)
  then obtain v where v: "ExtractComp demo_nd 4 1 3 0 demo_world3 = (Inr 5, v)" by blast
  have pos: "compmath_AllPositive (mass_vec demo_nd cp0)" by (simp add: cp0(2) compmath_AllPositive_def)
  have "ExtractQty demo_nd 0 4 1 demo_world3 = (Inr 5, v)" using v r by (simp add: ExtractQty_def with_mat_def)
  moreover have "\<exists>r' ro. w_res v 4 = Some r' \<and> quantity r' = 3 \<and> body r' = MatBody 3 0 \<and>
     w_res v 5 = Some ro \<and> quantity ro = 1 \<and> body ro = MatBody 3 0"
    using extract_balance [OF demo_world3_facts(1,2) r(1,3) cp0(1) cp0(1) pos v] r(2) by auto
  ultimately show ?thesis using first by fastforce
qed

end
