(* ===== verification/Provenance.thy ===== *)
theory Provenance
  imports Resource_Model
begin

text \<open>
  The record of where every resource came from. Each change of a tracked resource writes a row
  of the table Resources with a new state id and the state ids it was derived from; this theory
  shows that the ids are unique and that the parent links always lead to earlier states, for
  every history of operations.
\<close>

definition res_rows :: "world \<Rightarrow> row list" where
  "res_rows w = filter is_Resources (w_db w)"

definition row_ok :: "int \<Rightarrow> row \<Rightarrow> bool" where
  "row_ok n x \<longleftrightarrow> 0 < row_id x \<and> row_id x < n \<and> 0 \<le> row_parent1 x \<and> row_parent1 x < row_id x \<and>
     0 \<le> row_parent2 x \<and> row_parent2 x < row_id x"

definition prov_res :: "int \<Rightarrow> resource \<Rightarrow> bool" where
  "prov_res n r \<longleftrightarrow> 0 < state_id r \<and> state_id r < n \<and> 0 \<le> parent1 r \<and> parent1 r < n \<and>
     0 \<le> parent2 r \<and> parent2 r < n"

definition prov_inv :: "world \<Rightarrow> bool" where
  "prov_inv w \<longleftrightarrow> 0 < nextstate_id w \<and>
     (\<forall>p r. w_res w p = Some r \<longrightarrow> prov_res (nextstate_id w) r) \<and>
     (\<forall>x \<in> set (res_rows w). row_ok (nextstate_id w) x) \<and>
     sorted_wrt (<) (map row_id (res_rows w))"

lemma prov_resD: "prov_inv w \<Longrightarrow> w_res w p = Some r \<Longrightarrow> prov_res (nextstate_id w) r"
  by (simp add: prov_inv_def)

lemma prov_res_mono: "prov_res n r \<Longrightarrow> n \<le> m \<Longrightarrow> prov_res m r"
  by (auto simp: prov_res_def)

lemma row_ok_mono: "row_ok n x \<Longrightarrow> n \<le> m \<Longrightarrow> row_ok m x"
  by (auto simp: row_ok_def)

lemma res_rows_simps [simp]:
  "res_rows (upd_res p f w) = res_rows w" "res_rows (upd_comp c g w) = res_rows w"
  "res_rows (emit x w) = res_rows w @ (if is_Resources x then [x] else [])"
  "res_rows (w\<lparr>w_next := n\<rparr>) = res_rows w" "res_rows (w\<lparr>w_res := m\<rparr>) = res_rows w"
  "res_rows (w\<lparr>w_chain := ch\<rparr>) = res_rows w"
  "res_rows (w\<lparr>qualids := q\<rparr>) = res_rows w" "res_rows (w\<lparr>next_qualid := k\<rparr>) = res_rows w"
  "res_rows (w\<lparr>w_time := t\<rparr>) = res_rows w" "res_rows (w\<lparr>nextstate_id := i\<rparr>) = res_rows w"
  "res_rows (w\<lparr>nextobj_id := i\<rparr>) = res_rows w"
  by (simp_all add: res_rows_def)

text \<open>Composition operations write no row of the table and leave the resources alone.\<close>

definition pframe :: "world \<Rightarrow> world \<Rightarrow> bool" where
  "pframe w w' \<longleftrightarrow> res_rows w' = res_rows w \<and> w_res w' = w_res w \<and> nextstate_id w' = nextstate_id w"

lemma pframe_refl [simp, intro]: "pframe w w"
  by (simp add: pframe_def)

lemma pframe_simps [simp]:
  "pframe w (upd_comp c g w') = pframe w w'" "pframe w (emit (Compositions i n q) w') = pframe w w'"
  "pframe w (w'\<lparr>w_chain := ch\<rparr>) = pframe w w'" "pframe w (w'\<lparr>qualids := ids\<rparr>) = pframe w w'"
  by (simp_all add: pframe_def)

lemmas pframe_andThen = snd_andThenI[where P = "pframe w" for w]
lemmas pframe_with_comp = snd_with_compI[where P = "pframe w" for w]

lemma pframe_new: "new_composition prev line w' = (p, w'') \<Longrightarrow> pframe w w' \<Longrightarrow> pframe w w''"
  by (auto simp: pframe_def new_composition_def Let_def res_rows_def)

lemma pframe_new0: "new_composition0 w' = (p, w'') \<Longrightarrow> pframe w w' \<Longrightarrow> pframe w w''"
  by (auto simp: pframe_def new_composition_def new_composition0_def new_chain_def Let_def res_rows_def)

lemma pframe_CreateFromMass: "pframe w w' \<Longrightarrow> pframe w (snd (CreateFromMass nd v w'))"
  by (auto simp: CreateFromMass_def Let_def split: prod.splits intro: pframe_new0)

lemma pframe_CreateFromAtom: "pframe w w' \<Longrightarrow> pframe w (snd (CreateFromAtom nd v w'))"
  by (auto simp: CreateFromAtom_def Let_def split: prod.splits intro: pframe_new0)

lemma pframe_vectors:
  "pframe w w' \<Longrightarrow> pframe w (snd (Composition_mass nd c w'))"
  "pframe w w' \<Longrightarrow> pframe w (snd (Composition_atom nd c w'))"
  by (auto simp: Composition_mass_def Composition_atom_def Let_def intro!: pframe_with_comp)

lemma pframe_NewDecay: "pframe w w' \<Longrightarrow> pframe w (snd (NewDecay nd c d s w'))"
  by (auto simp: NewDecay_def Let_def split: prod.splits
      intro!: pframe_with_comp pframe_andThen pframe_vectors intro: pframe_new)

lemma pframe_Decay: "pframe w w' \<Longrightarrow> pframe w (snd (Composition_Decay nd c d s w'))"
  by (auto simp: Composition_Decay_def Let_def split: option.splits
      intro!: pframe_with_comp pframe_andThen pframe_NewDecay)

lemma pframe_Record: "pframe w w' \<Longrightarrow> pframe w (snd (Composition_Record nd c w'))"
proof -
  have loop: "pframe w w1 \<Longrightarrow> pframe w (foldl (\<lambda>w' (nuc, q). emit (Compositions i nuc q) w') w1 cm)"
    for w w1 i cm by (induction cm arbitrary: w1) auto
  show "pframe w w' \<Longrightarrow> ?thesis"
    by (auto simp: Composition_Record_def Let_def intro!: pframe_with_comp pframe_andThen loop pframe_vectors)
qed

lemma prov_pframe: "pframe w w' \<Longrightarrow> prov_inv w \<Longrightarrow> prov_inv w'"
  by (auto simp: pframe_def prov_inv_def)

lemma prov_comp_ops:
  assumes "prov_inv w"
  shows "prov_inv (snd (Composition_Record nd c w))" "prov_inv (snd (Composition_mass nd c w))"
    "prov_inv (snd (Composition_atom nd c w))" "prov_inv (snd (Composition_Decay nd c d s w))"
    "prov_inv (snd (CreateFromMass nd v w))" "prov_inv (snd (CreateFromAtom nd v w))"
  using assms by (auto intro: prov_pframe[OF _ assms] pframe_Record pframe_vectors pframe_Decay pframe_CreateFromMass pframe_CreateFromAtom)

text \<open>Updates of single objects.\<close>

lemma prov_upd_res:
  assumes "prov_inv w" "\<And>r. w_res w p = Some r \<Longrightarrow> prov_res (nextstate_id w) (f r)"
  shows "prov_inv (upd_res p f w)"
  using assms by (auto simp: prov_inv_def)

lemma prov_same_ids:
  "prov_inv w \<Longrightarrow> (\<And>r. state_id (f r) = state_id r \<and> parent1 (f r) = parent1 r \<and> parent2 (f r) = parent2 r) \<Longrightarrow>
   prov_inv (upd_res p f w)"
  by (rule prov_upd_res) (auto simp: prov_res_def dest: prov_resD)

lemma prov_simps [simp]:
  "prov_inv (w\<lparr>qualids := q\<rparr>) = prov_inv w" "prov_inv (w\<lparr>next_qualid := k\<rparr>) = prov_inv w"
  "prov_inv (w\<lparr>w_time := t\<rparr>) = prov_inv w" "\<not> is_Resources x \<Longrightarrow> prov_inv (emit x w) = prov_inv w"
  by (simp_all add: prov_inv_def)

lemma prov_simple [intro!]:
  assumes "prov_inv w"
  shows "prov_inv (DontTrack p w)" "prov_inv (set_comp p c w)" "prov_inv (set_prev_decay_time p t w)"
    "prov_inv (upd_res p (quantity_update g) w)"
  using assms
  by (auto simp: DontTrack_def set_comp_def set_prev_decay_time_def intro!: prov_same_ids)

lemma prov_set_parents:
  "prov_inv w \<Longrightarrow> 0 \<le> i \<Longrightarrow> i < nextstate_id w \<Longrightarrow> 0 \<le> j \<Longrightarrow> j < nextstate_id w \<Longrightarrow> prov_inv (set_parents p i j w)"
  unfolding set_parents_def by (rule prov_upd_res) (auto simp: prov_res_def dest: prov_resD)

lemma prov_next:
  assumes "prov_inv w" "nextstate_id w' = nextstate_id w + 1" "res_rows w' = res_rows w"
    "\<And>x r. w_res w' x = Some r \<Longrightarrow> w_res w x = Some r \<or> prov_res (nextstate_id w + 1) r"
  shows "prov_inv w'"
  unfolding prov_inv_def
proof (intro conjI allI impI ballI)
  show "0 < nextstate_id w'" using assms(1,2) by (simp add: prov_inv_def)
  show "prov_res (nextstate_id w') r" if "w_res w' x = Some r" for x r
    using assms(4)[OF that] assms(2) prov_res_mono[OF prov_resD[OF assms(1)], of x r "nextstate_id w + 1"]
    by auto
  show "row_ok (nextstate_id w') x" if "x \<in> set (res_rows w')" for x
    using that assms(1-3) row_ok_mono[of "nextstate_id w" x "nextstate_id w + 1"] by (simp add: prov_inv_def)
  show "sorted_wrt (<) (map row_id (res_rows w'))" using assms(1,3) by (simp add: prov_inv_def)
qed

lemma prov_BumpStateId:
  assumes "prov_inv w"
  shows "prov_inv (BumpStateId p w)"
proof (rule prov_next[OF assms])
  show "w_res w x = Some r \<or> prov_res (nextstate_id w + 1) r"
    if "w_res (BumpStateId p w) x = Some r" for x r
    using that assms by (auto simp: BumpStateId_def prov_res_def prov_inv_def split: if_splits) fastforce+
qed (simp_all add: BumpStateId_def)

lemma prov_new_resource:
  assumes "prov_inv w" "new_resource b q ctx w = (p, w')"
  shows "prov_inv w'"
proof (rule prov_next[OF assms(1)])
  have "0 < nextstate_id w" using assms(1) by (simp add: prov_inv_def)
  then show "w_res w x = Some r \<or> prov_res (nextstate_id w + 1) r" if "w_res w' x = Some r" for x r
    using that assms(2) by (auto simp: new_resource_def Let_def prov_res_def split: if_splits)
qed (use assms(2) in \<open>auto simp: new_resource_def Let_def\<close>)

section \<open>The tracker\<close>

lemma pframe_qual_id: "pframe w w' \<Longrightarrow> pframe w (snd (qual_id r w'))"
  by (auto simp: qual_id_def split: res_body.splits option.splits intro!: pframe_with_comp)

lemmas prov_andThen = snd_andThenI[where P = prov_inv]
lemmas prov_with_res = snd_with_resI[where P = prov_inv]

lemma prov_with_mat:
  "prov_inv w \<Longrightarrow> (\<And>r c t. w_res w p = Some r \<Longrightarrow> body r = MatBody c t \<Longrightarrow> prov_inv (snd (f r c t))) \<Longrightarrow>
   prov_inv (snd (with_mat p w f))"
  unfolding with_mat_def by (rule prov_with_res) (auto split: res_body.splits)

lemma prov_res_Record: "prov_inv w \<Longrightarrow> prov_inv (snd (res_Record nd p w))"
  by (auto simp: res_Record_def split: res_body.splits intro!: prov_with_res prov_comp_ops)

lemma prov_emit_row:
  assumes "prov_inv w" "row_ok (nextstate_id w) x" "is_Resources x" "\<And>y. y \<in> set (res_rows w) \<Longrightarrow> row_id y < row_id x"
  shows "prov_inv (emit x w)"
  using assms by (auto simp: prov_inv_def sorted_wrt_append)

lemma prov_tracker_Record:
  assumes inv: "prov_inv w"
  shows "prov_inv (snd (tracker_Record nd p w))"
  unfolding tracker_Record_def Let_def
proof (rule prov_with_res[OF inv])
  fix t assume t: "w_res w p = Some t"
  define w1 where "w1 = BumpStateId (tracker_res t) w"
  have w1: "prov_inv w1" "nextstate_id w1 = nextstate_id w + 1" "res_rows w1 = res_rows w"
    using prov_BumpStateId[OF inv] by (simp_all add: w1_def BumpStateId_def)
  have row: "prov_inv (emit (Resources (state_id r) o' ty tm q u qid (parent1 t) (parent2 t)) w2)"
    if r: "w_res w1 (tracker_res t) = Some r" and w2: "pframe w1 w2" for r o' ty tm q u qid w2
  proof (rule prov_emit_row)
    have id: "state_id r = nextstate_id w" using r by (auto simp: w1_def BumpStateId_def)
    show "prov_inv w2" using prov_pframe[OF w2 w1(1)] .
    show "row_ok (nextstate_id w2) (Resources (state_id r) o' ty tm q u qid (parent1 t) (parent2 t))"
      using prov_resD[OF inv t] w2 w1(2) by (auto simp: row_ok_def prov_res_def pframe_def id)
    show "row_id y < row_id (Resources (state_id r) o' ty tm q u qid (parent1 t) (parent2 t))"
      if "y \<in> set (res_rows w2)" for y
      using that w2 w1(3) inv by (auto simp: prov_inv_def pframe_def row_ok_def id)
  qed simp
  show "prov_inv (snd (if \<not> has_ctx t then throw Undefined (BumpStateId (tracker_res t) w)
      else with_res (tracker_res t) (BumpStateId (tracker_res t) w) (\<lambda>r.
        andThen (qual_id r (BumpStateId (tracker_res t) w)) (\<lambda>qid w2. res_Record nd (tracker_res t)
          (emit (Resources (state_id r) (obj_id r) (res_type (body r)) (w_time w2) (quantity r)
             (res_units (body r)) qid (parent1 t) (parent2 t)) w2)))))"
    unfolding w1_def[symmetric]
    by (auto intro!: w1(1) prov_with_res prov_andThen prov_res_Record row pframe_qual_id
        prov_pframe[OF pframe_qual_id w1(1)])
qed

lemma prov_tracked_state_id:
  assumes "prov_inv w" "\<And>i. 0 \<le> i \<Longrightarrow> i < nextstate_id w \<Longrightarrow> prov_inv (snd (f i))"
  shows "prov_inv (snd (tracked_state_id p w f))"
proof -
  have "prov_inv (snd (f (state_id r)))" if "w_res w q = Some r" for q r
    using assms(2) prov_resD[OF assms(1) that] by (simp add: prov_res_def)
  then show ?thesis by (auto simp: tracked_state_id_def intro!: prov_with_res assms(1))
qed

lemma prov_tracker_ops:
  assumes "prov_inv w"
  shows "prov_inv (snd (tracker_Create nd p creator w))" "prov_inv (snd (tracker_Modify nd p w))"
    "prov_inv (snd (tracker_Absorb nd p p' w))"
  using assms
  by (auto simp: tracker_Create_def tracker_Modify_def tracker_Absorb_def prov_inv_def[THEN iffD1, THEN conjunct1]
      intro!: prov_with_res prov_andThen prov_tracker_Record prov_tracked_state_id prov_set_parents)

lemma prov_tracker_Extract:
  assumes inv: "prov_inv w"
  shows "prov_inv (snd (tracker_Extract nd p removed w))"
proof -
  have "prov_inv (upd_res removed (\<lambda>o'. o'\<lparr>parent1 := i, parent2 := 0, tracked := b\<rparr>) (set_parents p i 0 w))"
    if "0 \<le> i" "i < nextstate_id w" for i b
    using prov_set_parents[OF inv, of i 0 p] that
    by (intro prov_upd_res) (auto simp: prov_res_def set_parents_def dest: prov_resD)
  then show ?thesis using inv
    by (auto simp: tracker_Extract_def Let_def intro!: prov_with_res prov_andThen prov_tracker_Record
        prov_tracked_state_id)
qed

section \<open>The operations\<close>

lemma prov_Material_new: "Material_new ctx q c w = (p, w') \<Longrightarrow> prov_inv w \<Longrightarrow> prov_inv w'"
  by (auto simp: Material_new_def split: prod.splits if_splits intro: prov_new_resource)

lemma prov_creates:
  assumes "prov_inv w"
  shows "prov_inv (snd (Material_Create nd creator q c w))" "prov_inv (snd (Product_Create nd creator q ql w))"
    "prov_inv (snd (Material_CreateUntracked q c w))" "prov_inv (snd (Product_CreateUntracked q ql w))"
proof -
  define w1 where "w1 = (case map_of (qualids w) ql of Some _ \<Rightarrow> w
     | None \<Rightarrow> emit (Products (next_qualid w) ql)
         (w\<lparr>qualids := (ql, next_qualid w) # qualids w, next_qualid := next_qualid w + 1\<rparr>))"
  have "prov_inv w1" using assms by (simp add: w1_def split: option.splits)
  then show "prov_inv (snd (Product_Create nd creator q ql w))"
    unfolding Product_Create_def w1_def[symmetric] Let_def
    by (auto simp: Product_new_def split: prod.splits intro!: prov_andThen prov_tracker_ops intro: prov_new_resource)
qed (use assms in \<open>auto simp: Material_Create_def Material_CreateUntracked_def Product_CreateUntracked_def
    Product_new_def Let_def split: prod.splits intro!: prov_andThen prov_tracker_ops
    intro: prov_Material_new prov_Material_new[OF prod.collapse[symmetric]] prov_new_resource\<close>)

lemma prov_news:
  "prov_inv w \<Longrightarrow> prov_inv (snd (Material_new ctx q c w))" "prov_inv w \<Longrightarrow> prov_inv (snd (new_resource b q ctx w))"
  by (auto intro: prov_Material_new[OF prod.collapse[symmetric]] prov_new_resource[OF _ prod.collapse[symmetric]])

lemma prov_Clone:
  assumes "prov_inv w"
  shows "prov_inv (snd (res_Clone p w))"
  unfolding res_Clone_def Let_def
proof (rule prov_with_res[OF assms])
  fix r assume "w_res w p = Some r"
  with assms show "prov_inv (snd (ok (w_next w) (w\<lparr>w_res := (w_res w)(w_next w \<mapsto> r\<lparr>tracked := False\<rparr>),
      w_next := Suc (w_next w)\<rparr>)))"
    by (auto simp: prov_inv_def prov_res_def)
qed

lemma prov_Transmute: "prov_inv w \<Longrightarrow> prov_inv (snd (Transmute nd p c w))"
  by (auto simp: Transmute_def intro!: prov_andThen prov_with_mat prov_tracker_ops)

lemma prov_Material_Decay: "prov_inv w \<Longrightarrow> prov_inv (snd (Material_Decay nd p t w))"
  by (auto simp: Material_Decay_def Let_def intro!: prov_andThen prov_with_mat prov_comp_ops prov_Transmute)

lemma prov_Material_comp: "prov_inv w \<Longrightarrow> prov_inv (snd (Material_comp nd p w))"
  by (auto simp: Material_comp_def intro!: prov_andThen prov_with_mat prov_Material_Decay)

lemma prov_mixes:
  "prov_inv w \<Longrightarrow> prov_inv (snd (absorb_mixture nd a c0 b c1 w))"
  "prov_inv w \<Longrightarrow> prov_inv (snd (extract_remainder nd a c0 b c1 thr w))"
  by (auto simp: absorb_mixture_def extract_remainder_def Let_def split: sum.splits prod.splits
      intro!: prov_andThen prov_comp_ops)

lemma prov_ExtractComp: "prov_inv w \<Longrightarrow> prov_inv (snd (ExtractComp nd p q c thr w))"
  by (auto simp: ExtractComp_def Let_def case_prod_beta
      intro!: prov_andThen prov_with_mat prov_tracker_Extract prov_mixes prov_news)

lemma prov_Absorb: "prov_inv w \<Longrightarrow> prov_inv (snd (Material_Absorb nd p mat w))"
  by (auto simp: Material_Absorb_def absorb_rest_def Let_def
      intro!: prov_andThen prov_with_mat prov_Material_comp prov_mixes prov_tracker_ops)

lemma prov_Product:
  assumes "prov_inv w"
  shows "prov_inv (snd (Product_Absorb nd p p' w))" "prov_inv (snd (Product_Extract nd p q w))"
proof -
  show "prov_inv (snd (Product_Absorb nd p p' w))"
    using assms by (auto simp: Product_Absorb_def Let_def split: res_body.splits intro!: prov_with_res prov_tracker_ops)
  show "prov_inv (snd (Product_Extract nd p q w))"
    using assms by (auto simp: Product_Extract_def Product_new_def Let_def case_prod_beta split: res_body.splits
        intro!: prov_with_res prov_andThen prov_tracker_Extract prov_news)
qed

lemma prov_step: "res_step nd eps w d w' \<Longrightarrow> prov_inv w \<Longrightarrow> prov_inv w'"
proof (induction rule: res_step.induct)
  case (absorb_mat_self p w x w')
  then show ?case using prov_Absorb[of w nd p p] by simp
next
  case (absorb_prod_self p w x w')
  then show ?case using prov_Product(1)[of w nd p p] by simp
qed (auto simp: ExtractQty_def intro: prov_comp_ops prov_creates prov_Clone prov_ExtractComp prov_Product prov_Absorb
      prov_Transmute prov_Material_Decay prov_Material_comp intro!: prov_with_mat)

lemma prov_run: "res_run nd eps w ds w' \<Longrightarrow> prov_inv w \<Longrightarrow> prov_inv w'"
  by (induction rule: res_run.induct) (auto intro: prov_step)

lemma prov_init: "prov_inv (init_world decay dt)"
  by (simp add: prov_inv_def init_world_def res_rows_def)

text \<open>C15. Provenance: in every state a run of operations on compositions, materials and products
  can reach from the start of a simulation, the rows of the table Resources have strictly increasing (so
  distinct) state ids, every row's parents are 0 or smaller ids, so following parents always ends, and the
  state id a live object carries is one that was handed out.\<close>

theorem provenance_acyclic:
  assumes "res_run nd eps (init_world decay dt) ds w"
  shows "distinct (map row_id (res_rows w)) \<and> sorted_wrt (<) (map row_id (res_rows w)) \<and>
     (\<forall>x \<in> set (res_rows w). 0 \<le> row_parent1 x \<and> row_parent1 x < row_id x \<and>
        0 \<le> row_parent2 x \<and> row_parent2 x < row_id x \<and> row_id x < nextstate_id w) \<and>
     (\<forall>p r. w_res w p = Some r \<longrightarrow> 0 < state_id r \<and> state_id r < nextstate_id w)"
proof -
  have inv: "prov_inv w" using prov_run[OF assms prov_init] .
  then have "sorted_wrt (<) (map row_id (res_rows w))" by (simp add: prov_inv_def)
  moreover from this have "distinct (map row_id (res_rows w))" by (simp add: strict_sorted_iff)
  ultimately show ?thesis using inv by (auto simp: prov_inv_def row_ok_def prov_res_def)
qed

text \<open>A store with one tracked material of 5 kg of hydrogen and one tracked product of 5 units.\<close>

definition water_world :: world where
  "water_world = snd (Product_Create demo_nd 7 5 ''ore'' (snd (Material_Create demo_nd 7 5 1
     (snd (CreateFromMass demo_nd [(10010000, 1)] (init_world ''never'' 1))))))"

lemmas track_eval = new_resource_def tracker_Record_def BumpStateId_def set_parents_def qual_id_def
  res_Record_def res_type_def res_units_def tracked_state_id_def Let_def emit_def upd_res_def

lemma water_world_run: "res_run demo_nd 0 (init_world ''never'' 1) [0, 5, 5] water_world"
  using run_snoc[OF run_snoc[OF run_snoc[OF run_nil comp_mass_new] create_mat] create_prod]
  unfolding water_world_def by fastforce

theorem provenance_acyclic_witness:
  "let w = snd (Product_Extract demo_nd 3 2 (snd (ExtractQty demo_nd 0 2 2 water_world)))
   in map row_id (res_rows w) = [2, 4, 6, 7, 9, 10] \<and> map row_parent1 (res_rows w) = [0, 0, 2, 2, 4, 4] \<and>
     distinct (map row_id (res_rows w))"
proof -
  let ?w = "snd (Product_Extract demo_nd 3 2 (snd (ExtractQty demo_nd 0 2 2 water_world)))"
  have "distinct (map row_id (res_rows ?w))"
    using provenance_acyclic [OF run_snoc[OF run_snoc[OF water_world_run extract_qty] extract_prod]] by blast
  moreover have "map row_id (res_rows ?w) = [2, 4, 6, 7, 9, 10] \<and> map row_parent1 (res_rows ?w) = [0, 0, 2, 2, 4, 4]"
    by (simp add: track_eval demo_eval extract_eval water_world_def Product_Create_def Material_Create_def Material_new_def tracker_Create_def
        Composition_Record_def ExtractQty_def Product_Extract_def Product_new_def tracker_Extract_def res_rows_def)
  ultimately show ?thesis by simp
qed

end
