(* ===== verification/Exchange_Graph.thy ===== *)
theory Exchange_Graph
  imports Comp_Math "HOL-Library.Product_Lexorder"
begin

text \<open>
  exchange_graph.{h,cc} and exchange_solver.{h,cc}: the bipartite graph a resource exchange is
  translated to. Nodes and groups live in a store by address, as the shared pointers of the code
  point to them; an arc names its two nodes and carries the values its constructor computed.
\<close>

section \<open>Arcs, nodes and groups\<close>

text \<open>Arcs are ordered and compared by their two nodes only, so this pair is the key of every map
  indexed by arcs.\<close>

type_synonym akey = "ptr \<times> ptr"

record arc =
  a_unode :: ptr
  a_vnode :: ptr
  a_exclusive :: bool
  a_excl_val :: double
  a_pref :: double

definition arc_key :: "arc \<Rightarrow> akey" where
  "arc_key a = (a_unode a, a_vnode a)"

text \<open>\<open>prefs\<close> keeps the arc object that was inserted as a key next to its value.\<close>

record node =
  n_group :: "ptr option"
  unit_capacities :: "(akey, double list) omap"
  prefs :: "(akey, arc \<times> double) omap"
  n_exclusive :: bool
  n_commod :: string
  n_agent_id :: int
  n_qty :: double

record group =
  g_nodes :: "ptr list"
  g_excl_groups :: "ptr list list"
  g_capacities :: "double list"
  g_qty :: double

record graph =
  x_nodes :: "ptr \<rightharpoonup> node"
  x_groups :: "ptr \<rightharpoonup> group"
  x_next :: ptr
  request_groups :: "ptr list"
  supply_groups :: "ptr list"
  node_arc_map :: "(ptr, arc list) omap"
  matches :: "(arc \<times> double) list"
  arcs :: "arc list"
  arc_ids :: "(akey, int) omap"
  arc_by_id :: "(int, arc) omap"
  next_arc_id :: int

definition ExchangeGraph_new :: graph where
  "ExchangeGraph_new =
     \<lparr>x_nodes = Map.empty, x_groups = Map.empty, x_next = 0, request_groups = [], supply_groups = [],
      node_arc_map = [], matches = [], arcs = [], arc_ids = [], arc_by_id = [], next_arc_id = 0\<rparr>"

definition upd_node :: "ptr \<Rightarrow> (node \<Rightarrow> node) \<Rightarrow> graph \<Rightarrow> graph" where
  "upd_node n f g = g\<lparr>x_nodes := (x_nodes g)(n := map_option f (x_nodes g n))\<rparr>"

definition upd_group :: "ptr \<Rightarrow> (group \<Rightarrow> group) \<Rightarrow> graph \<Rightarrow> graph" where
  "upd_group p f g = g\<lparr>x_groups := (x_groups g)(p := map_option f (x_groups g p))\<rparr>"

text \<open>\<open>boost::math::float_distance\<close> is the parameter \<open>fdist\<close>: the number of representable doubles
  from its first argument to its second, negative when the second is smaller.\<close>

definition Arc_excl_val :: "(double \<Rightarrow> double \<Rightarrow> double) \<Rightarrow> node \<Rightarrow> node \<Rightarrow> double" where
  "Arc_excl_val fdist u v =
     (if n_exclusive u \<or> n_exclusive v then
        let fqty = n_qty u; sqty = n_qty v; dist = fdist fqty sqty
        in if n_exclusive u \<and> n_exclusive v then (if \<bar>dist\<bar> \<le> float_ulp_eq then fqty else 0)
           else if n_exclusive u then (if dist \<ge> - float_ulp_eq then fqty else 0)
           else (if dist \<le> float_ulp_eq then sqty else 0)
      else 0)"

text \<open>The constructor leaves \<open>pref_\<close> uninitialised: \<open>junk\<close> is the value it happens to have.\<close>

definition Arc_new :: "(double \<Rightarrow> double \<Rightarrow> double) \<Rightarrow> double \<Rightarrow> ptr \<Rightarrow> ptr \<Rightarrow> graph \<Rightarrow> (graph, arc) exec" where
  "Arc_new fdist junk u v g = deref (x_nodes g u) g (\<lambda>un. deref (x_nodes g v) g (\<lambda>vn.
     ok \<lparr>a_unode = u, a_vnode = v, a_exclusive = n_exclusive un \<or> n_exclusive vn,
         a_excl_val = Arc_excl_val fdist un vn, a_pref = junk\<rparr> g))"

text \<open>\<open>operator=\<close> assigns every member but \<open>pref_\<close>; \<open>operator<\<close> and \<open>operator==\<close> look at the nodes.\<close>

definition Arc_assign :: "arc \<Rightarrow> arc \<Rightarrow> arc" where
  "Arc_assign this other = this\<lparr>a_unode := a_unode other, a_vnode := a_vnode other,
     a_exclusive := a_exclusive other, a_excl_val := a_excl_val other\<rparr>"

definition Arc_less :: "arc \<Rightarrow> arc \<Rightarrow> bool" where
  "Arc_less l r \<longleftrightarrow> a_unode l < a_unode r \<or> (\<not> a_unode r < a_unode l \<and> a_vnode l < a_vnode r)"

definition Arc_eq :: "arc \<Rightarrow> arc \<Rightarrow> bool" where
  "Arc_eq l r \<longleftrightarrow> a_unode l = a_unode r \<and> a_vnode l = a_vnode r"

lemma Arc_less_key: "Arc_less l r \<longleftrightarrow> arc_key l < arc_key r"
  by (auto simp: Arc_less_def arc_key_def less_prod_def')

lemma Arc_eq_key: "Arc_eq l r \<longleftrightarrow> \<not> Arc_less l r \<and> \<not> Arc_less r l"
  by (auto simp: Arc_less_def Arc_eq_def)

definition node_eq :: "node \<Rightarrow> node \<Rightarrow> bool" where
  "node_eq l r \<longleftrightarrow> unit_capacities l = unit_capacities r \<and> n_qty l = n_qty r \<and>
     n_exclusive l = n_exclusive r \<and> n_group l = n_group r \<and> n_commod l = n_commod r"

section \<open>Building the graph\<close>

definition ExchangeNode_new :: "double \<Rightarrow> bool \<Rightarrow> string \<Rightarrow> int \<Rightarrow> graph \<Rightarrow> ptr \<times> graph" where
  "ExchangeNode_new q excl com aid g =
     (let p = x_next g
      in (p, g\<lparr>x_nodes := (x_nodes g)(p \<mapsto> \<lparr>n_group = None, unit_capacities = [], prefs = [],
               n_exclusive = excl, n_commod = com, n_agent_id = aid, n_qty = q\<rparr>), x_next := Suc p\<rparr>))"

definition Group_new :: "double \<Rightarrow> graph \<Rightarrow> ptr \<times> graph" where
  "Group_new q g =
     (let p = x_next g
      in (p, g\<lparr>x_groups := (x_groups g)(p \<mapsto> \<lparr>g_nodes = [], g_excl_groups = [], g_capacities = [], g_qty = q\<rparr>),
               x_next := Suc p\<rparr>))"

definition AddExchangeNode :: "ptr \<Rightarrow> ptr \<Rightarrow> graph \<Rightarrow> graph" where
  "AddExchangeNode p n g =
     upd_group p (g_nodes_update (\<lambda>ns. ns @ [n])) (upd_node n (n_group_update (\<lambda>_. Some p)) g)"

definition AddExclNode :: "ptr \<Rightarrow> ptr \<Rightarrow> graph \<Rightarrow> graph" where
  "AddExclNode p n g = upd_group p (g_excl_groups_update (\<lambda>xs. xs @ [[n]])) g"

definition AddExclGroup :: "ptr \<Rightarrow> ptr list \<Rightarrow> graph \<Rightarrow> graph" where
  "AddExclGroup p ns g = upd_group p (g_excl_groups_update (\<lambda>xs. xs @ [ns])) g"

definition AddCapacity :: "ptr \<Rightarrow> double \<Rightarrow> graph \<Rightarrow> graph" where
  "AddCapacity p c g = upd_group p (g_capacities_update (\<lambda>cs. cs @ [c])) g"

definition RequestGroup_AddExchangeNode :: "ptr \<Rightarrow> ptr \<Rightarrow> graph \<Rightarrow> (graph, unit) exec" where
  "RequestGroup_AddExchangeNode p n g =
     (let g1 = AddExchangeNode p n g
      in deref (x_nodes g1 n) g1 (\<lambda>nd. ok () (if n_exclusive nd then AddExclNode p n g1 else g1)))"

definition HasArcs :: "ptr \<Rightarrow> graph \<Rightarrow> bool" where
  "HasArcs p g = (case x_groups g p of None \<Rightarrow> False
     | Some gr \<Rightarrow> list_ex (\<lambda>n. case x_nodes g n of None \<Rightarrow> False | Some nd \<Rightarrow> prefs nd \<noteq> []) (g_nodes gr))"

definition AddRequestGroup :: "ptr \<Rightarrow> graph \<Rightarrow> graph" where
  "AddRequestGroup p g = g\<lparr>request_groups := request_groups g @ [p]\<rparr>"

definition AddSupplyGroup :: "ptr \<Rightarrow> graph \<Rightarrow> graph" where
  "AddSupplyGroup p g = g\<lparr>supply_groups := supply_groups g @ [p]\<rparr>"

definition AddArc :: "arc \<Rightarrow> graph \<Rightarrow> graph" where
  "AddArc a g =
     (let i = next_arc_id g
      in g\<lparr>arcs := arcs g @ [a], next_arc_id := i + 1,
           arc_ids := omap_ins (arc_key a) i (arc_ids g),
           arc_by_id := omap_ins i a (arc_by_id g),
           node_arc_map := omap_push (a_vnode a) a (omap_push (a_unode a) a (node_arc_map g))\<rparr>)"

definition AddMatch :: "arc \<Rightarrow> double \<Rightarrow> graph \<Rightarrow> graph" where
  "AddMatch a q g = g\<lparr>matches := matches g @ [(a, q)]\<rparr>"

definition ClearMatches :: "graph \<Rightarrow> graph" where
  "ClearMatches g = g\<lparr>matches := []\<rparr>"

section \<open>The cost functions shared by the solvers\<close>

definition Cost :: "arc \<Rightarrow> bool \<Rightarrow> xdouble" where
  "Cost a exclusive_orders =
     (if exclusive_orders \<and> a_exclusive a then xdiv (a_excl_val a) (a_pref a) else xdiv 1 (a_pref a))"

definition DBL_MIN :: double where
  "DBL_MIN = 1 / 2 ^ 1022"

text \<open>The node objects of a list of groups, in order; None when a pointer does not lead to one.\<close>

definition group_node_list :: "graph \<Rightarrow> ptr list \<Rightarrow> node list option" where
  "group_node_list g ps = (case those (map (x_groups g) ps) of
      None \<Rightarrow> None
    | Some grs \<Rightarrow> those (map (x_nodes g) (concat (map g_nodes grs))))"

definition min_unit_cap :: "double \<Rightarrow> node \<Rightarrow> double" where
  "min_unit_cap m nd = foldl (\<lambda>m (_, ucaps).
     case ucaps of [] \<Rightarrow> m
     | c # cs \<Rightarrow> (let min_cap = min_element (<) c cs in if min_cap < m then min_cap else m)) m (unit_capacities nd)"

definition max_coeff :: "bool \<Rightarrow> xdouble \<Rightarrow> node \<Rightarrow> xdouble" where
  "max_coeff exclusive_orders m nd = foldl (\<lambda>m (_, (a, _)).
     let coeff = Cost a exclusive_orders in if xless m coeff then coeff else m) m (prefs nd)"

definition PseudoCostByCap :: "bool \<Rightarrow> double \<Rightarrow> graph \<Rightarrow> (graph, xdouble) exec" where
  "PseudoCostByCap exclusive_orders cost_factor g =
     deref (group_node_list g (supply_groups g)) g (\<lambda>sn.
     deref (group_node_list g (request_groups g)) g (\<lambda>rn.
       let m = foldl min_unit_cap (foldl min_unit_cap DBL_MAX sn) rn;
           k = foldl (max_coeff exclusive_orders) (Fin DBL_MIN) rn
       in ok (xscale (xquot k m) (1 + cost_factor)) g))"

definition pref_cost :: "bool \<Rightarrow> arc \<Rightarrow> xdouble" where
  "pref_cost exclusive_orders a =
     (let factor = (if a_exclusive a \<and> a_excl_val a < 1 then xdiv 1 (a_excl_val a) else Fin 1)
      in xmul (Cost a exclusive_orders) factor)"

definition PseudoCostByPref :: "bool \<Rightarrow> double \<Rightarrow> graph \<Rightarrow> xdouble" where
  "PseudoCostByPref exclusive_orders cost_factor g =
     xscale (foldl (\<lambda>m a. xmax m (pref_cost exclusive_orders a)) (Fin 0) (arcs g)) (1 + cost_factor)"

definition PseudoCost :: "bool \<Rightarrow> graph \<Rightarrow> xdouble" where
  "PseudoCost exclusive_orders g = PseudoCostByPref exclusive_orders (1 / 10) g"

text \<open>Arcs with a positive preference and an exclusive value that is no negative number. The constructor gives an
  exclusive arc the value 0 when the quantities of its nodes do not fit.\<close>

definition priced_arc :: "arc \<Rightarrow> bool" where
  "priced_arc a \<longleftrightarrow> 0 < a_pref a \<and> 0 \<le> a_excl_val a"

definition misfit :: "arc \<Rightarrow> bool" where
  "misfit a \<longleftrightarrow> a_exclusive a \<and> a_excl_val a = 0"

lemma pref_cost_fit:
  assumes "priced_arc a" "\<not> misfit a"
  shows "\<exists>k c. Cost a excl = Fin k \<and> pref_cost excl a = Fin c \<and> 0 < k \<and> k \<le> c"
proof (cases "a_exclusive a \<and> a_excl_val a < 1")
  case True
  then have e: "0 < a_excl_val a" "1 \<le> 1 / a_excl_val a" using assms by (auto simp: priced_arc_def misfit_def)
  let ?k = "if excl then a_excl_val a / a_pref a else 1 / a_pref a"
  have "Cost a excl = Fin ?k" "pref_cost excl a = Fin (?k * (1 / a_excl_val a))" "0 < ?k"
    using True e(1) assms by (auto simp: Cost_def pref_cost_def Let_def priced_arc_def)
  moreover have "?k \<le> ?k * (1 / a_excl_val a)" using calculation(3) e(2) mult_left_mono[of 1 "1 / a_excl_val a" ?k] by simp
  ultimately show ?thesis by blast
next
  case False
  then show ?thesis using assms by (auto simp: Cost_def pref_cost_def Let_def priced_arc_def misfit_def)
qed

text \<open>The factor of an arc that does not fit is one over zero.\<close>

lemma pref_cost_misfit:
  assumes "priced_arc a" "misfit a"
  shows "Cost a excl = (if excl then Fin 0 else Fin (1 / a_pref a))" "pref_cost excl a = (if excl then NaN else PInf)"
  using assms by (auto simp: Cost_def pref_cost_def Let_def priced_arc_def misfit_def xdiv_def)

lemma xmax_special [simp]: "xmax PInf b = PInf" "xmax (Fin m) PInf = PInf" "xmax (Fin m) NaN = Fin m"
  by (cases b) (simp_all add: xmax_def)

lemma pref_cost_max:
  assumes "\<forall>a \<in> set as. priced_arc a" "excl \<or> (\<forall>a \<in> set as. \<not> misfit a)"
  shows "\<exists>c. foldl (\<lambda>m a. xmax m (pref_cost excl a)) (Fin m) as = Fin c \<and> m \<le> c \<and> ((\<forall>a \<in> set as. misfit a) \<longrightarrow> c = m) \<and>
    (\<forall>a \<in> set as. \<exists>k. Cost a excl = Fin k \<and> (if misfit a then k = 0 else 0 < k \<and> k \<le> c))"
  using assms
proof (induction as arbitrary: m)
  case (Cons a as)
  show ?case
  proof (cases "misfit a")
    case True
    then have e: "excl" "priced_arc a" using Cons.prems by auto
    obtain c' where "foldl (\<lambda>m a. xmax m (pref_cost excl a)) (Fin m) as = Fin c'" "m \<le> c'" "(\<forall>a \<in> set as. misfit a) \<longrightarrow> c' = m"
      "\<forall>a \<in> set as. \<exists>k. Cost a excl = Fin k \<and> (if misfit a then k = 0 else 0 < k \<and> k \<le> c')" using Cons.IH[of m] Cons.prems by auto
    with True e pref_cost_misfit[OF e(2) True, of excl] show ?thesis by auto
  next
    case False
    then obtain k c where k: "Cost a excl = Fin k" "pref_cost excl a = Fin c" "0 < k" "k \<le> c"
      using pref_cost_fit[of a excl] Cons.prems by auto
    obtain c' where "foldl (\<lambda>m a. xmax m (pref_cost excl a)) (Fin (max m c)) as = Fin c'" "max m c \<le> c'"
      "\<forall>a \<in> set as. \<exists>k. Cost a excl = Fin k \<and> (if misfit a then k = 0 else 0 < k \<and> k \<le> c')" using Cons.IH[of "max m c"] Cons.prems by auto
    with k False show ?thesis by auto
  qed
qed simp

lemma xmax_PInf [simp]: "foldl (\<lambda>m a. xmax m (h a)) PInf as = PInf"
  by (induction as) auto

lemma pref_cost_infinite:
  assumes "\<forall>a \<in> set as. priced_arc a" "\<exists>a \<in> set as. misfit a"
  shows "foldl (\<lambda>m a. xmax m (pref_cost False a)) (Fin m) as = PInf"
  using assms
proof (induction as arbitrary: m)
  case (Cons a as)
  show ?case
  proof (cases "misfit a")
    case True
    then show ?thesis using Cons.prems pref_cost_misfit(2)[of a False] by simp
  next
    case False
    then obtain c where "pref_cost False a = Fin c" using pref_cost_fit[of a False] Cons.prems by auto
    then show ?thesis using Cons False by auto
  qed
qed simp

text \<open>C30. What a solver charges for unmet demand, against the cost of the arcs, on any graph whose arcs have
  positive preferences and exclusive values that are not negative. When exclusive orders are on, or no
  exclusive arc has the value 0, the pseudo cost is finite and above the cost of every arc, so that meeting
  demand is always cheaper than leaving it unmet; the one exception is a graph all of whose arcs have the
  value 0, where both costs are 0. When exclusive orders are off and some exclusive arc has the value 0,
  because the quantities of its nodes do not fit, the pseudo cost divides by that 0 and is infinite.\<close>

theorem pseudo_cost_dominates:
  assumes "\<forall>a \<in> set (arcs g). priced_arc a"
  shows "if \<not> excl \<and> (\<exists>a \<in> set (arcs g). misfit a) then PseudoCost excl g = PInf
    else \<exists>c. PseudoCost excl g = Fin c \<and> (\<forall>a \<in> set (arcs g). \<exists>k. Cost a excl = Fin k \<and> 0 \<le> k \<and>
      (if \<forall>b \<in> set (arcs g). misfit b then k = 0 \<and> c = 0 else k < c))"
proof (cases "\<not> excl \<and> (\<exists>a \<in> set (arcs g). misfit a)")
  case True
  then have "PseudoCost excl g = PInf" using pref_cost_infinite[OF assms] by (simp add: PseudoCost_def PseudoCostByPref_def)
  then show ?thesis using True by simp
next
  case False
  then have h: "excl \<or> (\<forall>a \<in> set (arcs g). \<not> misfit a)" by auto
  obtain c where c: "foldl (\<lambda>m a. xmax m (pref_cost excl a)) (Fin 0) (arcs g) = Fin c" "(\<forall>a \<in> set (arcs g). misfit a) \<longrightarrow> c = 0"
    "\<forall>a \<in> set (arcs g). \<exists>k. Cost a excl = Fin k \<and> (if misfit a then k = 0 else 0 < k \<and> k \<le> c)"
    using pref_cost_max[OF assms h, of 0] by blast
  have p: "0 < c" if "\<not> (\<forall>b \<in> set (arcs g). misfit b)" using c(3) that by (meson less_le_trans)
  have "\<exists>k. Cost a excl = Fin k \<and> 0 \<le> k \<and> (if \<forall>b \<in> set (arcs g). misfit b then k = 0 \<and> c * (1 + 1 / 10) = 0 else k < c * (1 + 1 / 10))"
    if a: "a \<in> set (arcs g)" for a
  proof -
    obtain k where k: "Cost a excl = Fin k" "if misfit a then k = 0 else 0 < k \<and> k \<le> c" using c(3) a by blast
    show ?thesis
    proof (cases "\<forall>b \<in> set (arcs g). misfit b")
      case True
      then show ?thesis using k a c(2) by simp
    next
      case False
      then show ?thesis using k p[OF False] by (auto split: if_splits)
    qed
  qed
  moreover have "PseudoCost excl g = Fin (c * (1 + 1 / 10))" by (simp add: PseudoCost_def PseudoCostByPref_def c(1))
  ultimately show ?thesis unfolding if_not_P[OF False] by blast
qed

text \<open>An exclusive arc that fits and an ordinary one, and the same with an exclusive arc that does not fit.\<close>

definition priced_graph :: "double \<Rightarrow> graph" where
  "priced_graph x = AddArc \<lparr>a_unode = 2, a_vnode = 1, a_exclusive = False, a_excl_val = 0, a_pref = 2\<rparr>
     (AddArc \<lparr>a_unode = 0, a_vnode = 1, a_exclusive = True, a_excl_val = x, a_pref = 4\<rparr> ExchangeGraph_new)"

theorem pseudo_cost_dominates_witness:
  "(\<exists>c. PseudoCost True (priced_graph (1 / 2)) = Fin c \<and> 1 / 2 < c) \<and> (\<exists>c. PseudoCost True (priced_graph 0) = Fin c \<and> 1 / 2 < c) \<and>
   PseudoCost False (priced_graph 0) = PInf"
proof -
  have arcs: "arcs (priced_graph x) = [\<lparr>a_unode = 0, a_vnode = 1, a_exclusive = True, a_excl_val = x, a_pref = 4\<rparr>,
      \<lparr>a_unode = 2, a_vnode = 1, a_exclusive = False, a_excl_val = 0, a_pref = 2\<rparr>]" for x
    by (simp add: priced_graph_def AddArc_def ExchangeGraph_new_def Let_def)
  have h: "\<forall>a \<in> set (arcs (priced_graph x)). priced_arc a" if "0 \<le> x" for x using that by (simp add: arcs priced_arc_def)
  show ?thesis
    using pseudo_cost_dominates [OF h, of "1 / 2" True] pseudo_cost_dominates [OF h, of 0 True] pseudo_cost_dominates [OF h, of 0 False]
    by (auto simp: arcs misfit_def Cost_def)
qed

end
