(* ===== verification/Greedy_Preconditioner.thy ===== *)
theory Greedy_Preconditioner
  imports Exchange_Graph "HOL-Library.List_Lexorder" "HOL-Library.Char_ord"
begin

text \<open>
  greedy_preconditioner.{h,cc}: the order in which the greedy solver visits requests. Nodes are
  ordered inside their group by weight, groups by average weight, heaviest first.
\<close>

datatype WgtOrder = REVERSE | END

record precond =
  avg_prefs :: "(ptr, double) omap"
  commod_weights :: "(string, double) omap"
  group_weights :: "(ptr, xdouble) omap"

definition AvgPref :: "node \<Rightarrow> double" where
  "AvgPref n = (if prefs n \<noteq> [] then foldl (\<lambda>total (_, (_, p)). total + p) 0 (prefs n) / real (length (prefs n)) else 0)"

definition NodeWeight :: "string \<Rightarrow> (string, double) omap \<Rightarrow> double \<Rightarrow> xdouble" where
  "NodeWeight com weights avg_pref =
     (let commod_weight = (if weights \<noteq> [] then omap_sub 0 weights com else 1)
      in xmul (Fin commod_weight) (xadd (Fin 1) (xdiv avg_pref (1 + avg_pref))))"

text \<open>Reading a weight with \<open>operator[]\<close> enters missing commodities with weight 0, unless the map
  is empty.\<close>

definition weights_after :: "string \<Rightarrow> (string, double) omap \<Rightarrow> (string, double) omap" where
  "weights_after com weights = (if weights \<noteq> [] then omap_touch 0 com weights else weights)"

definition GroupWeight :: "(ptr \<times> node) list \<Rightarrow> (string, double) omap \<Rightarrow> (ptr, double) omap \<Rightarrow> xdouble" where
  "GroupWeight nodes weights avg =
     (let s = foldl (\<lambda>s (n, nd). xadd s (NodeWeight (n_commod nd) weights (omap_sub 0 avg n))) (Fin 0) nodes
      in if nodes \<noteq> [] then xquot s (real (length nodes)) else Fin 0)"

definition NodeComp :: "(string, double) omap \<Rightarrow> (ptr, double) omap \<Rightarrow> ptr \<times> node \<Rightarrow> ptr \<times> node \<Rightarrow> bool" where
  "NodeComp weights avg l r \<longleftrightarrow>
     xless (NodeWeight (n_commod (snd r)) weights (omap_sub 0 avg (fst r)))
           (NodeWeight (n_commod (snd l)) weights (omap_sub 0 avg (fst l)))"

definition GroupComp :: "(ptr, xdouble) omap \<Rightarrow> ptr \<Rightarrow> ptr \<Rightarrow> bool" where
  "GroupComp gw l r \<longleftrightarrow> xless (omap_sub (Fin 0) gw r) (omap_sub (Fin 0) gw l)"

text \<open>The body of the loop over the request groups.\<close>

definition condition_group :: "ptr \<Rightarrow> precond \<times> graph \<Rightarrow> (precond \<times> graph, unit) exec" where
  "condition_group p = (\<lambda>(c, g).
     deref (x_groups g p) (c, g) (\<lambda>gr.
     deref (those (map (\<lambda>n. map_option (Pair n) (x_nodes g n)) (g_nodes gr))) (c, g) (\<lambda>nodes.
       let avg = foldl (\<lambda>m (n, nd). omap_put n (AvgPref nd) m) (avg_prefs c) nodes;
           sorted = stable_sort (NodeComp (commod_weights c) avg) nodes;
           weights = foldl (\<lambda>w (_, nd). weights_after (n_commod nd) w) (commod_weights c) sorted;
           gw = GroupWeight sorted (commod_weights c) avg
       in ok () (c\<lparr>avg_prefs := avg, commod_weights := weights,
                   group_weights := omap_put p gw (group_weights c)\<rparr>,
                 upd_group p (g_nodes_update (\<lambda>_. map fst sorted)) g))))"

definition Condition :: "precond \<Rightarrow> graph \<Rightarrow> (precond \<times> graph, unit) exec" where
  "Condition c g =
     andThen (foreach condition_group (request_groups g) (c\<lparr>avg_prefs := []\<rparr>, g)) (\<lambda>_ (c1, g1).
       ok () (c1\<lparr>group_weights := []\<rparr>,
              g1\<lparr>request_groups := stable_sort (GroupComp (group_weights c1)) (request_groups g1)\<rparr>))"

definition ProcessWeights :: "WgtOrder \<Rightarrow> (string, double) omap \<Rightarrow> exn + (string, double) omap" where
  "ProcessWeights order w =
     (case w of [] \<Rightarrow> Inl Undefined
      | x # xs \<Rightarrow>
        let mn = snd (min_element (\<lambda>a b. snd a < snd b) x xs);
            mx = snd (max_element (\<lambda>a b. snd a < snd b) x xs)
        in if \<not> mn \<ge> 0 then Inl AssertFailed
           else case order of
             REVERSE \<Rightarrow> Inr (map (\<lambda>(k, v). (k, mx + mn - v)) w)
           | END \<Rightarrow> Inr w)"

definition GreedyPreconditioner_new :: "(string, double) omap \<Rightarrow> WgtOrder \<Rightarrow> exn + precond" where
  "GreedyPreconditioner_new w order =
     (if w \<noteq> [] then
        case ProcessWeights order w of
          Inl e \<Rightarrow> Inl e
        | Inr w' \<Rightarrow> Inr \<lparr>avg_prefs = [], commod_weights = w', group_weights = []\<rparr>
      else Inr \<lparr>avg_prefs = [], commod_weights = w, group_weights = []\<rparr>)"

end
