(* ===== verification/Greedy_Solver.thy ===== *)
theory Greedy_Solver
  imports Greedy_Preconditioner "HOL-Library.Option_ord"
begin

text \<open>
  greedy_solver.{h,cc}: the default solver of a resource exchange. It visits the request groups
  in the preconditioned order, the requests of a group by average preference and the arcs of a
  request by preference, and gives each arc as much as the remaining demand, the capacities and
  the exclusivity allow.
\<close>

section \<open>State\<close>

text \<open>
  \<open>gs_n_qty\<close> is \<open>n_qty_\<close>, what has been matched at each node; \<open>gs_grp_caps\<close> is \<open>grp_caps_\<close>, the
  capacities each group has left (the key is a raw pointer that may be NULL).
\<close>

record greedy =
  gs_graph :: graph
  gs_cond :: "precond option"
  gs_exclusive_orders :: bool
  gs_n_qty :: "(ptr, double) omap"
  gs_grp_caps :: "(ptr option, double list) omap"
  gs_obj :: xdouble
  gs_unmatched :: double

definition GreedySolver_new :: "bool \<Rightarrow> precond option \<Rightarrow> graph \<Rightarrow> greedy" where
  "GreedySolver_new excl c g =
     \<lparr>gs_graph = g, gs_cond = c, gs_exclusive_orders = excl, gs_n_qty = [], gs_grp_caps = [],
      gs_obj = Fin 0, gs_unmatched = 0\<rparr>"

abbreviation gs_node :: "greedy \<Rightarrow> ptr \<Rightarrow> node option" where
  "gs_node s n \<equiv> x_nodes (gs_graph s) n"

text \<open>What reading \<open>unit_capacities[a]\<close>, \<open>prefs[a]\<close>, \<open>n_qty_[n]\<close> and \<open>grp_caps_[g]\<close> with
  \<open>operator[]\<close> does to the maps.\<close>

definition touch_unit_caps :: "ptr \<Rightarrow> arc \<Rightarrow> greedy \<Rightarrow> greedy" where
  "touch_unit_caps n a = gs_graph_update (upd_node n (unit_capacities_update (omap_touch [] (arc_key a))))"

definition touch_pref :: "ptr \<Rightarrow> arc \<Rightarrow> greedy \<Rightarrow> greedy" where
  "touch_pref n a = gs_graph_update (upd_node n (prefs_update (omap_touch (a, 0) (arc_key a))))"

definition touch_qty :: "ptr \<Rightarrow> greedy \<Rightarrow> greedy" where
  "touch_qty n = gs_n_qty_update (omap_touch 0 n)"

definition touch_grp_caps :: "ptr option \<Rightarrow> greedy \<Rightarrow> greedy" where
  "touch_grp_caps p = gs_grp_caps_update (omap_touch [] p)"

definition unit_caps_at :: "node \<Rightarrow> arc \<Rightarrow> double list" where
  "unit_caps_at nd a = omap_sub [] (unit_capacities nd) (arc_key a)"

definition pref_at :: "node \<Rightarrow> arc \<Rightarrow> double" where
  "pref_at nd a = (case map_of (prefs nd) (arc_key a) of None \<Rightarrow> 0 | Some (_, p) \<Rightarrow> p)"

section \<open>Capacities\<close>

definition cap_ratio :: "double \<Rightarrow> double \<Rightarrow> xdouble" where
  "cap_ratio grp_cap u_cap = (if grp_cap = DBL_MAX then Fin DBL_MAX else xdiv grp_cap u_cap)"

definition node_Capacity :: "ptr \<Rightarrow> arc \<Rightarrow> bool \<Rightarrow> double \<Rightarrow> greedy \<Rightarrow> (greedy, xdouble) exec" where
  "node_Capacity n a min_cap curr_qty s = deref (gs_node s n) s (\<lambda>nd.
     if n_group nd = None then throw StateError s
     else
       let s1 = touch_unit_caps n a s; unit_caps = unit_caps_at nd a
       in if unit_caps = [] then ok (Fin (n_qty nd - curr_qty)) s1
          else
            let s2 = touch_grp_caps (n_group nd) s1;
                group_caps = omap_sub [] (gs_grp_caps s) (n_group nd)
            in if length group_caps < length unit_caps then throw Undefined s2
               else
                 let caps = map2 cap_ratio group_caps unit_caps;
                     cap = (if min_cap then min_element xless (hd caps) (tl caps)
                            else max_element xless (hd caps) (tl caps))
                 in ok (xmin cap (Fin (n_qty nd - curr_qty))) s2)"

definition arc_Capacity :: "arc \<Rightarrow> double \<Rightarrow> double \<Rightarrow> greedy \<Rightarrow> (greedy, xdouble) exec" where
  "arc_Capacity a u_curr_qty v_curr_qty s =
     andThen (node_Capacity (a_unode a) a False u_curr_qty s) (\<lambda>ucap s1.
     andThen (node_Capacity (a_vnode a) a True v_curr_qty s1) (\<lambda>vcap s2.
       ok (xmin ucap vcap) s2))"

definition UpdateCapacity :: "double \<Rightarrow> ptr \<Rightarrow> arc \<Rightarrow> double \<Rightarrow> greedy \<Rightarrow> (greedy, unit) exec" where
  "UpdateCapacity eps n a q s = deref (gs_node s n) s (\<lambda>nd.
     let s1 = touch_grp_caps (n_group nd) (touch_unit_caps n a s);
         unit_caps = unit_caps_at nd a;
         caps = omap_sub [] (gs_grp_caps s) (n_group nd)
     in if length unit_caps \<noteq> length caps then throw AssertFailed s1
        else
          let caps' = map2 (\<lambda>prev u. if prev = DBL_MAX then DBL_MAX else prev - q * u) caps unit_caps;
              s2 = gs_grp_caps_update (omap_put (n_group nd) caps') s1
          in if IsNegative eps (n_qty nd - q) then throw ValueError s2 else ok () s2)"

definition UpdateObj :: "double \<Rightarrow> double \<Rightarrow> greedy \<Rightarrow> greedy" where
  "UpdateObj q pref = gs_obj_update (\<lambda>x. xadd x (xdiv q pref))"

definition GetCaps :: "ptr \<Rightarrow> greedy \<Rightarrow> (greedy, unit) exec" where
  "GetCaps p s = deref (x_groups (gs_graph s) p) s (\<lambda>gr.
     ok () (s\<lparr>gs_n_qty := foldl (\<lambda>m n. omap_put n 0 m) (gs_n_qty s) (g_nodes gr),
              gs_grp_caps := omap_put (Some p) (g_capacities gr) (gs_grp_caps s)\<rparr>))"

definition Init :: "greedy \<Rightarrow> (greedy, unit) exec" where
  "Init s = andThen (foreach GetCaps (request_groups (gs_graph s)) s) (\<lambda>_ s1.
     foreach GetCaps (supply_groups (gs_graph s1)) s1)"

section \<open>Orders\<close>

definition ReqPrefComp :: "graph \<Rightarrow> arc \<Rightarrow> arc \<Rightarrow> bool" where
  "ReqPrefComp g l r =
     (let lu = n_agent_id (the (x_nodes g (a_unode l))); lv = n_agent_id (the (x_nodes g (a_vnode l)));
          ru = n_agent_id (the (x_nodes g (a_unode r))); rv = n_agent_id (the (x_nodes g (a_vnode r)));
          lpref = pref_at (the (x_nodes g (a_unode l))) l;
          rpref = pref_at (the (x_nodes g (a_unode r))) r
      in if lpref \<noteq> rpref then lpref > rpref else lu > ru \<or> (lu = ru \<and> lv > rv))"

definition AvgPrefComp :: "graph \<Rightarrow> ptr \<Rightarrow> ptr \<Rightarrow> bool" where
  "AvgPrefComp g l r =
     (let lid = n_agent_id (the (x_nodes g l)); rid = n_agent_id (the (x_nodes g r));
          lpref = AvgPref (the (x_nodes g l)); rpref = AvgPref (the (x_nodes g r))
      in if lpref \<noteq> rpref then lpref > rpref else lid > rid)"

text \<open>
  The sorted copy of a request's arcs. Sorting permutes the elements with \<open>operator=\<close>, which does
  not carry \<open>pref_\<close> along: the \<open>pref_\<close> members stay where they were. Comparing enters missing
  preferences as 0; with fewer than two arcs nothing is compared.
\<close>

definition sort_arcs :: "graph \<Rightarrow> arc list \<Rightarrow> arc list" where
  "sort_arcs g as = map2 Arc_assign as (stable_sort (ReqPrefComp g) as)"

definition sorted_arcs :: "arc list \<Rightarrow> greedy \<Rightarrow> (greedy, arc list) exec" where
  "sorted_arcs as s =
     (if length as < 2 then ok as s
      else if list_ex (\<lambda>a. gs_node s (a_unode a) = None \<or> gs_node s (a_vnode a) = None) as
           then throw Undefined s
      else ok (sort_arcs (gs_graph s) as) (foldl (\<lambda>s a. touch_pref (a_unode a) a s) s as))"

section \<open>Matching\<close>

definition try_arc :: "double \<Rightarrow> (double \<Rightarrow> double \<Rightarrow> double) \<Rightarrow> double \<Rightarrow> arc \<Rightarrow> double \<Rightarrow> greedy \<Rightarrow> (greedy, double) exec" where
  "try_arc eps fdist target a match s =
     (let remain = target - match; u = a_unode a; v = a_vnode a;
          s0 = touch_qty v (touch_qty u s)
      in andThen (arc_Capacity a (omap_sub 0 (gs_n_qty s) u) (omap_sub 0 (gs_n_qty s) v) s0) (\<lambda>cap s1.
         andThen (let tomatch = xmin (Fin remain) cap
                  in if a_exclusive a then
                       case tomatch of
                         Fin t \<Rightarrow> ok (Fin (if fdist t (a_excl_val a) \<ge> float_ulp_eq then 0 else a_excl_val a)) s1
                       | _ \<Rightarrow> throw DomainError s1
                     else ok tomatch s1) (\<lambda>tomatch s2.
         case tomatch of
           Fin q \<Rightarrow>
             if q > eps then
               andThen (UpdateCapacity eps u a q s2) (\<lambda>_ s3.
               andThen (UpdateCapacity eps v a q s3) (\<lambda>_ s4.
                 let s5 = gs_n_qty_update (\<lambda>m. omap_put u (omap_sub 0 m u + q) m) s4;
                     s6 = gs_n_qty_update (\<lambda>m. omap_put v (omap_sub 0 m v + q) m) s5;
                     s7 = gs_graph_update (AddMatch a q) s6
                 in deref (gs_node s7 u) s7 (\<lambda>nd.
                      ok (match + q) (UpdateObj q (pref_at nd a) (touch_pref u a s7)))))
             else ok match s2
         | _ \<Rightarrow> ok match s2)))"

fun arcs_loop :: "double \<Rightarrow> (double \<Rightarrow> double \<Rightarrow> double) \<Rightarrow> double \<Rightarrow> arc list \<Rightarrow> double \<Rightarrow> greedy \<Rightarrow> (greedy, double) exec" where
  "arcs_loop eps fdist target [] match s = ok match s"
| "arcs_loop eps fdist target (a # as) match s =
     (if match \<le> target
      then andThen (try_arc eps fdist target a match s) (\<lambda>m s'. arcs_loop eps fdist target as m s')
      else ok match s)"

fun reqs_loop :: "double \<Rightarrow> (double \<Rightarrow> double \<Rightarrow> double) \<Rightarrow> double \<Rightarrow> ptr list \<Rightarrow> double \<Rightarrow> greedy \<Rightarrow> (greedy, double) exec" where
  "reqs_loop eps fdist target [] match s = ok match s"
| "reqs_loop eps fdist target (n # ns) match s =
     (if match \<le> target then
        andThen (case map_of (node_arc_map (gs_graph s)) n of
                   None \<Rightarrow> ok match s
                 | Some as \<Rightarrow> andThen (sorted_arcs as s) (\<lambda>sorted s1. arcs_loop eps fdist target sorted match s1))
          (\<lambda>m s'. reqs_loop eps fdist target ns m s')
      else ok match s)"

definition GreedilySatisfySet :: "double \<Rightarrow> (double \<Rightarrow> double \<Rightarrow> double) \<Rightarrow> ptr \<Rightarrow> greedy \<Rightarrow> (greedy, unit) exec" where
  "GreedilySatisfySet eps fdist p s = deref (x_groups (gs_graph s) p) s (\<lambda>gr.
     if 2 \<le> length (g_nodes gr) \<and> list_ex (\<lambda>n. gs_node s n = None) (g_nodes gr) then throw Undefined s
     else
       let nodes = stable_sort (AvgPrefComp (gs_graph s)) (g_nodes gr);
           s1 = gs_graph_update (upd_group p (g_nodes_update (\<lambda>_. nodes))) s;
           target = g_qty gr
       in andThen (reqs_loop eps fdist target nodes 0 s1) (\<lambda>match s2.
            ok () (gs_unmatched_update (\<lambda>x. x + (target - match)) s2)))"

definition greedy_Condition :: "greedy \<Rightarrow> (greedy, unit) exec" where
  "greedy_Condition s =
     (case gs_cond s of
        None \<Rightarrow> ok () s
      | Some c \<Rightarrow> (case Condition c (gs_graph s) of
          (r, (c1, g1)) \<Rightarrow> (r, s\<lparr>gs_cond := Some c1, gs_graph := g1\<rparr>)))"

definition SolveGraph :: "double \<Rightarrow> (double \<Rightarrow> double \<Rightarrow> double) \<Rightarrow> greedy \<Rightarrow> (greedy, xdouble) exec" where
  "SolveGraph eps fdist s =
     (let pseudo_cost = PseudoCost (gs_exclusive_orders s) (gs_graph s)
      in andThen (greedy_Condition s) (\<lambda>_ s1.
         andThen (Init (s1\<lparr>gs_obj := Fin 0, gs_unmatched := 0, gs_n_qty := []\<rparr>)) (\<lambda>_ s2.
         andThen (foreach (GreedilySatisfySet eps fdist) (request_groups (gs_graph s2)) s2) (\<lambda>_ s3.
           let s4 = gs_obj_update (\<lambda>x. xadd x (xmul (Fin (gs_unmatched s3)) pseudo_cost)) s3
           in ok (gs_obj s4) s4))))"

text \<open>\<open>ExchangeSolver::Solve(graph)\<close>.\<close>

definition Solve :: "double \<Rightarrow> (double \<Rightarrow> double \<Rightarrow> double) \<Rightarrow> graph option \<Rightarrow> greedy \<Rightarrow> (greedy, xdouble) exec" where
  "Solve eps fdist g s =
     SolveGraph eps fdist (case g of None \<Rightarrow> s | Some g' \<Rightarrow> s\<lparr>gs_graph := g'\<rparr>)"

end
