(* ===== verification/Greedy_Refinement.thy ===== *)
theory Greedy_Refinement
  imports Greedy_Solver
begin

text \<open>
  The greedy solver refines a function on lists of matches. All state of the solver (what is
  matched at each node, what is left of each capacity) is determined by the graph and the matches
  made so far; the abstract greedy step needs only these. The concrete solver never throws on a
  well-formed graph and computes exactly the matches of the abstract one.
\<close>

section \<open>What the solver reads of a graph\<close>

definition ngroup :: "graph \<Rightarrow> ptr \<Rightarrow> ptr option" where
  "ngroup g n = (case x_nodes g n of None \<Rightarrow> None | Some nd \<Rightarrow> n_group nd)"

definition nqty :: "graph \<Rightarrow> ptr \<Rightarrow> double" where
  "nqty g n = (case x_nodes g n of None \<Rightarrow> 0 | Some nd \<Rightarrow> n_qty nd)"

definition ucaps :: "graph \<Rightarrow> ptr \<Rightarrow> arc \<Rightarrow> double list" where
  "ucaps g n a = (case x_nodes g n of None \<Rightarrow> [] | Some nd \<Rightarrow> unit_caps_at nd a)"

definition npref :: "graph \<Rightarrow> ptr \<Rightarrow> arc \<Rightarrow> double" where
  "npref g n a = (case x_nodes g n of None \<Rightarrow> 0 | Some nd \<Rightarrow> pref_at nd a)"

definition gcaps :: "graph \<Rightarrow> ptr \<Rightarrow> double list" where
  "gcaps g p = (case x_groups g p of None \<Rightarrow> [] | Some gr \<Rightarrow> g_capacities gr)"

definition gtarget :: "graph \<Rightarrow> ptr \<Rightarrow> double" where
  "gtarget g p = (case x_groups g p of None \<Rightarrow> 0 | Some gr \<Rightarrow> g_qty gr)"

definition gnodes :: "graph \<Rightarrow> ptr \<Rightarrow> ptr list" where
  "gnodes g p = (case x_groups g p of None \<Rightarrow> [] | Some gr \<Rightarrow> g_nodes gr)"

definition node_view :: "node \<Rightarrow> ptr option \<times> double \<times> (arc \<Rightarrow> double list) \<times> (akey, arc \<times> double) omap \<times> int \<times> string" where
  "node_view nd = (n_group nd, n_qty nd, unit_caps_at nd, prefs nd, n_agent_id nd, n_commod nd)"

definition group_view :: "group \<Rightarrow> ptr multiset \<times> double list \<times> double" where
  "group_view gr = (mset (g_nodes gr), g_capacities gr, g_qty gr)"

text \<open>\<open>gperm g g'\<close>: nothing the solver reads differs, up to the order of nodes and groups; \<open>gframe\<close>:
  the order is the same too.\<close>

definition gperm :: "graph \<Rightarrow> graph \<Rightarrow> bool" where
  "gperm g g' \<longleftrightarrow>
     (\<forall>n. map_option node_view (x_nodes g' n) = map_option node_view (x_nodes g n)) \<and>
     (\<forall>p. map_option group_view (x_groups g' p) = map_option group_view (x_groups g p)) \<and>
     node_arc_map g' = node_arc_map g \<and>
     mset (request_groups g') = mset (request_groups g) \<and> supply_groups g' = supply_groups g"

lemma gperm_refl [simp, intro]: "gperm g g"
  by (simp add: gperm_def)

lemma gperm_trans: "gperm g g' \<Longrightarrow> gperm g' g'' \<Longrightarrow> gperm g g''"
  by (simp add: gperm_def)

lemma gperm_node:
  assumes "gperm g g'"
  shows "x_nodes g' n = None \<longleftrightarrow> x_nodes g n = None" "ngroup g' n = ngroup g n" "nqty g' n = nqty g n"
    "ucaps g' n a = ucaps g n a" "npref g' n a = npref g n a"
proof -
  have h: "map_option node_view (x_nodes g' n) = map_option node_view (x_nodes g n)"
    using assms by (simp add: gperm_def)
  then show "x_nodes g' n = None \<longleftrightarrow> x_nodes g n = None" by (metis map_option_is_None)
  show "ngroup g' n = ngroup g n" "nqty g' n = nqty g n" "ucaps g' n a = ucaps g n a" "npref g' n a = npref g n a"
    using h by (auto simp: ngroup_def nqty_def ucaps_def npref_def node_view_def pref_at_def split: option.splits)
qed

lemma gperm_group:
  assumes "gperm g g'"
  shows "x_groups g' p = None \<longleftrightarrow> x_groups g p = None" "gcaps g' p = gcaps g p" "gtarget g' p = gtarget g p"
    "mset (gnodes g' p) = mset (gnodes g p)"
proof -
  have h: "map_option group_view (x_groups g' p) = map_option group_view (x_groups g p)"
    using assms by (simp add: gperm_def)
  then show "x_groups g' p = None \<longleftrightarrow> x_groups g p = None" by (metis map_option_is_None)
  show "gcaps g' p = gcaps g p" "gtarget g' p = gtarget g p" "mset (gnodes g' p) = mset (gnodes g p)"
    using h by (auto simp: gcaps_def gtarget_def gnodes_def group_view_def split: option.splits)
qed

definition gframe :: "graph \<Rightarrow> graph \<Rightarrow> bool" where
  "gframe g g' \<longleftrightarrow> gperm g g' \<and> x_groups g' = x_groups g \<and> request_groups g' = request_groups g"

lemma gframe_refl [simp, intro]: "gframe g g"
  by (simp add: gframe_def)

lemma gframe_trans: "gframe g g' \<Longrightarrow> gframe g' g'' \<Longrightarrow> gframe g g''"
  by (auto simp: gframe_def intro: gperm_trans)

lemma gframe_gperm: "gframe g g' \<Longrightarrow> gperm g g'"
  by (simp add: gframe_def)

lemmas gframe_node = gperm_node[OF gframe_gperm]

lemma gframe_upd_node:
  "(\<And>nd. node_view (f nd) = node_view nd) \<Longrightarrow> gframe g (upd_node n f g') = gframe g g'"
  by (auto simp: gframe_def gperm_def upd_node_def option.map_comp comp_def)

lemma unit_caps_touch: "unit_caps_at (unit_capacities_update (omap_touch [] k) nd) = unit_caps_at nd"
  by (rule ext) (simp add: unit_caps_at_def)

lemma gframe_touch [simp]: "gframe g (gs_graph (touch_unit_caps n a s)) = gframe g (gs_graph s)"
proof -
  have "node_view (unit_capacities_update (omap_touch [] k) nd) = node_view nd" for k nd
    by (simp add: node_view_def unit_caps_touch)
  then show ?thesis by (simp add: touch_unit_caps_def gframe_upd_node)
qed

text \<open>Reading the preference of an arc that has one changes nothing.\<close>

lemma touch_pref_present:
  assumes "gframe g (gs_graph s)" "npref g n a \<noteq> 0"
  shows "touch_pref n a s = s"
proof -
  have "npref (gs_graph s) n a \<noteq> 0" using gframe_node(5)[OF assms(1)] assms(2) by simp
  then obtain nd v where nd: "gs_node s n = Some nd" "map_of (prefs nd) (arc_key a) = Some v"
    by (auto simp: npref_def pref_at_def split: option.splits)
  then have "upd_node n (prefs_update (omap_touch (a, 0) (arc_key a))) (gs_graph s) = gs_graph s"
    by (auto simp: upd_node_def fun_upd_idem)
  then show ?thesis by (simp add: touch_pref_def)
qed

lemma gframe_AddMatch [simp]: "gframe g (AddMatch a q g') = gframe g g'"
  by (simp add: gframe_def gperm_def AddMatch_def)

lemma touch_other [simp]:
  "gs_n_qty (touch_unit_caps n a s) = gs_n_qty s" "gs_grp_caps (touch_unit_caps n a s) = gs_grp_caps s"
  "gs_n_qty (touch_grp_caps p s) = gs_n_qty s" "gs_graph (touch_grp_caps p s) = gs_graph s"
  "gs_grp_caps (touch_qty n s) = gs_grp_caps s" "gs_graph (touch_qty n s) = gs_graph s"
  "gs_obj (touch_unit_caps n a s) = gs_obj s"
  "gs_obj (touch_grp_caps p s) = gs_obj s" "gs_obj (touch_qty n s) = gs_obj s"
  "gs_unmatched (touch_unit_caps n a s) = gs_unmatched s"
  "gs_unmatched (touch_grp_caps p s) = gs_unmatched s" "gs_unmatched (touch_qty n s) = gs_unmatched s"
  "matches (gs_graph (touch_unit_caps n a s)) = matches (gs_graph s)"
  by (simp_all add: touch_unit_caps_def touch_grp_caps_def touch_qty_def upd_node_def)

section \<open>Well-formed graphs\<close>

text \<open>
  An arc the solver may meet: it leads from a node of a request group to a node of a supply
  group, has one positive unit capacity per capacity of either group, and a positive preference.
\<close>

definition good_arc :: "graph \<Rightarrow> arc \<Rightarrow> bool" where
  "good_arc g a \<longleftrightarrow> (\<exists>pu pv. ngroup g (a_unode a) = Some pu \<and> pu \<in> set (request_groups g) \<and>
     ngroup g (a_vnode a) = Some pv \<and> pv \<in> set (supply_groups g) \<and>
     length (ucaps g (a_unode a) a) = length (gcaps g pu) \<and>
     length (ucaps g (a_vnode a) a) = length (gcaps g pv)) \<and>
     (\<forall>x \<in> set (ucaps g (a_unode a) a) \<union> set (ucaps g (a_vnode a) a). 0 < x) \<and> 0 < npref g (a_unode a) a"

definition wf_graph :: "graph \<Rightarrow> bool" where
  "wf_graph g \<longleftrightarrow> distinct (request_groups g @ supply_groups g) \<and>
     (\<forall>p \<in> set (request_groups g @ supply_groups g). x_groups g p \<noteq> None \<and> distinct (gnodes g p) \<and>
        (\<forall>n \<in> set (gnodes g p). ngroup g n = Some p) \<and> (\<forall>c \<in> set (gcaps g p). 0 \<le> c \<and> c \<le> DBL_MAX)) \<and>
     (\<forall>p \<in> set (request_groups g). \<forall>n \<in> set (gnodes g p). \<forall>as. map_of (node_arc_map g) n = Some as \<longrightarrow>
        (\<forall>a \<in> set as. a_unode a = n \<and> good_arc g a)) \<and>
     (\<forall>n. 0 \<le> nqty g n \<and> nqty g n \<le> DBL_MAX)"

lemma gperm_good_arc: "gperm g g' \<Longrightarrow> good_arc g' a = good_arc g a"
  using mset_eq_setD[of "request_groups g'" "request_groups g"]
  by (simp add: good_arc_def gperm_node gperm_group) (simp add: gperm_def)

lemma gperm_wf:
  assumes "gperm g g'" "wf_graph g"
  shows "wf_graph g'"
proof -
  have r: "mset (request_groups g') = mset (request_groups g)" "supply_groups g' = supply_groups g"
    "node_arc_map g' = node_arc_map g" using assms(1) by (simp_all add: gperm_def)
  have s: "set (request_groups g') = set (request_groups g)" using r(1) by (metis mset_eq_setD)
  have d: "distinct (request_groups g') = distinct (request_groups g)" using r(1) by (metis mset_eq_imp_distinct_iff)
  have n: "set (gnodes g' p) = set (gnodes g p)" "distinct (gnodes g' p) = distinct (gnodes g p)" for p
    using gperm_group(4)[OF assms(1), of p] by (metis mset_eq_setD mset_eq_imp_distinct_iff)+
  show ?thesis using assms(2)
    by (simp add: wf_graph_def r s d n gperm_node[OF assms(1)] gperm_group[OF assms(1)] gperm_good_arc[OF assms(1)])
qed

section \<open>The abstract greedy step\<close>

type_synonym match_list = "(arc \<times> double) list"

text \<open>What the matches use of a node, and of the \<open>i\<close>-th capacity of a group.\<close>

definition node_use :: "match_list \<Rightarrow> ptr \<Rightarrow> double" where
  "node_use M n = sum_list (map (\<lambda>(a, q). (if a_unode a = n then q else 0) + (if a_vnode a = n then q else 0)) M)"

definition arc_use :: "graph \<Rightarrow> ptr \<Rightarrow> nat \<Rightarrow> arc \<Rightarrow> double" where
  "arc_use g p i a = (if ngroup g (a_unode a) = Some p then ucaps g (a_unode a) a ! i else 0) +
     (if ngroup g (a_vnode a) = Some p then ucaps g (a_vnode a) a ! i else 0)"

definition cap_use :: "graph \<Rightarrow> match_list \<Rightarrow> ptr \<Rightarrow> nat \<Rightarrow> double" where
  "cap_use g M p i = sum_list (map (\<lambda>(a, q). q * arc_use g p i a) M)"

definition cap_left :: "graph \<Rightarrow> match_list \<Rightarrow> ptr \<Rightarrow> double list" where
  "cap_left g M p = map (\<lambda>i. if gcaps g p ! i = DBL_MAX then DBL_MAX else gcaps g p ! i - cap_use g M p i)
     [0..<length (gcaps g p)]"

definition ratio :: "double \<Rightarrow> double \<Rightarrow> double" where
  "ratio c u = (if c = DBL_MAX then DBL_MAX else c / u)"

definition node_cap :: "graph \<Rightarrow> match_list \<Rightarrow> ptr \<Rightarrow> arc \<Rightarrow> bool \<Rightarrow> double" where
  "node_cap g M n a min_cap =
     (case ngroup g n of None \<Rightarrow> 0 | Some p \<Rightarrow>
        let us = ucaps g n a; rest = nqty g n - node_use M n
        in if us = [] then rest
           else min ((if min_cap then Min else Max) (set (map2 ratio (cap_left g M p) us))) rest)"

definition arc_cap :: "graph \<Rightarrow> match_list \<Rightarrow> arc \<Rightarrow> double" where
  "arc_cap g M a = min (node_cap g M (a_unode a) a False) (node_cap g M (a_vnode a) a True)"

definition abs_amount :: "(double \<Rightarrow> double \<Rightarrow> double) \<Rightarrow> graph \<Rightarrow> double \<Rightarrow> arc \<Rightarrow> double \<times> match_list \<Rightarrow> double" where
  "abs_amount fdist g target a = (\<lambda>(m, M).
     let t = min (target - m) (arc_cap g M a)
     in if a_exclusive a then (if fdist t (a_excl_val a) \<ge> float_ulp_eq then 0 else a_excl_val a) else t)"

definition abs_try :: "double \<Rightarrow> (double \<Rightarrow> double \<Rightarrow> double) \<Rightarrow> graph \<Rightarrow> double \<Rightarrow> arc \<Rightarrow> double \<times> match_list \<Rightarrow> double \<times> match_list" where
  "abs_try eps fdist g target a = (\<lambda>(m, M).
     let q = abs_amount fdist g target a (m, M) in if q > eps then (m + q, M @ [(a, q)]) else (m, M))"

fun abs_arcs :: "double \<Rightarrow> (double \<Rightarrow> double \<Rightarrow> double) \<Rightarrow> graph \<Rightarrow> double \<Rightarrow> arc list \<Rightarrow> double \<times> match_list \<Rightarrow> double \<times> match_list" where
  "abs_arcs eps fdist g target [] mM = mM"
| "abs_arcs eps fdist g target (a # as) mM =
     (if fst mM \<le> target then abs_arcs eps fdist g target as (abs_try eps fdist g target a mM) else mM)"

text \<open>
  Documented behaviour of \<open>float_distance\<close> used here: fewer than two representable numbers above
  \<open>t\<close>, a value larger than the smallest matched amount exceeds \<open>t\<close> by a relative error at most
  \<open>r\<close> (for doubles, two to the minus fifty-two).
\<close>

definition ulp_bound :: "double \<Rightarrow> (double \<Rightarrow> double \<Rightarrow> double) \<Rightarrow> double \<Rightarrow> bool" where
  "ulp_bound eps fdist r \<longleftrightarrow> 0 \<le> eps \<and> 0 \<le> r \<and> (\<forall>t y. eps < y \<longrightarrow> fdist t y < float_ulp_eq \<longrightarrow> y \<le> t * (1 + r))"

text \<open>Quantities so large that one unit in the last place exceeds \<open>eps\<close> are excluded.\<close>

definition fine_qty :: "double \<Rightarrow> double \<Rightarrow> graph \<Rightarrow> bool" where
  "fine_qty eps r g \<longleftrightarrow> (\<forall>n. r * nqty g n \<le> eps)"

definition good_matches :: "double \<Rightarrow> graph \<Rightarrow> match_list \<Rightarrow> bool" where
  "good_matches eps g M \<longleftrightarrow> (\<forall>(a, q) \<in> set M. eps < q \<and> good_arc g a)"

lemma good_arcD:
  assumes "good_arc g a" "wf_graph g"
  obtains pu pv und vnd where "ngroup g (a_unode a) = Some pu" "pu \<in> set (request_groups g)"
    "ngroup g (a_vnode a) = Some pv" "pv \<in> set (supply_groups g)" "pu \<noteq> pv" "a_unode a \<noteq> a_vnode a"
    "length (ucaps g (a_unode a) a) = length (gcaps g pu)" "length (ucaps g (a_vnode a) a) = length (gcaps g pv)"
    "x_nodes g (a_unode a) = Some und" "x_nodes g (a_vnode a) = Some vnd"
    "\<And>x. x \<in> set (ucaps g (a_unode a) a) \<Longrightarrow> 0 < x" "\<And>x. x \<in> set (ucaps g (a_vnode a) a) \<Longrightarrow> 0 < x"
proof -
  obtain pu pv where h: "ngroup g (a_unode a) = Some pu" "pu \<in> set (request_groups g)"
    "ngroup g (a_vnode a) = Some pv" "pv \<in> set (supply_groups g)"
    "length (ucaps g (a_unode a) a) = length (gcaps g pu)" "length (ucaps g (a_vnode a) a) = length (gcaps g pv)"
    using assms(1) unfolding good_arc_def by blast
  moreover have "pu \<noteq> pv" using h(2,4) assms(2) by (auto simp: wf_graph_def)
  moreover from this h have "a_unode a \<noteq> a_vnode a" by auto
  moreover obtain und vnd where "x_nodes g (a_unode a) = Some und" "x_nodes g (a_vnode a) = Some vnd"
    using h(1,3) by (auto simp: ngroup_def split: option.splits)
  ultimately show thesis using that assms(1) unfolding good_arc_def by blast
qed

lemma node_use_Nil [simp]: "node_use [] n = 0"
  by (simp add: node_use_def)

lemma cap_use_Nil [simp]: "cap_use g [] p i = 0"
  by (simp add: cap_use_def)

lemma node_use_snoc:
  "node_use (M @ [(a, q)]) n = node_use M n + (if a_unode a = n then q else 0) + (if a_vnode a = n then q else 0)"
  by (simp add: node_use_def)

lemma cap_use_snoc: "cap_use g (M @ [(a, q)]) p i = cap_use g M p i + q * arc_use g p i a"
  by (simp add: cap_use_def)

lemma node_use_nonneg: "good_matches eps g M \<Longrightarrow> 0 \<le> eps \<Longrightarrow> 0 \<le> node_use M n"
  unfolding node_use_def good_matches_def by (rule sum_list_nonneg) auto

lemma cap_left_nth:
  "i < length (gcaps g p) \<Longrightarrow>
   cap_left g M p ! i = (if gcaps g p ! i = DBL_MAX then DBL_MAX else gcaps g p ! i - cap_use g M p i)"
  by (simp add: cap_left_def)

lemma length_cap_left [simp]: "length (cap_left g M p) = length (gcaps g p)"
  by (simp add: cap_left_def)

lemma arc_use_nonneg:
  assumes "good_arc g a" "wf_graph g" "i < length (gcaps g p)"
  shows "0 \<le> arc_use g p i a"
proof -
  obtain pu pv where h: "ngroup g (a_unode a) = Some pu" "ngroup g (a_vnode a) = Some pv"
    "length (ucaps g (a_unode a) a) = length (gcaps g pu)" "length (ucaps g (a_vnode a) a) = length (gcaps g pv)"
    "\<And>x. x \<in> set (ucaps g (a_unode a) a) \<Longrightarrow> 0 < x" "\<And>x. x \<in> set (ucaps g (a_vnode a) a) \<Longrightarrow> 0 < x"
    by (rule good_arcD[OF assms(1,2)]) blast
  have "p = pu \<Longrightarrow> 0 < ucaps g (a_unode a) a ! i" "p = pv \<Longrightarrow> 0 < ucaps g (a_vnode a) a ! i"
    using h(3-6) assms(3) by (auto intro!: h(5,6) nth_mem)
  then show ?thesis by (auto simp: arc_use_def h(1,2) intro: order_less_imp_le)
qed

lemma cap_use_nonneg:
  assumes "good_matches eps g M" "0 \<le> eps" "wf_graph g" "i < length (gcaps g p)"
  shows "0 \<le> cap_use g M p i"
  unfolding cap_use_def
proof (rule sum_list_nonneg)
  fix x assume "x \<in> set (map (\<lambda>(a, q). q * arc_use g p i a) M)"
  then obtain a q where "(a, q) \<in> set M" "x = q * arc_use g p i a" by auto
  moreover from this have "eps < q" "good_arc g a" using assms(1) by (auto simp: good_matches_def)
  ultimately show "0 \<le> x" using arc_use_nonneg[OF _ assms(3,4)] assms(2) by simp
qed

section \<open>The concrete operations compute the abstract ones\<close>

definition match_cost :: "graph \<Rightarrow> match_list \<Rightarrow> double" where
  "match_cost g M = sum_list (map (\<lambda>(a, q). q / npref g (a_unode a) a) M)"

text \<open>The solver's state \<open>s\<close> after the matches \<open>M\<close> on the graph \<open>g\<close>, which already had the matches
  \<open>M0\<close>.\<close>

definition ginv :: "double \<Rightarrow> graph \<Rightarrow> match_list \<Rightarrow> match_list \<Rightarrow> greedy \<Rightarrow> bool" where
  "ginv eps g M0 M s \<longleftrightarrow> gframe g (gs_graph s) \<and> matches (gs_graph s) = M0 @ M \<and> good_matches eps g M \<and>
     (\<forall>n. omap_sub 0 (gs_n_qty s) n = node_use M n) \<and>
     (\<forall>p \<in> set (request_groups g @ supply_groups g). omap_sub [] (gs_grp_caps s) (Some p) = cap_left g M p) \<and>
     gs_obj s = Fin (match_cost g M)"

text \<open>\<open>sframe s s'\<close>: the two states agree except for the capacities left.\<close>

definition sframe :: "greedy \<Rightarrow> greedy \<Rightarrow> bool" where
  "sframe s s' \<longleftrightarrow> gframe (gs_graph s) (gs_graph s') \<and> matches (gs_graph s') = matches (gs_graph s) \<and>
     (\<forall>n. omap_sub 0 (gs_n_qty s') n = omap_sub 0 (gs_n_qty s) n) \<and> gs_obj s' = gs_obj s \<and>
     gs_unmatched s' = gs_unmatched s"

lemma sframe_trans: "sframe s s' \<Longrightarrow> sframe s' s'' \<Longrightarrow> sframe s s''"
  by (auto simp: sframe_def intro: gframe_trans)

lemma sframe_touch [simp, intro]:
  "sframe s (touch_unit_caps n a s)" "sframe s (touch_qty n s)" "sframe s (touch_grp_caps p s)"
  "sframe s (gs_grp_caps_update f s)"
  by (simp_all add: sframe_def) (simp add: touch_qty_def)

lemma caps_touch [simp]:
  "omap_sub [] (gs_grp_caps (touch_grp_caps p s)) k = omap_sub [] (gs_grp_caps s) k"
  by (simp add: touch_grp_caps_def)

lemma ginv_sframe:
  assumes "ginv eps g M0 M s" "sframe s s'"
    "\<And>k. omap_sub [] (gs_grp_caps s') k = omap_sub [] (gs_grp_caps s) k"
  shows "ginv eps g M0 M s'"
  using assms by (auto simp: ginv_def sframe_def intro: gframe_trans)

lemma gframe_nodeD:
  assumes "gframe g g'" "ngroup g n = Some p"
  obtains nd where "x_nodes g' n = Some nd" "n_group nd = Some p" "n_qty nd = nqty g n"
    "\<And>a. unit_caps_at nd a = ucaps g n a" "\<And>a. pref_at nd a = npref g n a"
proof -
  obtain nd where nd: "x_nodes g' n = Some nd"
    using gframe_node(1)[OF assms(1), of n] assms(2) by (auto simp: ngroup_def split: option.splits)
  show thesis
    using that[OF nd] gframe_node[OF assms(1), of n] assms(2) nd
    by (simp add: ngroup_def nqty_def ucaps_def npref_def)
qed

lemma map2_cap_ratio:
  assumes "\<And>u. u \<in> set us \<Longrightarrow> 0 < u"
  shows "map2 cap_ratio cs us = map Fin (map2 ratio cs us)"
proof -
  have "cap_ratio c u = Fin (ratio c u)" if "(c, u) \<in> set (zip cs us)" for c u
    using assms[of u] set_zip_rightD[OF that] by (simp add: cap_ratio_def ratio_def)
  then show ?thesis by (auto simp: map_eq_conv)
qed

lemma element_Fin:
  assumes "xs \<noteq> []"
  shows "min_element xless (hd (map Fin xs)) (tl (map Fin xs)) = Fin (Min (set xs))"
    "max_element xless (hd (map Fin xs)) (tl (map Fin xs)) = Fin (Max (set xs))"
  using assms min_element_Fin[of "hd xs" "tl xs"] max_element_Fin[of "hd xs" "tl xs"]
  by (cases xs; simp)+

lemma node_Capacity_refines:
  assumes inv: "ginv eps g M0 M s" and n: "ngroup g n = Some p" "p \<in> set (request_groups g @ supply_groups g)"
    and us: "length (ucaps g n a) = length (gcaps g p)" "\<And>u. u \<in> set (ucaps g n a) \<Longrightarrow> 0 < u"
  shows "\<exists>s'. node_Capacity n a b (node_use M n) s = (Inr (Fin (node_cap g M n a b)), s') \<and>
    ginv eps g M0 M s' \<and> gs_unmatched s' = gs_unmatched s"
proof -
  obtain nd where nd: "gs_node s n = Some nd" "n_group nd = Some p" "n_qty nd = nqty g n"
    "unit_caps_at nd a = ucaps g n a"
    using gframe_nodeD[of g "gs_graph s" n p] inv n(1) unfolding ginv_def by metis
  have caps: "omap_sub [] (gs_grp_caps s) (Some p) = cap_left g M p" using inv n(2) by (simp add: ginv_def)
  show ?thesis
  proof (cases "ucaps g n a = []")
    case True
    have "ginv eps g M0 M (touch_unit_caps n a s)" by (rule ginv_sframe[OF inv sframe_touch(1)]) simp
    moreover have "node_Capacity n a b (node_use M n) s = (Inr (Fin (node_cap g M n a b)), touch_unit_caps n a s)"
      by (simp add: node_Capacity_def nd node_cap_def n(1) True ok_def)
    ultimately show ?thesis by simp
  next
    case False
    define rs where "rs = map2 ratio (cap_left g M p) (ucaps g n a)"
    have caps_rs: "map2 cap_ratio (cap_left g M p) (ucaps g n a) = map Fin rs"
      unfolding rs_def by (rule map2_cap_ratio[OF us(2)])
    let ?s' = "touch_grp_caps (Some p) (touch_unit_caps n a s)"
    have "length rs = length (ucaps g n a)" using us(1) by (simp add: rs_def)
    then have rs: "rs \<noteq> []" using False by (metis length_0_conv)
    have "ginv eps g M0 M ?s'" by (rule ginv_sframe[OF inv sframe_trans[OF sframe_touch(1) sframe_touch(3)]]) simp
    moreover have "node_Capacity n a b (node_use M n) s = (Inr (Fin (node_cap g M n a b)), ?s')"
      using us(1) False unfolding node_Capacity_def nd(1) deref_simps nd(2,4) Let_def caps caps_rs element_Fin[OF rs]
      by (simp add: nd(3) node_cap_def n(1) Let_def ok_def flip: rs_def)
    ultimately show ?thesis by simp
  qed
qed

lemma arc_Capacity_refines:
  assumes inv: "ginv eps g M0 M s" and wf: "wf_graph g" and a: "good_arc g a"
  shows "\<exists>s'. arc_Capacity a (node_use M (a_unode a)) (node_use M (a_vnode a)) s = (Inr (Fin (arc_cap g M a)), s') \<and>
    ginv eps g M0 M s' \<and> gs_unmatched s' = gs_unmatched s"
proof -
  obtain pu pv where u: "ngroup g (a_unode a) = Some pu" "pu \<in> set (request_groups g @ supply_groups g)"
    "length (ucaps g (a_unode a) a) = length (gcaps g pu)" "\<And>x. x \<in> set (ucaps g (a_unode a) a) \<Longrightarrow> 0 < x"
    and v: "ngroup g (a_vnode a) = Some pv" "pv \<in> set (request_groups g @ supply_groups g)"
    "length (ucaps g (a_vnode a) a) = length (gcaps g pv)" "\<And>x. x \<in> set (ucaps g (a_vnode a) a) \<Longrightarrow> 0 < x"
    by (rule good_arcD[OF a wf]) auto
  obtain s1 where s1: "node_Capacity (a_unode a) a False (node_use M (a_unode a)) s =
      (Inr (Fin (node_cap g M (a_unode a) a False)), s1)" "ginv eps g M0 M s1" "gs_unmatched s1 = gs_unmatched s"
    using node_Capacity_refines[OF inv u] by blast
  obtain s2 where "node_Capacity (a_vnode a) a True (node_use M (a_vnode a)) s1 =
      (Inr (Fin (node_cap g M (a_vnode a) a True)), s2)" "ginv eps g M0 M s2" "gs_unmatched s2 = gs_unmatched s1"
    using node_Capacity_refines[OF s1(2) v] by blast
  with s1 show ?thesis by (simp add: arc_Capacity_def arc_cap_def ok_def)
qed

lemma UpdateCapacity_spec:
  assumes fr: "gframe g (gs_graph s)" and n: "ngroup g n = Some p"
    and caps: "omap_sub [] (gs_grp_caps s) (Some p) = cs" "length (ucaps g n a) = length cs"
    and q: "q \<le> nqty g n + eps"
  shows "\<exists>s'. UpdateCapacity eps n a q s = (Inr (), s') \<and> sframe s s' \<and>
    (\<forall>k. omap_sub [] (gs_grp_caps s') k = (if k = Some p
       then map2 (\<lambda>prev u. if prev = DBL_MAX then DBL_MAX else prev - q * u) cs (ucaps g n a)
       else omap_sub [] (gs_grp_caps s) k))"
proof -
  obtain nd where nd: "gs_node s n = Some nd" "n_group nd = Some p" "n_qty nd = nqty g n"
    "unit_caps_at nd a = ucaps g n a"
    using gframe_nodeD[OF fr n] by metis
  let ?s1 = "touch_grp_caps (Some p) (touch_unit_caps n a s)"
  let ?caps = "map2 (\<lambda>prev u. if prev = DBL_MAX then DBL_MAX else prev - q * u) cs (ucaps g n a)"
  let ?s2 = "gs_grp_caps_update (omap_put (Some p) ?caps) ?s1"
  have "sframe s ?s2"
    by (rule sframe_trans[OF sframe_trans[OF sframe_touch(1) sframe_touch(3)] sframe_touch(4)])
  moreover have "UpdateCapacity eps n a q s = (Inr (), ?s2)"
    using q by (simp add: UpdateCapacity_def nd caps Let_def IsNegative_def ok_def)
  ultimately show ?thesis by (auto simp: touch_grp_caps_def)
qed

lemma abs_amount_bound:
  assumes "ulp_bound eps fdist r" "eps < abs_amount fdist g target a (m, M)"
  shows "0 < min (target - m) (arc_cap g M a)"
    "abs_amount fdist g target a (m, M) \<le> min (target - m) (arc_cap g M a) * (1 + r)"
proof -
  let ?t = "min (target - m) (arc_cap g M a)" and ?q = "abs_amount fdist g target a (m, M)"
  have e: "0 \<le> eps" "0 \<le> r" using assms(1) by (simp_all add: ulp_bound_def)
  show b: "?q \<le> ?t * (1 + r)"
  proof (cases "a_exclusive a")
    case True
    with assms(2) e have "fdist ?t (a_excl_val a) < float_ulp_eq" "?q = a_excl_val a"
      by (auto simp: abs_amount_def Let_def split: if_splits)
    then show ?thesis using assms by (auto simp: ulp_bound_def)
  next
    case False
    then have "?q = ?t" by (simp add: abs_amount_def Let_def)
    then show ?thesis using assms(2) e mult_nonneg_nonneg[of ?t r] by (simp add: algebra_simps)
  qed
  have "0 < ?t * (1 + r)" using b assms(2) e by linarith
  then show "0 < ?t" using e by (simp add: zero_less_mult_iff)
qed

lemma node_cap_le_rest: "ngroup g n = Some p \<Longrightarrow> node_cap g M n a b \<le> nqty g n - node_use M n"
  by (simp add: node_cap_def Let_def)

lemma abs_amount_fits:
  assumes "ulp_bound eps fdist r" "eps < abs_amount fdist g target a (m, M)" "good_matches eps g M"
    and "ngroup g n = Some p" "n = a_unode a \<or> n = a_vnode a"
  shows "abs_amount fdist g target a (m, M) \<le> (nqty g n - node_use M n) * (1 + r)"
    "abs_amount fdist g target a (m, M) \<le> nqty g n * (1 + r)"
proof -
  note b = abs_amount_bound[OF assms(1,2)]
  have e: "0 \<le> eps" "0 \<le> r" using assms(1) by (simp_all add: ulp_bound_def)
  have "arc_cap g M a \<le> nqty g n - node_use M n"
    using assms(5) node_cap_le_rest[OF assms(4), of M a] by (auto simp: arc_cap_def intro: min.coboundedI1 min.coboundedI2)
  then have "min (target - m) (arc_cap g M a) * (1 + r) \<le> (nqty g n - node_use M n) * (1 + r)"
    using e(2) by (intro mult_right_mono) auto
  then show l: "abs_amount fdist g target a (m, M) \<le> (nqty g n - node_use M n) * (1 + r)" using b(2) by linarith
  have "(nqty g n - node_use M n) * (1 + r) \<le> nqty g n * (1 + r)"
    using node_use_nonneg[OF assms(3) e(1), of n] e(2) by (intro mult_right_mono) auto
  then show "abs_amount fdist g target a (m, M) \<le> nqty g n * (1 + r)" using l by linarith
qed

definition lower_caps :: "double \<Rightarrow> double list \<Rightarrow> double list \<Rightarrow> double list" where
  "lower_caps q cs us = map2 (\<lambda>prev u. if prev = DBL_MAX then DBL_MAX else prev - q * u) cs us"

lemma cap_left_snoc:
  assumes wf: "wf_graph g" and M: "good_matches eps g M" "0 \<le> eps" and a: "good_arc g a"
    and p: "p \<in> set (request_groups g @ supply_groups g)"
  shows "cap_left g (M @ [(a, q)]) p =
    (if ngroup g (a_unode a) = Some p then lower_caps q (cap_left g M p) (ucaps g (a_unode a) a)
     else if ngroup g (a_vnode a) = Some p then lower_caps q (cap_left g M p) (ucaps g (a_vnode a) a)
     else cap_left g M p)" (is "_ = ?R")
proof (rule nth_equalityI)
  obtain pu pv where h: "ngroup g (a_unode a) = Some pu" "ngroup g (a_vnode a) = Some pv" "pu \<noteq> pv"
    "length (ucaps g (a_unode a) a) = length (gcaps g pu)" "length (ucaps g (a_vnode a) a) = length (gcaps g pv)"
    by (rule good_arcD[OF a wf])
  then show "length (cap_left g (M @ [(a, q)]) p) = length ?R" by (auto simp: lower_caps_def)
  fix i assume "i < length (cap_left g (M @ [(a, q)]) p)"
  then have i: "i < length (gcaps g p)" by simp
  have "gcaps g p ! i \<le> DBL_MAX" using wf p nth_mem[OF i] by (auto simp: wf_graph_def)
  then have "gcaps g p ! i \<noteq> DBL_MAX \<Longrightarrow> cap_left g M p ! i \<noteq> DBL_MAX"
    using cap_use_nonneg[OF M(1,2) wf i] by (simp add: cap_left_nth[OF i])
  then show "cap_left g (M @ [(a, q)]) p ! i = ?R ! i"
    using h i by (auto simp: cap_left_nth lower_caps_def cap_use_snoc arc_use_def)
qed

lemma sframe_ngroup: "sframe s s' \<Longrightarrow> gframe g (gs_graph s) \<Longrightarrow> gframe g (gs_graph s')"
  by (auto simp: sframe_def intro: gframe_trans)

text \<open>Both capacity updates of a match.\<close>

lemma update_both:
  assumes inv: "ginv eps g M0 M s" and wf: "wf_graph g" and a: "good_arc g a" and e: "0 \<le> eps"
    and q: "q \<le> nqty g (a_unode a) + eps" "q \<le> nqty g (a_vnode a) + eps"
  shows "\<exists>s1 s2. UpdateCapacity eps (a_unode a) a q s = (Inr (), s1) \<and>
    UpdateCapacity eps (a_vnode a) a q s1 = (Inr (), s2) \<and> sframe s s2 \<and>
    (\<forall>p \<in> set (request_groups g @ supply_groups g). omap_sub [] (gs_grp_caps s2) (Some p) = cap_left g (M @ [(a, q)]) p)"
proof -
  obtain pu pv where h: "ngroup g (a_unode a) = Some pu" "pu \<in> set (request_groups g)"
    "ngroup g (a_vnode a) = Some pv" "pv \<in> set (supply_groups g)" "pu \<noteq> pv"
    "length (ucaps g (a_unode a) a) = length (gcaps g pu)" "length (ucaps g (a_vnode a) a) = length (gcaps g pv)"
    by (rule good_arcD[OF a wf])
  have fr: "gframe g (gs_graph s)" and M: "good_matches eps g M"
    and caps: "\<And>p. p \<in> set (request_groups g @ supply_groups g) \<Longrightarrow> omap_sub [] (gs_grp_caps s) (Some p) = cap_left g M p"
    using inv by (simp_all add: ginv_def)
  have "omap_sub [] (gs_grp_caps s) (Some pu) = cap_left g M pu" "length (ucaps g (a_unode a) a) = length (cap_left g M pu)"
    using caps[of pu] h(2,6) by simp_all
  from UpdateCapacity_spec[OF fr h(1) this q(1)] obtain s1
    where s1: "UpdateCapacity eps (a_unode a) a q s = (Inr (), s1)" "sframe s s1"
      "\<And>k. omap_sub [] (gs_grp_caps s1) k = (if k = Some pu then lower_caps q (cap_left g M pu) (ucaps g (a_unode a) a)
         else omap_sub [] (gs_grp_caps s) k)"
    by (auto simp: lower_caps_def)
  have "omap_sub [] (gs_grp_caps s1) (Some pv) = cap_left g M pv" "length (ucaps g (a_vnode a) a) = length (cap_left g M pv)"
    using caps[of pv] h(4,5,7) s1(3)[of "Some pv"] by auto
  from UpdateCapacity_spec[OF sframe_ngroup[OF s1(2) fr] h(3) this q(2)] obtain s2
    where s2: "UpdateCapacity eps (a_vnode a) a q s1 = (Inr (), s2)" "sframe s1 s2"
      "\<And>k. omap_sub [] (gs_grp_caps s2) k = (if k = Some pv then lower_caps q (cap_left g M pv) (ucaps g (a_vnode a) a)
         else omap_sub [] (gs_grp_caps s1) k)"
    by (auto simp: lower_caps_def)
  have "omap_sub [] (gs_grp_caps s2) (Some p) = cap_left g (M @ [(a, q)]) p"
    if "p \<in> set (request_groups g @ supply_groups g)" for p
    using h(1,3,5) s1(3) s2(3) caps[OF that] by (simp add: cap_left_snoc[OF wf M e a that])
  with s1 s2 sframe_trans[OF s1(2) s2(2)] show ?thesis by blast
qed

lemma match_cost_snoc: "match_cost g (M @ [(a, q)]) = match_cost g M + q / npref g (a_unode a) a"
  by (simp add: match_cost_def)

lemma do_match:
  assumes inv: "ginv eps g M0 M s" and wf: "wf_graph g" and a: "good_arc g a" and e: "0 \<le> eps" and "eps < q"
    and q: "q \<le> nqty g (a_unode a) + eps" "q \<le> nqty g (a_vnode a) + eps"
  shows "\<exists>s'. andThen (UpdateCapacity eps (a_unode a) a q s) (\<lambda>_ s3.
      andThen (UpdateCapacity eps (a_vnode a) a q s3) (\<lambda>_ s4.
        let s5 = gs_n_qty_update (\<lambda>m. omap_put (a_unode a) (omap_sub 0 m (a_unode a) + q) m) s4;
            s6 = gs_n_qty_update (\<lambda>m. omap_put (a_vnode a) (omap_sub 0 m (a_vnode a) + q) m) s5;
            s7 = gs_graph_update (AddMatch a q) s6
        in deref (gs_node s7 (a_unode a)) s7 (\<lambda>nd. ok (match + q) (UpdateObj q (pref_at nd a) (touch_pref (a_unode a) a s7)))))
    = (Inr (match + q), s') \<and> ginv eps g M0 (M @ [(a, q)]) s' \<and> gs_unmatched s' = gs_unmatched s"
proof -
  obtain s1 s2 where up: "UpdateCapacity eps (a_unode a) a q s = (Inr (), s1)"
    "UpdateCapacity eps (a_vnode a) a q s1 = (Inr (), s2)" "sframe s s2"
    "\<forall>p \<in> set (request_groups g @ supply_groups g). omap_sub [] (gs_grp_caps s2) (Some p) = cap_left g (M @ [(a, q)]) p"
    using update_both[OF inv wf a e q] by blast
  define s7 where "s7 = gs_graph_update (AddMatch a q)
    (gs_n_qty_update (\<lambda>m. omap_put (a_vnode a) (omap_sub 0 m (a_vnode a) + q) m)
      (gs_n_qty_update (\<lambda>m. omap_put (a_unode a) (omap_sub 0 m (a_unode a) + q) m) s2))"
  have fr: "gframe g (gs_graph s2)" using sframe_ngroup[OF up(3)] inv by (simp add: ginv_def)
  then have fr7: "gframe g (gs_graph s7)" by (simp add: s7_def)
  obtain pu pv where pu: "ngroup g (a_unode a) = Some pu" and ne: "a_unode a \<noteq> a_vnode a"
    by (rule good_arcD[OF a wf])
  obtain nd where nd: "gs_node s7 (a_unode a) = Some nd" "pref_at nd a = npref g (a_unode a) a"
    using gframe_nodeD[OF fr7 pu] by metis
  have pos: "npref g (a_unode a) a \<noteq> 0" using a by (simp add: good_arc_def)
  have touch: "touch_pref (a_unode a) a s7 = s7" by (rule touch_pref_present[OF fr7 pos])
  define s' where "s' = UpdateObj q (npref g (a_unode a) a) s7"
  have "omap_sub 0 (gs_n_qty s7) n = node_use (M @ [(a, q)]) n" for n
    using up(3) inv ne by (auto simp: s7_def sframe_def ginv_def node_use_snoc)
  moreover have "matches (gs_graph s7) = M0 @ M @ [(a, q)]" "good_matches eps g (M @ [(a, q)])"
    "gs_obj s7 = Fin (match_cost g M)" "gs_unmatched s7 = gs_unmatched s"
    using up(3) inv assms(5) a by (auto simp: s7_def sframe_def ginv_def AddMatch_def good_matches_def)
  moreover have "gs_grp_caps s7 = gs_grp_caps s2" by (simp add: s7_def)
  ultimately have "ginv eps g M0 (M @ [(a, q)]) s'" "gs_unmatched s' = gs_unmatched s"
    using up(4) fr7 pos by (simp_all add: ginv_def s'_def UpdateObj_def match_cost_snoc)
  then show ?thesis
    unfolding up(1,2) andThen_simps Let_def s7_def[symmetric] nd(1) deref_simps nd(2) touch s'_def[symmetric]
    by (simp add: ok_def)
qed

lemma try_arc_refines:
  assumes inv: "ginv eps g M0 M s" and wf: "wf_graph g" and ulp: "ulp_bound eps fdist r" and fine: "fine_qty eps r g"
    and a: "good_arc g a"
  shows "\<exists>s'. try_arc eps fdist target a m s = (Inr (fst (abs_try eps fdist g target a (m, M))), s') \<and>
    ginv eps g M0 (snd (abs_try eps fdist g target a (m, M))) s' \<and> gs_unmatched s' = gs_unmatched s"
proof -
  let ?u = "a_unode a" and ?v = "a_vnode a"
  let ?s0 = "touch_qty ?v (touch_qty ?u s)"
  define q where "q = abs_amount fdist g target a (m, M)"
  have e: "0 \<le> eps" "0 \<le> r" using ulp by (simp_all add: ulp_bound_def)
  have use: "omap_sub 0 (gs_n_qty s) n = node_use M n" for n using inv by (simp add: ginv_def)
  have M: "good_matches eps g M" using inv by (simp add: ginv_def)
  have "ginv eps g M0 M ?s0" by (rule ginv_sframe[OF inv sframe_trans[OF sframe_touch(2) sframe_touch(2)]]) simp
  from arc_Capacity_refines[OF this wf a] obtain s1 where
    s1: "arc_Capacity a (node_use M ?u) (node_use M ?v) ?s0 = (Inr (Fin (arc_cap g M a)), s1)" "ginv eps g M0 M s1"
      "gs_unmatched s1 = gs_unmatched s" by auto
  have amount: "(let tomatch = xmin (Fin (target - m)) (Fin (arc_cap g M a))
      in if a_exclusive a then case tomatch of
           Fin t \<Rightarrow> ok (Fin (if fdist t (a_excl_val a) \<ge> float_ulp_eq then 0 else a_excl_val a)) s1
         | _ \<Rightarrow> throw DomainError s1
         else ok tomatch s1) = ok (Fin q) s1"
    by (simp add: q_def abs_amount_def Let_def)
  note unfolded = try_arc_def Let_def[of "target - m"] Let_def[of "a_unode a"] Let_def[of "a_vnode a"]
    Let_def[of ?s0] use s1(1) andThen_simps amount xdouble.case
  show ?thesis
  proof (cases "eps < q")
    case True
    obtain pu pv where h: "ngroup g ?u = Some pu" "ngroup g ?v = Some pv" by (rule good_arcD[OF a wf])
    have fits: "q \<le> nqty g n + eps" if "ngroup g n = Some p" "n = ?u \<or> n = ?v" for n p
    proof -
      have "q \<le> nqty g n * (1 + r)" using abs_amount_fits(2)[OF ulp True[unfolded q_def] M that] by (simp add: q_def)
      moreover have "nqty g n * (1 + r) \<le> nqty g n + eps" using fine by (simp add: fine_qty_def algebra_simps)
      ultimately show ?thesis by linarith
    qed
    have R: "abs_try eps fdist g target a (m, M) = (m + q, M @ [(a, q)])"
      using True by (simp add: abs_try_def Let_def q_def)
    show ?thesis unfolding unfolded R fst_conv snd_conv if_P[OF True] s1(3)[symmetric]
      by (rule do_match[OF s1(2) wf a e(1) True fits[OF h(1)] fits[OF h(2)]]) auto
  next
    case False
    then have "abs_try eps fdist g target a (m, M) = (m, M)" by (simp add: abs_try_def Let_def q_def)
    then show ?thesis unfolding unfolded if_not_P[OF False] using s1(2,3) by (simp add: ok_def)
  qed
qed

lemma arcs_loop_refines:
  assumes "ginv eps g M0 M s" and wf: "wf_graph g" and ulp: "ulp_bound eps fdist r" and fine: "fine_qty eps r g"
    and "\<forall>a \<in> set as. good_arc g a"
  shows "\<exists>s'. arcs_loop eps fdist target as m s = (Inr (fst (abs_arcs eps fdist g target as (m, M))), s') \<and>
    ginv eps g M0 (snd (abs_arcs eps fdist g target as (m, M))) s' \<and> gs_unmatched s' = gs_unmatched s"
  using assms(1,5)
proof (induction as arbitrary: m M s)
  case Nil
  then show ?case by (simp add: ok_def)
next
  case (Cons a as)
  show ?case
  proof (cases "m \<le> target")
    case True
    obtain m' M' where R: "abs_try eps fdist g target a (m, M) = (m', M')" by fastforce
    obtain s1 where s1: "try_arc eps fdist target a m s = (Inr m', s1)" "ginv eps g M0 M' s1" "gs_unmatched s1 = gs_unmatched s"
      using try_arc_refines[OF Cons.prems(1) wf ulp fine, of a target m] Cons.prems(2) by (auto simp: R)
    then show ?thesis using Cons.IH[OF s1(2), of m'] Cons.prems(2) True by (simp add: R)
  next
    case False
    then show ?thesis using Cons.prems(1) by (simp add: ok_def)
  qed
qed

section \<open>Requests, groups, the whole graph\<close>

definition req_arcs :: "graph \<Rightarrow> ptr \<Rightarrow> arc list" where
  "req_arcs g n = (case map_of (node_arc_map g) n of None \<Rightarrow> [] | Some as \<Rightarrow> sort_arcs g as)"

fun abs_reqs :: "double \<Rightarrow> (double \<Rightarrow> double \<Rightarrow> double) \<Rightarrow> graph \<Rightarrow> double \<Rightarrow> ptr list \<Rightarrow> double \<times> match_list \<Rightarrow> double \<times> match_list" where
  "abs_reqs eps fdist g target [] mM = mM"
| "abs_reqs eps fdist g target (n # ns) mM =
     (if fst mM \<le> target then abs_reqs eps fdist g target ns (abs_arcs eps fdist g target (req_arcs g n) mM) else mM)"

definition req_order :: "graph \<Rightarrow> ptr \<Rightarrow> ptr list" where
  "req_order g p = stable_sort (AvgPrefComp g) (gnodes g p)"

definition abs_group :: "double \<Rightarrow> (double \<Rightarrow> double \<Rightarrow> double) \<Rightarrow> graph \<Rightarrow> ptr \<Rightarrow> match_list \<Rightarrow> double \<times> match_list" where
  "abs_group eps fdist g p M = abs_reqs eps fdist g (gtarget g p) (req_order g p) (0, M)"

fun abs_groups :: "double \<Rightarrow> (double \<Rightarrow> double \<Rightarrow> double) \<Rightarrow> graph \<Rightarrow> ptr list \<Rightarrow> double \<times> match_list \<Rightarrow> double \<times> match_list" where
  "abs_groups eps fdist g [] uM = uM"
| "abs_groups eps fdist g (p # ps) (u, M) =
     (case abs_group eps fdist g p M of (m, M') \<Rightarrow> abs_groups eps fdist g ps (u + (gtarget g p - m), M'))"

text \<open>What an assignment leaves of an arc apart from \<open>pref_\<close>.\<close>

definition arc_core :: "arc \<Rightarrow> arc" where
  "arc_core a = a\<lparr>a_pref := 0\<rparr>"

lemma arc_core_assign [simp]: "arc_core (Arc_assign x y) = arc_core y"
  by (simp add: arc_core_def Arc_assign_def)

lemma Arc_assign_self [simp]: "Arc_assign a a = a"
  by (simp add: Arc_assign_def)

lemma sort_arcs_core: "map arc_core (sort_arcs g as) = map arc_core (stable_sort (ReqPrefComp g) as)"
  by (rule nth_equalityI) (auto simp: sort_arcs_def)

lemma sort_arcs_short: "length as < 2 \<Longrightarrow> sort_arcs g as = as"
  by (cases as) (auto simp: sort_arcs_def stable_sort_def)

lemma arc_core_eq: "arc_core a = arc_core b \<Longrightarrow> a_unode a = a_unode b \<and> a_vnode a = a_vnode b \<and>
    a_exclusive a = a_exclusive b \<and> a_excl_val a = a_excl_val b"
  by (cases a; cases b) (simp add: arc_core_def)

lemma good_arc_core: "arc_core a = arc_core b \<Longrightarrow> good_arc g a = good_arc g b"
  by (drule arc_core_eq) (simp add: good_arc_def ucaps_def npref_def unit_caps_at_def pref_at_def arc_key_def split: option.splits)

lemma sort_arcs_memD:
  assumes "a \<in> set (sort_arcs g as)"
  obtains b where "b \<in> set as" "arc_core a = arc_core b"
proof -
  have "arc_core a \<in> set (map arc_core (sort_arcs g as))" using assms by simp
  then have "arc_core a \<in> arc_core ` set as" unfolding sort_arcs_core by simp
  then show thesis using that by auto
qed

lemma req_arcs_good:
  assumes "wf_graph g" "p \<in> set (request_groups g)" "n \<in> set (gnodes g p)" "a \<in> set (req_arcs g n)"
  shows "a_unode a = n \<and> good_arc g a"
proof -
  obtain as where as: "map_of (node_arc_map g) n = Some as" "a \<in> set (sort_arcs g as)"
    using assms(4) by (cases "map_of (node_arc_map g) n") (auto simp: req_arcs_def)
  obtain b where b: "b \<in> set as" "arc_core a = arc_core b" using sort_arcs_memD[OF as(2)] .
  have "a_unode b = n \<and> good_arc g b" using assms(1-3) as(1) b(1) by (auto simp: wf_graph_def)
  then show ?thesis using good_arc_core[OF b(2)] arc_core_eq[OF b(2)] by simp
qed

lemma gperm_attr:
  assumes "gperm g g'" "x_nodes g n = Some nd"
  obtains nd' where "x_nodes g' n = Some nd'" "prefs nd' = prefs nd" "n_agent_id nd' = n_agent_id nd" "n_commod nd' = n_commod nd"
proof -
  have "map_option node_view (x_nodes g' n) = Some (node_view nd)" using assms by (simp add: gperm_def)
  then show thesis using that by (auto simp: node_view_def)
qed

lemma gperm_AvgPrefComp:
  assumes "gperm g g'" "x_nodes g l \<noteq> None" "x_nodes g r \<noteq> None"
  shows "AvgPrefComp g' l r = AvgPrefComp g l r"
proof -
  from assms(2,3) obtain nl nr where n: "x_nodes g l = Some nl" "x_nodes g r = Some nr" by auto
  obtain nl' where l: "x_nodes g' l = Some nl'" "prefs nl' = prefs nl" "n_agent_id nl' = n_agent_id nl"
    using gperm_attr[OF assms(1) n(1)] .
  obtain nr' where r: "x_nodes g' r = Some nr'" "prefs nr' = prefs nr" "n_agent_id nr' = n_agent_id nr"
    using gperm_attr[OF assms(1) n(2)] .
  show ?thesis by (simp add: AvgPrefComp_def AvgPref_def n l r Let_def)
qed

lemma gperm_ReqPrefComp:
  assumes "gperm g g'" "wf_graph g" "good_arc g a" "good_arc g b"
  shows "ReqPrefComp g' a b = ReqPrefComp g a b"
proof -
  obtain au av where a: "x_nodes g (a_unode a) = Some au" "x_nodes g (a_vnode a) = Some av"
    by (rule good_arcD[OF assms(3,2)])
  obtain bu bv where b: "x_nodes g (a_unode b) = Some bu" "x_nodes g (a_vnode b) = Some bv"
    by (rule good_arcD[OF assms(4,2)])
  obtain au' where au: "x_nodes g' (a_unode a) = Some au'" "prefs au' = prefs au" "n_agent_id au' = n_agent_id au"
    using gperm_attr[OF assms(1) a(1)] .
  obtain av' where av: "x_nodes g' (a_vnode a) = Some av'" "n_agent_id av' = n_agent_id av"
    using gperm_attr[OF assms(1) a(2)] .
  obtain bu' where bu: "x_nodes g' (a_unode b) = Some bu'" "prefs bu' = prefs bu" "n_agent_id bu' = n_agent_id bu"
    using gperm_attr[OF assms(1) b(1)] .
  obtain bv' where bv: "x_nodes g' (a_vnode b) = Some bv'" "n_agent_id bv' = n_agent_id bv"
    using gperm_attr[OF assms(1) b(2)] .
  show ?thesis by (simp add: ReqPrefComp_def pref_at_def a b au av bu bv Let_def)
qed

lemma gperm_sort_arcs:
  assumes "gperm g g'" "wf_graph g" "\<forall>a \<in> set as. good_arc g a"
  shows "sort_arcs g' as = sort_arcs g as"
proof -
  have "stable_sort (ReqPrefComp g') as = stable_sort (ReqPrefComp g) as"
    by (rule stable_sort_cong) (use gperm_ReqPrefComp[OF assms(1,2)] assms(3) in blast)
  then show ?thesis by (simp add: sort_arcs_def)
qed

lemma sorted_arcs_refines:
  assumes fr: "gframe g (gs_graph s)" and wf: "wf_graph g" and good: "\<forall>a \<in> set as. good_arc g a"
  shows "sorted_arcs as s = (Inr (sort_arcs g as), s)"
proof -
  have "npref g (a_unode a) a \<noteq> 0" if "a \<in> set as" for a using good that unfolding good_arc_def by fastforce
  then have "touch_pref (a_unode a) a s = s" if "a \<in> set as" for a using touch_pref_present[OF fr] that by blast
  then have touch: "foldl (\<lambda>s a. touch_pref (a_unode a) a s) s as = s" by (induction as) auto
  have "gs_node s (a_unode a) \<noteq> None \<and> gs_node s (a_vnode a) \<noteq> None" if "a \<in> set as" for a
    by (rule good_arcD[OF _ wf, of a]) (use good that gframe_node(1)[OF fr] in auto)
  then have "\<not> list_ex (\<lambda>a. gs_node s (a_unode a) = None \<or> gs_node s (a_vnode a) = None) as"
    by (auto simp: list_ex_iff)
  then show ?thesis
    using sort_arcs_short[of as g] gperm_sort_arcs[OF gframe_gperm[OF fr] wf good] touch
    by (simp add: sorted_arcs_def ok_def)
qed

lemma reqs_loop_refines:
  assumes "ginv eps g M0 M s" and wf: "wf_graph g" and ulp: "ulp_bound eps fdist r" and fine: "fine_qty eps r g"
    and p: "p \<in> set (request_groups g)" and "set ns \<subseteq> set (gnodes g p)"
  shows "\<exists>s'. reqs_loop eps fdist target ns m s = (Inr (fst (abs_reqs eps fdist g target ns (m, M))), s') \<and>
    ginv eps g M0 (snd (abs_reqs eps fdist g target ns (m, M))) s' \<and> gs_unmatched s' = gs_unmatched s"
  using assms(1,6)
proof (induction ns arbitrary: m M s)
  case Nil
  then show ?case by (simp add: ok_def)
next
  case (Cons n ns)
  show ?case
  proof (cases "m \<le> target")
    case True
    have fr: "gframe g (gs_graph s)" using Cons.prems(1) by (simp add: ginv_def)
    have na: "map_of (node_arc_map (gs_graph s)) n = map_of (node_arc_map g) n"
      using fr by (simp add: gframe_def gperm_def)
    have n: "n \<in> set (gnodes g p)" using Cons.prems(2) by simp
    obtain m' M' where R: "abs_arcs eps fdist g target (req_arcs g n) (m, M) = (m', M')" by fastforce
    have good: "\<forall>a \<in> set (req_arcs g n). good_arc g a" using req_arcs_good[OF wf p n] by blast
    obtain s1 where s1: "arcs_loop eps fdist target (req_arcs g n) m s = (Inr m', s1)" "ginv eps g M0 M' s1"
      "gs_unmatched s1 = gs_unmatched s"
      using arcs_loop_refines[OF Cons.prems(1) wf ulp fine good, of target m] by (auto simp: R)
    have "(case map_of (node_arc_map (gs_graph s)) n of None \<Rightarrow> ok m s
        | Some as \<Rightarrow> andThen (sorted_arcs as s) (\<lambda>sorted s1. arcs_loop eps fdist target sorted m s1)) = (Inr m', s1)"
    proof (cases "map_of (node_arc_map g) n")
      case None
      then show ?thesis unfolding na using s1(1) by (simp add: req_arcs_def ok_def)
    next
      case (Some as)
      then have "\<forall>a \<in> set as. good_arc g a" using wf p n by (auto simp: wf_graph_def)
      then show ?thesis unfolding na using s1(1) Some by (simp add: req_arcs_def sorted_arcs_refines[OF fr wf])
    qed
    then show ?thesis using Cons.IH[OF s1(2), of m'] Cons.prems(2) True s1(3) by (simp add: R)
  next
    case False
    then show ?thesis using Cons.prems(1) by (simp add: ok_def)
  qed
qed

text \<open>Sorting the nodes of a group changes the graph only up to order, and none of the abstract
  functions depends on that order.\<close>

lemma gperm_sort_group:
  assumes "x_groups g p = Some gr" "mset ns = mset (g_nodes gr)"
  shows "gperm g (upd_group p (g_nodes_update (\<lambda>_. ns)) g)"
  using assms by (simp add: gperm_def upd_group_def group_view_def)

lemma gperm_abs:
  assumes "gperm g g'"
  shows "arc_use g' = arc_use g" "cap_use g' = cap_use g" "cap_left g' = cap_left g" "node_cap g' = node_cap g"
    "arc_cap g' = arc_cap g" "abs_amount fdist g' = abs_amount fdist g" "abs_try eps fdist g' = abs_try eps fdist g"
    "match_cost g' = match_cost g"
proof -
  note v = gperm_node[OF assms] gperm_group[OF assms]
  show au: "arc_use g' = arc_use g" by (intro ext) (simp add: arc_use_def v)
  show cu: "cap_use g' = cap_use g" by (intro ext) (simp add: cap_use_def au)
  show cl: "cap_left g' = cap_left g" by (intro ext) (simp add: cap_left_def cu v)
  show nc: "node_cap g' = node_cap g" by (intro ext) (simp add: node_cap_def cl v Let_def split: option.splits)
  show ac: "arc_cap g' = arc_cap g" by (intro ext) (simp add: arc_cap_def nc)
  show aa: "abs_amount fdist g' = abs_amount fdist g" by (intro ext) (simp add: abs_amount_def ac)
  show "abs_try eps fdist g' = abs_try eps fdist g" by (intro ext) (simp add: abs_try_def aa)
  show "match_cost g' = match_cost g" by (intro ext) (simp add: match_cost_def v)
qed

lemma gperm_abs_arcs:
  assumes "gperm g g'"
  shows "abs_arcs eps fdist g' target as mM = abs_arcs eps fdist g target as mM"
  by (induction as arbitrary: mM) (simp_all add: gperm_abs[OF assms])

lemma gperm_req_arcs:
  assumes "gperm g g'" "wf_graph g" "p \<in> set (request_groups g)" "n \<in> set (gnodes g p)"
  shows "req_arcs g' n = req_arcs g n"
proof -
  have na: "node_arc_map g' = node_arc_map g" using assms(1) by (simp add: gperm_def)
  have "sort_arcs g' as = sort_arcs g as" if "map_of (node_arc_map g) n = Some as" for as
    by (rule gperm_sort_arcs[OF assms(1,2)]) (use assms(2-4) that in \<open>auto simp: wf_graph_def\<close>)
  then show ?thesis by (simp add: req_arcs_def na split: option.splits)
qed

lemma gperm_abs_reqs:
  assumes "gperm g g'" "wf_graph g" "p \<in> set (request_groups g)" "set ns \<subseteq> set (gnodes g p)"
  shows "abs_reqs eps fdist g' target ns mM = abs_reqs eps fdist g target ns mM"
  using assms(4) by (induction ns arbitrary: mM) (simp_all add: gperm_abs_arcs[OF assms(1)] gperm_req_arcs[OF assms(1-3)])

lemma wf_node_exists:
  assumes "wf_graph g" "p \<in> set (request_groups g)" "n \<in> set (gnodes g p)"
  shows "x_nodes g n \<noteq> None"
proof -
  have "ngroup g n = Some p" using assms by (auto simp: wf_graph_def)
  then show ?thesis by (auto simp: ngroup_def split: option.splits)
qed

lemma gperm_req_order:
  assumes "gperm g g'" "wf_graph g" "p \<in> set (request_groups g)" "x_groups g' p = x_groups g p"
  shows "req_order g' p = req_order g p"
proof -
  have "gnodes g' p = gnodes g p" using assms(4) by (simp add: gnodes_def)
  moreover have "stable_sort (AvgPrefComp g') (gnodes g p) = stable_sort (AvgPrefComp g) (gnodes g p)"
    by (rule stable_sort_cong) (use gperm_AvgPrefComp[OF assms(1)] wf_node_exists[OF assms(2,3)] in blast)
  ultimately show ?thesis by (simp add: req_order_def)
qed

lemma ginv_gperm:
  assumes "gperm g g'" "ginv eps g M0 M s" "gframe g' (gs_graph s')" "matches (gs_graph s') = matches (gs_graph s)"
    "gs_n_qty s' = gs_n_qty s" "gs_grp_caps s' = gs_grp_caps s" "gs_obj s' = gs_obj s"
  shows "ginv eps g' M0 M s'"
proof -
  have "set (request_groups g') = set (request_groups g)" "supply_groups g' = supply_groups g"
    using assms(1) by (auto simp: gperm_def dest: mset_eq_setD)
  then show ?thesis using assms(2-7)
    by (simp add: ginv_def good_matches_def gperm_good_arc[OF assms(1)] gperm_abs[OF assms(1)])
qed

lemma wf_group_exists: "wf_graph g \<Longrightarrow> p \<in> set (request_groups g @ supply_groups g) \<Longrightarrow> \<exists>gr. x_groups g p = Some gr"
  unfolding wf_graph_def by blast

lemma GreedilySatisfySet_refines:
  assumes inv: "ginv eps g M0 M s" and wf: "wf_graph g" and ulp: "ulp_bound eps fdist r" and fine: "fine_qty eps r g"
    and p: "p \<in> set (request_groups g)"
  shows "\<exists>s' g'. GreedilySatisfySet eps fdist p s = (Inr (), s') \<and> gperm g g' \<and>
    (\<forall>x. x \<noteq> p \<longrightarrow> x_groups g' x = x_groups g x) \<and> request_groups g' = request_groups g \<and>
    ginv eps g' M0 (snd (abs_group eps fdist g p M)) s' \<and>
    gs_unmatched s' = gs_unmatched s + (gtarget g p - fst (abs_group eps fdist g p M))"
proof -
  have fr: "gframe g (gs_graph s)" using inv by (simp add: ginv_def)
  obtain gr where gr: "x_groups g p = Some gr" using wf_group_exists[OF wf] p by auto
  then have nodes: "gnodes g p = g_nodes gr" "gtarget g p = g_qty gr" by (simp_all add: gnodes_def gtarget_def)
  define ns where "ns = req_order g p"
  define g' where "g' = upd_group p (g_nodes_update (\<lambda>_. ns)) g"
  have gp: "gperm g g'" unfolding g'_def by (rule gperm_sort_group[OF gr]) (simp add: ns_def req_order_def nodes)
  have ex: "\<And>n. n \<in> set (g_nodes gr) \<Longrightarrow> gs_node s n \<noteq> None"
    using wf_node_exists[OF wf p] gframe_node(1)[OF fr] nodes by simp
  have sort: "stable_sort (AvgPrefComp (gs_graph s)) (g_nodes gr) = ns"
    using gperm_req_order[OF gframe_gperm[OF fr] wf p] fr nodes(1) gr
    by (simp add: ns_def req_order_def gframe_def gnodes_def)
  define s1 where "s1 = gs_graph_update (upd_group p (g_nodes_update (\<lambda>_. ns))) s"
  have fr1: "gframe g' (gs_graph s1)"
    using fr by (auto simp: gframe_def gperm_def g'_def s1_def upd_group_def)
  have inv1: "ginv eps g' M0 M s1"
    by (rule ginv_gperm[OF gp inv fr1]) (simp_all add: s1_def upd_group_def)
  have wf': "wf_graph g'" using gperm_wf[OF gp wf] .
  have fine': "fine_qty eps r g'" using fine by (simp add: fine_qty_def gperm_node[OF gp])
  have p': "p \<in> set (request_groups g')" using p gp by (auto simp: gperm_def dest: mset_eq_setD)
  have ns': "set ns \<subseteq> set (gnodes g' p)" "set ns \<subseteq> set (gnodes g p)"
    using gr by (simp_all add: g'_def gnodes_def upd_group_def ns_def req_order_def)
  have abs: "abs_reqs eps fdist g' (g_qty gr) ns (0, M) = abs_group eps fdist g p M"
    unfolding gperm_abs_reqs[OF gp wf p ns'(2)] by (simp add: abs_group_def nodes ns_def)
  obtain s2 where s2: "reqs_loop eps fdist (g_qty gr) ns 0 s1 = (Inr (fst (abs_group eps fdist g p M)), s2)"
    "ginv eps g' M0 (snd (abs_group eps fdist g p M)) s2" "gs_unmatched s2 = gs_unmatched s1"
    using reqs_loop_refines[OF inv1 wf' ulp fine' p' ns'(1), of "g_qty gr" 0] by (auto simp: abs)
  define s3 where "s3 = gs_unmatched_update (\<lambda>x. x + (g_qty gr - fst (abs_group eps fdist g p M))) s2"
  have "GreedilySatisfySet eps fdist p s = (Inr (), s3)"
    using ex fr gr by (auto simp: GreedilySatisfySet_def list_ex_iff gframe_def sort Let_def s2(1) s3_def ok_def simp flip: s1_def)
  moreover have "ginv eps g' M0 (snd (abs_group eps fdist g p M)) s3" using s2(2) by (simp add: s3_def ginv_def)
  moreover have "gs_unmatched s3 = gs_unmatched s + (gtarget g p - fst (abs_group eps fdist g p M))"
    by (simp add: s3_def s2(3) s1_def nodes)
  moreover have "\<forall>x. x \<noteq> p \<longrightarrow> x_groups g' x = x_groups g x" "request_groups g' = request_groups g"
    by (simp_all add: g'_def upd_group_def)
  ultimately show ?thesis using gp by blast
qed

lemma gperm_abs_group:
  assumes "gperm g g'" "wf_graph g" "p \<in> set (request_groups g)" "x_groups g' p = x_groups g p"
  shows "abs_group eps fdist g' p M = abs_group eps fdist g p M"
proof -
  have "set (req_order g p) \<subseteq> set (gnodes g p)" by (simp add: req_order_def)
  then show ?thesis using gperm_abs_reqs[OF assms(1-3)]
    by (simp add: abs_group_def gperm_req_order[OF assms] gperm_group[OF assms(1)])
qed

lemma gperm_abs_groups:
  assumes "gperm g g'" "wf_graph g" "set ps \<subseteq> set (request_groups g)" "\<forall>p \<in> set ps. x_groups g' p = x_groups g p"
  shows "abs_groups eps fdist g' ps uM = abs_groups eps fdist g ps uM"
  using assms(3,4)
proof (induction ps arbitrary: uM)
  case (Cons p ps)
  then show ?case
    by (cases uM) (simp add: gperm_abs_group[OF assms(1,2)] gperm_group[OF assms(1)] split: prod.splits)
qed simp

lemma groups_loop_refines:
  assumes "ginv eps g M0 M s" "wf_graph g" "ulp_bound eps fdist r" "fine_qty eps r g"
    "set ps \<subseteq> set (request_groups g)" "distinct ps"
  shows "\<exists>s' g'. foreach (GreedilySatisfySet eps fdist) ps s = (Inr (), s') \<and> gperm g g' \<and>
    request_groups g' = request_groups g \<and>
    ginv eps g' M0 (snd (abs_groups eps fdist g ps (gs_unmatched s, M))) s' \<and>
    gs_unmatched s' = fst (abs_groups eps fdist g ps (gs_unmatched s, M))"
  using assms
proof (induction ps arbitrary: g M s)
  case Nil
  then show ?case by (auto simp: ok_def intro: exI[of _ g])
next
  case (Cons p ps)
  obtain m M' where R: "abs_group eps fdist g p M = (m, M')" by fastforce
  from Cons.prems have p: "p \<in> set (request_groups g)" by simp
  from GreedilySatisfySet_refines[OF Cons.prems(1-4) p] R obtain s1 g1 where
    s1: "GreedilySatisfySet eps fdist p s = (Inr (), s1)" "gperm g g1" "\<forall>x. x \<noteq> p \<longrightarrow> x_groups g1 x = x_groups g x"
      "request_groups g1 = request_groups g" "ginv eps g1 M0 M' s1" "gs_unmatched s1 = gs_unmatched s + (gtarget g p - m)"
    by auto
  have h: "wf_graph g1" "fine_qty eps r g1" "set ps \<subseteq> set (request_groups g1)" "distinct ps"
    using gperm_wf[OF s1(2)] Cons.prems s1(4) by (auto simp: fine_qty_def gperm_node[OF s1(2)])
  obtain s' g' where s': "foreach (GreedilySatisfySet eps fdist) ps s1 = (Inr (), s')" "gperm g1 g'"
    "request_groups g' = request_groups g1" "ginv eps g' M0 (snd (abs_groups eps fdist g1 ps (gs_unmatched s1, M'))) s'"
    "gs_unmatched s' = fst (abs_groups eps fdist g1 ps (gs_unmatched s1, M'))"
    using Cons.IH[OF s1(5) h(1) Cons.prems(3) h(2-4)] by blast
  have "abs_groups eps fdist g1 ps (gs_unmatched s1, M') = abs_groups eps fdist g ps (gs_unmatched s1, M')"
    by (rule gperm_abs_groups[OF s1(2) Cons.prems(2)]) (use Cons.prems s1(3) in auto)
  then have "abs_groups eps fdist g (p # ps) (gs_unmatched s, M) = abs_groups eps fdist g1 ps (gs_unmatched s1, M')"
    by (simp add: R s1(6))
  then show ?case using s' s1(1,4) gperm_trans[OF s1(2) s'(2)] by auto
qed

lemma GetCaps_loop:
  assumes "\<forall>p \<in> set ps. x_groups (gs_graph s) p \<noteq> None"
  shows "\<exists>s'. foreach GetCaps ps s = (Inr (), s') \<and> gs_graph s' = gs_graph s \<and> gs_obj s' = gs_obj s \<and>
    gs_unmatched s' = gs_unmatched s \<and> gs_cond s' = gs_cond s \<and>
    ((\<forall>n. omap_sub 0 (gs_n_qty s) n = 0) \<longrightarrow> (\<forall>n. omap_sub 0 (gs_n_qty s') n = 0)) \<and>
    (\<forall>p. omap_sub [] (gs_grp_caps s') (Some p) = (if p \<in> set ps then gcaps (gs_graph s) p else omap_sub [] (gs_grp_caps s) (Some p)))"
  using assms
proof (induction ps arbitrary: s)
  case Nil
  then show ?case by (simp add: ok_def)
next
  case (Cons p ps)
  from Cons.prems obtain gr where gr: "x_groups (gs_graph s) p = Some gr" by auto
  define s1 where "s1 = s\<lparr>gs_n_qty := foldl (\<lambda>m n. omap_put n 0 m) (gs_n_qty s) (g_nodes gr),
    gs_grp_caps := omap_put (Some p) (g_capacities gr) (gs_grp_caps s)\<rparr>"
  have get: "GetCaps p s = (Inr (), s1)" using gr by (simp add: GetCaps_def s1_def ok_def)
  have zero: "(\<forall>n. omap_sub 0 m n = 0) \<Longrightarrow> omap_sub 0 (foldl (\<lambda>m n. omap_put n 0 m) m xs) n = (0 :: double)" for m xs n
    by (induction xs arbitrary: m) auto
  have s1: "gs_graph s1 = gs_graph s" "gs_obj s1 = gs_obj s" "gs_unmatched s1 = gs_unmatched s" "gs_cond s1 = gs_cond s"
    "\<And>x. omap_sub [] (gs_grp_caps s1) (Some x) = (if x = p then gcaps (gs_graph s) p else omap_sub [] (gs_grp_caps s) (Some x))"
    using gr by (simp_all add: s1_def gcaps_def)
  have z1: "(\<forall>n. omap_sub 0 (gs_n_qty s) n = 0) \<Longrightarrow> (\<forall>n. omap_sub 0 (gs_n_qty s1) n = 0)"
    using zero[of "gs_n_qty s"] by (simp add: s1_def)
  have "\<forall>p \<in> set ps. x_groups (gs_graph s1) p \<noteq> None" using Cons.prems s1(1) by simp
  from Cons.IH[OF this] obtain s' where "foreach GetCaps ps s1 = (Inr (), s')" "gs_graph s' = gs_graph s1"
    "gs_obj s' = gs_obj s1" "gs_unmatched s' = gs_unmatched s1" "gs_cond s' = gs_cond s1"
    "(\<forall>n. omap_sub 0 (gs_n_qty s1) n = 0) \<longrightarrow> (\<forall>n. omap_sub 0 (gs_n_qty s') n = 0)"
    "\<forall>p. omap_sub [] (gs_grp_caps s') (Some p) =
       (if p \<in> set ps then gcaps (gs_graph s1) p else omap_sub [] (gs_grp_caps s1) (Some p))" by blast
  with s1 z1 show ?case by (intro exI[of _ s']) (simp add: get)
qed

lemma cap_left_Nil: "cap_left g [] p = gcaps g p"
  by (rule nth_equalityI) (auto simp: cap_left_nth)

lemma Init_refines:
  assumes "wf_graph (gs_graph s)" "gs_n_qty s = []" "gs_obj s = Fin 0"
  shows "\<exists>s'. Init s = (Inr (), s') \<and> gs_graph s' = gs_graph s \<and> gs_unmatched s' = gs_unmatched s \<and>
    ginv eps (gs_graph s) (matches (gs_graph s)) [] s'"
proof -
  have ex: "\<forall>p \<in> set (request_groups (gs_graph s) @ supply_groups (gs_graph s)). x_groups (gs_graph s) p \<noteq> None"
    using wf_group_exists[OF assms(1)] by blast
  then have "\<forall>p \<in> set (request_groups (gs_graph s)). x_groups (gs_graph s) p \<noteq> None" by simp
  from GetCaps_loop[OF this] obtain s1 where s1: "foreach GetCaps (request_groups (gs_graph s)) s = (Inr (), s1)"
    "gs_graph s1 = gs_graph s" "gs_obj s1 = gs_obj s" "gs_unmatched s1 = gs_unmatched s"
    "\<forall>n. omap_sub 0 (gs_n_qty s1) n = 0"
    "\<forall>p. omap_sub [] (gs_grp_caps s1) (Some p) = (if p \<in> set (request_groups (gs_graph s)) then gcaps (gs_graph s) p
       else omap_sub [] (gs_grp_caps s) (Some p))"
    using assms(2) by (auto simp: omap_sub_def)
  have "\<forall>p \<in> set (supply_groups (gs_graph s1)). x_groups (gs_graph s1) p \<noteq> None" using ex s1(2) by simp
  from GetCaps_loop[OF this] obtain s2 where s2: "foreach GetCaps (supply_groups (gs_graph s1)) s1 = (Inr (), s2)"
    "gs_graph s2 = gs_graph s1" "gs_obj s2 = gs_obj s1" "gs_unmatched s2 = gs_unmatched s1"
    "\<forall>n. omap_sub 0 (gs_n_qty s2) n = 0"
    "\<forall>p. omap_sub [] (gs_grp_caps s2) (Some p) = (if p \<in> set (supply_groups (gs_graph s1)) then gcaps (gs_graph s1) p
       else omap_sub [] (gs_grp_caps s1) (Some p))"
    using s1(5) by auto
  have "ginv eps (gs_graph s) (matches (gs_graph s)) [] s2"
    using s1 s2 assms(3) by (auto simp: ginv_def good_matches_def cap_left_Nil match_cost_def)
  then show ?thesis using s1 s2 by (simp add: Init_def)
qed

lemma those_nodes:
  "\<forall>n \<in> set ns. x_nodes g n \<noteq> None \<Longrightarrow>
   \<exists>nodes. those (map (\<lambda>n. map_option (Pair n) (x_nodes g n)) ns) = Some nodes \<and> map fst nodes = ns"
  by (induction ns) auto

lemma condition_loop:
  assumes "wf_graph g" "set ps \<subseteq> set (request_groups g)"
  shows "\<exists>c' g'. foreach condition_group ps (c, g) = (Inr (), (c', g')) \<and> gperm g g' \<and>
    request_groups g' = request_groups g \<and> matches g' = matches g \<and> arcs g' = arcs g"
  using assms
proof (induction ps arbitrary: c g)
  case Nil
  then show ?case by (simp add: ok_def)
next
  case (Cons p ps)
  from Cons.prems have p: "p \<in> set (request_groups g)" by simp
  obtain gr where gr: "x_groups g p = Some gr" using wf_group_exists[OF Cons.prems(1)] p by auto
  have "\<forall>n \<in> set (g_nodes gr). x_nodes g n \<noteq> None"
    using wf_node_exists[OF Cons.prems(1) p] gr by (simp add: gnodes_def)
  from those_nodes[OF this] obtain nodes where
    nodes: "those (map (\<lambda>n. map_option (Pair n) (x_nodes g n)) (g_nodes gr)) = Some nodes" "map fst nodes = g_nodes gr"
    by blast
  have "\<exists>c1 ns. condition_group p (c, g) = (Inr (), (c1, upd_group p (g_nodes_update (\<lambda>_. ns)) g)) \<and> mset ns = mset (g_nodes gr)"
    unfolding condition_group_def prod.case gr deref_simps nodes(1) Let_def ok_def
    by (intro exI conjI, rule refl) (simp add: nodes(2)[symmetric])
  then obtain c1 ns g1 where step: "condition_group p (c, g) = (Inr (), (c1, g1))"
    and g1: "mset ns = mset (g_nodes gr)" "g1 = upd_group p (g_nodes_update (\<lambda>_. ns)) g" by blast
  have gp: "gperm g g1" unfolding g1(2) by (rule gperm_sort_group[OF gr g1(1)])
  have same: "request_groups g1 = request_groups g" "matches g1 = matches g" "arcs g1 = arcs g"
    by (simp_all add: g1(2) upd_group_def)
  have "wf_graph g1" "set ps \<subseteq> set (request_groups g1)" using gperm_wf[OF gp Cons.prems(1)] Cons.prems(2) same(1) by auto
  from Cons.IH[OF this, of c1] same gperm_trans[OF gp] show ?case by (auto simp: step)
qed

lemma greedy_Condition_refines:
  assumes "wf_graph (gs_graph s)"
  shows "\<exists>s1. greedy_Condition s = (Inr (), s1) \<and> gperm (gs_graph s) (gs_graph s1) \<and>
    matches (gs_graph s1) = matches (gs_graph s)"
proof (cases "gs_cond s")
  case None
  then show ?thesis by (simp add: greedy_Condition_def ok_def gperm_def)
next
  case (Some c)
  obtain c' g' where l: "foreach condition_group (request_groups (gs_graph s)) (c\<lparr>avg_prefs := []\<rparr>, gs_graph s) = (Inr (), (c', g'))"
    "gperm (gs_graph s) g'" "matches g' = matches (gs_graph s)"
    using condition_loop[OF assms order_refl] by blast
  then show ?thesis by (simp add: greedy_Condition_def Some Condition_def ok_def) (simp add: gperm_def)
qed

text \<open>The whole solver.\<close>

lemma SolveGraph_refines:
  assumes wf: "wf_graph (gs_graph s)" and ulp: "ulp_bound eps fdist r" and fine: "fine_qty eps r (gs_graph s)"
  shows "\<exists>g' s' u M. gperm (gs_graph s) g' \<and> abs_groups eps fdist g' (request_groups g') (0, []) = (u, M) \<and>
    SolveGraph eps fdist s = (Inr (gs_obj s'), s') \<and> matches (gs_graph s') = matches (gs_graph s) @ M \<and>
    good_matches eps g' M \<and> gs_unmatched s' = u \<and>
    gs_obj s' = xadd (Fin (match_cost g' M)) (xmul (Fin u) (PseudoCost (gs_exclusive_orders s) (gs_graph s)))"
proof -
  obtain s1 where s1: "greedy_Condition s = (Inr (), s1)" "gperm (gs_graph s) (gs_graph s1)"
    "matches (gs_graph s1) = matches (gs_graph s)"
    using greedy_Condition_refines[OF wf] by blast
  define s1' where "s1' = s1\<lparr>gs_obj := Fin 0, gs_unmatched := 0, gs_n_qty := []\<rparr>"
  have g1: "gs_graph s1' = gs_graph s1" by (simp add: s1'_def)
  have wf1: "wf_graph (gs_graph s1)" and fine1: "fine_qty eps r (gs_graph s1)"
    using gperm_wf[OF s1(2) wf] fine by (simp_all add: fine_qty_def gperm_node[OF s1(2)])
  have pre: "wf_graph (gs_graph s1')" "gs_n_qty s1' = []" "gs_obj s1' = Fin 0" using wf1 by (simp_all add: s1'_def)
  obtain s2 where s2: "Init s1' = (Inr (), s2)" "gs_graph s2 = gs_graph s1" "gs_unmatched s2 = 0"
    "ginv eps (gs_graph s1) (matches (gs_graph s)) [] s2"
    using Init_refines[OF pre, of eps] s1(3) by (auto simp: g1) (simp add: s1'_def)
  have d: "distinct (request_groups (gs_graph s1))" using wf1 by (simp add: wf_graph_def)
  obtain s3 g3 where s3: "foreach (GreedilySatisfySet eps fdist) (request_groups (gs_graph s2)) s2 = (Inr (), s3)"
    "gperm (gs_graph s1) g3"
    "ginv eps g3 (matches (gs_graph s)) (snd (abs_groups eps fdist (gs_graph s1) (request_groups (gs_graph s1)) (0, []))) s3"
    "gs_unmatched s3 = fst (abs_groups eps fdist (gs_graph s1) (request_groups (gs_graph s1)) (0, []))"
    using groups_loop_refines[OF s2(4) wf1 ulp fine1 order_refl d] s2(2,3) by auto
  obtain u M where uM: "abs_groups eps fdist (gs_graph s1) (request_groups (gs_graph s1)) (0, []) = (u, M)" by fastforce
  let ?pc = "PseudoCost (gs_exclusive_orders s) (gs_graph s)"
  let ?s4 = "gs_obj_update (\<lambda>x. xadd x (xmul (Fin (gs_unmatched s3)) ?pc)) s3"
  have "SolveGraph eps fdist s = (Inr (gs_obj ?s4), ?s4)"
    unfolding SolveGraph_def s1(1) andThen_simps s1'_def[symmetric] s2(1) s3(1) Let_def ok_def ..
  moreover have "good_matches eps (gs_graph s1) M"
    using s3(3) gperm_good_arc[OF s3(2)] by (auto simp: ginv_def uM good_matches_def)
  moreover have "gs_obj s3 = Fin (match_cost (gs_graph s1) M)" "matches (gs_graph s3) = matches (gs_graph s) @ M"
    using s3(3) by (simp_all add: ginv_def uM gperm_abs[OF s3(2)])
  ultimately show ?thesis using s1(2) uM s3(4)
    by (intro exI[of _ "gs_graph s1"] exI[of _ ?s4] exI[of _ u] exI[of _ M]) simp
qed

end
