(* ===== verification/Greedy_Correct.thy ===== *)
theory Greedy_Correct
  imports Greedy_Refinement
begin

text \<open>
  What the greedy solver guarantees on a well-formed graph: it never throws, never exceeds the
  capacities of suppliers, the quantities of nodes or the demand of a request group (up to the
  rounding of the exclusivity test), accounts for all unmet demand, and leaves no arc that could
  still carry more than the smallest matched amount.
\<close>

section \<open>Invariants of the abstract run\<close>

lemma abs_arcs_inv:
  assumes "\<And>m M a. a \<in> set as \<Longrightarrow> P (m, M) \<Longrightarrow> P (abs_try eps fdist g target a (m, M))" "P mM"
  shows "P (abs_arcs eps fdist g target as mM)"
  using assms
proof (induction as arbitrary: mM)
  case (Cons a as)
  have "P (abs_try eps fdist g target a mM)" using Cons.prems(1)[of a "fst mM" "snd mM"] Cons.prems(2) by simp
  then show ?case using Cons by simp
qed simp

lemma abs_reqs_inv:
  assumes "\<And>m M a. a \<in> (\<Union>n \<in> set ns. set (req_arcs g n)) \<Longrightarrow> P (m, M) \<Longrightarrow> P (abs_try eps fdist g target a (m, M))"
    and "P mM"
  shows "P (abs_reqs eps fdist g target ns mM)"
  using assms
proof (induction ns arbitrary: mM)
  case (Cons n ns)
  have "P (abs_arcs eps fdist g target (req_arcs g n) mM)"
    by (rule abs_arcs_inv) (use Cons.prems in auto)
  then show ?case using Cons by simp
qed simp

lemma abs_group_inv:
  assumes "wf_graph g" "p \<in> set (request_groups g)"
    and "\<And>m M a. good_arc g a \<Longrightarrow> ngroup g (a_unode a) = Some p \<Longrightarrow> P (m, M) \<Longrightarrow> P (abs_try eps fdist g (gtarget g p) a (m, M))"
    and "P (0, M)"
  shows "P (abs_group eps fdist g p M)"
  unfolding abs_group_def
proof (rule abs_reqs_inv[where P = P, OF _ assms(4)])
  fix m M a assume "a \<in> (\<Union>n \<in> set (req_order g p). set (req_arcs g n))" and "P (m, M)"
  then obtain n where n: "n \<in> set (gnodes g p)" "a \<in> set (req_arcs g n)" by (auto simp: req_order_def)
  have "ngroup g n = Some p" using assms(1,2) n(1) by (auto simp: wf_graph_def)
  then show "P (abs_try eps fdist g (gtarget g p) a (m, M))"
    using req_arcs_good[OF assms(1,2) n] \<open>P (m, M)\<close> assms(3) by auto
qed

lemma abs_groups_inv:
  assumes wf: "wf_graph g" and "set ps \<subseteq> set (request_groups g)"
    and step: "\<And>t m M a. good_arc g a \<Longrightarrow> P M \<Longrightarrow> P (snd (abs_try eps fdist g t a (m, M)))" and "P M"
  shows "P (snd (abs_groups eps fdist g ps (u, M)))"
  using assms(2,4)
proof (induction ps arbitrary: u M)
  case (Cons p ps)
  have "P (snd (abs_group eps fdist g p M))"
    by (rule abs_group_inv[where P = "\<lambda>x. P (snd x)", OF wf]) (use Cons.prems step in auto)
  then show ?case using Cons by (auto split: prod.splits)
qed simp

section \<open>Limits\<close>

lemma good_matches_try:
  "good_matches eps g M \<Longrightarrow> good_arc g a \<Longrightarrow> good_matches eps g (snd (abs_try eps fdist g t a (m, M)))"
  by (auto simp: abs_try_def Let_def good_matches_def)

definition within_nodes :: "double \<Rightarrow> graph \<Rightarrow> match_list \<Rightarrow> bool" where
  "within_nodes r g M \<longleftrightarrow> (\<forall>n. node_use M n \<le> nqty g n * (1 + r))"

definition within_caps :: "double \<Rightarrow> graph \<Rightarrow> match_list \<Rightarrow> bool" where
  "within_caps r g M \<longleftrightarrow> (\<forall>p \<in> set (supply_groups g). \<forall>i < length (gcaps g p). gcaps g p ! i \<noteq> DBL_MAX \<longrightarrow>
     cap_use g M p i \<le> gcaps g p ! i * (1 + r))"

lemma within_nodes_try:
  assumes wf: "wf_graph g" and ulp: "ulp_bound eps fdist r" and M: "good_matches eps g M" and a: "good_arc g a"
    and "within_nodes r g M"
  shows "within_nodes r g (snd (abs_try eps fdist g t a (m, M)))"
proof (cases "eps < abs_amount fdist g t a (m, M)")
  case True
  let ?q = "abs_amount fdist g t a (m, M)"
  obtain pu pv where h: "ngroup g (a_unode a) = Some pu" "ngroup g (a_vnode a) = Some pv" "a_unode a \<noteq> a_vnode a"
    by (rule good_arcD[OF a wf])
  have e: "0 \<le> eps" "0 \<le> r" using ulp by (simp_all add: ulp_bound_def)
  have "node_use M n + ?q \<le> nqty g n * (1 + r)" if n: "ngroup g n = Some p" "n = a_unode a \<or> n = a_vnode a" for n p
  proof -
    have "?q \<le> (nqty g n - node_use M n) * (1 + r)" by (rule abs_amount_fits(1)[OF ulp True M n])
    moreover have "0 \<le> node_use M n * r" using node_use_nonneg[OF M e(1)] e(2) by simp
    ultimately show ?thesis by (simp add: algebra_simps)
  qed
  from this[OF h(1)] this[OF h(2)] show ?thesis
    using assms(5) True h(3) by (auto simp: abs_try_def Let_def within_nodes_def node_use_snoc)
next
  case False
  then show ?thesis using assms(5) by (simp add: abs_try_def Let_def)
qed

lemma node_cap_le_ratio:
  assumes "ngroup g n = Some p" "i < length (ucaps g n a)" "length (ucaps g n a) = length (gcaps g p)"
  shows "node_cap g M n a True \<le> ratio (cap_left g M p ! i) (ucaps g n a ! i)"
proof -
  have "(cap_left g M p ! i, ucaps g n a ! i) \<in> set (zip (cap_left g M p) (ucaps g n a))"
    using assms(2,3) by (auto simp: set_zip)
  then have "ratio (cap_left g M p ! i) (ucaps g n a ! i) \<in> set (map2 ratio (cap_left g M p) (ucaps g n a))" by force
  then have "Min (set (map2 ratio (cap_left g M p) (ucaps g n a))) \<le> ratio (cap_left g M p ! i) (ucaps g n a ! i)"
    by (intro Min_le) auto
  then show ?thesis using assms(1,2) by (auto simp: node_cap_def Let_def intro: min.coboundedI1)
qed

lemma within_caps_try:
  assumes wf: "wf_graph g" and ulp: "ulp_bound eps fdist r" and M: "good_matches eps g M" and a: "good_arc g a"
    and "within_caps r g M"
  shows "within_caps r g (snd (abs_try eps fdist g t a (m, M)))"
proof (cases "eps < abs_amount fdist g t a (m, M)")
  case True
  let ?q = "abs_amount fdist g t a (m, M)"
  obtain pu pv where h: "ngroup g (a_unode a) = Some pu" "pu \<in> set (request_groups g)"
    "ngroup g (a_vnode a) = Some pv" "pu \<noteq> pv" "length (ucaps g (a_vnode a) a) = length (gcaps g pv)"
    "\<And>x. x \<in> set (ucaps g (a_vnode a) a) \<Longrightarrow> 0 < x" "pv \<in> set (supply_groups g)"
    by (rule good_arcD[OF a wf]) blast
  have e: "0 \<le> eps" "0 \<le> r" using ulp by (simp_all add: ulp_bound_def)
  note b = abs_amount_bound[OF ulp True]
  have new: "cap_use g M pv i + ?q * ucaps g (a_vnode a) a ! i \<le> gcaps g pv ! i * (1 + r)"
    if i: "i < length (gcaps g pv)" "gcaps g pv ! i \<noteq> DBL_MAX" for i
  proof -
    let ?u = "ucaps g (a_vnode a) a ! i" and ?left = "gcaps g pv ! i - cap_use g M pv i"
    have u: "0 < ?u" using i(1) h(5,6) by simp
    have "gcaps g pv ! i \<le> DBL_MAX" and use: "0 \<le> cap_use g M pv i"
      using wf h(7) nth_mem[OF i(1)] cap_use_nonneg[OF M e(1) wf i(1)] by (auto simp: wf_graph_def)
    then have "ratio (cap_left g M pv ! i) ?u = ?left / ?u" using i by (simp add: ratio_def cap_left_nth)
    then have "min (t - m) (arc_cap g M a) \<le> ?left / ?u"
      using node_cap_le_ratio[OF h(3) _ h(5), of i M] i(1) h(5) by (auto simp: arc_cap_def)
    then have "?q \<le> ?left / ?u * (1 + r)" using b(2) e(2) mult_right_mono[of _ "?left / ?u" "1 + r"] by fastforce
    then have "?q * ?u \<le> ?left * (1 + r)" using u by (simp add: field_simps)
    moreover have "0 \<le> cap_use g M pv i * r" using use e(2) by simp
    ultimately show ?thesis by (simp add: algebra_simps)
  qed
  have "cap_use g (M @ [(a, ?q)]) p i \<le> gcaps g p ! i * (1 + r)"
    if p: "p \<in> set (supply_groups g)" "i < length (gcaps g p)" "gcaps g p ! i \<noteq> DBL_MAX" for p i
  proof -
    have "pu \<noteq> p" using p(1) h(2) wf by (auto simp: wf_graph_def)
    then have "arc_use g p i a = (if p = pv then ucaps g (a_vnode a) a ! i else 0)" using h(1,3) by (simp add: arc_use_def)
    then show ?thesis using new p assms(5) by (auto simp: cap_use_snoc within_caps_def)
  qed
  then show ?thesis using True by (simp add: abs_try_def Let_def within_caps_def)
next
  case False
  then show ?thesis using assms(5) by (simp add: abs_try_def Let_def)
qed

section \<open>Demand\<close>

definition group_sum :: "graph \<Rightarrow> match_list \<Rightarrow> ptr \<Rightarrow> double" where
  "group_sum g M p = sum_list (map (\<lambda>(a, q). if ngroup g (a_unode a) = Some p then q else 0) M)"

lemma group_sum_Nil [simp]: "group_sum g [] p = 0"
  by (simp add: group_sum_def)

lemma group_sum_snoc: "group_sum g (M @ [(a, q)]) p = group_sum g M p + (if ngroup g (a_unode a) = Some p then q else 0)"
  by (simp add: group_sum_def)

definition positive_targets :: "graph \<Rightarrow> bool" where
  "positive_targets g \<longleftrightarrow> (\<forall>p \<in> set (request_groups g). 0 \<le> gtarget g p)"

lemma abs_group_sum:
  assumes wf: "wf_graph g" and p: "p \<in> set (request_groups g)" and ulp: "ulp_bound eps fdist r" and "0 \<le> gtarget g p"
  shows "(\<forall>x. group_sum g (snd (abs_group eps fdist g p M)) x = group_sum g M x + (if x = p then fst (abs_group eps fdist g p M) else 0)) \<and>
    0 \<le> fst (abs_group eps fdist g p M) \<and> fst (abs_group eps fdist g p M) \<le> gtarget g p * (1 + r)"
proof (rule abs_group_inv[where P = "\<lambda>(m, M'). (\<forall>x. group_sum g M' x = group_sum g M x + (if x = p then m else 0)) \<and>
    0 \<le> m \<and> m \<le> gtarget g p * (1 + r)", OF wf p, simplified case_prod_beta])
  have e: "0 \<le> eps" "0 \<le> r" using ulp by (simp_all add: ulp_bound_def)
  fix m M1 and a :: arc
  assume a: "ngroup g (a_unode a) = Some p"
    and inv: "(\<forall>x. group_sum g (snd (m, M1)) x = group_sum g M x + (if x = p then fst (m, M1) else 0)) \<and>
      0 \<le> fst (m, M1) \<and> fst (m, M1) \<le> gtarget g p * (1 + r)"
  let ?q = "abs_amount fdist g (gtarget g p) a (m, M1)" and ?R = "abs_try eps fdist g (gtarget g p) a (m, M1)"
  show "(\<forall>x. group_sum g (snd ?R) x = group_sum g M x + (if x = p then fst ?R else 0)) \<and> 0 \<le> fst ?R \<and> fst ?R \<le> gtarget g p * (1 + r)"
  proof (cases "eps < ?q")
    case True
    have "?q \<le> min (gtarget g p - m) (arc_cap g M1 a) * (1 + r)" by (rule abs_amount_bound(2)[OF ulp True])
    also have "\<dots> \<le> (gtarget g p - m) * (1 + r)" using e(2) by (intro mult_right_mono) auto
    finally have "?q \<le> (gtarget g p - m) * (1 + r)" .
    moreover have "0 \<le> m * r" using inv e(2) by simp
    ultimately have "m + ?q \<le> gtarget g p * (1 + r)" by (simp add: algebra_simps)
    then show ?thesis using True inv a e(1) by (simp add: abs_try_def Let_def group_sum_snoc)
  qed (use inv in \<open>simp add: abs_try_def Let_def\<close>)
qed (use assms(4) ulp in \<open>simp add: ulp_bound_def\<close>)

lemma abs_groups_sum:
  assumes wf: "wf_graph g" and ulp: "ulp_bound eps fdist r" and "set ps \<subseteq> set (request_groups g)" "distinct ps"
    "\<forall>p \<in> set ps. 0 \<le> gtarget g p" "abs_groups eps fdist g ps (u, M) = (u', M')"
  shows "(\<forall>x. x \<notin> set ps \<longrightarrow> group_sum g M' x = group_sum g M x) \<and>
    (\<forall>p \<in> set ps. group_sum g M p \<le> group_sum g M' p \<and> group_sum g M' p - group_sum g M p \<le> gtarget g p * (1 + r)) \<and>
    u' = u + sum_list (map (\<lambda>p. gtarget g p - (group_sum g M' p - group_sum g M p)) ps)"
  using assms(3-6)
proof (induction ps arbitrary: u M)
  case (Cons p ps)
  obtain m M1 where R: "abs_group eps fdist g p M = (m, M1)" by fastforce
  from Cons.prems have p: "p \<in> set (request_groups g)" "0 \<le> gtarget g p" by simp_all
  have s1: "group_sum g M1 x = group_sum g M x + (if x = p then m else 0)" "0 \<le> m" "m \<le> gtarget g p * (1 + r)" for x
    using abs_group_sum[OF wf p(1) ulp p(2), of M] by (simp_all add: R)
  have "abs_groups eps fdist g ps (u + (gtarget g p - m), M1) = (u', M')" using Cons.prems(4) by (simp add: R)
  then have IH: "\<forall>x. x \<notin> set ps \<longrightarrow> group_sum g M' x = group_sum g M1 x"
    "\<forall>p \<in> set ps. group_sum g M1 p \<le> group_sum g M' p \<and> group_sum g M' p - group_sum g M1 p \<le> gtarget g p * (1 + r)"
    "u' = u + (gtarget g p - m) + sum_list (map (\<lambda>p. gtarget g p - (group_sum g M' p - group_sum g M1 p)) ps)"
    using Cons.IH[of "u + (gtarget g p - m)" M1] Cons.prems by auto
  have np: "p \<notin> set ps" using Cons.prems(2) by simp
  then have same: "map (\<lambda>p. gtarget g p - (group_sum g M' p - group_sum g M1 p)) ps =
      map (\<lambda>p. gtarget g p - (group_sum g M' p - group_sum g M p)) ps" using s1(1) by auto
  have p': "group_sum g M' p = group_sum g M p + m" using IH(1) np s1(1)[of p] by simp
  have "group_sum g M1 x = group_sum g M x" if "x \<noteq> p" for x using s1(1)[of x] that by simp
  then have "\<forall>x. x \<notin> set (p # ps) \<longrightarrow> group_sum g M' x = group_sum g M x"
    "\<forall>x \<in> set ps. group_sum g M x \<le> group_sum g M' x \<and> group_sum g M' x - group_sum g M x \<le> gtarget g x * (1 + r)"
    using IH(1,2) np by (auto, metis+)
  then show ?case using IH(3)[unfolded same] p' s1(2,3) by simp
qed simp

text \<open>The facts every property of the solver starts from.\<close>

lemma solve_facts:
  assumes wf: "wf_graph (gs_graph s)" and ulp: "ulp_bound eps fdist r" and fine: "fine_qty eps r (gs_graph s)"
    and "positive_targets (gs_graph s)"
  obtains s' u M where "SolveGraph eps fdist s = (Inr (gs_obj s'), s')" "matches (gs_graph s') = matches (gs_graph s) @ M"
    "good_matches eps (gs_graph s) M" "within_nodes r (gs_graph s) M" "within_caps r (gs_graph s) M"
    "\<forall>p \<in> set (request_groups (gs_graph s)). group_sum (gs_graph s) M p \<le> gtarget (gs_graph s) p * (1 + r)"
    "gs_unmatched s' = sum_list (map (\<lambda>p. gtarget (gs_graph s) p - group_sum (gs_graph s) M p) (request_groups (gs_graph s)))"
    "gs_obj s' = xadd (Fin (match_cost (gs_graph s) M))
       (xmul (Fin (gs_unmatched s')) (PseudoCost (gs_exclusive_orders s) (gs_graph s)))"
proof -
  obtain g' s' u M where h: "gperm (gs_graph s) g'" "abs_groups eps fdist g' (request_groups g') (0, []) = (u, M)"
    "SolveGraph eps fdist s = (Inr (gs_obj s'), s')" "matches (gs_graph s') = matches (gs_graph s) @ M"
    "good_matches eps g' M" "gs_unmatched s' = u"
    "gs_obj s' = xadd (Fin (match_cost g' M)) (xmul (Fin u) (PseudoCost (gs_exclusive_orders s) (gs_graph s)))"
    using SolveGraph_refines[OF wf ulp fine] by blast
  let ?g = "gs_graph s"
  note v = gperm_node[OF h(1)] gperm_group[OF h(1)] gperm_good_arc[OF h(1)] gperm_abs[OF h(1)]
  have r: "mset (request_groups g') = mset (request_groups ?g)" "supply_groups g' = supply_groups ?g"
    using h(1) by (simp_all add: gperm_def)
  have rs: "set (request_groups g') = set (request_groups ?g)" using r(1) by (metis mset_eq_setD)
  have wf': "wf_graph g'" by (rule gperm_wf[OF h(1) wf])
  have gs: "group_sum g' = group_sum ?g" by (intro ext) (simp add: group_sum_def v)
  have e: "0 \<le> eps" "0 \<le> r" using ulp by (simp_all add: ulp_bound_def)
  have "0 \<le> c" if "p \<in> set (supply_groups g')" "c \<in> set (gcaps g' p)" for p c
    using wf' that by (auto simp: wf_graph_def)
  then have "0 \<le> gcaps g' p ! i" if "p \<in> set (supply_groups g')" "i < length (gcaps g' p)" for p i
    using that nth_mem by blast
  moreover have "0 \<le> nqty g' n" for n using wf' by (simp add: wf_graph_def)
  ultimately have init: "good_matches eps g' [] \<and> within_nodes r g' [] \<and> within_caps r g' []"
    using e by (simp add: good_matches_def within_nodes_def within_caps_def)
  have "good_matches eps g' M \<and> within_nodes r g' M \<and> within_caps r g' M"
    using abs_groups_inv[where P = "\<lambda>M. good_matches eps g' M \<and> within_nodes r g' M \<and> within_caps r g' M"
        and u = 0, OF wf' order_refl _ init, of eps fdist]
      good_matches_try within_nodes_try[OF wf' ulp] within_caps_try[OF wf' ulp] h(2) by (metis snd_conv)
  then have w: "within_nodes r ?g M" "within_caps r ?g M" "good_matches eps ?g M"
    by (simp_all add: within_nodes_def within_caps_def good_matches_def v r(2))
  have "distinct (request_groups g')" "\<forall>p \<in> set (request_groups g'). 0 \<le> gtarget g' p"
    using wf' assms(4) rs by (simp_all add: wf_graph_def positive_targets_def v)
  from abs_groups_sum[OF wf' ulp order_refl this h(2)]
  have "\<forall>p \<in> set (request_groups ?g). group_sum ?g M p \<le> gtarget ?g p * (1 + r)"
    "u = sum_list (map (\<lambda>p. gtarget ?g p - group_sum ?g M p) (request_groups g'))"
    by (simp_all add: gs v rs)
  moreover have "sum_list (map (\<lambda>p. gtarget ?g p - group_sum ?g M p) (request_groups g')) =
      sum_list (map (\<lambda>p. gtarget ?g p - group_sum ?g M p) (request_groups ?g))"
    by (rule sum_list_map_mset[OF r(1)])
  ultimately show thesis using that[OF h(3,4) w(3,1,2)] h(6,7) by (simp add: v)
qed

section \<open>Exhaustion\<close>

lemma cap_left_snoc_nth:
  assumes "i < length (gcaps g p)"
  shows "cap_left g (M @ [(b, q)]) p ! i = (if gcaps g p ! i = DBL_MAX then DBL_MAX else cap_left g M p ! i - q * arc_use g p i b)"
  using assms by (simp add: cap_left_nth cap_use_snoc)

text \<open>Each ratio of a group's remaining capacity to a unit capacity can only go down, and is
  lowered by the matched amount on the matched arc itself.\<close>

lemma ratio_step:
  assumes wf: "wf_graph g" and M: "good_matches eps g M" "0 \<le> eps" and b: "good_arc g b" "0 \<le> q"
    and p: "p \<in> set (request_groups g @ supply_groups g)" "i < length (gcaps g p)" and u: "0 < u"
  shows "ratio (cap_left g (M @ [(b, q)]) p ! i) u \<le> ratio (cap_left g M p ! i) u"
    "arc_use g p i b = u \<Longrightarrow> ratio (cap_left g M p ! i) u < DBL_MAX \<Longrightarrow>
       ratio (cap_left g (M @ [(b, q)]) p ! i) u = ratio (cap_left g M p ! i) u - q"
proof -
  let ?C = "gcaps g p ! i"
  have C: "?C \<le> DBL_MAX" using wf p(1) nth_mem[OF p(2)] by (auto simp: wf_graph_def)
  have use: "0 \<le> cap_use g M p i" "0 \<le> q * arc_use g p i b"
    using cap_use_nonneg[OF M wf p(2)] arc_use_nonneg[OF b(1) wf p(2)] b(2) by simp_all
  note l = cap_left_snoc_nth[OF p(2)] cap_left_nth[OF p(2)]
  have ne: "?C - cap_use g M p i \<noteq> DBL_MAX" "?C - cap_use g M p i - q * arc_use g p i b \<noteq> DBL_MAX" if "?C \<noteq> DBL_MAX"
    using C use that by auto
  show "ratio (cap_left g (M @ [(b, q)]) p ! i) u \<le> ratio (cap_left g M p ! i) u"
    using use(2) u ne by (cases "?C = DBL_MAX") (auto simp: ratio_def l cap_use_snoc divide_right_mono)
  assume a: "arc_use g p i b = u" "ratio (cap_left g M p ! i) u < DBL_MAX"
  then have "?C \<noteq> DBL_MAX" by (auto simp: ratio_def l)
  then show "ratio (cap_left g (M @ [(b, q)]) p ! i) u = ratio (cap_left g M p ! i) u - q"
    using ne u a(1) by (simp add: ratio_def l cap_use_snoc field_simps)
qed

definition ratios :: "graph \<Rightarrow> match_list \<Rightarrow> ptr \<Rightarrow> double list \<Rightarrow> double list" where
  "ratios g M p us = map2 ratio (cap_left g M p) us"

lemma node_cap_ratios:
  "ngroup g n = Some p \<Longrightarrow> node_cap g M n a b =
     (if ucaps g n a = [] then nqty g n - node_use M n
      else min ((if b then Min else Max) (set (ratios g M p (ucaps g n a)))) (nqty g n - node_use M n))"
  by (simp add: node_cap_def ratios_def Let_def)

lemma extremes_mono:
  fixes xs ys :: "double list"
  assumes "length xs = length ys" "xs \<noteq> []" "\<And>i. i < length xs \<Longrightarrow> ys ! i \<le> xs ! i"
  shows "Min (set ys) \<le> Min (set xs)" "Max (set ys) \<le> Max (set xs)"
proof -
  have ne: "ys \<noteq> []" using assms(1,2) by auto
  have "Min (set xs) \<in> set xs" using assms(2) by (intro Min_in) auto
  then obtain i where i: "i < length xs" "xs ! i = Min (set xs)" by (auto simp: in_set_conv_nth)
  have "Min (set ys) \<le> ys ! i" using i(1) assms(1) by (intro Min_le) auto
  also have "\<dots> \<le> Min (set xs)" using assms(3)[OF i(1)] i(2) by simp
  finally show "Min (set ys) \<le> Min (set xs)" .
  have "Max (set ys) \<in> set ys" using ne by (intro Max_in) auto
  then obtain j where j: "j < length ys" "ys ! j = Max (set ys)" by (auto simp: in_set_conv_nth)
  have "Max (set ys) \<le> xs ! j" using assms(1,3) j by force
  also have "\<dots> \<le> Max (set xs)" using j(1) assms(1) by (intro Max_ge) auto
  finally show "Max (set ys) \<le> Max (set xs)" .
qed

lemma extremes_shift:
  fixes xs ys :: "double list"
  assumes len: "length xs = length ys" "xs \<noteq> []" and low: "\<And>i. i < length xs \<Longrightarrow> xs ! i < R \<Longrightarrow> ys ! i = xs ! i - q"
  shows "Min (set xs) < R \<Longrightarrow> Min (set ys) \<le> Min (set xs) - q" "Max (set xs) < R \<Longrightarrow> Max (set ys) \<le> Max (set xs) - q"
proof -
  have ne: "ys \<noteq> []" using len by auto
  assume r: "Min (set xs) < R"
  have "Min (set xs) \<in> set xs" using len(2) by (intro Min_in) auto
  then obtain i where i: "i < length xs" "xs ! i = Min (set xs)" by (auto simp: in_set_conv_nth)
  have "Min (set ys) \<le> ys ! i" using i(1) len(1) by (intro Min_le) auto
  then show "Min (set ys) \<le> Min (set xs) - q" using low[OF i(1)] i(2) r by simp
next
  have ne: "ys \<noteq> []" using len by auto
  assume r: "Max (set xs) < R"
  have "Max (set ys) \<in> set ys" using ne by (intro Max_in) auto
  then obtain j where j: "j < length ys" "ys ! j = Max (set ys)" by (auto simp: in_set_conv_nth)
  have x: "xs ! j \<le> Max (set xs)" using j(1) len(1) by (intro Max_ge) auto
  then have "xs ! j < R" using r by linarith
  then have "ys ! j = xs ! j - q" using low[of j] j(1) len(1) by simp
  then show "Max (set ys) \<le> Max (set xs) - q" using j(2) x by simp
qed

lemma node_use_mono: "0 \<le> q \<Longrightarrow> node_use M n \<le> node_use (M @ [(b, q)]) n"
  by (simp add: node_use_snoc)

lemma min_shift: "(x < c \<Longrightarrow> y \<le> x - q) \<Longrightarrow> min y (c - q) \<le> min x c - q" for x y c q :: double
  by (cases "x < c") auto

lemma node_cap_step:
  assumes wf: "wf_graph g" and M: "good_matches eps g M" "0 \<le> eps" and b: "good_arc g b" "0 \<le> q"
    and n: "ngroup g n = Some p" "p \<in> set (request_groups g @ supply_groups g)"
    and us: "length (ucaps g n a) = length (gcaps g p)" "\<And>x. x \<in> set (ucaps g n a) \<Longrightarrow> 0 < x"
  shows "node_cap g (M @ [(b, q)]) n a k \<le> node_cap g M n a k"
    "node_use (M @ [(b, q)]) n = node_use M n + q \<Longrightarrow> (\<And>i. i < length (gcaps g p) \<Longrightarrow> arc_use g p i b = ucaps g n a ! i) \<Longrightarrow>
       node_cap g (M @ [(b, q)]) n a k \<le> node_cap g M n a k - q"
proof -
  let ?us = "ucaps g n a" and ?M = "M @ [(b, q)]"
  let ?xs = "ratios g M p ?us" and ?ys = "ratios g ?M p ?us"
  have len: "length ?xs = length ?ys" "length ?xs = length ?us" using us(1) by (simp_all add: ratios_def)
  have nth: "?xs ! i = ratio (cap_left g M p ! i) (?us ! i)" "?ys ! i = ratio (cap_left g ?M p ! i) (?us ! i)" "0 < ?us ! i"
    if "i < length ?us" for i using that us by (simp_all add: ratios_def)
  note step = ratio_step[OF wf M b n(2)]
  have le: "?ys ! i \<le> ?xs ! i" if "i < length ?xs" for i
    using step(1)[of i "?us ! i"] nth[of i] that len us(1) by simp
  show "node_cap g ?M n a k \<le> node_cap g M n a k"
  proof (cases "?us = []")
    case False
    then have "?xs \<noteq> []" using len(2) by auto
    then have "(if k then Min else Max) (set ?ys) \<le> (if k then Min else Max) (set ?xs)"
      using extremes_mono[OF len(1) _ le] by auto
    then show ?thesis using node_use_mono[OF b(2), of M n b] False by (simp add: node_cap_ratios[OF n(1)] min.coboundedI1 min.coboundedI2)
  qed (use node_use_mono[OF b(2), of M n b] in \<open>simp add: node_cap_ratios[OF n(1)]\<close>)
  assume use: "node_use ?M n = node_use M n + q" and own: "\<And>i. i < length (gcaps g p) \<Longrightarrow> arc_use g p i b = ?us ! i"
  let ?rest = "nqty g n - node_use M n"
  have rest: "?rest \<le> DBL_MAX" using node_use_nonneg[OF M, of n] wf by (simp add: wf_graph_def add_increasing2 diff_le_eq)
  have shift: "?ys ! i = ?xs ! i - q" if "i < length ?xs" "?xs ! i < ?rest" for i
    using step(2)[of i "?us ! i"] nth[of i] own[of i] that len(2) us(1) rest by simp
  show "node_cap g ?M n a k \<le> node_cap g M n a k - q"
  proof (cases "?us = []")
    case False
    then have ne: "?xs \<noteq> []" using len(2) by auto
    let ?F = "(if k then Min else Max) :: double set \<Rightarrow> double"
    have "?F (set ?xs) < ?rest \<Longrightarrow> ?F (set ?ys) \<le> ?F (set ?xs) - q"
      using extremes_shift[OF len(1) ne shift] by (cases k) simp_all
    then have "min (?F (set ?ys)) (?rest - q) \<le> min (?F (set ?xs)) ?rest - q" by (rule min_shift)
    then show ?thesis unfolding node_cap_ratios[OF n(1)] use if_not_P[OF False] by (simp only: diff_diff_eq)
  qed (simp add: node_cap_ratios[OF n(1)] use)
qed

lemma arc_cap_mono:
  assumes wf: "wf_graph g" and M: "good_matches eps g M" "0 \<le> eps" and b: "good_arc g b" "0 \<le> q" and a: "good_arc g a"
  shows "arc_cap g (M @ [(b, q)]) a \<le> arc_cap g M a"
proof -
  obtain pu pv where u: "ngroup g (a_unode a) = Some pu" "pu \<in> set (request_groups g @ supply_groups g)"
    "length (ucaps g (a_unode a) a) = length (gcaps g pu)" "\<And>x. x \<in> set (ucaps g (a_unode a) a) \<Longrightarrow> 0 < x"
    and v: "ngroup g (a_vnode a) = Some pv" "pv \<in> set (request_groups g @ supply_groups g)"
    "length (ucaps g (a_vnode a) a) = length (gcaps g pv)" "\<And>x. x \<in> set (ucaps g (a_vnode a) a) \<Longrightarrow> 0 < x"
    by (rule good_arcD[OF a wf]) auto
  show ?thesis
    using node_cap_step(1)[OF wf M b u, of False] node_cap_step(1)[OF wf M b v, of True] by (auto simp: arc_cap_def)
qed

lemma arc_cap_own:
  assumes wf: "wf_graph g" and M: "good_matches eps g M" "0 \<le> eps" and a: "good_arc g a" "0 \<le> q"
  shows "arc_cap g (M @ [(a, q)]) a \<le> arc_cap g M a - q"
proof -
  obtain pu pv where h: "ngroup g (a_unode a) = Some pu" "pu \<in> set (request_groups g @ supply_groups g)"
    "length (ucaps g (a_unode a) a) = length (gcaps g pu)" "\<And>x. x \<in> set (ucaps g (a_unode a) a) \<Longrightarrow> 0 < x"
    "ngroup g (a_vnode a) = Some pv" "pv \<in> set (request_groups g @ supply_groups g)"
    "length (ucaps g (a_vnode a) a) = length (gcaps g pv)" "\<And>x. x \<in> set (ucaps g (a_vnode a) a) \<Longrightarrow> 0 < x"
    "pu \<noteq> pv" "a_unode a \<noteq> a_vnode a"
    by (rule good_arcD[OF a(1) wf]) auto
  have "node_cap g (M @ [(a, q)]) (a_unode a) a False \<le> node_cap g M (a_unode a) a False - q"
    by (rule node_cap_step(2)[OF wf M a h(1-4)]) (use h in \<open>simp_all add: node_use_snoc arc_use_def\<close>)
  moreover have "node_cap g (M @ [(a, q)]) (a_vnode a) a True \<le> node_cap g M (a_vnode a) a True - q"
    by (rule node_cap_step(2)[OF wf M a h(5-8)]) (use h in \<open>simp_all add: node_use_snoc arc_use_def\<close>)
  ultimately show ?thesis by (simp add: arc_cap_def min_def)
qed

text \<open>\<open>spent\<close>: arc \<open>a\<close> cannot carry more than \<open>eps\<close> of the demand that is left.\<close>

definition spent :: "double \<Rightarrow> graph \<Rightarrow> double \<Rightarrow> arc \<Rightarrow> double \<times> match_list \<Rightarrow> bool" where
  "spent eps g target a = (\<lambda>(m, M). min (target - m) (arc_cap g M a) \<le> eps)"

lemma spent_step:
  assumes wf: "wf_graph g" and M: "good_matches eps g M" "0 \<le> eps" and b: "good_arc g b" and a: "good_arc g a"
    and "spent eps g target a (m, M)"
  shows "spent eps g target a (abs_try eps fdist g t b (m, M))"
proof (cases "eps < abs_amount fdist g t b (m, M)")
  case True
  let ?q = "abs_amount fdist g t b (m, M)"
  have "arc_cap g (M @ [(b, ?q)]) a \<le> arc_cap g M a"
    by (rule arc_cap_mono[OF wf M b _ a]) (use True M(2) in simp)
  then show ?thesis using assms(6) True M(2) by (auto simp: spent_def abs_try_def Let_def min_le_iff_disj)
next
  case False
  then show ?thesis using assms(6) by (simp add: abs_try_def Let_def)
qed

lemma spent_own:
  assumes wf: "wf_graph g" and M: "good_matches eps g M" "0 \<le> eps" and a: "good_arc g a" "\<not> a_exclusive a"
  shows "spent eps g target a (abs_try eps fdist g target a (m, M))"
proof (cases "eps < abs_amount fdist g target a (m, M)")
  case True
  let ?q = "abs_amount fdist g target a (m, M)"
  have q: "?q = min (target - m) (arc_cap g M a)" using a(2) by (simp add: abs_amount_def Let_def)
  have "arc_cap g (M @ [(a, ?q)]) a \<le> arc_cap g M a - ?q"
    by (rule arc_cap_own[OF wf M a(1)]) (use True M(2) in simp)
  then have "min (target - (m + ?q)) (arc_cap g (M @ [(a, ?q)]) a) \<le> 0" using q by (auto simp: min_le_iff_disj min_def)
  then show ?thesis using True M(2) by (auto simp: spent_def abs_try_def Let_def)
next
  case False
  then show ?thesis using a(2) by (auto simp: spent_def abs_try_def abs_amount_def Let_def)
qed

definition spent_state :: "double \<Rightarrow> graph \<Rightarrow> double \<Rightarrow> arc \<Rightarrow> double \<times> match_list \<Rightarrow> bool" where
  "spent_state eps g target a mM \<longleftrightarrow> good_matches eps g (snd mM) \<and> spent eps g target a mM"

lemma spent_state_step:
  "wf_graph g \<Longrightarrow> 0 \<le> eps \<Longrightarrow> good_arc g a \<Longrightarrow> good_arc g b \<Longrightarrow> spent_state eps g target a (m, M) \<Longrightarrow>
   spent_state eps g target a (abs_try eps fdist g t b (m, M))"
  unfolding spent_state_def using spent_step good_matches_try by fastforce

lemma spent_over: "target < fst mM \<Longrightarrow> 0 \<le> eps \<Longrightarrow> spent eps g target a mM"
  by (cases mM) (simp add: spent_def min_le_iff_disj)

lemma abs_arcs_spent:
  assumes wf: "wf_graph g" and e: "0 \<le> eps" and "\<forall>a \<in> set as. good_arc g a" "good_matches eps g (snd mM)"
    and "a \<in> set as" "\<not> a_exclusive a"
  shows "spent_state eps g target a (abs_arcs eps fdist g target as mM)"
  using assms(3-5)
proof (induction as arbitrary: mM)
  case (Cons b as)
  obtain m M where mM: "mM = (m, M)" by fastforce
  have M: "good_matches eps g M" using Cons.prems(2) by (simp add: mM)
  show ?case
  proof (cases "m \<le> target")
    case True
    have good: "good_matches eps g (snd (abs_try eps fdist g target b mM))"
      using good_matches_try[OF M, of b] Cons.prems(1) by (simp add: mM)
    show ?thesis
    proof (cases "a = b")
      case ab: True
      have "spent_state eps g target a (abs_try eps fdist g target b mM)"
        using good spent_own[OF wf M e, of a] Cons.prems(1) ab assms(6) by (simp add: spent_state_def mM)
      then have "spent_state eps g target a (abs_arcs eps fdist g target as (abs_try eps fdist g target b mM))"
        by (rule abs_arcs_inv[rotated]) (use spent_state_step[OF wf e] Cons.prems(1) ab in auto)
      then show ?thesis using True by (simp add: mM)
    next
      case False
      then show ?thesis using Cons.IH[OF _ good] Cons.prems True by (simp add: mM)
    qed
  next
    case False
    then show ?thesis using M spent_over[of target mM eps g a] e by (simp add: spent_state_def mM)
  qed
qed simp

lemma abs_reqs_spent:
  assumes wf: "wf_graph g" and e: "0 \<le> eps" and p: "p \<in> set (request_groups g)"
    and "set ns \<subseteq> set (gnodes g p)" "good_matches eps g (snd mM)" "n \<in> set ns" "a \<in> set (req_arcs g n)" "\<not> a_exclusive a"
  shows "spent_state eps g target a (abs_reqs eps fdist g target ns mM)"
  using assms(4-6)
proof (induction ns arbitrary: mM)
  case (Cons k ns)
  show ?case
  proof (cases "fst mM \<le> target")
    case True
    let ?mM = "abs_arcs eps fdist g target (req_arcs g k) mM"
    have arcs: "\<forall>a \<in> set (req_arcs g x). good_arc g a" if "x \<in> set (k # ns)" for x
      using req_arcs_good[OF wf p] Cons.prems(1) that by blast
    have good: "good_matches eps g (snd ?mM)"
      by (rule abs_arcs_inv[where P = "\<lambda>x. good_matches eps g (snd x)"]) (use good_matches_try arcs[of k] Cons.prems(2) in auto)
    show ?thesis
    proof (cases "n = k")
      case nk: True
      have "spent_state eps g target a ?mM"
        by (rule abs_arcs_spent[OF wf e]) (use arcs[of k] Cons.prems(2) nk assms(7,8) in auto)
      moreover have a: "good_arc g a" using arcs[of k] nk assms(7) by simp
      moreover have "good_arc g b" if "b \<in> (\<Union>x \<in> set ns. set (req_arcs g x))" for b
        using arcs that by auto
      ultimately have "spent_state eps g target a (abs_reqs eps fdist g target ns ?mM)"
        using abs_reqs_inv[where P = "spent_state eps g target a" and ns = ns and mM = ?mM] spent_state_step[OF wf e a] by simp
      then show ?thesis using True by simp
    next
      case False
      then show ?thesis using Cons.IH[OF _ good] Cons.prems True by simp
    qed
  next
    case False
    then show ?thesis using Cons.prems(2) spent_over[of target mM eps g a] e by (simp add: spent_state_def)
  qed
qed simp

lemma arc_cap_try:
  assumes "wf_graph g" "good_matches eps g M" "0 \<le> eps" "good_arc g b" "good_arc g a" "arc_cap g M a \<le> c"
  shows "arc_cap g (snd (abs_try eps fdist g t b (m, M))) a \<le> c"
  using arc_cap_mono[OF assms(1-4) _ assms(5), of "abs_amount fdist g t b (m, M)"] assms(3,6)
  by (auto simp: abs_try_def Let_def)

lemma abs_groups_spent:
  assumes wf: "wf_graph g" and ulp: "ulp_bound eps fdist r" and "set ps \<subseteq> set (request_groups g)" "distinct ps"
    "\<forall>p \<in> set ps. 0 \<le> gtarget g p" "good_matches eps g M" "abs_groups eps fdist g ps (u, M) = (u', M')"
    and "p \<in> set ps" and n: "n \<in> set (gnodes g p)" "a \<in> set (req_arcs g n)" "\<not> a_exclusive a"
  shows "min (gtarget g p - (group_sum g M' p - group_sum g M p)) (arc_cap g M' a) \<le> eps"
  using assms(3-8)
proof (induction ps arbitrary: u M)
  case (Cons k ps)
  have e: "0 \<le> eps" using ulp by (simp add: ulp_bound_def)
  obtain m M1 where R: "abs_group eps fdist g k M = (m, M1)" by fastforce
  from Cons.prems have k: "k \<in> set (request_groups g)" "0 \<le> gtarget g k" by simp_all
  have rest: "abs_groups eps fdist g ps (u + (gtarget g k - m), M1) = (u', M')" using Cons.prems(5) by (simp add: R)
  have M1: "good_matches eps g M1"
    using abs_group_inv[where P = "\<lambda>x. good_matches eps g (snd x)", OF wf k(1), of eps fdist M]
      good_matches_try Cons.prems(4) by (simp add: R)
  have sums: "group_sum g M1 x = group_sum g M x + (if x = k then m else 0)" for x
    using abs_group_sum[OF wf k(1) ulp k(2), of M] by (simp add: R)
  have tail: "x \<notin> set ps \<Longrightarrow> group_sum g M' x = group_sum g M1 x" for x
    using abs_groups_sum[OF wf ulp _ _ _ rest] Cons.prems by auto
  show ?case
  proof (cases "p = k")
    case True
    have np: "p \<notin> set ps" using Cons.prems(2) True by simp
    have good: "good_arc g a" using req_arcs_good[OF wf k(1) n(1)[unfolded True] n(2)] by simp
    have "spent_state eps g (gtarget g k) a (m, M1)"
      using abs_reqs_spent[OF wf e k(1), of "req_order g k" "(0, M)" n a "gtarget g k" fdist] n True Cons.prems(4) R
      by (simp add: abs_group_def req_order_def)
    then have sp: "min (gtarget g k - m) (arc_cap g M1 a) \<le> eps" by (simp add: spent_state_def spent_def)
    have "good_matches eps g M' \<and> arc_cap g M' a \<le> arc_cap g M1 a"
      using abs_groups_inv[where P = "\<lambda>X. good_matches eps g X \<and> arc_cap g X a \<le> arc_cap g M1 a", OF wf, of ps eps fdist M1
          "u + (gtarget g k - m)"] M1 Cons.prems(1) arc_cap_try[OF wf _ e _ good] good_matches_try rest by auto
    then show ?thesis using sp tail[OF np] sums[of p] True by (auto simp: min_le_iff_disj)
  next
    case False
    then show ?thesis using Cons.IH[OF _ _ _ M1 rest] Cons.prems sums[of p] by simp
  qed
qed simp

lemma solve_spent:
  assumes wf: "wf_graph (gs_graph s)" and ulp: "ulp_bound eps fdist r" and fine: "fine_qty eps r (gs_graph s)"
    and pos: "positive_targets (gs_graph s)"
  obtains s' M where "SolveGraph eps fdist s = (Inr (gs_obj s'), s')" "matches (gs_graph s') = matches (gs_graph s) @ M"
    "\<And>p n a. p \<in> set (request_groups (gs_graph s)) \<Longrightarrow> n \<in> set (gnodes (gs_graph s) p) \<Longrightarrow>
       a \<in> set (req_arcs (gs_graph s) n) \<Longrightarrow> \<not> a_exclusive a \<Longrightarrow>
       min (gtarget (gs_graph s) p - group_sum (gs_graph s) M p) (arc_cap (gs_graph s) M a) \<le> eps"
proof -
  obtain g' s' u M where h: "gperm (gs_graph s) g'" "abs_groups eps fdist g' (request_groups g') (0, []) = (u, M)"
    "SolveGraph eps fdist s = (Inr (gs_obj s'), s')" "matches (gs_graph s') = matches (gs_graph s) @ M"
    using SolveGraph_refines[OF wf ulp fine] by blast
  let ?g = "gs_graph s"
  note v = gperm_node[OF h(1)] gperm_group[OF h(1)] gperm_good_arc[OF h(1)] gperm_abs[OF h(1)]
  have rs: "set (request_groups g') = set (request_groups ?g)" using h(1) by (auto simp: gperm_def dest: mset_eq_setD)
  have wf': "wf_graph g'" by (rule gperm_wf[OF h(1) wf])
  have gs: "group_sum g' = group_sum ?g" by (intro ext) (simp add: group_sum_def v)
  have d: "distinct (request_groups g')" "\<forall>p \<in> set (request_groups g'). 0 \<le> gtarget g' p" "good_matches eps g' []"
    using wf' pos rs by (simp_all add: wf_graph_def positive_targets_def v good_matches_def)
  have "min (gtarget ?g p - group_sum ?g M p) (arc_cap ?g M a) \<le> eps"
    if p: "p \<in> set (request_groups ?g)" and n: "n \<in> set (gnodes ?g p)" "a \<in> set (req_arcs ?g n)" "\<not> a_exclusive a" for p n a
  proof -
    have "n \<in> set (gnodes g' p)" using n(1) v(9)[of p] by (metis mset_eq_setD)
    moreover have "a \<in> set (req_arcs g' n)" using gperm_req_arcs[OF h(1) wf p n(1)] n(2) by simp
    ultimately show ?thesis
      using abs_groups_spent[OF wf' ulp order_refl d h(2) p[folded rs] _ _ n(3)] by (simp add: gs v)
  qed
  then show thesis using that[OF h(3,4)] by blast
qed

lemma arc_cap_core: "arc_core a = arc_core b \<Longrightarrow> arc_cap g M a = arc_cap g M b"
  by (drule arc_core_eq) (simp add: arc_cap_def node_cap_def ucaps_def unit_caps_at_def arc_key_def split: option.splits)

lemma req_arcs_core:
  assumes "map_of (node_arc_map g) n = Some as" "a \<in> set as"
  obtains b where "b \<in> set (req_arcs g n)" "arc_core b = arc_core a"
proof -
  have "arc_core a \<in> set (map arc_core (stable_sort (ReqPrefComp g) as))" using assms(2) by simp
  then have "arc_core a \<in> set (map arc_core (req_arcs g n))"
    by (simp only: req_arcs_def assms(1) option.case sort_arcs_core)
  then show thesis using that by auto
qed

lemma good_arc_unode_group:
  assumes "wf_graph g" "good_arc g a" "p \<in> set (supply_groups g)"
  shows "ngroup g (a_unode a) \<noteq> Some p"
proof -
  obtain pu where "ngroup g (a_unode a) = Some pu" "pu \<in> set (request_groups g)" by (rule good_arcD[OF assms(2,1)])
  then show ?thesis using assms(1,3) unfolding wf_graph_def by auto
qed

section \<open>A graph for the witnesses\<close>

text \<open>One request for 5 with preference 2, and one bid for 8 whose group has capacity 6 at two per
  unit: 3 units can be traded.\<close>

definition demo_arc :: arc where
  "demo_arc = \<lparr>a_unode = 1, a_vnode = 3, a_exclusive = False, a_excl_val = 0, a_pref = 2\<rparr>"

definition demo_graph :: graph where
  "demo_graph = \<lparr>x_nodes =
       [1 \<mapsto> \<lparr>n_group = Some 0, unit_capacities = [((1, 3), [1])], prefs = [((1, 3), (demo_arc, 2))],
             n_exclusive = False, n_commod = ''fuel'', n_agent_id = 7, n_qty = 5\<rparr>,
        3 \<mapsto> \<lparr>n_group = Some 2, unit_capacities = [((1, 3), [2])], prefs = [],
             n_exclusive = False, n_commod = ''fuel'', n_agent_id = 8, n_qty = 8\<rparr>],
     x_groups =
       [0 \<mapsto> \<lparr>g_nodes = [1], g_excl_groups = [], g_capacities = [5], g_qty = 5\<rparr>,
        2 \<mapsto> \<lparr>g_nodes = [3], g_excl_groups = [], g_capacities = [6], g_qty = 0\<rparr>],
     x_next = 4, request_groups = [0], supply_groups = [2],
     node_arc_map = [(1, [demo_arc]), (3, [demo_arc])], matches = [], arcs = [demo_arc],
     arc_ids = [((1, 3), 0)], arc_by_id = [(0, demo_arc)], next_arc_id = 1\<rparr>"

definition demo_fdist :: "double \<Rightarrow> double \<Rightarrow> double" where
  "demo_fdist t y = (if y \<le> t then 0 else 2)"

definition demo_solver :: greedy where
  "demo_solver = GreedySolver_new True None demo_graph"

lemmas demo_graph_eval = demo_solver_def GreedySolver_new_def demo_graph_def demo_arc_def ngroup_def nqty_def ucaps_def
  npref_def gcaps_def gtarget_def gnodes_def unit_caps_at_def pref_at_def arc_key_def omap_sub_def

lemma DBL_MAX_large: "100 < DBL_MAX"
  by (simp add: DBL_MAX_def)

lemma demo_good_arc: "good_arc (gs_graph demo_solver) demo_arc"
  by (simp add: good_arc_def demo_graph_eval)

lemma demo_wf: "wf_graph (gs_graph demo_solver)"
proof -
  have "0 \<le> nqty (gs_graph demo_solver) n \<and> nqty (gs_graph demo_solver) n \<le> DBL_MAX" for n
    using DBL_MAX_large by (simp add: demo_graph_eval)
  moreover have "\<forall>p \<in> {0, 2}. \<forall>c \<in> set (gcaps (gs_graph demo_solver) p). 0 \<le> c \<and> c \<le> DBL_MAX"
    using DBL_MAX_large by (simp add: demo_graph_eval)
  ultimately show ?thesis using demo_good_arc by (simp add: wf_graph_def) (simp add: demo_graph_eval)
qed

lemma demo_hyps: "ulp_bound 0 demo_fdist 0" "fine_qty 0 0 (gs_graph demo_solver)" "positive_targets (gs_graph demo_solver)"
  by (simp_all add: ulp_bound_def demo_fdist_def float_ulp_eq_def fine_qty_def positive_targets_def demo_graph_eval)

section \<open>Properties\<close>

text \<open>C2. On a well-formed graph the greedy solver returns without an exception, every match is on
  an arc from a request group to a supply group and larger than \<open>eps\<close>, and no supplier is asked
  for more than it has: for every supply group and each of its capacities, the matches together
  use at most that capacity, up to the relative rounding \<open>r\<close> of the exclusivity test.\<close>

theorem greedy_capacity_safe:
  assumes "wf_graph (gs_graph s)" "ulp_bound eps fdist r" "fine_qty eps r (gs_graph s)" "positive_targets (gs_graph s)"
  shows "\<exists>s' M. SolveGraph eps fdist s = (Inr (gs_obj s'), s') \<and> matches (gs_graph s') = matches (gs_graph s) @ M \<and>
    (\<forall>(a, q) \<in> set M. eps < q \<and> good_arc (gs_graph s) a) \<and>
    (\<forall>p \<in> set (supply_groups (gs_graph s)). \<forall>i < length (gcaps (gs_graph s) p). gcaps (gs_graph s) p ! i \<noteq> DBL_MAX \<longrightarrow>
       sum_list (map (\<lambda>(a, q). q * (if ngroup (gs_graph s) (a_vnode a) = Some p then ucaps (gs_graph s) (a_vnode a) a ! i else 0)) M)
         \<le> gcaps (gs_graph s) p ! i * (1 + r))"
proof -
  let ?g = "gs_graph s"
  obtain s' M where h: "SolveGraph eps fdist s = (Inr (gs_obj s'), s')" "matches (gs_graph s') = matches ?g @ M"
    "good_matches eps ?g M" "within_caps r ?g M" by (rule solve_facts[OF assms])
  have "cap_use ?g M p i =
      sum_list (map (\<lambda>(a, q). q * (if ngroup ?g (a_vnode a) = Some p then ucaps ?g (a_vnode a) a ! i else 0)) M)"
    if "p \<in> set (supply_groups ?g)" for p i
  proof -
    have "good_arc ?g a" if "(a, q) \<in> set M" for a q using h(3) that by (auto simp: good_matches_def)
    then have "ngroup ?g (a_unode a) \<noteq> Some p" if "(a, q) \<in> set M" for a q
      using good_arc_unode_group[OF assms(1)] \<open>p \<in> set (supply_groups ?g)\<close> that by blast
    then show ?thesis unfolding cap_use_def by (intro arg_cong[where f = sum_list] map_cong) (auto simp: arc_use_def)
  qed
  then show ?thesis using h by (auto simp: within_caps_def good_matches_def)
qed

theorem greedy_capacity_safe_witness:
  "\<exists>s' M. SolveGraph 0 demo_fdist demo_solver = (Inr (gs_obj s'), s') \<and> matches (gs_graph s') = M \<and>
     (\<forall>(a, q) \<in> set M. 0 < q \<and> good_arc demo_graph a) \<and>
     sum_list (map (\<lambda>(a, q). q * (if ngroup demo_graph (a_vnode a) = Some 2 then ucaps demo_graph (a_vnode a) a ! 0 else 0)) M) \<le> 6"
proof -
  have g: "gs_graph demo_solver = demo_graph" "matches demo_graph = []" "gcaps demo_graph 2 = [6]" "supply_groups demo_graph = [2]"
    by (simp_all add: demo_graph_eval)
  obtain s' M where h: "SolveGraph 0 demo_fdist demo_solver = (Inr (gs_obj s'), s')" "matches (gs_graph s') = M"
    "\<forall>(a, q) \<in> set M. 0 < q \<and> good_arc demo_graph a"
    "\<forall>p \<in> set (supply_groups demo_graph). \<forall>i < length (gcaps demo_graph p). gcaps demo_graph p ! i \<noteq> DBL_MAX \<longrightarrow>
       sum_list (map (\<lambda>(a, q). q * (if ngroup demo_graph (a_vnode a) = Some p then ucaps demo_graph (a_vnode a) a ! i else 0)) M)
         \<le> gcaps demo_graph p ! i * (1 + 0)"
    using greedy_capacity_safe [OF demo_wf demo_hyps] unfolding g(1,2) append_Nil by blast
  have "(6 :: double) \<noteq> DBL_MAX" using DBL_MAX_large by linarith
  then have n: "2 \<in> set (supply_groups demo_graph)" "0 < length (gcaps demo_graph 2)" "gcaps demo_graph 2 ! 0 \<noteq> DBL_MAX"
    "gcaps demo_graph 2 ! 0 = 6" by (simp_all add: g(3,4))
  have "sum_list (map (\<lambda>(a, q). q * (if ngroup demo_graph (a_vnode a) = Some 2 then ucaps demo_graph (a_vnode a) a ! 0 else 0)) M)
      \<le> gcaps demo_graph 2 ! 0 * (1 + 0)" by (rule h(4)[rule_format, OF n(1-3)])
  then show ?thesis using h(1-3) unfolding n(4) by (intro exI[of _ s'] exI[of _ M]) simp
qed

text \<open>C25. The greedy solver gives no node more than its quantity and no request group more than its
  total demand, again up to the rounding of the exclusivity test.\<close>

theorem greedy_within_demand:
  assumes "wf_graph (gs_graph s)" "ulp_bound eps fdist r" "fine_qty eps r (gs_graph s)" "positive_targets (gs_graph s)"
  shows "\<exists>s' M. SolveGraph eps fdist s = (Inr (gs_obj s'), s') \<and> matches (gs_graph s') = matches (gs_graph s) @ M \<and>
    (\<forall>n. sum_list (map snd (filter (\<lambda>(a, _). a_unode a = n \<or> a_vnode a = n) M)) \<le> nqty (gs_graph s) n * (1 + r)) \<and>
    (\<forall>p \<in> set (request_groups (gs_graph s)).
       sum_list (map snd (filter (\<lambda>(a, _). ngroup (gs_graph s) (a_unode a) = Some p) M)) \<le> gtarget (gs_graph s) p * (1 + r))"
proof -
  let ?g = "gs_graph s"
  obtain s' M where h: "SolveGraph eps fdist s = (Inr (gs_obj s'), s')" "matches (gs_graph s') = matches ?g @ M"
    "good_matches eps ?g M" "within_nodes r ?g M"
    "\<forall>p \<in> set (request_groups ?g). group_sum ?g M p \<le> gtarget ?g p * (1 + r)" by (rule solve_facts[OF assms])
  have ne: "a_unode a \<noteq> a_vnode a" if "(a, q) \<in> set M" for a q
    by (rule good_arcD[OF _ assms(1), of a]) (use h(3) that in \<open>auto simp: good_matches_def\<close>)
  have "node_use M n = sum_list (map snd (filter (\<lambda>(a, _). a_unode a = n \<or> a_vnode a = n) M))" for n
    using ne unfolding node_use_def by (induction M) fastforce+
  moreover have "group_sum ?g M p = sum_list (map snd (filter (\<lambda>(a, _). ngroup ?g (a_unode a) = Some p) M))" for p
    unfolding group_sum_def by (induction M) auto
  ultimately show ?thesis using h by (auto simp: within_nodes_def)
qed

theorem greedy_within_demand_witness:
  "\<exists>s' M. SolveGraph 0 demo_fdist demo_solver = (Inr (gs_obj s'), s') \<and> matches (gs_graph s') = M \<and>
     sum_list (map snd (filter (\<lambda>(a, _). a_unode a = 3 \<or> a_vnode a = 3) M)) \<le> 8 \<and>
     sum_list (map snd (filter (\<lambda>(a, _). ngroup demo_graph (a_unode a) = Some 0) M)) \<le> 5"
proof -
  have g: "gs_graph demo_solver = demo_graph" "matches demo_graph = []" "nqty demo_graph 3 = 8" "gtarget demo_graph 0 = 5"
    "0 \<in> set (request_groups demo_graph)"
    by (simp_all add: demo_graph_eval)
  obtain s' M where h: "SolveGraph 0 demo_fdist demo_solver = (Inr (gs_obj s'), s')" "matches (gs_graph s') = M"
    "\<forall>n. sum_list (map snd (filter (\<lambda>(a, _). a_unode a = n \<or> a_vnode a = n) M)) \<le> nqty demo_graph n * (1 + 0)"
    "\<forall>p \<in> set (request_groups demo_graph).
       sum_list (map snd (filter (\<lambda>(a, _). ngroup demo_graph (a_unode a) = Some p) M)) \<le> gtarget demo_graph p * (1 + 0)"
    using greedy_within_demand [OF demo_wf demo_hyps] unfolding g(1,2) append_Nil by blast
  show ?thesis using h(1,2) h(3)[rule_format, of 3] h(4)[rule_format, OF g(5)] unfolding g(3,4)
    by (intro exI[of _ s'] exI[of _ M]) simp
qed

text \<open>C26. The objective the greedy solver reports is exactly the cost of its matches (quantity over
  preference) plus the pseudo cost of the demand it left unmet, and the unmet demand it charges is
  the demand of each request group minus what the group was given.\<close>

theorem greedy_accounting:
  assumes "wf_graph (gs_graph s)" "ulp_bound eps fdist r" "fine_qty eps r (gs_graph s)" "positive_targets (gs_graph s)"
    and "PseudoCost (gs_exclusive_orders s) (gs_graph s) = Fin c"
  shows "\<exists>s' M. SolveGraph eps fdist s = (Inr (gs_obj s'), s') \<and> matches (gs_graph s') = matches (gs_graph s) @ M \<and>
    gs_unmatched s' = sum_list (map (\<lambda>p. gtarget (gs_graph s) p -
        sum_list (map snd (filter (\<lambda>(a, _). ngroup (gs_graph s) (a_unode a) = Some p) M))) (request_groups (gs_graph s))) \<and>
    gs_obj s' = Fin (sum_list (map (\<lambda>(a, q). q / npref (gs_graph s) (a_unode a) a) M) + gs_unmatched s' * c)"
proof -
  let ?g = "gs_graph s"
  obtain s' M where h: "SolveGraph eps fdist s = (Inr (gs_obj s'), s')" "matches (gs_graph s') = matches ?g @ M"
    "gs_unmatched s' = sum_list (map (\<lambda>p. gtarget ?g p - group_sum ?g M p) (request_groups ?g))"
    "gs_obj s' = xadd (Fin (match_cost ?g M)) (xmul (Fin (gs_unmatched s')) (PseudoCost (gs_exclusive_orders s) ?g))"
    by (rule solve_facts[OF assms(1-4)])
  have "group_sum ?g M p = sum_list (map snd (filter (\<lambda>(a, _). ngroup ?g (a_unode a) = Some p) M))" for p
    unfolding group_sum_def by (induction M) auto
  then show ?thesis using h assms(5) by (auto simp: match_cost_def)
qed

theorem greedy_accounting_witness:
  "\<exists>s' M. SolveGraph 0 demo_fdist demo_solver = (Inr (gs_obj s'), s') \<and> matches (gs_graph s') = M \<and>
     gs_unmatched s' = 5 - sum_list (map snd (filter (\<lambda>(a, _). ngroup demo_graph (a_unode a) = Some 0) M)) \<and>
     gs_obj s' = Fin (sum_list (map (\<lambda>(a, q). q / npref demo_graph (a_unode a) a) M) + gs_unmatched s' * (11 / 20))"
proof -
  have g: "gs_graph demo_solver = demo_graph" "matches demo_graph = []" "request_groups demo_graph = [0]" "gtarget demo_graph 0 = 5"
    by (simp_all add: demo_graph_eval)
  have c: "PseudoCost (gs_exclusive_orders demo_solver) (gs_graph demo_solver) = Fin (11 / 20)"
    by (simp add: demo_graph_eval PseudoCost_def PseudoCostByPref_def pref_cost_def Cost_def)
  obtain s' M where "SolveGraph 0 demo_fdist demo_solver = (Inr (gs_obj s'), s')" "matches (gs_graph s') = M"
    "gs_unmatched s' = sum_list (map (\<lambda>p. gtarget demo_graph p -
        sum_list (map snd (filter (\<lambda>(a, _). ngroup demo_graph (a_unode a) = Some p) M))) (request_groups demo_graph))"
    "gs_obj s' = Fin (sum_list (map (\<lambda>(a, q). q / npref demo_graph (a_unode a) a) M) + gs_unmatched s' * (11 / 20))"
    using greedy_accounting [OF demo_wf demo_hyps c] unfolding g(1,2) append_Nil by blast
  then show ?thesis unfolding g(3) by (intro exI[of _ s'] exI[of _ M]) (simp add: g(4))
qed

text \<open>C10. Greedy is maximal: when the solver is done, no arc of any request that does not have to be
  taken whole could carry more than \<open>eps\<close> of the group's remaining demand, given the node
  quantities and group capacities the matches leave.\<close>

theorem greedy_leaves_no_arc:
  assumes "wf_graph (gs_graph s)" "ulp_bound eps fdist r" "fine_qty eps r (gs_graph s)" "positive_targets (gs_graph s)"
  shows "\<exists>s' M. SolveGraph eps fdist s = (Inr (gs_obj s'), s') \<and> matches (gs_graph s') = matches (gs_graph s) @ M \<and>
    (\<forall>p \<in> set (request_groups (gs_graph s)). \<forall>n \<in> set (gnodes (gs_graph s) p). \<forall>as a.
       map_of (node_arc_map (gs_graph s)) n = Some as \<longrightarrow> a \<in> set as \<longrightarrow> \<not> a_exclusive a \<longrightarrow>
       min (gtarget (gs_graph s) p - group_sum (gs_graph s) M p) (arc_cap (gs_graph s) M a) \<le> eps)"
proof -
  let ?g = "gs_graph s"
  obtain s' M where h: "SolveGraph eps fdist s = (Inr (gs_obj s'), s')" "matches (gs_graph s') = matches ?g @ M"
    "\<And>p n a. p \<in> set (request_groups ?g) \<Longrightarrow> n \<in> set (gnodes ?g p) \<Longrightarrow> a \<in> set (req_arcs ?g n) \<Longrightarrow> \<not> a_exclusive a \<Longrightarrow>
       min (gtarget ?g p - group_sum ?g M p) (arc_cap ?g M a) \<le> eps"
    by (rule solve_spent[OF assms]) blast
  have "min (gtarget ?g p - group_sum ?g M p) (arc_cap ?g M a) \<le> eps"
    if t: "p \<in> set (request_groups ?g)" "n \<in> set (gnodes ?g p)" "map_of (node_arc_map ?g) n = Some as" "a \<in> set as" "\<not> a_exclusive a"
    for p n as a
  proof -
    obtain b where b: "b \<in> set (req_arcs ?g n)" "arc_core b = arc_core a" using req_arcs_core[OF t(3,4)] .
    have "\<not> a_exclusive b" using arc_core_eq[OF b(2)] t(5) by simp
    then show ?thesis using h(3)[OF t(1,2) b(1)] arc_cap_core[OF b(2)] by simp
  qed
  then show ?thesis using h(1,2) by blast
qed

theorem greedy_leaves_no_arc_witness:
  "\<exists>s' M. SolveGraph 0 demo_fdist demo_solver = (Inr (gs_obj s'), s') \<and> matches (gs_graph s') = M \<and>
     min (5 - group_sum demo_graph M 0) (arc_cap demo_graph M demo_arc) \<le> 0"
proof -
  have g: "gs_graph demo_solver = demo_graph" "matches demo_graph = []" "gtarget demo_graph 0 = 5"
    "0 \<in> set (request_groups demo_graph)" "1 \<in> set (gnodes demo_graph 0)"
    "map_of (node_arc_map demo_graph) 1 = Some [demo_arc]" "demo_arc \<in> set [demo_arc]" "\<not> a_exclusive demo_arc"
    by (simp_all add: demo_graph_eval)
  obtain s' M where h: "SolveGraph 0 demo_fdist demo_solver = (Inr (gs_obj s'), s')" "matches (gs_graph s') = M"
    "\<forall>p \<in> set (request_groups demo_graph). \<forall>n \<in> set (gnodes demo_graph p). \<forall>as a.
       map_of (node_arc_map demo_graph) n = Some as \<longrightarrow> a \<in> set as \<longrightarrow> \<not> a_exclusive a \<longrightarrow>
       min (gtarget demo_graph p - group_sum demo_graph M p) (arc_cap demo_graph M a) \<le> 0"
    using greedy_leaves_no_arc [OF demo_wf demo_hyps] unfolding g(1,2) append_Nil by blast
  show ?thesis using h(1,2) h(3)[rule_format, OF g(4-8)] unfolding g(3) by blast
qed

end
