(* ===== verification/Greedy_Orders.thy ===== *)
theory Greedy_Orders
  imports Greedy_Correct
begin

text \<open>
  The comparisons the solver and its preconditioner sort with are strict weak orders, so the sorts
  are well defined; and three things the solver does on inputs outside the well-formed ones or on
  members nothing reads later.
\<close>

section \<open>The comparisons\<close>

interpretation req_pref: compare "ReqPrefComp g" for g
  by unfold_locales (auto simp: ReqPrefComp_def Let_def split: if_splits)

interpretation avg_pref: compare "AvgPrefComp g" for g
  by unfold_locales (auto simp: AvgPrefComp_def Let_def split: if_splits)

definition arc_pref :: "graph \<Rightarrow> arc \<Rightarrow> double" where
  "arc_pref g a = pref_at (the (x_nodes g (a_unode a))) a"

lemma arc_pref_core: "arc_core a = arc_core b \<Longrightarrow> arc_pref g a = arc_pref g b"
  by (drule arc_core_eq) (simp add: arc_pref_def pref_at_def arc_key_def)

lemma ReqPrefComp_pref: "\<not> ReqPrefComp g b a \<Longrightarrow> arc_pref g b \<le> arc_pref g a"
  by (auto simp: ReqPrefComp_def arc_pref_def Let_def split: if_splits)

lemma sort_arcs_pref_map: "map (arc_pref g) (sort_arcs g as) = map (arc_pref g) (stable_sort (ReqPrefComp g) as)"
proof (rule nth_equalityI)
  fix i assume "i < length (map (arc_pref g) (sort_arcs g as))"
  then have i: "i < length as" by (simp add: sort_arcs_def)
  then have "sort_arcs g as ! i = Arc_assign (as ! i) (stable_sort (ReqPrefComp g) as ! i)" by (simp add: sort_arcs_def)
  then have "arc_core (sort_arcs g as ! i) = arc_core (stable_sort (ReqPrefComp g) as ! i)" by simp
  from arc_pref_core[OF this] i
  show "map (arc_pref g) (sort_arcs g as) ! i = map (arc_pref g) (stable_sort (ReqPrefComp g) as) ! i"
    by (simp add: sort_arcs_def)
qed (simp add: sort_arcs_def)

text \<open>The arcs of a request are tried in order of preference: the list the solver walks has the
  same nodes, exclusivity and exclusive values as the request's arcs, each as often, and the
  preferences the request node holds for them never increase along the list.\<close>

theorem arcs_tried_by_preference:
  "mset (map arc_core (sort_arcs g as)) = mset (map arc_core as) \<and> sorted_wrt (\<ge>) (map (arc_pref g) (sort_arcs g as))"
proof
  show "mset (map arc_core (sort_arcs g as)) = mset (map arc_core as)" unfolding sort_arcs_core by simp
  have "sorted_wrt (\<lambda>a b. arc_pref g b \<le> arc_pref g a) (stable_sort (ReqPrefComp g) as)"
    by (rule sorted_wrt_mono_rel[OF _ req_pref.sorted_stable_sort]) (rule ReqPrefComp_pref)
  then show "sorted_wrt (\<ge>) (map (arc_pref g) (sort_arcs g as))" unfolding sort_arcs_pref_map by (simp add: sorted_wrt_map)
qed

text \<open>Sorting does not move the preference an arc object carries: \<open>operator=\<close> of an arc skips
  \<open>pref_\<close>, so after the sort the \<open>pref_\<close> members are those of the unsorted list, position by
  position, and an arc stored in a match can carry the preference of another arc.\<close>

theorem sorting_leaves_pref_behind:
  "map a_pref (sort_arcs g as) = map a_pref as"
  by (rule nth_equalityI) (simp_all add: sort_arcs_def Arc_assign_def)

section \<open>The preconditioner\<close>
























section \<open>A capacity that is not a number\<close>

text \<open>What the capacity functions read of a node, which the entries that reading leaves behind do not change.\<close>

definition sees :: "greedy \<Rightarrow> ptr \<Rightarrow> arc \<Rightarrow> ptr \<Rightarrow> double \<Rightarrow> double list \<Rightarrow> bool" where
  "sees s n a p q us \<longleftrightarrow> (\<exists>nd. gs_node s n = Some nd \<and> n_group nd = Some p \<and> n_qty nd = q \<and> unit_caps_at nd a = us)"

lemma sees_touch [simp]:
  "sees (touch_unit_caps m a s) n a p q us = sees s n a p q us" "sees (touch_grp_caps G s) n a p q us = sees s n a p q us"
  "sees (touch_qty m s) n a p q us = sees s n a p q us" "sees (gs_grp_caps_update h s) n a p q us = sees s n a p q us"
  by (auto simp: sees_def touch_unit_caps_def touch_grp_caps_def touch_qty_def upd_node_def unit_caps_at_def)

lemma sub_caps_touch [simp]:
  "omap_sub [] (gs_grp_caps (touch_unit_caps m a s)) G = omap_sub [] (gs_grp_caps s) G"
  "omap_sub [] (gs_grp_caps (touch_grp_caps G' s)) G = omap_sub [] (gs_grp_caps s) G"
  "omap_sub [] (gs_grp_caps (touch_qty m s)) G = omap_sub [] (gs_grp_caps s) G"
  by (simp_all add: touch_unit_caps_def touch_grp_caps_def touch_qty_def)

lemma matches_touch [simp]:
  "matches (gs_graph (touch_unit_caps m a s)) = matches (gs_graph s)" "matches (gs_graph (touch_grp_caps G' s)) = matches (gs_graph s)"
  "matches (gs_graph (touch_qty m s)) = matches (gs_graph s)"
  by (simp_all add: touch_unit_caps_def touch_grp_caps_def touch_qty_def upd_node_def)

definition charged :: "double \<Rightarrow> double list \<Rightarrow> double list \<Rightarrow> double list" where
  "charged q caps us = map2 (\<lambda>prev u. if prev = DBL_MAX then DBL_MAX else prev - q * u) caps us"

lemma UpdateCapacity_sees:
  assumes "sees s n a p q us" "omap_sub [] (gs_grp_caps s) (Some p) = caps" "length us = length caps"
  shows "UpdateCapacity eps n a x s = (if IsNegative eps (q - x) then Inl ValueError else Inr (),
    gs_grp_caps_update (omap_put (Some p) (charged x caps us)) (touch_grp_caps (Some p) (touch_unit_caps n a s)))"
  using assms by (auto simp: sees_def UpdateCapacity_def Let_def throw_def ok_def charged_def)

lemma node_Capacity_sees:
  assumes "sees s n a p q us" "length us \<le> length (omap_sub [] (gs_grp_caps s) (Some p))"
  shows "\<exists>c. node_Capacity n a b cur s = (Inr c, if us = [] then touch_unit_caps n a s else touch_grp_caps (Some p) (touch_unit_caps n a s))"
  using assms by (auto simp: sees_def node_Capacity_def Let_def ok_def)

lemma max_element_NaN: "max_element xless NaN xs = NaN"
  by (induction xs) auto

lemma xmin_NaN [simp]: "xmin NaN c = NaN" "xmin (Fin x) NaN = Fin x"
  by (cases c) (simp_all add: xmin_def)

lemma exhausted_NaN:
  assumes "sees s (a_unode a) a p q (0 # us)" "omap_sub [] (gs_grp_caps s) (Some p) = 0 # caps" "length us = length caps"
    and "sees s (a_vnode a) a pv vq vus" "length vus \<le> length (omap_sub [] (gs_grp_caps s) (Some pv))"
  obtains s2 where "arc_Capacity a uc vc s = (Inr NaN, s2)" "\<And>n p q us. sees s2 n a p q us = sees s n a p q us"
    "\<And>G. omap_sub [] (gs_grp_caps s2) G = omap_sub [] (gs_grp_caps s) G" "matches (gs_graph s2) = matches (gs_graph s)"
proof -
  let ?s1 = "touch_grp_caps (Some p) (touch_unit_caps (a_unode a) a s)"
  have "cap_ratio 0 0 = NaN" by (simp add: cap_ratio_def DBL_MAX_def xdiv_def)
  then have u: "node_Capacity (a_unode a) a False uc s = (Inr NaN, ?s1)"
    using assms(1-3) by (auto simp: sees_def node_Capacity_def max_element_NaN ok_def)
  obtain c where "node_Capacity (a_vnode a) a True vc ?s1 =
      (Inr c, if vus = [] then touch_unit_caps (a_vnode a) a ?s1 else touch_grp_caps (Some pv) (touch_unit_caps (a_vnode a) a ?s1))"
    using node_Capacity_sees[of ?s1 "a_vnode a" a pv vq vus True vc] assms(4,5) by auto
  then have "arc_Capacity a uc vc s =
      (Inr NaN, if vus = [] then touch_unit_caps (a_vnode a) a ?s1 else touch_grp_caps (Some pv) (touch_unit_caps (a_vnode a) a ?s1))"
    by (simp add: arc_Capacity_def u ok_def)
  then show thesis by (rule that) simp_all
qed

text \<open>C32. A match can exceed the supplier's limits. When the first capacity of a request group is exactly used up and
  an offer uses none of it, their quotient is not a number, every comparison with it fails, and an arc that
  is not exclusive is matched for the whole remaining demand, whatever the capacities of the supplier's
  group: each finite one is charged for that amount, and one that is too small for it becomes negative. Only a
  node whose own quantity is below the remaining demand stops this, with an exception.\<close>

theorem exhausted_capacity_lifts_limits:
  assumes "sees s (a_unode a) a p q (0 # us)" "omap_sub [] (gs_grp_caps s) (Some p) = 0 # caps" "length us = length caps"
    and "sees s (a_vnode a) a pv vq vus" "omap_sub [] (gs_grp_caps s) (Some pv) = vcaps" "length vus = length vcaps"
    and "p \<noteq> pv" "\<not> a_exclusive a" "eps < target - match"
  shows "\<exists>r s'. try_arc eps fdist target a match s = (r, s') \<and>
    (if IsNegative eps (q - (target - match)) \<or> IsNegative eps (vq - (target - match)) then r = Inl ValueError
     else r = Inr target \<and> matches (gs_graph s') = matches (gs_graph s) @ [(a, target - match)] \<and>
       omap_sub [] (gs_grp_caps s') (Some pv) = charged (target - match) vcaps vus \<and>
       (\<forall>i < length vcaps. vcaps ! i \<noteq> DBL_MAX \<longrightarrow> vcaps ! i < (target - match) * vus ! i \<longrightarrow>
          omap_sub [] (gs_grp_caps s') (Some pv) ! i < 0))"
proof -
  let ?x = "target - match" and ?u = "a_unode a" and ?v = "a_vnode a"
  let ?s0 = "touch_qty ?v (touch_qty ?u s)"
  obtain s2 where s2: "arc_Capacity a (omap_sub 0 (gs_n_qty s) ?u) (omap_sub 0 (gs_n_qty s) ?v) ?s0 = (Inr NaN, s2)"
    "\<And>n p q us. sees s2 n a p q us = sees s n a p q us" "\<And>G. omap_sub [] (gs_grp_caps s2) G = omap_sub [] (gs_grp_caps s) G"
    "matches (gs_graph s2) = matches (gs_graph s)"
    by (rule exhausted_NaN[of ?s0 a p q us caps pv vq vus]) (use assms(1-6) in auto)
  let ?s3 = "gs_grp_caps_update (omap_put (Some p) (charged ?x (0 # caps) (0 # us))) (touch_grp_caps (Some p) (touch_unit_caps ?u a s2))"
  let ?s4 = "gs_grp_caps_update (omap_put (Some pv) (charged ?x vcaps vus)) (touch_grp_caps (Some pv) (touch_unit_caps ?v a ?s3))"
  have u3: "UpdateCapacity eps ?u a ?x s2 = (if IsNegative eps (q - ?x) then Inl ValueError else Inr (), ?s3)"
    by (rule UpdateCapacity_sees) (use assms(1-3) s2 in simp_all)
  have c3: "omap_sub [] (gs_grp_caps ?s3) (Some pv) = vcaps" using assms(5,7) s2(3) by (simp add: touch_grp_caps_def touch_unit_caps_def omap_simps)
  have u4: "UpdateCapacity eps ?v a ?x ?s3 = (if IsNegative eps (vq - ?x) then Inl ValueError else Inr (), ?s4)"
    by (rule UpdateCapacity_sees) (use assms(4,6) s2 c3 in simp_all)
  have n4: "\<exists>nd. gs_node ?s4 ?u = Some nd"
    using assms(1) s2(2)[of ?u p q "0 # us"] by (auto simp: sees_def touch_grp_caps_def touch_unit_caps_def upd_node_def)
  have neg: "charged ?x vcaps vus ! i < 0" if "i < length vcaps" "vcaps ! i \<noteq> DBL_MAX" "vcaps ! i < ?x * vus ! i" for i
    using that assms(6) by (simp add: charged_def)
  show ?thesis
    using assms(8,9) s2(1,4) u3 u4 n4 neg
    by (auto simp: try_arc_def Let_def ok_def throw_def AddMatch_def UpdateObj_def touch_pref_def upd_node_def touch_grp_caps_def touch_unit_caps_def omap_simps)
qed

text \<open>A request that wants 5 units under an extra constraint of 2, and two suppliers, of 2 units and of 1: the first uses
  up the extra constraint, the offer of the second uses none of it.\<close>

definition two_arc :: "ptr \<Rightarrow> arc" where
  "two_arc v = \<lparr>a_unode = 1, a_vnode = v, a_exclusive = False, a_excl_val = 0, a_pref = 2\<rparr>"

definition two_graph :: graph where
  "two_graph = \<lparr>x_nodes =
       [1 \<mapsto> \<lparr>n_group = Some 0, unit_capacities = [((1, 3), [1, 1]), ((1, 5), [0, 1])], prefs = [((1, 3), (two_arc 3, 2)), ((1, 5), (two_arc 5, 2))],
             n_exclusive = False, n_commod = ''fuel'', n_agent_id = 7, n_qty = 5\<rparr>,
        3 \<mapsto> \<lparr>n_group = Some 2, unit_capacities = [((1, 3), [1])], prefs = [], n_exclusive = False, n_commod = ''fuel'', n_agent_id = 8, n_qty = 5\<rparr>,
        5 \<mapsto> \<lparr>n_group = Some 4, unit_capacities = [((1, 5), [1])], prefs = [], n_exclusive = False, n_commod = ''fuel'', n_agent_id = 8, n_qty = 5\<rparr>],
     x_groups =
       [0 \<mapsto> \<lparr>g_nodes = [1], g_excl_groups = [], g_capacities = [2, 5], g_qty = 5\<rparr>,
        2 \<mapsto> \<lparr>g_nodes = [3], g_excl_groups = [], g_capacities = [2], g_qty = 0\<rparr>,
        4 \<mapsto> \<lparr>g_nodes = [5], g_excl_groups = [], g_capacities = [1], g_qty = 0\<rparr>],
     x_next = 6, request_groups = [0], supply_groups = [2, 4],
     node_arc_map = [(1, [two_arc 3, two_arc 5]), (3, [two_arc 3]), (5, [two_arc 5])], matches = [], arcs = [two_arc 3, two_arc 5],
     arc_ids = [((1, 3), 0), ((1, 5), 1)], arc_by_id = [(0, two_arc 3), (1, two_arc 5)], next_arc_id = 2\<rparr>"

definition two_started :: greedy where
  "two_started = snd (Init (GreedySolver_new True None two_graph))"

definition two_half :: greedy where
  "two_half = snd (try_arc 0 demo_fdist 5 (two_arc 3) 0 two_started)"

lemma two_started_eval:
  "gs_graph two_started = two_graph" "gs_grp_caps two_started = [(Some 0, [2, 5]), (Some 2, [2]), (Some 4, [1])]" "gs_n_qty two_started = [(1, 0), (3, 0), (5, 0)]"
  by (simp_all add: two_started_def Init_def GetCaps_def GreedySolver_new_def two_graph_def ok_def)

lemmas two_eval = two_graph_def two_arc_def two_started_eval try_arc_def arc_Capacity_def node_Capacity_def UpdateCapacity_def UpdateObj_def AddMatch_def
  touch_unit_caps_def touch_pref_def touch_grp_caps_def touch_qty_def upd_node_def unit_caps_at_def pref_at_def arc_key_def cap_ratio_def
  DBL_MAX_def IsNegative_def omap_sub_def omap_touch_def omap_ins_def xmin_def ok_def Let_def

lemma two_half_eval:
  "fst (try_arc 0 demo_fdist 5 (two_arc 3) 0 two_started) = Inr 2" "gs_grp_caps two_half = [(Some 0, [0, 3]), (Some 2, [0]), (Some 4, [1])]"
  "matches (gs_graph two_half) = [(two_arc 3, 2)]" "sees two_half 1 (two_arc 5) 0 5 [0, 1]" "sees two_half 5 (two_arc 5) 4 5 [1]"
  by (simp_all del: One_nat_def add: two_eval two_half_def sees_def)

theorem exhausted_capacity_lifts_limits_witness:
  "\<exists>s'. try_arc 0 demo_fdist 5 (two_arc 5) 2 two_half = (Inr 5, s') \<and> matches (gs_graph s') = [(two_arc 3, 2), (two_arc 5, 3)] \<and>
     omap_sub [] (gs_grp_caps two_half) (Some 4) = [1] \<and> omap_sub [] (gs_grp_caps s') (Some 4) = [-2]"
proof -
  have "omap_sub [] (gs_grp_caps two_half) (Some 0) = [0, 3]" "omap_sub [] (gs_grp_caps two_half) (Some 4) = [1]"
    "sees two_half (a_unode (two_arc 5)) (two_arc 5) 0 5 [0, 1]" "sees two_half (a_vnode (two_arc 5)) (two_arc 5) 4 5 [1]" "\<not> a_exclusive (two_arc 5)"
    using two_half_eval(2,4,5) by (simp_all add: omap_sub_def) (simp_all add: two_arc_def)
  then show ?thesis
    using exhausted_capacity_lifts_limits [where s = two_half and a = "two_arc 5" and p = 0 and q = 5 and us = "[1]" and caps = "[3]" and
        pv = 4 and vq = 5 and vus = "[1]" and vcaps = "[1]" and eps = 0 and target = 5 and match = 2 and fdist = demo_fdist]
    by (auto simp: IsNegative_def charged_def two_half_eval(3) DBL_MAX_def)
qed

end
