(* ===== verification/Sim_State.thy ===== *)
theory Sim_State
  imports Resource_Model "HOL-Library.List_Lexorder" "HOL-Library.Char_ord" "HOL-Library.Option_ord"
begin

text \<open>
  The simulation state around the resources: agent.{h,cc} with the three agent classes of
  facility, institution and region, context.{h,cc}, the queues of timer.{h,cc} and the snapshots of
  sim_init.cc. Agents are objects in a store; the archetypes deriving from the classes are reached
  through virtual methods, which are parameters of the model.
\<close>

section \<open>Data\<close>

text \<open>The class of the kernel an archetype derives from; \<open>kind_\<close> is its printed name.\<close>

datatype akind = KAgent | KFacility | KInst | KRegion

definition kind_name :: "akind \<Rightarrow> string" where
  "kind_name k = (case k of KAgent \<Rightarrow> ''Agent'' | KFacility \<Rightarrow> ''Facility'' | KInst \<Rightarrow> ''Inst'' | KRegion \<Rightarrow> ''Region'')"

record agent =
  ag_kind :: akind
  ag_id :: int
  ag_prototype :: string
  ag_spec :: string
  ag_lifetime :: int
  ag_enter_time :: int
  ag_parent :: "ptr option"
  ag_parent_id :: int
  ag_children :: "ptr list"

record SimInfo =
  duration :: int
  y0 :: int
  m0 :: int
  si_dt :: nat
  si_decay :: string
  branch_time :: int
  handle :: string
  si_eps :: double
  si_eps_rsrc :: double
  explicit_inventory :: bool
  explicit_inventory_compact :: bool
  parent_sim :: string
  parent_type :: string

text \<open>The rows the kernel sends to the recorder, one constructor per table.\<close>

datatype (plugins only: size) krow =
    AgentEntry int string string string int int int
  | AgentExit int int
  | AgentState int int string int
  | AgentStateInventories int int string int
  | BuildSchedule int string int int
  | DecomSchedule int int int
  | Prototypes string int string
  | AgentVersions string string
  | Recipes string int
  | Info string int int int string string int
  | DecayMode string
  | InfoExplicitInv bool bool
  | TimeStepDur int
  | Epsilon double double
  | XMLPPInfo
  | Finish bool int
  | Snapshots int
  | NextIds int string int
  | ExplicitInventory int int string Nuc double
  | ExplicitInventoryCompact int int string double CompMap
  | Transactions int int int int string int
  | DebugRequests int ptr int string double bool string double string
  | DebugBids int ptr int double bool double
  | ArchetypeRow int string

text \<open>
  The members of \<open>Context\<close> and \<open>Timer\<close> with the agent store. The clock \<open>time_\<close> of the timer is
  \<open>w_time\<close> of the world the resources live in. \<open>managers\<close> are the \<open>Trader\<close> objects with their
  \<open>manager_\<close>; a facility is its own trader. \<open>s_user\<close> is the private state of all archetypes.
\<close>

record 'u sim =
  s_world :: world
  s_agents :: "ptr \<rightharpoonup> agent"
  s_next :: ptr
  next_agent_id :: int
  managers :: "ptr \<rightharpoonup> ptr"
  agent_list :: "ptr list"
  protos :: "(string, ptr) omap"
  recipes :: "(string, ptr) omap"
  s_traders :: "ptr list"
  n_prototypes :: "(string, int) omap"
  n_specs :: "(string, int) omap"
  rec_ver :: "string list"
  trans_id :: int
  ctx_si :: SimInfo
  ti_si :: SimInfo
  tickers :: "(int, ptr) omap"
  build_queue :: "(int, (string \<times> ptr option) list) omap"
  decom_queue :: "(int, ptr list) omap"
  want_snapshot :: bool
  want_kill :: bool
  s_db :: "krow list"
  s_user :: 'u

text \<open>
  The virtual methods an archetype overrides. \<open>cb_InitFrom\<close> copies the archetype's own state into a
  new clone; \<open>cb_EnterNotify\<close> and \<open>cb_Decommission\<close> are what an override does after and before the
  call of the superclass's version, which agent.h requires.
\<close>

record 'u arch =
  cb_InitFrom :: "ptr \<Rightarrow> ptr \<Rightarrow> 'u \<Rightarrow> 'u"
  cb_EnterNotify :: "ptr \<Rightarrow> 'u sim \<Rightarrow> ('u sim, unit) exec"
  cb_Decommission :: "ptr \<Rightarrow> 'u sim \<Rightarrow> ('u sim, unit) exec"
  cb_BuildNotify :: "ptr \<Rightarrow> ptr \<Rightarrow> 'u sim \<Rightarrow> ('u sim, unit) exec"
  cb_DecomNotify :: "ptr \<Rightarrow> ptr \<Rightarrow> 'u sim \<Rightarrow> ('u sim, unit) exec"
  cb_CheckDecom :: "ptr \<Rightarrow> 'u sim \<Rightarrow> bool"
  cb_Tick :: "ptr \<Rightarrow> 'u sim \<Rightarrow> ('u sim, unit) exec"
  cb_Tock :: "ptr \<Rightarrow> 'u sim \<Rightarrow> ('u sim, unit) exec"
  cb_Snapshot :: "ptr \<Rightarrow> 'u sim \<Rightarrow> string list"
  cb_SnapshotInv :: "ptr \<Rightarrow> 'u sim \<Rightarrow> (string \<times> ptr list) list"
  cb_version :: "ptr \<Rightarrow> string"

abbreviation time_of :: "'u sim \<Rightarrow> int" where
  "time_of s \<equiv> w_time (s_world s)"

definition upd_agent :: "ptr \<Rightarrow> (agent \<Rightarrow> agent) \<Rightarrow> 'u sim \<Rightarrow> 'u sim" where
  "upd_agent p f s = s\<lparr>s_agents := (s_agents s)(p := map_option f (s_agents s p))\<rparr>"

definition record_row :: "krow \<Rightarrow> 'u sim \<Rightarrow> 'u sim" where
  "record_row r s = s\<lparr>s_db := s_db s @ [r]\<rparr>"

text \<open>Running an operation on the resources inside the simulation.\<close>

definition on_world :: "(world \<Rightarrow> (world, 'a) exec) \<Rightarrow> 'u sim \<Rightarrow> ('u sim, 'a) exec" where
  "on_world f s = (case f (s_world s) of (r, w) \<Rightarrow> (r, s\<lparr>s_world := w\<rparr>))"

text \<open>\<open>static_cast<int>\<close> of an unsigned 64-bit number.\<close>

definition to_int32 :: "nat \<Rightarrow> int" where
  "to_int32 n = (int n + 2 ^ 31) mod 2 ^ 32 - 2 ^ 31"

section \<open>SimInfo\<close>

text \<open>The constructors leave \<open>eps\<close> and \<open>eps_rsrc\<close> uninitialised: \<open>junk\<close> is what they happen to hold.\<close>

definition SimInfo_new :: "double \<times> double \<Rightarrow> int \<Rightarrow> int \<Rightarrow> int \<Rightarrow> string \<Rightarrow> string \<Rightarrow> SimInfo" where
  "SimInfo_new junk dur y m h d =
     \<lparr>duration = dur, y0 = y, m0 = m, si_dt = kDefaultTimeStepDur, si_decay = d, branch_time = -1, handle = h,
      si_eps = fst junk, si_eps_rsrc = snd junk, explicit_inventory = False, explicit_inventory_compact = False,
      parent_sim = ''00000000-0000-0000-0000-000000000000'', parent_type = ''init''\<rparr>"

definition SimInfo_branch :: "double \<times> double \<Rightarrow> int \<Rightarrow> string \<Rightarrow> int \<Rightarrow> string \<Rightarrow> string \<Rightarrow> SimInfo" where
  "SimInfo_branch junk dur psim bt ptype h =
     (SimInfo_new junk dur (-1) (-1) h ''manual'')\<lparr>parent_sim := psim, parent_type := ptype, branch_time := bt\<rparr>"

end
