(* ===== verification/Sim_Kernel.thy ===== *)
theory Sim_Kernel
  imports Sim_State "HOL-Library.Monad_Syntax"
begin

text \<open>
  The operations of agent.cc, facility.cc, institution.cc, region.cc, context.{h,cc} and the
  scheduling part of timer.cc on the state of \<open>Sim_State\<close>.
\<close>

section \<open>Agents\<close>

definition Agent_new :: "akind \<Rightarrow> 'u sim \<Rightarrow> ptr \<times> 'u sim" where
  "Agent_new k s =
     (let p = s_next s
      in (p, s\<lparr>s_agents := (s_agents s)(p \<mapsto> \<lparr>ag_kind = k, ag_id = next_agent_id s, ag_prototype = '''',
                 ag_spec = ''UNSPECIFIED'', ag_lifetime = -1, ag_enter_time = -1, ag_parent = None,
                 ag_parent_id = -1, ag_children = []\<rparr>),
               s_next := Suc p, next_agent_id := next_agent_id s + 1,
               agent_list := oset_ins p (agent_list s),
               managers := (if k = KFacility then (managers s)(p \<mapsto> p) else managers s)\<rparr>))"

text \<open>\<open>Agent::InitFrom(Agent*)\<close>: \<open>this\<close> takes over the configuration of \<open>m\<close>.\<close>

definition Agent_InitFrom :: "agent \<Rightarrow> agent \<Rightarrow> agent" where
  "Agent_InitFrom m this = this\<lparr>ag_prototype := ag_prototype m, ag_kind := ag_kind m,
     ag_spec := ag_spec m, ag_lifetime := ag_lifetime m\<rparr>"

text \<open>\<open>Clone()\<close> as agent.h asks archetypes to write it: make a new instance and call \<open>InitFrom\<close>.\<close>

definition Clone :: "'u arch \<Rightarrow> ptr \<Rightarrow> 'u sim \<Rightarrow> ('u sim, ptr) exec" where
  "Clone cb q s = deref (s_agents s q) s (\<lambda>m.
     let (p, s1) = Agent_new (ag_kind m) s
     in ok p ((upd_agent p (Agent_InitFrom m) s1)\<lparr>s_user := cb_InitFrom cb p q (s_user s1)\<rparr>))"

definition orphan :: "ptr \<Rightarrow> 'u sim \<Rightarrow> ('u sim, unit) exec" where
  "orphan c s = deref (s_agents s c) s (\<lambda>_.
     ok () (upd_agent c (\<lambda>b. b\<lparr>ag_parent := None, ag_parent_id := -1\<rparr>) s))"

text \<open>The destructor; the object is gone afterwards.\<close>

definition Agent_delete :: "ptr \<Rightarrow> 'u sim \<Rightarrow> ('u sim, unit) exec" where
  "Agent_delete p s = deref (s_agents s p) s (\<lambda>a.
     let s1 = s\<lparr>agent_list := oset_del p (agent_list s)\<rparr>
     in andThen (case ag_parent a of
                   None \<Rightarrow> ok () s1
                 | Some q \<Rightarrow> deref (s_agents s1 q) s1 (\<lambda>_. ok () (upd_agent q (ag_children_update (oset_del p)) s1)))
          (\<lambda>_ s2. andThen (foreach orphan (ag_children a) s2)
          (\<lambda>_ s3. ok () (s3\<lparr>s_agents := (s_agents s3)(p := None)\<rparr>))))"

definition set_lifetime :: "ptr \<Rightarrow> int \<Rightarrow> 'u sim \<Rightarrow> ('u sim, unit) exec" where
  "set_lifetime p n s = deref (s_agents s p) s (\<lambda>a.
     if ag_enter_time a \<noteq> -1 then throw ValueError s
     else ok () (upd_agent p (ag_lifetime_update (\<lambda>_. n)) s))"

definition exit_time :: "agent \<Rightarrow> int" where
  "exit_time a = (if ag_lifetime a = -1 then -1 else ag_enter_time a + ag_lifetime a - 1)"

text \<open>Walking up the parents may run in a circle and walking down the children too, so both are
  partial; None is a walk that does not end.\<close>

partial_function (option) ancestor_loop :: "ptr \<Rightarrow> ptr option \<Rightarrow> 'u sim \<Rightarrow> ('u sim, bool) exec option" where
  "ancestor_loop this other s =
     (case other of
        None \<Rightarrow> Some (ok False s)
      | Some q \<Rightarrow> if this = q then Some (ok True s)
          else (case s_agents s q of None \<Rightarrow> Some (throw Undefined s)
                | Some b \<Rightarrow> ancestor_loop this (ag_parent b) s))"

definition AncestorOf :: "ptr \<Rightarrow> ptr \<Rightarrow> 'u sim \<Rightarrow> ('u sim, bool) exec option" where
  "AncestorOf this other s =
     (case s_agents s other of None \<Rightarrow> Some (throw Undefined s) | Some b \<Rightarrow> ancestor_loop this (ag_parent b) s)"

text \<open>\<open>DecendentOf\<close> with the loop over the children as the worklist \<open>cs\<close>: the recursive call on a
  child comes before the rest of the children.\<close>

partial_function (option) descendent_loop :: "ptr \<Rightarrow> ptr list \<Rightarrow> 'u sim \<Rightarrow> ('u sim, bool) exec option" where
  "descendent_loop this cs s =
     (case cs of
        [] \<Rightarrow> Some (ok False s)
      | c # cs' \<Rightarrow>
          if this = c then Some (ok True s)
          else (case s_agents s c of None \<Rightarrow> Some (throw Undefined s)
                | Some b \<Rightarrow> descendent_loop this (ag_children b) s \<bind> (\<lambda>r.
                    if fst r = Inr False then descendent_loop this cs' s else Some r)))"

definition DecendentOf :: "ptr \<Rightarrow> ptr \<Rightarrow> 'u sim \<Rightarrow> ('u sim, bool) exec option" where
  "DecendentOf this other s =
     (case s_agents s other of None \<Rightarrow> Some (throw Undefined s) | Some b \<Rightarrow> descendent_loop this (ag_children b) s)"

definition InFamilyTree :: "ptr \<Rightarrow> ptr \<Rightarrow> 'u sim \<Rightarrow> ('u sim, bool) exec option" where
  "InFamilyTree this other s =
     (if this = other then Some (ok True s)
      else AncestorOf this other s \<bind> (\<lambda>r.
        if fst r = Inr False then DecendentOf this other s else Some r))"

text \<open>
  \<open>GetTreePrintOuts(m)\<close> of agent \<open>this\<close>. The loop runs over the children of \<open>this\<close>, not of the
  argument. \<open>tree_outs\<close> is the loop over the remaining children \<open>cs\<close>.
\<close>

definition endl :: string where
  "endl = [CHR 0x0A]"

definition tab :: string where
  "tab = [CHR 0x09]"

partial_function (option) tree_outs :: "ptr \<Rightarrow> ptr \<Rightarrow> ptr list \<Rightarrow> 'u sim \<Rightarrow> (exn + string list) option" where
  "tree_outs this m cs s =
     (case s_agents s m of
        None \<Rightarrow> Some (Inl Undefined)
      | Some b \<Rightarrow>
          (case cs of
             [] \<Rightarrow> Some (Inr [ag_prototype b @ endl])
           | c # cs' \<Rightarrow>
               tree_outs this c (case s_agents s this of None \<Rightarrow> [] | Some a \<Rightarrow> ag_children a) s \<bind> (\<lambda>r.
                 case r of
                   Inl e \<Rightarrow> Some (Inl e)
                 | Inr outs \<Rightarrow> tree_outs this m cs' s \<bind> (\<lambda>r'.
                     case r' of
                       Inl e \<Rightarrow> Some (Inl e)
                     | Inr rest \<Rightarrow> Some (Inr (hd rest # map (\<lambda>o1. tab @ o1 @ endl) outs @ tl rest))))))"

definition GetTreePrintOuts :: "ptr \<Rightarrow> ptr \<Rightarrow> 'u sim \<Rightarrow> (exn + string list) option" where
  "GetTreePrintOuts this m s =
     tree_outs this m (case s_agents s this of None \<Rightarrow> [] | Some a \<Rightarrow> ag_children a) s"

fun print_children :: "ptr \<Rightarrow> ptr list \<Rightarrow> 'u sim \<Rightarrow> (exn + string) option" where
  "print_children this [] s = Some (Inr '''')"
| "print_children this (c # cs) s =
     GetTreePrintOuts this c s \<bind> (\<lambda>r.
       case r of
         Inl e \<Rightarrow> Some (Inl e)
       | Inr outs \<Rightarrow> print_children this cs s \<bind> (\<lambda>r'.
           case r' of Inl e \<Rightarrow> Some (Inl e) | Inr rest \<Rightarrow> Some (Inr (concat (map (\<lambda>o1. tab @ o1) outs) @ rest))))"

definition PrintChildren :: "ptr \<Rightarrow> 'u sim \<Rightarrow> (exn + string) option" where
  "PrintChildren this s =
     (case s_agents s this of
        None \<Rightarrow> Some (Inl Undefined)
      | Some a \<Rightarrow> print_children this (ag_children a) s \<bind> (\<lambda>r.
          case r of Inl e \<Rightarrow> Some (Inl e)
          | Inr t \<Rightarrow> Some (Inr (''Children of '' @ ag_prototype a @ '':'' @ endl @ t))))"

section \<open>Context\<close>

definition Context_new :: "SimInfo \<Rightarrow> world \<Rightarrow> 'u \<Rightarrow> 'u sim" where
  "Context_new si w u =
     \<lparr>s_world = w\<lparr>w_time := 0\<rparr>, s_agents = Map.empty, s_next = 0, next_agent_id = 0, managers = Map.empty, agent_list = [],
      protos = [], recipes = [], s_traders = [], n_prototypes = [], n_specs = [], rec_ver = [], trans_id = 0,
      ctx_si = si, ti_si = si, tickers = [], build_queue = [], decom_queue = [], want_snapshot = False,
      want_kill = False, s_db = [], s_user = u\<rparr>"

definition RegisterTrader :: "ptr \<Rightarrow> 'u sim \<Rightarrow> 'u sim" where
  "RegisterTrader e s = s\<lparr>s_traders := oset_ins e (s_traders s)\<rparr>"

definition UnregisterTrader :: "ptr \<Rightarrow> 'u sim \<Rightarrow> 'u sim" where
  "UnregisterTrader e s = s\<lparr>s_traders := oset_del e (s_traders s)\<rparr>"

definition RegisterTimeListener :: "ptr \<Rightarrow> 'u sim \<Rightarrow> ('u sim, unit) exec" where
  "RegisterTimeListener p s = deref (s_agents s p) s (\<lambda>a. ok () (s\<lparr>tickers := omap_put (ag_id a) p (tickers s)\<rparr>))"

definition UnregisterTimeListener :: "ptr \<Rightarrow> 'u sim \<Rightarrow> ('u sim, unit) exec" where
  "UnregisterTimeListener p s = deref (s_agents s p) s (\<lambda>a. ok () (s\<lparr>tickers := omap_del (ag_id a) (tickers s)\<rparr>))"

definition RegisterAgent :: "agent \<Rightarrow> 'u sim \<Rightarrow> 'u sim" where
  "RegisterAgent a s =
     s\<lparr>n_prototypes := omap_put (ag_prototype a) (omap_sub 0 (n_prototypes s) (ag_prototype a) + 1) (n_prototypes s),
       n_specs := omap_put (ag_spec a) (omap_sub 0 (n_specs s) (ag_spec a) + 1) (n_specs s)\<rparr>"

definition UnregisterAgent :: "agent \<Rightarrow> 'u sim \<Rightarrow> 'u sim" where
  "UnregisterAgent a s =
     s\<lparr>n_prototypes := omap_put (ag_prototype a) (omap_sub 0 (n_prototypes s) (ag_prototype a) - 1) (n_prototypes s),
       n_specs := omap_put (ag_spec a) (omap_sub 0 (n_specs s) (ag_spec a) - 1) (n_specs s)\<rparr>"

definition DelAgent :: "ptr \<Rightarrow> 'u sim \<Rightarrow> ('u sim, unit) exec" where
  "DelAgent p s =
     (if p \<in> set (agent_list s) then Agent_delete p (s\<lparr>agent_list := oset_del p (agent_list s)\<rparr>) else ok () s)"

text \<open>\<open>isT\<close> is the dynamic cast to the class asked for.\<close>

definition CreateAgent :: "'u arch \<Rightarrow> (agent \<Rightarrow> bool) \<Rightarrow> string \<Rightarrow> 'u sim \<Rightarrow> ('u sim, ptr) exec" where
  "CreateAgent cb isT proto_name s =
     (case map_of (protos s) proto_name of
        None \<Rightarrow> throw KeyError s
      | Some m \<Rightarrow> andThen (Clone cb m s) (\<lambda>p s1. deref (s_agents s1 p) s1 (\<lambda>a.
          if isT a then ok p s1
          else andThen (DelAgent p s1) (\<lambda>_ s2. throw CastError s2))))"

definition Timer_SchedBuild :: "ptr option \<Rightarrow> string \<Rightarrow> int \<Rightarrow> 'u sim \<Rightarrow> ('u sim, unit) exec" where
  "Timer_SchedBuild parent proto_name t s =
     (if t \<le> time_of s then throw ValueError s
      else ok () (s\<lparr>build_queue := omap_push t (proto_name, parent) (build_queue s)\<rparr>))"

definition Context_SchedBuild :: "ptr option \<Rightarrow> string \<Rightarrow> int \<Rightarrow> 'u sim \<Rightarrow> ('u sim, unit) exec" where
  "Context_SchedBuild parent proto_name t0 s =
     (let t = (if t0 = -1 then time_of s + 1 else t0)
      in andThen (case parent of None \<Rightarrow> ok (-1) s | Some q \<Rightarrow> deref (s_agents s q) s (\<lambda>b. ok (ag_id b) s)) (\<lambda>pid s.
         andThen (Timer_SchedBuild parent proto_name t s) (\<lambda>_ s1.
           ok () (record_row (BuildSchedule pid proto_name (time_of s1) t) s1))))"

text \<open>Removing the first earlier decommissioning of \<open>m\<close> from the queue.\<close>

fun unsched :: "ptr \<Rightarrow> (int, ptr list) omap \<Rightarrow> (int, ptr list) omap" where
  "unsched m [] = []"
| "unsched m ((t, ags) # q) = (if m \<in> set ags then (t, remove1 m ags) # q else (t, ags) # unsched m q)"

definition Timer_SchedDecom :: "ptr \<Rightarrow> int \<Rightarrow> 'u sim \<Rightarrow> ('u sim, unit) exec" where
  "Timer_SchedDecom m t s =
     (if t < time_of s then throw ValueError s
      else ok () (s\<lparr>decom_queue := omap_push t m (unsched m (decom_queue s))\<rparr>))"

definition Context_SchedDecom :: "ptr \<Rightarrow> int \<Rightarrow> 'u sim \<Rightarrow> ('u sim, unit) exec" where
  "Context_SchedDecom m t0 s =
     (let t = (if t0 = -1 then time_of s else t0)
      in andThen (Timer_SchedDecom m t s) (\<lambda>_ s1.
         deref (s_agents s1 m) s1 (\<lambda>a. ok () (record_row (DecomSchedule (ag_id a) (time_of s1) t) s1))))"

definition AddRecipe :: "string \<Rightarrow> ptr \<Rightarrow> 'u sim \<Rightarrow> ('u sim, unit) exec" where
  "AddRecipe name c s =
     (let s1 = s\<lparr>recipes := omap_put name c (recipes s)\<rparr>
      in deref (w_comp (s_world s1) c) s1 (\<lambda>cp. ok () (record_row (Recipes name (comp_id cp)) s1)))"

definition GetRecipe :: "string \<Rightarrow> 'u sim \<Rightarrow> ('u sim, ptr) exec" where
  "GetRecipe name s = (case map_of (recipes s) name of None \<Rightarrow> throw KeyError s | Some c \<Rightarrow> ok c s)"

definition NextTransactionID :: "'u sim \<Rightarrow> int \<times> 'u sim" where
  "NextTransactionID s = (trans_id s, s\<lparr>trans_id := trans_id s + 1\<rparr>)"

definition Timer_Initialize :: "SimInfo \<Rightarrow> 'u sim \<Rightarrow> ('u sim, unit) exec" where
  "Timer_Initialize si s =
     (if m0 si < 1 \<or> m0 si > 12 then throw ValueError s
      else ok () (s\<lparr>want_kill := False, ti_si := si,
                    s_world := (s_world s)\<lparr>w_time := (if branch_time si > -1 then branch_time si else 0)\<rparr>\<rparr>))"

definition InitSim :: "SimInfo \<Rightarrow> 'u sim \<Rightarrow> ('u sim, unit) exec" where
  "InitSim si s =
     (let s1 = record_row (Info (handle si) (y0 si) (m0 si) (duration si) (parent_sim si) (parent_type si) (branch_time si)) s;
          s2 = record_row (DecayMode (si_decay si)) s1;
          s3 = record_row (InfoExplicitInv (explicit_inventory si) (explicit_inventory_compact si)) s2;
          s4 = record_row (TimeStepDur (to_int32 (si_dt si))) s3;
          s5 = record_row (Epsilon (si_eps si) (si_eps_rsrc si)) s4;
          s6 = record_row XMLPPInfo s5
      in Timer_Initialize si (s6\<lparr>ctx_si := si, s_world := (s_world s6)\<lparr>w_decay := si_decay si, w_dt := si_dt si\<rparr>\<rparr>))"

definition Timer_Reset :: "double \<times> double \<Rightarrow> 'u sim \<Rightarrow> 'u sim" where
  "Timer_Reset junk s = s\<lparr>tickers := [], build_queue := [], decom_queue := [], ti_si := SimInfo_new junk 0 2010 1 '''' ''manual''\<rparr>"

definition Timer_Snapshot :: "'u sim \<Rightarrow> 'u sim" where
  "Timer_Snapshot s = s\<lparr>want_snapshot := True\<rparr>"

definition KillSim :: "'u sim \<Rightarrow> 'u sim" where
  "KillSim s = s\<lparr>want_kill := True\<rparr>"

text \<open>The destructor of the context, as far as the agents are concerned.\<close>

definition Context_delete :: "'u sim \<Rightarrow> ('u sim, unit) exec" where
  "Context_delete s =
     foreach DelAgent (filter (\<lambda>p. case s_agents s p of None \<Rightarrow> False | Some a \<Rightarrow> ag_parent a = None) (agent_list s)) s"

section \<open>Entering and leaving the simulation\<close>

definition Connect :: "ptr \<Rightarrow> ptr option \<Rightarrow> 'u sim \<Rightarrow> ('u sim, unit) exec" where
  "Connect p parent s =
     (if parent = Some p then throw KeyError s
      else case parent of
        None \<Rightarrow> ok () s
      | Some q \<Rightarrow> deref (s_agents s q) s (\<lambda>b.
          ok () (upd_agent q (ag_children_update (oset_ins p))
                  (upd_agent p (\<lambda>a. a\<lparr>ag_parent := Some q, ag_parent_id := ag_id b\<rparr>) s))))"

definition Agent_EnterNotify :: "ptr \<Rightarrow> agent \<Rightarrow> 'u sim \<Rightarrow> ('u sim, unit) exec" where
  "Agent_EnterNotify p a s = ok () (RegisterAgent a s)"

definition Facility_EnterNotify :: "ptr \<Rightarrow> agent \<Rightarrow> 'u sim \<Rightarrow> ('u sim, unit) exec" where
  "Facility_EnterNotify p a s =
     andThen (Agent_EnterNotify p a s) (\<lambda>_ s1. RegisterTimeListener p (RegisterTrader p s1))"

definition Institution_EnterNotify :: "ptr \<Rightarrow> agent \<Rightarrow> 'u sim \<Rightarrow> ('u sim, unit) exec" where
  "Institution_EnterNotify p a s = RegisterTimeListener p s"

definition Region_EnterNotify :: "ptr \<Rightarrow> agent \<Rightarrow> 'u sim \<Rightarrow> ('u sim, unit) exec" where
  "Region_EnterNotify p a s = RegisterTimeListener p s"

text \<open>The virtual call: the version of the agent's class, then what the archetype adds.\<close>

definition EnterNotify :: "'u arch \<Rightarrow> ptr \<Rightarrow> 'u sim \<Rightarrow> ('u sim, unit) exec" where
  "EnterNotify cb p s = deref (s_agents s p) s (\<lambda>a.
     andThen (case ag_kind a of
                KAgent \<Rightarrow> Agent_EnterNotify p a s
              | KFacility \<Rightarrow> Facility_EnterNotify p a s
              | KInst \<Rightarrow> Institution_EnterNotify p a s
              | KRegion \<Rightarrow> Region_EnterNotify p a s)
       (\<lambda>_ s1. cb_EnterNotify cb p s1))"

lemmas EnterNotify_unfold = EnterNotify_def Agent_EnterNotify_def Facility_EnterNotify_def Institution_EnterNotify_def
  Region_EnterNotify_def andThen_simps

definition AddToTable :: "ptr \<Rightarrow> 'u sim \<Rightarrow> ('u sim, unit) exec" where
  "AddToTable p s = deref (s_agents s p) s (\<lambda>a.
     ok () (record_row (AgentEntry (ag_id a) (kind_name (ag_kind a)) (ag_spec a) (ag_prototype a) (ag_parent_id a)
       (ag_lifetime a) (ag_enter_time a)) s))"

definition Agent_Build :: "'u arch \<Rightarrow> ptr \<Rightarrow> ptr option \<Rightarrow> 'u sim \<Rightarrow> ('u sim, unit) exec" where
  "Agent_Build cb p parent s =
     andThen (Connect p parent s) (\<lambda>_ s1.
     andThen (EnterNotify cb p (upd_agent p (ag_enter_time_update (\<lambda>_. time_of s1)) s1)) (\<lambda>_ s2.
       AddToTable p s2))"

definition Agent_Decommission :: "ptr \<Rightarrow> 'u sim \<Rightarrow> ('u sim, unit) exec" where
  "Agent_Decommission p s = deref (s_agents s p) s (\<lambda>a.
     DelAgent p (UnregisterAgent a (record_row (AgentExit (ag_id a) (time_of s)) s)))"

definition Facility_Decommission :: "'u arch \<Rightarrow> ptr \<Rightarrow> 'u sim \<Rightarrow> ('u sim, unit) exec" where
  "Facility_Decommission cb p s =
     (if \<not> cb_CheckDecom cb p s then throw Error_exn s
      else andThen (UnregisterTimeListener p (UnregisterTrader p s)) (\<lambda>_ s1. Agent_Decommission p s1))"

definition Institution_Decommission :: "ptr \<Rightarrow> 'u sim \<Rightarrow> ('u sim, unit) exec" where
  "Institution_Decommission p s = andThen (UnregisterTimeListener p s) (\<lambda>_ s1. Agent_Decommission p s1)"

definition Region_Decommission :: "ptr \<Rightarrow> 'u sim \<Rightarrow> ('u sim, unit) exec" where
  "Region_Decommission p s = andThen (UnregisterTimeListener p s) (\<lambda>_ s1. Agent_Decommission p s1)"

definition Decommission :: "'u arch \<Rightarrow> ptr \<Rightarrow> 'u sim \<Rightarrow> ('u sim, unit) exec" where
  "Decommission cb p s =
     andThen (cb_Decommission cb p s) (\<lambda>_ s1. deref (s_agents s1 p) s1 (\<lambda>a.
       case ag_kind a of
         KAgent \<Rightarrow> Agent_Decommission p s1
       | KFacility \<Rightarrow> Facility_Decommission cb p s1
       | KInst \<Rightarrow> Institution_Decommission p s1
       | KRegion \<Rightarrow> Region_Decommission p s1))"

lemmas Decommission_unfold = Decommission_def Facility_Decommission_def Institution_Decommission_def Region_Decommission_def

text \<open>The default \<open>Tock\<close> of an institution: children at the end of their life are scheduled for
  decommissioning now.\<close>

definition retire_child :: "'u arch \<Rightarrow> ptr \<Rightarrow> 'u sim \<Rightarrow> ('u sim, unit) exec" where
  "retire_child cb c s = deref (s_agents s c) s (\<lambda>a.
     if ag_lifetime a \<noteq> -1 \<and> time_of s \<ge> exit_time a then
       (if ag_kind a \<noteq> KFacility \<or> cb_CheckDecom cb c s then Context_SchedDecom c (-1) s else ok () s)
     else ok () s)"

definition Institution_Tock :: "'u arch \<Rightarrow> ptr \<Rightarrow> 'u sim \<Rightarrow> ('u sim, unit) exec" where
  "Institution_Tock cb p s = deref (s_agents s p) s (\<lambda>a. foreach (retire_child cb) (ag_children a) s)"

section \<open>Snapshots\<close>

definition SnapAgent :: "'u arch \<Rightarrow> ptr \<Rightarrow> 'u sim \<Rightarrow> ('u sim, unit) exec" where
  "SnapAgent cb p s = deref (s_agents s p) s (\<lambda>a.
     let s1 = record_row (AgentState (ag_id a) (time_of s) (ag_prototype a) (ag_lifetime a)) s;
         s2 = foldl (\<lambda>s r. record_row (ArchetypeRow (ag_id a) r) s) s1 (cb_Snapshot cb p s)
     in foreach (\<lambda>(name, inv) s. foreach (\<lambda>r s. deref (w_res (s_world s) r) s (\<lambda>rs.
          ok () (record_row (AgentStateInventories (ag_id a) (time_of s) name (state_id rs)) s))) inv s)
        (cb_SnapshotInv cb p s2) s2)"

text \<open>\<open>p->version()\<close> is the archetype's.\<close>

definition AddPrototype :: "'u arch \<Rightarrow> string \<Rightarrow> ptr \<Rightarrow> bool \<Rightarrow> 'u sim \<Rightarrow> ('u sim, unit) exec" where
  "AddPrototype cb name p overwrite s =
     (if \<not> overwrite \<and> map_of (protos s) name \<noteq> None then throw KeyError s
      else andThen (SnapAgent cb p (s\<lparr>protos := omap_put name p (protos s)\<rparr>)) (\<lambda>_ s1. deref (s_agents s1 p) s1 (\<lambda>a.
        let s2 = record_row (Prototypes name (ag_id a) (ag_spec a)) s1
        in ok () (if ag_spec a \<in> set (rec_ver s2) then s2
                  else record_row (AgentVersions (ag_spec a) (cb_version cb p))
                         (s2\<lparr>rec_ver := oset_ins (ag_spec a) (rec_ver s2)\<rparr>)))))"

definition next_ids :: "'u sim \<Rightarrow> krow list" where
  "next_ids s =
     [NextIds (time_of s) ''Agent'' (next_agent_id s),
      NextIds (time_of s) ''Transaction'' (trans_id s),
      NextIds (time_of s) ''Composition'' (next_comp_id (s_world s)),
      NextIds (time_of s) ''ResourceState'' (nextstate_id (s_world s)),
      NextIds (time_of s) ''ResourceObj'' (nextobj_id (s_world s)),
      NextIds (time_of s) ''Product'' (next_qualid (s_world s))]"

definition SimInit_Snapshot :: "'u arch \<Rightarrow> 'u sim \<Rightarrow> ('u sim, unit) exec" where
  "SimInit_Snapshot cb s =
     (let s1 = record_row (Snapshots (time_of s)) s
      in andThen (foreach (\<lambda>p s. deref (s_agents s p) s (\<lambda>a.
             if ag_enter_time a \<noteq> -1 then SnapAgent cb p s else ok () s)) (agent_list s1) s1) (\<lambda>_ s2.
           ok () (foldl (\<lambda>s r. record_row r s) s2 (next_ids s2))))"

end
