(* ===== verification/Sim_Timer.thy ===== *)
theory Sim_Timer
  imports Sim_Kernel
begin

text \<open>
  timer.cc: the phases of a time step and the main loop. The two exchange managers are the
  parameter \<open>resex\<close>, so that this theory does not depend on the exchange. A loop that can go on
  forever is partial; its value None is not returning.
\<close>

section \<open>Sequencing of operations that may not return\<close>

type_synonym ('s, 'a) pexec = "('s, 'a) exec option"

definition pthen :: "('s, 'a) pexec \<Rightarrow> ('a \<Rightarrow> 's \<Rightarrow> ('s, 'b) pexec) \<Rightarrow> ('s, 'b) pexec" where
  "pthen r f = r \<bind> (\<lambda>x. case fst x of Inl e \<Rightarrow> Some (Inl e, snd x) | Inr a \<Rightarrow> f a (snd x))"

lemma pthen_simps [simp, exec_simps]:
  "pthen None f = None"
  "pthen (Some (ok a s)) f = f a s"
  "pthen (Some (throw e s)) f = Some (throw e s)"
  "pthen (Some (Inl e, s)) f = Some (Inl e, s)"
  "pthen (Some (Inr a, s)) f = f a s"
  by (simp_all add: pthen_def ok_def throw_def)

lemma pthen_mono [partial_function_mono]:
  assumes "mono_option f" and "\<And>a s. mono_option (\<lambda>x. g x a s)"
  shows "mono_option (\<lambda>x. pthen (f x) (g x))"
  unfolding pthen_def
proof (intro bind_mono assms(1))
  fix y :: "('d, 'c) exec"
  show "mono_option (\<lambda>x. case fst y of Inl e \<Rightarrow> Some (Inl e, snd y) | Inr a \<Rightarrow> g x a (snd y))"
    using assms(2) by (cases "fst y") (simp_all add: monotone_def flat_ord_def)
qed

lemma pthen_Some: "pthen r f = Some (Inr b, s') \<longleftrightarrow> (\<exists>a s. r = Some (Inr a, s) \<and> f a s = Some (Inr b, s'))"
  by (cases r) (auto simp: pthen_def split: sum.splits)

section \<open>Phases\<close>

definition build_one :: "'u arch \<Rightarrow> string \<times> ptr option \<Rightarrow> 'u sim \<Rightarrow> ('u sim, unit) exec" where
  "build_one cb b s =
     andThen (CreateAgent cb (\<lambda>_. True) (fst b) s) (\<lambda>m s1.
     andThen (Agent_Build cb m (snd b) s1) (\<lambda>_ s2.
       case snd b of None \<Rightarrow> ok () s2 | Some q \<Rightarrow> deref (s_agents s2 q) s2 (\<lambda>_. cb_BuildNotify cb q m s2)))"

definition DoBuild :: "'u arch \<Rightarrow> 'u sim \<Rightarrow> ('u sim, unit) exec" where
  "DoBuild cb s = foreach (build_one cb) (omap_sub [] (build_queue s) (time_of s))
     (s\<lparr>build_queue := omap_touch [] (time_of s) (build_queue s)\<rparr>)"

text \<open>
  The iteration over \<open>tickers_\<close>: the iterator stands at key \<open>k\<close>; stepping on goes to the next larger
  key the map then has, and is undefined when the listener was erased meanwhile.
\<close>

definition next_ticker :: "int \<Rightarrow> (int, ptr) omap \<Rightarrow> (int \<times> ptr) option" where
  "next_ticker k m = List.find (\<lambda>(k', _). k < k') m"

definition first_ticker :: "(int, ptr) omap \<Rightarrow> (int \<times> ptr) option" where
  "first_ticker m = (case m of [] \<Rightarrow> None | x # _ \<Rightarrow> Some x)"

partial_function (option) ticker_loop :: "(ptr \<Rightarrow> 'u sim \<Rightarrow> ('u sim, unit) exec) \<Rightarrow> (int \<times> ptr) option \<Rightarrow> 'u sim \<Rightarrow> ('u sim, unit) pexec" where
  "ticker_loop f it s =
     (case it of
        None \<Rightarrow> Some (ok () s)
      | Some kp \<Rightarrow> pthen (Some (deref (s_agents s (snd kp)) s (\<lambda>_. f (snd kp) s))) (\<lambda>_ s1.
          if map_of (tickers s1) (fst kp) = None then Some (throw Undefined s1)
          else ticker_loop f (next_ticker (fst kp) (tickers s1)) s1))"

definition DoTick :: "'u arch \<Rightarrow> 'u sim \<Rightarrow> ('u sim, unit) pexec" where
  "DoTick cb s = ticker_loop (cb_Tick cb) (first_ticker (tickers s)) s"

definition RecordInventory :: "nucdata \<Rightarrow> agent \<Rightarrow> string \<Rightarrow> ptr \<Rightarrow> 'u sim \<Rightarrow> ('u sim, unit) exec" where
  "RecordInventory nd a name m s =
     andThen (if explicit_inventory (ti_si s) then
                andThen (on_world (Material_comp nd m) s) (\<lambda>cp s1.
                andThen (on_world (Composition_mass nd cp) s1) (\<lambda>c s2. deref (w_res (s_world s2) m) s2 (\<lambda>r.
                  ok () (foldl (\<lambda>s (nuc, q). record_row (ExplicitInventory (ag_id a) (time_of s) name nuc q) s) s2
                    (compmath_Normalize (quantity r) c)))))
              else ok () s) (\<lambda>_ s3.
       if explicit_inventory_compact (ti_si s3) then
         andThen (on_world (Material_comp nd m) s3) (\<lambda>cp s4.
         andThen (on_world (Composition_mass nd cp) s4) (\<lambda>c s5. deref (w_res (s_world s5) m) s5 (\<lambda>r.
           ok () (record_row (ExplicitInventoryCompact (ag_id a) (time_of s5) name (quantity r) (compmath_Normalize 1 c)) s5))))
       else ok () s3)"

text \<open>One inventory: the clones of its materials are mixed and the mixture is recorded.\<close>

definition is_material :: "world \<Rightarrow> ptr \<Rightarrow> bool" where
  "is_material w p = (case w_res w p of Some r \<Rightarrow> (case body r of MatBody _ _ \<Rightarrow> True | _ \<Rightarrow> False) | None \<Rightarrow> False)"

definition record_one_inventory :: "nucdata \<Rightarrow> agent \<Rightarrow> string \<times> ptr list \<Rightarrow> 'u sim \<Rightarrow> ('u sim, unit) exec" where
  "record_one_inventory nd a nv s =
     (case snd nv of
        [] \<Rightarrow> ok () s
      | mat # ms \<Rightarrow>
          if \<not> is_material (s_world s) mat then ok () s
          else andThen (on_world (res_Clone mat) s) (\<lambda>m s1.
               andThen (foreach (\<lambda>r s. andThen (on_world (res_Clone r) s) (\<lambda>c s.
                          on_world (Material_Absorb nd m c) s)) ms s1) (\<lambda>_ s2.
                 RecordInventory nd a (fst nv) m s2)))"

definition RecordInventories :: "nucdata \<Rightarrow> 'u arch \<Rightarrow> ptr \<Rightarrow> 'u sim \<Rightarrow> ('u sim, unit) exec" where
  "RecordInventories nd cb p s = deref (s_agents s p) s (\<lambda>a.
     foreach (record_one_inventory nd a) (cb_SnapshotInv cb p s) s)"

definition DoTock :: "nucdata \<Rightarrow> 'u arch \<Rightarrow> 'u sim \<Rightarrow> ('u sim, unit) pexec" where
  "DoTock nd cb s =
     pthen (ticker_loop (cb_Tock cb) (first_ticker (tickers s)) s) (\<lambda>_ s1.
       Some (if explicit_inventory (ti_si s1) \<or> explicit_inventory_compact (ti_si s1) then
               foreach (\<lambda>p s. deref (s_agents s p) s (\<lambda>a.
                 if ag_enter_time a = -1 then ok () s else RecordInventories nd cb p s)) (agent_list s1) s1
             else ok () s1))"

definition decom_one :: "'u arch \<Rightarrow> ptr \<Rightarrow> 'u sim \<Rightarrow> ('u sim, unit) exec" where
  "decom_one cb m s = deref (s_agents s m) s (\<lambda>a.
     andThen (case ag_parent a of None \<Rightarrow> ok () s | Some q \<Rightarrow> deref (s_agents s q) s (\<lambda>_. cb_DecomNotify cb q m s)) (\<lambda>_ s1.
       Decommission cb m s1))"

definition DoDecom :: "'u arch \<Rightarrow> 'u sim \<Rightarrow> ('u sim, unit) exec" where
  "DoDecom cb s = foreach (decom_one cb) (omap_sub [] (decom_queue s) (time_of s))
     (s\<lparr>decom_queue := omap_touch [] (time_of s) (decom_queue s)\<rparr>)"

section \<open>The main loop\<close>

text \<open>\<open>DoResEx\<close> runs the material exchange and then the product exchange.\<close>

definition DoResEx :: "('u sim \<Rightarrow> ('u sim, unit) pexec) \<Rightarrow> ('u sim \<Rightarrow> ('u sim, unit) pexec) \<Rightarrow> 'u sim \<Rightarrow> ('u sim, unit) pexec" where
  "DoResEx matmgr genmgr s = pthen (matmgr s) (\<lambda>_ s1. genmgr s1)"

definition advance :: "'u sim \<Rightarrow> 'u sim" where
  "advance s = s\<lparr>s_world := (s_world s)\<lparr>w_time := w_time (s_world s) + 1\<rparr>\<rparr>"

definition sim_step :: "nucdata \<Rightarrow> 'u arch \<Rightarrow> ('u sim \<Rightarrow> ('u sim, unit) pexec) \<Rightarrow> ('u sim \<Rightarrow> ('u sim, unit) pexec) \<Rightarrow> 'u sim \<Rightarrow> ('u sim, unit) pexec" where
  "sim_step nd cb matmgr genmgr s =
     pthen (Some (if want_snapshot s then SimInit_Snapshot cb (s\<lparr>want_snapshot := False\<rparr>) else ok () s)) (\<lambda>_ s1.
     pthen (Some (DoBuild cb s1)) (\<lambda>_ s2.
     pthen (DoTick cb s2) (\<lambda>_ s3.
     pthen (DoResEx matmgr genmgr s3) (\<lambda>_ s4.
     pthen (DoTock nd cb s4) (\<lambda>_ s5.
     pthen (Some (DoDecom cb s5)) (\<lambda>_ s6.
       Some (ok () (advance s6))))))))"

partial_function (option) run_loop :: "('u sim \<Rightarrow> ('u sim, unit) pexec) \<Rightarrow> 'u sim \<Rightarrow> ('u sim, unit) pexec" where
  "run_loop step s =
     (if time_of s < duration (ti_si s) then
        pthen (step s) (\<lambda>_ s1. if want_kill s1 then Some (ok () s1) else run_loop step s1)
      else Some (ok () s))"

definition RunSim :: "nucdata \<Rightarrow> 'u arch \<Rightarrow> ('u sim \<Rightarrow> ('u sim, unit) pexec) \<Rightarrow> ('u sim \<Rightarrow> ('u sim, unit) pexec) \<Rightarrow> 'u sim \<Rightarrow> ('u sim, unit) pexec" where
  "RunSim nd cb matmgr genmgr s =
     pthen (run_loop (sim_step nd cb matmgr genmgr) s) (\<lambda>_ s1.
       Some (SimInit_Snapshot cb (record_row (Finish (want_kill s1) (time_of s1 - 1)) s1)))"

end
