(* ===== verification/Sim_Invariant.thy ===== *)
theory Sim_Invariant
  imports Sim_Timer
begin

text \<open>
  What holds in every state a simulation reaches, whatever the archetypes do through the interface
  the context gives them: agents are unique and form a tree, time listeners are alive, and every
  scheduled decommissioning names a living agent once.
\<close>

section \<open>What an archetype may do\<close>

text \<open>
  One call of an archetype into the context: it may change its own state and the resources, write
  rows, register traders, ask for a snapshot or the end of the simulation, schedule builds and schedule
  decommissionings of living agents; of those that are queued for the current time only if \<open>sd\<close>.
\<close>

inductive api :: "bool \<Rightarrow> 'u sim \<Rightarrow> 'u sim \<Rightarrow> bool" for sd where
  user: "api sd s (s\<lparr>s_user := u\<rparr>)"
| matter: "w_time w = time_of s \<Longrightarrow> api sd s (s\<lparr>s_world := w\<rparr>)"
| row: "api sd s (record_row r s)"
| trader: "api sd s (RegisterTrader e s)"
| untrader: "api sd s (UnregisterTrader e s)"
| manager: "api sd s (s\<lparr>managers := m\<rparr>)"
| snapshot: "api sd s (Timer_Snapshot s)"
| kill: "api sd s (KillSim s)"
| transaction: "api sd s (snd (NextTransactionID s))"
| recipe: "api sd s (snd (AddRecipe name c s))"
| build: "api sd s (snd (Context_SchedBuild parent name t s))"
| decom: "sd \<or> m \<notin> set (omap_sub [] (decom_queue s) (time_of s)) \<Longrightarrow> s_agents s m \<noteq> None \<Longrightarrow> api sd s (snd (Context_SchedDecom m t s))"

text \<open>The part of the state no such call changes.\<close>

definition core :: "'u sim \<Rightarrow> (ptr \<rightharpoonup> agent) \<times> ptr \<times> int \<times> ptr list \<times> (int, ptr) omap \<times> int \<times> SimInfo" where
  "core s = (s_agents s, s_next s, next_agent_id s, agent_list s, tickers s, time_of s, ti_si s)"

lemma core_simps [simp]:
  "core (record_row r s) = core s" "core (s\<lparr>s_user := u\<rparr>) = core s" "core (s\<lparr>s_db := d\<rparr>) = core s"
  "core (s\<lparr>managers := m\<rparr>) = core s" "core (RegisterTrader e s) = core s" "core (UnregisterTrader e s) = core s"
  "core (Timer_Snapshot s) = core s" "core (KillSim s) = core s" "core (s\<lparr>trans_id := i\<rparr>) = core s"
  "core (s\<lparr>build_queue := q\<rparr>) = core s" "core (s\<lparr>decom_queue := q2\<rparr>) = core s" "core (s\<lparr>recipes := rs\<rparr>) = core s"
  "core (s\<lparr>want_snapshot := b\<rparr>) = core s" "core (RegisterAgent a s) = core s" "core (UnregisterAgent a s) = core s"
  "core (s\<lparr>protos := ps\<rparr>) = core s" "core (s\<lparr>rec_ver := rv\<rparr>) = core s"
  by (simp_all add: core_def record_row_def RegisterTrader_def UnregisterTrader_def Timer_Snapshot_def KillSim_def
      RegisterAgent_def UnregisterAgent_def)

lemma core_agents: "core s' = core s \<Longrightarrow> s_agents s' = s_agents s"
  and core_time: "core s' = core s \<Longrightarrow> time_of s' = time_of s"
  and core_tickers: "core s' = core s \<Longrightarrow> tickers s' = tickers s"
  and core_si: "core s' = core s \<Longrightarrow> ti_si s' = ti_si s"
  and core_list: "core s' = core s \<Longrightarrow> agent_list s' = agent_list s"
  by (simp_all add: core_def)

lemmas core_andThen = snd_andThenI[where P = "\<lambda>x. core x = core s" for s]
lemmas core_deref = snd_derefI[where P = "\<lambda>x. core x = core s" for s]

lemma core_ops:
  "core s' = core s \<Longrightarrow> core (snd (Context_SchedBuild parent name t s')) = core s"
  "core s' = core s \<Longrightarrow> core (snd (Context_SchedDecom m t s')) = core s"
  "core s' = core s \<Longrightarrow> core (snd (AddRecipe name c s')) = core s"
  "core s' = core s \<Longrightarrow> core (snd (NextTransactionID s')) = core s"
  unfolding Context_SchedBuild_def Context_SchedDecom_def Timer_SchedBuild_def Timer_SchedDecom_def AddRecipe_def
    NextTransactionID_def Let_def
  by (auto intro!: core_andThen core_deref split: option.splits)

lemma api_core: "api sd s s' \<Longrightarrow> core s' = core s"
  by (induction rule: api.induct) (simp_all add: core_ops, simp add: core_def)

lemma api_star_core: "(api sd)\<^sup>*\<^sup>* s s' \<Longrightarrow> core s' = core s"
  by (induction rule: rtranclp_induct) (auto dest: api_core)

section \<open>The invariant\<close>

definition unique_inv :: "'u sim \<Rightarrow> bool" where
  "unique_inv s \<longleftrightarrow> (\<forall>p a. s_agents s p = Some a \<longrightarrow> p < s_next s \<and> ag_id a < next_agent_id s) \<and>
     (\<forall>p q a b. s_agents s p = Some a \<longrightarrow> s_agents s q = Some b \<longrightarrow> ag_id a = ag_id b \<longrightarrow> p = q) \<and>
     set (agent_list s) = dom (s_agents s)"

definition parent_ok :: "(ptr \<rightharpoonup> agent) \<Rightarrow> ptr \<Rightarrow> agent \<Rightarrow> bool" where
  "parent_ok A p a \<longleftrightarrow> (case ag_parent a of
     None \<Rightarrow> ag_parent_id a = -1
   | Some q \<Rightarrow> (\<exists>b. A q = Some b \<and> p \<in> set (ag_children b) \<and> ag_parent_id a = ag_id b \<and> ag_id b < ag_id a))"

definition children_ok :: "(ptr \<rightharpoonup> agent) \<Rightarrow> ptr \<Rightarrow> agent \<Rightarrow> bool" where
  "children_ok A p a \<longleftrightarrow> distinct (ag_children a) \<and> (\<forall>c \<in> set (ag_children a). \<exists>d. A c = Some d \<and> ag_parent d = Some p)"

definition tree_inv :: "(ptr \<rightharpoonup> agent) \<Rightarrow> bool" where
  "tree_inv A \<longleftrightarrow> (\<forall>p a. A p = Some a \<longrightarrow> parent_ok A p a \<and> children_ok A p a)"

definition listener_inv :: "'u sim \<Rightarrow> bool" where
  "listener_inv s \<longleftrightarrow> omap_inv (tickers s) \<and>
     (\<forall>i p. map_of (tickers s) i = Some p \<longrightarrow> (\<exists>a. s_agents s p = Some a \<and> ag_id a = i \<and> ag_kind a \<noteq> KAgent))"

definition pending :: "(int, ptr list) omap \<Rightarrow> ptr list" where
  "pending q = concat (map snd q)"

definition queue_inv :: "'u sim \<Rightarrow> bool" where
  "queue_inv s \<longleftrightarrow> omap_inv (decom_queue s) \<and> distinct (pending (decom_queue s)) \<and>
     (\<forall>t m. time_of s \<le> t \<longrightarrow> m \<in> set (omap_sub [] (decom_queue s) t) \<longrightarrow> s_agents s m \<noteq> None)"

text \<open>The same from a given time on.\<close>

definition queue_from :: "int \<Rightarrow> 'u sim \<Rightarrow> bool" where
  "queue_from t0 s \<longleftrightarrow> omap_inv (decom_queue s) \<and> distinct (pending (decom_queue s)) \<and>
     (\<forall>t m. t0 \<le> t \<longrightarrow> m \<in> set (omap_sub [] (decom_queue s) t) \<longrightarrow> s_agents s m \<noteq> None)"

lemma queue_inv_from: "queue_inv s \<longleftrightarrow> queue_from (time_of s) s"
  by (simp add: queue_inv_def queue_from_def)

definition store_inv :: "'u sim \<Rightarrow> bool" where
  "store_inv s \<longleftrightarrow> unique_inv s \<and> tree_inv (s_agents s) \<and> listener_inv s"

definition sim_inv :: "'u sim \<Rightarrow> bool" where
  "sim_inv s \<longleftrightarrow> store_inv s \<and> queue_inv s"

lemma store_inv_core: "core s' = core s \<Longrightarrow> store_inv s' = store_inv s"
  by (simp add: store_inv_def unique_inv_def listener_inv_def core_def)

lemma queue_inv_core: "core s' = core s \<Longrightarrow> decom_queue s' = decom_queue s \<Longrightarrow> queue_inv s' = queue_inv s"
  by (simp add: queue_inv_def core_def)

section \<open>The decommission queue\<close>

lemma pending_unsched: "omap_inv q \<Longrightarrow> distinct (pending q) \<Longrightarrow>
  omap_inv (unsched m q) \<and> map fst (unsched m q) = map fst q \<and> distinct (pending (unsched m q)) \<and>
  set (pending (unsched m q)) = set (pending q) - {m}"
proof (induction q rule: unsched.induct)
  case (2 m t ags q)
  show ?case
  proof (cases "m \<in> set ags")
    case True
    then have "m \<notin> set (pending q)" using 2(3) by (auto simp: pending_def)
    with True 2 show ?thesis by (auto simp: pending_def dest: notin_set_remove1)
  next
    case False
    with 2 have IH: "omap_inv (unsched m q)" "map fst (unsched m q) = map fst q" "distinct (pending (unsched m q))"
      "set (pending (unsched m q)) = set (pending q) - {m}" by (auto simp: pending_def)
    have "fst ` set (unsched m q) = fst ` set q" using IH(2) by (metis set_map)
    with False 2 IH show ?thesis by (auto simp: pending_def)
  qed
qed (simp add: pending_def)

lemma omap_sub_unsched:
  assumes "omap_inv q"
  shows "omap_sub [] (unsched m q) t = omap_sub [] q t \<or> omap_sub [] (unsched m q) t = remove1 m (omap_sub [] q t)"
  using assms
proof (induction q rule: unsched.induct)
  case (2 m t' ags q)
  then show ?case by (auto simp: omap_sub_def)
qed simp

lemma omap_sub_pending: "set (omap_sub [] q t) \<subseteq> set (pending q)"
proof (cases "map_of q t")
  case (Some xs)
  then show ?thesis using map_of_SomeD[OF Some] by (force simp: omap_sub_def pending_def)
qed (simp add: omap_sub_def)

lemma distinct_pending_push:
  "omap_inv q \<Longrightarrow> distinct (pending q) \<Longrightarrow> m \<notin> set (pending q) \<Longrightarrow>
    distinct (pending (omap_push t m q)) \<and> set (pending (omap_push t m q)) = insert m (set (pending q))"
proof (induction q)
  case Nil
  then show ?case by (simp add: omap_push_def pending_def omap_sub_def)
next
  case (Cons e q)
  obtain k v where e: "e = (k, v)" by (cases e)
  have push: "omap_push t m (e # q) =
      (if t < k then (t, [m]) # e # q else if t = k then (k, v @ [m]) # q else e # omap_push t m q)"
  proof -
    have "map_of (e # q) t = None" if "t < k"
      using Cons.prems(1) that by (force simp: e map_of_eq_None_iff)
    then show ?thesis by (auto simp: omap_push_def e omap_sub_def)
  qed
  have IH: "distinct (pending (omap_push t m q)) \<and> set (pending (omap_push t m q)) = insert m (set (pending q))"
    by (rule Cons.IH) (use Cons.prems in \<open>auto simp: e pending_def\<close>)
  show ?case using IH Cons.prems unfolding push by (auto simp: e pending_def)
qed

lemma queue_from_SchedDecom:
  assumes inv: "queue_from t0 s" and live: "s_agents s m \<noteq> None"
  shows "queue_from t0 (snd (Context_SchedDecom m t s))"
proof (cases "(if t = -1 then time_of s else t) < time_of s")
  case True
  then show ?thesis using inv by (simp add: Context_SchedDecom_def Timer_SchedDecom_def Let_def)
next
  case False
  let ?t = "if t = -1 then time_of s else t"
  obtain a where a: "s_agents s m = Some a" using live by auto
  let ?q = "omap_push ?t m (unsched m (decom_queue s))"
  have r: "snd (Context_SchedDecom m t s) = record_row (DecomSchedule (ag_id a) (time_of s) ?t) (s\<lparr>decom_queue := ?q\<rparr>)"
    using False a by (simp add: Context_SchedDecom_def Timer_SchedDecom_def Let_def)
  have q: "omap_inv (decom_queue s)" "distinct (pending (decom_queue s))" using inv by (auto simp: queue_from_def)
  note u = pending_unsched[OF q, of m]
  have "omap_inv ?q" "distinct (pending ?q)" using u distinct_pending_push[of "unsched m (decom_queue s)" m ?t] by auto
  moreover have "s_agents s x \<noteq> None" if "t0 \<le> t'" "x \<in> set (omap_sub [] ?q t')" for t' x
  proof (cases "x = m")
    case False
    then have "x \<in> set (omap_sub [] (unsched m (decom_queue s)) t')" using that(2)
      by (auto simp: omap_sub_push split: if_splits)
    then have "x \<in> set (omap_sub [] (decom_queue s) t')" using omap_sub_unsched[OF q(1), of m t'] notin_set_remove1 by metis
    then show ?thesis using inv that(1) by (auto simp: queue_from_def)
  qed (use live in simp)
  ultimately show ?thesis unfolding r by (auto simp: queue_from_def record_row_def)
qed

lemma queue_same:
  "decom_queue (snd (Context_SchedBuild parent name t s)) = decom_queue s"
  "decom_queue (snd (AddRecipe name2 c s)) = decom_queue s"
  unfolding Context_SchedBuild_def Timer_SchedBuild_def AddRecipe_def Let_def
  by (auto intro!: snd_andThenI[where P = "\<lambda>x. decom_queue x = decom_queue s"]
      snd_derefI[where P = "\<lambda>x. decom_queue x = decom_queue s"] simp: record_row_def split: option.splits)

lemma api_queue_from: "api sd s s' \<Longrightarrow> queue_from t0 s \<Longrightarrow> queue_from t0 s'"
proof (induction rule: api.induct)
  case (decom m s t)
  then show ?case using queue_from_SchedDecom by blast
qed (auto simp: queue_from_def record_row_def RegisterTrader_def UnregisterTrader_def Timer_Snapshot_def KillSim_def
    NextTransactionID_def queue_same core_agents[OF core_ops(1)[OF refl]] core_agents[OF core_ops(3)[OF refl]])

lemma api_queue: "api sd s s' \<Longrightarrow> queue_inv s \<Longrightarrow> queue_inv s'"
  using api_queue_from[of sd s s' "time_of s"] core_time[OF api_core[of sd s s']] by (simp add: queue_inv_from)

lemma api_inv: "api sd s s' \<Longrightarrow> sim_inv s \<Longrightarrow> sim_inv s'"
  by (simp add: sim_inv_def api_queue store_inv_core[OF api_core])

lemma api_star_inv: "(api sd)\<^sup>*\<^sup>* s s' \<Longrightarrow> sim_inv s \<Longrightarrow> sim_inv s'"
  by (induction rule: rtranclp_induct) (auto dest: api_inv)

text \<open>Who is queued for the current time stays queued for it when none of these is scheduled again.\<close>

lemma SchedDecom_keeps_now:
  assumes "omap_inv (decom_queue s)" "m \<notin> set (omap_sub [] (decom_queue s) (time_of s))" "s_agents s m \<noteq> None"
  shows "set (omap_sub [] (decom_queue s) (time_of s)) \<subseteq> set (omap_sub [] (decom_queue (snd (Context_SchedDecom m t s))) (time_of s))"
  using omap_sub_unsched[OF assms(1), of m "time_of s"] assms(2,3)
  by (auto simp: Context_SchedDecom_def Timer_SchedDecom_def Let_def omap_sub_push record_row_def remove1_idem)

lemma api_False_now:
  assumes "api False s s'" "omap_inv (decom_queue s)"
  shows "set (omap_sub [] (decom_queue s) (time_of s)) \<subseteq> set (omap_sub [] (decom_queue s') (time_of s))"
  using assms(1)
proof (cases rule: api.cases)
  case (decom m t)
  then show ?thesis using SchedDecom_keeps_now[OF assms(2), of m t] by auto
qed (auto simp: record_row_def RegisterTrader_def UnregisterTrader_def Timer_Snapshot_def KillSim_def NextTransactionID_def queue_same)

lemma api_star_False_now:
  "(api False)\<^sup>*\<^sup>* s s' \<Longrightarrow> queue_from t0 s \<Longrightarrow> queue_from t0 s' \<and>
    set (omap_sub [] (decom_queue s) (time_of s)) \<subseteq> set (omap_sub [] (decom_queue s') (time_of s))"
proof (induction rule: rtranclp_induct)
  case (step s1 s2)
  have "time_of s1 = time_of s" using core_time[OF api_star_core[OF step(1)]] .
  then show ?case using step api_queue_from[OF step(2), of t0] api_False_now[OF step(2)] by (auto simp: queue_from_def)
qed simp

section \<open>The agent store\<close>

definition same_links :: "agent \<Rightarrow> agent \<Rightarrow> bool" where
  "same_links a b \<longleftrightarrow> ag_id b = ag_id a \<and> ag_parent b = ag_parent a \<and> ag_parent_id b = ag_parent_id a \<and>
     ag_children b = ag_children a"

lemma tree_inv_upd:
  assumes "tree_inv A" "A p = Some a" "same_links a b"
  shows "tree_inv (A(p \<mapsto> b))"
proof -
  have l: "\<exists>d'. (A(p \<mapsto> b)) x = Some d' \<and> same_links d d'" if "A x = Some d" for x d
    using that assms(2,3) by (cases "x = p") (auto simp: same_links_def)
  have l': "\<exists>d. A x = Some d \<and> same_links d d'" if "(A(p \<mapsto> b)) x = Some d'" for x d'
    using that assms(2,3) by (cases "x = p") (auto simp: same_links_def)
  have "parent_ok (A(p \<mapsto> b)) x d' \<and> children_ok (A(p \<mapsto> b)) x d'" if x: "(A(p \<mapsto> b)) x = Some d'" for x d'
  proof -
    obtain d where d: "A x = Some d" "same_links d d'" using l'[OF x] by blast
    then have ok: "parent_ok A x d" "children_ok A x d" using assms(1) by (auto simp: tree_inv_def)
    have "parent_ok (A(p \<mapsto> b)) x d'" using ok(1) d(2) unfolding parent_ok_def same_links_def
      by (auto split: option.splits dest!: l simp: same_links_def)
    moreover have "children_ok (A(p \<mapsto> b)) x d'" using ok(2) d(2) unfolding children_ok_def
      by (auto simp: same_links_def dest!: l)
    ultimately show ?thesis by blast
  qed
  then show ?thesis by (simp add: tree_inv_def)
qed

lemma tree_inv_new:
  assumes "tree_inv A" "A p = None" "ag_parent a = None" "ag_parent_id a = -1" "ag_children a = []"
  shows "tree_inv (A(p \<mapsto> a))"
proof -
  have "parent_ok (A(p \<mapsto> a)) x d \<and> children_ok (A(p \<mapsto> a)) x d" if "(A(p \<mapsto> a)) x = Some d" for x d
  proof (cases "x = p")
    case True
    then show ?thesis using that assms(3-5) by (auto simp: parent_ok_def children_ok_def)
  next
    case False
    then have ok: "parent_ok A x d" "children_ok A x d" using that assms(1) by (auto simp: tree_inv_def)
    then show ?thesis using assms(2) unfolding parent_ok_def children_ok_def by (force split: option.splits)
  qed
  then show ?thesis by (simp add: tree_inv_def)
qed

definition link :: "(ptr \<rightharpoonup> agent) \<Rightarrow> ptr \<Rightarrow> ptr \<Rightarrow> agent \<Rightarrow> agent \<Rightarrow> (ptr \<rightharpoonup> agent)" where
  "link A p q a b = (A(p \<mapsto> a\<lparr>ag_parent := Some q, ag_parent_id := ag_id b\<rparr>))(q \<mapsto> ag_children_update (oset_ins p) b)"

lemma distinct_oset_ins: "distinct xs \<Longrightarrow> x \<notin> set xs \<Longrightarrow> distinct (oset_ins x xs)"
  by (induction xs) auto

lemma tree_inv_link:
  assumes t: "tree_inv A" and p: "A p = Some a" and q: "A q = Some b" and n: "ag_parent a = None" and lt: "ag_id b < ag_id a"
  shows "tree_inv (link A p q a b)"
proof -
  have pq: "p \<noteq> q" using p q lt by auto
  have np: "p \<notin> set (ag_children d)" if "A x = Some d" for x d
    using t that p n unfolding tree_inv_def children_ok_def by fastforce
  let ?A = "link A p q a b"
  have "parent_ok ?A x d \<and> children_ok ?A x d" if x: "?A x = Some d" for x d
  proof -
    consider "x = p" | "x = q" | "x \<noteq> p" "x \<noteq> q" by blast
    then show ?thesis
    proof cases
      case 1
      then have d: "d = a\<lparr>ag_parent := Some q, ag_parent_id := ag_id b\<rparr>" using x pq by (simp add: link_def)
      have "children_ok A p a" using t p by (auto simp: tree_inv_def)
      then have "children_ok ?A p d" using np[OF p] p q unfolding children_ok_def d link_def by (auto split: if_splits)
      moreover have "parent_ok ?A p d" using pq lt unfolding parent_ok_def d link_def by simp
      ultimately show ?thesis using 1 by simp
    next
      case 2
      then have d: "d = ag_children_update (oset_ins p) b" using x by (simp add: link_def)
      have ok: "parent_ok A q b" "children_ok A q b" using t q by (auto simp: tree_inv_def)
      have "parent_ok ?A q d" using ok(1) p q lt unfolding parent_ok_def d link_def by (auto split: option.splits)
      moreover have "children_ok ?A q d"
        using ok(2) np[OF q] pq p q unfolding children_ok_def d link_def by (auto intro: distinct_oset_ins split: if_splits)
      ultimately show ?thesis using 2 by simp
    next
      case 3
      then have ok: "parent_ok A x d" "children_ok A x d" using t x by (auto simp: tree_inv_def link_def)
      have "parent_ok ?A x d" using ok(1) 3 p q unfolding parent_ok_def link_def by (auto split: option.splits)
      moreover have "children_ok ?A x d"
        using ok(2) np[of x d] x 3 p q unfolding children_ok_def link_def by (auto split: if_splits)
      ultimately show ?thesis by simp
    qed
  qed
  then show ?thesis by (simp add: tree_inv_def)
qed

text \<open>What the destructor makes of the store.\<close>

definition unlink :: "(ptr \<rightharpoonup> agent) \<Rightarrow> ptr \<Rightarrow> agent \<Rightarrow> (ptr \<rightharpoonup> agent)" where
  "unlink A p a = (\<lambda>x. if x = p then None else map_option (\<lambda>d.
     (if x \<in> set (ag_children a) then (\<lambda>e. e\<lparr>ag_parent := None, ag_parent_id := -1\<rparr>) else id)
     (if ag_parent a = Some x then d\<lparr>ag_children := oset_del p (ag_children d)\<rparr> else d)) (A x))"

lemma unlink_sel:
  assumes "unlink A p a x = Some d'"
  obtains d where "A x = Some d" "x \<noteq> p" "ag_id d' = ag_id d" "ag_kind d' = ag_kind d"
    "ag_parent d' = (if x \<in> set (ag_children a) then None else ag_parent d)"
    "ag_parent_id d' = (if x \<in> set (ag_children a) then -1 else ag_parent_id d)"
    "ag_children d' = (if ag_parent a = Some x then oset_del p (ag_children d) else ag_children d)"
proof -
  obtain d where d: "A x = Some d" using assms by (cases "A x") (auto simp: unlink_def split: if_splits)
  show thesis by (rule that[OF d]) (use assms d in \<open>auto simp: unlink_def split: if_splits\<close>)
qed

lemma tree_inv_unlink:
  assumes t: "tree_inv A" and p: "A p = Some a"
  shows "tree_inv (unlink A p a)"
proof -
  have ok: "parent_ok A x d" "children_ok A x d" if "A x = Some d" for x d using t that by (auto simp: tree_inv_def)
  have kid: "x \<in> set (ag_children a) \<longleftrightarrow> ag_parent d = Some p" if "A x = Some d" for x d
    using ok(1)[OF that] ok(2)[OF p] that p by (auto simp: parent_ok_def children_ok_def)
  have fwd: "\<exists>d'. unlink A p a x = Some d' \<and> ag_id d' = ag_id d \<and>
      ag_parent d' = (if ag_parent d = Some p then None else ag_parent d) \<and>
      set (ag_children d') = set (ag_children d) - {p}" if "A x = Some d" "x \<noteq> p" for x d
  proof -
    have "p \<notin> set (ag_children d)" if "ag_parent a \<noteq> Some x"
      using ok(2)[OF \<open>A x = Some d\<close>] p that by (auto simp: children_ok_def)
    then show ?thesis using that kid[OF that(1)] by (auto simp: unlink_def)
  qed
  have "parent_ok (unlink A p a) x d' \<and> children_ok (unlink A p a) x d'" if x: "unlink A p a x = Some d'" for x d'
  proof -
    obtain d where d: "A x = Some d" "x \<noteq> p" "ag_id d' = ag_id d" "ag_kind d' = ag_kind d"
      "ag_parent d' = (if x \<in> set (ag_children a) then None else ag_parent d)"
      "ag_parent_id d' = (if x \<in> set (ag_children a) then -1 else ag_parent_id d)"
      "ag_children d' = (if ag_parent a = Some x then oset_del p (ag_children d) else ag_children d)"
      by (rule unlink_sel[OF x])
    have "parent_ok (unlink A p a) x d'"
    proof (cases "ag_parent d'")
      case None
      then show ?thesis using d ok(1)[OF d(1)] by (auto simp: parent_ok_def split: if_splits)
    next
      case (Some q)
      then have q: "ag_parent d = Some q" "q \<noteq> p" using d(5) kid[OF d(1)] by (auto split: if_splits)
      then obtain b where b: "A q = Some b" "x \<in> set (ag_children b)" "ag_parent_id d = ag_id b" "ag_id b < ag_id d"
        using ok(1)[OF d(1)] by (auto simp: parent_ok_def)
      obtain b' where "unlink A p a q = Some b'" "ag_id b' = ag_id b" "set (ag_children b') = set (ag_children b) - {p}"
        using fwd[OF b(1) q(2)] by blast
      then show ?thesis using Some b d(2,3,6) kid[OF d(1)] q by (auto simp: parent_ok_def)
    qed
    moreover have "children_ok (unlink A p a) x d'"
    proof -
      have "distinct (ag_children d')" using ok(2)[OF d(1)] d(7) by (auto simp: children_ok_def oset_del_def)
      moreover have "\<exists>e'. unlink A p a c = Some e' \<and> ag_parent e' = Some x" if "c \<in> set (ag_children d')" for c
      proof -
        have cp: "c \<in> set (ag_children d)" "c \<noteq> p"
          using that d(1,7) ok(2)[OF d(1)] p by (auto simp: children_ok_def split: if_splits)
        then obtain e where e: "A c = Some e" "ag_parent e = Some x" using ok(2)[OF d(1)] by (auto simp: children_ok_def)
        then show ?thesis using fwd[OF e(1) cp(2)] d(2) by auto
      qed
      ultimately show ?thesis by (simp add: children_ok_def)
    qed
    ultimately show ?thesis by simp
  qed
  then show ?thesis by (simp add: tree_inv_def)
qed

section \<open>Operations keep the invariant\<close>

lemma sim_inv_new: "sim_inv s \<Longrightarrow> sim_inv (snd (Agent_new k s))"
proof -
  assume inv: "sim_inv s"
  let ?p = "s_next s"
  have u: "p < s_next s" "ag_id a < next_agent_id s" if "s_agents s p = Some a" for p a
    using inv that by (auto simp: sim_inv_def store_inv_def unique_inv_def)
  have v: "p = q" if "s_agents s p = Some a" "s_agents s q = Some b" "ag_id a = ag_id b" for p q a b
    using inv that by (simp add: sim_inv_def store_inv_def unique_inv_def)
  have fresh: "s_agents s ?p = None" using u(1)[of ?p] by (cases "s_agents s ?p") auto
  have "unique_inv (snd (Agent_new k s))"
    using inv u v unfolding unique_inv_def Agent_new_def Let_def
    by (fastforce simp: sim_inv_def store_inv_def unique_inv_def less_Suc_eq split: if_splits)
  moreover have "tree_inv (s_agents (snd (Agent_new k s)))"
    using tree_inv_new[where A = "s_agents s", OF _ fresh] inv by (simp add: Agent_new_def Let_def sim_inv_def store_inv_def)
  moreover have "listener_inv (snd (Agent_new k s))" "queue_inv (snd (Agent_new k s))"
    using inv fresh by (fastforce simp: Agent_new_def Let_def sim_inv_def store_inv_def listener_inv_def queue_inv_def)+
  ultimately show ?thesis by (simp add: sim_inv_def store_inv_def)
qed

lemma sim_inv_upd:
  assumes inv: "sim_inv s" and p: "s_agents s p = Some a" and f: "same_links a (f a)" "ag_kind (f a) = ag_kind a"
  shows "sim_inv (upd_agent p f s)"
proof -
  have A: "s_agents (upd_agent p f s) = (s_agents s)(p \<mapsto> f a)" using p by (simp add: upd_agent_def)
  have "unique_inv (upd_agent p f s)"
    using inv p f by (auto simp: sim_inv_def store_inv_def unique_inv_def upd_agent_def same_links_def split: if_splits)
  moreover have "listener_inv (upd_agent p f s)" "queue_inv (upd_agent p f s)"
    using inv p f by (fastforce simp: sim_inv_def store_inv_def listener_inv_def queue_inv_def upd_agent_def same_links_def)+
  ultimately show ?thesis using inv tree_inv_upd[where A = "s_agents s", OF _ p f(1)] by (simp add: sim_inv_def store_inv_def A)
qed

lemma sim_inv_core: "core s' = core s \<Longrightarrow> decom_queue s' = decom_queue s \<Longrightarrow> sim_inv s' = sim_inv s"
  using store_inv_core[of s' s] queue_inv_core[of s' s] by (simp add: sim_inv_def)

lemma sim_inv_frame [simp]:
  "sim_inv (s\<lparr>s_user := u\<rparr>) = sim_inv s" "sim_inv (record_row r s) = sim_inv s"
  "sim_inv (RegisterTrader e s) = sim_inv s" "sim_inv (UnregisterTrader e s) = sim_inv s"
  "sim_inv (RegisterAgent a s) = sim_inv s" "sim_inv (UnregisterAgent a s) = sim_inv s"
  "sim_inv (s\<lparr>protos := ps\<rparr>) = sim_inv s" "sim_inv (s\<lparr>rec_ver := rv\<rparr>) = sim_inv s"
  by (rule sim_inv_core; simp add: record_row_def RegisterTrader_def UnregisterTrader_def RegisterAgent_def UnregisterAgent_def core_def)+

text \<open>A clone is a new agent without relatives.\<close>

lemma Clone_spec:
  assumes inv: "sim_inv s" and m: "s_agents s q = Some m"
  obtains p s' a where "Clone cb q s = (Inr p, s')" "sim_inv s'" "s_agents s' p = Some a" "p = s_next s"
    "ag_parent a = None" "ag_children a = []" "ag_enter_time a = -1" "ag_id a = next_agent_id s"
    "ag_prototype a = ag_prototype m" "ag_spec a = ag_spec m" "ag_lifetime a = ag_lifetime m" "ag_kind a = ag_kind m"
    "\<And>x. x \<noteq> p \<Longrightarrow> s_agents s' x = s_agents s x" "time_of s' = time_of s" "ti_si s' = ti_si s" "tickers s' = tickers s"
    "decom_queue s' = decom_queue s"
proof -
  let ?p = "s_next s"
  define s1 where "s1 = snd (Agent_new (ag_kind m) s)"
  obtain a where a: "s_agents s1 ?p = Some a" "ag_parent a = None" "ag_children a = []" "ag_enter_time a = -1"
    "ag_id a = next_agent_id s" "ag_kind a = ag_kind m" "ag_parent_id a = -1"
    by (simp add: s1_def Agent_new_def Let_def)
  have inv1: "sim_inv s1" unfolding s1_def by (rule sim_inv_new[OF inv])
  define s2 where "s2 = (upd_agent ?p (Agent_InitFrom m) s1)\<lparr>s_user := cb_InitFrom cb ?p q (s_user s1)\<rparr>"
  have r: "Clone cb q s = (Inr ?p, s2)"
    by (simp add: Clone_def m s2_def s1_def Agent_new_def Let_def ok_def)
  have "sim_inv s2" unfolding s2_def using sim_inv_upd[OF inv1 a(1), of "Agent_InitFrom m"] a
    by (simp add: same_links_def Agent_InitFrom_def)
  moreover have "s_agents s2 ?p = Some (Agent_InitFrom m a)" using a(1) by (simp add: s2_def upd_agent_def)
  moreover have "s_agents s2 x = s_agents s x" if "x \<noteq> ?p" for x
    using that by (simp add: s2_def upd_agent_def s1_def Agent_new_def Let_def)
  moreover have "time_of s2 = time_of s" "ti_si s2 = ti_si s" "tickers s2 = tickers s" "decom_queue s2 = decom_queue s"
    by (simp_all add: s2_def upd_agent_def s1_def Agent_new_def Let_def)
  ultimately show thesis by (intro that[OF r, where a = "Agent_InitFrom m a"]) (simp_all add: a Agent_InitFrom_def)
qed

lemma Connect_inv:
  assumes inv: "sim_inv s" and p: "s_agents s p = Some a" "ag_parent a = None"
    and q: "\<And>q b. parent = Some q \<Longrightarrow> s_agents s q = Some b \<Longrightarrow> ag_id b < ag_id a"
  shows "sim_inv (snd (Connect p parent s))"
proof (cases "parent")
  case (Some q')
  show ?thesis
  proof (cases "s_agents s q'")
    case (Some b)
    have lt: "ag_id b < ag_id a" using q \<open>parent = Some q'\<close> Some by blast
    then have pq: "p \<noteq> q'" using p Some by auto
    have s': "snd (Connect p parent s) = s\<lparr>s_agents := link (s_agents s) p q' a b\<rparr>"
      using \<open>parent = Some q'\<close> Some pq p by (simp add: Connect_def upd_agent_def link_def)
    have t: "tree_inv (link (s_agents s) p q' a b)"
      using tree_inv_link[where A = "s_agents s", OF _ p(1) Some p(2) lt] inv by (simp add: sim_inv_def store_inv_def)
    have d: "\<exists>d. s_agents s x = Some d \<and> ag_id d' = ag_id d \<and> ag_kind d' = ag_kind d" if "link (s_agents s) p q' a b x = Some d'" for x d'
      using that p Some by (auto simp: link_def split: if_splits)
    have e: "\<exists>d'. link (s_agents s) p q' a b x = Some d' \<and> ag_id d' = ag_id d \<and> ag_kind d' = ag_kind d" if "s_agents s x = Some d" for x d
      using that p Some by (auto simp: link_def)
    have dm: "dom (link (s_agents s) p q' a b) = dom (s_agents s)" using p Some by (auto simp: link_def)
    have "unique_inv (s\<lparr>s_agents := link (s_agents s) p q' a b\<rparr>)"
      using inv d by (auto simp: sim_inv_def store_inv_def unique_inv_def dm) (metis d)+
    moreover have "listener_inv (s\<lparr>s_agents := link (s_agents s) p q' a b\<rparr>)"
      using inv e by (fastforce simp: sim_inv_def store_inv_def listener_inv_def)
    moreover have "queue_inv (s\<lparr>s_agents := link (s_agents s) p q' a b\<rparr>)"
      using inv dm by (fastforce simp: sim_inv_def queue_inv_def)
    ultimately show ?thesis unfolding s' using t by (simp add: sim_inv_def store_inv_def)
  qed (use inv Some in \<open>auto simp: Connect_def\<close>)
qed (use inv in \<open>simp add: Connect_def\<close>)

text \<open>Registering a built agent as time listener.\<close>

lemma sim_inv_listener:
  assumes "sim_inv s" "s_agents s p = Some a" "ag_kind a \<noteq> KAgent"
  shows "sim_inv (snd (RegisterTimeListener p s))"
  using assms by (auto simp: RegisterTimeListener_def sim_inv_def store_inv_def unique_inv_def listener_inv_def queue_inv_def)

text \<open>
  An archetype that uses the context as intended: every method only makes calls of \<open>api\<close>, and the
  two methods that run while the agents of a time step are being decommissioned do not schedule one of
  these agents again. (Where one does, the copy of the list that \<open>DoDecom\<close> works on still deletes the
  agent now, and the new entry of the queue deletes it a second time.)
\<close>

definition conforming :: "'u arch \<Rightarrow> bool" where
  "conforming cb \<longleftrightarrow> (\<forall>p q s. (api True)\<^sup>*\<^sup>* s (snd (cb_EnterNotify cb p s)) \<and> (api True)\<^sup>*\<^sup>* s (snd (cb_BuildNotify cb q p s)) \<and>
     (api True)\<^sup>*\<^sup>* s (snd (cb_Tick cb p s)) \<and> (api True)\<^sup>*\<^sup>* s (snd (cb_Tock cb p s)) \<and>
     (api False)\<^sup>*\<^sup>* s (snd (cb_Decommission cb p s)) \<and> (api False)\<^sup>*\<^sup>* s (snd (cb_DecomNotify cb q p s)))"

lemma conforming_inv:
  assumes "conforming cb" "sim_inv s"
  shows "sim_inv (snd (cb_EnterNotify cb p s))" "sim_inv (snd (cb_BuildNotify cb q p s))"
    "sim_inv (snd (cb_Tick cb p s))" "sim_inv (snd (cb_Tock cb p s))"
  using assms api_star_inv unfolding conforming_def by blast+

lemma conforming_core:
  assumes "conforming cb"
  shows "core (snd (cb_EnterNotify cb p s)) = core s" "core (snd (cb_BuildNotify cb q p s)) = core s"
    "core (snd (cb_Tick cb p s)) = core s" "core (snd (cb_Tock cb p s)) = core s"
    "core (snd (cb_Decommission cb p s)) = core s" "core (snd (cb_DecomNotify cb q p s)) = core s"
  using assms api_star_core unfolding conforming_def by blast+

lemma EnterNotify_inv:
  assumes "conforming cb" "sim_inv s"
  shows "sim_inv (snd (EnterNotify cb p s))"
proof (cases "s_agents s p")
  case (Some a)
  have A: "s_agents (RegisterTrader p (RegisterAgent a s)) p = Some a" using Some by (simp add: RegisterTrader_def RegisterAgent_def)
  show ?thesis unfolding EnterNotify_unfold Some deref_simps
    using assms sim_inv_listener[OF _ Some] sim_inv_listener[OF _ A]
    by (intro snd_andThenI[where P = sim_inv]) (auto simp: conforming_inv split: akind.splits)
qed (use assms in \<open>simp add: EnterNotify_unfold\<close>)

lemma AddToTable_inv: "sim_inv s \<Longrightarrow> sim_inv (snd (AddToTable p s))"
  by (cases "s_agents s p") (simp_all add: AddToTable_def)

lemma Agent_Build_inv:
  assumes cb: "conforming cb" and inv: "sim_inv s" and p: "s_agents s p = Some a" "ag_parent a = None"
    and q: "\<And>q b. parent = Some q \<Longrightarrow> s_agents s q = Some b \<Longrightarrow> ag_id b < ag_id a"
  shows "sim_inv (snd (Agent_Build cb p parent s))"
proof -
  have c: "sim_inv (snd (Connect p parent s))" by (rule Connect_inv[OF inv p q])
  have "sim_inv (upd_agent p (ag_enter_time_update (\<lambda>_. t)) (snd (Connect p parent s)))" for t
  proof (cases "s_agents (snd (Connect p parent s)) p")
    case (Some b)
    then show ?thesis by (intro sim_inv_upd[OF c Some]) (simp_all add: same_links_def)
  next
    case None
    then have "upd_agent p (ag_enter_time_update (\<lambda>_. t)) (snd (Connect p parent s)) = snd (Connect p parent s)"
      by (simp add: upd_agent_def fun_upd_idem)
    then show ?thesis using c by simp
  qed
  then show ?thesis unfolding Agent_Build_def
    by (intro snd_andThenI[where P = sim_inv] c EnterNotify_inv[OF cb] AddToTable_inv) simp
qed

lemma build_one_inv:
  assumes cb: "conforming cb" and inv: "sim_inv s"
  shows "sim_inv (snd (build_one cb (name, parent) s))"
proof (cases "map_of (protos s) name")
  case (Some m)
  show ?thesis
  proof (cases "s_agents s m")
    case None
    with Some inv show ?thesis by (simp add: build_one_def CreateAgent_def Clone_def)
  next
    case m: (Some ma)
    obtain p s1 a where h: "Clone cb m s = (Inr p, s1)" "sim_inv s1" "s_agents s1 p = Some a" "p = s_next s"
      "ag_parent a = None" "ag_id a = next_agent_id s" "\<And>x. x \<noteq> p \<Longrightarrow> s_agents s1 x = s_agents s x"
      by (rule Clone_spec[OF inv m]) blast
    show ?thesis
    proof (cases "parent = Some p")
      case True
      then show ?thesis using Some h by (simp add: build_one_def CreateAgent_def Agent_Build_def Connect_def)
    next
      case False
      have "ag_id b < ag_id a" if "parent = Some q" "s_agents s1 q = Some b" for q b
        using that False h(7)[of q] inv h(6) by (auto simp: sim_inv_def store_inv_def unique_inv_def)
      then have "sim_inv (snd (Agent_Build cb p parent s1))" by (rule Agent_Build_inv[OF cb h(2,3,5)])
      then have "sim_inv (snd (andThen (Agent_Build cb p parent s1) (\<lambda>_ s2.
          case parent of None \<Rightarrow> ok () s2 | Some q \<Rightarrow> deref (s_agents s2 q) s2 (\<lambda>_. cb_BuildNotify cb q p s2))))"
        by (intro snd_andThenI[where P = sim_inv])
          (auto split: option.splits intro!: snd_derefI[where P = sim_inv] conforming_inv[OF cb])
      then show ?thesis using Some h(1,3) by (simp add: build_one_def CreateAgent_def)
    qed
  qed
qed (use inv in \<open>simp add: build_one_def CreateAgent_def\<close>)

section \<open>Decommissioning\<close>

lemma parentD:
  assumes "tree_inv A" "A p = Some a" "ag_parent a = Some q"
  shows "\<exists>b. A q = Some b \<and> p \<in> set (ag_children b) \<and> ag_parent_id a = ag_id b \<and> ag_id b < ag_id a"
proof -
  have "parent_ok A p a" using assms(1,2) by (simp add: tree_inv_def)
  then show ?thesis using assms(3) by (simp add: parent_ok_def)
qed

lemma listenerD:
  "store_inv s \<Longrightarrow> map_of (tickers s) i = Some p \<Longrightarrow> s_agents s p = Some a \<Longrightarrow> ag_id a = i \<and> ag_kind a \<noteq> KAgent"
  unfolding store_inv_def listener_inv_def by fastforce

lemma childD:
  assumes "tree_inv A" "A p = Some a" "c \<in> set (ag_children a)"
  shows "\<exists>d. A c = Some d \<and> ag_parent d = Some p \<and> ag_id a < ag_id d"
proof -
  obtain d where d: "A c = Some d" "ag_parent d = Some p" using assms unfolding tree_inv_def children_ok_def by blast
  then have "parent_ok A c d" using assms(1) by (simp add: tree_inv_def)
  then show ?thesis using d assms(2) by (simp add: parent_ok_def)
qed

lemma foreach_orphan:
  assumes "\<And>c. c \<in> set cs \<Longrightarrow> s_agents s c \<noteq> None"
  shows "foreach orphan cs s = (Inr (), s\<lparr>s_agents := (\<lambda>x. map_option (\<lambda>b.
    if x \<in> set cs then b\<lparr>ag_parent := None, ag_parent_id := -1\<rparr> else b) (s_agents s x))\<rparr>)"
  using assms
proof (induction cs arbitrary: s)
  case (Cons c cs)
  obtain b where b: "s_agents s c = Some b" using Cons.prems[of c] by auto
  let ?s = "upd_agent c (\<lambda>b. b\<lparr>ag_parent := None, ag_parent_id := -1\<rparr>) s"
  have live: "s_agents ?s x \<noteq> None" if "x \<in> set cs" for x
    using that Cons.prems[of x] by (auto simp: upd_agent_def)
  have o: "orphan c s = (Inr (), ?s)" by (simp add: orphan_def b ok_def)
  have "foreach orphan (c # cs) s = foreach orphan cs ?s" by (simp add: o)
  also have "\<dots> = (Inr (), ?s\<lparr>s_agents := (\<lambda>x. map_option (\<lambda>b.
      if x \<in> set cs then b\<lparr>ag_parent := None, ag_parent_id := -1\<rparr> else b) (s_agents ?s x))\<rparr>)"
    using live by (intro Cons.IH)
  also have "?s\<lparr>s_agents := (\<lambda>x. map_option (\<lambda>b.
      if x \<in> set cs then b\<lparr>ag_parent := None, ag_parent_id := -1\<rparr> else b) (s_agents ?s x))\<rparr> =
    s\<lparr>s_agents := (\<lambda>x. map_option (\<lambda>b.
      if x \<in> set (c # cs) then b\<lparr>ag_parent := None, ag_parent_id := -1\<rparr> else b) (s_agents s x))\<rparr>"
  proof -
    have "(\<lambda>x. map_option (\<lambda>b. if x \<in> set cs then b\<lparr>ag_parent := None, ag_parent_id := -1\<rparr> else b) (s_agents ?s x)) =
      (\<lambda>x. map_option (\<lambda>b. if x \<in> set (c # cs) then b\<lparr>ag_parent := None, ag_parent_id := -1\<rparr> else b) (s_agents s x))"
      by (rule ext, rename_tac x, case_tac "s_agents s x") (auto simp: upd_agent_def b)
    then show ?thesis by (simp add: upd_agent_def)
  qed
  finally show ?case .
qed (simp add: ok_def option.map_id[unfolded id_def])

lemma DelAgent_spec:
  assumes inv: "p \<in> set (agent_list s)" "tree_inv (s_agents s)" and p: "s_agents s p = Some a"
  shows "DelAgent p s = (Inr (), s\<lparr>agent_list := oset_del p (agent_list s), s_agents := unlink (s_agents s) p a\<rparr>)"
proof -
  have l: "p \<in> set (agent_list s)" by (rule inv(1))
  let ?s1 = "s\<lparr>agent_list := oset_del p (agent_list s)\<rparr>"
  have d: "oset_del p (oset_del p xs) = oset_del p xs" for xs :: "ptr list" by (simp add: oset_del_def)
  have ok: "parent_ok (s_agents s) p a" "children_ok (s_agents s) p a" using inv(2) p by (auto simp: tree_inv_def)
  have live: "s_agents s c \<noteq> None" "c \<noteq> p" if "c \<in> set (ag_children a)" for c
    using childD[OF inv(2) p that] p by auto
  show ?thesis
  proof (cases "ag_parent a")
    case None
    have "foreach orphan (ag_children a) ?s1 = (Inr (), ?s1\<lparr>s_agents := (\<lambda>x. map_option (\<lambda>b.
        if x \<in> set (ag_children a) then b\<lparr>ag_parent := None, ag_parent_id := -1\<rparr> else b) (s_agents ?s1 x))\<rparr>)"
      by (rule foreach_orphan) (use live in simp)
    then show ?thesis using l p None
      by (simp add: DelAgent_def Agent_delete_def Let_def d ok_def)
        (auto simp: unlink_def fun_eq_iff option.map_comp comp_def intro!: sim.equality option.map_cong)
  next
    case (Some q)
    then obtain b where b: "s_agents s q = Some b" using ok(1) by (auto simp: parent_ok_def)
    let ?s2 = "upd_agent q (ag_children_update (oset_del p)) ?s1"
    have "foreach orphan (ag_children a) ?s2 = (Inr (), ?s2\<lparr>s_agents := (\<lambda>x. map_option (\<lambda>b.
        if x \<in> set (ag_children a) then b\<lparr>ag_parent := None, ag_parent_id := -1\<rparr> else b) (s_agents ?s2 x))\<rparr>)"
      by (rule foreach_orphan) (use live in \<open>auto simp: upd_agent_def\<close>)
    then show ?thesis using l p Some b
      by (simp add: DelAgent_def Agent_delete_def Let_def d ok_def)
        (auto simp: unlink_def upd_agent_def fun_eq_iff option.map_comp comp_def intro!: sim.equality option.map_cong)
  qed
qed

lemma unlink_dom: "A p = Some a \<Longrightarrow> dom (unlink A p a) = dom A - {p}"
  by (auto simp: unlink_def split: if_splits)

lemma unique_inv_sub:
  assumes u: "unique_inv s" and e: "\<And>x d'. A x = Some d' \<Longrightarrow> \<exists>d. s_agents s x = Some d \<and> ag_id d' = ag_id d"
    and l: "set xs = dom A"
  shows "unique_inv (s\<lparr>agent_list := xs, s_agents := A\<rparr>)"
proof -
  have "p < s_next s \<and> ag_id a < next_agent_id s" if "A p = Some a" for p a
    using e[OF that] u by (auto simp: unique_inv_def)
  moreover have "p = q" if t: "A p = Some a" "A q = Some b" "ag_id a = ag_id b" for p q a b
  proof -
    obtain c d where "s_agents s p = Some c" "ag_id a = ag_id c" "s_agents s q = Some d" "ag_id b = ag_id d"
      using e[OF t(1)] e[OF t(2)] by blast
    then show ?thesis using u t(3) by (simp add: unique_inv_def)
  qed
  ultimately show ?thesis using l by (simp add: unique_inv_def)
qed

lemma store_inv_delete:
  assumes inv: "store_inv s" and p: "s_agents s p = Some a" and t: "p \<notin> snd ` set (tickers s)"
  shows "store_inv (s\<lparr>agent_list := oset_del p (agent_list s), s_agents := unlink (s_agents s) p a\<rparr>)"
proof -
  let ?s = "s\<lparr>agent_list := oset_del p (agent_list s), s_agents := unlink (s_agents s) p a\<rparr>"
  have e: "\<exists>d. s_agents s x = Some d \<and> ag_id d' = ag_id d" if "unlink (s_agents s) p a x = Some d'" for x d'
    using unlink_sel[OF that] by metis
  have f: "\<exists>d'. unlink (s_agents s) p a x = Some d' \<and> ag_id d' = ag_id d \<and> ag_kind d' = ag_kind d"
    if "s_agents s x = Some d" "x \<noteq> p" for x d
    using that by (auto simp: unlink_def)
  have "unique_inv ?s"
    by (rule unique_inv_sub) (use inv e unlink_dom[where A = "s_agents s", OF p] in \<open>auto simp: store_inv_def unique_inv_def\<close>)
  moreover have "tree_inv (s_agents ?s)" using inv tree_inv_unlink[where A = "s_agents s", OF _ p] by (simp add: store_inv_def)
  moreover have "listener_inv ?s"
  proof -
    have "\<exists>d'. unlink (s_agents s) p a q = Some d' \<and> ag_id d' = i \<and> ag_kind d' \<noteq> KAgent" if i: "map_of (tickers s) i = Some q" for i q
    proof -
      have "q \<noteq> p" using map_of_SomeD[OF i] t by force
      moreover obtain d where "s_agents s q = Some d" "ag_id d = i" "ag_kind d \<noteq> KAgent"
        using inv i unfolding store_inv_def listener_inv_def by blast
      ultimately show ?thesis using f by metis
    qed
    then show ?thesis using inv by (simp add: store_inv_def listener_inv_def)
  qed
  ultimately show ?thesis by (simp add: store_inv_def)
qed

lemma ticker_unique:
  assumes "store_inv s" "s_agents s p = Some a"
  shows "p \<notin> snd ` set (omap_del (ag_id a) (tickers s))"
proof
  let ?t = "omap_del (ag_id a) (tickers s)"
  assume "p \<in> snd ` set ?t"
  then obtain i where i: "(i, p) \<in> set ?t" by auto
  have o: "omap_inv (tickers s)" "omap_inv ?t" using assms(1) by (auto simp: store_inv_def listener_inv_def)
  then have m: "map_of ?t i = Some p" using i omap_inv_distinct by (metis map_of_eq_Some_iff)
  then have "map_of (tickers s) i = Some p" "i \<noteq> ag_id a" using map_of_omap_del[OF o(1)] by (auto split: if_splits)
  then show False using assms listenerD[OF assms(1)] by blast
qed

lemma ticker_KAgent:
  assumes "store_inv s" "s_agents s p = Some a" "ag_kind a = KAgent"
  shows "p \<notin> snd ` set (tickers s)"
proof
  assume "p \<in> snd ` set (tickers s)"
  then obtain i where i: "(i, p) \<in> set (tickers s)" by auto
  have "omap_inv (tickers s)" using assms(1) by (auto simp: store_inv_def listener_inv_def)
  then have "map_of (tickers s) i = Some p" using i omap_inv_distinct by (metis map_of_eq_Some_iff)
  then show False using assms listenerD[OF assms(1)] by blast
qed

definition same_clock :: "'u sim \<Rightarrow> 'u sim \<Rightarrow> bool" where
  "same_clock s s' \<longleftrightarrow> time_of s' = time_of s \<and> ti_si s' = ti_si s"

lemma Agent_Decommission_spec:
  assumes inv: "store_inv s" and p: "s_agents s p = Some a" and t: "p \<notin> snd ` set (tickers s)"
  obtains s' where "Agent_Decommission p s = (Inr (), s')" "store_inv s'" "s_agents s' = unlink (s_agents s) p a"
    "decom_queue s' = decom_queue s" "same_clock s s'"
proof -
  let ?s = "UnregisterAgent a (record_row (AgentExit (ag_id a) (time_of s)) s)"
  have c: "core ?s = core s" by simp
  have i: "store_inv ?s" using inv store_inv_core[OF c] by simp
  have p': "s_agents ?s p = Some a" using p core_agents[OF c] by simp
  have t': "p \<notin> snd ` set (tickers ?s)" using t core_tickers[OF c] by simp
  have "Agent_Decommission p s = DelAgent p ?s" by (simp add: Agent_Decommission_def p)
  also have "\<dots> = (Inr (), ?s\<lparr>agent_list := oset_del p (agent_list ?s), s_agents := unlink (s_agents ?s) p a\<rparr>)"
    by (rule DelAgent_spec) (use i p' in \<open>auto simp: store_inv_def unique_inv_def\<close>)
  finally show thesis by (rule that) (use store_inv_delete[OF i p' t'] core_agents[OF c] core_time[OF c] core_si[OF c] in
    \<open>auto simp: same_clock_def UnregisterAgent_def record_row_def\<close>)
qed

end
