(* ===== verification/Sim_Lifecycle.thy ===== *)
theory Sim_Lifecycle
  imports Sim_Invariant
begin

text \<open>
  The life of agents from building to decommissioning, over all states a simulation can reach, and
  the main loop of the timer.
\<close>

section \<open>One decommissioning\<close>

text \<open>How an archetype can refuse: one of its two methods throws, or a facility's condition for
  decommissioning does not hold, at which \<open>Facility::Decommission\<close> throws.\<close>

definition refusal :: "'u arch \<Rightarrow> exn \<Rightarrow> bool" where
  "refusal cb e \<longleftrightarrow> (\<exists>p s. fst (cb_Decommission cb p s) = Inl e) \<or> (\<exists>q p s. fst (cb_DecomNotify cb q p s) = Inl e) \<or>
     (e = Error_exn \<and> (\<exists>p s. \<not> cb_CheckDecom cb p s))"

text \<open>An archetype that does not refuse to be decommissioned.\<close>

definition willing :: "'u arch \<Rightarrow> bool" where
  "willing cb \<longleftrightarrow> (\<forall>p q s. fst (cb_Decommission cb p s) = Inr () \<and> fst (cb_DecomNotify cb q p s) = Inr () \<and> cb_CheckDecom cb p s)"

lemma willingD:
  "willing cb \<Longrightarrow> fst (cb_Decommission cb p s) = Inr ()" "willing cb \<Longrightarrow> fst (cb_DecomNotify cb q p s) = Inr ()"
  "willing cb \<Longrightarrow> cb_CheckDecom cb p s"
  by (auto simp: willing_def)

lemma willing_refusal: "willing cb \<Longrightarrow> \<not> refusal cb e"
  by (auto simp: willing_def refusal_def)

text \<open>While the agents \<open>Q\<close> of a time step are decommissioned one after the other, all of them stay queued
  for it, and whoever is queued for later is alive.\<close>

definition loop_inv :: "ptr set \<Rightarrow> 'u sim \<Rightarrow> bool" where
  "loop_inv Q s \<longleftrightarrow> store_inv s \<and> queue_from (time_of s + 1) s \<and> Q \<subseteq> set (omap_sub [] (decom_queue s) (time_of s))"

lemma loop_inv_core: "core s' = core s \<Longrightarrow> decom_queue s' = decom_queue s \<Longrightarrow> loop_inv Q s' = loop_inv Q s"
  using store_inv_core[of s' s] by (simp add: loop_inv_def queue_from_def core_def)

lemma loop_inv_api: "(api False)\<^sup>*\<^sup>* s s' \<Longrightarrow> loop_inv Q s \<Longrightarrow> loop_inv Q s'"
  using api_star_False_now[of s s' "time_of s + 1"] store_inv_core[OF api_star_core[of False s s']] core_time[OF api_star_core[of False s s']]
  by (auto simp: loop_inv_def)

definition retired :: "ptr set \<Rightarrow> 'u sim \<Rightarrow> ptr \<Rightarrow> 'u arch \<Rightarrow> ('u sim, unit) exec \<Rightarrow> bool" where
  "retired Q s p cb x \<longleftrightarrow> loop_inv Q (snd x) \<and> same_clock s (snd x) \<and>
     (fst x = Inr () \<longrightarrow> dom (s_agents (snd x)) = dom (s_agents s) - {p}) \<and>
     (\<forall>e. fst x = Inl e \<longrightarrow> refusal cb e \<and> dom (s_agents (snd x)) = dom (s_agents s))"

lemma store_inv_unlisten:
  "store_inv s \<Longrightarrow> store_inv (s\<lparr>tickers := omap_del i (tickers s)\<rparr>)"
  by (auto simp: store_inv_def unique_inv_def listener_inv_def map_of_omap_del split: if_splits)

lemma retired_core:
  assumes "core s1 = core s" "retired Q s1 p cb x"
  shows "retired Q s p cb x"
  using assms core_agents[OF assms(1)] core_time[OF assms(1)] core_si[OF assms(1)]
  by (simp add: retired_def same_clock_def)

lemma retired_same:
  assumes "loop_inv Q s'" "core s' = core s" "refusal cb e"
  shows "retired Q s p cb (Inl e, s')"
  using assms core_agents[OF assms(2)] core_time[OF assms(2)] core_si[OF assms(2)]
  by (auto simp: retired_def same_clock_def)

lemma pending_unique:
  assumes "omap_inv q" "distinct (pending q)" "m \<in> set (omap_sub [] q t)" "m \<in> set (omap_sub [] q t')"
  shows "t = t'"
  using assms
proof (induction q)
  case (Cons e q)
  obtain k v where e: "e = (k, v)" by (cases e)
  have "m \<notin> set (pending q)" if "m \<in> set v" using Cons.prems(2) that by (auto simp: e pending_def)
  then have n: "m \<notin> set (omap_sub [] q y)" if "m \<in> set v" for y using omap_sub_pending that by blast
  have sub: "omap_sub [] (e # q) y = (if y = k then v else omap_sub [] q y)" for y by (simp add: e omap_sub_def)
  show ?case using Cons.IH Cons.prems n unfolding sub by (auto simp: e pending_def split: if_splits)
qed (simp add: omap_sub_def)

lemma distinct_omap_sub: "distinct (pending q) \<Longrightarrow> distinct (omap_sub [] q t)"
  by (induction q) (auto simp: omap_sub_def pending_def)

lemma queue_touch: "omap_inv q \<Longrightarrow> distinct (pending q) \<Longrightarrow>
  omap_inv (omap_touch [] t q) \<and> distinct (pending (omap_touch [] t q))"
proof -
  have "pending (omap_put t [] q) = pending q" if "map_of q t = None" "omap_inv q" for q :: "(int, ptr list) omap"
    using that by (induction t "[] :: ptr list" q rule: omap_put.induct) (auto simp: pending_def split: if_splits)
  then show "omap_inv q \<Longrightarrow> distinct (pending q) \<Longrightarrow>
    omap_inv (omap_touch [] t q) \<and> distinct (pending (omap_touch [] t q))"
    by (auto simp: omap_touch_def omap_ins_def split: option.splits)
qed

lemma retired_Agent_Decommission:
  assumes inv: "loop_inv Q s" and p: "s_agents s p = Some a" "p \<notin> snd ` set (tickers s)" "p \<in> Q"
  shows "retired Q s p cb (Agent_Decommission p s)"
proof -
  have st: "store_inv s" using inv by (simp add: loop_inv_def)
  obtain s' where s': "Agent_Decommission p s = (Inr (), s')" "store_inv s'" "s_agents s' = unlink (s_agents s) p a"
    "decom_queue s' = decom_queue s" "same_clock s s'" by (rule Agent_Decommission_spec[OF st p(1,2)])
  have d: "dom (s_agents s') = dom (s_agents s) - {p}" using s'(3) unlink_dom[where A = "s_agents s", OF p(1)] by simp
  have q: "omap_inv (decom_queue s)" "distinct (pending (decom_queue s))" "p \<in> set (omap_sub [] (decom_queue s) (time_of s))"
    using inv p(3) by (auto simp: loop_inv_def queue_from_def)
  have "s_agents s' m \<noteq> None" if "time_of s + 1 \<le> t" "m \<in> set (omap_sub [] (decom_queue s) t)" for t m
  proof -
    have "m \<noteq> p" using pending_unique[OF q(1,2) that(2), of "time_of s"] q(3) that(1) by auto
    moreover have "m \<in> dom (s_agents s)" using inv that by (auto simp: loop_inv_def queue_from_def)
    ultimately show ?thesis using d by auto
  qed
  then have "loop_inv Q s'" using inv s'(2,4,5) by (auto simp: loop_inv_def queue_from_def same_clock_def)
  then show ?thesis using s' d by (simp add: retired_def)
qed

lemma retired_unlisten:
  assumes inv: "loop_inv Q s" and p: "s_agents s p = Some a" "p \<in> Q"
  shows "retired Q s p cb (andThen (UnregisterTimeListener p s) (\<lambda>_ s2. Agent_Decommission p s2))"
proof -
  let ?s = "s\<lparr>tickers := omap_del (ag_id a) (tickers s)\<rparr>"
  have st: "store_inv s" using inv by (simp add: loop_inv_def)
  have "loop_inv Q ?s" using inv store_inv_unlisten[OF st] by (simp add: loop_inv_def queue_from_def)
  then have "retired Q ?s p cb (Agent_Decommission p ?s)"
    by (rule retired_Agent_Decommission[where a = a]) (use p ticker_unique[OF st p(1)] in simp_all)
  then show ?thesis using p by (simp add: UnregisterTimeListener_def retired_def same_clock_def)
qed

lemma retired_Decommission:
  assumes cb: "conforming cb" and inv: "loop_inv Q s" and p: "s_agents s p = Some a" "p \<in> Q"
  shows "retired Q s p cb (Decommission cb p s)"
proof -
  obtain r s1 where h: "cb_Decommission cb p s = (r, s1)" by (cases "cb_Decommission cb p s")
  have "(api False)\<^sup>*\<^sup>* s (snd (cb_Decommission cb p s))" using cb unfolding conforming_def by blast
  then have i1: "loop_inv Q s1" and c: "core s1 = core s" using loop_inv_api[OF _ inv] api_star_core h by auto
  then have st: "store_inv s1" by (simp add: loop_inv_def)
  have p1: "s_agents s1 p = Some a" using p core_agents[OF c] by simp
  show ?thesis
  proof (cases r)
    case (Inl e)
    then have "refusal cb e" using h unfolding refusal_def by (metis fst_conv)
    then show ?thesis using Inl h retired_same[OF i1 c] by (simp add: Decommission_unfold)
  next
    case (Inr u)
    have "retired Q s1 p cb (case ag_kind a of
         KAgent \<Rightarrow> Agent_Decommission p s1
       | KFacility \<Rightarrow> Facility_Decommission cb p s1
       | KInst \<Rightarrow> Institution_Decommission p s1
       | KRegion \<Rightarrow> Region_Decommission p s1)"
    proof (cases "ag_kind a")
      case KAgent
      then show ?thesis using retired_Agent_Decommission[OF i1 p1 ticker_KAgent[OF st p1] p(2)] by simp
    next
      case KFacility
      show ?thesis
      proof (cases "cb_CheckDecom cb p s1")
        case True
        let ?s = "UnregisterTrader p s1"
        have t: "core ?s = core s1" "decom_queue ?s = decom_queue s1" by (simp_all add: UnregisterTrader_def core_def)
        have "loop_inv Q ?s" "s_agents ?s p = Some a" using i1 p1 loop_inv_core[OF t] core_agents[OF t(1)] by simp_all
        from retired_core[OF t(1) retired_unlisten[OF this p(2)]] show ?thesis using KFacility True by (simp add: Facility_Decommission_def)
      next
        case False
        then have "refusal cb Error_exn" by (auto simp: refusal_def)
        then show ?thesis using KFacility False retired_same[OF i1 refl] by (simp add: throw_def Facility_Decommission_def)
      qed
    qed (use retired_unlisten[OF i1 p1 p(2)] in \<open>simp_all add: Institution_Decommission_def Region_Decommission_def\<close>)
    then show ?thesis using retired_core[OF c] Inr h p1 by (simp add: Decommission_def)
  qed
qed

lemma retired_decom_one:
  assumes cb: "conforming cb" and inv: "loop_inv Q s" and p: "s_agents s p = Some a" "p \<in> Q"
  shows "retired Q s p cb (decom_one cb p s)"
proof (cases "ag_parent a")
  case None
  then show ?thesis using retired_Decommission[OF assms] p by (simp add: decom_one_def)
next
  case (Some q)
  then obtain b where b: "s_agents s q = Some b"
    using inv p(1) parentD[where A = "s_agents s", OF _ p(1) Some] by (auto simp: loop_inv_def store_inv_def)
  obtain r s1 where h: "cb_DecomNotify cb q p s = (r, s1)" by (cases "cb_DecomNotify cb q p s")
  have "(api False)\<^sup>*\<^sup>* s (snd (cb_DecomNotify cb q p s))" using cb unfolding conforming_def by blast
  then have i1: "loop_inv Q s1" and c: "core s1 = core s" using loop_inv_api[OF _ inv] api_star_core h by auto
  show ?thesis
  proof (cases r)
    case (Inl e)
    then have "refusal cb e" using h unfolding refusal_def by (metis fst_conv)
    then show ?thesis using Inl h Some b p retired_same[OF i1 c] by (simp add: decom_one_def)
  next
    case (Inr u)
    have "s_agents s1 p = Some a" using p core_agents[OF c] by simp
    from retired_core[OF c retired_Decommission[OF cb i1 this p(2)]] show ?thesis using Inr h Some b p by (simp add: decom_one_def)
  qed
qed

section \<open>The queue of a time step\<close>

text \<open>Either all agents of the list are removed, or those before the one where an archetype refuses.\<close>

lemma decom_loop:
  assumes cb: "conforming cb"
  shows "loop_inv Q s \<Longrightarrow> distinct ms \<Longrightarrow> set ms \<subseteq> Q \<Longrightarrow> set ms \<subseteq> dom (s_agents s) \<Longrightarrow> x = foreach (decom_one cb) ms s \<Longrightarrow>
    loop_inv Q (snd x) \<and> same_clock s (snd x) \<and>
    (fst x = Inr () \<longrightarrow> dom (s_agents (snd x)) = dom (s_agents s) - set ms) \<and>
    (\<forall>e. fst x = Inl e \<longrightarrow> refusal cb e \<and> (\<exists>k < length ms. dom (s_agents (snd x)) = dom (s_agents s) - set (take k ms)))"
proof (induction ms arbitrary: s)
  case (Cons m ms)
  then obtain a where a: "s_agents s m = Some a" by auto
  have r: "retired Q s m cb (decom_one cb m s)" by (rule retired_decom_one[OF cb Cons.prems(1) a]) (use Cons.prems(3) in simp)
  obtain r1 s1 where h: "decom_one cb m s = (r1, s1)" by (cases "decom_one cb m s")
  show ?case
  proof (cases r1)
    case (Inl e)
    then show ?thesis using r h Cons.prems(5) by (auto simp: retired_def intro: exI[of _ 0])
  next
    case (Inr u)
    then have d: "dom (s_agents s1) = dom (s_agents s) - {m}" "loop_inv Q s1" "same_clock s s1"
      using r h by (auto simp: retired_def)
    have x: "x = foreach (decom_one cb) ms s1" using Cons.prems(5) h Inr by simp
    have "set ms \<subseteq> dom (s_agents s1)" using Cons.prems(2,4) d(1) by auto
    note IH = Cons.IH[OF d(2) _ _ this x]
    have "\<exists>k < length (m # ms). dom (s_agents (snd x)) = dom (s_agents s) - set (take k (m # ms))"
      if "k < length ms" "dom (s_agents (snd x)) = dom (s_agents s1) - set (take k ms)" for k
      using that d(1) by (intro exI[of _ "Suc k"]) auto
    then show ?thesis using IH Cons.prems(2,3) d by (auto simp: same_clock_def)
  qed
qed (simp add: same_clock_def)

lemma DoDecom_spec:
  assumes cb: "conforming cb" and inv: "sim_inv s" and x: "DoDecom cb s = (r, s')"
  shows "store_inv s'" "same_clock s s'" "willing cb \<Longrightarrow> r = Inr ()"
    "r = Inr () \<Longrightarrow> dom (s_agents s') = dom (s_agents s) - set (omap_sub [] (decom_queue s) (time_of s))"
    "r = Inr () \<Longrightarrow> sim_inv (advance s')"
    "r = Inl e \<Longrightarrow> refusal cb e \<and> (\<exists>k < length (omap_sub [] (decom_queue s) (time_of s)).
       dom (s_agents s') = dom (s_agents s) - set (take k (omap_sub [] (decom_queue s) (time_of s))))"
proof -
  let ?q = "omap_touch [] (time_of s) (decom_queue s)"
  let ?s = "s\<lparr>decom_queue := ?q\<rparr>"
  let ?ms = "omap_sub [] (decom_queue s) (time_of s)"
  have q: "omap_inv (decom_queue s)" "distinct (pending (decom_queue s))" "set ?ms \<subseteq> dom (s_agents s)"
    using inv by (auto simp: sim_inv_def queue_inv_def)
  have "store_inv ?s" using inv store_inv_core[of ?s s] by (simp add: sim_inv_def)
  moreover have "s_agents s m \<noteq> None" if "time_of s + 1 \<le> t" "m \<in> set (omap_sub [] (decom_queue s) t)" for t m
  proof -
    have "time_of s \<le> t" using that(1) by simp
    then show ?thesis using inv that(2) unfolding sim_inv_def queue_inv_def by blast
  qed
  ultimately have i: "loop_inv (set ?ms) ?s" using queue_touch[OF q(1,2)] by (auto simp: loop_inv_def queue_from_def)
  have l: "loop_inv (set ?ms) s' \<and> same_clock s s' \<and> (r = Inr () \<longrightarrow> dom (s_agents s') = dom (s_agents s) - set ?ms) \<and>
    (\<forall>e. r = Inl e \<longrightarrow> refusal cb e \<and> (\<exists>k < length ?ms. dom (s_agents s') = dom (s_agents s) - set (take k ?ms)))"
    using decom_loop[OF cb i distinct_omap_sub[OF q(2)], of "time_of s", OF _ _ refl] q(3) x
    by (simp add: DoDecom_def same_clock_def)
  then show "store_inv s'" "same_clock s s'" "r = Inr () \<Longrightarrow> dom (s_agents s') = dom (s_agents s) - set ?ms"
    "r = Inl e \<Longrightarrow> refusal cb e \<and> (\<exists>k < length ?ms. dom (s_agents s') = dom (s_agents s) - set (take k ?ms))"
    by (auto simp: loop_inv_def)
  show "willing cb \<Longrightarrow> r = Inr ()" using l willing_refusal by (cases r) auto
  show "sim_inv (advance s')" if "r = Inr ()"
    using l by (simp add: loop_inv_def sim_inv_def store_inv_def unique_inv_def listener_inv_def queue_inv_def queue_from_def advance_def)
qed

section \<open>Reachable states\<close>

text \<open>Taking snapshots only writes rows.\<close>

definition rows_only :: "'u sim \<Rightarrow> 'u sim \<Rightarrow> bool" where
  "rows_only s s' \<longleftrightarrow> core s' = core s \<and> decom_queue s' = decom_queue s \<and> want_kill s' = want_kill s \<and> (\<exists>rs. s_db s' = s_db s @ rs)"

lemma rows_only_refl [simp, intro]: "rows_only s s"
  by (simp add: rows_only_def)

lemma rows_only_row [simp, intro]: "rows_only s s' \<Longrightarrow> rows_only s (record_row r s')"
  by (auto simp: rows_only_def record_row_def core_def)

lemma rows_only_rows: "rows_only s s' \<Longrightarrow> rows_only s (foldl (\<lambda>s r. record_row (f r) s) s' rs)"
  by (induction rs arbitrary: s') auto

lemma snd_foreachI:
  "P s \<Longrightarrow> (\<And>x s. x \<in> set xs \<Longrightarrow> P s \<Longrightarrow> P (snd (f x s))) \<Longrightarrow> P (snd (foreach f xs s))"
  by (induction xs arbitrary: s) (auto intro!: snd_andThenI[where P = P])

lemmas rows_only_andThen = snd_andThenI[where P = "rows_only s" for s]
lemmas rows_only_deref = snd_derefI[where P = "rows_only s" for s]
lemmas rows_only_foreach = snd_foreachI[where P = "rows_only s" for s]

lemma rows_only_SnapAgent: "rows_only s s' \<Longrightarrow> rows_only s (snd (SnapAgent cb p s'))"
  unfolding SnapAgent_def Let_def
  by (auto intro!: rows_only_deref rows_only_foreach rows_only_rows split: prod.splits)

lemma rows_only_Snapshot: "rows_only s s' \<Longrightarrow> rows_only s (snd (SimInit_Snapshot cb s'))"
  unfolding SimInit_Snapshot_def Let_def
  by (auto intro!: rows_only_andThen rows_only_deref rows_only_foreach rows_only_SnapAgent rows_only_rows[where f = "\<lambda>r. r"])

lemma rows_only_inv: "rows_only s s' \<Longrightarrow> sim_inv s' = sim_inv s"
  using sim_inv_core[of s' s] by (simp add: rows_only_def)

lemma AddPrototype_inv:
  assumes "sim_inv s"
  shows "sim_inv (snd (AddPrototype cb name p ow s))"
proof (cases "\<not> ow \<and> map_of (protos s) name \<noteq> None")
  case True
  then show ?thesis using assms by (auto simp: AddPrototype_def)
next
  case False
  have "sim_inv (snd (SnapAgent cb p (s\<lparr>protos := omap_put name p (protos s)\<rparr>)))"
    using rows_only_inv[OF rows_only_SnapAgent[OF rows_only_refl[of "s\<lparr>protos := omap_put name p (protos s)\<rparr>"]]] assms by simp
  then show ?thesis using False unfolding AddPrototype_def Let_def
    by (auto intro!: snd_andThenI[where P = sim_inv] snd_derefI[where P = sim_inv])
qed

text \<open>
  The states of a simulation: prototypes are created and added while the input is read, the clock
  is set before anything is scheduled, archetypes make calls of \<open>api\<close>, queued agents are built, and
  each time step ends with a decommissioning phase that does not throw.
\<close>

inductive reachable :: "'u arch \<Rightarrow> 'u sim \<Rightarrow> bool" for cb where
  start: "reachable cb (Context_new si w u)"
| create: "reachable cb s \<Longrightarrow> reachable cb (snd (Agent_new k s))"
| configure: "reachable cb s \<Longrightarrow> s_agents s p = Some a \<Longrightarrow> ag_enter_time a = -1 \<Longrightarrow>
    reachable cb (upd_agent p (\<lambda>a. a\<lparr>ag_prototype := name, ag_spec := spec, ag_lifetime := life\<rparr>) s)"
| prototype: "reachable cb s \<Longrightarrow> reachable cb (snd (AddPrototype cb name p ow s))"
| init: "reachable cb s \<Longrightarrow> decom_queue s = [] \<Longrightarrow> reachable cb (snd (InitSim si s))"
| call: "reachable cb s \<Longrightarrow> api True s s' \<Longrightarrow> reachable cb s'"
| build: "reachable cb s \<Longrightarrow> reachable cb (snd (build_one cb (name, parent) s))"
| step_end: "reachable cb s \<Longrightarrow> DoDecom cb s = (Inr (), s') \<Longrightarrow> reachable cb (advance s')"

lemma InitSim_inv:
  assumes "sim_inv s" "decom_queue s = []"
  shows "sim_inv (snd (InitSim si s))"
  using assms by (auto simp: InitSim_def Timer_Initialize_def Let_def record_row_def sim_inv_def store_inv_def
      unique_inv_def listener_inv_def queue_inv_def pending_def omap_sub_def)

lemma reachable_inv:
  assumes cb: "conforming cb" and "reachable cb s"
  shows "sim_inv s"
  using assms(2)
proof (induction rule: reachable.induct)
  case (start si w u)
  then show ?case by (simp add: sim_inv_def store_inv_def unique_inv_def tree_inv_def listener_inv_def queue_inv_def
        Context_new_def pending_def omap_sub_def)
next
  case (configure s p a name spec life)
  then show ?case by (intro sim_inv_upd[where a = a]) (simp_all add: same_links_def)
next
  case (step_end s s')
  then show ?case using DoDecom_spec(5)[OF cb] by blast
qed (auto intro: sim_inv_new AddPrototype_inv InitSim_inv api_inv build_one_inv[OF cb])

section \<open>Family relations\<close>

definition parent_rel :: "'u sim \<Rightarrow> (ptr \<times> ptr) set" where
  "parent_rel s = {(q, p). \<exists>a. s_agents s p = Some a \<and> ag_parent a = Some q}"

lemma ancestor_loop_total:
  assumes t: "tree_inv (s_agents s)" and f: "finite (dom (s_agents s))"
  shows "s_agents s q = Some b \<Longrightarrow>
    ancestor_loop this (Some q) s = Some (ok (this = q \<or> (this, q) \<in> (parent_rel s)\<^sup>+) s)"
proof (induction "card {x \<in> dom (s_agents s). ag_id (the (s_agents s x)) < ag_id b}" arbitrary: q b rule: less_induct)
  case less
  show ?case
  proof (cases "this = q")
    case True
    then show ?thesis by (subst ancestor_loop.simps) simp
  next
    case ne: False
    have e: "ancestor_loop this (Some q) s = ancestor_loop this (ag_parent b) s"
      by (subst ancestor_loop.simps) (simp add: ne less.prems)
    show ?thesis
    proof (cases "ag_parent b")
      case None
      have "(this, q) \<notin> (parent_rel s)\<^sup>+"
        using None less.prems by (auto simp: parent_rel_def elim: tranclE)
      moreover have "ancestor_loop this None s = Some (ok False s)" by (subst ancestor_loop.simps) simp
      ultimately show ?thesis using e None ne by simp
    next
      case (Some q')
      obtain b' where b': "s_agents s q' = Some b'" "ag_id b' < ag_id b" using parentD[OF t less.prems Some] by blast
      have "{x \<in> dom (s_agents s). ag_id (the (s_agents s x)) < ag_id b'} \<subset> {x \<in> dom (s_agents s). ag_id (the (s_agents s x)) < ag_id b}"
        using b' by force
      then have "card {x \<in> dom (s_agents s). ag_id (the (s_agents s x)) < ag_id b'} < card {x \<in> dom (s_agents s). ag_id (the (s_agents s x)) < ag_id b}"
        using f by (intro psubset_card_mono) auto
      from less.hyps[OF this b'(1)]
      have IH: "ancestor_loop this (Some q') s = Some (ok (this = q' \<or> (this, q') \<in> (parent_rel s)\<^sup>+) s)" .
      have "(x, q) \<in> parent_rel s \<longleftrightarrow> x = q'" for x using less.prems Some by (auto simp: parent_rel_def)
      then have "(this, q) \<in> (parent_rel s)\<^sup>+ \<longleftrightarrow> this = q' \<or> (this, q') \<in> (parent_rel s)\<^sup>+"
        by (metis trancl.r_into_trancl trancl.trancl_into_trancl tranclE)
      then show ?thesis using e Some IH ne by simp
    qed
  qed
qed

lemma AncestorOf_total:
  assumes t: "tree_inv (s_agents s)" and f: "finite (dom (s_agents s))" and q: "s_agents s q = Some b"
  shows "AncestorOf p q s = Some (ok ((p, q) \<in> (parent_rel s)\<^sup>+) s)"
proof (cases "ag_parent b")
  case None
  have "(p, q) \<notin> (parent_rel s)\<^sup>+" using None q by (auto simp: parent_rel_def elim: tranclE)
  then show ?thesis using None q by (simp add: AncestorOf_def ancestor_loop.simps)
next
  case (Some q')
  obtain b' where b': "s_agents s q' = Some b'" using parentD[OF t q Some] by blast
  have "(x, q) \<in> parent_rel s \<longleftrightarrow> x = q'" for x using q Some by (auto simp: parent_rel_def)
  then have "(p, q) \<in> (parent_rel s)\<^sup>+ \<longleftrightarrow> p = q' \<or> (p, q') \<in> (parent_rel s)\<^sup>+"
    by (metis trancl.r_into_trancl trancl.trancl_into_trancl tranclE)
  then show ?thesis using Some q ancestor_loop_total[OF t f b', of p] by (simp add: AncestorOf_def)
qed

lemma descendent_loop_total:
  assumes t: "tree_inv (s_agents s)" and f: "finite (dom (s_agents s))"
  shows "(\<And>c. c \<in> set cs \<Longrightarrow> \<exists>d. s_agents s c = Some d \<and>
      card {x \<in> dom (s_agents s). ag_id d < ag_id (the (s_agents s x))} < n) \<Longrightarrow>
    descendent_loop this cs s = Some (ok (\<exists>c \<in> set cs. this = c \<or> (c, this) \<in> (parent_rel s)\<^sup>+) s)"
proof (induction n arbitrary: cs)
  case 0
  then have "cs = []" by (cases cs) force+
  then show ?case by (simp add: descendent_loop.simps)
next
  case (Suc n)
  note outer = Suc.IH
  from Suc.prems show ?case
  proof (induction cs)
    case Nil
    then show ?case by (simp add: descendent_loop.simps)
  next
    case (Cons c cs)
    obtain d where d: "s_agents s c = Some d" "card {x \<in> dom (s_agents s). ag_id d < ag_id (the (s_agents s x))} < Suc n"
      using Cons.prems[of c] by auto
    have "\<exists>e. s_agents s k = Some e \<and> card {x \<in> dom (s_agents s). ag_id e < ag_id (the (s_agents s x))} < n"
      if k: "k \<in> set (ag_children d)" for k
    proof -
      obtain e where e: "s_agents s k = Some e" "ag_id d < ag_id e" using childD[OF t d(1) k] by blast
      have "{x \<in> dom (s_agents s). ag_id e < ag_id (the (s_agents s x))} \<subset> {x \<in> dom (s_agents s). ag_id d < ag_id (the (s_agents s x))}"
        using e by force
      then have "card {x \<in> dom (s_agents s). ag_id e < ag_id (the (s_agents s x))} < card {x \<in> dom (s_agents s). ag_id d < ag_id (the (s_agents s x))}"
        using f by (intro psubset_card_mono) auto
      then show ?thesis using e(1) d(2) by auto
    qed
    from outer[OF this]
    have IH1: "descendent_loop this (ag_children d) s =
        Some (ok (\<exists>k \<in> set (ag_children d). this = k \<or> (k, this) \<in> (parent_rel s)\<^sup>+) s)" by blast
    have IH2: "descendent_loop this cs s = Some (ok (\<exists>c \<in> set cs. this = c \<or> (c, this) \<in> (parent_rel s)\<^sup>+) s)"
      using Cons.prems by (intro Cons.IH) auto
    have kid: "(c, k) \<in> parent_rel s \<longleftrightarrow> k \<in> set (ag_children d)" for k
      using childD[OF t d(1)] parentD[OF t] d(1) by (fastforce simp: parent_rel_def)
    have "(c, this) \<in> (parent_rel s)\<^sup>+ \<longleftrightarrow> (\<exists>k \<in> set (ag_children d). this = k \<or> (k, this) \<in> (parent_rel s)\<^sup>+)"
      using kid by (metis r_into_trancl trancl_into_trancl2 tranclD rtranclD)
    then show ?case using IH1 IH2 d(1) by (subst descendent_loop.simps) auto
  qed
qed

lemma DecendentOf_total:
  assumes t: "tree_inv (s_agents s)" and f: "finite (dom (s_agents s))" and q: "s_agents s q = Some b"
  shows "DecendentOf p q s = Some (ok ((q, p) \<in> (parent_rel s)\<^sup>+) s)"
proof -
  have kid: "(q, k) \<in> parent_rel s \<longleftrightarrow> k \<in> set (ag_children b)" for k
    using childD[OF t q] parentD[OF t] q by (fastforce simp: parent_rel_def)
  have "\<exists>d. s_agents s c = Some d \<and> card {x \<in> dom (s_agents s). ag_id d < ag_id (the (s_agents s x))} < Suc (card (dom (s_agents s)))"
    if "c \<in> set (ag_children b)" for c
    using childD[OF t q that] f by (auto intro!: card_mono simp: less_Suc_eq_le)
  from descendent_loop_total[OF t f this]
  have "descendent_loop p (ag_children b) s = Some (ok (\<exists>c \<in> set (ag_children b). p = c \<or> (c, p) \<in> (parent_rel s)\<^sup>+) s)" by blast
  moreover have "(q, p) \<in> (parent_rel s)\<^sup>+ \<longleftrightarrow> (\<exists>k \<in> set (ag_children b). p = k \<or> (k, p) \<in> (parent_rel s)\<^sup>+)"
    using kid by (metis r_into_trancl trancl_into_trancl2 tranclD rtranclD)
  ultimately show ?thesis using q by (simp add: DecendentOf_def)
qed

lemma unique_finite: "unique_inv s \<Longrightarrow> finite (dom (s_agents s))"
  by (metis List.finite_set unique_inv_def)

end
