(* ===== verification/Sim_Run.thy ===== *)
theory Sim_Run
  imports Sim_Lifecycle
begin

text \<open>
  The loops of the timer: the iteration over the time listeners visits each of them once, and the
  main loop ends.
\<close>

section \<open>The iteration over the listeners\<close>

definition each_listener :: "(ptr \<Rightarrow> 'u sim \<Rightarrow> ('u sim, unit) exec) \<Rightarrow> ptr \<Rightarrow> 'u sim \<Rightarrow> ('u sim, unit) exec" where
  "each_listener f p s = deref (s_agents s p) s (\<lambda>_. f p s)"

lemma next_ticker_split:
  assumes "omap_inv (xs @ (k, p) # ys)"
  shows "next_ticker k (xs @ (k, p) # ys) = first_ticker ys" "map_of (xs @ (k, p) # ys) k = Some p"
proof -
  have x: "x < k" if "x \<in> fst ` set xs" for x using assms that by (auto simp: omap_inv_def sorted_wrt_append)
  have y: "k < x" if "x \<in> fst ` set ys" for x using assms that by (auto simp: omap_inv_def sorted_wrt_append)
  have "List.find (\<lambda>(k', _). k < k') xs = None" using x by (fastforce simp: find_None_iff)
  moreover have "List.find f (xs @ zs) = (case List.find f xs of None \<Rightarrow> List.find f zs | Some v \<Rightarrow> Some v)" for f zs
    by (induction xs) auto
  moreover have "List.find (\<lambda>(k', _). k < k') ys = first_ticker ys"
    using y by (cases ys) (auto simp: first_ticker_def)
  ultimately show "next_ticker k (xs @ (k, p) # ys) = first_ticker ys" by (simp add: next_ticker_def)
  have "map_of xs k = None" using x by (force simp: map_of_eq_None_iff)
  then show "map_of (xs @ (k, p) # ys) k = Some p" by (simp add: map_add_def)
qed

lemma ticker_loop_foreach:
  assumes f: "\<And>p s. tickers (snd (f p s)) = tickers s"
  shows "omap_inv (tickers s) \<Longrightarrow> tickers s = xs @ ys \<Longrightarrow>
    ticker_loop f (first_ticker ys) s = Some (foreach (each_listener f) (map snd ys) s)"
proof (induction ys arbitrary: xs s)
  case Nil
  then show ?case by (subst ticker_loop.simps) (simp add: first_ticker_def)
next
  case (Cons y ys)
  obtain k p where y: "y = (k, p)" by (cases y)
  obtain r s1 where h: "each_listener f p s = (r, s1)" by (cases "each_listener f p s")
  have t: "tickers s1 = tickers s"
    using h f[of p s] by (cases "s_agents s p") (auto simp: each_listener_def throw_def)
  have "ticker_loop f (first_ticker (y # ys)) s = pthen (Some (each_listener f p s)) (\<lambda>_ s1.
      if map_of (tickers s1) k = None then Some (throw Undefined s1) else ticker_loop f (next_ticker k (tickers s1)) s1)"
    by (subst ticker_loop.simps) (simp add: first_ticker_def y each_listener_def cong: if_cong)
  also have "\<dots> = Some (foreach (each_listener f) (map snd (y # ys)) s)"
  proof (cases r)
    case (Inr u)
    have o: "omap_inv (xs @ (k, p) # ys)" using Cons.prems y by simp
    have "ticker_loop f (first_ticker ys) s1 = Some (foreach (each_listener f) (map snd ys) s1)"
      by (rule Cons.IH[of _ "xs @ [y]"]) (use Cons.prems t in simp_all)
    then show ?thesis using Inr h t next_ticker_split[OF o] Cons.prems(2) by (simp add: y)
  qed (use h in \<open>simp add: y\<close>)
  finally show ?case .
qed

lemma listeners_alive:
  assumes f: "\<And>p s. core (snd (f p s)) = core s"
  shows "(\<And>p. p \<in> set ps \<Longrightarrow> s_agents s p \<noteq> None) \<Longrightarrow> foreach (each_listener f) ps s = foreach f ps s"
proof (induction ps arbitrary: s)
  case (Cons p ps)
  obtain a where a: "s_agents s p = Some a" using Cons.prems[of p] by auto
  have "foreach (each_listener f) ps (snd (f p s)) = foreach f ps (snd (f p s))"
    using Cons.prems core_agents[OF f[of p s]] by (intro Cons.IH) simp
  moreover have "each_listener f p s = f p s" using a by (simp add: each_listener_def)
  ultimately show ?case by (cases "f p s"; cases "fst (f p s)") auto
qed simp

lemma listener_loop:
  assumes f: "\<And>p s. core (snd (f p s)) = core s" and inv: "sim_inv s"
  shows "ticker_loop f (first_ticker (tickers s)) s = Some (foreach f (map snd (tickers s)) s)"
proof -
  have o: "omap_inv (tickers s)" "\<And>i p. map_of (tickers s) i = Some p \<Longrightarrow> s_agents s p \<noteq> None"
    using inv by (auto simp: sim_inv_def store_inv_def listener_inv_def)
  have "s_agents s p \<noteq> None" if "p \<in> set (map snd (tickers s))" for p
    using that o omap_inv_distinct[OF o(1)] by (force simp: map_of_eq_Some_iff)
  then have "foreach (each_listener f) (map snd (tickers s)) s = foreach f (map snd (tickers s)) s"
    by (rule listeners_alive[OF f])
  then show ?thesis using ticker_loop_foreach[of f s "[]" "tickers s", OF core_tickers[OF f] o(1)] by simp
qed

section \<open>The clock\<close>

lemma same_clock_refl [simp, intro]: "same_clock s s"
  by (simp add: same_clock_def)

lemma same_clock_trans: "same_clock s s' \<Longrightarrow> same_clock s' s'' \<Longrightarrow> same_clock s s''"
  by (simp add: same_clock_def)

lemma same_clock_core: "core s' = core s \<Longrightarrow> same_clock s s'"
  by (simp add: same_clock_def core_def)

lemmas clock_andThen = snd_andThenI[where P = "same_clock s" for s]
lemmas clock_deref = snd_derefI[where P = "same_clock s" for s]

lemma clock_simps [simp]:
  "same_clock s (upd_agent p f s') = same_clock s s'" "same_clock s (record_row r s') = same_clock s s'"
  "same_clock s (s'\<lparr>tickers := t\<rparr>) = same_clock s s'" "same_clock s (RegisterTrader e s') = same_clock s s'"
  "same_clock s (RegisterAgent a s') = same_clock s s'" "same_clock s (s'\<lparr>build_queue := q\<rparr>) = same_clock s s'"
  "same_clock s (s'\<lparr>s_user := u\<rparr>) = same_clock s s'" "same_clock s (s'\<lparr>want_snapshot := b\<rparr>) = same_clock s s'"
  by (simp_all add: same_clock_def upd_agent_def record_row_def RegisterTrader_def RegisterAgent_def)

lemma clock_Clone: "same_clock s (snd (Clone cb q s))"
  by (cases "s_agents s q") (simp_all add: Clone_def Agent_new_def Let_def same_clock_def upd_agent_def)

lemma clock_Build:
  assumes cb: "conforming cb" and "same_clock s s'"
  shows "same_clock s (snd (Agent_Build cb p parent s'))"
proof -
  have c: "same_clock s (snd (Connect p parent s'))"
    using assms(2) unfolding Connect_def by (auto intro!: clock_deref split: option.splits)
  have e: "same_clock s (snd (EnterNotify cb p t))" if t: "same_clock s t" for t
  proof (cases "s_agents t p")
    case (Some a)
    have l: "same_clock s (snd (RegisterTimeListener p u))" if "same_clock s u" for u
      using that by (cases "s_agents u p") (simp_all add: RegisterTimeListener_def)
    have n: "same_clock s (snd (cb_EnterNotify cb p u))" if "same_clock s u" for u
      using that same_clock_core[OF conforming_core(1)[OF cb]] by (rule same_clock_trans)
    show ?thesis unfolding EnterNotify_unfold Some deref_simps
      by (intro clock_andThen n) (cases "ag_kind a"; simp add: l t)+
  qed (use t in \<open>simp add: EnterNotify_unfold\<close>)
  show ?thesis unfolding Agent_Build_def AddToTable_def by (intro clock_andThen clock_deref c e) (simp_all add: c e)
qed

lemma clock_build_one:
  assumes cb: "conforming cb"
  shows "same_clock s (snd (build_one cb b s))"
proof -
  have "same_clock s (snd (CreateAgent cb (\<lambda>_. True) (fst b) s))"
    unfolding CreateAgent_def by (auto intro!: clock_andThen clock_deref clock_Clone split: option.splits)
  moreover have "same_clock s (snd (cb_BuildNotify cb q p u))" if "same_clock s u" for p q u
    using that same_clock_core[OF conforming_core(2)[OF cb]] by (rule same_clock_trans)
  ultimately show ?thesis unfolding build_one_def
    by (intro clock_andThen clock_Build[OF cb]) (auto intro!: clock_deref clock_Build[OF cb] split: option.splits)
qed

section \<open>The main loop\<close>

text \<open>An exchange that ends and only acts through the interface of the context, in every state with the
  invariant.\<close>

definition exchange_ok :: "('u sim \<Rightarrow> ('u sim, unit) pexec) \<Rightarrow> bool" where
  "exchange_ok ex \<longleftrightarrow> (\<forall>s. sim_inv s \<longrightarrow> (\<exists>r s'. ex s = Some (r, s') \<and> (api True)\<^sup>*\<^sup>* s s'))"

text \<open>A phase of the step: it ends, keeps the clock and the invariant.\<close>

definition phase_ok :: "'u sim \<Rightarrow> ('u sim, unit) pexec \<Rightarrow> bool" where
  "phase_ok s x \<longleftrightarrow> (\<exists>r s'. x = Some (r, s') \<and> same_clock s s' \<and> (r = Inr () \<longrightarrow> sim_inv s'))"

lemma phase_ok_pthen:
  assumes "phase_ok s x" "\<And>s'. same_clock s s' \<Longrightarrow> sim_inv s' \<Longrightarrow> phase_ok s' (f () s')"
  shows "phase_ok s (pthen x f)"
proof -
  obtain r s' where x: "x = Some (r, s')" "same_clock s s'" "r = Inr () \<longrightarrow> sim_inv s'" using assms(1) by (auto simp: phase_ok_def)
  show ?thesis
  proof (cases r)
    case (Inr u)
    then have "phase_ok s' (f () s')" using assms(2) x by simp
    then show ?thesis using x(1,2) Inr same_clock_trans by (auto simp: phase_ok_def)
  qed (use x in \<open>auto simp: phase_ok_def\<close>)
qed

lemma foreach_phase:
  assumes "\<And>x s. x \<in> set xs \<Longrightarrow> sim_inv s \<Longrightarrow> same_clock s (snd (f x s)) \<and> sim_inv (snd (f x s))" "sim_inv s"
  shows "same_clock s (snd (foreach f xs s)) \<and> sim_inv (snd (foreach f xs s))"
proof (rule snd_foreachI[where P = "\<lambda>t. same_clock s t \<and> sim_inv t"])
  fix x t assume "x \<in> set xs" "same_clock s t \<and> sim_inv t"
  then show "same_clock s (snd (f x t)) \<and> sim_inv (snd (f x t))" using assms(1)[of x t] same_clock_trans by blast
qed (use assms(2) in simp)

lemma phase_Some: "same_clock s (snd x) \<and> sim_inv (snd x) \<Longrightarrow> phase_ok s (Some x)"
  by (cases x) (auto simp: phase_ok_def)

lemma phase_build:
  assumes cb: "conforming cb" and inv: "sim_inv s"
  shows "phase_ok s (Some (DoBuild cb s))"
proof -
  let ?s = "s\<lparr>build_queue := omap_touch [] (time_of s) (build_queue s)\<rparr>"
  have i: "sim_inv ?s" using inv sim_inv_core[of ?s s] by simp
  have "same_clock ?s (snd (DoBuild cb s)) \<and> sim_inv (snd (DoBuild cb s))"
    unfolding DoBuild_def by (rule foreach_phase[OF _ i]) (use clock_build_one[OF cb] build_one_inv[OF cb] in \<open>metis prod.collapse\<close>)
  then show ?thesis by (intro phase_Some) (simp add: same_clock_def)
qed

lemma phase_listeners:
  assumes f: "\<And>p s. core (snd (f p s)) = core s" "\<And>p s. sim_inv s \<Longrightarrow> sim_inv (snd (f p s))" and inv: "sim_inv s"
  shows "phase_ok s (ticker_loop f (first_ticker (tickers s)) s)"
  unfolding listener_loop[of f s, OF f(1) inv] by (rule phase_Some) (rule foreach_phase[OF _ inv]; use f same_clock_core in blast)

lemma phase_exchange:
  assumes "exchange_ok ex" "sim_inv s"
  shows "phase_ok s (ex s)"
  using assms api_star_inv same_clock_core[OF api_star_core] unfolding exchange_ok_def phase_ok_def by metis

section \<open>Resources do not move the clock\<close>

lemmas wtime_andThen = snd_andThenI[where P = "\<lambda>w. w_time w = t" for t]
lemmas wtime_with_res = snd_with_resI[where P = "\<lambda>w. w_time w = t" for t]
lemmas wtime_with_comp = snd_with_compI[where P = "\<lambda>w. w_time w = t" for t]

lemma wtime_with_mat:
  "w_time w = t \<Longrightarrow> (\<And>r c u. w_time (snd (f r c u)) = t) \<Longrightarrow> w_time (snd (with_mat p w f)) = t"
  unfolding with_mat_def by (rule wtime_with_res) (auto split: res_body.splits)

lemma wtime_simps [simp]:
  "w_time (BumpStateId p w) = w_time w" "w_time (set_parents p i j w) = w_time w" "w_time (set_comp p c w) = w_time w"
  "w_time (set_prev_decay_time p t w) = w_time w"
  by (simp_all add: BumpStateId_def set_parents_def set_comp_def set_prev_decay_time_def)

lemma wtime_comp_ops:
  "w_time w = t \<Longrightarrow> w_time (snd (Composition_Record nd c w)) = t"
  "w_time w = t \<Longrightarrow> w_time (snd (Composition_atom nd c w)) = t"
  "w_time w = t \<Longrightarrow> w_time (snd (Composition_mass nd c w)) = t"
  "w_time w = t \<Longrightarrow> w_time (snd (Composition_Decay nd c d sp w)) = t"
  "w_time w = t \<Longrightarrow> w_time (snd (CreateFromMass nd v w)) = t"
  using res_frame_Record[OF prod.collapse[symmetric]] res_frame_atom[OF prod.collapse[symmetric]]
    res_frame_mass[OF prod.collapse[symmetric]] res_frame_Decay[OF prod.collapse[symmetric]]
    res_frame_CreateFromMass[OF prod.collapse[symmetric]]
  by (metis res_frame_def)+

lemma wtime_tracker_Record: "w_time w = t \<Longrightarrow> w_time (snd (tracker_Record nd p w)) = t"
  unfolding tracker_Record_def res_Record_def qual_id_def Let_def
  by (auto intro!: wtime_with_res wtime_andThen wtime_with_comp wtime_comp_ops split: res_body.splits option.splits)

lemma wtime_tracker_ops:
  "w_time w = t \<Longrightarrow> w_time (snd (tracker_Modify nd p w)) = t"
  "w_time w = t \<Longrightarrow> w_time (snd (tracker_Absorb nd p q w)) = t"
  unfolding tracker_Modify_def tracker_Absorb_def tracked_state_id_def
  by (auto intro!: wtime_with_res wtime_tracker_Record)

lemma wtime_Transmute: "w_time w = t \<Longrightarrow> w_time (snd (Transmute nd p c w)) = t"
  unfolding Transmute_def by (auto intro!: wtime_andThen wtime_with_mat wtime_tracker_ops)

lemma wtime_Decay: "w_time w = t \<Longrightarrow> w_time (snd (Material_Decay nd p ct w)) = t"
  unfolding Material_Decay_def Let_def
  by (auto intro!: wtime_andThen wtime_with_mat wtime_comp_ops wtime_Transmute)

lemma wtime_Material_comp: "w_time w = t \<Longrightarrow> w_time (snd (Material_comp nd p w)) = t"
  unfolding Material_comp_def by (auto intro!: wtime_andThen wtime_with_mat wtime_Decay)

lemma wtime_absorb_rest: "w_time w = t \<Longrightarrow> w_time (snd (absorb_rest nd p m c0 c1 w)) = t"
  unfolding absorb_rest_def absorb_mixture_def Let_def
  by (auto intro!: wtime_andThen wtime_with_mat wtime_comp_ops wtime_tracker_ops)

lemma wtime_Absorb: "w_time w = t \<Longrightarrow> w_time (snd (Material_Absorb nd p m w)) = t"
  unfolding Material_Absorb_def by (intro wtime_andThen wtime_Material_comp wtime_absorb_rest)

lemma wtime_Clone: "w_time w = t \<Longrightarrow> w_time (snd (res_Clone p w)) = t"
  unfolding res_Clone_def Let_def by (auto intro!: wtime_with_res)

section \<open>Recording inventories\<close>

definition inert :: "'u sim \<Rightarrow> 'u sim \<Rightarrow> bool" where
  "inert s s' \<longleftrightarrow> core s' = core s \<and> decom_queue s' = decom_queue s"

lemma inert_refl [simp, intro]: "inert s s"
  by (simp add: inert_def)

lemma inert_row [simp]: "inert s (record_row r s') = inert s s'"
  by (simp add: inert_def record_row_def core_def)

lemma inert_world:
  assumes "inert s s'" "\<And>w. w_time (snd (f w)) = w_time w"
  shows "inert s (snd (on_world f s'))"
  using assms(1) assms(2)[of "s_world s'"] by (auto simp: inert_def on_world_def core_def split: prod.splits)

lemmas inert_andThen = snd_andThenI[where P = "inert s" for s]
lemmas inert_deref = snd_derefI[where P = "inert s" for s]
lemmas inert_foreach = snd_foreachI[where P = "inert s" for s]

lemma inert_rows: "inert s s' \<Longrightarrow> inert s (foldl (\<lambda>s (nuc, q). record_row (ExplicitInventory i (time_of s) name nuc q) s) s' rs)"
  by (induction rs arbitrary: s') auto

lemma inert_RecordInventory: "inert s s' \<Longrightarrow> inert s (snd (RecordInventory nd a name m s'))"
  unfolding RecordInventory_def
  by (auto intro!: inert_andThen inert_deref inert_world inert_rows wtime_Material_comp wtime_comp_ops)

lemma inert_record_one: "inert s s' \<Longrightarrow> inert s (snd (record_one_inventory nd a nv s'))"
  unfolding record_one_inventory_def
  by (auto intro!: inert_andThen inert_foreach inert_world inert_RecordInventory wtime_Clone wtime_Absorb split: list.splits)

lemma inert_RecordInventories: "inert s s' \<Longrightarrow> inert s (snd (RecordInventories nd cb p s'))"
  unfolding RecordInventories_def by (auto intro!: inert_deref inert_foreach inert_record_one)

lemma inert_phase: "inert s s' \<Longrightarrow> sim_inv s \<Longrightarrow> same_clock s s' \<and> sim_inv s'"
  using sim_inv_core[of s' s] same_clock_core[of s' s] by (simp add: inert_def)

lemma phase_tock:
  assumes cb: "conforming cb" and inv: "sim_inv s"
  shows "phase_ok s (DoTock nd cb s)"
  unfolding DoTock_def
proof (rule phase_ok_pthen)
  show "phase_ok s (ticker_loop (cb_Tock cb) (first_ticker (tickers s)) s)"
    by (rule phase_listeners[OF conforming_core(4)[OF cb] conforming_inv(4)[OF cb] inv])
  fix s1 :: "'a sim" assume i: "sim_inv s1"
  let ?f = "\<lambda>p s. deref (s_agents s p) s (\<lambda>a. if ag_enter_time a = -1 then ok () s else RecordInventories nd cb p s)"
  have "inert s1 (snd (foreach ?f (agent_list s1) s1))"
    by (auto intro!: inert_foreach inert_deref inert_RecordInventories)
  then show "phase_ok s1 (Some (if explicit_inventory (ti_si s1) \<or> explicit_inventory_compact (ti_si s1)
      then foreach ?f (agent_list s1) s1 else ok () s1))"
    using i by (intro phase_Some) (auto dest: inert_phase)
qed

section \<open>A time step and the whole run\<close>

lemma step_ends:
  assumes cb: "conforming cb" and ex: "exchange_ok m" "exchange_ok g" and inv: "sim_inv s"
  shows "\<exists>r s'. sim_step nd cb m g s = Some (r, s') \<and> ti_si s' = ti_si s \<and>
    (case r of Inr _ \<Rightarrow> sim_inv s' \<and> time_of s' = time_of s + 1 | Inl _ \<Rightarrow> time_of s' = time_of s)"
proof -
  define body where "body = (\<lambda>s1.
     pthen (Some (DoBuild cb s1)) (\<lambda>_ s2.
     pthen (DoTick cb s2) (\<lambda>_ s3.
     pthen (DoResEx m g s3) (\<lambda>_ s4. DoTock nd cb s4))))"
  have b: "phase_ok s1 (body s1)" if "sim_inv s1" for s1
    unfolding body_def DoTick_def DoResEx_def
    by (intro phase_ok_pthen phase_build[OF cb] phase_tock[OF cb] phase_exchange[OF ex(1)] phase_exchange[OF ex(2)]
      phase_listeners conforming_core(3)[OF cb] conforming_inv(3)[OF cb] that)
  have sn: "phase_ok s (Some (if want_snapshot s then SimInit_Snapshot cb (s\<lparr>want_snapshot := False\<rparr>) else ok () s))"
  proof (cases "want_snapshot s")
    case True
    let ?s = "s\<lparr>want_snapshot := False\<rparr>"
    have "rows_only ?s (snd (SimInit_Snapshot cb ?s))" by (rule rows_only_Snapshot) simp
    then have "inert s (snd (SimInit_Snapshot cb ?s))" by (simp add: rows_only_def inert_def)
    then show ?thesis using True inv by (intro phase_Some) (simp add: inert_phase)
  qed (use inv in \<open>simp add: phase_Some\<close>)
  have assoc: "pthen (pthen x f) h = pthen x (\<lambda>a s. pthen (f a s) h)" for x f h
    by (cases x) (auto simp: pthen_def split: sum.splits)
  have "phase_ok s (pthen (Some (if want_snapshot s then SimInit_Snapshot cb (s\<lparr>want_snapshot := False\<rparr>) else ok () s)) (\<lambda>_. body))"
    by (rule phase_ok_pthen[OF sn b])
  then obtain r s5 where x: "pthen (Some (if want_snapshot s then SimInit_Snapshot cb (s\<lparr>want_snapshot := False\<rparr>) else ok () s)) (\<lambda>_. body) = Some (r, s5)"
    "same_clock s s5" "r = Inr () \<longrightarrow> sim_inv s5" by (auto simp: phase_ok_def)
  have st: "sim_step nd cb m g s = pthen (Some (r, s5)) (\<lambda>_ s5. pthen (Some (DoDecom cb s5)) (\<lambda>_ s6. Some (ok () (advance s6))))"
    unfolding x(1)[symmetric] sim_step_def body_def assoc ..
  show ?thesis
  proof (cases r)
    case (Inl e)
    then show ?thesis using st x(2) by (simp add: same_clock_def)
  next
    case (Inr u)
    obtain r6 s6 where d: "DoDecom cb s5 = (r6, s6)" by (cases "DoDecom cb s5")
    have i5: "sim_inv s5" using x(3) Inr by simp
    note D = DoDecom_spec[OF cb i5 d]
    show ?thesis
    proof (cases r6)
      case (Inl e)
      then show ?thesis using st Inr d D(2) x(2) by (simp add: same_clock_def)
    next
      case (Inr u')
      then show ?thesis using st \<open>r = Inr u\<close> d D(2,5) x(2) by (simp add: same_clock_def advance_def ok_def)
    qed
  qed
qed

lemma run_loop_ends:
  assumes step: "\<And>s. sim_inv s \<Longrightarrow> \<exists>r s'. step s = Some (r, s') \<and> ti_si s' = ti_si s \<and>
    (case r of Inr (_ :: unit) \<Rightarrow> sim_inv s' \<and> time_of s' = time_of s + 1 | Inl _ \<Rightarrow> time_of s' = time_of s)"
  shows "sim_inv s \<Longrightarrow> \<exists>r s'. run_loop step s = Some (r, s') \<and> ti_si s' = ti_si s \<and> time_of s \<le> time_of s' \<and>
    time_of s' \<le> max (time_of s) (duration (ti_si s)) \<and>
    (r = Inr () \<longrightarrow> want_kill s' \<or> duration (ti_si s) \<le> time_of s')"
proof (induction "nat (duration (ti_si s) - time_of s)" arbitrary: s rule: less_induct)
  case less
  show ?case
  proof (cases "time_of s < duration (ti_si s)")
    case False
    then have "run_loop step s = Some (ok () s)" by (subst run_loop.simps) simp
    then show ?thesis using False by (simp add: ok_def)
  next
    case True
    obtain r s1 where h: "step s = Some (r, s1)" "ti_si s1 = ti_si s"
      "case r of Inr _ \<Rightarrow> sim_inv s1 \<and> time_of s1 = time_of s + 1 | Inl _ \<Rightarrow> time_of s1 = time_of s"
      using step[OF less.prems] by blast
    have l: "run_loop step s = pthen (Some (r, s1)) (\<lambda>_ s1. if want_kill s1 then Some (ok () s1) else run_loop step s1)"
      by (subst run_loop.simps) (simp add: True h(1))
    show ?thesis
    proof (cases r)
      case (Inl e)
      then show ?thesis using l h(2,3) by simp
    next
      case (Inr u)
      then have i: "sim_inv s1" "time_of s1 = time_of s + 1" using h(3) by auto
      show ?thesis
      proof (cases "want_kill s1")
        case True
        then show ?thesis using l Inr i h(2) \<open>time_of s < duration (ti_si s)\<close> by (simp add: ok_def)
      next
        case False
        have "nat (duration (ti_si s1) - time_of s1) < nat (duration (ti_si s) - time_of s)" using i(2) h(2) True by simp
        from less.hyps[OF this i(1)] show ?thesis using l Inr False i(2) h(2) True by (auto simp: max_def)
      qed
    qed
  qed
qed

end
