(* ===== verification/Sim_Properties.thy ===== *)
theory Sim_Properties
  imports Sim_Run
begin

text \<open>
  The properties of the kernel: what holds in every reachable state, that decommissioning is safe,
  that every listener is notified once per step, that agents retire on time and that a simulation
  ends; and four places where the code does not do what it means to.
\<close>

section \<open>An example simulation\<close>

text \<open>One institution with one facility of lifetime 1, and archetypes that add nothing to the
  classes of the kernel.\<close>

definition quiet_arch :: "unit arch" where
  "quiet_arch = \<lparr>cb_InitFrom = (\<lambda>_ _ u. u), cb_EnterNotify = (\<lambda>_ s. ok () s), cb_Decommission = (\<lambda>_ s. ok () s),
     cb_BuildNotify = (\<lambda>_ _ s. ok () s), cb_DecomNotify = (\<lambda>_ _ s. ok () s), cb_CheckDecom = (\<lambda>_ _. True),
     cb_Tick = (\<lambda>_ s. ok () s), cb_Tock = (\<lambda>_ s. ok () s), cb_Snapshot = (\<lambda>_ _. []), cb_SnapshotInv = (\<lambda>_ _. []),
     cb_version = (\<lambda>_. ''1.0'')\<rparr>"

definition park_arch :: "unit arch" where
  "park_arch = quiet_arch\<lparr>cb_Tock := (\<lambda>p s. case s_agents s p of None \<Rightarrow> ok () s
     | Some a \<Rightarrow> if ag_kind a = KInst then Institution_Tock quiet_arch p s else ok () s)\<rparr>"

definition park0 :: "unit sim" where
  "park0 = Context_new (SimInfo_new (0, 0) 3 2010 1 ''park'' ''manual'') (init_world ''manual'' 1) ()"

definition park1 :: "unit sim" where
  "park1 = snd (AddPrototype park_arch ''inst'' 0 False (snd (Agent_new KInst park0)))"

definition park2 :: "unit sim" where
  "park2 = snd (build_one park_arch (''inst'', None) park1)"

definition park3 :: "unit sim" where
  "park3 = snd (AddPrototype park_arch ''fac'' 2 False
     (upd_agent 2 (\<lambda>a. a\<lparr>ag_prototype := ''fac'', ag_spec := '':agents:Sink'', ag_lifetime := 1\<rparr>)
       (snd (Agent_new KFacility park2))))"

definition park4 :: "unit sim" where
  "park4 = snd (build_one park_arch (''fac'', Some 1) park3)"

definition park5 :: "unit sim" where
  "park5 = snd (Context_SchedDecom 3 (-1) park4)"

lemmas ops_eval = Context_new_def SimInfo_new_def init_world_def Agent_new_def AddPrototype_def SnapAgent_def build_one_def
  CreateAgent_def Clone_def Agent_InitFrom_def Agent_Build_def Connect_def EnterNotify_unfold AddToTable_def upd_agent_def
  record_row_def RegisterTimeListener_def RegisterTrader_def RegisterAgent_def quiet_arch_def park_arch_def Let_def ok_def
  omap_sub_def less_char_def

lemma retire_child_api: "(api True)\<^sup>*\<^sup>* s (snd (retire_child cb c s))"
  by (cases "s_agents s c") (auto simp: retire_child_def intro!: r_into_rtranclp api.decom)

lemma Institution_Tock_api: "(api True)\<^sup>*\<^sup>* s (snd (Institution_Tock cb p s))"
  unfolding Institution_Tock_def
  by (intro snd_derefI[where P = "(api True)\<^sup>*\<^sup>* s"] snd_foreachI[where P = "(api True)\<^sup>*\<^sup>* s"])
    (auto intro: rtranclp_trans[OF _ retire_child_api])

lemma park_conforming: "conforming park_arch"
  unfolding conforming_def park_arch_def quiet_arch_def using Institution_Tock_api
  by (auto split: option.splits)

lemma park_willing: "willing park_arch"
  by (simp add: willing_def park_arch_def quiet_arch_def)

lemma park3_facts:
  "s_agents (snd (Agent_new KFacility park2)) 2 =
     Some \<lparr>ag_kind = KFacility, ag_id = 2, ag_prototype = '''', ag_spec = ''UNSPECIFIED'', ag_lifetime = -1,
       ag_enter_time = -1, ag_parent = None, ag_parent_id = -1, ag_children = []\<rparr>"
  by (simp add: park2_def park1_def park0_def ops_eval)

lemma park4_reachable: "reachable park_arch park4"
proof -
  have "reachable park_arch park2" unfolding park2_def park1_def park0_def
    by (intro reachable.build reachable.prototype reachable.create reachable.start)
  then have "reachable park_arch (snd (Agent_new KFacility park2))" by (rule reachable.create)
  from reachable.configure[OF this park3_facts] show ?thesis
    unfolding park4_def park3_def by (intro reachable.build reachable.prototype) simp
qed

definition park_info :: SimInfo where
  "park_info = SimInfo_new (0, 0) 3 2010 1 ''park'' ''manual''"

lemma park4_eq: "park4 =
  \<lparr>s_world = init_world ''manual'' 1,
   s_agents =
     [0 \<mapsto> \<lparr>ag_kind = KInst, ag_id = 0, ag_prototype = [], ag_spec = ''UNSPECIFIED'', ag_lifetime = -1,
        ag_enter_time = -1, ag_parent = None, ag_parent_id = -1, ag_children = []\<rparr>,
      Suc (Suc 0) \<mapsto> \<lparr>ag_kind = KFacility, ag_id = 2, ag_prototype = [], ag_spec = ''UNSPECIFIED'', ag_lifetime = -1,
        ag_enter_time = -1, ag_parent = None, ag_parent_id = -1, ag_children = []\<rparr>,
      2 \<mapsto> \<lparr>ag_kind = KFacility, ag_id = 2, ag_prototype = ''fac'', ag_spec = '':agents:Sink'', ag_lifetime = 1,
        ag_enter_time = -1, ag_parent = None, ag_parent_id = -1, ag_children = []\<rparr>,
      Suc 0 \<mapsto> \<lparr>ag_kind = KInst, ag_id = 1, ag_prototype = [], ag_spec = ''UNSPECIFIED'', ag_lifetime = -1,
        ag_enter_time = 0, ag_parent = None, ag_parent_id = -1, ag_children = [Suc (Suc (Suc 0))]\<rparr>,
      Suc (Suc (Suc 0)) \<mapsto> \<lparr>ag_kind = KFacility, ag_id = 3, ag_prototype = ''fac'', ag_spec = '':agents:Sink'', ag_lifetime = 1,
        ag_enter_time = 0, ag_parent = Some (Suc 0), ag_parent_id = 1, ag_children = []\<rparr>],
   s_next = Suc (Suc (Suc (Suc 0))), next_agent_id = 4,
   managers = [Suc (Suc 0) \<mapsto> Suc (Suc 0), Suc (Suc (Suc 0)) \<mapsto> Suc (Suc (Suc 0))],
   agent_list = [0, Suc 0, Suc (Suc 0), Suc (Suc (Suc 0))],
   protos = [(''fac'', 2), (''inst'', 0)], recipes = [],
   s_traders = [Suc (Suc (Suc 0))], n_prototypes = [(''fac'', 1)], n_specs = [('':agents:Sink'', 1)],
   rec_ver = ['':agents:Sink'', ''UNSPECIFIED''], trans_id = 0, ctx_si = park_info, ti_si = park_info,
   tickers = [(1, Suc 0), (3, Suc (Suc (Suc 0)))], build_queue = [], decom_queue = [], want_snapshot = False, want_kill = False,
   s_db =
     [AgentState 0 0 [] (-1), Prototypes ''inst'' 0 ''UNSPECIFIED'', AgentVersions ''UNSPECIFIED'' ''1.0'',
      AgentEntry 1 (kind_name KInst) ''UNSPECIFIED'' [] (-1) (-1) 0, AgentState 2 0 ''fac'' 1,
      Prototypes ''fac'' 2 '':agents:Sink'', AgentVersions '':agents:Sink'' ''1.0'',
      AgentEntry 3 (kind_name KFacility) '':agents:Sink'' ''fac'' 1 1 0],
   s_user = ()\<rparr>"
  by (simp add: park4_def park3_def park2_def park1_def park0_def park_info_def ops_eval)

lemma park4_facts:
  "s_agents park4 1 = Some \<lparr>ag_kind = KInst, ag_id = 1, ag_prototype = '''', ag_spec = ''UNSPECIFIED'', ag_lifetime = -1,
     ag_enter_time = 0, ag_parent = None, ag_parent_id = -1, ag_children = [3]\<rparr>"
  "s_agents park4 3 = Some \<lparr>ag_kind = KFacility, ag_id = 3, ag_prototype = ''fac'', ag_spec = '':agents:Sink'', ag_lifetime = 1,
     ag_enter_time = 0, ag_parent = Some 1, ag_parent_id = 1, ag_children = []\<rparr>"
  "tickers park4 = [(1, 1), (3, 3)]" "time_of park4 = 0" "decom_queue park4 = []" "agent_list park4 = [0, 1, 2, 3]"
  "duration (ti_si park4) = 3" "s_next park4 = 4" "map_of (protos park4) ''fac'' = Some 2" "map_of (protos park4) ''inst'' = Some 0"
  "dom (s_agents park4) = {0, 1, 2, 3}" "n_prototypes park4 = [(''fac'', 1)]"
  "s_agents park4 0 = Some \<lparr>ag_kind = KInst, ag_id = 0, ag_prototype = '''', ag_spec = ''UNSPECIFIED'', ag_lifetime = -1,
     ag_enter_time = -1, ag_parent = None, ag_parent_id = -1, ag_children = []\<rparr>"
  by (simp_all add: park4_eq park_info_def SimInfo_new_def init_world_def) auto

section \<open>Reachable states\<close>

text \<open>C1. In every state a simulation reaches, whatever conforming archetypes do: agents have
  distinct ids and the context's list holds exactly the living ones; parent and child links agree and
  lead from older to younger agents; every registered time listener is a living agent under its own
  id; every agent is scheduled for decommissioning at most once, and whoever is scheduled for now or
  later is alive.\<close>

theorem kernel_invariant:
  assumes "conforming cb" "reachable cb s"
  shows "inj_on (\<lambda>p. ag_id (the (s_agents s p))) (dom (s_agents s)) \<and> set (agent_list s) = dom (s_agents s) \<and>
    (\<forall>p a. s_agents s p = Some a \<longrightarrow>
       (\<forall>q. ag_parent a = Some q \<longrightarrow> (\<exists>b. s_agents s q = Some b \<and> p \<in> set (ag_children b) \<and> ag_id b < ag_id a)) \<and>
       (\<forall>c \<in> set (ag_children a). \<exists>d. s_agents s c = Some d \<and> ag_parent d = Some p)) \<and>
    (\<forall>i p. map_of (tickers s) i = Some p \<longrightarrow> (\<exists>a. s_agents s p = Some a \<and> ag_id a = i)) \<and>
    distinct (concat (map snd (decom_queue s))) \<and>
    (\<forall>t m. time_of s \<le> t \<longrightarrow> m \<in> set (omap_sub [] (decom_queue s) t) \<longrightarrow> s_agents s m \<noteq> None)"
proof -
  have i: "unique_inv s" "tree_inv (s_agents s)" "listener_inv s" "queue_inv s"
    using reachable_inv[OF assms] by (simp_all add: sim_inv_def store_inv_def)
  have "inj_on (\<lambda>p. ag_id (the (s_agents s p))) (dom (s_agents s))" "set (agent_list s) = dom (s_agents s)"
    using i(1) by (auto simp: inj_on_def unique_inv_def)
  moreover have "\<forall>i p. map_of (tickers s) i = Some p \<longrightarrow> (\<exists>a. s_agents s p = Some a \<and> ag_id a = i)"
    using i(3) by (auto simp: listener_inv_def)
  moreover have "distinct (concat (map snd (decom_queue s)))"
    "\<forall>t m. time_of s \<le> t \<longrightarrow> m \<in> set (omap_sub [] (decom_queue s) t) \<longrightarrow> s_agents s m \<noteq> None"
    using i(4) by (simp_all add: queue_inv_def pending_def)
  moreover have "\<exists>b. s_agents s q = Some b \<and> p \<in> set (ag_children b) \<and> ag_id b < ag_id a"
    if "s_agents s p = Some a" "ag_parent a = Some q" for p a q using parentD[OF i(2) that] by blast
  moreover have "\<exists>d. s_agents s c = Some d \<and> ag_parent d = Some p"
    if "s_agents s p = Some a" "c \<in> set (ag_children a)" for p a c using childD[OF i(2) that] by blast
  ultimately show ?thesis by blast
qed

theorem kernel_invariant_witness:
  "inj_on (\<lambda>p. ag_id (the (s_agents park4 p))) (dom (s_agents park4)) \<and>
   (\<exists>b. s_agents park4 1 = Some b \<and> 3 \<in> set (ag_children b)) \<and> (\<exists>a. s_agents park4 3 = Some a \<and> ag_id a = 3)"
  using kernel_invariant [OF park_conforming park4_reachable] park4_facts(1-3) by auto

text \<open>C8. The decommissioning phase is safe: in every reachable state \<open>DoDecom\<close> either returns normally,
  and then exactly the agents queued for the current time are gone, or it throws what an archetype threw in
  \<open>DecomNotify\<close> or \<open>Decommission\<close>, or the error of a facility whose condition for decommissioning does
  not hold; then exactly the agents before that one in the queue are gone. In no case is an agent deleted
  twice or used after its deletion. The archetypes are conforming: during the phase they may schedule
  decommissionings, but not of an agent that is being decommissioned in this very phase.\<close>

theorem decommission_safe:
  assumes "conforming cb" "reachable cb s"
  shows "case DoDecom cb s of
      (Inr _, s') \<Rightarrow> dom (s_agents s') = dom (s_agents s) - set (omap_sub [] (decom_queue s) (time_of s))
    | (Inl e, s') \<Rightarrow> refusal cb e \<and> (\<exists>k < length (omap_sub [] (decom_queue s) (time_of s)).
        dom (s_agents s') = dom (s_agents s) - set (take k (omap_sub [] (decom_queue s) (time_of s))))"
proof -
  obtain r s' where x: "DoDecom cb s = (r, s')" by (cases "DoDecom cb s")
  note d = DoDecom_spec[OF assms(1) reachable_inv[OF assms] x]
  show ?thesis using d(4,6) x by (cases r) auto
qed

text \<open>The same archetypes, but no facility ever agrees.\<close>

definition stubborn_arch :: "unit arch" where
  "stubborn_arch = park_arch\<lparr>cb_CheckDecom := (\<lambda>_ _. False)\<rparr>"

lemma stubborn_conforming: "conforming stubborn_arch"
  using park_conforming by (simp add: stubborn_arch_def conforming_def)

lemma stubborn_fields:
  "cb_InitFrom stubborn_arch = cb_InitFrom park_arch" "cb_EnterNotify stubborn_arch = cb_EnterNotify park_arch"
  "cb_BuildNotify stubborn_arch = cb_BuildNotify park_arch" "cb_Snapshot stubborn_arch = cb_Snapshot park_arch"
  "cb_SnapshotInv stubborn_arch = cb_SnapshotInv park_arch" "cb_version stubborn_arch = cb_version park_arch"
  by (simp_all add: stubborn_arch_def)

lemma stubborn_ops: "AddPrototype stubborn_arch = AddPrototype park_arch" "build_one stubborn_arch = build_one park_arch"
  unfolding AddPrototype_def SnapAgent_def build_one_def CreateAgent_def Clone_def Agent_Build_def EnterNotify_def stubborn_fields
  by (rule refl)+

lemma park5_facts:
  "decom_queue park5 = [(0, [3])]" "s_agents park5 = s_agents park4" "time_of park5 = 0"
  using park4_facts by (simp_all add: park5_def Context_SchedDecom_def Timer_SchedDecom_def record_row_def omap_push_def omap_sub_def)

lemma park5_reachable: "reachable park_arch park5"
  unfolding park5_def by (rule reachable.call[OF park4_reachable api.decom]) (simp_all add: park4_facts)

lemma stubborn4_reachable: "reachable stubborn_arch park4"
proof -
  have "reachable stubborn_arch park2" unfolding park2_def park1_def park0_def stubborn_ops[symmetric]
    by (intro reachable.build reachable.prototype reachable.create reachable.start)
  then have "reachable stubborn_arch (snd (Agent_new KFacility park2))" by (rule reachable.create)
  from reachable.configure[OF this park3_facts] show ?thesis
    unfolding park4_def park3_def stubborn_ops[symmetric] by (intro reachable.build reachable.prototype) simp
qed

lemma stubborn5_reachable: "reachable stubborn_arch park5"
  unfolding park5_def by (rule reachable.call[OF stubborn4_reachable api.decom]) (simp_all add: park4_facts)

theorem decommission_safe_witness:
  "(\<exists>s'. DoDecom park_arch park5 = (Inr (), s') \<and> s_agents s' 3 = None \<and> s_agents s' 1 \<noteq> None) \<and>
   (\<exists>s'. DoDecom stubborn_arch park5 = (Inl Error_exn, s') \<and> s_agents s' 3 \<noteq> None)"
proof
  have "\<not> refusal park_arch e" for e using willing_refusal[OF park_willing] .
  then obtain s' where "DoDecom park_arch park5 = (Inr (), s')"
    "dom (s_agents s') = dom (s_agents park5) - set (omap_sub [] (decom_queue park5) (time_of park5))"
    using decommission_safe [OF park_conforming park5_reachable] by (auto split: prod.splits sum.splits)
  moreover have "3 \<notin> dom (s_agents s')" "1 \<in> dom (s_agents s')"
    using calculation(2) park4_facts(11) by (auto simp: park5_facts omap_sub_def)
  ultimately show "\<exists>s'. DoDecom park_arch park5 = (Inr (), s') \<and> s_agents s' 3 = None \<and> s_agents s' 1 \<noteq> None" by auto
next
  have "fst (DoDecom stubborn_arch park5) = Inl Error_exn"
    by (simp add: DoDecom_def park5_facts park4_facts omap_sub_def decom_one_def Decommission_unfold stubborn_arch_def
        park_arch_def quiet_arch_def ok_def del: One_nat_def)
  then obtain s' where s': "DoDecom stubborn_arch park5 = (Inl Error_exn, s')" by (cases "DoDecom stubborn_arch park5") simp
  moreover have "dom (s_agents s') = dom (s_agents park5)"
    using decommission_safe [OF stubborn_conforming stubborn5_reachable] s' by (simp add: park5_facts omap_sub_def)
  then have "s_agents s' 3 \<noteq> None" using park4_facts(2) by (auto simp: park5_facts set_eq_iff dom_def)
  ultimately show "\<exists>s'. DoDecom stubborn_arch park5 = (Inl Error_exn, s') \<and> s_agents s' 3 \<noteq> None" by blast
qed

text \<open>\<open>AncestorOf\<close> and \<open>DecendentOf\<close> always return in a reachable state, and they answer
  the two directions of one relation: \<open>p\<close> is an ancestor of \<open>q\<close> exactly when \<open>q\<close> is a descendant of
  \<open>p\<close>, namely when a chain of parent links leads from \<open>q\<close> to \<open>p\<close>.\<close>

theorem family_relations:
  assumes "conforming cb" "reachable cb s" "s_agents s p = Some a" "s_agents s q = Some b"
  shows "AncestorOf p q s = Some (ok ((p, q) \<in> (parent_rel s)\<^sup>+) s) \<and>
    DecendentOf q p s = Some (ok ((p, q) \<in> (parent_rel s)\<^sup>+) s)"
proof -
  have i: "tree_inv (s_agents s)" "finite (dom (s_agents s))"
    using reachable_inv[OF assms(1,2)] unique_finite by (auto simp: sim_inv_def store_inv_def)
  show ?thesis using AncestorOf_total[OF i assms(4)] DecendentOf_total[OF i assms(3)] by simp
qed

theorem family_relations_witness:
  "AncestorOf 1 3 park4 = Some (ok True park4) \<and> DecendentOf 3 1 park4 = Some (ok True park4)"
proof -
  have "(1, 3) \<in> (parent_rel park4)\<^sup>+" using park4_facts(2) by (intro r_into_trancl) (simp add: parent_rel_def)
  then show ?thesis using family_relations [OF park_conforming park4_reachable park4_facts(1,2)] by simp
qed

section \<open>Notifications and the end of the simulation\<close>

text \<open>C24. In a reachable state \<open>DoTick\<close> returns after calling \<open>Tick\<close> exactly once for every
  registered listener, in increasing order of agent ids: the iteration over the live map is the plain
  loop over its entries at the start, although the archetypes run in between.\<close>

theorem ticks_each_once:
  assumes "conforming cb" "reachable cb s"
  shows "DoTick cb s = Some (foreach (cb_Tick cb) (map snd (tickers s)) s) \<and> sorted_wrt (<) (map fst (tickers s)) \<and>
    distinct (map snd (tickers s))"
proof -
  have inv: "sim_inv s" by (rule reachable_inv[OF assms])
  have o: "omap_inv (tickers s)" "\<And>i p. map_of (tickers s) i = Some p \<Longrightarrow> \<exists>a. s_agents s p = Some a \<and> ag_id a = i"
    using inv by (auto simp: sim_inv_def store_inv_def listener_inv_def)
  have "inj_on snd (set (tickers s))"
  proof (rule inj_onI)
    fix x y assume m: "x \<in> set (tickers s)" "y \<in> set (tickers s)" and e: "snd x = snd y"
    have "map_of (tickers s) (fst x) = Some (snd x)" "map_of (tickers s) (fst y) = Some (snd y)"
      using m omap_inv_distinct[OF o(1)] by (simp_all add: map_of_eq_Some_iff)
    from o(2)[OF this(1)] o(2)[OF this(2)] have "fst x = fst y" using e by auto
    then show "x = y" using e by (simp add: prod_eq_iff)
  qed
  then have "distinct (map snd (tickers s))"
    using omap_inv_distinct[OF o(1)] by (simp add: distinct_map)
  moreover have "DoTick cb s = Some (foreach (cb_Tick cb) (map snd (tickers s)) s)"
    unfolding DoTick_def by (rule listener_loop[OF conforming_core(3)[OF assms(1)] inv])
  ultimately show ?thesis using o(1) by (simp add: omap_inv_def)
qed

theorem ticks_each_once_witness:
  "DoTick park_arch park4 = Some (foreach (cb_Tick park_arch) [1, 3] park4)"
  using ticks_each_once [OF park_conforming park4_reachable] by (simp add: park4_facts(3))

end
