(* ===== verification/Sim_Findings.thy ===== *)
theory Sim_Findings
  imports Sim_Properties
begin

text \<open>
  The retirement of agents at the end of their lifetime, and the places where the kernel's
  bookkeeping of agents goes wrong.
\<close>

section \<open>Retirement\<close>

text \<open>A child whose lifetime is over and, for a facility, whose condition for decommissioning holds.\<close>

definition due :: "'u arch \<Rightarrow> 'u sim \<Rightarrow> ptr \<Rightarrow> bool" where
  "due cb s c \<longleftrightarrow> (\<exists>a. s_agents s c = Some a \<and> ag_lifetime a \<noteq> -1 \<and> exit_time a \<le> time_of s \<and>
     (ag_kind a \<noteq> KFacility \<or> cb_CheckDecom cb c s))"

text \<open>The condition of a facility reads neither the timer's queue, which is private, nor the output.\<close>

definition check_local :: "'u arch \<Rightarrow> bool" where
  "check_local cb \<longleftrightarrow> (\<forall>p s q d. cb_CheckDecom cb p (s\<lparr>decom_queue := q, s_db := d\<rparr>) = cb_CheckDecom cb p s)"

lemma retire_child_spec:
  assumes "s_agents s c = Some a"
  shows "retire_child cb c s = (Inr (), if due cb s c
    then s\<lparr>decom_queue := omap_push (time_of s) c (unsched c (decom_queue s)),
           s_db := s_db s @ [DecomSchedule (ag_id a) (time_of s) (time_of s)]\<rparr>
    else s)"
  using assms
  by (auto simp: retire_child_def due_def Context_SchedDecom_def Timer_SchedDecom_def record_row_def Let_def ok_def)

lemma due_local: "check_local cb \<Longrightarrow> due cb (s\<lparr>decom_queue := q, s_db := d\<rparr>) c = due cb s c"
  by (simp add: due_def check_local_def)

lemma queue_at_push:
  assumes "omap_inv q" "distinct (pending q)" "d \<noteq> c"
  shows "d \<in> set (omap_sub [] (omap_push t c (unsched c q)) t') \<longleftrightarrow> d \<in> set (omap_sub [] q t')"
  using omap_sub_unsched[OF assms(1), of c t'] assms(3) by (auto simp: omap_sub_push)

text \<open>After the loop exactly the due children are queued for now, besides what was queued before.\<close>

lemma retire_loop:
  assumes w: "check_local cb"
  shows "sim_inv s \<Longrightarrow> (\<And>c. c \<in> set cs \<Longrightarrow> s_agents s c \<noteq> None) \<Longrightarrow>
    \<exists>s' q d. foreach (retire_child cb) cs s = (Inr (), s') \<and> s' = s\<lparr>decom_queue := q, s_db := d\<rparr> \<and> sim_inv s' \<and>
      (\<forall>d. d \<in> set (omap_sub [] (decom_queue s') (time_of s)) \<longleftrightarrow>
        d \<in> set (omap_sub [] (decom_queue s) (time_of s)) \<or> (d \<in> set cs \<and> due cb s d))"
proof (induction cs arbitrary: s)
  case Nil
  then show ?case by (intro exI[of _ s] exI[of _ "decom_queue s"] exI[of _ "s_db s"]) (simp add: ok_def)
next
  case (Cons c cs)
  obtain a where a: "s_agents s c = Some a" using Cons.prems(2)[of c] by auto
  note r = retire_child_spec[OF a, of cb]
  obtain s1 q1 d1 where s1: "retire_child cb c s = (Inr (), s1)" "s1 = s\<lparr>decom_queue := q1, s_db := d1\<rparr>"
  proof (cases "due cb s c")
    case True
    then show thesis using r by (intro that[OF _ refl]) simp
  next
    case False
    then show thesis using that[of s "s_db s" "decom_queue s"] r by simp
  qed
  have i1: "sim_inv s1" using api_star_inv[OF retire_child_api[of s cb c] Cons.prems(1)] s1(1) by simp
  have q: "omap_inv (decom_queue s)" "distinct (pending (decom_queue s))" using Cons.prems(1) by (auto simp: sim_inv_def queue_inv_def)
  have m: "d \<in> set (omap_sub [] (decom_queue s1) (time_of s)) \<longleftrightarrow> d \<in> set (omap_sub [] (decom_queue s) (time_of s)) \<or> (d = c \<and> due cb s c)" for d
    using r s1(1) queue_at_push[OF q, of d c "time_of s" "time_of s"]
    by (cases "d = c") (auto simp: omap_sub_push split: if_splits)
  obtain s' q' d' where s': "foreach (retire_child cb) cs s1 = (Inr (), s')" "s' = s1\<lparr>decom_queue := q', s_db := d'\<rparr>" "sim_inv s'"
    "\<forall>d. d \<in> set (omap_sub [] (decom_queue s') (time_of s1)) \<longleftrightarrow>
        d \<in> set (omap_sub [] (decom_queue s1) (time_of s1)) \<or> (d \<in> set cs \<and> due cb s1 d)"
  proof -
    have "s_agents s1 x \<noteq> None" if "x \<in> set cs" for x using Cons.prems(2)[of x] that s1(2) by simp
    from Cons.IH[OF i1 this] show thesis using that by blast
  qed
  have "s' = s\<lparr>decom_queue := q', s_db := d'\<rparr>" using s'(2) s1(2) by simp
  moreover have "due cb s1 d = due cb s d" for d unfolding s1(2) by (rule due_local[OF w])
  moreover have "time_of s1 = time_of s" using s1(2) by simp
  moreover have "foreach (retire_child cb) (c # cs) s = (Inr (), s')" using s1(1) s'(1) by simp
  ultimately show ?case using s'(3,4) m by (intro exI[of _ s'] exI[of _ q'] exI[of _ d'] conjI allI) auto
qed

text \<open>C27. Agents retire on time. In every reachable state \<open>Institution::Tock\<close> returns, and then a child of
  the institution is queued for decommissioning now exactly when it was queued before or its lifetime is
  over and, for a facility, its condition for decommissioning holds; a facility whose condition fails is
  left alone. When the decommissioning phase of the step returns, exactly these children are gone; it
  can only throw because an archetype refuses. The condition of a facility is assumed not to read the
  timer's queue and the output.\<close>

theorem retires_children:
  assumes "conforming cb" "check_local cb" "reachable cb s" "s_agents s q = Some b"
  shows "\<exists>s'. Institution_Tock cb q s = (Inr (), s') \<and>
    (\<forall>c \<in> set (ag_children b). c \<in> set (omap_sub [] (decom_queue s') (time_of s')) \<longleftrightarrow>
       due cb s c \<or> c \<in> set (omap_sub [] (decom_queue s) (time_of s))) \<and>
    (case DoDecom cb s' of
       (Inr _, s'') \<Rightarrow> \<forall>c \<in> set (ag_children b). s_agents s'' c = None \<longleftrightarrow>
         due cb s c \<or> c \<in> set (omap_sub [] (decom_queue s) (time_of s))
     | (Inl e, _) \<Rightarrow> refusal cb e)"
proof -
  have inv: "sim_inv s" by (rule reachable_inv[OF assms(1,3)])
  have t: "tree_inv (s_agents s)" using inv by (simp add: sim_inv_def store_inv_def)
  have live: "s_agents s c \<noteq> None" if "c \<in> set (ag_children b)" for c using childD[OF t assms(4) that] by auto
  obtain s' q' d' where s': "foreach (retire_child cb) (ag_children b) s = (Inr (), s')" "s' = s\<lparr>decom_queue := q', s_db := d'\<rparr>" "sim_inv s'"
    "\<forall>d. d \<in> set (omap_sub [] (decom_queue s') (time_of s)) \<longleftrightarrow>
        d \<in> set (omap_sub [] (decom_queue s) (time_of s)) \<or> (d \<in> set (ag_children b) \<and> due cb s d)"
    using retire_loop[OF assms(2) inv live] by blast
  have e: "s_agents s' = s_agents s" "time_of s' = time_of s" using s'(2) by simp_all
  obtain r s'' where x: "DoDecom cb s' = (r, s'')" by (cases "DoDecom cb s'")
  note D = DoDecom_spec(4,6)[OF assms(1) s'(3) x]
  have "s_agents s'' c = None \<longleftrightarrow> due cb s c \<or> c \<in> set (omap_sub [] (decom_queue s) (time_of s))"
    if "c \<in> set (ag_children b)" "r = Inr ()" for c using D(1)[OF that(2)] live[OF that(1)] that(1) s'(4) e by (auto simp: domIff set_eq_iff)
  moreover have "Institution_Tock cb q s = (Inr (), s')" using s'(1) assms(4) by (simp add: Institution_Tock_def)
  moreover have "refusal cb y" if "r = Inl y" for y using D(2)[OF that] by blast
  ultimately show ?thesis using s'(4) e x by (intro exI[of _ s']) (auto split: sum.splits)
qed

theorem retires_children_witness:
  "(\<exists>s' s''. Institution_Tock park_arch 1 park4 = (Inr (), s') \<and> DoDecom park_arch s' = (Inr (), s'') \<and> s_agents s'' 3 = None) \<and>
   (\<exists>s'. Institution_Tock stubborn_arch 1 park4 = (Inr (), s') \<and> 3 \<notin> set (omap_sub [] (decom_queue s') 0))"
proof
  have "check_local park_arch" by (simp add: check_local_def park_arch_def quiet_arch_def)
  moreover have "due park_arch park4 3" using park4_facts(2,4) willingD(3)[OF park_willing] by (simp add: due_def exit_time_def)
  ultimately show "\<exists>s' s''. Institution_Tock park_arch 1 park4 = (Inr (), s') \<and> DoDecom park_arch s' = (Inr (), s'') \<and> s_agents s'' 3 = None"
    using retires_children [OF park_conforming _ park4_reachable park4_facts(1)] willing_refusal[OF park_willing]
    by (fastforce split: prod.splits sum.splits)
next
  have "check_local stubborn_arch" by (simp add: check_local_def stubborn_arch_def)
  then obtain s' where s': "Institution_Tock stubborn_arch 1 park4 = (Inr (), s')"
    "3 \<in> set (omap_sub [] (decom_queue s') (time_of s')) \<longleftrightarrow>
       due stubborn_arch park4 3 \<or> 3 \<in> set (omap_sub [] (decom_queue park4) (time_of park4))"
    using retires_children [OF stubborn_conforming _ stubborn4_reachable park4_facts(1)] by auto
  moreover have "\<not> due stubborn_arch park4 3" using park4_facts(2) by (simp add: due_def stubborn_arch_def)
  moreover have "time_of s' = 0"
    using core_time[OF api_star_core[OF Institution_Tock_api[of park4 stubborn_arch 1]]] s'(1) park4_facts(4) by simp
  ultimately show "\<exists>s'. Institution_Tock stubborn_arch 1 park4 = (Inr (), s') \<and> 3 \<notin> set (omap_sub [] (decom_queue s') 0)"
    by (simp add: park4_facts(5) omap_sub_def)
qed

section \<open>Printing the family\<close>

text \<open>\<open>GetTreePrintOuts\<close> recurses over the same children again and again.\<close>

definition looping :: "ptr \<Rightarrow> ptr \<Rightarrow> ptr list \<Rightarrow> 'u sim \<Rightarrow> bool" where
  "looping this m cs s \<longleftrightarrow> (\<exists>a. s_agents s this = Some a \<and> ag_children a \<noteq> [] \<and> set cs \<subseteq> set (ag_children a) \<and>
     (\<forall>c \<in> set (ag_children a). s_agents s c \<noteq> None)) \<and> s_agents s m \<noteq> None \<and> cs \<noteq> []"

lemma tree_outs_diverges:
  assumes "tree_outs this m cs s = Some y"
  shows "\<not> looping this m cs s"
proof (rule tree_outs.raw_induct[where P = "\<lambda>this m cs s y. \<not> looping this m cs s", OF _ assms])
  fix f :: "ptr \<Rightarrow> ptr \<Rightarrow> ptr list \<Rightarrow> 'a sim \<Rightarrow> (exn + string list) option" and this m cs s y
  assume IH: "\<And>this m cs s y. f this m cs s = Some y \<Longrightarrow> \<not> looping this m cs s"
    and y: "(case s_agents s m of
        None \<Rightarrow> Some (Inl Undefined)
      | Some b \<Rightarrow>
          (case cs of
             [] \<Rightarrow> Some (Inr [ag_prototype b @ endl])
           | c # cs' \<Rightarrow>
               f this c (case s_agents s this of None \<Rightarrow> [] | Some a \<Rightarrow> ag_children a) s \<bind> (\<lambda>r.
                 case r of
                   Inl e \<Rightarrow> Some (Inl e)
                 | Inr outs \<Rightarrow> f this m cs' s \<bind> (\<lambda>r'.
                     case r' of
                       Inl e \<Rightarrow> Some (Inl e)
                     | Inr rest \<Rightarrow> Some (Inr (hd rest # map (\<lambda>o1. tab @ o1 @ endl) outs @ tl rest)))))) = Some y"
  show "\<not> looping this m cs s"
  proof
    assume l: "looping this m cs s"
    then obtain a c cs' b where a: "s_agents s this = Some a" "s_agents s m = Some b" "cs = c # cs'"
      by (cases cs) (auto simp: looping_def)
    have "looping this c (ag_children a) s" using l a by (auto simp: looping_def)
    then have "f this c (ag_children a) s = None" using IH by (cases "f this c (ag_children a) s") blast+
    then show False using y a by simp
  qed
qed

text \<open>\<open>PrintChildren\<close> never returns for an agent that has children: the recursion of
  \<open>GetTreePrintOuts\<close> runs over the children of the agent it is called on instead of those of its
  argument.\<close>

theorem print_children_diverges:
  assumes "conforming cb" "reachable cb s" "s_agents s p = Some a" "ag_children a \<noteq> []"
  shows "PrintChildren p s = None"
proof -
  obtain c cs where c: "ag_children a = c # cs" using assms(4) by (cases "ag_children a") auto
  have t: "tree_inv (s_agents s)" using reachable_inv[OF assms(1,2)] by (simp add: sim_inv_def store_inv_def)
  have live: "s_agents s x \<noteq> None" if "x \<in> set (ag_children a)" for x using childD[OF t assms(3) that] by auto
  have "tree_outs p c (ag_children a) s \<noteq> Some y" for y
    using tree_outs_diverges[of p c "ag_children a" s y] live assms(3,4) c by (auto simp: looping_def)
  then have "tree_outs p c (ag_children a) s = None" by (cases "tree_outs p c (ag_children a) s") auto
  then show ?thesis using assms(3) c by (simp add: PrintChildren_def GetTreePrintOuts_def)
qed

theorem print_children_diverges_witness: "PrintChildren 1 park4 = None"
  by (rule print_children_diverges [OF park_conforming park4_reachable park4_facts(1)]) simp

section \<open>The end of the context\<close>

lemma delete_loop:
  "set (agent_list s) = dom (s_agents s) \<Longrightarrow> tree_inv (s_agents s) \<Longrightarrow>
    \<exists>s'. foreach DelAgent ps s = (Inr (), s') \<and> dom (s_agents s') = dom (s_agents s) - set ps"
proof (induction ps arbitrary: s)
  case Nil
  then show ?case by (simp add: ok_def)
next
  case (Cons p ps)
  show ?case
  proof (cases "s_agents s p")
    case None
    then have "DelAgent p s = (Inr (), s)" using Cons.prems(1) by (auto simp: DelAgent_def ok_def)
    moreover obtain s' where "foreach DelAgent ps s = (Inr (), s')" "dom (s_agents s') = dom (s_agents s) - set ps"
      using Cons.IH[OF Cons.prems] by blast
    ultimately show ?thesis using None by auto
  next
    case (Some a)
    let ?s = "s\<lparr>agent_list := oset_del p (agent_list s), s_agents := unlink (s_agents s) p a\<rparr>"
    have "DelAgent p s = (Inr (), ?s)" by (rule DelAgent_spec) (use Cons.prems Some in auto)
    moreover have "\<exists>s'. foreach DelAgent ps ?s = (Inr (), s') \<and> dom (s_agents s') = dom (s_agents ?s) - set ps"
      by (rule Cons.IH) (use Cons.prems tree_inv_unlink[where A = "s_agents s", OF _ Some] unlink_dom[where A = "s_agents s", OF Some] in auto)
    ultimately show ?thesis using unlink_dom[where A = "s_agents s", OF Some] by auto
  qed
qed

text \<open>The destructor of the context frees only the agents without a parent: after it, exactly
  the agents that had a parent still exist, because the destructor of an agent does not delete its
  children.\<close>

theorem context_keeps_children:
  assumes "conforming cb" "reachable cb s"
  shows "\<exists>s'. Context_delete s = (Inr (), s') \<and>
    dom (s_agents s') = {c. \<exists>a q. s_agents s c = Some a \<and> ag_parent a = Some q}"
proof -
  have i: "set (agent_list s) = dom (s_agents s)" "tree_inv (s_agents s)"
    using reachable_inv[OF assms] by (auto simp: sim_inv_def store_inv_def unique_inv_def)
  let ?root = "\<lambda>p. case s_agents s p of None \<Rightarrow> False | Some a \<Rightarrow> ag_parent a = None"
  obtain s' where s': "foreach DelAgent (filter ?root (agent_list s)) s = (Inr (), s')"
    "dom (s_agents s') = dom (s_agents s) - set (filter ?root (agent_list s))" using delete_loop[OF i] by blast
  have "dom (s_agents s') = {c. \<exists>a q. s_agents s c = Some a \<and> ag_parent a = Some q}"
    unfolding s'(2) set_filter i(1) by (auto split: option.splits)
  then show ?thesis using s'(1) by (simp add: Context_delete_def)
qed

theorem context_keeps_children_witness:
  "\<exists>s'. Context_delete park4 = (Inr (), s') \<and> s_agents s' 3 \<noteq> None"
  using context_keeps_children [OF park_conforming park4_reachable] park4_facts(2) by fastforce

section \<open>Counting agents\<close>

definition counts :: "'u sim \<Rightarrow> (string, int) omap \<times> (string, int) omap" where
  "counts s = (n_prototypes s, n_specs s)"

lemma counts_simps [simp]:
  "counts (record_row r s) = counts s" "counts (s\<lparr>build_queue := q\<rparr>) = counts s" "counts (s\<lparr>decom_queue := q2\<rparr>) = counts s"
  "counts (s\<lparr>recipes := rs\<rparr>) = counts s" "counts (s\<lparr>s_user := u\<rparr>) = counts s" "counts (s\<lparr>s_world := w\<rparr>) = counts s"
  "counts (s\<lparr>managers := m\<rparr>) = counts s" "counts (s\<lparr>trans_id := i\<rparr>) = counts s"
  "counts (RegisterTrader e s) = counts s" "counts (UnregisterTrader e s) = counts s"
  "counts (Timer_Snapshot s) = counts s" "counts (KillSim s) = counts s"
  by (simp_all add: counts_def record_row_def RegisterTrader_def UnregisterTrader_def Timer_Snapshot_def KillSim_def)

lemmas counts_andThen = snd_andThenI[where P = "\<lambda>x. counts x = counts s" for s]
lemmas counts_deref = snd_derefI[where P = "\<lambda>x. counts x = counts s" for s]

lemma counts_ops:
  "counts (snd (Context_SchedBuild parent name t s)) = counts s" "counts (snd (Context_SchedDecom m t s)) = counts s"
  "counts (snd (AddRecipe name c s)) = counts s" "counts (snd (NextTransactionID s)) = counts s"
  unfolding Context_SchedBuild_def Timer_SchedBuild_def Context_SchedDecom_def Timer_SchedDecom_def AddRecipe_def
    NextTransactionID_def Let_def
  by (auto intro!: counts_andThen counts_deref split: option.splits)

lemma api_counts: "api sd s s' \<Longrightarrow> counts s' = counts s"
  by (cases rule: api.cases, assumption)
    (simp_all add: counts_ops)

lemma api_star_counts: "(api sd)\<^sup>*\<^sup>* s s' \<Longrightarrow> counts s' = counts s"
  by (induction rule: rtranclp_induct) (auto dest: api_counts)

lemma conforming_counts:
  assumes "conforming cb"
  shows "counts (snd (cb_EnterNotify cb p s)) = counts s" "counts (snd (cb_Decommission cb p s)) = counts s"
  using assms api_star_counts unfolding conforming_def by blast+

text \<open>Building an institution or a region without a parent.\<close>

lemma build_unlisted:
  assumes cb: "conforming cb" and inv: "sim_inv s" and m: "map_of (protos s) name = Some m" "s_agents s m = Some ma"
    and k: "ag_kind ma \<in> {KInst, KRegion}" and e: "\<And>p s. fst (cb_EnterNotify cb p s) = Inr ()"
  obtains s1 a where "build_one cb (name, None) s = (Inr (), s1)" "sim_inv s1" "s_agents s1 (s_next s) = Some a"
    "ag_kind a = ag_kind ma" "ag_prototype a = ag_prototype ma" "counts s1 = counts s"
proof -
  let ?p = "s_next s"
  obtain s0 a0 where h: "Clone cb m s = (Inr ?p, s0)" "s_agents s0 ?p = Some a0" "ag_prototype a0 = ag_prototype ma" "ag_kind a0 = ag_kind ma"
    by (rule Clone_spec[OF inv m(2), of cb]) blast
  have c0: "counts s0 = counts s" using h(1) m(2)
    by (auto simp: Clone_def Agent_new_def upd_agent_def counts_def Let_def ok_def)
  let ?a = "a0\<lparr>ag_enter_time := time_of s0\<rparr>"
  define s2 where "s2 = (upd_agent ?p (ag_enter_time_update (\<lambda>_. time_of s0)) s0)\<lparr>tickers := omap_put (ag_id a0) ?p (tickers s0)\<rparr>"
  obtain s3 where s3: "cb_EnterNotify cb ?p s2 = (Inr (), s3)" using e[of ?p s2] by (cases "cb_EnterNotify cb ?p s2") simp
  have A2: "s_agents s2 ?p = Some ?a" using h(2) by (simp add: s2_def upd_agent_def)
  have en: "EnterNotify cb ?p (upd_agent ?p (ag_enter_time_update (\<lambda>_. time_of s0)) s0) = (Inr (), s3)"
    using h k s3 by (auto simp: EnterNotify_unfold RegisterTimeListener_def upd_agent_def s2_def)
  have A3: "s_agents s3 ?p = Some ?a" using A2 core_agents[OF conforming_core(1)[OF cb, of ?p s2]] s3 by simp
  have c3: "counts s3 = counts s" using conforming_counts(1)[OF cb, of ?p s2] s3 c0 by (simp add: s2_def counts_def upd_agent_def)
  define s1 where "s1 = record_row (AgentEntry (ag_id ?a) (kind_name (ag_kind ?a)) (ag_spec ?a) (ag_prototype ?a) (ag_parent_id ?a)
    (ag_lifetime ?a) (ag_enter_time ?a)) s3"
  have b: "build_one cb (name, None) s = (Inr (), s1)"
    using m h(1,2) en A3 by (simp add: build_one_def CreateAgent_def Agent_Build_def Connect_def AddToTable_def s1_def)
  have "sim_inv s1" using build_one_inv[OF cb inv, of name None] b by simp
  moreover have "s_agents s1 ?p = Some ?a" "counts s1 = counts s" using A3 c3 by (simp_all add: s1_def record_row_def counts_def)
  ultimately show thesis using that[OF b] h(3,4) by simp
qed

text \<open>C38. Institutions and regions are counted out but never in: building one from its prototype and
  decommissioning it again leaves the number of agents of the prototype one lower than before, because
  their \<open>EnterNotify\<close> does not call the one of \<open>Agent\<close> that counts them.\<close>

theorem institutions_miscounted:
  assumes "conforming cb" "willing cb" "reachable cb s" "\<And>p s. fst (cb_EnterNotify cb p s) = Inr ()"
    and "map_of (protos s) name = Some m" "s_agents s m = Some ma" "ag_kind ma \<in> {KInst, KRegion}"
  shows "\<exists>s1 s2. build_one cb (name, None) s = (Inr (), s1) \<and> Decommission cb (s_next s) s1 = (Inr (), s2) \<and>
    omap_sub 0 (n_prototypes s2) (ag_prototype ma) = omap_sub 0 (n_prototypes s) (ag_prototype ma) - 1"
proof -
  let ?p = "s_next s"
  obtain s1 a where b: "build_one cb (name, None) s = (Inr (), s1)" "sim_inv s1" "s_agents s1 ?p = Some a"
    "ag_kind a = ag_kind ma" "ag_prototype a = ag_prototype ma" "counts s1 = counts s"
    by (rule build_unlisted[OF assms(1) reachable_inv[OF assms(1,3)] assms(5-7,4)])
  have "store_inv s1" using b(2) by (simp add: sim_inv_def)
  obtain u where u: "cb_Decommission cb ?p s1 = (Inr (), u)" using willingD(1)[OF assms(2), of ?p s1] by (cases "cb_Decommission cb ?p s1") simp
  have c: "core u = core s1" "counts u = counts s1" using conforming_core(5)[OF assms(1), of ?p s1] conforming_counts(2)[OF assms(1), of ?p s1] u by simp_all
  have iu: "store_inv u" "s_agents u ?p = Some a" using \<open>store_inv s1\<close> b(3) store_inv_core[OF c(1)] core_agents[OF c(1)] by simp_all
  let ?v = "u\<lparr>tickers := omap_del (ag_id a) (tickers u)\<rparr>"
  let ?w = "UnregisterAgent a (record_row (AgentExit (ag_id a) (time_of ?v)) ?v)"
  have "DelAgent ?p ?w = (Inr (), ?w\<lparr>agent_list := oset_del ?p (agent_list ?w), s_agents := unlink (s_agents ?w) ?p a\<rparr>)"
    by (rule DelAgent_spec) (use iu in \<open>auto simp: store_inv_def unique_inv_def UnregisterAgent_def record_row_def\<close>)
  then have d: "Decommission cb ?p s1 = (Inr (), ?w\<lparr>agent_list := oset_del ?p (agent_list ?w), s_agents := unlink (s_agents ?w) ?p a\<rparr>)"
    using u iu(2) b(4) assms(7) by (auto simp: Decommission_unfold UnregisterTimeListener_def Agent_Decommission_def)
  have n: "n_prototypes u = n_prototypes s" using c(2) b(6) by (simp add: counts_def)
  show ?thesis using b(1) d b(5) n by (simp add: UnregisterAgent_def record_row_def)
qed

theorem institutions_miscounted_witness:
  "\<exists>s1 s2. build_one park_arch (''inst'', None) park4 = (Inr (), s1) \<and> Decommission park_arch 4 s1 = (Inr (), s2) \<and>
     omap_sub 0 (n_prototypes s2) '''' = -1"
  using institutions_miscounted [OF park_conforming park_willing park4_reachable _ park4_facts(10,13)] park4_facts(8,12)
  by (simp add: park_arch_def quiet_arch_def omap_sub_def)

section \<open>Builds for a parent that leaves\<close>

text \<open>What the decommissioning phase does not touch: the prototypes, the addresses handed out, and the first
  build that is queued for a time.\<close>

definition build_first :: "(string, ptr) omap \<Rightarrow> ptr \<Rightarrow> int \<Rightarrow> string \<times> ptr option \<Rightarrow> 'u sim \<Rightarrow> bool" where
  "build_first ps n t b s \<longleftrightarrow> protos s = ps \<and> s_next s = n \<and> (\<exists>rest. omap_sub [] (build_queue s) t = b # rest)"

lemma build_first_simps [simp]:
  "build_first ps n t b (record_row r s) = build_first ps n t b s" "build_first ps n t b (upd_agent p f s) = build_first ps n t b s"
  "build_first ps n t b (s\<lparr>agent_list := al\<rparr>) = build_first ps n t b s" "build_first ps n t b (s\<lparr>tickers := ts\<rparr>) = build_first ps n t b s"
  "build_first ps n t b (s\<lparr>s_agents := A\<rparr>) = build_first ps n t b s" "build_first ps n t b (UnregisterAgent a s) = build_first ps n t b s"
  "build_first ps n t b (UnregisterTrader p s) = build_first ps n t b s" "build_first ps n t b (RegisterTrader p s) = build_first ps n t b s"
  "build_first ps n t b (s\<lparr>decom_queue := q\<rparr>) = build_first ps n t b s" "build_first ps n t b (Timer_Snapshot s) = build_first ps n t b s"
  "build_first ps n t b (KillSim s) = build_first ps n t b s" "build_first ps n t b (s\<lparr>s_user := u\<rparr>) = build_first ps n t b s"
  "build_first ps n t b (s\<lparr>s_world := w\<rparr>) = build_first ps n t b s" "build_first ps n t b (s\<lparr>managers := m\<rparr>) = build_first ps n t b s"
  "build_first ps n t b (s\<lparr>trans_id := k\<rparr>) = build_first ps n t b s" "build_first ps n t b (s\<lparr>recipes := rs\<rparr>) = build_first ps n t b s"
  by (simp_all add: build_first_def record_row_def upd_agent_def UnregisterAgent_def UnregisterTrader_def RegisterTrader_def
      Timer_Snapshot_def KillSim_def)

lemma build_first_push:
  "build_first ps n t b s \<Longrightarrow> build_first ps n t b (s\<lparr>build_queue := omap_push t' x (build_queue s)\<rparr>)"
  by (auto simp: build_first_def omap_sub_push)

lemmas first_andThen = snd_andThenI[where P = "build_first ps n t b" for ps n t b]
lemmas first_deref = snd_derefI[where P = "build_first ps n t b" for ps n t b]
lemmas first_foreach = snd_foreachI[where P = "build_first ps n t b" for ps n t b]

lemma build_first_ops:
  assumes "build_first ps n t b s"
  shows "build_first ps n t b (snd (Context_SchedBuild parent name t' s))" "build_first ps n t b (snd (Context_SchedDecom m t' s))"
    "build_first ps n t b (snd (AddRecipe name c s))" "build_first ps n t b (snd (NextTransactionID s))"
    "build_first ps n t b (snd (Agent_delete p s))"
  using assms unfolding Context_SchedBuild_def Timer_SchedBuild_def Context_SchedDecom_def Timer_SchedDecom_def AddRecipe_def
    NextTransactionID_def Agent_delete_def orphan_def Let_def
  by (auto intro!: first_andThen first_deref first_foreach build_first_push split: option.splits)

lemma api_first: "api sd s s' \<Longrightarrow> build_first ps n t b s \<Longrightarrow> build_first ps n t b s'"
  by (induction rule: api.induct) (simp_all add: build_first_ops)

lemma api_star_first: "(api sd)\<^sup>*\<^sup>* s s' \<Longrightarrow> build_first ps n t b s \<Longrightarrow> build_first ps n t b s'"
  by (induction rule: rtranclp_induct) (auto dest: api_first)

lemma Agent_Decommission_first: "build_first ps n t b s \<Longrightarrow> build_first ps n t b (snd (Agent_Decommission p s))"
  unfolding Agent_Decommission_def DelAgent_def by (auto intro!: first_deref build_first_ops(5))

lemma DoDecom_first:
  assumes cb: "conforming cb" and s: "build_first ps n t b s"
  shows "build_first ps n t b (snd (DoDecom cb s))"
proof -
  have c: "build_first ps n t b (snd (cb_Decommission cb p s))" "build_first ps n t b (snd (cb_DecomNotify cb q p s))"
    if "build_first ps n t b s" for p q s using cb that api_star_first unfolding conforming_def by blast+
  have d: "build_first ps n t b (snd (Decommission cb p s))" if "build_first ps n t b s" for p s
    unfolding Decommission_unfold UnregisterTimeListener_def
    by (auto intro!: first_andThen first_deref c that Agent_Decommission_first split: akind.splits)
  have "build_first ps n t b (snd (decom_one cb p s))" if "build_first ps n t b s" for p s
    unfolding decom_one_def using that by (auto intro!: first_andThen first_deref c d split: option.splits)
  then show ?thesis unfolding DoDecom_def by (intro first_foreach) (use s in simp_all)
qed

lemma build_without_parent:
  assumes m: "map_of (protos s) name = Some m" "s_agents s m = Some ma" and q: "s_agents s q = None" "q < s_next s"
  shows "fst (build_one cb (name, Some q) s) = Inl Undefined"
  using assms
  by (auto simp: build_one_def CreateAgent_def Clone_def Agent_new_def Agent_Build_def Connect_def upd_agent_def Let_def)

text \<open>C35. A build that is queued for a parent which then leaves the simulation uses the parent after its
  deletion. An agent that is to be decommissioned in this time step schedules a build for the next one, as
  \<open>SchedBuild\<close> does by default, and nothing else is queued for then: the call succeeds; the
  decommissioning phase removes the agent but not its entry in the queue; and \<open>DoBuild\<close> of the next time
  step builds the new agent for the freed object, which is undefined behaviour. (The phase in between can
  only fail to return because an archetype refuses.)\<close>

theorem build_for_removed_parent:
  assumes "conforming cb" "reachable cb s" "map_of (protos s) name = Some m" "s_agents s m \<noteq> None"
    and "q \<in> set (omap_sub [] (decom_queue s) (time_of s))" "m \<notin> set (omap_sub [] (decom_queue s) (time_of s))"
    and "omap_sub [] (build_queue s) (time_of s + 1) = []"
  shows "\<exists>s1. Context_SchedBuild (Some q) name (-1) s = (Inr (), s1) \<and>
    (case DoDecom cb s1 of
       (Inr _, s2) \<Rightarrow> fst (DoBuild cb (advance s2)) = Inl Undefined
     | (Inl e, _) \<Rightarrow> refusal cb e)"
proof -
  have inv: "sim_inv s" by (rule reachable_inv[OF assms(1,2)])
  then obtain b where b: "s_agents s q = Some b" using assms(5) by (auto simp: sim_inv_def queue_inv_def)
  let ?t = "time_of s + 1"
  define s1 where "s1 = snd (Context_SchedBuild (Some q) name (-1) s)"
  have e: "Context_SchedBuild (Some q) name (-1) s = (Inr (), s1)"
    using b by (simp add: s1_def Context_SchedBuild_def Timer_SchedBuild_def Let_def ok_def)
  have f1: "build_first (protos s) (s_next s) ?t (name, Some q) s1"
    using b assms(7) by (simp add: s1_def Context_SchedBuild_def Timer_SchedBuild_def Let_def build_first_def record_row_def omap_sub_push)
  have a: "api True s s1" unfolding s1_def by (rule api.build)
  have c: "core s1 = core s" "decom_queue s1 = decom_queue s" using api_core[OF a] queue_same(1)[of "Some q" name "-1" s] by (simp_all add: s1_def)
  obtain r s2 where x: "DoDecom cb s1 = (r, s2)" by (cases "DoDecom cb s1")
  note D = DoDecom_spec[OF assms(1) api_inv[OF a inv] x]
  have f2: "build_first (protos s) (s_next s) ?t (name, Some q) s2" using DoDecom_first[OF assms(1) f1] x by simp
  have "fst (DoBuild cb (advance s2)) = Inl Undefined" if r: "r = Inr ()"
  proof -
    have d: "dom (s_agents s2) = dom (s_agents s) - set (omap_sub [] (decom_queue s) (time_of s))"
      using D(4)[OF r] core_agents[OF c(1)] core_time[OF c(1)] c(2) by simp
    then have "q \<notin> dom (s_agents s2)" "m \<in> dom (s_agents s2)" using assms(4-6) by auto
    then obtain ma where A: "s_agents s2 q = None" "s_agents s2 m = Some ma" by auto
    have n: "q < s_next s" using inv b by (auto simp: sim_inv_def store_inv_def unique_inv_def)
    have t: "time_of (advance s2) = ?t" using D(2) core_time[OF c(1)] by (simp add: advance_def same_clock_def)
    obtain rest where rest: "omap_sub [] (build_queue (advance s2)) ?t = (name, Some q) # rest"
      using f2 by (auto simp: build_first_def advance_def)
    let ?s = "(advance s2)\<lparr>build_queue := omap_touch [] ?t (build_queue (advance s2))\<rparr>"
    have "fst (build_one cb (name, Some q) ?s) = Inl Undefined"
      by (rule build_without_parent[where m = m and ma = ma]) (use f2 assms(3) A n in \<open>simp_all add: build_first_def advance_def\<close>)
    then show ?thesis unfolding DoBuild_def t rest by (cases "build_one cb (name, Some q) ?s") simp
  qed
  moreover have "refusal cb y" if "r = Inl y" for y using D(6)[OF that] by blast
  ultimately show ?thesis using e x by (intro exI[of _ s1]) (auto split: sum.splits)
qed

theorem build_for_removed_parent_witness:
  "\<exists>s1 s2. Context_SchedBuild (Some 3) ''fac'' (-1) park5 = (Inr (), s1) \<and> DoDecom park_arch s1 = (Inr (), s2) \<and>
     fst (DoBuild park_arch (advance s2)) = Inl Undefined"
proof -
  have p: "protos park5 = protos park4" "build_queue park5 = build_queue park4"
    using park4_facts by (simp_all add: park5_def Context_SchedDecom_def Timer_SchedDecom_def record_row_def)
  have "build_queue park5 = []" using p(2) by (simp add: park4_eq)
  moreover have "map_of (protos park5) ''fac'' = Some 2" "s_agents park5 2 \<noteq> None"
    using p(1) park4_facts(9,11) park5_facts(2) by (auto simp: dom_def set_eq_iff)
  ultimately show ?thesis
    using build_for_removed_parent [OF park_conforming park5_reachable, of "''fac''" 2 3] willing_refusal[OF park_willing]
    by (fastforce simp: park5_facts omap_sub_def split: prod.splits sum.splits)
qed

end
