(* ===== verification/Market_State.thy ===== *)
theory Market_State
  imports Sim_Timer Greedy_Solver
begin

text \<open>
  The objects of a resource exchange: request.h, bid.h, request_portfolio.h, bid_portfolio.h,
  capacity_constraint.h, trade.h and exchange_translation_context.h. The classes are templates in
  the resource type; a market is one instance of them. Requests, bids and portfolios are objects in
  stores; the simulation is a field, since traders are agents and the targets and offers are
  resources of its world.
\<close>

section \<open>Data\<close>

text \<open>\<open>ExchangeTranslationContext\<close>: the correspondence between requests and bids and graph nodes.\<close>

record xlation =
  request_to_node :: "(ptr, ptr) omap"
  node_to_request :: "(ptr, ptr) omap"
  bid_to_node :: "(ptr, ptr) omap"
  node_to_bid :: "(ptr, ptr) omap"

text \<open>
  The two converters of the kernel and those of archetypes, which are functions of the offer, the
  arc and the translation.
\<close>

datatype (plugins only: size) converter =
    TrivialConverter
  | QtyCoeffConverter "(ptr, double) omap"
  | UserConverter "world \<Rightarrow> ptr \<Rightarrow> arc \<Rightarrow> xlation \<Rightarrow> exn + double"

record constraint =
  cc_capacity :: double
  cc_converter :: converter
  cc_id :: int

record request =
  rq_target :: ptr
  rq_requester :: "ptr option"
  rq_preference :: double
  rq_commodity :: string
  rq_portfolio :: ptr
  rq_exclusive :: bool
  rq_cost_function :: "(world \<Rightarrow> ptr \<Rightarrow> double) option"

record req_portfolio =
  rp_requests :: "ptr list"
  mass_coeffs :: "(ptr, double) omap"
  rp_constraints :: "constraint list"
  rp_qty :: double
  rp_requester :: "ptr option"

text \<open>The preference of a bid is NaN unless the bidder sets it: None stands for NaN.\<close>

record bid =
  bd_request :: ptr
  bd_offer :: ptr
  bd_bidder :: "ptr option"
  bd_portfolio :: ptr
  bd_exclusive :: bool
  bd_preference :: "double option"

record bid_portfolio =
  bp_bids :: "ptr list"
  bp_constraints :: "constraint list"
  bp_bidder :: "ptr option"

record trade =
  t_request :: ptr
  t_bid :: ptr
  t_amt :: double
  t_price :: double

type_synonym pref_map = "(ptr, (ptr, double) omap) omap"

text \<open>\<open>ExchangeContext\<close>.\<close>

record exctx =
  ec_requests :: "ptr list"
  ec_bids :: "ptr list"
  ec_requesters :: "ptr option list"
  ec_bidders :: "ptr option list"
  commod_requests :: "(string, ptr list) omap"
  bids_by_request :: "(ptr, ptr list) omap"
  trader_prefs :: "(ptr option, pref_map) omap"

text \<open>
  The state of one exchange. \<open>mk_traders\<close> is the trader set of \<open>ResourceExchange\<close>, \<open>mk_xl\<close> the
  translation context of \<open>ExchangeTranslator\<close>, \<open>mk_graph\<close> the graph it builds.
\<close>

record 'u market =
  mk_sim :: "'u sim"
  mk_reqs :: "ptr \<rightharpoonup> request"
  mk_rps :: "ptr \<rightharpoonup> req_portfolio"
  mk_bids :: "ptr \<rightharpoonup> bid"
  mk_bps :: "ptr \<rightharpoonup> bid_portfolio"
  mk_next :: ptr
  next_constraint_id :: int
  mk_ctx :: exctx
  mk_traders :: "ptr list"
  mk_xl :: xlation
  mk_graph :: graph

definition exctx_new :: exctx where
  "exctx_new = \<lparr>ec_requests = [], ec_bids = [], ec_requesters = [], ec_bidders = [], commod_requests = [],
     bids_by_request = [], trader_prefs = []\<rparr>"

definition xlation_new :: xlation where
  "xlation_new = \<lparr>request_to_node = [], node_to_request = [], bid_to_node = [], node_to_bid = []\<rparr>"

text \<open>A fresh \<open>ResourceExchange\<close> of the simulation; \<open>i\<close> is the static constraint counter.\<close>

definition market_new :: "int \<Rightarrow> 'u sim \<Rightarrow> 'u market" where
  "market_new i s = \<lparr>mk_sim = s, mk_reqs = Map.empty, mk_rps = Map.empty, mk_bids = Map.empty, mk_bps = Map.empty,
     mk_next = 0, next_constraint_id = i, mk_ctx = exctx_new, mk_traders = [], mk_xl = xlation_new,
     mk_graph = ExchangeGraph_new\<rparr>"

abbreviation mk_world :: "'u market \<Rightarrow> world" where
  "mk_world s \<equiv> s_world (mk_sim s)"

abbreviation mk_qty :: "'u market \<Rightarrow> ptr \<Rightarrow> double option" where
  "mk_qty s p \<equiv> map_option quantity (w_res (mk_world s) p)"

definition upd_rp :: "ptr \<Rightarrow> (req_portfolio \<Rightarrow> req_portfolio) \<Rightarrow> 'u market \<Rightarrow> 'u market" where
  "upd_rp p f s = s\<lparr>mk_rps := (mk_rps s)(p := map_option f (mk_rps s p))\<rparr>"

definition upd_bp :: "ptr \<Rightarrow> (bid_portfolio \<Rightarrow> bid_portfolio) \<Rightarrow> 'u market \<Rightarrow> 'u market" where
  "upd_bp p f s = s\<lparr>mk_bps := (mk_bps s)(p := map_option f (mk_bps s p))\<rparr>"

text \<open>The agent a trader belongs to, with its address.\<close>

definition manager :: "ptr option \<Rightarrow> 'u market \<Rightarrow> (ptr \<Rightarrow> agent \<Rightarrow> ('u market, 'a) exec) \<Rightarrow> ('u market, 'a) exec" where
  "manager t s f = deref t s (\<lambda>p. deref (managers (mk_sim s) p) s (\<lambda>m. deref (s_agents (mk_sim s) m) s (f m)))"

section \<open>Constraints\<close>

definition CapacityConstraint_new :: "double \<Rightarrow> converter \<Rightarrow> 'u market \<Rightarrow> ('u market, constraint) exec" where
  "CapacityConstraint_new cap conv s =
     (let i = next_constraint_id s; s1 = s\<lparr>next_constraint_id := i + 1\<rparr>
      in if cap \<le> 0 then throw ValueError s1 else ok \<lparr>cc_capacity = cap, cc_converter = conv, cc_id = i\<rparr> s1)"

definition CapacityConstraint_copy :: "constraint \<Rightarrow> 'u market \<Rightarrow> constraint \<times> 'u market" where
  "CapacityConstraint_copy c s =
     (c\<lparr>cc_id := next_constraint_id s\<rparr>, s\<lparr>next_constraint_id := next_constraint_id s + 1\<rparr>)"

text \<open>
  Insertion into \<open>std::set<CapacityConstraint<T>>\<close>, ordered by id. The place is searched with the
  id of the argument, but what is stored is a copy, which takes a new id; a set whose elements are
  then no longer split by the id that is searched for is outside what the container supports.
\<close>

definition constraints_insert :: "constraint \<Rightarrow> constraint list \<Rightarrow> 'u market \<Rightarrow> ('u market, constraint list) exec" where
  "constraints_insert c cs s =
     (let l = takeWhile (\<lambda>e. cc_id e < cc_id c) cs; r = dropWhile (\<lambda>e. cc_id e < cc_id c) cs
      in if list_ex (\<lambda>e. cc_id e < cc_id c) r then throw Undefined s
         else if list_ex (\<lambda>e. cc_id e = cc_id c) r then ok cs s
         else case CapacityConstraint_copy c s of (c', s1) \<Rightarrow> ok (l @ c' # r) s1)"

definition convert :: "converter \<Rightarrow> world \<Rightarrow> ptr \<Rightarrow> arc \<Rightarrow> xlation \<Rightarrow> exn + double" where
  "convert conv w offer a xl =
     (case w_res w offer of None \<Rightarrow> Inl Undefined
      | Some r \<Rightarrow>
        (case conv of
           TrivialConverter \<Rightarrow> Inr (quantity r)
         | QtyCoeffConverter coeffs \<Rightarrow>
             (case map_of (node_to_request xl) (a_unode a) of None \<Rightarrow> Inl OutOfRange
              | Some rq \<Rightarrow> (case map_of coeffs rq of None \<Rightarrow> Inl OutOfRange | Some k \<Rightarrow> Inr (quantity r * k)))
         | UserConverter f \<Rightarrow> f w offer a xl))"

text \<open>\<open>operator==\<close> of converters and of constraints, as the classes define them; a converter of an
  archetype inherits the version that answers false.\<close>

definition converter_eq :: "converter \<Rightarrow> converter \<Rightarrow> bool" where
  "converter_eq a b \<longleftrightarrow> (case (a, b) of
      (TrivialConverter, TrivialConverter) \<Rightarrow> True
    | (QtyCoeffConverter c, QtyCoeffConverter d) \<Rightarrow> c = d
    | _ \<Rightarrow> False)"

definition constraint_eq :: "constraint \<Rightarrow> constraint \<Rightarrow> bool" where
  "constraint_eq l r \<longleftrightarrow> cc_capacity l = cc_capacity r \<and> converter_eq (cc_converter l) (cc_converter r)"

section \<open>Request portfolios\<close>

definition RequestPortfolio_new :: "'u market \<Rightarrow> ptr \<times> 'u market" where
  "RequestPortfolio_new s =
     (let p = mk_next s
      in (p, s\<lparr>mk_rps := (mk_rps s)(p \<mapsto> \<lparr>rp_requests = [], mass_coeffs = [], rp_constraints = [], rp_qty = 0,
               rp_requester = None\<rparr>), mk_next := Suc p\<rparr>))"

definition Request_Create :: "ptr \<Rightarrow> ptr option \<Rightarrow> ptr \<Rightarrow> string \<Rightarrow> double \<Rightarrow> bool \<Rightarrow> (world \<Rightarrow> ptr \<Rightarrow> double) option \<Rightarrow>
    'u market \<Rightarrow> ptr \<times> 'u market" where
  "Request_Create target requester port commod pref excl cost s =
     (let r = mk_next s
      in (r, s\<lparr>mk_reqs := (mk_reqs s)(r \<mapsto> \<lparr>rq_target = target, rq_requester = requester, rq_preference = pref,
               rq_commodity = commod, rq_portfolio = port, rq_exclusive = excl, rq_cost_function = cost\<rparr>),
               mk_next := Suc r\<rparr>))"

definition VerifyRequester :: "ptr \<Rightarrow> ptr option \<Rightarrow> 'u market \<Rightarrow> ('u market, unit) exec" where
  "VerifyRequester port requester s = deref (mk_rps s port) s (\<lambda>rp.
     case rp_requester rp of
       None \<Rightarrow> ok () (upd_rp port (rp_requester_update (\<lambda>_. requester)) s)
     | Some t \<Rightarrow> if requester \<noteq> Some t then throw KeyError s else ok () s)"

definition rp_AddRequest :: "ptr \<Rightarrow> ptr \<Rightarrow> ptr option \<Rightarrow> string \<Rightarrow> double \<Rightarrow> bool \<Rightarrow> (world \<Rightarrow> ptr \<Rightarrow> double) option \<Rightarrow>
    'u market \<Rightarrow> ('u market, ptr) exec" where
  "rp_AddRequest port target requester commod pref excl cost s =
     (case Request_Create target requester port commod pref excl cost s of
        (r, s1) \<Rightarrow> andThen (VerifyRequester port requester s1) (\<lambda>_ s2.
          let s3 = upd_rp port (mass_coeffs_update (omap_put r 1) \<circ> rp_requests_update (\<lambda>rs. rs @ [r])) s2
          in deref (mk_qty s3 target) s3 (\<lambda>q. ok r (upd_rp port (rp_qty_update (\<lambda>x. x + q)) s3))))"

text \<open>The target quantities of a list of requests.\<close>

definition target_qty :: "'u market \<Rightarrow> ptr \<Rightarrow> double option" where
  "target_qty s r = Option.bind (mk_reqs s r) (\<lambda>rq. mk_qty s (rq_target rq))"

text \<open>
  \<open>AddMutualReqs\<close>. An empty vector or quantities that sum to 0 make the average or a coefficient
  NaN, which the coefficients of the model do not represent: the model stops there.
\<close>

definition AddMutualReqs :: "ptr \<Rightarrow> ptr list \<Rightarrow> 'u market \<Rightarrow> ('u market, unit) exec" where
  "AddMutualReqs port rs s = deref (those (map (target_qty s) rs)) s (\<lambda>qs.
     let avg = foldl (+) 0 qs / real (length qs)
     in if rs = [] \<or> avg = 0 then throw Undefined s
        else deref (mk_rps s port) s (\<lambda>_. ok () (upd_rp port (\<lambda>rp.
          rp_qty_update (\<lambda>x. x + avg) (foldl (\<lambda>p (r, q).
            p\<lparr>mass_coeffs := omap_put r (q / avg) (mass_coeffs p), rp_qty := rp_qty p - q\<rparr>) rp (zip rs qs))) s)))"

definition rp_AddConstraint :: "ptr \<Rightarrow> constraint \<Rightarrow> 'u market \<Rightarrow> ('u market, unit) exec" where
  "rp_AddConstraint port c s = deref (mk_rps s port) s (\<lambda>rp.
     andThen (constraints_insert c (rp_constraints rp) s) (\<lambda>cs s1.
       ok () (upd_rp port (rp_constraints_update (\<lambda>_. cs)) s1)))"

definition qty_converter :: "req_portfolio \<Rightarrow> converter" where
  "qty_converter rp = QtyCoeffConverter (mass_coeffs rp)"

section \<open>Bid portfolios\<close>

definition BidPortfolio_new :: "'u market \<Rightarrow> ptr \<times> 'u market" where
  "BidPortfolio_new s =
     (let p = mk_next s
      in (p, s\<lparr>mk_bps := (mk_bps s)(p \<mapsto> \<lparr>bp_bids = [], bp_constraints = [], bp_bidder = None\<rparr>), mk_next := Suc p\<rparr>))"

definition Bid_Create :: "ptr \<Rightarrow> ptr \<Rightarrow> ptr option \<Rightarrow> ptr \<Rightarrow> bool \<Rightarrow> double option \<Rightarrow> 'u market \<Rightarrow> ptr \<times> 'u market" where
  "Bid_Create req offer bidder port excl pref s =
     (let b = mk_next s
      in (b, s\<lparr>mk_bids := (mk_bids s)(b \<mapsto> \<lparr>bd_request = req, bd_offer = offer, bd_bidder = bidder, bd_portfolio = port,
               bd_exclusive = excl, bd_preference = pref\<rparr>), mk_next := Suc b\<rparr>))"

definition VerifyResponder :: "ptr \<Rightarrow> ptr option \<Rightarrow> 'u market \<Rightarrow> ('u market, unit) exec" where
  "VerifyResponder port bidder s = deref (mk_bps s port) s (\<lambda>bp.
     case bp_bidder bp of
       None \<Rightarrow> ok () (upd_bp port (bp_bidder_update (\<lambda>_. bidder)) s)
     | Some t \<Rightarrow> if bidder \<noteq> Some t then throw KeyError s else ok () s)"

text \<open>The message of the exception reads the bidder's manager.\<close>

definition bp_AddBid :: "ptr \<Rightarrow> ptr \<Rightarrow> ptr \<Rightarrow> ptr option \<Rightarrow> bool \<Rightarrow> double option \<Rightarrow> 'u market \<Rightarrow> ('u market, ptr) exec" where
  "bp_AddBid port req offer bidder excl pref s =
     (case Bid_Create req offer bidder port excl pref s of
        (b, s1) \<Rightarrow> andThen (VerifyResponder port bidder s1) (\<lambda>_ s2.
          deref (mk_qty s2 offer) s2 (\<lambda>q.
            if 0 < q then ok b (upd_bp port (bp_bids_update (oset_ins b)) s2)
            else manager bidder s2 (\<lambda>_ _. throw ValueError s2))))"

definition bp_AddConstraint :: "ptr \<Rightarrow> constraint \<Rightarrow> 'u market \<Rightarrow> ('u market, unit) exec" where
  "bp_AddConstraint port c s = deref (mk_bps s port) s (\<lambda>bp.
     andThen (constraints_insert c (bp_constraints bp) s) (\<lambda>cs s1.
       ok () (upd_bp port (bp_constraints_update (\<lambda>_. cs)) s1)))"

end
