(* ===== verification/Market_Exchange.thy ===== *)
theory Market_Exchange
  imports Market_State
begin

text \<open>
  exchange_context.h, resource_exchange.h and exchange_translator.h: collecting requests and bids
  from the traders, letting them adjust their preferences, and translating the result to an
  exchange graph and its solution back to trades.
\<close>

section \<open>The exchange context\<close>

definition ctx_AddRequest :: "ptr \<Rightarrow> 'u market \<Rightarrow> ('u market, unit) exec" where
  "ctx_AddRequest r s = deref (mk_reqs s r) s (\<lambda>rq.
     if rq_requester rq = None then throw AssertFailed s
     else ok () (s\<lparr>mk_ctx := (mk_ctx s)\<lparr>ec_requesters := oset_ins (rq_requester rq) (ec_requesters (mk_ctx s)),
            commod_requests := omap_push (rq_commodity rq) r (commod_requests (mk_ctx s))\<rparr>\<rparr>))"

definition AddRequestPortfolio :: "ptr \<Rightarrow> 'u market \<Rightarrow> ('u market, unit) exec" where
  "AddRequestPortfolio port s =
     (let s1 = s\<lparr>mk_ctx := (mk_ctx s)\<lparr>ec_requests := ec_requests (mk_ctx s) @ [port]\<rparr>\<rparr>
      in deref (mk_rps s1 port) s1 (\<lambda>rp. foreach ctx_AddRequest (rp_requests rp) s1))"

definition ctx_AddBid :: "ptr \<Rightarrow> 'u market \<Rightarrow> ('u market, unit) exec" where
  "ctx_AddBid b s = deref (mk_bids s b) s (\<lambda>bd.
     if bd_bidder bd = None then throw AssertFailed s
     else
       let s1 = s\<lparr>mk_ctx := (mk_ctx s)\<lparr>ec_bidders := oset_ins (bd_bidder bd) (ec_bidders (mk_ctx s)),
              bids_by_request := omap_push (bd_request bd) b (bids_by_request (mk_ctx s))\<rparr>\<rparr>
       in deref (mk_reqs s1 (bd_request bd)) s1 (\<lambda>rq.
            let pref = (case bd_preference bd of None \<Rightarrow> rq_preference rq | Some p \<Rightarrow> p);
                prefs = omap_sub [] (trader_prefs (mk_ctx s1)) (rq_requester rq);
                by_bid = omap_sub [] prefs (bd_request bd)
            in ok () (s1\<lparr>mk_ctx := (mk_ctx s1)\<lparr>trader_prefs := omap_put (rq_requester rq)
                 (omap_put (bd_request bd) (omap_ins b pref by_bid) prefs) (trader_prefs (mk_ctx s1))\<rparr>\<rparr>)))"

definition AddBidPortfolio :: "ptr \<Rightarrow> 'u market \<Rightarrow> ('u market, unit) exec" where
  "AddBidPortfolio port s =
     (let s1 = s\<lparr>mk_ctx := (mk_ctx s)\<lparr>ec_bids := ec_bids (mk_ctx s) @ [port]\<rparr>\<rparr>
      in deref (mk_bps s1 port) s1 (\<lambda>bp. foreach ctx_AddBid (bp_bids bp) s1))"

section \<open>Collecting requests, bids and preferences\<close>

text \<open>
  The virtual methods of traders, and of the agents above them, for the resource type of the
  market (\<open>GetMatlRequests\<close> or \<open>GetProductRequests\<close> and so on). A method that returns a
  \<open>std::set\<close> of portfolios returns some list; the caller sees it sorted by address. A method that
  changes preferences through a reference returns them.
\<close>

record 'u trader_cb =
  tc_requests :: "ptr \<Rightarrow> 'u market \<Rightarrow> ('u market, ptr list) exec"
  tc_bids :: "ptr \<Rightarrow> 'u market \<Rightarrow> ('u market, ptr list) exec"
  tc_adjust :: "ptr \<Rightarrow> pref_map \<Rightarrow> 'u market \<Rightarrow> ('u market, pref_map) exec"
  tc_agent_adjust :: "ptr \<Rightarrow> pref_map \<Rightarrow> 'u market \<Rightarrow> ('u market, pref_map) exec"
  tc_trades :: "ptr \<Rightarrow> trade list \<Rightarrow> 'u market \<Rightarrow> ('u market, (trade \<times> ptr) list) exec"
  tc_accept :: "ptr \<Rightarrow> (trade \<times> ptr) list \<Rightarrow> 'u market \<Rightarrow> ('u market, unit) exec"

text \<open>The methods a trader inherits when it overrides none.\<close>

definition Trader_default :: "'u trader_cb" where
  "Trader_default = \<lparr>tc_requests = (\<lambda>_ s. ok [] s), tc_bids = (\<lambda>_ s. ok [] s), tc_adjust = (\<lambda>_ p s. ok p s),
     tc_agent_adjust = (\<lambda>_ p s. ok p s), tc_trades = (\<lambda>_ _ s. ok [] s), tc_accept = (\<lambda>_ _ s. ok () s)\<rparr>"

text \<open>Traders are ordered by the id of their agent, then by address.\<close>

definition manager_id :: "'u sim \<Rightarrow> ptr \<Rightarrow> int option" where
  "manager_id s t = map_option ag_id (Option.bind (managers s t) (s_agents s))"

definition trader_compare :: "'u sim \<Rightarrow> ptr \<Rightarrow> ptr \<Rightarrow> bool" where
  "trader_compare s l r =
     (let left = manager_id s l; right = manager_id s r in if left \<noteq> right then left < right else l < r)"

definition InitTraders :: "'u market \<Rightarrow> ('u market, unit) exec" where
  "InitTraders s =
     (if mk_traders s = [] then
        let orig = s_traders (mk_sim s)
        in if 2 \<le> length orig \<and> list_ex (\<lambda>t. manager_id (mk_sim s) t = None) orig then throw Undefined s
           else ok () (s\<lparr>mk_traders := stable_sort (trader_compare (mk_sim s)) orig\<rparr>)
      else ok () s)"

definition AddRequests :: "'u trader_cb \<Rightarrow> ptr \<Rightarrow> 'u market \<Rightarrow> ('u market, unit) exec" where
  "AddRequests cb t s = andThen (tc_requests cb t s) (\<lambda>rps s1. foreach AddRequestPortfolio (sort (remdups rps)) s1)"

definition AddBids :: "'u trader_cb \<Rightarrow> ptr \<Rightarrow> 'u market \<Rightarrow> ('u market, unit) exec" where
  "AddBids cb t s = andThen (tc_bids cb t s) (\<lambda>bps s1. foreach AddBidPortfolio (sort (remdups bps)) s1)"

definition AddAllRequests :: "'u trader_cb \<Rightarrow> 'u market \<Rightarrow> ('u market, unit) exec" where
  "AddAllRequests cb s = andThen (InitTraders s) (\<lambda>_ s1. foreach (AddRequests cb) (mk_traders s1) s1)"

definition AddAllBids :: "'u trader_cb \<Rightarrow> 'u market \<Rightarrow> ('u market, unit) exec" where
  "AddAllBids cb s = andThen (InitTraders s) (\<lambda>_ s1. foreach (AddBids cb) (mk_traders s1) s1)"

text \<open>One call that adjusts the preferences of the requester \<open>t\<close> in place.\<close>

definition adjust_with :: "(pref_map \<Rightarrow> 'u market \<Rightarrow> ('u market, pref_map) exec) \<Rightarrow> ptr option \<Rightarrow> 'u market \<Rightarrow>
    ('u market, unit) exec" where
  "adjust_with f t s =
     andThen (f (omap_sub [] (trader_prefs (mk_ctx s)) t) s) (\<lambda>prefs s1.
       ok () (s1\<lparr>mk_ctx := (mk_ctx s1)\<lparr>trader_prefs := omap_put t prefs (trader_prefs (mk_ctx s1))\<rparr>\<rparr>))"

partial_function (option) adjust_parents ::
    "'u trader_cb \<Rightarrow> ptr option \<Rightarrow> ptr option \<Rightarrow> 'u market \<Rightarrow> ('u market, unit) pexec" where
  "adjust_parents cb t m s =
     (case m of
        None \<Rightarrow> Some (ok () s)
      | Some p \<Rightarrow> pthen (Some (deref (s_agents (mk_sim s) p) s (\<lambda>_. adjust_with (tc_agent_adjust cb p) t s))) (\<lambda>_ s1.
          case s_agents (mk_sim s1) p of
            None \<Rightarrow> Some (throw Undefined s1)
          | Some a \<Rightarrow> adjust_parents cb t (ag_parent a) s1))"

definition AdjustPrefs :: "'u trader_cb \<Rightarrow> ptr option \<Rightarrow> 'u market \<Rightarrow> ('u market, unit) pexec" where
  "AdjustPrefs cb t s = pthen (Some (deref t s (\<lambda>p. adjust_with (tc_adjust cb p) t s))) (\<lambda>_ s1.
     pthen (Some (manager t s1 (\<lambda>_ a. ok (ag_parent a) s1))) (\<lambda>m s2. adjust_parents cb t m s2))"

fun pforeach :: "('a \<Rightarrow> 's \<Rightarrow> ('s, unit) pexec) \<Rightarrow> 'a list \<Rightarrow> 's \<Rightarrow> ('s, unit) pexec" where
  "pforeach f [] s = Some (ok () s)"
| "pforeach f (x # xs) s = pthen (f x s) (\<lambda>_ s1. pforeach f xs s1)"

definition AdjustAll :: "'u trader_cb \<Rightarrow> 'u market \<Rightarrow> ('u market, unit) pexec" where
  "AdjustAll cb s = pthen (Some (InitTraders s)) (\<lambda>_ s1. pforeach (AdjustPrefs cb) (ec_requesters (mk_ctx s1)) s1)"

definition Empty :: "'u market \<Rightarrow> bool" where
  "Empty s \<longleftrightarrow> bids_by_request (mk_ctx s) = []"

section \<open>Translation to a graph\<close>

definition xl_AddRequest :: "ptr \<Rightarrow> ptr \<Rightarrow> xlation \<Rightarrow> xlation" where
  "xl_AddRequest r n xl = xl\<lparr>request_to_node := omap_put r n (request_to_node xl),
     node_to_request := omap_put n r (node_to_request xl)\<rparr>"

definition xl_AddBid :: "ptr \<Rightarrow> ptr \<Rightarrow> xlation \<Rightarrow> xlation" where
  "xl_AddBid b n xl = xl\<lparr>bid_to_node := omap_put b n (bid_to_node xl), node_to_bid := omap_put n b (node_to_bid xl)\<rparr>"

definition translate_request :: "ptr \<Rightarrow> ptr \<Rightarrow> 'u market \<Rightarrow> ('u market, unit) exec" where
  "translate_request rs r s = deref (mk_reqs s r) s (\<lambda>rq. deref (mk_qty s (rq_target rq)) s (\<lambda>q.
     manager (rq_requester rq) s (\<lambda>_ a.
       case ExchangeNode_new q (rq_exclusive rq) (rq_commodity rq) (ag_id a) (mk_graph s) of
         (n, g) \<Rightarrow> (case RequestGroup_AddExchangeNode rs n g of
           (e, g1) \<Rightarrow> andThen (e, s\<lparr>mk_graph := g1\<rparr>) (\<lambda>_ s1. ok () (s1\<lparr>mk_xl := xl_AddRequest r n (mk_xl s1)\<rparr>))))))"

definition TranslateRequestPortfolio :: "ptr \<Rightarrow> 'u market \<Rightarrow> ('u market, ptr) exec" where
  "TranslateRequestPortfolio port s = deref (mk_rps s port) s (\<lambda>rp.
     case Group_new (rp_qty rp) (mk_graph s) of
       (rs, g) \<Rightarrow> andThen (foreach (translate_request rs) (rp_requests rp) (s\<lparr>mk_graph := g\<rparr>)) (\<lambda>_ s1.
         ok rs (s1\<lparr>mk_graph := foldl (\<lambda>g c. AddCapacity rs (cc_capacity c) g) (mk_graph s1) (rp_constraints rp)\<rparr>)))"

text \<open>The exclusive bids on the same offer; the map from offers to nodes is the accumulator.\<close>

definition translate_bid :: "ptr \<Rightarrow> ptr \<Rightarrow> (ptr, ptr list) omap \<Rightarrow> 'u market \<Rightarrow> ('u market, (ptr, ptr list) omap) exec" where
  "translate_bid bs b excl s = deref (mk_bids s b) s (\<lambda>bd. deref (mk_qty s (bd_offer bd)) s (\<lambda>q.
     deref (mk_reqs s (bd_request bd)) s (\<lambda>rq. manager (bd_bidder bd) s (\<lambda>_ a.
       case ExchangeNode_new q (bd_exclusive bd) (rq_commodity rq) (ag_id a) (mk_graph s) of
         (n, g) \<Rightarrow> ok (if bd_exclusive bd then omap_push (bd_offer bd) n excl else excl)
           (s\<lparr>mk_graph := AddExchangeNode bs n g, mk_xl := xl_AddBid b n (mk_xl s)\<rparr>)))))"

fun translate_bids :: "ptr \<Rightarrow> ptr list \<Rightarrow> (ptr, ptr list) omap \<Rightarrow> 'u market \<Rightarrow> ('u market, (ptr, ptr list) omap) exec" where
  "translate_bids bs [] excl s = ok excl s"
| "translate_bids bs (b # bids) excl s = andThen (translate_bid bs b excl s) (\<lambda>excl' s1. translate_bids bs bids excl' s1)"

definition TranslateBidPortfolio :: "ptr \<Rightarrow> 'u market \<Rightarrow> ('u market, ptr) exec" where
  "TranslateBidPortfolio port s = deref (mk_bps s port) s (\<lambda>bp.
     case Group_new 0 (mk_graph s) of
       (bs, g) \<Rightarrow> andThen (translate_bids bs (bp_bids bp) [] (s\<lparr>mk_graph := g\<rparr>)) (\<lambda>excl s1.
         let g1 = foldl (\<lambda>g (_, ns). AddExclGroup bs ns g) (mk_graph s1) excl
         in ok bs (s1\<lparr>mk_graph := foldl (\<lambda>g c. AddCapacity bs (cc_capacity c) g) g1 (bp_constraints bp)\<rparr>)))"

text \<open>
  The unit capacity of an offer is its converted quantity over its quantity. An offer whose
  quantity has become 0 would give an infinity or a NaN, at which the model stops.
\<close>

definition add_unit_capacity :: "ptr \<Rightarrow> ptr \<Rightarrow> arc \<Rightarrow> constraint \<Rightarrow> 'u market \<Rightarrow> ('u market, unit) exec" where
  "add_unit_capacity offer n a c s = deref (mk_qty s offer) s (\<lambda>q.
     case convert (cc_converter c) (mk_world s) offer a (mk_xl s) of
       Inl e \<Rightarrow> throw e s
     | Inr x \<Rightarrow> if q = 0 then throw Undefined s
         else ok () (s\<lparr>mk_graph := upd_node n (unit_capacities_update (omap_push (arc_key a) (x / q))) (mk_graph s)\<rparr>))"

definition TranslateCapacities :: "ptr \<Rightarrow> constraint list \<Rightarrow> ptr \<Rightarrow> arc \<Rightarrow> 'u market \<Rightarrow> ('u market, unit) exec" where
  "TranslateCapacities offer cs n a s = foreach (add_unit_capacity offer n a) cs s"

definition map_at :: "('k, 'v) omap \<Rightarrow> 'k \<Rightarrow> 's \<Rightarrow> ('v \<Rightarrow> ('s, 'a) exec) \<Rightarrow> ('s, 'a) exec" where
  "map_at m k s f = (case map_of m k of None \<Rightarrow> throw OutOfRange s | Some v \<Rightarrow> f v)"

definition TranslateArc :: "(double \<Rightarrow> double \<Rightarrow> double) \<Rightarrow> ptr \<Rightarrow> double \<Rightarrow> 'u market \<Rightarrow> ('u market, arc) exec" where
  "TranslateArc fdist b pref s = deref (mk_bids s b) s (\<lambda>bd.
     map_at (request_to_node (mk_xl s)) (bd_request bd) s (\<lambda>unode.
     map_at (bid_to_node (mk_xl s)) b s (\<lambda>vnode.
     andThen (fst (Arc_new fdist pref unode vnode (mk_graph s)), s) (\<lambda>arc s1.
     deref (mk_reqs s1 (bd_request bd)) s1 (\<lambda>rq.
     deref (mk_bps s1 (bd_portfolio bd)) s1 (\<lambda>bp.
     andThen (TranslateCapacities (bd_offer bd) (bp_constraints bp) vnode arc s1) (\<lambda>_ s2.
     deref (mk_rps s2 (rq_portfolio rq)) s2 (\<lambda>rp.
     andThen (TranslateCapacities (bd_offer bd) (rp_constraints rp) unode arc s2) (\<lambda>_ s3. ok arc s3)))))))))"

definition xl_AddArc :: "(double \<Rightarrow> double \<Rightarrow> double) \<Rightarrow> ptr \<Rightarrow> ptr \<Rightarrow> 'u market \<Rightarrow> ('u market, unit) exec" where
  "xl_AddArc fdist r b s = deref (mk_reqs s r) s (\<lambda>rq.
     map_at (trader_prefs (mk_ctx s)) (rq_requester rq) s (\<lambda>by_req.
       let by_bid = omap_sub [] by_req r; pref = omap_sub 0 by_bid b;
           s1 = s\<lparr>mk_ctx := (mk_ctx s)\<lparr>trader_prefs := omap_put (rq_requester rq)
                  (omap_put r (omap_touch 0 b by_bid) by_req) (trader_prefs (mk_ctx s))\<rparr>\<rparr>
       in if pref < 0 then ok () s1
          else if pref = 0 then throw ValueError s1
          else andThen (TranslateArc fdist b pref s1) (\<lambda>a s2.
            ok () (s2\<lparr>mk_graph := AddArc a (upd_node (a_unode a) (prefs_update (\<lambda>m.
              omap_put (arc_key a) (case map_of m (arc_key a) of None \<Rightarrow> (a, pref) | Some (a', _) \<Rightarrow> (a', pref)) m)) (mk_graph s2))\<rparr>))))"

definition translate_rp :: "ptr \<Rightarrow> 'u market \<Rightarrow> ('u market, unit) exec" where
  "translate_rp port s = deref (mk_rps s port) s (\<lambda>rp.
     andThen (CapacityConstraint_new (rp_qty rp) (qty_converter rp) s) (\<lambda>c s1.
     andThen (rp_AddConstraint port c s1) (\<lambda>_ s2.
     andThen (TranslateRequestPortfolio port s2) (\<lambda>rs s3.
       ok () (s3\<lparr>mk_graph := AddRequestGroup rs (mk_graph s3)\<rparr>)))))"

definition translate_bp :: "(double \<Rightarrow> double \<Rightarrow> double) \<Rightarrow> ptr \<Rightarrow> 'u market \<Rightarrow> ('u market, unit) exec" where
  "translate_bp fdist port s =
     andThen (TranslateBidPortfolio port s) (\<lambda>ns s1.
       let s2 = s1\<lparr>mk_graph := AddSupplyGroup ns (mk_graph s1)\<rparr>
       in deref (mk_bps s2 port) s2 (\<lambda>bp.
            foreach (\<lambda>b s. deref (mk_bids s b) s (\<lambda>bd. xl_AddArc fdist (bd_request bd) b s)) (bp_bids bp) s2))"

definition Translate :: "(double \<Rightarrow> double \<Rightarrow> double) \<Rightarrow> 'u market \<Rightarrow> ('u market, unit) exec" where
  "Translate fdist s =
     andThen (foreach translate_rp (ec_requests (mk_ctx s)) (s\<lparr>mk_graph := ExchangeGraph_new\<rparr>)) (\<lambda>_ s1.
       foreach (translate_bp fdist) (ec_bids (mk_ctx s1)) s1)"

section \<open>Translation of the solution\<close>

definition BackTranslateMatch :: "xlation \<Rightarrow> arc \<times> double \<Rightarrow> exn + trade" where
  "BackTranslateMatch xl m =
     (case map_of (node_to_request xl) (a_unode (fst m)) of None \<Rightarrow> Inl OutOfRange
      | Some r \<Rightarrow> (case map_of (node_to_bid xl) (a_vnode (fst m)) of None \<Rightarrow> Inl OutOfRange
        | Some b \<Rightarrow> Inr \<lparr>t_request = r, t_bid = b, t_amt = snd m, t_price = 0\<rparr>))"

fun BackTranslateSolution :: "xlation \<Rightarrow> (arc \<times> double) list \<Rightarrow> trade list \<Rightarrow> exn + trade list" where
  "BackTranslateSolution xl [] ret = Inr ret"
| "BackTranslateSolution xl (m # ms) ret =
     (case BackTranslateMatch xl m of Inl e \<Rightarrow> Inl e | Inr t \<Rightarrow> BackTranslateSolution xl ms (ret @ [t]))"

end
