(* ===== verification/Market_Manager.thy ===== *)
theory Market_Manager
  imports Market_Exchange
begin

text \<open>
  trade_executor.h and exchange_manager.h: executing the trades of a solution, and one complete
  exchange as the timer runs it.
\<close>

section \<open>The trade executor\<close>

type_synonym response = "trade \<times> ptr"

text \<open>\<open>TradeExecutionContext\<close>.\<close>

record trade_ctx =
  suppliers :: "ptr option list"
  requesters :: "ptr option list"
  trades_by_supplier :: "(ptr option, trade list) omap"
  trades_by_requester :: "(ptr option, response list) omap"
  all_trades :: "(ptr option \<times> ptr option, response list) omap"

definition trade_ctx_new :: trade_ctx where
  "trade_ctx_new = \<lparr>suppliers = [], requesters = [], trades_by_supplier = [], trades_by_requester = [], all_trades = []\<rparr>"

fun GroupTradesBySupplier :: "trade list \<Rightarrow> trade_ctx \<Rightarrow> 'u market \<Rightarrow> ('u market, trade_ctx) exec" where
  "GroupTradesBySupplier [] tc s = ok tc s"
| "GroupTradesBySupplier (t # ts) tc s = deref (mk_bids s (t_bid t)) s (\<lambda>bd. deref (mk_reqs s (t_request t)) s (\<lambda>rq.
     GroupTradesBySupplier ts (tc\<lparr>trades_by_supplier := omap_push (bd_bidder bd) t (trades_by_supplier tc),
       suppliers := oset_ins (bd_bidder bd) (suppliers tc), requesters := oset_ins (rq_requester rq) (requesters tc)\<rparr>) s))"

fun file_responses :: "ptr option \<Rightarrow> response list \<Rightarrow> trade_ctx \<Rightarrow> 'u market \<Rightarrow> ('u market, trade_ctx) exec" where
  "file_responses supplier [] tc s = ok tc s"
| "file_responses supplier (r # rs) tc s = deref (mk_reqs s (t_request (fst r))) s (\<lambda>rq.
     file_responses supplier rs (tc\<lparr>trades_by_requester := omap_push (rq_requester rq) r (trades_by_requester tc),
       all_trades := omap_push (supplier, rq_requester rq) r (all_trades tc)\<rparr>) s)"

fun GetTradeResponses :: "'u trader_cb \<Rightarrow> ptr option list \<Rightarrow> trade_ctx \<Rightarrow> 'u market \<Rightarrow> ('u market, trade_ctx) exec" where
  "GetTradeResponses cb [] tc s = ok tc s"
| "GetTradeResponses cb (supplier # sups) tc s = deref supplier s (\<lambda>p.
     let tc1 = tc\<lparr>trades_by_supplier := omap_touch [] supplier (trades_by_supplier tc)\<rparr>
     in andThen (tc_trades cb p (omap_sub [] (trades_by_supplier tc) supplier) s) (\<lambda>responses s1.
        andThen (file_responses supplier responses tc1 s1) (\<lambda>tc2 s2. GetTradeResponses cb sups tc2 s2)))"

definition record_trade :: "int \<Rightarrow> int \<Rightarrow> response \<Rightarrow> 'u market \<Rightarrow> ('u market, unit) exec" where
  "record_trade supplier requester r s =
     (case NextTransactionID (mk_sim s) of
        (i, sim) \<Rightarrow> (let s1 = s\<lparr>mk_sim := sim\<rparr>
          in deref (w_res (mk_world s1) (snd r)) s1 (\<lambda>rsrc. deref (mk_reqs s1 (t_request (fst r))) s1 (\<lambda>rq.
             ok () (s1\<lparr>mk_sim := record_row (Transactions i supplier requester (state_id rsrc) (rq_commodity rq)
               (time_of (mk_sim s1))) (mk_sim s1)\<rparr>)))))"

definition RecordTrades :: "trade_ctx \<Rightarrow> 'u market \<Rightarrow> ('u market, unit) exec" where
  "RecordTrades tc s = foreach (\<lambda>(k, trades) s.
     manager (fst k) s (\<lambda>_ supplier. manager (snd k) s (\<lambda>_ requester.
       foreach (record_trade (ag_id supplier) (ag_id requester)) trades s))) (all_trades tc) s"

definition SendTradeResources :: "'u trader_cb \<Rightarrow> trade_ctx \<Rightarrow> 'u market \<Rightarrow> ('u market, unit) exec" where
  "SendTradeResources cb tc s = foreach (\<lambda>requester s. deref requester s (\<lambda>p.
     tc_accept cb p (omap_sub [] (trades_by_requester tc) requester) s)) (requesters tc) s"

definition ExecuteTrades :: "'u trader_cb \<Rightarrow> trade list \<Rightarrow> 'u market \<Rightarrow> ('u market, unit) exec" where
  "ExecuteTrades cb trades s =
     andThen (GroupTradesBySupplier trades trade_ctx_new s) (\<lambda>tc s1.
     andThen (GetTradeResponses cb (suppliers tc) tc s1) (\<lambda>tc1 s2.
     andThen (RecordTrades tc1 s2) (\<lambda>_ s3. SendTradeResources cb tc1 s3)))"

section \<open>The exchange manager\<close>

definition debug_request :: "ptr \<Rightarrow> 'u market \<Rightarrow> ('u market, unit) exec" where
  "debug_request r s = deref (mk_reqs s r) s (\<lambda>rq. manager (rq_requester rq) s (\<lambda>_ a.
     deref (w_res (mk_world s) (rq_target rq)) s (\<lambda>target.
       ok () (s\<lparr>mk_sim := record_row (DebugRequests (time_of (mk_sim s)) r (ag_id a) (rq_commodity rq) (rq_preference rq)
         (rq_exclusive rq) (res_type (body target)) (quantity target) (res_units (body target))) (mk_sim s)\<rparr>))))"

definition debug_bid :: "ptr \<Rightarrow> 'u market \<Rightarrow> ('u market, unit) exec" where
  "debug_bid b s = deref (mk_bids s b) s (\<lambda>bd. deref (mk_reqs s (bd_request bd)) s (\<lambda>rq.
     let by_req = omap_sub [] (trader_prefs (mk_ctx s)) (rq_requester rq); by_bid = omap_sub [] by_req (bd_request bd);
         s1 = s\<lparr>mk_ctx := (mk_ctx s)\<lparr>trader_prefs := omap_put (rq_requester rq)
                (omap_put (bd_request bd) (omap_touch 0 b by_bid) by_req) (trader_prefs (mk_ctx s))\<rparr>\<rparr>
     in manager (bd_bidder bd) s1 (\<lambda>_ a. deref (mk_qty s1 (bd_offer bd)) s1 (\<lambda>q.
       ok () (s1\<lparr>mk_sim := record_row (DebugBids (time_of (mk_sim s1)) (bd_request bd) (ag_id a) q (bd_exclusive bd)
         (omap_sub 0 by_bid b)) (mk_sim s1)\<rparr>)))))"

definition RecordDebugInfo :: "'u market \<Rightarrow> ('u market, unit) exec" where
  "RecordDebugInfo s =
     andThen (foreach (\<lambda>port s. deref (mk_rps s port) s (\<lambda>rp. foreach debug_request (rp_requests rp) s)) (ec_requests (mk_ctx s)) s) (\<lambda>_ s1.
       foreach (\<lambda>port s. deref (mk_bps s port) s (\<lambda>bp. foreach debug_bid (bp_bids bp) s)) (ec_bids (mk_ctx s1)) s1)"

text \<open>
  The parameters of an exchange: the machine's \<open>float_distance\<close>, the epsilon of the simulation,
  whether debugging is on, and the solver object of the context, here the greedy solver.
\<close>

record exchange_env =
  env_fdist :: "double \<Rightarrow> double \<Rightarrow> double"
  env_eps :: double
  env_debug :: bool
  env_solver :: greedy

text \<open>\<open>Context::solver()\<close> when no solver was set.\<close>

definition Context_solver :: greedy where
  "Context_solver = GreedySolver_new False None ExchangeGraph_new"

definition solve_market :: "exchange_env \<Rightarrow> 'u market \<Rightarrow> ('u market, xdouble) exec" where
  "solve_market env s = (case Solve (env_eps env) (env_fdist env) (Some (mk_graph s)) (env_solver env) of
     (r, sv) \<Rightarrow> (r, s\<lparr>mk_graph := gs_graph sv\<rparr>))"

text \<open>From the collected context to executed trades.\<close>

definition clear_market :: "exchange_env \<Rightarrow> 'u trader_cb \<Rightarrow> 'u market \<Rightarrow> ('u market, unit) exec" where
  "clear_market env cb s =
     andThen (Translate (env_fdist env) s) (\<lambda>_ s1.
     andThen (solve_market env s1) (\<lambda>_ s2.
       case BackTranslateSolution (mk_xl s2) (matches (mk_graph s2)) [] of
         Inl e \<Rightarrow> throw e s2
       | Inr trades \<Rightarrow> ExecuteTrades cb trades s2))"

definition Execute :: "exchange_env \<Rightarrow> 'u trader_cb \<Rightarrow> 'u market \<Rightarrow> ('u market, unit) pexec" where
  "Execute env cb s =
     pthen (Some (AddAllRequests cb s)) (\<lambda>_ s1.
     pthen (Some (AddAllBids cb s1)) (\<lambda>_ s2.
     pthen (AdjustAll cb s2) (\<lambda>_ s3.
     pthen (Some (if env_debug env then RecordDebugInfo s3 else ok () s3)) (\<lambda>_ s4.
       Some (if Empty s4 then ok () s4 else clear_market env cb s4)))))"

text \<open>
  The exchange as a phase of the timer. Requests, bids, portfolios and the graph end with it; the
  static constraint counter starts at \<open>i\<close>, of which only the order of the ids matters.
\<close>

definition exchange_phase :: "exchange_env \<Rightarrow> 'u trader_cb \<Rightarrow> int \<Rightarrow> 'u sim \<Rightarrow> ('u sim, unit) pexec" where
  "exchange_phase env cb i s = map_option (\<lambda>(r, m). (r, mk_sim m)) (Execute env cb (market_new i s))"

end
