(* ===== verification/Sim_Market.thy ===== *)
theory Sim_Market
  imports Sim_Properties Market_Manager
begin

text \<open>
  The simulation with its resource exchanges: \<open>ExchangeManager::Execute\<close> of exchange_manager.h as a phase of
  the timer returns in every state with the kernel's invariant, whatever traders do through the interface
  of the context, and changes the simulation only through this interface. So a whole simulation ends.
\<close>

section \<open>What a trader may do\<close>

text \<open>The methods of traders act on the simulation through calls of \<open>api\<close> only; what they do with
  requests, bids and portfolios is free.\<close>

definition conforming_traders :: "'u trader_cb \<Rightarrow> bool" where
  "conforming_traders tc \<longleftrightarrow> (\<forall>p x ts rs m.
     (api True)\<^sup>*\<^sup>* (mk_sim m) (mk_sim (snd (tc_requests tc p m))) \<and> (api True)\<^sup>*\<^sup>* (mk_sim m) (mk_sim (snd (tc_bids tc p m))) \<and>
     (api True)\<^sup>*\<^sup>* (mk_sim m) (mk_sim (snd (tc_adjust tc p x m))) \<and> (api True)\<^sup>*\<^sup>* (mk_sim m) (mk_sim (snd (tc_agent_adjust tc p x m))) \<and>
     (api True)\<^sup>*\<^sup>* (mk_sim m) (mk_sim (snd (tc_trades tc p ts m))) \<and> (api True)\<^sup>*\<^sup>* (mk_sim m) (mk_sim (snd (tc_accept tc p rs m))))"

definition acted :: "'u sim \<Rightarrow> 'u market \<Rightarrow> bool" where
  "acted s m \<longleftrightarrow> (api True)\<^sup>*\<^sup>* s (mk_sim m)"

lemma acted_trans: "acted s m \<Longrightarrow> (api True)\<^sup>*\<^sup>* (mk_sim m) (mk_sim m') \<Longrightarrow> acted s m'"
  unfolding acted_def by (rule rtranclp_trans)

lemma acted_traders:
  assumes "conforming_traders tc" "acted s m"
  shows "acted s (snd (tc_requests tc p m))" "acted s (snd (tc_bids tc p m))" "acted s (snd (tc_adjust tc p x m))"
    "acted s (snd (tc_agent_adjust tc p x m))" "acted s (snd (tc_trades tc p ts m))" "acted s (snd (tc_accept tc p rs m))"
  by (rule acted_trans[OF assms(2)]; use assms(1) in \<open>unfold conforming_traders_def, blast\<close>)+

lemma acted_simps [simp]:
  "acted s (m\<lparr>mk_reqs := a\<rparr>) = acted s m" "acted s (m\<lparr>mk_rps := b\<rparr>) = acted s m" "acted s (m\<lparr>mk_bids := c\<rparr>) = acted s m"
  "acted s (m\<lparr>mk_bps := d\<rparr>) = acted s m" "acted s (m\<lparr>mk_ctx := e\<rparr>) = acted s m" "acted s (m\<lparr>mk_traders := f\<rparr>) = acted s m"
  "acted s (m\<lparr>mk_xl := g\<rparr>) = acted s m" "acted s (m\<lparr>mk_graph := h\<rparr>) = acted s m" "acted s (m\<lparr>next_constraint_id := i\<rparr>) = acted s m"
  "acted s (upd_rp p k m) = acted s m" "acted s (upd_bp p l m) = acted s m"
  by (simp_all add: acted_def upd_rp_def upd_bp_def)

lemma acted_row: "acted s m \<Longrightarrow> acted s (m'\<lparr>mk_sim := record_row r (mk_sim m)\<rparr>)"
  by (erule acted_trans) (auto intro: r_into_rtranclp api.row)

lemma acted_transaction: "acted s m \<Longrightarrow> acted s (m\<lparr>mk_sim := snd (NextTransactionID (mk_sim m))\<rparr>)"
  by (erule acted_trans) (auto intro: r_into_rtranclp api.transaction)

lemmas acted_andThen = snd_andThenI[where P = "acted s" for s]
lemmas acted_deref = snd_derefI[where P = "acted s" for s]
lemmas acted_foreach = snd_foreachI[where P = "acted s" for s]

lemma acted_manager: "acted s m \<Longrightarrow> (\<And>p a. acted s (snd (f p a))) \<Longrightarrow> acted s (snd (manager t m f))"
  unfolding manager_def by (intro acted_deref)

section \<open>The parts of an exchange\<close>

lemma acted_InitTraders: "acted s m \<Longrightarrow> acted s (snd (InitTraders m))"
  by (auto simp: InitTraders_def Let_def)

lemma acted_collect:
  assumes "conforming_traders tc" "acted s m"
  shows "acted s (snd (AddAllRequests tc m))" "acted s (snd (AddAllBids tc m))"
proof -
  have "acted s (snd (AddRequestPortfolio p m))" if "acted s m" for p m
    unfolding AddRequestPortfolio_def ctx_AddRequest_def Let_def using that by (auto intro!: acted_deref acted_foreach)
  then have "acted s (snd (AddRequests tc p m))" if "acted s m" for p m
    unfolding AddRequests_def using that acted_traders(1)[OF assms(1)] by (auto intro!: acted_andThen acted_foreach)
  then show "acted s (snd (AddAllRequests tc m))"
    unfolding AddAllRequests_def using assms(2) acted_InitTraders by (auto intro!: acted_andThen acted_foreach)
  have "acted s (snd (AddBidPortfolio p m))" if "acted s m" for p m
    unfolding AddBidPortfolio_def ctx_AddBid_def Let_def using that by (auto intro!: acted_deref acted_foreach)
  then have "acted s (snd (AddBids tc p m))" if "acted s m" for p m
    unfolding AddBids_def using that acted_traders(2)[OF assms(1)] by (auto intro!: acted_andThen acted_foreach)
  then show "acted s (snd (AddAllBids tc m))"
    unfolding AddAllBids_def using assms(2) acted_InitTraders by (auto intro!: acted_andThen acted_foreach)
qed

lemma acted_RecordDebugInfo: "acted s m \<Longrightarrow> acted s (snd (RecordDebugInfo m))"
  unfolding RecordDebugInfo_def debug_request_def debug_bid_def Let_def
  by (auto intro!: acted_andThen acted_deref acted_foreach acted_manager acted_row)

lemma acted_insert: "acted s m \<Longrightarrow> acted s (snd (constraints_insert c cs m))"
  by (auto simp: constraints_insert_def CapacityConstraint_copy_def Let_def)

lemma acted_map_at: "acted s m \<Longrightarrow> (\<And>v. acted s (snd (f v))) \<Longrightarrow> acted s (snd (map_at k x m f))"
  by (auto simp: map_at_def split: option.splits)

lemma acted_translate_rp: "acted s m \<Longrightarrow> acted s (snd (translate_rp p m))"
proof -
  have r: "acted s (snd (translate_request rs r m))" if "acted s m" for rs r m
    unfolding translate_request_def using that
    by (auto intro!: acted_deref acted_manager acted_andThen split: prod.splits)
  have t: "acted s (snd (TranslateRequestPortfolio p m))" if "acted s m" for p m
    unfolding TranslateRequestPortfolio_def using that r
    by (auto intro!: acted_deref acted_andThen acted_foreach split: prod.splits)
  show "acted s m \<Longrightarrow> acted s (snd (translate_rp p m))"
    unfolding translate_rp_def CapacityConstraint_new_def rp_AddConstraint_def Let_def
    by (auto intro!: acted_deref acted_andThen acted_insert t)
qed

lemma acted_translate_bids: "acted s m \<Longrightarrow> acted s (snd (translate_bids bs bids excl m))"
proof (induction bids arbitrary: excl m)
  case (Cons b bids)
  have "acted s (snd (translate_bid bs b excl m))"
    unfolding translate_bid_def using Cons.prems by (auto intro!: acted_deref acted_manager split: prod.splits)
  then show ?case using Cons.IH by (auto intro!: acted_andThen)
qed simp

lemma acted_TranslateArc: "acted s m \<Longrightarrow> acted s (snd (TranslateArc fdist b pref m))"
proof -
  have c: "acted s (snd (TranslateCapacities ofr cs n a m))" if "acted s m" for ofr cs n a m
    unfolding TranslateCapacities_def add_unit_capacity_def using that
    by (auto intro!: acted_foreach acted_deref split: sum.splits)
  show "acted s m \<Longrightarrow> acted s (snd (TranslateArc fdist b pref m))"
    unfolding TranslateArc_def by (auto intro!: acted_deref acted_map_at acted_andThen c)
qed

lemma acted_translate_bp: "acted s m \<Longrightarrow> acted s (snd (translate_bp fdist p m))"
proof -
  have a: "acted s (snd (xl_AddArc fdist r b m))" if "acted s m" for r b m
    unfolding xl_AddArc_def Let_def using that by (auto intro!: acted_deref acted_map_at acted_andThen acted_TranslateArc)
  have t: "acted s (snd (TranslateBidPortfolio p m))" if "acted s m" for p m
    unfolding TranslateBidPortfolio_def Let_def using that
    by (auto intro!: acted_deref acted_andThen acted_translate_bids split: prod.splits)
  show "acted s m \<Longrightarrow> acted s (snd (translate_bp fdist p m))"
    unfolding translate_bp_def Let_def by (auto intro!: acted_deref acted_andThen acted_foreach t a)
qed

lemma acted_Translate: "acted s m \<Longrightarrow> acted s (snd (Translate fdist m))"
  unfolding Translate_def by (auto intro!: acted_andThen acted_foreach acted_translate_rp acted_translate_bp)

section \<open>Executing trades\<close>

lemma acted_group: "acted s m \<Longrightarrow> acted s (snd (GroupTradesBySupplier ts tc m))"
  by (induction ts tc m rule: GroupTradesBySupplier.induct) (auto intro!: acted_deref)

lemma acted_file: "acted s m \<Longrightarrow> acted s (snd (file_responses sp rs tc m))"
  by (induction sp rs tc m rule: file_responses.induct) (auto intro!: acted_deref)

lemma acted_responses:
  assumes "conforming_traders cb"
  shows "acted s m \<Longrightarrow> acted s (snd (GetTradeResponses cb sups tc m))"
proof (induction sups arbitrary: tc m)
  case (Cons sp sups)
  show ?case using Cons.prems
    by (auto simp: Let_def intro!: acted_deref acted_andThen acted_file acted_traders[OF assms] Cons.IH)
qed simp

lemma acted_record_trade: "acted s m \<Longrightarrow> acted s (snd (record_trade i j r m))"
proof -
  assume a: "acted s m"
  obtain k sim where k: "NextTransactionID (mk_sim m) = (k, sim)" by (cases "NextTransactionID (mk_sim m)")
  have "acted s (m\<lparr>mk_sim := sim\<rparr>)" using acted_transaction[OF a] k by simp
  from acted_row[OF this] show ?thesis
    unfolding record_trade_def Let_def k using \<open>acted s (m\<lparr>mk_sim := sim\<rparr>)\<close> by (auto intro!: acted_deref)
qed

lemma acted_ExecuteTrades:
  assumes "conforming_traders cb" "acted s m"
  shows "acted s (snd (ExecuteTrades cb ts m))"
  unfolding ExecuteTrades_def RecordTrades_def SendTradeResources_def
  by (auto intro!: acted_andThen acted_foreach acted_deref acted_manager acted_record_trade acted_group
      acted_responses[OF assms(1)] acted_traders(6)[OF assms(1)] assms(2))

lemma acted_clear_market:
  assumes "conforming_traders cb" "acted s m"
  shows "acted s (snd (clear_market env cb m))"
  unfolding clear_market_def solve_market_def
  by (auto intro!: acted_andThen acted_Translate acted_ExecuteTrades[OF assms(1)] assms(2) split: sum.splits prod.splits)

section \<open>Adjusting preferences ends\<close>

definition ends_acted :: "'u sim \<Rightarrow> ('u market, 'a) pexec \<Rightarrow> bool" where
  "ends_acted s x \<longleftrightarrow> (\<exists>r m. x = Some (r, m) \<and> acted s m)"

lemma ends_acted_Some: "acted s (snd x) \<Longrightarrow> ends_acted s (Some x)"
  by (cases x) (simp add: ends_acted_def)

lemma ends_acted_pthen:
  assumes "ends_acted s x" "\<And>a m. acted s m \<Longrightarrow> ends_acted s (f a m)"
  shows "ends_acted s (pthen x f)"
proof -
  obtain r m where x: "x = Some (r, m)" "acted s m" using assms(1) by (auto simp: ends_acted_def)
  show ?thesis
  proof (cases r)
    case (Inl e)
    then show ?thesis using x by (simp add: ends_acted_def)
  next
    case (Inr a)
    then show ?thesis using x assms(2)[OF x(2), of a] by simp
  qed
qed

lemma acted_agents: "acted s m \<Longrightarrow> s_agents (mk_sim m) = s_agents s"
  unfolding acted_def by (rule core_agents[OF api_star_core])

lemma acted_adjust_with:
  assumes "\<And>x m. acted s m \<Longrightarrow> acted s (snd (f x m))" "acted s m"
  shows "acted s (snd (adjust_with f t m))"
  unfolding adjust_with_def using assms by (auto intro!: acted_andThen)

text \<open>The parents of an agent have smaller ids, so that the walk up ends.\<close>

lemma adjust_parents_ends:
  assumes cb: "conforming_traders cb" and inv: "sim_inv s"
  shows "acted s m \<Longrightarrow> ends_acted s (adjust_parents cb t q m)"
proof (induction "case q of None \<Rightarrow> 0 | Some p \<Rightarrow> Suc (card {x \<in> dom (s_agents s). ag_id (the (s_agents s x)) < ag_id (the (s_agents s p))})"
    arbitrary: q m rule: less_induct)
  case less
  show ?case
  proof (cases q)
    case None
    then show ?thesis using less.prems by (subst adjust_parents.simps) (simp add: ends_acted_Some)
  next
    case (Some p)
    let ?x = "deref (s_agents (mk_sim m) p) m (\<lambda>_. adjust_with (tc_agent_adjust cb p) t m)"
    have x: "acted s (snd ?x)" using less.prems by (auto intro!: acted_deref acted_adjust_with acted_traders(4)[OF cb])
    have "ends_acted s (pthen (Some ?x) (\<lambda>_ s1. case s_agents (mk_sim s1) p of
        None \<Rightarrow> Some (throw Undefined s1) | Some a \<Rightarrow> adjust_parents cb t (ag_parent a) s1))"
    proof (rule ends_acted_pthen[OF ends_acted_Some[OF x]])
      fix m1 :: "'a market" assume m1: "acted s m1"
      show "ends_acted s (case s_agents (mk_sim m1) p of
          None \<Rightarrow> Some (throw Undefined m1) | Some a \<Rightarrow> adjust_parents cb t (ag_parent a) m1)"
      proof (cases "s_agents s p")
        case None
        then show ?thesis using m1 acted_agents[OF m1] by (simp add: ends_acted_Some)
      next
        case a: (Some a)
        have "ends_acted s (adjust_parents cb t (ag_parent a) m1)"
        proof (rule less.hyps[OF _ m1], cases "ag_parent a")
          case (Some q')
          have t: "tree_inv (s_agents s)" "finite (dom (s_agents s))" using inv unique_finite by (auto simp: sim_inv_def store_inv_def)
          obtain b where b: "s_agents s q' = Some b" "ag_id b < ag_id a" using parentD[OF t(1) a Some] by blast
          have "{x \<in> dom (s_agents s). ag_id (the (s_agents s x)) < ag_id b} \<subset> {x \<in> dom (s_agents s). ag_id (the (s_agents s x)) < ag_id a}"
            using b by force
          then have "card {x \<in> dom (s_agents s). ag_id (the (s_agents s x)) < ag_id b} < card {x \<in> dom (s_agents s). ag_id (the (s_agents s x)) < ag_id a}"
            using t(2) by (intro psubset_card_mono) auto
          then show "(case ag_parent a of None \<Rightarrow> 0 | Some p \<Rightarrow> Suc (card {x \<in> dom (s_agents s). ag_id (the (s_agents s x)) < ag_id (the (s_agents s p))}))
            < (case q of None \<Rightarrow> 0 | Some p \<Rightarrow> Suc (card {x \<in> dom (s_agents s). ag_id (the (s_agents s x)) < ag_id (the (s_agents s p))}))"
            using Some b(1) a \<open>q = Some p\<close> by simp
        qed (simp add: \<open>q = Some p\<close>)
        then show ?thesis using a acted_agents[OF m1] by simp
      qed
    qed
    then show ?thesis using Some by (subst adjust_parents.simps) simp
  qed
qed

lemma AdjustAll_ends:
  assumes cb: "conforming_traders cb" and inv: "sim_inv s" and m: "acted s m"
  shows "ends_acted s (AdjustAll cb m)"
proof -
  have p: "ends_acted s (AdjustPrefs cb t m)" if "acted s m" for t m
    unfolding AdjustPrefs_def using that
    by (intro ends_acted_pthen ends_acted_Some adjust_parents_ends[OF cb inv])
      (auto intro!: acted_deref acted_manager acted_adjust_with acted_traders(3)[OF cb])
  have "ends_acted s (pforeach (AdjustPrefs cb) ts m)" if "acted s m" for ts m
    using that by (induction ts arbitrary: m) (auto intro!: ends_acted_pthen p ends_acted_Some)
  then show ?thesis unfolding AdjustAll_def by (intro ends_acted_pthen ends_acted_Some) (auto intro: acted_InitTraders m)
qed

text \<open>One exchange, from collecting requests to executing trades.\<close>

lemma Execute_ends:
  assumes cb: "conforming_traders cb" and inv: "sim_inv s" and m: "acted s m"
  shows "ends_acted s (Execute env cb m)"
  unfolding Execute_def
  by (intro ends_acted_pthen ends_acted_Some AdjustAll_ends[OF cb inv])
    (auto intro: acted_collect[OF cb] m acted_RecordDebugInfo acted_clear_market[OF cb])

lemma exchange_phase_ok: "conforming_traders cb \<Longrightarrow> exchange_ok (exchange_phase env cb i)"
  using Execute_ends[of cb s "market_new i s" env for s]
  by (fastforce simp: exchange_ok_def exchange_phase_def ends_acted_def acted_def market_new_def)

section \<open>The end of a simulation\<close>

lemma RunSim_returns:
  assumes "conforming cb" "exchange_ok m" "exchange_ok g" "reachable cb s"
  shows "\<exists>r s'. RunSim nd cb m g s = Some (r, s') \<and> time_of s \<le> time_of s' \<and>
    time_of s' \<le> max (time_of s) (duration (ti_si s)) \<and>
    (r = Inr () \<longrightarrow> (want_kill s' \<or> duration (ti_si s) \<le> time_of s') \<and>
       Finish (want_kill s') (time_of s' - 1) \<in> set (s_db s'))"
proof -
  obtain r s1 where l: "run_loop (sim_step nd cb m g) s = Some (r, s1)" "ti_si s1 = ti_si s" "time_of s \<le> time_of s1"
    "time_of s1 \<le> max (time_of s) (duration (ti_si s))" "r = Inr () \<longrightarrow> want_kill s1 \<or> duration (ti_si s) \<le> time_of s1"
    using run_loop_ends[where step = "sim_step nd cb m g", OF step_ends[OF assms(1-3)] reachable_inv[OF assms(1,4)]] by blast
  show ?thesis
  proof (cases r)
    case (Inl e)
    then show ?thesis using l by (simp add: RunSim_def)
  next
    case (Inr u)
    let ?s = "record_row (Finish (want_kill s1) (time_of s1 - 1)) s1"
    obtain r2 s2 where h: "SimInit_Snapshot cb ?s = (r2, s2)" by (cases "SimInit_Snapshot cb ?s")
    have "rows_only ?s s2" using rows_only_Snapshot[OF rows_only_refl[of ?s], of cb] h by simp
    then have f: "time_of s2 = time_of s1" "want_kill s2 = want_kill s1" "set (s_db ?s) \<subseteq> set (s_db s2)"
      using core_time[of s2 ?s] by (auto simp: rows_only_def record_row_def)
    have "RunSim nd cb m g s = Some (r2, s2)" using l(1) Inr h by (simp add: RunSim_def)
    then show ?thesis using l(3-5) Inr f by (auto simp: record_row_def)
  qed
qed

text \<open>C9. A simulation ends. From every reachable state, with the two resource exchanges as the code runs
  them and whatever conforming archetypes and traders do, \<open>RunSim\<close> returns, normally or with an
  exception; the clock never runs past the duration. After a normal return either the duration is reached
  or the end was requested, and the \<open>Finish\<close> row says so with the last time step run; when an exception
  ends the run no such row is promised. The methods of archetypes and traders return themselves, and act
  on the simulation through the interface of the context.\<close>

theorem RunSim_ends:
  assumes "conforming cb" "conforming_traders mt" "conforming_traders pt" "reachable cb s"
  shows "\<exists>r s'. RunSim nd cb (exchange_phase menv mt i) (exchange_phase penv pt j) s = Some (r, s') \<and> time_of s \<le> time_of s' \<and>
    time_of s' \<le> max (time_of s) (duration (ti_si s)) \<and>
    (r = Inr () \<longrightarrow> (want_kill s' \<or> duration (ti_si s) \<le> time_of s') \<and>
       Finish (want_kill s') (time_of s' - 1) \<in> set (s_db s'))"
  by (rule RunSim_returns[OF assms(1) exchange_phase_ok[OF assms(2)] exchange_phase_ok[OF assms(3)] assms(4)])

text \<open>A facility that asks for one unit of a product each time step; nobody offers any.\<close>

definition asking :: "unit trader_cb" where
  "asking = Trader_default\<lparr>tc_requests := (\<lambda>p m. case Product_CreateUntracked 1 ''ore'' (mk_world m) of
     (target, w) \<Rightarrow> (case RequestPortfolio_new (m\<lparr>mk_sim := (mk_sim m)\<lparr>s_world := w\<rparr>\<rparr>) of
       (port, m1) \<Rightarrow> andThen (rp_AddRequest port target (Some p) ''ore'' 1 False None m1) (\<lambda>_ m2. ok [port] m2)))\<rparr>"

lemma asking_conforming: "conforming_traders asking"
proof -
  have w: "w_time (snd (Product_CreateUntracked 1 ''ore'' w)) = w_time w" for w
    by (simp add: Product_CreateUntracked_def Product_new_def new_resource_def DontTrack_def Let_def ok_def)
  have "acted (mk_sim m) (snd (tc_requests asking p m))" for p m
  proof -
    obtain r w' where r: "Product_CreateUntracked 1 ''ore'' (mk_world m) = (r, w')" by (cases "Product_CreateUntracked 1 ''ore'' (mk_world m)")
    have a: "acted (mk_sim m) (m\<lparr>mk_sim := (mk_sim m)\<lparr>s_world := w'\<rparr>\<rparr>)"
      unfolding acted_def using w[of "mk_world m"] r by (auto intro!: r_into_rtranclp api.matter)
    have n: "acted s (m\<lparr>mk_next := k\<rparr>) = acted s m" for s m k by (simp add: acted_def)
    show ?thesis using a r unfolding asking_def
      by (auto simp: RequestPortfolio_new_def rp_AddRequest_def Request_Create_def VerifyRequester_def Let_def n
          intro!: acted_andThen acted_deref split: option.splits)
  qed
  then have "(api True)\<^sup>*\<^sup>* (mk_sim m) (mk_sim (snd (tc_requests asking p m)))" for p m by (simp add: acted_def)
  then show ?thesis unfolding conforming_traders_def by (auto simp: asking_def Trader_default_def ok_def)
qed

definition asking_env :: exchange_env where
  "asking_env = \<lparr>env_fdist = (\<lambda>x y. 0), env_eps = 0, env_debug = True, env_solver = Context_solver\<rparr>"

theorem RunSim_ends_witness:
  "\<exists>r s'. RunSim demo_nd park_arch (exchange_phase asking_env Trader_default 0) (exchange_phase asking_env asking 0) park4 = Some (r, s') \<and>
     time_of s' \<le> 3"
proof -
  have d: "conforming_traders (Trader_default :: unit trader_cb)" by (simp add: conforming_traders_def Trader_default_def ok_def)
  show ?thesis
    using RunSim_ends [OF park_conforming d asking_conforming park4_reachable, of demo_nd asking_env 0 asking_env 0] by (auto simp: park4_facts(4,7))
qed

end
