(* ===== verification/Market_Graph.thy ===== *)
theory Market_Graph
  imports Market_Manager Greedy_Correct
begin

text \<open>
  What the graph operations of the translation do to the observations of a graph that the solver's
  correctness is stated with: the group and quantity of a node, its unit capacities and
  preferences, the nodes, capacities and target of a group.
\<close>

named_theorems graph_simps \<open>observations of a graph after an operation\<close>

lemma upd_node_obs [graph_simps]:
  "x_groups (upd_node n f g) = x_groups g" "x_next (upd_node n f g) = x_next g"
  "request_groups (upd_node n f g) = request_groups g" "supply_groups (upd_node n f g) = supply_groups g"
  "node_arc_map (upd_node n f g) = node_arc_map g" "matches (upd_node n f g) = matches g"
  "gnodes (upd_node n f g) = gnodes g" "gcaps (upd_node n f g) = gcaps g" "gtarget (upd_node n f g) = gtarget g"
  "x_nodes (upd_node n f g) m = (if m = n then map_option f (x_nodes g m) else x_nodes g m)"
  by (auto simp: upd_node_def gnodes_def gcaps_def gtarget_def fun_eq_iff)

lemma upd_group_obs [graph_simps]:
  "x_nodes (upd_group p f g) = x_nodes g" "x_next (upd_group p f g) = x_next g"
  "request_groups (upd_group p f g) = request_groups g" "supply_groups (upd_group p f g) = supply_groups g"
  "node_arc_map (upd_group p f g) = node_arc_map g" "matches (upd_group p f g) = matches g"
  "ngroup (upd_group p f g) = ngroup g" "nqty (upd_group p f g) = nqty g" "ucaps (upd_group p f g) = ucaps g"
  "npref (upd_group p f g) = npref g"
  "x_groups (upd_group p f g) q = (if q = p then map_option f (x_groups g q) else x_groups g q)"
  by (auto simp: upd_group_def ngroup_def nqty_def ucaps_def npref_def fun_eq_iff)

lemma AddGroup_obs [graph_simps]:
  "ngroup (AddRequestGroup p g) = ngroup g" "nqty (AddRequestGroup p g) = nqty g" "ucaps (AddRequestGroup p g) = ucaps g"
  "npref (AddRequestGroup p g) = npref g" "gnodes (AddRequestGroup p g) = gnodes g" "gcaps (AddRequestGroup p g) = gcaps g"
  "gtarget (AddRequestGroup p g) = gtarget g" "x_nodes (AddRequestGroup p g) = x_nodes g" "x_groups (AddRequestGroup p g) = x_groups g"
  "x_next (AddRequestGroup p g) = x_next g" "request_groups (AddRequestGroup p g) = request_groups g @ [p]"
  "supply_groups (AddRequestGroup p g) = supply_groups g" "node_arc_map (AddRequestGroup p g) = node_arc_map g"
  "matches (AddRequestGroup p g) = matches g"
  "ngroup (AddSupplyGroup p g) = ngroup g" "nqty (AddSupplyGroup p g) = nqty g" "ucaps (AddSupplyGroup p g) = ucaps g"
  "npref (AddSupplyGroup p g) = npref g" "gnodes (AddSupplyGroup p g) = gnodes g" "gcaps (AddSupplyGroup p g) = gcaps g"
  "gtarget (AddSupplyGroup p g) = gtarget g" "x_nodes (AddSupplyGroup p g) = x_nodes g" "x_groups (AddSupplyGroup p g) = x_groups g"
  "x_next (AddSupplyGroup p g) = x_next g" "request_groups (AddSupplyGroup p g) = request_groups g"
  "supply_groups (AddSupplyGroup p g) = supply_groups g @ [p]" "node_arc_map (AddSupplyGroup p g) = node_arc_map g"
  "matches (AddSupplyGroup p g) = matches g"
  by (auto simp: AddRequestGroup_def AddSupplyGroup_def ngroup_def nqty_def ucaps_def npref_def gnodes_def gcaps_def gtarget_def fun_eq_iff)

lemma AddArc_obs [graph_simps]:
  "ngroup (AddArc a g) = ngroup g" "nqty (AddArc a g) = nqty g" "ucaps (AddArc a g) = ucaps g" "npref (AddArc a g) = npref g"
  "gnodes (AddArc a g) = gnodes g" "gcaps (AddArc a g) = gcaps g" "gtarget (AddArc a g) = gtarget g"
  "x_nodes (AddArc a g) = x_nodes g" "x_groups (AddArc a g) = x_groups g" "x_next (AddArc a g) = x_next g"
  "request_groups (AddArc a g) = request_groups g" "supply_groups (AddArc a g) = supply_groups g" "matches (AddArc a g) = matches g"
  "node_arc_map (AddArc a g) = omap_push (a_vnode a) a (omap_push (a_unode a) a (node_arc_map g))"
  by (auto simp: AddArc_def Let_def ngroup_def nqty_def ucaps_def npref_def gnodes_def gcaps_def gtarget_def fun_eq_iff)

section \<open>A node created in a group\<close>

text \<open>The nodes with a group are exactly the members of that group, each listed once.\<close>

definition groups_inv :: "graph \<Rightarrow> bool" where
  "groups_inv g \<longleftrightarrow> (\<forall>p. distinct (gnodes g p) \<and> (\<forall>n. n \<in> set (gnodes g p) \<longleftrightarrow> ngroup g n = Some p)) \<and>
     (\<forall>n. x_nodes g n \<noteq> None \<longrightarrow> n < x_next g \<and> ngroup g n \<noteq> None) \<and> (\<forall>p. x_groups g p \<noteq> None \<longrightarrow> p < x_next g)"

definition fresh_node :: "double \<Rightarrow> bool \<Rightarrow> string \<Rightarrow> int \<Rightarrow> ptr \<Rightarrow> node" where
  "fresh_node q e c i p = \<lparr>n_group = Some p, unit_capacities = [], prefs = [], n_exclusive = e, n_commod = c,
     n_agent_id = i, n_qty = q\<rparr>"

text \<open>Both ways to add a node to a group give the same observations.\<close>

definition added_node :: "ptr \<Rightarrow> node \<Rightarrow> graph \<Rightarrow> graph \<Rightarrow> bool" where
  "added_node p nd g g' \<longleftrightarrow> x_nodes g' = (x_nodes g)(x_next g \<mapsto> nd) \<and> x_next g' = Suc (x_next g) \<and>
     gnodes g' = (gnodes g)(p := gnodes g p @ [x_next g]) \<and> gcaps g' = gcaps g \<and> gtarget g' = gtarget g \<and>
     (\<forall>q. x_groups g' q = None \<longleftrightarrow> x_groups g q = None) \<and>
     request_groups g' = request_groups g \<and> supply_groups g' = supply_groups g \<and> node_arc_map g' = node_arc_map g \<and>
     matches g' = matches g"

lemma AddExchangeNode_added:
  assumes "x_groups g p \<noteq> None"
  shows "added_node p (fresh_node q e c i p) g (AddExchangeNode p (x_next g) (snd (ExchangeNode_new q e c i g)))"
  using assms by (auto simp: added_node_def AddExchangeNode_def ExchangeNode_new_def Let_def upd_node_def upd_group_def fresh_node_def
    gnodes_def gcaps_def gtarget_def fun_eq_iff)

lemma AddExclNode_obs [graph_simps]:
  "x_nodes (AddExclNode p n g) = x_nodes g" "x_next (AddExclNode p n g) = x_next g"
  "request_groups (AddExclNode p n g) = request_groups g" "supply_groups (AddExclNode p n g) = supply_groups g"
  "node_arc_map (AddExclNode p n g) = node_arc_map g" "matches (AddExclNode p n g) = matches g"
  "gnodes (AddExclNode p n g) = gnodes g" "gcaps (AddExclNode p n g) = gcaps g" "gtarget (AddExclNode p n g) = gtarget g"
  "x_groups (AddExclNode p n g) q = None \<longleftrightarrow> x_groups g q = None"
  by (auto simp: AddExclNode_def upd_group_def gnodes_def gcaps_def gtarget_def fun_eq_iff split: option.splits)

lemma RequestGroup_added:
  assumes "x_groups g p \<noteq> None"
  shows "\<exists>g'. RequestGroup_AddExchangeNode p (x_next g) (snd (ExchangeNode_new q e c i g)) = (Inr (), g') \<and>
    added_node p (fresh_node q e c i p) g g'"
proof -
  let ?g = "AddExchangeNode p (x_next g) (snd (ExchangeNode_new q e c i g))"
  let ?h = "if e then AddExclNode p (x_next g) ?g else ?g"
  note a = AddExchangeNode_added[OF assms, of q e c i]
  have n: "x_nodes ?g (x_next g) = Some (fresh_node q e c i p)" using a by (simp add: added_node_def)
  have "RequestGroup_AddExchangeNode p (x_next g) (snd (ExchangeNode_new q e c i g)) = (Inr (), ?h)"
    using n by (simp add: RequestGroup_AddExchangeNode_def Let_def ok_def fresh_node_def)
  moreover have "added_node p (fresh_node q e c i p) g ?h"
    using a by (cases e) (simp_all only: if_True if_False, simp_all add: added_node_def graph_simps)
  ultimately show ?thesis by blast
qed

lemma added_node_obs:
  assumes "added_node p nd g g'"
  shows "ngroup g' n = (if n = x_next g then n_group nd else ngroup g n)" "nqty g' n = (if n = x_next g then n_qty nd else nqty g n)"
    "ucaps g' n a = (if n = x_next g then unit_caps_at nd a else ucaps g n a)"
    "npref g' n a = (if n = x_next g then pref_at nd a else npref g n a)"
  using assms by (simp_all add: added_node_def ngroup_def nqty_def ucaps_def npref_def)

lemma ngroup_bound: "groups_inv g \<Longrightarrow> ngroup g n = Some p \<Longrightarrow> n < x_next g"
  by (auto simp: groups_inv_def ngroup_def split: option.splits)

lemma ngroup_alive: "groups_inv g \<Longrightarrow> ngroup g n = Some p \<Longrightarrow> x_groups g p \<noteq> None"
  unfolding groups_inv_def gnodes_def by (metis empty_iff list.set(1) option.case_eq_if)

lemma added_node_inv:
  assumes a: "added_node p nd g g'" and p: "x_groups g p \<noteq> None" "n_group nd = Some p" and i: "groups_inv g"
  shows "groups_inv g'"
proof -
  have new: "x_next g \<notin> set (gnodes g q)" for q using i ngroup_bound[OF i] by (auto simp: groups_inv_def)
  have "ngroup g (x_next g) = None" using ngroup_bound[OF i, of "x_next g"] by (cases "ngroup g (x_next g)") auto
  then have "distinct (gnodes g' q) \<and> (\<forall>n. n \<in> set (gnodes g' q) \<longleftrightarrow> ngroup g' n = Some q)" for q
    using i new a p(2) by (auto simp: groups_inv_def added_node_obs[OF a] added_node_def)
  moreover have "n < x_next g' \<and> ngroup g' n \<noteq> None" if "x_nodes g' n \<noteq> None" for n
  proof (cases "n = x_next g")
    case True
    then show ?thesis using a p(2) by (simp add: added_node_obs[OF a]) (simp add: added_node_def)
  next
    case False
    then have "x_nodes g n \<noteq> None" "x_next g' = Suc (x_next g)" using that a by (auto simp: added_node_def)
    then show ?thesis using i False by (simp add: groups_inv_def added_node_obs[OF a] less_Suc_eq del: not_None_eq)
  qed
  moreover have "q < x_next g'" if "x_groups g' q \<noteq> None" for q
    using that a i unfolding added_node_def groups_inv_def by (metis less_Suc_eq)
  ultimately show ?thesis by (simp add: groups_inv_def)
qed

section \<open>A new group with its capacities\<close>

lemma Group_new_obs:
  assumes i: "groups_inv g" and h: "Group_new q g = (p, g')"
  shows "p = x_next g" "x_groups g' = (x_groups g)(p \<mapsto> \<lparr>g_nodes = [], g_excl_groups = [], g_capacities = [], g_qty = q\<rparr>)"
    "x_nodes g' = x_nodes g" "x_next g' = Suc (x_next g)" "request_groups g' = request_groups g" "supply_groups g' = supply_groups g"
    "node_arc_map g' = node_arc_map g" "matches g' = matches g" "groups_inv g'" "x_groups g p = None" "gnodes g' = gnodes g"
    "gcaps g' = gcaps g" "gtarget g' = (gtarget g)(p := q)"
proof -
  show e: "p = x_next g" "x_groups g' = (x_groups g)(p \<mapsto> \<lparr>g_nodes = [], g_excl_groups = [], g_capacities = [], g_qty = q\<rparr>)"
    "x_nodes g' = x_nodes g" "x_next g' = Suc (x_next g)" "request_groups g' = request_groups g" "supply_groups g' = supply_groups g"
    "node_arc_map g' = node_arc_map g" "matches g' = matches g"
    using h by (auto simp: Group_new_def Let_def)
  show n: "x_groups g p = None" using i e(1) by (auto simp: groups_inv_def)
  show o: "gnodes g' = gnodes g" "gcaps g' = gcaps g" "gtarget g' = (gtarget g)(p := q)"
    using e n by (auto simp: gnodes_def gcaps_def gtarget_def fun_eq_iff)
  have "ngroup g' = ngroup g" using e by (simp add: ngroup_def fun_eq_iff)
  then show "groups_inv g'" using i o e by (auto simp: groups_inv_def less_Suc_eq)
qed

lemma AddCapacity_obs [graph_simps]:
  "x_nodes (AddCapacity p c g) = x_nodes g" "x_next (AddCapacity p c g) = x_next g"
  "request_groups (AddCapacity p c g) = request_groups g" "supply_groups (AddCapacity p c g) = supply_groups g"
  "node_arc_map (AddCapacity p c g) = node_arc_map g" "matches (AddCapacity p c g) = matches g"
  "gnodes (AddCapacity p c g) = gnodes g" "gtarget (AddCapacity p c g) = gtarget g"
  "x_groups (AddCapacity p c g) q = None \<longleftrightarrow> x_groups g q = None"
  "ngroup (AddCapacity p c g) = ngroup g" "nqty (AddCapacity p c g) = nqty g" "ucaps (AddCapacity p c g) = ucaps g"
  "npref (AddCapacity p c g) = npref g"
  by (auto simp: AddCapacity_def graph_simps gnodes_def gtarget_def fun_eq_iff split: option.splits)

lemma AddCapacity_caps:
  "x_groups g p \<noteq> None \<Longrightarrow> gcaps (AddCapacity p c g) = (gcaps g)(p := gcaps g p @ [c])"
  by (auto simp: AddCapacity_def graph_simps gcaps_def fun_eq_iff)

text \<open>The observations a loop over capacities or exclusive groups leaves alone.\<close>

definition same_nodes :: "graph \<Rightarrow> graph \<Rightarrow> bool" where
  "same_nodes g g' \<longleftrightarrow> x_nodes g' = x_nodes g \<and> x_next g' = x_next g \<and> request_groups g' = request_groups g \<and>
     supply_groups g' = supply_groups g \<and> node_arc_map g' = node_arc_map g \<and> matches g' = matches g \<and> gnodes g' = gnodes g \<and>
     gtarget g' = gtarget g \<and> (\<forall>q. x_groups g' q = None \<longleftrightarrow> x_groups g q = None)"

lemma same_nodes_obs:
  assumes "same_nodes g g'"
  shows "ngroup g' = ngroup g" "nqty g' = nqty g" "ucaps g' = ucaps g" "npref g' = npref g" "groups_inv g' = groups_inv g"
proof -
  show o: "ngroup g' = ngroup g" "nqty g' = nqty g" "ucaps g' = ucaps g" "npref g' = npref g"
    using assms by (simp_all add: same_nodes_def ngroup_def nqty_def ucaps_def npref_def fun_eq_iff)
  show "groups_inv g' = groups_inv g" using assms o(1) by (simp add: groups_inv_def same_nodes_def)
qed

lemma add_capacities:
  assumes "x_groups g p \<noteq> None"
  shows "same_nodes g (foldl (\<lambda>g c. AddCapacity p (f c) g) g cs) \<and>
    gcaps (foldl (\<lambda>g c. AddCapacity p (f c) g) g cs) = (gcaps g)(p := gcaps g p @ map f cs)"
  using assms
proof (induction cs arbitrary: g)
  case (Cons c cs)
  have "x_groups (AddCapacity p (f c) g) p \<noteq> None" using Cons.prems by (simp add: graph_simps)
  from Cons.IH[OF this] show ?case
    by (auto simp: same_nodes_def graph_simps AddCapacity_caps[OF Cons.prems] fun_eq_iff)
qed (simp add: same_nodes_def)

lemma add_excl_groups:
  "same_nodes g (foldl (\<lambda>g (_, ns). AddExclGroup p ns g) g es) \<and>
    gcaps (foldl (\<lambda>g (_, ns). AddExclGroup p ns g) g es) = gcaps g"
proof (induction es arbitrary: g)
  case (Cons e es)
  have "same_nodes g (AddExclGroup p (snd e) g)" "gcaps (AddExclGroup p (snd e) g) = gcaps g"
    by (auto simp: same_nodes_def AddExclGroup_def graph_simps gnodes_def gtarget_def gcaps_def fun_eq_iff split: option.splits)
  then show ?case using Cons.IH[of "AddExclGroup p (snd e) g"] by (simp add: same_nodes_def case_prod_beta)
qed (simp add: same_nodes_def)

end
