(* ===== verification/Market_Translate.thy ===== *)
theory Market_Translate
  imports Market_Graph
begin

text \<open>
  The translation of an exchange to a graph, proved: what the graph says of every request, bid and
  portfolio, as invariants kept by the loops of \<open>Translate\<close>. The maps \<open>gp\<close> and \<open>gq\<close> of the
  invariants give the group each request and bid portfolio was translated to.
\<close>

section \<open>What a market must satisfy\<close>

definition has_manager :: "'u sim \<Rightarrow> ptr option \<Rightarrow> bool" where
  "has_manager s t \<longleftrightarrow> Option.bind (Option.bind t (managers s)) (s_agents s) \<noteq> None"

lemma has_managerD:
  assumes "has_manager (mk_sim s) t"
  obtains p m a where "t = Some p" "managers (mk_sim s) p = Some m" "s_agents (mk_sim s) m = Some a"
  using assms by (auto simp: has_manager_def Option.bind_eq_None_conv)

definition arc0 :: arc where
  "arc0 = \<lparr>a_unode = 0, a_vnode = 0, a_exclusive = False, a_excl_val = 0, a_pref = 0\<rparr>"

text \<open>
  A converter that only looks at the offer, as the default arguments of \<open>convert\<close> allow, and gives
  it a positive value; the value.
\<close>

definition conv_ok :: "converter \<Rightarrow> world \<Rightarrow> ptr \<Rightarrow> bool" where
  "conv_ok conv w offer \<longleftrightarrow> (\<exists>x > 0. \<forall>a xl. convert conv w offer a xl = Inr x)"

definition conv_val :: "converter \<Rightarrow> world \<Rightarrow> ptr \<Rightarrow> double" where
  "conv_val conv w offer = (case convert conv w offer arc0 xlation_new of Inl _ \<Rightarrow> 0 | Inr x \<Rightarrow> x)"

lemma conv_okD: "conv_ok conv w offer \<Longrightarrow> convert conv w offer a xl = Inr (conv_val conv w offer) \<and> 0 < conv_val conv w offer"
  by (auto simp: conv_ok_def conv_val_def)

lemma conv_ok_Trivial: "conv_ok TrivialConverter w p \<longleftrightarrow> (\<exists>r. w_res w p = Some r \<and> 0 < quantity r)"
  by (auto simp: conv_ok_def convert_def split: option.splits)

definition dbl :: "double \<Rightarrow> bool" where
  "dbl x \<longleftrightarrow> 0 < x \<and> x \<le> DBL_MAX"

definition req_ok :: "'u market \<Rightarrow> ptr \<Rightarrow> ptr \<Rightarrow> bool" where
  "req_ok s p r \<longleftrightarrow> (\<exists>rq q. mk_reqs s r = Some rq \<and> rq_portfolio rq = p \<and> mk_qty s (rq_target rq) = Some q \<and> 0 \<le> q \<and>
     q \<le> DBL_MAX \<and> has_manager (mk_sim s) (rq_requester rq))"

definition rp_ok :: "'u market \<Rightarrow> ptr \<Rightarrow> req_portfolio \<Rightarrow> bool" where
  "rp_ok s p rp \<longleftrightarrow> dbl (rp_qty rp) \<and> distinct (rp_requests rp) \<and>
     (\<forall>r \<in> set (rp_requests rp). req_ok s p r \<and> (\<exists>k > 0. map_of (mass_coeffs rp) r = Some k)) \<and>
     (\<forall>c \<in> set (rp_constraints rp). dbl (cc_capacity c) \<and> cc_id c < next_constraint_id s)"

definition bid_pref :: "'u market \<Rightarrow> ptr \<Rightarrow> double option" where
  "bid_pref s b = Option.bind (mk_bids s b) (\<lambda>bd. Option.bind (mk_reqs s (bd_request bd)) (\<lambda>rq.
     map_option (\<lambda>m. omap_sub 0 (omap_sub [] m (bd_request bd)) b) (map_of (trader_prefs (mk_ctx s)) (rq_requester rq))))"

definition bid_ok :: "'u market \<Rightarrow> ptr \<Rightarrow> ptr \<Rightarrow> bool" where
  "bid_ok s p b \<longleftrightarrow> (\<exists>bd rq rp q x. mk_bids s b = Some bd \<and> bd_portfolio bd = p \<and> mk_reqs s (bd_request bd) = Some rq \<and>
     rq_portfolio rq \<in> set (ec_requests (mk_ctx s)) \<and> mk_rps s (rq_portfolio rq) = Some rp \<and>
     bd_request bd \<in> set (rp_requests rp) \<and> mk_qty s (bd_offer bd) = Some q \<and> dbl q \<and> has_manager (mk_sim s) (bd_bidder bd) \<and>
     bid_pref s b = Some x \<and> x \<noteq> 0 \<and> (\<forall>c \<in> set (rp_constraints rp). conv_ok (cc_converter c) (mk_world s) (bd_offer bd)))"

definition bp_ok :: "'u market \<Rightarrow> ptr \<Rightarrow> bid_portfolio \<Rightarrow> bool" where
  "bp_ok s p bp \<longleftrightarrow> distinct (bp_bids bp) \<and> (\<forall>c \<in> set (bp_constraints bp). dbl (cc_capacity c)) \<and>
     (\<forall>b \<in> set (bp_bids bp). bid_ok s p b \<and>
        (\<forall>c \<in> set (bp_constraints bp). \<forall>bd. mk_bids s b = Some bd \<longrightarrow> conv_ok (cc_converter c) (mk_world s) (bd_offer bd)))"

definition market_ok :: "'u market \<Rightarrow> bool" where
  "market_ok s \<longleftrightarrow> distinct (ec_requests (mk_ctx s)) \<and> distinct (ec_bids (mk_ctx s)) \<and> mk_xl s = xlation_new \<and>
     (\<forall>p \<in> set (ec_requests (mk_ctx s)). \<exists>rp. mk_rps s p = Some rp \<and> rp_ok s p rp) \<and>
     (\<forall>p \<in> set (ec_bids (mk_ctx s)). \<exists>bp. mk_bps s p = Some bp \<and> bp_ok s p bp)"

section \<open>The invariants\<close>

definition links :: "xlation \<Rightarrow> bool" where
  "links xl \<longleftrightarrow> (\<forall>r n. map_of (request_to_node xl) r = Some n \<longleftrightarrow> map_of (node_to_request xl) n = Some r) \<and>
     (\<forall>b n. map_of (bid_to_node xl) b = Some n \<longleftrightarrow> map_of (node_to_bid xl) n = Some b)"

definition offer_qty :: "'u market \<Rightarrow> ptr \<Rightarrow> double option" where
  "offer_qty s b = Option.bind (mk_bids s b) (\<lambda>bd. mk_qty s (bd_offer bd))"

definition side_inv :: "(ptr \<rightharpoonup> ptr) \<Rightarrow> (ptr \<rightharpoonup> ptr) \<Rightarrow> (ptr \<rightharpoonup> double) \<Rightarrow> (ptr, ptr) omap \<Rightarrow> (ptr, ptr) omap \<Rightarrow> graph \<Rightarrow> bool" where
  "side_inv gp port qty fwd back g \<longleftrightarrow>
     (\<forall>r n. map_of fwd r = Some n \<longrightarrow> (\<exists>G. Option.bind (port r) gp = Some G \<and> ngroup g n = Some G) \<and> qty r = Some (nqty g n)) \<and>
     (\<forall>p G n. gp p = Some G \<longrightarrow> ngroup g n = Some G \<longrightarrow> map_of back n \<noteq> None)"

abbreviation req_port :: "'u market \<Rightarrow> ptr \<Rightarrow> ptr option" where
  "req_port s r \<equiv> map_option rq_portfolio (mk_reqs s r)"

abbreviation bid_port :: "'u market \<Rightarrow> ptr \<Rightarrow> ptr option" where
  "bid_port s b \<equiv> map_option bd_portfolio (mk_bids s b)"

definition groups_ok :: "(ptr \<rightharpoonup> ptr) \<Rightarrow> (ptr \<rightharpoonup> ptr) \<Rightarrow> graph \<Rightarrow> bool" where
  "groups_ok gp gq g \<longleftrightarrow> groups_inv g \<and> ran gp \<inter> ran gq = {} \<and> inj_on gp (dom gp) \<and> inj_on gq (dom gq) \<and>
     (\<forall>G. x_groups g G \<noteq> None \<longleftrightarrow> G \<in> ran gp \<union> ran gq) \<and> (\<forall>n. 0 \<le> nqty g n \<and> nqty g n \<le> DBL_MAX) \<and> matches g = []"

definition xl_inv :: "(ptr \<rightharpoonup> ptr) \<Rightarrow> (ptr \<rightharpoonup> ptr) \<Rightarrow> 'u market \<Rightarrow> bool" where
  "xl_inv gp gq s \<longleftrightarrow> groups_ok gp gq (mk_graph s) \<and> links (mk_xl s) \<and>
     side_inv gp (req_port s) (target_qty s) (request_to_node (mk_xl s)) (node_to_request (mk_xl s)) (mk_graph s) \<and>
     side_inv gq (bid_port s) (offer_qty s) (bid_to_node (mk_xl s)) (node_to_bid (mk_xl s)) (mk_graph s)"

text \<open>What the loops over requests and bids keep of the market and of the graph.\<close>

definition fixed :: "'u market \<Rightarrow> _" where
  "fixed s = (mk_sim s, mk_reqs s, mk_rps s, mk_bids s, mk_bps s, mk_next s, next_constraint_id s, mk_ctx s, mk_traders s)"

definition grown :: "'u market \<Rightarrow> 'u market \<Rightarrow> bool" where
  "grown s s' \<longleftrightarrow> fixed s' = fixed s \<and>
     request_groups (mk_graph s') = request_groups (mk_graph s) \<and> supply_groups (mk_graph s') = supply_groups (mk_graph s) \<and>
     node_arc_map (mk_graph s') = node_arc_map (mk_graph s) \<and> gcaps (mk_graph s') = gcaps (mk_graph s) \<and>
     gtarget (mk_graph s') = gtarget (mk_graph s) \<and> x_nodes (mk_graph s) \<subseteq>\<^sub>m x_nodes (mk_graph s') \<and>
     (\<forall>n nd. x_nodes (mk_graph s') n = Some nd \<longrightarrow> x_nodes (mk_graph s) n = Some nd \<or> unit_capacities nd = []) \<and>
     (\<forall>G. x_groups (mk_graph s') G = None \<longleftrightarrow> x_groups (mk_graph s) G = None)"

lemma grown_refl: "grown s s"
  by (simp add: grown_def map_le_def)

lemma grown_trans: "grown s s1 \<Longrightarrow> grown s1 s2 \<Longrightarrow> grown s s2"
  unfolding grown_def by (elim conjE, intro conjI) (simp_all, rule map_le_trans, assumption+, meson)

lemma fixedD:
  assumes "fixed s' = fixed s"
  shows "mk_sim s' = mk_sim s" "mk_reqs s' = mk_reqs s" "mk_rps s' = mk_rps s" "mk_bids s' = mk_bids s" "mk_bps s' = mk_bps s"
    "mk_ctx s' = mk_ctx s" "next_constraint_id s' = next_constraint_id s" "target_qty s' = target_qty s" "offer_qty s' = offer_qty s"
    "bid_pref s' = bid_pref s"
  using assms by (auto simp: fixed_def target_qty_def offer_qty_def bid_pref_def fun_eq_iff)


lemma market_views [simp]:
  "target_qty (s\<lparr>mk_graph := g\<rparr>) = target_qty s" "offer_qty (s\<lparr>mk_graph := g\<rparr>) = offer_qty s" "bid_pref (s\<lparr>mk_graph := g\<rparr>) = bid_pref s"
  "target_qty (s\<lparr>mk_xl := x\<rparr>) = target_qty s" "offer_qty (s\<lparr>mk_xl := x\<rparr>) = offer_qty s" "bid_pref (s\<lparr>mk_xl := x\<rparr>) = bid_pref s"
  "req_ok (s\<lparr>mk_graph := g\<rparr>) = req_ok s" "req_ok (s\<lparr>mk_xl := x\<rparr>) = req_ok s"
  by (auto simp: target_qty_def offer_qty_def bid_pref_def req_ok_def fun_eq_iff)

section \<open>Adding a node\<close>

lemma side_invE:
  assumes "side_inv gp port qty fwd back g" "map_of fwd r = Some n"
  obtains p G where "port r = Some p" "gp p = Some G" "ngroup g n = Some G" "qty r = Some (nqty g n)"
  using assms by (auto simp: side_inv_def bind_eq_Some_conv) (metis)

lemma side_inv_bound:
  "groups_inv g \<Longrightarrow> side_inv gp port qty fwd back g \<Longrightarrow> map_of fwd r = Some n \<Longrightarrow> n < x_next g"
  unfolding side_inv_def by (metis ngroup_bound)

lemma side_inv_other:
  assumes a: "added_node G nd g g'" "n_group nd = Some G" and i: "groups_inv g" "side_inv gp port qty fwd back g" and G: "G \<notin> ran gp"
  shows "side_inv gp port qty fwd back g'"
proof -
  have "(\<exists>H. Option.bind (port r) gp = Some H \<and> ngroup g' n = Some H) \<and> qty r = Some (nqty g' n)" if m: "map_of fwd r = Some n" for r n
    using side_inv_bound[OF i m] i(2) m by (simp add: side_inv_def added_node_obs[OF a(1)])
  moreover have "ngroup g n = Some H" if "gp p = Some H" "ngroup g' n = Some H" for p H n
    using that G a(2) by (auto simp: added_node_obs[OF a(1)] ran_def split: if_splits)
  ultimately show ?thesis using i(2) unfolding side_inv_def by blast
qed

lemma side_inv_add:
  assumes a: "added_node G nd g g'" "n_group nd = Some G" and i: "groups_inv g" "side_inv gp port qty fwd back g"
    and r: "Option.bind (port r) gp = Some G" "qty r = Some (n_qty nd)"
  shows "side_inv gp port qty (omap_put r (x_next g) fwd) (omap_put (x_next g) r back) g'"
proof -
  have old: "n \<noteq> x_next g" if "map_of fwd r' = Some n" for r' n using side_inv_bound[OF i that] by simp
  have "(\<exists>H. Option.bind (port r') gp = Some H \<and> ngroup g' n = Some H) \<and> qty r' = Some (nqty g' n)"
    if "map_of (omap_put r (x_next g) fwd) r' = Some n" for r' n
  proof (cases "r' = r")
    case True
    then have "n = x_next g" using that by simp
    then show ?thesis using True r a(2) by (simp add: added_node_obs[OF a(1)])
  next
    case False
    then have "map_of fwd r' = Some n" using that by simp
    then show ?thesis using i(2) old by (simp add: side_inv_def added_node_obs[OF a(1)])
  qed
  moreover have "map_of (omap_put (x_next g) r back) n \<noteq> None" if "gp p = Some H" "ngroup g' n = Some H" for p H n
    using that i(2) by (auto simp: side_inv_def added_node_obs[OF a(1)] split: if_splits)
  ultimately show ?thesis unfolding side_inv_def by blast
qed

lemma groups_ok_add:
  assumes "added_node G nd g g'" "n_group nd = Some G" "groups_ok gp gq g" "G \<in> ran gp \<union> ran gq" "0 \<le> n_qty nd" "n_qty nd \<le> DBL_MAX"
  shows "groups_ok gp gq g'"
proof -
  have "x_groups g G \<noteq> None" using assms(3,4) unfolding groups_ok_def by blast
  then have "groups_inv g'" using added_node_inv[OF assms(1)] assms(2,3) by (simp add: groups_ok_def)
  moreover have "\<forall>p. x_groups g' p = None \<longleftrightarrow> x_groups g p = None" "matches g' = matches g" using assms(1) by (simp_all add: added_node_def)
  ultimately show ?thesis using assms(2-) by (simp add: groups_ok_def added_node_obs[OF assms(1)] del: not_None_eq)
qed

definition matched :: "(ptr, ptr) omap \<Rightarrow> (ptr, ptr) omap \<Rightarrow> bool" where
  "matched fwd back \<longleftrightarrow> (\<forall>r n. map_of fwd r = Some n \<longleftrightarrow> map_of back n = Some r)"

lemma links_matched: "links xl \<longleftrightarrow> matched (request_to_node xl) (node_to_request xl) \<and> matched (bid_to_node xl) (node_to_bid xl)"
  by (simp add: links_def matched_def)

lemma matched_add:
  assumes "matched fwd back" "map_of fwd r = None" "\<And>r n. map_of fwd r = Some n \<Longrightarrow> n < k"
  shows "matched (omap_put r k fwd) (omap_put k r back)"
  using assms unfolding matched_def map_of_omap_put
  by (metis (mono_tags, lifting) fun_upd_apply less_irrefl option.distinct(1) option.inject)

lemma added_grown:
  assumes "added_node G (fresh_node q e c i G) (mk_graph s) g'" "groups_inv (mk_graph s)"
  shows "grown s (s\<lparr>mk_graph := g', mk_xl := xl\<rparr>)"
proof -
  have "x_nodes (mk_graph s) (x_next (mk_graph s)) = None" using assms(2) by (auto simp: groups_inv_def)
  then show ?thesis using assms(1) by (auto simp: grown_def fixed_def added_node_def map_le_def fresh_node_def)
qed

lemma xl_invD:
  assumes "xl_inv gp gq s"
  shows "groups_ok gp gq (mk_graph s)" "groups_inv (mk_graph s)" "matched (request_to_node (mk_xl s)) (node_to_request (mk_xl s))"
    "matched (bid_to_node (mk_xl s)) (node_to_bid (mk_xl s))" "ran gp \<inter> ran gq = {}"
    "side_inv gp (req_port s) (target_qty s) (request_to_node (mk_xl s)) (node_to_request (mk_xl s)) (mk_graph s)"
    "side_inv gq (bid_port s) (offer_qty s) (bid_to_node (mk_xl s)) (node_to_bid (mk_xl s)) (mk_graph s)"
  using assms by (simp_all add: xl_inv_def groups_ok_def links_matched)

lemma translate_request_step:
  assumes i: "xl_inv gp gq s" and r: "mk_reqs s r = Some rq" "gp (rq_portfolio rq) = Some G" "req_ok s (rq_portfolio rq) r"
    and new: "map_of (request_to_node (mk_xl s)) r = None"
  shows "\<exists>s' n. translate_request G r s = (Inr (), s') \<and> grown s s' \<and> xl_inv gp gq s' \<and> mk_xl s' = xl_AddRequest r n (mk_xl s)"
proof -
  note d = xl_invD[OF i]
  obtain q where q: "mk_qty s (rq_target rq) = Some q" "0 \<le> q" "q \<le> DBL_MAX" and m: "has_manager (mk_sim s) (rq_requester rq)"
    using r(1,3) by (auto simp: req_ok_def)
  obtain t mp a where ma: "rq_requester rq = Some t" "managers (mk_sim s) t = Some mp" "s_agents (mk_sim s) mp = Some a"
    by (rule has_managerD[OF m])
  let ?g = "mk_graph s" let ?n = "x_next ?g" let ?nd = "fresh_node q (rq_exclusive rq) (rq_commodity rq) (ag_id a) G"
  have G: "G \<in> ran gp" "x_groups ?g G \<noteq> None" using r(2) d(1) by (auto simp: ran_def groups_ok_def)
  obtain g' where g': "RequestGroup_AddExchangeNode G ?n (snd (ExchangeNode_new q (rq_exclusive rq) (rq_commodity rq) (ag_id a) ?g)) = (Inr (), g')"
    "added_node G ?nd ?g g'" using RequestGroup_added[OF G(2)] by blast
  define s' where "s' = s\<lparr>mk_graph := g', mk_xl := xl_AddRequest r ?n (mk_xl s)\<rparr>"
  have n: "fst (ExchangeNode_new q (rq_exclusive rq) (rq_commodity rq) (ag_id a) ?g) = ?n" by (simp add: ExchangeNode_new_def Let_def)
  have "translate_request G r s = (Inr (), s')"
    using r(1) q(1) g'(1) n by (auto simp: translate_request_def manager_def ma s'_def ok_def split: prod.split)
  moreover have "grown s s'" unfolding s'_def by (rule added_grown[OF g'(2) d(2)])
  moreover have "xl_inv gp gq s'"
  proof -
    have nd: "n_group ?nd = Some G" "n_qty ?nd = q" by (simp_all add: fresh_node_def)
    have "groups_ok gp gq g'" using groups_ok_add[OF g'(2) nd(1) d(1)] G(1) q by (simp add: nd)
    moreover have "matched (omap_put r ?n (request_to_node (mk_xl s))) (omap_put ?n r (node_to_request (mk_xl s)))"
      by (rule matched_add[OF d(3) new]) (rule side_inv_bound[OF d(2,6)])
    moreover have "side_inv gp (req_port s) (target_qty s) (omap_put r ?n (request_to_node (mk_xl s)))
        (omap_put ?n r (node_to_request (mk_xl s))) g'"
      by (rule side_inv_add[OF g'(2) nd(1) d(2,6)]) (use r q in \<open>simp_all add: target_qty_def nd(2)\<close>)
    moreover have "side_inv gq (bid_port s) (offer_qty s) (bid_to_node (mk_xl s)) (node_to_bid (mk_xl s)) g'"
      by (rule side_inv_other[OF g'(2) nd(1) d(2,7)]) (use G(1) d(5) in blast)
    ultimately show ?thesis using d(4)
      by (simp add: xl_inv_def s'_def links_matched xl_AddRequest_def)
  qed
  moreover have "mk_xl s' = xl_AddRequest r ?n (mk_xl s)" by (simp add: s'_def)
  ultimately show ?thesis by blast
qed

text \<open>What the loops add to the translation maps.\<close>

definition extended :: "(ptr, ptr) omap \<Rightarrow> ptr set \<Rightarrow> (ptr, ptr) omap \<Rightarrow> bool" where
  "extended m X m' \<longleftrightarrow> map_of m \<subseteq>\<^sub>m map_of m' \<and> dom (map_of m') = dom (map_of m) \<union> X"

lemma extended_refl: "extended m {} m"
  by (simp add: extended_def)

lemma extended_put: "map_of m k = None \<Longrightarrow> extended (omap_put k v m) X m' \<Longrightarrow> extended m (insert k X) m'"
  by (auto simp: extended_def map_le_def dom_def)

lemma translate_requests:
  assumes "xl_inv gp gq s" "distinct rs" "\<forall>r \<in> set rs. map_of (request_to_node (mk_xl s)) r = None"
    and "\<forall>r \<in> set rs. \<exists>rq. mk_reqs s r = Some rq \<and> gp (rq_portfolio rq) = Some G \<and> req_ok s (rq_portfolio rq) r"
  shows "\<exists>s'. foreach (translate_request G) rs s = (Inr (), s') \<and> grown s s' \<and> xl_inv gp gq s' \<and>
    extended (request_to_node (mk_xl s)) (set rs) (request_to_node (mk_xl s')) \<and> bid_to_node (mk_xl s') = bid_to_node (mk_xl s)"
  using assms
proof (induction rs arbitrary: s)
  case Nil
  then show ?case by (simp add: ok_def grown_refl extended_refl)
next
  case (Cons r rs)
  obtain rq where rq: "mk_reqs s r = Some rq" "gp (rq_portfolio rq) = Some G" "req_ok s (rq_portfolio rq) r" using Cons.prems(4) by auto
  have new: "map_of (request_to_node (mk_xl s)) r = None" using Cons.prems(3) by simp
  obtain s1 n where s1: "translate_request G r s = (Inr (), s1)" "grown s s1" "xl_inv gp gq s1" "mk_xl s1 = xl_AddRequest r n (mk_xl s)"
    using translate_request_step[OF Cons.prems(1) rq new] by blast
  have f: "fixed s1 = fixed s" using s1(2) by (simp add: grown_def)
  have "\<forall>r' \<in> set rs. map_of (request_to_node (mk_xl s1)) r' = None" using Cons.prems(2,3) by (auto simp: s1(4) xl_AddRequest_def)
  moreover have "\<forall>r' \<in> set rs. \<exists>rq. mk_reqs s1 r' = Some rq \<and> gp (rq_portfolio rq) = Some G \<and> req_ok s1 (rq_portfolio rq) r'"
    using Cons.prems(4) by (simp add: fixedD[OF f] req_ok_def)
  moreover have "distinct rs" using Cons.prems(2) by simp
  ultimately obtain s' where s': "foreach (translate_request G) rs s1 = (Inr (), s')" "grown s1 s'" "xl_inv gp gq s'"
    "extended (request_to_node (mk_xl s1)) (set rs) (request_to_node (mk_xl s'))" "bid_to_node (mk_xl s') = bid_to_node (mk_xl s1)"
    using Cons.IH[OF s1(3)] by blast
  show ?case
  proof (intro exI conjI)
    show "foreach (translate_request G) (r # rs) s = (Inr (), s')" using s1(1) s'(1) by simp
    show "grown s s'" by (rule grown_trans[OF s1(2) s'(2)])
    show "extended (request_to_node (mk_xl s)) (set (r # rs)) (request_to_node (mk_xl s'))"
      using extended_put[OF new] s'(4) by (simp add: s1(4) xl_AddRequest_def)
    show "bid_to_node (mk_xl s') = bid_to_node (mk_xl s)" using s'(5) by (simp add: s1(4) xl_AddRequest_def)
  qed (rule s'(3))
qed

lemma translate_bid_step:
  assumes i: "xl_inv gp gq s" and b: "mk_bids s b = Some bd" "gq (bd_portfolio bd) = Some G" "mk_reqs s (bd_request bd) = Some rq"
    "mk_qty s (bd_offer bd) = Some q" "dbl q" "has_manager (mk_sim s) (bd_bidder bd)"
    and new: "map_of (bid_to_node (mk_xl s)) b = None"
  shows "\<exists>s' n ex'. translate_bid G b ex s = (Inr ex', s') \<and> grown s s' \<and> xl_inv gp gq s' \<and> mk_xl s' = xl_AddBid b n (mk_xl s)"
proof -
  note d = xl_invD[OF i]
  obtain t mp a where ma: "bd_bidder bd = Some t" "managers (mk_sim s) t = Some mp" "s_agents (mk_sim s) mp = Some a"
    by (rule has_managerD[OF b(6)])
  let ?g = "mk_graph s" let ?n = "x_next ?g" let ?nd = "fresh_node q (bd_exclusive bd) (rq_commodity rq) (ag_id a) G"
  have G: "G \<in> ran gq" "x_groups ?g G \<noteq> None" using b(2) d(1) by (auto simp: ran_def groups_ok_def)
  define h where "h = snd (ExchangeNode_new q (bd_exclusive bd) (rq_commodity rq) (ag_id a) ?g)"
  define g' where "g' = AddExchangeNode G ?n h"
  have g': "added_node G ?nd ?g g'" unfolding g'_def h_def by (rule AddExchangeNode_added[OF G(2)])
  define s' where "s' = s\<lparr>mk_graph := g', mk_xl := xl_AddBid b ?n (mk_xl s)\<rparr>"
  have n: "ExchangeNode_new q (bd_exclusive bd) (rq_commodity rq) (ag_id a) ?g = (?n, h)" by (simp add: h_def ExchangeNode_new_def Let_def)
  have "translate_bid G b ex s = (Inr (if bd_exclusive bd then omap_push (bd_offer bd) ?n ex else ex), s')"
    by (simp add: translate_bid_def manager_def ma b(1,3,4) n s'_def g'_def ok_def)
  moreover have "grown s s'" unfolding s'_def by (rule added_grown[OF g' d(2)])
  moreover have "xl_inv gp gq s'"
  proof -
    have nd: "n_group ?nd = Some G" "n_qty ?nd = q" by (simp_all add: fresh_node_def)
    have "groups_ok gp gq g'" using groups_ok_add[OF g' nd(1) d(1)] G(1) b(5) by (simp add: nd dbl_def)
    moreover have "matched (omap_put b ?n (bid_to_node (mk_xl s))) (omap_put ?n b (node_to_bid (mk_xl s)))"
      by (rule matched_add[OF d(4) new]) (rule side_inv_bound[OF d(2,7)])
    moreover have "side_inv gq (bid_port s) (offer_qty s) (omap_put b ?n (bid_to_node (mk_xl s))) (omap_put ?n b (node_to_bid (mk_xl s))) g'"
      by (rule side_inv_add[OF g' nd(1) d(2,7)]) (use b in \<open>simp_all add: offer_qty_def nd(2)\<close>)
    moreover have "side_inv gp (req_port s) (target_qty s) (request_to_node (mk_xl s)) (node_to_request (mk_xl s)) g'"
      by (rule side_inv_other[OF g' nd(1) d(2,6)]) (use G(1) d(5) in blast)
    ultimately show ?thesis using d(3)
      by (simp add: xl_inv_def s'_def links_matched xl_AddBid_def)
  qed
  moreover have "mk_xl s' = xl_AddBid b ?n (mk_xl s)" by (simp add: s'_def)
  ultimately show ?thesis by blast
qed

lemma translate_bids_ok:
  assumes "xl_inv gp gq s" "distinct bs" "\<forall>b \<in> set bs. map_of (bid_to_node (mk_xl s)) b = None"
    and "\<forall>b \<in> set bs. \<exists>bd rq q. mk_bids s b = Some bd \<and> gq (bd_portfolio bd) = Some G \<and> mk_reqs s (bd_request bd) = Some rq \<and>
      mk_qty s (bd_offer bd) = Some q \<and> dbl q \<and> has_manager (mk_sim s) (bd_bidder bd)"
  shows "\<exists>s' ex'. translate_bids G bs ex s = (Inr ex', s') \<and> grown s s' \<and> xl_inv gp gq s' \<and>
    extended (bid_to_node (mk_xl s)) (set bs) (bid_to_node (mk_xl s')) \<and> request_to_node (mk_xl s') = request_to_node (mk_xl s)"
  using assms
proof (induction bs arbitrary: s ex)
  case Nil
  then show ?case by (simp add: ok_def grown_refl extended_refl)
next
  case (Cons b bs)
  obtain bd rq q where bd: "mk_bids s b = Some bd" "gq (bd_portfolio bd) = Some G" "mk_reqs s (bd_request bd) = Some rq"
    "mk_qty s (bd_offer bd) = Some q" "dbl q" "has_manager (mk_sim s) (bd_bidder bd)" using Cons.prems(4) by (meson list.set_intros(1))
  have new: "map_of (bid_to_node (mk_xl s)) b = None" using Cons.prems(3) by simp
  obtain s1 n ex1 where s1: "translate_bid G b ex s = (Inr ex1, s1)" "grown s s1" "xl_inv gp gq s1" "mk_xl s1 = xl_AddBid b n (mk_xl s)"
    using translate_bid_step[OF Cons.prems(1) bd new] by blast
  have f: "fixed s1 = fixed s" using s1(2) by (simp add: grown_def)
  have "\<forall>b' \<in> set bs. map_of (bid_to_node (mk_xl s1)) b' = None" using Cons.prems(2,3) by (auto simp: s1(4) xl_AddBid_def)
  moreover have "\<forall>b \<in> set bs. \<exists>bd rq q. mk_bids s1 b = Some bd \<and> gq (bd_portfolio bd) = Some G \<and> mk_reqs s1 (bd_request bd) = Some rq \<and>
      mk_qty s1 (bd_offer bd) = Some q \<and> dbl q \<and> has_manager (mk_sim s1) (bd_bidder bd)"
    using Cons.prems(4) unfolding fixedD[OF f] by (meson list.set_intros(2))
  moreover have "distinct bs" using Cons.prems(2) by simp
  ultimately obtain s' ex' where s': "translate_bids G bs ex1 s1 = (Inr ex', s')" "grown s1 s'" "xl_inv gp gq s'"
    "extended (bid_to_node (mk_xl s1)) (set bs) (bid_to_node (mk_xl s'))" "request_to_node (mk_xl s') = request_to_node (mk_xl s1)"
    using Cons.IH[OF s1(3)] by blast
  show ?case
  proof (intro exI conjI)
    show "translate_bids G (b # bs) ex s = (Inr ex', s')" using s1(1) s'(1) by simp
    show "grown s s'" by (rule grown_trans[OF s1(2) s'(2)])
    show "extended (bid_to_node (mk_xl s)) (set (b # bs)) (bid_to_node (mk_xl s'))"
      using extended_put[OF new] s'(4) by (simp add: s1(4) xl_AddBid_def)
    show "request_to_node (mk_xl s') = request_to_node (mk_xl s)" using s'(5) by (simp add: s1(4) xl_AddBid_def)
  qed (rule s'(3))
qed

section \<open>Translating a request portfolio\<close>

lemma constraints_insert_last:
  assumes "\<forall>e \<in> set cs. cc_id e < cc_id c"
  shows "constraints_insert c cs s = ok (cs @ [c\<lparr>cc_id := next_constraint_id s\<rparr>]) (s\<lparr>next_constraint_id := next_constraint_id s + 1\<rparr>)"
proof -
  have e: "takeWhile (\<lambda>e. cc_id e < cc_id c) cs = cs" "dropWhile (\<lambda>e. cc_id e < cc_id c) cs = []" using assms by simp_all
  show ?thesis unfolding constraints_insert_def Let_def e by (simp add: CapacityConstraint_copy_def)
qed

text \<open>The portfolio with the default constraint of the translator.\<close>

definition defaulted :: "req_portfolio \<Rightarrow> constraint \<Rightarrow> req_portfolio" where
  "defaulted rp c = rp\<lparr>rp_constraints := rp_constraints rp @ [c]\<rparr>"

definition is_default :: "req_portfolio \<Rightarrow> constraint \<Rightarrow> bool" where
  "is_default rp c \<longleftrightarrow> cc_converter c = qty_converter rp \<and> cc_capacity c = rp_qty rp"

definition static :: "'u market \<Rightarrow> _" where
  "static s = (mk_sim s, mk_reqs s, mk_bids s, mk_bps s, ec_requests (mk_ctx s), ec_bids (mk_ctx s), bid_pref s)"

lemma staticD:
  assumes "static s' = static s"
  shows "mk_sim s' = mk_sim s" "mk_reqs s' = mk_reqs s" "mk_bids s' = mk_bids s" "mk_bps s' = mk_bps s"
    "ec_requests (mk_ctx s') = ec_requests (mk_ctx s)" "ec_bids (mk_ctx s') = ec_bids (mk_ctx s)" "bid_pref s' = bid_pref s"
    "target_qty s' = target_qty s" "offer_qty s' = offer_qty s" "req_ok s' = req_ok s"
  using assms by (auto simp: static_def target_qty_def offer_qty_def req_ok_def fun_eq_iff)

lemma fixed_static: "fixed s' = fixed s \<Longrightarrow> static s' = static s"
  by (auto simp: fixed_def static_def bid_pref_def fun_eq_iff)

lemma default_constraint:
  assumes p: "mk_rps s p = Some rp" and ok: "rp_ok s p rp"
  shows "\<exists>c c' s'. CapacityConstraint_new (rp_qty rp) (qty_converter rp) s = (Inr c, s\<lparr>next_constraint_id := next_constraint_id s + 1\<rparr>) \<and>
    rp_AddConstraint p c (s\<lparr>next_constraint_id := next_constraint_id s + 1\<rparr>) = (Inr (), s') \<and> is_default rp c' \<and>
    s' = s\<lparr>mk_rps := (mk_rps s)(p \<mapsto> defaulted rp c'), next_constraint_id := next_constraint_id s + 2\<rparr>"
proof -
  let ?i = "next_constraint_id s"
  let ?c = "\<lparr>cc_capacity = rp_qty rp, cc_converter = qty_converter rp, cc_id = ?i\<rparr>"
  have ids: "\<forall>e \<in> set (rp_constraints rp). cc_id e < cc_id ?c" "0 < rp_qty rp" using ok by (auto simp: rp_ok_def dbl_def)
  have "CapacityConstraint_new (rp_qty rp) (qty_converter rp) s = (Inr ?c, s\<lparr>next_constraint_id := ?i + 1\<rparr>)"
    using ids(2) by (simp add: CapacityConstraint_new_def Let_def ok_def)
  moreover have "rp_AddConstraint p ?c (s\<lparr>next_constraint_id := ?i + 1\<rparr>) =
      (Inr (), s\<lparr>mk_rps := (mk_rps s)(p \<mapsto> defaulted rp (?c\<lparr>cc_id := ?i + 1\<rparr>)), next_constraint_id := ?i + 2\<rparr>)"
    using p constraints_insert_last[OF ids(1), of "s\<lparr>next_constraint_id := ?i + 1\<rparr>"]
    by (simp add: rp_AddConstraint_def upd_rp_def defaulted_def ok_def)
  moreover have "is_default rp (?c\<lparr>cc_id := ?i + 1\<rparr>)" by (simp add: is_default_def)
  ultimately show ?thesis by blast
qed

lemma side_inv_new:
  assumes "side_inv gp port qty fwd back g" "ngroup g' = ngroup g" "nqty g' = nqty g" "\<And>n. ngroup g n \<noteq> Some G" "gp p = None"
  shows "side_inv (gp(p \<mapsto> G)) port qty fwd back g'"
proof -
  have "(\<exists>H. Option.bind (port r) (gp(p \<mapsto> G)) = Some H \<and> ngroup g' n = Some H) \<and> qty r = Some (nqty g' n)"
    if m: "map_of fwd r = Some n" for r n
  proof -
    obtain x H where h: "port r = Some x" "gp x = Some H" "ngroup g n = Some H" "qty r = Some (nqty g n)" by (rule side_invE[OF assms(1) m])
    then have "x \<noteq> p" using assms(5) by auto
    then show ?thesis using h by (simp add: assms(2,3))
  qed
  moreover have "map_of back n \<noteq> None" if "(gp(p \<mapsto> G)) x = Some H" "ngroup g' n = Some H" for x H n
    using that assms(1,4) by (auto simp: side_inv_def assms(2) split: if_splits)
  ultimately show ?thesis unfolding side_inv_def by blast
qed

lemma new_group:
  assumes i: "xl_inv gp gq s" and G: "Group_new q (mk_graph s) = (G, g)"
  shows "G \<notin> ran gp" "G \<notin> ran gq" "gp p = None \<Longrightarrow> xl_inv (gp(p \<mapsto> G)) gq (s\<lparr>mk_graph := g\<rparr>)"
    "gq p = None \<Longrightarrow> xl_inv gp (gq(p \<mapsto> G)) (s\<lparr>mk_graph := g\<rparr>)"
proof -
  note d = xl_invD[OF i]
  note go = Group_new_obs[OF d(2) G]
  show new: "G \<notin> ran gp" "G \<notin> ran gq" using go(10) d(1) unfolding groups_ok_def by blast+
  have nog: "ngroup (mk_graph s) n \<noteq> Some G" for n using ngroup_alive[OF d(2)] go(10) by blast
  have nobs: "ngroup g = ngroup (mk_graph s)" "nqty g = nqty (mk_graph s)" using go(3) by (simp_all add: ngroup_def nqty_def fun_eq_iff)
  have inj: "inj_on (m(p \<mapsto> G)) (dom (m(p \<mapsto> G)))" if "inj_on m (dom m)" "G \<notin> ran m" for m :: "ptr \<rightharpoonup> ptr"
    using that by (auto simp: inj_on_def dom_def ran_def)
  have old: "side_inv gp (req_port s) (target_qty s) (request_to_node (mk_xl s)) (node_to_request (mk_xl s)) g"
    "side_inv gq (bid_port s) (offer_qty s) (bid_to_node (mk_xl s)) (node_to_bid (mk_xl s)) g"
    using d(6,7) by (simp_all add: side_inv_def nobs)
  have ok: "groups_ok gp' gq' g" if "ran gp' \<inter> ran gq' = {}" "ran gp' \<union> ran gq' = insert G (ran gp \<union> ran gq)"
    "inj_on gp' (dom gp')" "inj_on gq' (dom gq')" for gp' gq'
    using d(1) go that by (auto simp: groups_ok_def nobs)
  show "xl_inv (gp(p \<mapsto> G)) gq (s\<lparr>mk_graph := g\<rparr>)" if p: "gp p = None"
    using ok[of "gp(p \<mapsto> G)" gq] inj[OF _ new(1)] d(1,3,4,5) new side_inv_new[where gp = gp, OF d(6) nobs nog p] old(2) p
    by (auto simp: xl_inv_def links_matched groups_ok_def ran_map_upd)
  show "xl_inv gp (gq(p \<mapsto> G)) (s\<lparr>mk_graph := g\<rparr>)" if p: "gq p = None"
    using ok[of gp "gq(p \<mapsto> G)"] inj[OF _ new(2)] d(1,3,4,5) new side_inv_new[where gp = gq, OF d(7) nobs nog p] old(1) p
    by (auto simp: xl_inv_def links_matched groups_ok_def ran_map_upd)
qed

lemma TranslateRequestPortfolio_ok:
  assumes i: "xl_inv gp gq s" and p: "mk_rps s p = Some rp" "gp p = None" "distinct (rp_requests rp)" "\<forall>r \<in> set (rp_requests rp). req_ok s p r"
  shows "\<exists>s' G. TranslateRequestPortfolio p s = (Inr G, s') \<and> xl_inv (gp(p \<mapsto> G)) gq s' \<and> fixed s' = fixed s \<and>
    G \<notin> ran gp \<and> request_groups (mk_graph s') = request_groups (mk_graph s) \<and> supply_groups (mk_graph s') = supply_groups (mk_graph s) \<and>
    node_arc_map (mk_graph s') = node_arc_map (mk_graph s) \<and>
    gcaps (mk_graph s') = (gcaps (mk_graph s))(G := map cc_capacity (rp_constraints rp)) \<and>
    gtarget (mk_graph s') = (gtarget (mk_graph s))(G := rp_qty rp) \<and>
    (\<forall>n nd. x_nodes (mk_graph s') n = Some nd \<longrightarrow> x_nodes (mk_graph s) n = Some nd \<or> unit_capacities nd = []) \<and>
    extended (request_to_node (mk_xl s)) (set (rp_requests rp)) (request_to_node (mk_xl s'))"
proof -
  note d = xl_invD[OF i]
  obtain G g where G: "Group_new (rp_qty rp) (mk_graph s) = (G, g)" by (cases "Group_new (rp_qty rp) (mk_graph s)")
  note go = Group_new_obs[OF d(2) G]
  let ?gp = "gp(p \<mapsto> G)" let ?s = "s\<lparr>mk_graph := g\<rparr>"
  note new = new_group(1)[OF i G] and i1 = new_group(3)[where p = p, OF i G p(2)]
  have ran: "ran ?gp = insert G (ran gp)" using p(2) by (simp add: ran_map_upd)
  have "map_of (request_to_node (mk_xl s)) r = None" if "r \<in> set (rp_requests rp)" for r
  proof (rule ccontr)
    assume "map_of (request_to_node (mk_xl s)) r \<noteq> None"
    then obtain n where "map_of (request_to_node (mk_xl s)) r = Some n" by auto
    from side_invE[OF d(6) this] obtain x H where "req_port s r = Some x" "gp x = Some H" by blast
    then show False using p(2,4) that by (auto simp: req_ok_def)
  qed
  moreover have "\<exists>rq. mk_reqs ?s r = Some rq \<and> ?gp (rq_portfolio rq) = Some G \<and> req_ok ?s (rq_portfolio rq) r"
    if r: "r \<in> set (rp_requests rp)" for r
  proof -
    obtain rq where "mk_reqs s r = Some rq" "rq_portfolio rq = p" using p(4) r by (auto simp: req_ok_def)
    then show ?thesis using p(4) r by simp
  qed
  ultimately obtain s1 where s1: "foreach (translate_request G) (rp_requests rp) ?s = (Inr (), s1)" "grown ?s s1" "xl_inv ?gp gq s1"
    "extended (request_to_node (mk_xl s)) (set (rp_requests rp)) (request_to_node (mk_xl s1))"
    using translate_requests[OF i1 p(3), of G] by auto
  let ?g1 = "mk_graph s1"
  let ?g' = "foldl (\<lambda>g c. AddCapacity G (cc_capacity c) g) ?g1 (rp_constraints rp)"
  have "x_groups ?g1 G \<noteq> None" using xl_invD(1)[OF s1(3)] by (auto simp: groups_ok_def ran)
  note caps = add_capacities[OF this, of cc_capacity "rp_constraints rp"]
  note sn = same_nodes_obs[OF conjunct1[OF caps]]
  have i2: "xl_inv ?gp gq (s1\<lparr>mk_graph := ?g'\<rparr>)"
    using s1(3) caps by (auto simp: xl_inv_def groups_ok_def side_inv_def sn same_nodes_def)
  have f: "fixed s1 = fixed s" using s1(2) by (auto simp: grown_def fixed_def)
  have t: "TranslateRequestPortfolio p s = (Inr G, s1\<lparr>mk_graph := ?g'\<rparr>)"
    using p(1) G s1(1) by (simp add: TranslateRequestPortfolio_def ok_def)
  show ?thesis
  proof (intro exI conjI, rule t, rule i2)
    show "fixed (s1\<lparr>mk_graph := ?g'\<rparr>) = fixed s" using f by (simp add: fixed_def)
    have "gcaps (mk_graph s) G = []" using go(10) by (simp add: gcaps_def)
    then show "gcaps (mk_graph (s1\<lparr>mk_graph := ?g'\<rparr>)) = (gcaps (mk_graph s))(G := map cc_capacity (rp_constraints rp))"
      using caps s1(2) go(12) by (simp add: grown_def)
    show "\<forall>n nd. x_nodes (mk_graph (s1\<lparr>mk_graph := ?g'\<rparr>)) n = Some nd \<longrightarrow> x_nodes (mk_graph s) n = Some nd \<or> unit_capacities nd = []"
      using caps s1(2) go(3) by (simp add: grown_def same_nodes_def)
  qed (use caps s1(2,4) go new in \<open>auto simp: grown_def same_nodes_def\<close>)
qed

end
