(* ===== verification/Market_Arcs.thy ===== *)
theory Market_Arcs
  imports Market_Translate
begin

text \<open>
  The two loops of \<open>Translate\<close>: over the request portfolios, then over the bid portfolios with the
  arcs of their bids, and the graph they end with.
\<close>

section \<open>The request portfolios\<close>

definition rp_done :: "'u market \<Rightarrow> (ptr \<rightharpoonup> ptr) \<Rightarrow> 'u market \<Rightarrow> ptr \<Rightarrow> bool" where
  "rp_done s0 gp s p \<longleftrightarrow> (\<exists>rp c G. mk_rps s0 p = Some rp \<and> rp_ok s0 p rp \<and> mk_rps s p = Some (defaulted rp c) \<and> is_default rp c \<and>
     gp p = Some G \<and> gtarget (mk_graph s) G = rp_qty rp \<and> gcaps (mk_graph s) G = map cc_capacity (rp_constraints rp) @ [rp_qty rp] \<and>
     set (rp_requests rp) \<subseteq> dom (map_of (request_to_node (mk_xl s))))"

definition bare :: "graph \<Rightarrow> bool" where
  "bare g \<longleftrightarrow> supply_groups g = [] \<and> node_arc_map g = [] \<and> (\<forall>n nd. x_nodes g n = Some nd \<longrightarrow> unit_capacities nd = [])"

definition phase1 :: "'u market \<Rightarrow> ptr list \<Rightarrow> (ptr \<rightharpoonup> ptr) \<Rightarrow> 'u market \<Rightarrow> bool" where
  "phase1 s0 P gp s \<longleftrightarrow> xl_inv gp Map.empty s \<and> dom gp = set P \<and> request_groups (mk_graph s) = map (\<lambda>p. the (gp p)) P \<and>
     bare (mk_graph s) \<and> static s = static s0 \<and> next_constraint_id s0 \<le> next_constraint_id s \<and>
     (\<forall>p. p \<notin> set P \<longrightarrow> mk_rps s p = mk_rps s0 p) \<and> (\<forall>p \<in> set P. rp_done s0 gp s p)"

lemma xl_inv_cong:
  assumes "mk_sim s' = mk_sim s" "mk_reqs s' = mk_reqs s" "mk_bids s' = mk_bids s" "mk_graph s' = mk_graph s" "mk_xl s' = mk_xl s"
  shows "xl_inv gp gq s' = xl_inv gp gq s"
proof -
  have "target_qty s' = target_qty s" "offer_qty s' = offer_qty s" using assms by (simp_all add: target_qty_def offer_qty_def fun_eq_iff)
  then show ?thesis by (simp add: xl_inv_def assms)
qed

lemma rp_ok_mono:
  assumes "static s = static s0" "next_constraint_id s0 \<le> next_constraint_id s" "rp_ok s0 p rp"
  shows "rp_ok s p rp"
proof -
  have "req_ok s = req_ok s0" by (rule staticD(10)[OF assms(1)])
  moreover have "cc_id c < next_constraint_id s" if "c \<in> set (rp_constraints rp)" for c
    using assms(2,3) that order.strict_trans2[of "cc_id c"] by (auto simp: rp_ok_def)
  ultimately show ?thesis using assms(3) by (auto simp: rp_ok_def)
qed

lemma rp_done_mono:
  assumes "rp_done s0 gp s x" "x \<noteq> p" "G \<notin> ran gp" "mk_rps s' x = mk_rps s x"
    and "\<And>H. H \<noteq> G \<Longrightarrow> gcaps (mk_graph s') H = gcaps (mk_graph s) H \<and> gtarget (mk_graph s') H = gtarget (mk_graph s) H"
    and "extended (request_to_node (mk_xl s)) X (request_to_node (mk_xl s'))"
  shows "rp_done s0 (gp(p \<mapsto> G)) s' x"
proof -
  obtain rp c H where h: "mk_rps s0 x = Some rp" "rp_ok s0 x rp" "mk_rps s x = Some (defaulted rp c)" "is_default rp c" "gp x = Some H"
    "gtarget (mk_graph s) H = rp_qty rp" "gcaps (mk_graph s) H = map cc_capacity (rp_constraints rp) @ [rp_qty rp]"
    "set (rp_requests rp) \<subseteq> dom (map_of (request_to_node (mk_xl s)))" using assms(1) by (auto simp: rp_done_def)
  have "H \<noteq> G" using h(5) assms(3) by (auto simp: ran_def)
  then show ?thesis using h assms(2,4-6) by (auto simp: rp_done_def extended_def)
qed

lemma translate_rp_step:
  assumes ph: "phase1 s0 P gp s" and p: "p \<notin> set P" "mk_rps s0 p = Some rp" "rp_ok s0 p rp"
  shows "\<exists>s' G. translate_rp p s = (Inr (), s') \<and> phase1 s0 (P @ [p]) (gp(p \<mapsto> G)) s'"
proof -
  have i: "xl_inv gp Map.empty s" and dm: "dom gp = set P" and st: "static s = static s0"
    and id: "next_constraint_id s0 \<le> next_constraint_id s" and rps: "\<forall>p. p \<notin> set P \<longrightarrow> mk_rps s p = mk_rps s0 p"
    and dn: "\<forall>p \<in> set P. rp_done s0 gp s p" and rg: "request_groups (mk_graph s) = map (\<lambda>p. the (gp p)) P" and br: "bare (mk_graph s)"
    using ph by (auto simp: phase1_def)
  have ok: "rp_ok s p rp" by (rule rp_ok_mono[OF st id p(3)])
  have ps: "mk_rps s p = Some rp" using rps p(1,2) by simp
  obtain c c' where c: "CapacityConstraint_new (rp_qty rp) (qty_converter rp) s = (Inr c, s\<lparr>next_constraint_id := next_constraint_id s + 1\<rparr>)"
    "rp_AddConstraint p c (s\<lparr>next_constraint_id := next_constraint_id s + 1\<rparr>) =
      (Inr (), s\<lparr>mk_rps := (mk_rps s)(p \<mapsto> defaulted rp c'), next_constraint_id := next_constraint_id s + 2\<rparr>)" "is_default rp c'"
    using default_constraint[OF ps ok] by blast
  define s2 where "s2 = s\<lparr>mk_rps := (mk_rps s)(p \<mapsto> defaulted rp c'), next_constraint_id := next_constraint_id s + 2\<rparr>"
  have i2: "xl_inv gp Map.empty s2" by (subst xl_inv_cong[where s = s]) (use i in \<open>simp_all add: s2_def\<close>)
  have "req_ok s2 = req_ok s" by (simp add: s2_def req_ok_def fun_eq_iff)
  then have r: "mk_rps s2 p = Some (defaulted rp c')" "gp p = None" "distinct (rp_requests (defaulted rp c'))"
    "\<forall>r \<in> set (rp_requests (defaulted rp c')). req_ok s2 p r"
    using ok dm p(1) by (auto simp: s2_def defaulted_def rp_ok_def)
  obtain s3 G where t: "TranslateRequestPortfolio p s2 = (Inr G, s3)" "xl_inv (gp(p \<mapsto> G)) Map.empty s3" "fixed s3 = fixed s2" "G \<notin> ran gp"
    "request_groups (mk_graph s3) = request_groups (mk_graph s2)" "supply_groups (mk_graph s3) = supply_groups (mk_graph s2)"
    "node_arc_map (mk_graph s3) = node_arc_map (mk_graph s2)"
    "gcaps (mk_graph s3) = (gcaps (mk_graph s2))(G := map cc_capacity (rp_constraints (defaulted rp c')))"
    "gtarget (mk_graph s3) = (gtarget (mk_graph s2))(G := rp_qty (defaulted rp c'))"
    "\<forall>n nd. x_nodes (mk_graph s3) n = Some nd \<longrightarrow> x_nodes (mk_graph s2) n = Some nd \<or> unit_capacities nd = []"
    "extended (request_to_node (mk_xl s2)) (set (rp_requests (defaulted rp c'))) (request_to_node (mk_xl s3))"
    using TranslateRequestPortfolio_ok[OF i2 r] by blast
  define s' where "s' = s3\<lparr>mk_graph := AddRequestGroup G (mk_graph s3)\<rparr>"
  have g2: "mk_graph s2 = mk_graph s" "mk_xl s2 = mk_xl s" by (simp_all add: s2_def)
  have "translate_rp p s = (Inr (), s')"
    using ps c t(1) by (simp add: translate_rp_def s2_def s'_def ok_def)
  moreover have "phase1 s0 (P @ [p]) (gp(p \<mapsto> G)) s'"
  proof -
    have "xl_inv (gp(p \<mapsto> G)) Map.empty s'"
      using t(2) by (auto simp: xl_inv_def s'_def groups_ok_def side_inv_def graph_simps groups_inv_def)
    moreover have "bare (mk_graph s')"
      using br t(6,7,10) unfolding bare_def s'_def g2 by (auto simp: graph_simps)
    moreover have "static s' = static s0" "next_constraint_id s0 \<le> next_constraint_id s'"
      using st id fixedD[OF t(3)] by (auto simp: s'_def s2_def static_def bid_pref_def fun_eq_iff)
    moreover have "request_groups (mk_graph s') = map (\<lambda>x. the ((gp(p \<mapsto> G)) x)) (P @ [p])"
      using rg t(5) p(1) by (simp add: s'_def g2 graph_simps)
    moreover have m: "mk_rps s' = (mk_rps s)(p \<mapsto> defaulted rp c')" using fixedD(3)[OF t(3)] by (simp add: s'_def s2_def)
    moreover have "rp_done s0 (gp(p \<mapsto> G)) s' x" if "x \<in> set P" for x
      by (rule rp_done_mono[of s0 gp s]) (use that dn p(1) t(4,8,9,11) m in \<open>auto simp: s'_def g2 graph_simps\<close>)
    moreover have "rp_done s0 (gp(p \<mapsto> G)) s' p"
      using p(2,3) m c(3) t(8,9,11) by (auto simp: rp_done_def s'_def graph_simps defaulted_def is_default_def extended_def)
    ultimately show ?thesis using rps dm by (auto simp: phase1_def)
  qed
  ultimately show ?thesis by blast
qed

lemma phase1_loop:
  assumes "phase1 s0 P gp s" "distinct (P @ ps)" "\<forall>p \<in> set ps. \<exists>rp. mk_rps s0 p = Some rp \<and> rp_ok s0 p rp"
  shows "\<exists>s' gp'. foreach translate_rp ps s = (Inr (), s') \<and> phase1 s0 (P @ ps) gp' s'"
  using assms
proof (induction ps arbitrary: s P gp)
  case Nil
  then show ?case by (auto simp: ok_def)
next
  case (Cons p ps)
  obtain rp where rp: "mk_rps s0 p = Some rp" "rp_ok s0 p rp" using Cons.prems(3) by auto
  obtain s1 G where s1: "translate_rp p s = (Inr (), s1)" "phase1 s0 (P @ [p]) (gp(p \<mapsto> G)) s1"
    using translate_rp_step[OF Cons.prems(1) _ rp] Cons.prems(2) by auto
  show ?case using Cons.IH[OF s1(2)] Cons.prems(2,3) s1(1) by simp
qed

lemma phase1_start:
  assumes "market_ok s"
  shows "phase1 s [] Map.empty (s\<lparr>mk_graph := ExchangeGraph_new\<rparr>)"
proof -
  have x: "mk_xl s = xlation_new" using assms by (simp add: market_ok_def)
  have "groups_inv ExchangeGraph_new" by (simp add: groups_inv_def ExchangeGraph_new_def gnodes_def ngroup_def)
  then have "groups_ok Map.empty Map.empty ExchangeGraph_new"
    by (simp add: groups_ok_def) (simp add: ExchangeGraph_new_def nqty_def DBL_MAX_def)
  moreover have "bare ExchangeGraph_new" "request_groups ExchangeGraph_new = []" by (simp_all add: bare_def ExchangeGraph_new_def)
  ultimately show ?thesis
    by (simp add: phase1_def xl_inv_def x links_def side_inv_def xlation_new_def static_def)
qed

section \<open>Unit capacities\<close>

text \<open>What one unit of the offer of a bid uses of a constraint.\<close>

definition unit_of :: "'u market \<Rightarrow> bid \<Rightarrow> double \<Rightarrow> constraint \<Rightarrow> double" where
  "unit_of s bd q c = (case cc_converter c of
     QtyCoeffConverter k \<Rightarrow> omap_sub 0 k (bd_request bd)
   | conv \<Rightarrow> conv_val conv (mk_world s) (bd_offer bd) / q)"

lemma unit_of_cong: "mk_sim s' = mk_sim s \<Longrightarrow> unit_of s' = unit_of s"
  by (intro ext) (simp only: unit_of_def)

lemma unit_of_conv_ok:
  assumes "conv_ok (cc_converter c) (mk_world s) (bd_offer bd)" "0 < q"
  shows "convert (cc_converter c) (mk_world s) (bd_offer bd) a xl = Inr (q * unit_of s bd q c)" "0 < unit_of s bd q c"
    "unit_of s bd q c = conv_val (cc_converter c) (mk_world s) (bd_offer bd) / q"
proof -
  note v = conv_okD[OF assms(1)]
  have "cc_converter c \<noteq> QtyCoeffConverter k" for k
  proof
    assume "cc_converter c = QtyCoeffConverter k"
    then show False using v[of arc0 xlation_new] by (simp add: convert_def xlation_new_def split: option.splits)
  qed
  then show e: "unit_of s bd q c = conv_val (cc_converter c) (mk_world s) (bd_offer bd) / q"
    by (simp add: unit_of_def split: converter.split)
  show "convert (cc_converter c) (mk_world s) (bd_offer bd) a xl = Inr (q * unit_of s bd q c)" "0 < unit_of s bd q c"
    using v assms(2) by (simp_all add: e)
qed

lemma unit_of_default:
  assumes "is_default rp c" "map_of (mass_coeffs rp) (bd_request bd) = Some k" "mk_qty s (bd_offer bd) = Some q"
    and "map_of (node_to_request xl) (a_unode a) = Some (bd_request bd)"
  shows "convert (cc_converter c) (mk_world s) (bd_offer bd) a xl = Inr (q * unit_of s bd q c)" "unit_of s bd q c = k"
  using assms by (auto simp: is_default_def qty_converter_def convert_def unit_of_def omap_sub_def)

lemma push_all:
  "map_of (foldl (\<lambda>m x. omap_push k x m) m xs) k' = (if k' = k \<and> xs \<noteq> [] then Some (omap_sub [] m k @ xs) else map_of m k')"
  by (induction xs arbitrary: m) (auto simp: omap_push_def omap_sub_def)

definition push_caps :: "ptr \<Rightarrow> akey \<Rightarrow> double list \<Rightarrow> graph \<Rightarrow> graph" where
  "push_caps n k xs g = upd_node n (unit_capacities_update (\<lambda>m. foldl (\<lambda>m x. omap_push k x m) m xs)) g"

lemma TranslateCapacities_ok:
  assumes "mk_qty s offer = Some q" "q \<noteq> 0" "\<forall>c \<in> set cs. convert (cc_converter c) (mk_world s) offer a (mk_xl s) = Inr (q * f c)"
  shows "TranslateCapacities offer cs n a s = (Inr (), s\<lparr>mk_graph := push_caps n (arc_key a) (map f cs) (mk_graph s)\<rparr>)"
  using assms
proof (induction cs arbitrary: s)
  case Nil
  have "unit_capacities_update (\<lambda>m. m) = (\<lambda>nd :: node. nd)" by (simp add: fun_eq_iff)
  then have "upd_node n (unit_capacities_update (\<lambda>m. m)) g = g" for g by (simp add: upd_node_def option.map_ident)
  then show ?case by (simp add: TranslateCapacities_def push_caps_def ok_def)
next
  case (Cons c cs)
  let ?s1 = "s\<lparr>mk_graph := upd_node n (unit_capacities_update (omap_push (arc_key a) (f c))) (mk_graph s)\<rparr>"
  have "add_unit_capacity offer n a c s = (Inr (), ?s1)"
    using Cons.prems(2,3) unfolding add_unit_capacity_def Cons.prems(1) by (simp add: ok_def)
  moreover have "TranslateCapacities offer cs n a ?s1 = (Inr (), ?s1\<lparr>mk_graph := push_caps n (arc_key a) (map f cs) (mk_graph ?s1)\<rparr>)"
    by (rule Cons.IH) (use Cons.prems in \<open>simp_all del: map_option_eq_Some\<close>)
  moreover have "push_caps n (arc_key a) (map f cs) (mk_graph ?s1) = push_caps n (arc_key a) (map f (c # cs)) (mk_graph s)"
    by (simp add: push_caps_def upd_node_def option.map_comp comp_def)
  ultimately show ?case by (simp add: TranslateCapacities_def)
qed

section \<open>Arcs\<close>

definition arc_pair :: "'u market \<Rightarrow> ptr \<Rightarrow> akey option" where
  "arc_pair s b = Option.bind (mk_bids s b) (\<lambda>bd. Option.bind (map_of (request_to_node (mk_xl s)) (bd_request bd)) (\<lambda>u.
     map_option (Pair u) (map_of (bid_to_node (mk_xl s)) b)))"

text \<open>The arc of a bid stands in the graph with its unit capacities and a positive preference.\<close>

definition arc_done :: "'u market \<Rightarrow> ptr \<Rightarrow> bool" where
  "arc_done s b \<longleftrightarrow> (\<exists>bd rq rp bp q u v nu nv a x. mk_bids s b = Some bd \<and> mk_reqs s (bd_request bd) = Some rq \<and>
     mk_rps s (rq_portfolio rq) = Some rp \<and> mk_bps s (bd_portfolio bd) = Some bp \<and> mk_qty s (bd_offer bd) = Some q \<and>
     arc_pair s b = Some (u, v) \<and> x_nodes (mk_graph s) u = Some nu \<and> x_nodes (mk_graph s) v = Some nv \<and>
     omap_sub [] (unit_capacities nu) (u, v) = map (unit_of s bd q) (rp_constraints rp) \<and>
     omap_sub [] (unit_capacities nv) (u, v) = map (unit_of s bd q) (bp_constraints bp) \<and>
     (\<forall>c \<in> set (rp_constraints rp) \<union> set (bp_constraints bp). 0 < unit_of s bd q c) \<and>
     map_of (prefs nu) (u, v) = Some (a, x) \<and> 0 < x \<and> (\<exists>c \<in> set (omap_sub [] (node_arc_map (mk_graph s)) u). arc_key c = (u, v)))"

lemma arc_doneE:
  assumes "arc_done s b"
  obtains bd rq rp bp q u v nu nv a x where "mk_bids s b = Some bd" "mk_reqs s (bd_request bd) = Some rq"
    "mk_rps s (rq_portfolio rq) = Some rp" "mk_bps s (bd_portfolio bd) = Some bp" "mk_qty s (bd_offer bd) = Some q"
    "arc_pair s b = Some (u, v)" "x_nodes (mk_graph s) u = Some nu" "x_nodes (mk_graph s) v = Some nv"
    "omap_sub [] (unit_capacities nu) (u, v) = map (unit_of s bd q) (rp_constraints rp)"
    "omap_sub [] (unit_capacities nv) (u, v) = map (unit_of s bd q) (bp_constraints bp)"
    "\<forall>c \<in> set (rp_constraints rp) \<union> set (bp_constraints bp). 0 < unit_of s bd q c"
    "map_of (prefs nu) (u, v) = Some (a, x)" "0 < x" "\<exists>c \<in> set (omap_sub [] (node_arc_map (mk_graph s)) u). arc_key c = (u, v)"
  using assms unfolding arc_done_def by blast

definition arc_inv :: "ptr set \<Rightarrow> 'u market \<Rightarrow> bool" where
  "arc_inv A s \<longleftrightarrow> (\<forall>n nd k. x_nodes (mk_graph s) n = Some nd \<longrightarrow> map_of (unit_capacities nd) k \<noteq> None \<longrightarrow> (\<exists>b \<in> A. arc_pair s b = Some k)) \<and>
     (\<forall>b \<in> A. arc_done s b) \<and>
     (\<forall>n as a. map_of (node_arc_map (mk_graph s)) n = Some as \<longrightarrow> a \<in> set as \<longrightarrow>
        (n = a_unode a \<or> n = a_vnode a) \<and> (\<exists>b \<in> A. arc_pair s b = Some (arc_key a)))"

lemma arc_inv_mono:
  assumes i: "arc_inv A s" and eq: "mk_sim s' = mk_sim s" "mk_reqs s' = mk_reqs s" "mk_rps s' = mk_rps s" "mk_bids s' = mk_bids s" "mk_bps s' = mk_bps s"
    and nodes: "x_nodes (mk_graph s) \<subseteq>\<^sub>m x_nodes (mk_graph s')"
      "\<forall>n nd. x_nodes (mk_graph s') n = Some nd \<longrightarrow> x_nodes (mk_graph s) n = Some nd \<or> unit_capacities nd = []"
    and m: "node_arc_map (mk_graph s') = node_arc_map (mk_graph s)" "request_to_node (mk_xl s') = request_to_node (mk_xl s)"
      "map_of (bid_to_node (mk_xl s)) \<subseteq>\<^sub>m map_of (bid_to_node (mk_xl s'))"
  shows "arc_inv A s'"
proof -
  have pair: "arc_pair s' b = Some k" if "arc_pair s b = Some k" for b k
    using that m(3) by (auto simp: arc_pair_def eq m(2) bind_eq_Some_conv map_le_def dom_def)
  have un: "unit_of s' = unit_of s" by (rule unit_of_cong[OF eq(1)])
  have keep: "x_nodes (mk_graph s') n = Some nd" if "x_nodes (mk_graph s) n = Some nd" for n nd
    using nodes(1) that by (auto simp: map_le_def dom_def)
  have "arc_done s' b" if b: "arc_done s b" for b
  proof -
    show ?thesis by (rule arc_doneE[OF b]) (unfold arc_done_def eq un m(1), use pair keep in blast)
  qed
  moreover have "\<exists>b \<in> A. arc_pair s' b = Some k" if n: "x_nodes (mk_graph s') n = Some nd" "map_of (unit_capacities nd) k \<noteq> None" for n nd k
  proof -
    have "x_nodes (mk_graph s) n = Some nd" using nodes(2) n by fastforce
    then show ?thesis using i n(2) pair unfolding arc_inv_def by meson
  qed
  ultimately show ?thesis using i pair unfolding arc_inv_def m(1) by meson
qed

text \<open>The graph after the arc \<open>a\<close> of a bid has been added.\<close>

definition with_arc :: "arc \<Rightarrow> double \<Rightarrow> double list \<Rightarrow> double list \<Rightarrow> graph \<Rightarrow> graph" where
  "with_arc a x lv lu g = AddArc a (upd_node (a_unode a) (prefs_update (\<lambda>m.
     omap_put (arc_key a) (case map_of m (arc_key a) of None \<Rightarrow> (a, x) | Some (a', _) \<Rightarrow> (a', x)) m))
     (push_caps (a_unode a) (arc_key a) lu (push_caps (a_vnode a) (arc_key a) lv g)))"

lemma with_arc_obs:
  "x_groups (with_arc a x lv lu g) = x_groups g" "x_next (with_arc a x lv lu g) = x_next g"
  "request_groups (with_arc a x lv lu g) = request_groups g" "supply_groups (with_arc a x lv lu g) = supply_groups g"
  "matches (with_arc a x lv lu g) = matches g" "gnodes (with_arc a x lv lu g) = gnodes g" "gcaps (with_arc a x lv lu g) = gcaps g"
  "gtarget (with_arc a x lv lu g) = gtarget g" "ngroup (with_arc a x lv lu g) = ngroup g" "nqty (with_arc a x lv lu g) = nqty g"
  "x_nodes (with_arc a x lv lu g) n = None \<longleftrightarrow> x_nodes g n = None"
  "node_arc_map (with_arc a x lv lu g) = omap_push (a_vnode a) a (omap_push (a_unode a) a (node_arc_map g))"
  by (auto simp: with_arc_def push_caps_def graph_simps ngroup_def nqty_def fun_eq_iff split: option.splits)

text \<open>Entries of other arcs stay as they are.\<close>

lemma with_arc_other:
  assumes "x_nodes g n = Some nd"
  shows "\<exists>nd'. x_nodes (with_arc a x lv lu g) n = Some nd' \<and> (\<forall>k. k \<noteq> arc_key a \<longrightarrow>
    map_of (unit_capacities nd') k = map_of (unit_capacities nd) k \<and> map_of (prefs nd') k = map_of (prefs nd) k)"
  using assms by (auto simp: with_arc_def push_caps_def graph_simps push_all)

lemma with_arc_new:
  assumes "x_nodes g (a_unode a) = Some nu" "x_nodes g (a_vnode a) = Some nv" "a_unode a \<noteq> a_vnode a"
    and "map_of (unit_capacities nu) (arc_key a) = None" "map_of (unit_capacities nv) (arc_key a) = None"
  shows "\<exists>nu' nv' a'. x_nodes (with_arc a x lv lu g) (a_unode a) = Some nu' \<and> x_nodes (with_arc a x lv lu g) (a_vnode a) = Some nv' \<and>
    omap_sub [] (unit_capacities nu') (arc_key a) = lu \<and> omap_sub [] (unit_capacities nv') (arc_key a) = lv \<and>
    map_of (prefs nu') (arc_key a) = Some (a', x)"
  using assms by (auto simp: with_arc_def push_caps_def graph_simps push_all omap_sub_def split: option.splits)

lemma xl_inv_graph:
  assumes "xl_inv gp gq s" "ngroup g = ngroup (mk_graph s)" "nqty g = nqty (mk_graph s)" "gnodes g = gnodes (mk_graph s)"
    "x_next g = x_next (mk_graph s)" "x_groups g = x_groups (mk_graph s)" "matches g = matches (mk_graph s)"
    "\<And>n. x_nodes g n = None \<longleftrightarrow> x_nodes (mk_graph s) n = None"
  shows "xl_inv gp gq (s\<lparr>mk_graph := g\<rparr>)"
  using assms(1) by (simp add: xl_inv_def groups_ok_def groups_inv_def side_inv_def assms(2-7) assms(8) del: not_None_eq)

lemma with_arc_inv:
  assumes i: "arc_inv A s" "xl_inv gp gq s" and b: "b \<notin> A" and bd: "mk_bids s b = Some bd" "mk_reqs s (bd_request bd) = Some rq"
    "mk_rps s (rq_portfolio rq) = Some rp" "mk_bps s (bd_portfolio bd) = Some bp" "mk_qty s (bd_offer bd) = Some q"
    and uv: "map_of (request_to_node (mk_xl s)) (bd_request bd) = Some (a_unode a)" "map_of (bid_to_node (mk_xl s)) b = Some (a_vnode a)"
    and pos: "\<forall>c \<in> set (rp_constraints rp) \<union> set (bp_constraints bp). 0 < unit_of s bd q c" "0 < x"
  shows "arc_inv (insert b A) (s\<lparr>mk_graph := with_arc a x (map (unit_of s bd q) (bp_constraints bp))
    (map (unit_of s bd q) (rp_constraints rp)) (mk_graph s)\<rparr>)"
proof -
  let ?g = "mk_graph s" let ?lv = "map (unit_of s bd q) (bp_constraints bp)" let ?lu = "map (unit_of s bd q) (rp_constraints rp)"
  let ?g' = "with_arc a x ?lv ?lu ?g" let ?s' = "s\<lparr>mk_graph := ?g'\<rparr>"
  note d = xl_invD[OF i(2)]
  have pr: "arc_pair ?s' = arc_pair s" "unit_of ?s' = unit_of s" by (simp add: arc_pair_def fun_eq_iff) (rule unit_of_cong, simp)
  have pb: "arc_pair s b = Some (arc_key a)" using bd(1) uv by (simp add: arc_pair_def arc_key_def)
  have fresh: "arc_pair s b' \<noteq> Some (arc_key a)" if "b' \<in> A" for b'
  proof
    assume "arc_pair s b' = Some (arc_key a)"
    then have "map_of (bid_to_node (mk_xl s)) b' = Some (a_vnode a)" by (auto simp: arc_pair_def arc_key_def bind_eq_Some_conv)
    then have "b' = b" using uv(2) d(4) unfolding matched_def by (metis option.inject)
    then show False using b that by simp
  qed
  obtain pu Gu where gu: "gp pu = Some Gu" "ngroup ?g (a_unode a) = Some Gu" by (rule side_invE[OF d(6) uv(1)]) blast
  obtain pv Gv where gv: "gq pv = Some Gv" "ngroup ?g (a_vnode a) = Some Gv" by (rule side_invE[OF d(7) uv(2)]) blast
  have ne: "a_unode a \<noteq> a_vnode a" using gu gv d(5) by (metis IntI empty_iff option.inject ranI)
  obtain nu nv where n: "x_nodes ?g (a_unode a) = Some nu" "x_nodes ?g (a_vnode a) = Some nv"
    using gu(2) gv(2) by (auto simp: ngroup_def split: option.splits)
  have none: "map_of (unit_capacities nd) (arc_key a) = None" if "x_nodes ?g m = Some nd" for m nd
    using i(1) fresh that unfolding arc_inv_def by meson
  have 1: "\<exists>b' \<in> insert b A. arc_pair s b' = Some k" if m: "x_nodes ?g' m = Some nd" "map_of (unit_capacities nd) k \<noteq> None" for m nd k
  proof (cases "k = arc_key a")
    case False
    obtain nd0 where nd0: "x_nodes ?g m = Some nd0" using m(1) with_arc_obs(11)[of a x ?lv ?lu ?g m] by (metis not_None_eq)
    have "map_of (unit_capacities nd0) k \<noteq> None" using with_arc_other[OF nd0, of a x ?lv ?lu] m False by (metis option.inject)
    then show ?thesis using i(1) nd0 unfolding arc_inv_def by (metis insertI2)
  qed (use pb in simp)
  have 2: "arc_done ?s' b'" if b': "b' \<in> insert b A" for b'
  proof (cases "b' = b")
    case True
    obtain nu' nv' a' where "x_nodes ?g' (a_unode a) = Some nu'" "x_nodes ?g' (a_vnode a) = Some nv'"
      "omap_sub [] (unit_capacities nu') (arc_key a) = ?lu" "omap_sub [] (unit_capacities nv') (arc_key a) = ?lv"
      "map_of (prefs nu') (arc_key a) = Some (a', x)"
      using with_arc_new[OF n ne none[OF n(1)] none[OF n(2)], of x ?lv ?lu] by blast
    moreover have "a \<in> set (omap_sub [] (node_arc_map ?g') (a_unode a))" by (simp add: with_arc_obs omap_simps)
    ultimately show ?thesis using True bd pb pos unfolding arc_done_def pr arc_key_def by (auto simp del: map_option_eq_Some)
  next
    case False
    then have A: "b' \<in> A" using b' by simp
    then have "arc_done s b'" using i(1) by (simp add: arc_inv_def)
    then obtain bd rq rp bp q u v nu nv a' x' where h: "mk_bids s b' = Some bd" "mk_reqs s (bd_request bd) = Some rq"
    "mk_rps s (rq_portfolio rq) = Some rp" "mk_bps s (bd_portfolio bd) = Some bp" "mk_qty s (bd_offer bd) = Some q"
    "arc_pair s b' = Some (u, v)" "x_nodes (mk_graph s) u = Some nu" "x_nodes (mk_graph s) v = Some nv"
    "omap_sub [] (unit_capacities nu) (u, v) = map (unit_of s bd q) (rp_constraints rp)"
    "omap_sub [] (unit_capacities nv) (u, v) = map (unit_of s bd q) (bp_constraints bp)"
    "\<forall>c \<in> set (rp_constraints rp) \<union> set (bp_constraints bp). 0 < unit_of s bd q c"
    "map_of (prefs nu) (u, v) = Some (a', x')" "0 < x'" "\<exists>c \<in> set (omap_sub [] (node_arc_map (mk_graph s)) u). arc_key c = (u, v)"
      by (rule arc_doneE)
    have k: "(u, v) \<noteq> arc_key a" using fresh[OF A] h(6) by auto
    obtain nu' nv' where "x_nodes ?g' u = Some nu'" "x_nodes ?g' v = Some nv'" "map_of (unit_capacities nu') (u, v) = map_of (unit_capacities nu) (u, v)"
      "map_of (unit_capacities nv') (u, v) = map_of (unit_capacities nv) (u, v)" "map_of (prefs nu') (u, v) = map_of (prefs nu) (u, v)"
      using with_arc_other[OF h(7), of a x ?lv ?lu] with_arc_other[OF h(8), of a x ?lv ?lu] k by metis
    moreover have "set (omap_sub [] (node_arc_map ?g) u) \<subseteq> set (omap_sub [] (node_arc_map ?g') u)" by (auto simp: with_arc_obs omap_simps)
    ultimately show ?thesis using h unfolding arc_done_def pr omap_sub_def[of _ "unit_capacities _"] by (simp del: map_option_eq_Some) blast
  qed
  have 3: "(m = a_unode c \<or> m = a_vnode c) \<and> (\<exists>b' \<in> insert b A. arc_pair s b' = Some (arc_key c))"
    if m: "map_of (node_arc_map ?g') m = Some as" "c \<in> set as" for m as c
  proof (cases "c = a \<and> (m = a_unode a \<or> m = a_vnode a)")
    case True
    then show ?thesis using pb by auto
  next
    case False
    then obtain as' where "map_of (node_arc_map ?g) m = Some as'" "c \<in> set as'"
      using m by (auto simp: with_arc_obs omap_push_def omap_sub_def split: if_splits option.splits)
    then show ?thesis using i(1) unfolding arc_inv_def by (metis insertI2)
  qed
  show ?thesis unfolding arc_inv_def pr using 1 2 3 by simp
qed

lemma bid_pref_touch:
  assumes "map_of (trader_prefs (mk_ctx s)) t = Some by_req"
  shows "bid_pref (s\<lparr>mk_ctx := (mk_ctx s)\<lparr>trader_prefs := omap_put t (omap_put r (omap_touch 0 b (omap_sub [] by_req r)) by_req)
    (trader_prefs (mk_ctx s))\<rparr>\<rparr>) = bid_pref s"
proof (rule ext)
  fix b'
  show "bid_pref (s\<lparr>mk_ctx := (mk_ctx s)\<lparr>trader_prefs := omap_put t (omap_put r (omap_touch 0 b (omap_sub [] by_req r)) by_req)
    (trader_prefs (mk_ctx s))\<rparr>\<rparr>) b' = bid_pref s b'"
    using assms by (cases "mk_bids s b'"; simp add: bid_pref_def; cases "mk_reqs s (bd_request (the (mk_bids s b')))"; simp)
qed

lemma ngroup_node: "ngroup g n = Some G \<Longrightarrow> \<exists>nd. x_nodes g n = Some nd"
  by (auto simp: ngroup_def split: option.splits)

lemma xl_AddArc_step:
  assumes i: "xl_inv gp gq s" "arc_inv A s" and b: "b \<notin> A" and bd: "mk_bids s b = Some bd" "mk_reqs s (bd_request bd) = Some rq"
    "mk_rps s (rq_portfolio rq) = Some (defaulted rp c)" "is_default rp c" "mk_bps s (bd_portfolio bd) = Some bp"
    "mk_qty s (bd_offer bd) = Some q" "dbl q" "bid_pref s b = Some x" "x \<noteq> 0"
    and uv: "map_of (request_to_node (mk_xl s)) (bd_request bd) = Some u" "map_of (bid_to_node (mk_xl s)) b = Some v"
    and conv: "map_of (mass_coeffs rp) (bd_request bd) = Some k" "0 < k"
      "\<forall>c \<in> set (rp_constraints rp) \<union> set (bp_constraints bp). conv_ok (cc_converter c) (mk_world s) (bd_offer bd)"
  shows "\<exists>s' A'. xl_AddArc fdist (bd_request bd) b s = (Inr (), s') \<and> A \<subseteq> A' \<and> A' \<subseteq> insert b A \<and> (0 < x \<longrightarrow> b \<in> A') \<and> xl_inv gp gq s' \<and> arc_inv A' s' \<and>
    static s' = static s \<and> mk_rps s' = mk_rps s \<and> mk_xl s' = mk_xl s \<and> request_groups (mk_graph s') = request_groups (mk_graph s) \<and>
    supply_groups (mk_graph s') = supply_groups (mk_graph s) \<and> gcaps (mk_graph s') = gcaps (mk_graph s) \<and>
    gtarget (mk_graph s') = gtarget (mk_graph s)"
proof -
  obtain by_req where br: "map_of (trader_prefs (mk_ctx s)) (rq_requester rq) = Some by_req"
    and x: "x = omap_sub 0 (omap_sub [] by_req (bd_request bd)) b" using bd(1,2,8) by (auto simp: bid_pref_def)
  define s1 where "s1 = s\<lparr>mk_ctx := (mk_ctx s)\<lparr>trader_prefs := omap_put (rq_requester rq)
    (omap_put (bd_request bd) (omap_touch 0 b (omap_sub [] by_req (bd_request bd))) by_req) (trader_prefs (mk_ctx s))\<rparr>\<rparr>"
  have e1: "mk_sim s1 = mk_sim s" "mk_reqs s1 = mk_reqs s" "mk_rps s1 = mk_rps s" "mk_bids s1 = mk_bids s" "mk_bps s1 = mk_bps s"
    "mk_graph s1 = mk_graph s" "mk_xl s1 = mk_xl s" by (simp_all add: s1_def)
  have st: "static s1 = static s" using bid_pref_touch[OF br] by (simp add: static_def s1_def)
  have i1: "xl_inv gp gq s1" "arc_inv A s1"
    using i(1) xl_inv_cong[OF e1(1,2,4,6,7)] arc_inv_mono[OF i(2) e1(1-5)] by (simp_all add: e1)
  show ?thesis
  proof (cases "x < 0")
    case True
    then have "xl_AddArc fdist (bd_request bd) b s = (Inr (), s1)"
      using bd(2) br x unfolding s1_def by (simp add: xl_AddArc_def map_at_def ok_def Let_def)
    then show ?thesis using i1 st e1 True by (intro exI[of _ s1] exI[of _ A]) (simp add: subset_insertI)
  next
    case False
    then have x0: "0 < x" using bd(9) by simp
    let ?cs = "rp_constraints rp @ [c]" let ?f = "unit_of s1 bd q"
    have q: "0 < q" "mk_qty s1 (bd_offer bd) = Some q" using bd(6,7) by (simp_all add: dbl_def e1)
    have nr: "map_of (node_to_request (mk_xl s1)) u = Some (bd_request bd)" using xl_invD(3)[OF i(1)] uv(1) by (simp add: matched_def e1)
    obtain nu nv where n: "x_nodes (mk_graph s) u = Some nu" "x_nodes (mk_graph s) v = Some nv"
      by (rule side_invE[OF xl_invD(6)[OF i(1)] uv(1)], rule side_invE[OF xl_invD(7)[OF i(1)] uv(2)]) (auto dest!: ngroup_node)
    define a where "a = \<lparr>a_unode = u, a_vnode = v, a_exclusive = n_exclusive nu \<or> n_exclusive nv,
      a_excl_val = Arc_excl_val fdist nu nv, a_pref = x\<rparr>"
    have ca: "convert (cc_converter c') (mk_world s1) (bd_offer bd) a (mk_xl s1) = Inr (q * ?f c')" "0 < ?f c'"
      if "c' \<in> set ?cs \<union> set (bp_constraints bp)" for c'
      using that unit_of_conv_ok[where s = s1, OF _ q(1)] unit_of_default[OF bd(4) conv(1) q(2), where a = a and xl = "mk_xl s1"] nr conv
      by (auto simp: a_def e1)
    let ?lv = "map ?f (bp_constraints bp)" let ?lu = "map ?f ?cs"
    let ?s2 = "s1\<lparr>mk_graph := push_caps v (arc_key a) ?lv (mk_graph s1)\<rparr>"
    let ?s3 = "?s2\<lparr>mk_graph := push_caps u (arc_key a) ?lu (mk_graph ?s2)\<rparr>"
    have t: "TranslateCapacities (bd_offer bd) (bp_constraints bp) v a s1 = (Inr (), ?s2)"
      by (rule TranslateCapacities_ok) (use q ca in auto)
    have t2: "TranslateCapacities (bd_offer bd) ?cs u a ?s2 = (Inr (), ?s3)"
      by (rule TranslateCapacities_ok) (use q ca in auto)
    have "TranslateArc fdist b x s1 = (Inr a, ?s3)"
      using bd(1,2,3,5) uv n t t2 by (simp add: TranslateArc_def map_at_def e1 Arc_new_def ok_def a_def[symmetric] defaulted_def)
    then have "xl_AddArc fdist (bd_request bd) b s = (Inr (), s1\<lparr>mk_graph := with_arc a x ?lv ?lu (mk_graph s1)\<rparr>)"
      using bd(2) br x False bd(9) unfolding s1_def
      by (simp add: xl_AddArc_def map_at_def ok_def Let_def with_arc_def a_def)
    moreover have "arc_inv (insert b A) (s1\<lparr>mk_graph := with_arc a x ?lv (map ?f (rp_constraints (defaulted rp c))) (mk_graph s1)\<rparr>)"
      by (rule with_arc_inv[OF i1(2,1) b]) (use bd uv q x0 ca in \<open>auto simp: e1 a_def defaulted_def\<close>)
    moreover have "xl_inv gp gq (s1\<lparr>mk_graph := with_arc a x ?lv ?lu (mk_graph s1)\<rparr>)"
      by (rule xl_inv_graph[OF i1(1)]) (simp_all add: with_arc_obs)
    moreover have "static (s1\<lparr>mk_graph := g\<rparr>) = static s" for g using st by (simp add: static_def)
    ultimately show ?thesis by (intro exI[of _ "s1\<lparr>mk_graph := with_arc a x ?lv ?lu (mk_graph s1)\<rparr>"] exI[of _ "insert b A"])
      (auto simp: with_arc_obs e1 defaulted_def)
  qed
qed

end
