(* ===== verification/Market_Solution.thy ===== *)
theory Market_Solution
  imports Market_Arcs
begin

text \<open>
  The loop over the bid portfolios, the graph \<open>Translate\<close> returns, and what the greedy solver's
  solution of it means for the trades.
\<close>

section \<open>The bid portfolios\<close>

lemma TranslateBidPortfolio_ok:
  assumes i: "xl_inv gp gq s" and p: "mk_bps s p = Some bp" "gq p = None" "distinct (bp_bids bp)"
    and bs: "\<forall>b \<in> set (bp_bids bp). \<exists>bd rq q. mk_bids s b = Some bd \<and> bd_portfolio bd = p \<and> mk_reqs s (bd_request bd) = Some rq \<and>
      mk_qty s (bd_offer bd) = Some q \<and> dbl q \<and> has_manager (mk_sim s) (bd_bidder bd)"
  shows "\<exists>s' G. TranslateBidPortfolio p s = (Inr G, s') \<and> xl_inv gp (gq(p \<mapsto> G)) s' \<and> fixed s' = fixed s \<and>
    G \<notin> ran gp \<and> G \<notin> ran gq \<and> request_groups (mk_graph s') = request_groups (mk_graph s) \<and>
    supply_groups (mk_graph s') = supply_groups (mk_graph s) \<and> node_arc_map (mk_graph s') = node_arc_map (mk_graph s) \<and>
    gcaps (mk_graph s') = (gcaps (mk_graph s))(G := map cc_capacity (bp_constraints bp)) \<and>
    gtarget (mk_graph s') = (gtarget (mk_graph s))(G := 0) \<and> x_nodes (mk_graph s) \<subseteq>\<^sub>m x_nodes (mk_graph s') \<and>
    (\<forall>n nd. x_nodes (mk_graph s') n = Some nd \<longrightarrow> x_nodes (mk_graph s) n = Some nd \<or> unit_capacities nd = []) \<and>
    request_to_node (mk_xl s') = request_to_node (mk_xl s) \<and>
    extended (bid_to_node (mk_xl s)) (set (bp_bids bp)) (bid_to_node (mk_xl s'))"
proof -
  note d = xl_invD[OF i]
  obtain G g where G: "Group_new 0 (mk_graph s) = (G, g)" by (cases "Group_new 0 (mk_graph s)")
  note go = Group_new_obs[OF d(2) G]
  let ?gq = "gq(p \<mapsto> G)" let ?s = "s\<lparr>mk_graph := g\<rparr>"
  note new = new_group(1,2)[OF i G] and i1 = new_group(4)[where p = p, OF i G p(2)]
  have ran: "ran ?gq = insert G (ran gq)" using p(2) by (simp add: ran_map_upd)
  have "map_of (bid_to_node (mk_xl ?s)) b = None" if "b \<in> set (bp_bids bp)" for b
  proof (rule ccontr)
    assume "map_of (bid_to_node (mk_xl ?s)) b \<noteq> None"
    then obtain n where "map_of (bid_to_node (mk_xl s)) b = Some n" by auto
    from side_invE[OF d(7) this] obtain x H where "bid_port s b = Some x" "gq x = Some H" by blast
    then show False using p(2) bs that by auto
  qed
  moreover have "\<forall>b \<in> set (bp_bids bp). \<exists>bd rq q. mk_bids ?s b = Some bd \<and> ?gq (bd_portfolio bd) = Some G \<and> mk_reqs ?s (bd_request bd) = Some rq \<and>
      mk_qty ?s (bd_offer bd) = Some q \<and> dbl q \<and> has_manager (mk_sim ?s) (bd_bidder bd)"
    using bs by (simp del: map_option_eq_Some) metis
  ultimately obtain s1 ex where s1: "translate_bids G (bp_bids bp) [] ?s = (Inr ex, s1)" "grown ?s s1" "xl_inv gp ?gq s1"
    "extended (bid_to_node (mk_xl s)) (set (bp_bids bp)) (bid_to_node (mk_xl s1))" "request_to_node (mk_xl s1) = request_to_node (mk_xl s)"
    using translate_bids_ok[OF i1 p(3), of G "[]"] by auto
  let ?g2 = "foldl (\<lambda>g (_, ns). AddExclGroup G ns g) (mk_graph s1) ex"
  let ?g' = "foldl (\<lambda>g c. AddCapacity G (cc_capacity c) g) ?g2 (bp_constraints bp)"
  note ex = add_excl_groups[of "mk_graph s1" G ex]
  have "x_groups (mk_graph s1) G \<noteq> None" using xl_invD(1)[OF s1(3)] by (auto simp: groups_ok_def ran)
  then have "x_groups ?g2 G \<noteq> None" using ex by (simp add: same_nodes_def)
  note caps = add_capacities[OF this, of cc_capacity "bp_constraints bp"]
  have sn: "same_nodes (mk_graph s1) ?g'" using ex caps by (simp add: same_nodes_def)
  note so = same_nodes_obs[OF sn]
  have i2: "xl_inv gp ?gq (s1\<lparr>mk_graph := ?g'\<rparr>)"
    using s1(3) sn by (auto simp: xl_inv_def groups_ok_def side_inv_def so same_nodes_def)
  have f: "fixed s1 = fixed s" using s1(2) by (auto simp: grown_def fixed_def)
  have t: "TranslateBidPortfolio p s = (Inr G, s1\<lparr>mk_graph := ?g'\<rparr>)"
    using p(1) G s1(1) by (simp add: TranslateBidPortfolio_def ok_def)
  show ?thesis
  proof (intro exI conjI, rule t, rule i2)
    show "fixed (s1\<lparr>mk_graph := ?g'\<rparr>) = fixed s" using f by (simp add: fixed_def)
    have "gcaps (mk_graph s) G = []" using go(10) by (simp add: gcaps_def)
    then show "gcaps (mk_graph (s1\<lparr>mk_graph := ?g'\<rparr>)) = (gcaps (mk_graph s))(G := map cc_capacity (bp_constraints bp))"
      using caps ex s1(2) go(12) by (simp add: grown_def)
    show "x_nodes (mk_graph s) \<subseteq>\<^sub>m x_nodes (mk_graph (s1\<lparr>mk_graph := ?g'\<rparr>))"
      using sn s1(2) go(3) by (simp add: grown_def same_nodes_def)
    show "\<forall>n nd. x_nodes (mk_graph (s1\<lparr>mk_graph := ?g'\<rparr>)) n = Some nd \<longrightarrow> x_nodes (mk_graph s) n = Some nd \<or> unit_capacities nd = []"
      using sn s1(2) go(3) by (simp add: grown_def same_nodes_def)
  qed (use sn s1(2,4,5) go new in \<open>auto simp: grown_def same_nodes_def\<close>)
qed

definition bp_done :: "(ptr \<rightharpoonup> ptr) \<Rightarrow> 'u market \<Rightarrow> ptr \<Rightarrow> bool" where
  "bp_done gq s p \<longleftrightarrow> (\<exists>bp G. mk_bps s p = Some bp \<and> (\<forall>c \<in> set (bp_constraints bp). dbl (cc_capacity c)) \<and> gq p = Some G \<and>
     gcaps (mk_graph s) G = map cc_capacity (bp_constraints bp))"

definition phase2 :: "'u market \<Rightarrow> (ptr \<rightharpoonup> ptr) \<Rightarrow> (ptr \<rightharpoonup> ptr) \<Rightarrow> ptr list \<Rightarrow> ptr set \<Rightarrow> 'u market \<Rightarrow> bool" where
  "phase2 s0 gp gq Q A s \<longleftrightarrow> xl_inv gp gq s \<and> dom gp = set (ec_requests (mk_ctx s0)) \<and>
     request_groups (mk_graph s) = map (\<lambda>p. the (gp p)) (ec_requests (mk_ctx s0)) \<and> dom gq = set Q \<and>
     supply_groups (mk_graph s) = map (\<lambda>p. the (gq p)) Q \<and> static s = static s0 \<and>
     (\<forall>p \<in> set (ec_requests (mk_ctx s0)). rp_done s0 gp s p) \<and> (\<forall>p \<in> set Q. bp_done gq s p) \<and> arc_inv A s \<and>
     (\<forall>b \<in> A. \<exists>bd bp. mk_bids s b = Some bd \<and> bd_portfolio bd \<in> set Q \<and> mk_bps s (bd_portfolio bd) = Some bp \<and> b \<in> set (bp_bids bp))"

lemma phase2D:
  assumes "phase2 s0 gp gq Q A s"
  shows "xl_inv gp gq s" "dom gp = set (ec_requests (mk_ctx s0))"
    "request_groups (mk_graph s) = map (\<lambda>p. the (gp p)) (ec_requests (mk_ctx s0))" "dom gq = set Q"
    "supply_groups (mk_graph s) = map (\<lambda>p. the (gq p)) Q" "static s = static s0" "arc_inv A s"
    "p \<in> set (ec_requests (mk_ctx s0)) \<Longrightarrow> rp_done s0 gp s p" "p \<in> set Q \<Longrightarrow> bp_done gq s p"
    "b \<in> A \<Longrightarrow> \<exists>bd bp. mk_bids s b = Some bd \<and> bd_portfolio bd \<in> set Q \<and> mk_bps s (bd_portfolio bd) = Some bp \<and> b \<in> set (bp_bids bp)"
  using assms by (simp_all add: phase2_def)

lemma phase2_group:
  assumes "phase2 s0 gp gq Q A s"
  shows "gp p = Some G \<Longrightarrow> p \<in> set (ec_requests (mk_ctx s0)) \<and> G \<in> set (request_groups (mk_graph s))"
    "gq p = Some G \<Longrightarrow> p \<in> set Q \<and> G \<in> set (supply_groups (mk_graph s))"
proof -
  note d = phase2D(2-5)[OF assms]
  show "p \<in> set (ec_requests (mk_ctx s0)) \<and> G \<in> set (request_groups (mk_graph s))" if "gp p = Some G"
    using that domI[of gp p G] image_eqI[of G "\<lambda>p. the (gp p)" p] by (simp add: d)
  show "p \<in> set Q \<and> G \<in> set (supply_groups (mk_graph s))" if "gq p = Some G"
    using that domI[of gq p G] image_eqI[of G "\<lambda>p. the (gq p)" p] by (simp add: d)
qed

lemma rp_done_cong:
  assumes "rp_done s0 gp s p" "mk_rps s' = mk_rps s" "gcaps (mk_graph s') = gcaps (mk_graph s)" "gtarget (mk_graph s') = gtarget (mk_graph s)"
    "request_to_node (mk_xl s') = request_to_node (mk_xl s)"
  shows "rp_done s0 gp s' p"
  using assms by (simp add: rp_done_def)

text \<open>One bid of the portfolio \<open>p\<close>, whose node stands in the graph already.\<close>

lemma arc_step:
  assumes ph: "phase2 s0 gp gq Q A s" and ok: "bid_ok s0 p b" "p \<in> set Q" "b \<notin> A" "map_of (bid_to_node (mk_xl s)) b = Some v"
    and bp: "mk_bps s0 p = Some bp" "\<forall>c \<in> set (bp_constraints bp). \<forall>bd. mk_bids s0 b = Some bd \<longrightarrow> conv_ok (cc_converter c) (mk_world s0) (bd_offer bd)"
      "b \<in> set (bp_bids bp)"
  shows "\<exists>s' A'. deref (mk_bids s b) s (\<lambda>bd. xl_AddArc fdist (bd_request bd) b s) = (Inr (), s') \<and> phase2 s0 gp gq Q A' s' \<and>
    A \<subseteq> A' \<and> A' \<subseteq> insert b A \<and> (\<forall>x. bid_pref s0 b = Some x \<longrightarrow> 0 < x \<longrightarrow> b \<in> A') \<and> mk_xl s' = mk_xl s"
proof -
  have st: "static s = static s0" and i: "xl_inv gp gq s" "arc_inv A s" using ph by (simp_all add: phase2_def)
  note e = staticD[OF st]
  obtain bd rq rp q x where b: "mk_bids s0 b = Some bd" "bd_portfolio bd = p" "mk_reqs s0 (bd_request bd) = Some rq"
    "rq_portfolio rq \<in> set (ec_requests (mk_ctx s0))" "mk_rps s0 (rq_portfolio rq) = Some rp" "bd_request bd \<in> set (rp_requests rp)"
    "mk_qty s0 (bd_offer bd) = Some q" "dbl q" "bid_pref s0 b = Some x" "x \<noteq> 0"
    "\<forall>c \<in> set (rp_constraints rp). conv_ok (cc_converter c) (mk_world s0) (bd_offer bd)"
    using ok(1) unfolding bid_ok_def by blast
  have "rp_done s0 gp s (rq_portfolio rq)" using ph b(4) by (simp add: phase2_def)
  then obtain c where c: "mk_rps s (rq_portfolio rq) = Some (defaulted rp c)" "is_default rp c" "rp_ok s0 (rq_portfolio rq) rp"
    "set (rp_requests rp) \<subseteq> dom (map_of (request_to_node (mk_xl s)))" using b(5) by (auto simp: rp_done_def)
  obtain u where u: "map_of (request_to_node (mk_xl s)) (bd_request bd) = Some u" using c(4) b(6) by auto
  obtain k where k: "map_of (mass_coeffs rp) (bd_request bd) = Some k" "0 < k" using c(3) b(6) by (auto simp: rp_ok_def)
  have cv: "\<forall>c \<in> set (rp_constraints rp) \<union> set (bp_constraints bp). conv_ok (cc_converter c) (mk_world s) (bd_offer bd)"
    using b(1,11) bp(2) by (auto simp: e)
  have h: "mk_bids s b = Some bd" "mk_reqs s (bd_request bd) = Some rq" "mk_bps s (bd_portfolio bd) = Some bp"
    "mk_qty s (bd_offer bd) = Some q" "bid_pref s b = Some x" using b bp(1) by (simp_all add: e del: map_option_eq_Some)
  obtain s' A' where s': "xl_AddArc fdist (bd_request bd) b s = (Inr (), s')" "A \<subseteq> A'" "A' \<subseteq> insert b A" "xl_inv gp gq s'" "arc_inv A' s'"
    "static s' = static s" "0 < x \<longrightarrow> b \<in> A'" "mk_rps s' = mk_rps s" "mk_xl s' = mk_xl s" "request_groups (mk_graph s') = request_groups (mk_graph s)"
    "supply_groups (mk_graph s') = supply_groups (mk_graph s)" "gcaps (mk_graph s') = gcaps (mk_graph s)"
    "gtarget (mk_graph s') = gtarget (mk_graph s)"
    using xl_AddArc_step[OF i ok(3) h(1,2) c(1,2) h(3,4) b(8) h(5) b(10) u ok(4) k cv, of fdist] by blast
  have "phase2 s0 gp gq Q A' s'"
    using ph s' rp_done_cong[OF _ s'(8,12,13), of s0 gp] b(2) ok(2) h(1,3) bp(3) staticD[OF s'(6)] unfolding phase2_def bp_done_def
    by (simp add: subset_iff) blast
  then show ?thesis using s'(1,2,3,7,9) h(1) b(9) by auto
qed

lemma arcs_step:
  assumes "phase2 s0 gp gq Q A s" "p \<in> set Q" "mk_bps s0 p = Some bp" "set bs \<inter> A = {}" "distinct bs" "set bs \<subseteq> dom (map_of (bid_to_node (mk_xl s)))"
    and "\<forall>b \<in> set bs. b \<in> set (bp_bids bp) \<and> bid_ok s0 p b \<and> (\<forall>c \<in> set (bp_constraints bp). \<forall>bd. mk_bids s0 b = Some bd \<longrightarrow>
      conv_ok (cc_converter c) (mk_world s0) (bd_offer bd))"
  shows "\<exists>s' A'. foreach (\<lambda>b s. deref (mk_bids s b) s (\<lambda>bd. xl_AddArc fdist (bd_request bd) b s)) bs s = (Inr (), s') \<and> phase2 s0 gp gq Q A' s' \<and>
    A \<subseteq> A' \<and> (\<forall>b \<in> set bs. \<forall>x. bid_pref s0 b = Some x \<longrightarrow> 0 < x \<longrightarrow> b \<in> A')"
  using assms
proof (induction bs arbitrary: s A)
  case Nil
  then show ?case by (auto simp: ok_def)
next
  case (Cons b bs)
  obtain v where v: "map_of (bid_to_node (mk_xl s)) b = Some v" using Cons.prems(6) by auto
  have b: "bid_ok s0 p b" "b \<notin> A" "\<forall>c \<in> set (bp_constraints bp). \<forall>bd. mk_bids s0 b = Some bd \<longrightarrow> conv_ok (cc_converter c) (mk_world s0) (bd_offer bd)"
    "b \<in> set (bp_bids bp)" using Cons.prems(4,7) by auto
  obtain s1 A1 where s1: "deref (mk_bids s b) s (\<lambda>bd. xl_AddArc fdist (bd_request bd) b s) = (Inr (), s1)" "phase2 s0 gp gq Q A1 s1"
    "A \<subseteq> A1" "A1 \<subseteq> insert b A" "\<forall>x. bid_pref s0 b = Some x \<longrightarrow> 0 < x \<longrightarrow> b \<in> A1" "mk_xl s1 = mk_xl s"
    using arc_step[OF Cons.prems(1) b(1) Cons.prems(2) b(2) v Cons.prems(3) b(3,4), of fdist] by blast
  have "set bs \<inter> A1 = {}" using s1(4) Cons.prems(4,5) by auto
  from Cons.IH[OF s1(2) Cons.prems(2,3) this] Cons.prems(5-7) s1(6) obtain s' A' where
    "foreach (\<lambda>b s. deref (mk_bids s b) s (\<lambda>bd. xl_AddArc fdist (bd_request bd) b s)) bs s1 = (Inr (), s')" "phase2 s0 gp gq Q A' s'"
    "A1 \<subseteq> A'" "\<forall>b \<in> set bs. \<forall>x. bid_pref s0 b = Some x \<longrightarrow> 0 < x \<longrightarrow> b \<in> A'" by auto
  then show ?case using s1(1,3,5) by (intro exI[of _ s'] exI[of _ A']) auto
qed

lemma translate_bp_step:
  assumes ph: "phase2 s0 gp gq Q A s" and p: "p \<notin> set Q" "mk_bps s0 p = Some bp" "bp_ok s0 p bp"
  shows "\<exists>s' G A'. translate_bp fdist p s = (Inr (), s') \<and> phase2 s0 gp (gq(p \<mapsto> G)) (Q @ [p]) A' s' \<and>
    A \<subseteq> A' \<and> (\<forall>b \<in> set (bp_bids bp). \<forall>x. bid_pref s0 b = Some x \<longrightarrow> 0 < x \<longrightarrow> b \<in> A')"
proof -
  have i: "xl_inv gp gq s" and st: "static s = static s0" and dq: "dom gq = set Q" and ar: "arc_inv A s" using ph by (simp_all add: phase2_def)
  note e = staticD[OF st]
  have bids: "distinct (bp_bids bp)" "\<forall>b \<in> set (bp_bids bp). bid_ok s0 p b \<and> (\<forall>c \<in> set (bp_constraints bp). \<forall>bd. mk_bids s0 b = Some bd \<longrightarrow>
      conv_ok (cc_converter c) (mk_world s0) (bd_offer bd))" "\<forall>c \<in> set (bp_constraints bp). dbl (cc_capacity c)"
    using p(3) by (auto simp: bp_ok_def)
  have "\<forall>b \<in> set (bp_bids bp). \<exists>bd rq q. mk_bids s b = Some bd \<and> bd_portfolio bd = p \<and> mk_reqs s (bd_request bd) = Some rq \<and>
      mk_qty s (bd_offer bd) = Some q \<and> dbl q \<and> has_manager (mk_sim s) (bd_bidder bd)"
    using bids(2) unfolding e bid_ok_def by blast
  moreover have m: "mk_bps s p = Some bp" "gq p = None" using p(1,2) dq by (auto simp: e)
  ultimately obtain s1 G where t: "TranslateBidPortfolio p s = (Inr G, s1)" "xl_inv gp (gq(p \<mapsto> G)) s1" "fixed s1 = fixed s"
    "G \<notin> ran gp" "G \<notin> ran gq" "request_groups (mk_graph s1) = request_groups (mk_graph s)"
    "supply_groups (mk_graph s1) = supply_groups (mk_graph s)" "node_arc_map (mk_graph s1) = node_arc_map (mk_graph s)"
    "gcaps (mk_graph s1) = (gcaps (mk_graph s))(G := map cc_capacity (bp_constraints bp))"
    "gtarget (mk_graph s1) = (gtarget (mk_graph s))(G := 0)" "x_nodes (mk_graph s) \<subseteq>\<^sub>m x_nodes (mk_graph s1)"
    "\<forall>n nd. x_nodes (mk_graph s1) n = Some nd \<longrightarrow> x_nodes (mk_graph s) n = Some nd \<or> unit_capacities nd = []"
    "request_to_node (mk_xl s1) = request_to_node (mk_xl s)"
    "extended (bid_to_node (mk_xl s)) (set (bp_bids bp)) (bid_to_node (mk_xl s1))"
    using TranslateBidPortfolio_ok[OF i _ _ bids(1)] by blast
  note f = fixedD[OF t(3)]
  define s2 where "s2 = s1\<lparr>mk_graph := AddSupplyGroup G (mk_graph s1)\<rparr>"
  let ?gq = "gq(p \<mapsto> G)"
  have e2: "mk_sim s2 = mk_sim s" "mk_reqs s2 = mk_reqs s" "mk_rps s2 = mk_rps s" "mk_bids s2 = mk_bids s" "mk_bps s2 = mk_bps s"
    "mk_xl s2 = mk_xl s1" using f by (simp_all add: s2_def)
  have old: "H \<noteq> G" if "gp x = Some H \<or> gq x = Some H" for x H using t(4,5) that by (auto simp: ran_def)
  have x2: "xl_inv gp ?gq s2"
    using t(2) by (auto simp: xl_inv_def s2_def groups_ok_def side_inv_def graph_simps groups_inv_def)
  have st2: "static s2 = static s0" using st fixed_static[OF t(3)] by (simp add: s2_def static_def)
  have a2: "arc_inv A s2"
    by (rule arc_inv_mono[OF ar]) (use t f in \<open>auto simp: s2_def graph_simps extended_def\<close>)
  have r2: "rp_done s0 gp s2 x" if "x \<in> set (ec_requests (mk_ctx s0))" for x
  proof -
    have "rp_done s0 gp s x" using ph that by (simp add: phase2_def)
    then show ?thesis using old[of x] t(9,10,13) e2(3) by (auto simp: rp_done_def s2_def graph_simps)
  qed
  have b2: "bp_done ?gq s2 x" if x: "x \<in> set (Q @ [p])" for x
  proof (cases "x = p")
    case True
    then show ?thesis using m bids(3) e2(5) t(9) by (simp add: bp_done_def s2_def graph_simps)
  next
    case False
    then have "bp_done gq s x" using ph x by (simp add: phase2_def)
    then show ?thesis using False old[of x] t(9) e2(5) by (auto simp: bp_done_def s2_def graph_simps)
  qed
  have "request_groups (mk_graph s2) = map (\<lambda>p. the (gp p)) (ec_requests (mk_ctx s0))" "dom ?gq = set (Q @ [p])"
    "supply_groups (mk_graph s2) = map (\<lambda>p. the (?gq p)) (Q @ [p])" "dom gp = set (ec_requests (mk_ctx s0))"
    using ph t(6,7) p(1) by (auto simp: phase2_def s2_def graph_simps)
  moreover have "\<forall>b \<in> A. \<exists>bd bp. mk_bids s2 b = Some bd \<and> bd_portfolio bd \<in> set (Q @ [p]) \<and> mk_bps s2 (bd_portfolio bd) = Some bp \<and>
      b \<in> set (bp_bids bp)" using phase2D(10)[OF ph] unfolding e2 by fastforce
  ultimately have ph2: "phase2 s0 gp ?gq (Q @ [p]) A s2" using x2 st2 a2 r2 b2 unfolding phase2_def by blast
  have "set (bp_bids bp) \<inter> A = {}"
  proof -
    have "bd_portfolio bd = p" if "b \<in> set (bp_bids bp)" "mk_bids s b = Some bd" for b bd using bids(2) that by (auto simp: bid_ok_def e)
    then show ?thesis using ph p(1) unfolding phase2_def by fastforce
  qed
  moreover have "set (bp_bids bp) \<subseteq> dom (map_of (bid_to_node (mk_xl s2)))" using t(14) by (auto simp: e2(6) extended_def)
  ultimately obtain s' A' where s': "foreach (\<lambda>b s. deref (mk_bids s b) s (\<lambda>bd. xl_AddArc fdist (bd_request bd) b s)) (bp_bids bp) s2 = (Inr (), s')"
    "phase2 s0 gp ?gq (Q @ [p]) A' s'" "A \<subseteq> A'" "\<forall>b \<in> set (bp_bids bp). \<forall>x. bid_pref s0 b = Some x \<longrightarrow> 0 < x \<longrightarrow> b \<in> A'"
    using arcs_step[OF ph2 _ p(2) _ bids(1) , of fdist] bids(2) by auto
  have "translate_bp fdist p s = (Inr (), s')"
    using t(1) s'(1) m(1) f(5) by (simp add: translate_bp_def s2_def[symmetric])
  then show ?thesis using s'(2-4) by blast
qed

text \<open>Every bid of the portfolios with a positive preference is among the bids with an arc.\<close>

definition all_arced :: "'u market \<Rightarrow> ptr list \<Rightarrow> ptr set \<Rightarrow> bool" where
  "all_arced s ps A \<longleftrightarrow> (\<forall>p \<in> set ps. \<forall>bp. mk_bps s p = Some bp \<longrightarrow> (\<forall>b \<in> set (bp_bids bp). \<forall>x. bid_pref s b = Some x \<longrightarrow> 0 < x \<longrightarrow> b \<in> A))"

lemma phase2_loop:
  assumes "phase2 s0 gp gq Q A s" "distinct (Q @ ps)" "\<forall>p \<in> set ps. \<exists>bp. mk_bps s0 p = Some bp \<and> bp_ok s0 p bp"
  shows "\<exists>s' gq' A'. foreach (translate_bp fdist) ps s = (Inr (), s') \<and> phase2 s0 gp gq' (Q @ ps) A' s' \<and> A \<subseteq> A' \<and>
    all_arced s0 ps A'"
  using assms
proof (induction ps arbitrary: s Q gq A)
  case Nil
  then show ?case by (auto simp: ok_def all_arced_def)
next
  case (Cons p ps)
  obtain bp where bp: "mk_bps s0 p = Some bp" "bp_ok s0 p bp" using Cons.prems(3) by auto
  obtain s1 G A1 where s1: "translate_bp fdist p s = (Inr (), s1)" "phase2 s0 gp (gq(p \<mapsto> G)) (Q @ [p]) A1 s1" "A \<subseteq> A1"
    "\<forall>b \<in> set (bp_bids bp). \<forall>x. bid_pref s0 b = Some x \<longrightarrow> 0 < x \<longrightarrow> b \<in> A1"
    using translate_bp_step[OF Cons.prems(1) _ bp, of fdist] Cons.prems(2) by auto
  obtain s' gq' A' where s': "foreach (translate_bp fdist) ps s1 = (Inr (), s')" "phase2 s0 gp gq' ((Q @ [p]) @ ps) A' s'" "A1 \<subseteq> A'"
    "all_arced s0 ps A'" using Cons.IH[OF s1(2)] Cons.prems(2,3) by auto
  have "all_arced s0 (p # ps) A'" using s'(3,4) s1(4) bp(1) by (auto simp: all_arced_def)
  then show ?case using s'(1,2,3) s1(1,3) by (intro exI[of _ s'] exI[of _ gq'] exI[of _ A']) auto
qed

lemma Translate_ok:
  assumes "market_ok s"
  obtains s' gp gq A where "Translate fdist s = (Inr (), s')" "phase2 s gp gq (ec_bids (mk_ctx s)) A s'" "all_arced s (ec_bids (mk_ctx s)) A"
proof -
  have m: "distinct (ec_requests (mk_ctx s))" "distinct (ec_bids (mk_ctx s))"
    "\<forall>p \<in> set (ec_requests (mk_ctx s)). \<exists>rp. mk_rps s p = Some rp \<and> rp_ok s p rp"
    "\<forall>p \<in> set (ec_bids (mk_ctx s)). \<exists>bp. mk_bps s p = Some bp \<and> bp_ok s p bp"
    using assms by (simp_all add: market_ok_def)
  obtain s1 gp where s1: "foreach translate_rp (ec_requests (mk_ctx s)) (s\<lparr>mk_graph := ExchangeGraph_new\<rparr>) = (Inr (), s1)"
    "phase1 s (ec_requests (mk_ctx s)) gp s1" using phase1_loop[OF phase1_start[OF assms] _ m(3)] m(1) by auto
  have "arc_inv {} s1" using s1(2) by (auto simp: arc_inv_def phase1_def bare_def)
  then have ph: "phase2 s gp Map.empty [] {} s1" using s1(2) by (auto simp: phase2_def phase1_def bare_def)
  have c: "ec_bids (mk_ctx s1) = ec_bids (mk_ctx s)" using s1(2) staticD(6)[of s1 s] by (simp add: phase1_def)
  obtain s' gq A where "foreach (translate_bp fdist) (ec_bids (mk_ctx s)) s1 = (Inr (), s')" "phase2 s gp gq (ec_bids (mk_ctx s)) A s'"
    "all_arced s (ec_bids (mk_ctx s)) A" using phase2_loop[OF ph _ m(4), of fdist] m(2) by auto
  then show ?thesis using that s1(1) c by (simp add: Translate_def)
qed

section \<open>The graph is well formed\<close>

lemma rp_group:
  assumes "phase2 s0 gp gq Q A s" "p \<in> set (ec_requests (mk_ctx s0))"
  obtains rp c G where "mk_rps s0 p = Some rp" "rp_ok s0 p rp" "mk_rps s p = Some (defaulted rp c)" "is_default rp c" "gp p = Some G"
    "gtarget (mk_graph s) G = rp_qty rp" "gcaps (mk_graph s) G = map cc_capacity (rp_constraints rp) @ [rp_qty rp]"
  using assms by (auto simp: phase2_def rp_done_def)

lemma arc_good:
  assumes ph: "phase2 s0 gp gq Q A s" and b: "b \<in> A" "arc_pair s b = Some (arc_key a)"
  shows "good_arc (mk_graph s) a"
proof -
  have i: "xl_inv gp gq s" "arc_done s b" "static s = static s0" using ph b(1) by (simp_all add: phase2_def arc_inv_def)
  note d = xl_invD[OF i(1)]
  obtain bd rq rp bp q u v nu nv a' x where h: "mk_bids s b = Some bd" "mk_reqs s (bd_request bd) = Some rq"
    "mk_rps s (rq_portfolio rq) = Some rp" "mk_bps s (bd_portfolio bd) = Some bp" "mk_qty s (bd_offer bd) = Some q"
    "arc_pair s b = Some (u, v)" "x_nodes (mk_graph s) u = Some nu" "x_nodes (mk_graph s) v = Some nv"
    "omap_sub [] (unit_capacities nu) (u, v) = map (unit_of s bd q) (rp_constraints rp)"
    "omap_sub [] (unit_capacities nv) (u, v) = map (unit_of s bd q) (bp_constraints bp)"
    "\<forall>c \<in> set (rp_constraints rp) \<union> set (bp_constraints bp). 0 < unit_of s bd q c"
    "map_of (prefs nu) (u, v) = Some (a', x)" "0 < x" by (rule arc_doneE[OF i(2)])
  have a: "a_unode a = u" "a_vnode a = v" "arc_key a = (u, v)" using b(2) h(6) by (auto simp: arc_key_def)
  have n: "map_of (request_to_node (mk_xl s)) (bd_request bd) = Some u" "map_of (bid_to_node (mk_xl s)) b = Some v"
    using h(1,6) by (auto simp: arc_pair_def bind_eq_Some_conv)
  obtain p G where g: "req_port s (bd_request bd) = Some p" "gp p = Some G" "ngroup (mk_graph s) u = Some G"
    "target_qty s (bd_request bd) = Some (nqty (mk_graph s) u)" by (rule side_invE[OF d(6) n(1)])
  obtain p' G' where g': "bid_port s b = Some p'" "gq p' = Some G'" "ngroup (mk_graph s) v = Some G'"
    "offer_qty s b = Some (nqty (mk_graph s) v)" by (rule side_invE[OF d(7) n(2)])
  have p: "p = rq_portfolio rq" "p' = bd_portfolio bd" using g(1) g'(1) h(1,2) by simp_all
  have P: "p \<in> set (ec_requests (mk_ctx s0))" "p' \<in> set Q" "G \<in> set (request_groups (mk_graph s))" "G' \<in> set (supply_groups (mk_graph s))"
    using phase2_group[OF ph] g(2) g'(2) by blast+
  have "gcaps (mk_graph s) G = map cc_capacity (rp_constraints rp)"
    by (rule rp_group[OF ph P(1)]) (use g(2) h(3) p(1) in \<open>auto simp: defaulted_def is_default_def\<close>)
  moreover have "bp_done gq s p'" by (rule phase2D(9)[OF ph P(2)])
  then have "gcaps (mk_graph s) G' = map cc_capacity (bp_constraints bp)" using g'(2) h(4) p(2) by (auto simp: bp_done_def)
  ultimately show ?thesis using P(3,4) g(3) g'(3) h(7-13) unfolding good_arc_def
    by (auto simp: a ucaps_def npref_def unit_caps_at_def pref_at_def)
qed

lemma good_arc_bid:
  assumes ph: "phase2 s0 gp gq Q A s" and a: "good_arc (mk_graph s) a"
  shows "\<exists>b \<in> A. arc_pair s b = Some (arc_key a)"
proof -
  obtain G where G: "ngroup (mk_graph s) (a_unode a) = Some G" "G \<in> set (request_groups (mk_graph s))"
    "length (ucaps (mk_graph s) (a_unode a) a) = length (gcaps (mk_graph s) G)" using a by (auto simp: good_arc_def)
  obtain p where p: "p \<in> set (ec_requests (mk_ctx s0))" "the (gp p) = G" using G(2) ph by (auto simp: phase2_def)
  have "gcaps (mk_graph s) G \<noteq> []" by (rule rp_group[OF ph p(1)]) (use p(2) in auto)
  then have "ucaps (mk_graph s) (a_unode a) a \<noteq> []" using G(3) by auto
  then obtain nd where "x_nodes (mk_graph s) (a_unode a) = Some nd" "map_of (unit_capacities nd) (arc_key a) \<noteq> None"
    by (auto simp: ucaps_def unit_caps_at_def omap_sub_def split: option.splits)
  then show ?thesis using ph unfolding phase2_def arc_inv_def by blast
qed

lemma phase2_groups:
  assumes ph: "phase2 s0 gp gq Q A s" and G: "G \<in> set (request_groups (mk_graph s) @ supply_groups (mk_graph s))"
  shows "\<forall>c \<in> set (gcaps (mk_graph s) G). dbl c"
proof (cases "G \<in> set (request_groups (mk_graph s))")
  case True
  then obtain p where p: "p \<in> set (ec_requests (mk_ctx s0))" "the (gp p) = G" using ph by (auto simp: phase2_def)
  show ?thesis by (rule rp_group[OF ph p(1)]) (use p(2) in \<open>auto simp: rp_ok_def\<close>)
next
  case False
  then obtain p where "p \<in> set Q" "the (gq p) = G" using ph G by (auto simp: phase2_def)
  then show ?thesis using ph by (force simp: phase2_def bp_done_def)
qed

lemma phase2_wf:
  assumes ph: "phase2 s0 gp gq Q A s" and dis: "distinct (ec_requests (mk_ctx s0))" "distinct Q"
  shows "wf_graph (mk_graph s)" "positive_targets (mk_graph s)" "matches (mk_graph s) = []"
proof -
  have i: "xl_inv gp gq s" using ph by (simp add: phase2_def)
  have go: "groups_ok gp gq (mk_graph s)" and gi: "groups_inv (mk_graph s)" using xl_invD(1,2)[OF i] by simp_all
  let ?g = "mk_graph s"
  have dm: "dom gp = set (ec_requests (mk_ctx s0))" "request_groups ?g = map (\<lambda>p. the (gp p)) (ec_requests (mk_ctx s0))"
    "dom gq = set Q" "supply_groups ?g = map (\<lambda>p. the (gq p)) Q" using ph by (simp_all add: phase2_def)
  have inj: "inj_on (\<lambda>p. the (m p)) (dom m)" if "inj_on m (dom m)" for m :: "ptr \<rightharpoonup> ptr"
    using that unfolding inj_on_def by (metis domD option.sel)
  have rg: "set (request_groups ?g) \<subseteq> ran gp" "set (supply_groups ?g) \<subseteq> ran gq"
    unfolding dm(2,4) dm(1)[symmetric] set_map dm(3)[symmetric] by (auto simp: ran_def)
  have "distinct (request_groups ?g)" "distinct (supply_groups ?g)"
    using go dis inj[of gp] inj[of gq] dm unfolding groups_ok_def by (simp_all add: distinct_map)
  then have "distinct (request_groups ?g @ supply_groups ?g)" using rg xl_invD(5)[OF i] unfolding distinct_append by blast
  moreover have "x_groups ?g G \<noteq> None \<and> distinct (gnodes ?g G) \<and> (\<forall>n \<in> set (gnodes ?g G). ngroup ?g n = Some G) \<and>
      (\<forall>c \<in> set (gcaps ?g G). 0 \<le> c \<and> c \<le> DBL_MAX)" if G: "G \<in> set (request_groups ?g @ supply_groups ?g)" for G
    using go gi rg G phase2_groups[OF ph G] unfolding groups_ok_def groups_inv_def dbl_def by (metis (no_types, lifting) Un_iff in_mono less_imp_le set_append)
  moreover have "a_unode a = n \<and> good_arc ?g a"
    if G: "G \<in> set (request_groups ?g)" "n \<in> set (gnodes ?g G)" "map_of (node_arc_map ?g) n = Some as" "a \<in> set as" for G n as a
  proof -
    obtain b where b: "n = a_unode a \<or> n = a_vnode a" "b \<in> A" "arc_pair s b = Some (arc_key a)"
      using ph G(3,4) unfolding phase2_def arc_inv_def by meson
    have "map_of (bid_to_node (mk_xl s)) b = Some (a_vnode a)" using b(3) by (auto simp: arc_pair_def arc_key_def bind_eq_Some_conv)
    then obtain p' G' where "gq p' = Some G'" "ngroup ?g (a_vnode a) = Some G'" by (rule side_invE[OF xl_invD(7)[OF i]]) blast
    moreover have "ngroup ?g n = Some G" "G \<in> ran gp" using gi G(1,2) rg(1) by (auto simp: groups_inv_def)
    ultimately have "n \<noteq> a_vnode a" using xl_invD(5)[OF i] by (metis IntI empty_iff option.inject ranI)
    then show ?thesis using b arc_good[OF ph b(2,3)] by simp
  qed
  ultimately show "wf_graph ?g" using go unfolding wf_graph_def groups_ok_def by blast
  show "positive_targets ?g" unfolding positive_targets_def dm(2)
  proof (clarsimp)
    fix p assume "p \<in> set (ec_requests (mk_ctx s0))"
    then show "0 \<le> gtarget ?g (the (gp p))" by (rule rp_group[OF ph]) (auto simp: rp_ok_def dbl_def)
  qed
  show "matches ?g = []" using go by (simp add: groups_ok_def)
qed

section \<open>Trades\<close>

definition trade_of :: "xlation \<Rightarrow> arc \<times> double \<Rightarrow> trade" where
  "trade_of xl m = \<lparr>t_request = the (map_of (node_to_request xl) (a_unode (fst m))), t_bid = the (map_of (node_to_bid xl) (a_vnode (fst m))),
     t_amt = snd m, t_price = 0\<rparr>"

lemma back_all:
  assumes "\<forall>m \<in> set M. map_of (node_to_request xl) (a_unode (fst m)) \<noteq> None \<and> map_of (node_to_bid xl) (a_vnode (fst m)) \<noteq> None"
  shows "BackTranslateSolution xl M ret = Inr (ret @ map (trade_of xl) M)"
  using assms by (induction M arbitrary: ret) (auto simp: BackTranslateMatch_def trade_of_def)

text \<open>The trade of a match is on the bid the arc was made for, and on the request that bid answers.\<close>

lemma back_bid:
  assumes ph: "phase2 s0 gp gq Q A s" and a: "good_arc (mk_graph s) a"
  obtains b bd where "b \<in> A" "mk_bids s0 b = Some bd" "arc_pair s b = Some (arc_key a)" "bd_portfolio bd \<in> set Q"
    "map_of (node_to_request (mk_xl s)) (a_unode a) = Some (bd_request bd)" "map_of (node_to_bid (mk_xl s)) (a_vnode a) = Some b"
proof -
  obtain b where b: "b \<in> A" "arc_pair s b = Some (arc_key a)" using good_arc_bid[OF ph a] by blast
  have "static s = static s0" using ph by (simp add: phase2_def)
  then have st: "mk_bids s = mk_bids s0" by (rule staticD(3))
  obtain bd where bd: "mk_bids s b = Some bd" "bd_portfolio bd \<in> set Q" using ph b(1) by (auto simp: phase2_def)
  have "map_of (request_to_node (mk_xl s)) (bd_request bd) = Some (a_unode a)" "map_of (bid_to_node (mk_xl s)) b = Some (a_vnode a)"
    using b(2) bd(1) by (auto simp: arc_pair_def arc_key_def bind_eq_Some_conv)
  then show ?thesis using that b bd st ph unfolding phase2_def xl_inv_def links_def by metis
qed

end
