(* ===== verification/Market_Demo.thy ===== *)
theory Market_Demo
  imports Market_State
begin

text \<open>
  A small market on which the properties of the exchange are instantiated.
\<close>

text \<open>A market with a request for 5 units and an offer of 8 of which the bidder can deliver at most 4.\<close>

definition demo_res :: "double \<Rightarrow> resource" where
  "demo_res q = \<lparr>state_id = 1, obj_id = 1, quantity = q, has_ctx = False, parent1 = 0, parent2 = 0, tracked = False, tracker_res = 0,
     body = ProdBody ''ore''\<rparr>"

definition demo_agent :: "int \<Rightarrow> agent" where
  "demo_agent i = \<lparr>ag_kind = KFacility, ag_id = i, ag_prototype = ''mine'', ag_spec = '':agents:Mine'', ag_lifetime = -1, ag_enter_time = 0,
     ag_parent = None, ag_parent_id = -1, ag_children = []\<rparr>"

definition demo_sim :: "unit sim" where
  "demo_sim = (Context_new (SimInfo_new (0, 0) 3 2000 1 [] ''manual'')
     ((init_world ''manual'' 1)\<lparr>w_res := [0 \<mapsto> demo_res 5, 1 \<mapsto> demo_res 8], w_next := 2\<rparr>) ())
     \<lparr>s_agents := [0 \<mapsto> demo_agent 0, 1 \<mapsto> demo_agent 1], managers := [0 \<mapsto> 0, 1 \<mapsto> 1], s_traders := [0, 1]\<rparr>"

definition demo_bp :: bid_portfolio where
  "demo_bp = \<lparr>bp_bids = [2], bp_constraints = [\<lparr>cc_capacity = 4, cc_converter = TrivialConverter, cc_id = 0\<rparr>], bp_bidder = Some 1\<rparr>"

definition demo_rp :: req_portfolio where
  "demo_rp = \<lparr>rp_requests = [0], mass_coeffs = [(0, 1)], rp_constraints = [], rp_qty = 5, rp_requester = Some 0\<rparr>"

definition demo_bid :: bid where
  "demo_bid = \<lparr>bd_request = 0, bd_offer = 1, bd_bidder = Some 1, bd_portfolio = 3, bd_exclusive = False, bd_preference = None\<rparr>"

definition demo_market :: "unit market" where
  "demo_market = (market_new 1 demo_sim)\<lparr>
     mk_reqs := [0 \<mapsto> \<lparr>rq_target = 0, rq_requester = Some 0, rq_preference = 1, rq_commodity = ''ore'', rq_portfolio = 1,
       rq_exclusive = False, rq_cost_function = None\<rparr>],
     mk_rps := [1 \<mapsto> demo_rp], mk_bids := [2 \<mapsto> demo_bid], mk_bps := [3 \<mapsto> demo_bp], mk_next := 4,
     mk_ctx := \<lparr>ec_requests = [1], ec_bids = [3], ec_requesters = [Some 0], ec_bidders = [Some 1], commod_requests = [(''ore'', [0])],
       bids_by_request = [(0, [2])], trader_prefs = [(Some 0, [(0, [(2, 1)])])]\<rparr>\<rparr>"

end
