(* ===== verification/Market_Properties.thy ===== *)
theory Market_Properties
  imports Market_Solution Market_Demo
begin

text \<open>
  The correctness of a resource exchange: the trades that come out of translating, solving and
  translating back respect every offer, request, portfolio and constraint of the market.
\<close>

section \<open>Sums over trades\<close>

definition traded :: "(trade \<Rightarrow> bool) \<Rightarrow> (trade \<Rightarrow> double) \<Rightarrow> trade list \<Rightarrow> double" where
  "traded P f ts = sum_list (map (\<lambda>t. t_amt t * f t) (filter P ts))"

lemma traded_map: "traded P f (map h M) = sum_list (map (\<lambda>m. if P (h m) then t_amt (h m) * f (h m) else 0) M)"
  by (induction M) (simp_all add: traded_def)

lemma traded_le:
  assumes "\<And>m. m \<in> set M \<Longrightarrow> (if P (h m) then t_amt (h m) * f (h m) else 0) \<le> g m"
  shows "traded P f (map h M) \<le> sum_list (map g M)"
  unfolding traded_map using assms by (rule sum_list_mono)

text \<open>The unit capacity of the offer of a bid under a constraint.\<close>

definition offer_unit :: "'u market \<Rightarrow> constraint \<Rightarrow> ptr \<Rightarrow> double" where
  "offer_unit s c b = (case mk_bids s b of None \<Rightarrow> 0
     | Some bd \<Rightarrow> conv_val (cc_converter c) (mk_world s) (bd_offer bd) / the (mk_qty s (bd_offer bd)))"

lemma bid_trades:
  assumes ph: "phase2 s0 gp gq Q A s" and M: "good_matches eps (mk_graph s) M" "within_nodes r (mk_graph s) M" "0 \<le> eps"
    and b: "map_of (bid_to_node (mk_xl s)) b = Some v" "offer_qty s0 b = Some q"
  shows "traded (\<lambda>t. t_bid t = b) (\<lambda>_. 1) (map (trade_of (mk_xl s)) M) \<le> q * (1 + r)"
proof -
  have i: "xl_inv gp gq s" "static s = static s0" using ph by (simp_all add: phase2_def)
  have n: "nqty (mk_graph s) v = q"
    by (rule side_invE[OF xl_invD(7)[OF i(1)] b(1)]) (use b(2) staticD(9)[OF i(2)] in simp)
  have "traded (\<lambda>t. t_bid t = b) (\<lambda>_. 1) (map (trade_of (mk_xl s)) M) \<le> node_use M v" unfolding node_use_def
  proof (rule traded_le)
    fix m assume m: "m \<in> set M"
    then have g: "eps < snd m" "good_arc (mk_graph s) (fst m)" using M(1) by (auto simp: good_matches_def)
    obtain b' where b': "map_of (node_to_bid (mk_xl s)) (a_vnode (fst m)) = Some b'" by (rule back_bid[OF ph g(2)])
    have "a_vnode (fst m) = v" if "b' = b" using b(1) b' that xl_invD(4)[OF i(1)] unfolding matched_def by (metis option.inject)
    then show "(if t_bid (trade_of (mk_xl s) m) = b then t_amt (trade_of (mk_xl s) m) * 1 else 0) \<le>
        (\<lambda>(a, q). (if a_unode a = v then q else 0) + (if a_vnode a = v then q else 0)) m"
      using g(1) M(3) b' by (auto simp: trade_of_def case_prod_beta)
  qed
  also have "\<dots> \<le> q * (1 + r)" using M(2) n by (auto simp: within_nodes_def)
  finally show ?thesis .
qed

lemma request_trades:
  assumes ph: "phase2 s0 gp gq Q A s" and M: "good_matches eps (mk_graph s) M" "within_nodes r (mk_graph s) M" "0 \<le> eps"
    and b: "map_of (request_to_node (mk_xl s)) b = Some v" "target_qty s0 b = Some q"
  shows "traded (\<lambda>t. t_request t = b) (\<lambda>_. 1) (map (trade_of (mk_xl s)) M) \<le> q * (1 + r)"
proof -
  have i: "xl_inv gp gq s" "static s = static s0" using ph by (simp_all add: phase2_def)
  have n: "nqty (mk_graph s) v = q"
    by (rule side_invE[OF xl_invD(6)[OF i(1)] b(1)]) (use b(2) staticD(8)[OF i(2)] in simp)
  have "traded (\<lambda>t. t_request t = b) (\<lambda>_. 1) (map (trade_of (mk_xl s)) M) \<le> node_use M v" unfolding node_use_def
  proof (rule traded_le)
    fix m assume m: "m \<in> set M"
    then have g: "eps < snd m" "good_arc (mk_graph s) (fst m)" using M(1) by (auto simp: good_matches_def)
    obtain b' where b': "map_of (node_to_request (mk_xl s)) (a_unode (fst m)) = Some b'" by (rule back_bid[OF ph g(2)])
    have "a_unode (fst m) = v" if "b' = b" using b(1) b' that xl_invD(3)[OF i(1)] unfolding matched_def by (metis option.inject)
    then show "(if t_request (trade_of (mk_xl s) m) = b then t_amt (trade_of (mk_xl s) m) * 1 else 0) \<le>
        (\<lambda>(a, q). (if a_unode a = v then q else 0) + (if a_vnode a = v then q else 0)) m"
      using g(1) M(3) b' by (auto simp: trade_of_def case_prod_beta)
  qed
  also have "\<dots> \<le> q * (1 + r)" using M(2) n by (auto simp: within_nodes_def)
  finally show ?thesis .
qed

lemma portfolio_trades:
  assumes ph: "phase2 s0 gp gq Q A s" and M: "good_matches eps (mk_graph s) M" "0 \<le> eps"
    "\<forall>p \<in> set (request_groups (mk_graph s)). group_sum (mk_graph s) M p \<le> gtarget (mk_graph s) p * (1 + r)"
    and p: "p \<in> set (ec_requests (mk_ctx s0))" "mk_rps s0 p = Some rp"
  shows "traded (\<lambda>t. req_port s0 (t_request t) = Some p) (\<lambda>_. 1) (map (trade_of (mk_xl s)) M) \<le> rp_qty rp * (1 + r)"
proof -
  have i: "xl_inv gp gq s" "static s = static s0" using ph by (simp_all add: phase2_def)
  obtain G where G: "gp p = Some G" "gtarget (mk_graph s) G = rp_qty rp" by (rule rp_group[OF ph p(1)]) (use p(2) in auto)
  have "traded (\<lambda>t. req_port s0 (t_request t) = Some p) (\<lambda>_. 1) (map (trade_of (mk_xl s)) M) \<le> group_sum (mk_graph s) M G"
    unfolding group_sum_def
  proof (rule traded_le)
    fix m assume m: "m \<in> set M"
    then have g: "eps < snd m" "good_arc (mk_graph s) (fst m)" using M(1) by (auto simp: good_matches_def)
    obtain r' where r': "map_of (node_to_request (mk_xl s)) (a_unode (fst m)) = Some r'" by (rule back_bid[OF ph g(2)])
    then have "map_of (request_to_node (mk_xl s)) r' = Some (a_unode (fst m))" using xl_invD(3)[OF i(1)] by (simp add: matched_def)
    then obtain p' G' where "req_port s r' = Some p'" "gp p' = Some G'" "ngroup (mk_graph s) (a_unode (fst m)) = Some G'"
      by (rule side_invE[OF xl_invD(6)[OF i(1)]])
    then have "ngroup (mk_graph s) (a_unode (fst m)) = Some G" if "req_port s0 r' = Some p" using G(1) that staticD(2)[OF i(2)] by simp
    then show "(if req_port s0 (t_request (trade_of (mk_xl s) m)) = Some p then t_amt (trade_of (mk_xl s) m) * 1 else 0) \<le>
        (\<lambda>(a, q). if ngroup (mk_graph s) (a_unode a) = Some G then q else 0) m"
      using g(1) M(2) r' by (auto simp: trade_of_def case_prod_beta)
  qed
  also have "\<dots> \<le> rp_qty rp * (1 + r)" using M(3) phase2_group(1)[OF ph G(1)] G(2) by auto
  finally show ?thesis .
qed

lemma arc_constraint_use:
  assumes ph: "phase2 s0 gp gq Q A s" and ok: "market_ok s0" "Q = ec_bids (mk_ctx s0)"
    and G: "gq p = Some G" "gcaps (mk_graph s) G = map cc_capacity (bp_constraints bp)"
    and i: "i < length (bp_constraints bp)" "bp_constraints bp ! i = c" and p: "p \<in> set Q" "mk_bps s0 p = Some bp"
    and b: "b \<in> A" "mk_bids s0 b = Some bd" "arc_pair s b = Some (arc_key a)"
  shows "0 \<le> arc_use (mk_graph s) G i a \<and> (bid_port s0 b = Some p \<longrightarrow> arc_use (mk_graph s) G i a = offer_unit s0 c b)"
proof -
  note d = phase2D[OF ph]
  note e = staticD[OF d(6)] and x = xl_invD[OF d(1)]
  let ?g = "mk_graph s"
  have "arc_done s b" using d(7) b(1) by (simp add: arc_inv_def)
  then obtain bd' rq rp bp' q u v nu nv a' y where h: "mk_bids s b = Some bd'" "mk_reqs s (bd_request bd') = Some rq"
    "mk_rps s (rq_portfolio rq) = Some rp" "mk_bps s (bd_portfolio bd') = Some bp'" "mk_qty s (bd_offer bd') = Some q"
    "arc_pair s b = Some (u, v)" "x_nodes ?g u = Some nu" "x_nodes ?g v = Some nv"
    "omap_sub [] (unit_capacities nu) (u, v) = map (unit_of s bd' q) (rp_constraints rp)"
    "omap_sub [] (unit_capacities nv) (u, v) = map (unit_of s bd' q) (bp_constraints bp')"
    "\<forall>c \<in> set (rp_constraints rp) \<union> set (bp_constraints bp'). 0 < unit_of s bd' q c"
    "map_of (prefs nu) (u, v) = Some (a', y)" "0 < y" by (rule arc_doneE)
  have bd: "bd' = bd" using h(1) b(2) e(3) by simp
  have a: "a_unode a = u" "a_vnode a = v" "arc_key a = (u, v)" using b(3) h(6) by (auto simp: arc_key_def)
  have n: "map_of (request_to_node (mk_xl s)) (bd_request bd) = Some u" "map_of (bid_to_node (mk_xl s)) b = Some v"
    using h(1,6) bd by (auto simp: arc_pair_def bind_eq_Some_conv)
  obtain p1 G1 where g1: "gp p1 = Some G1" "ngroup ?g u = Some G1" by (rule side_invE[OF x(6) n(1)])
  obtain p2 G2 where g2: "bid_port s b = Some p2" "gq p2 = Some G2" "ngroup ?g v = Some G2" by (rule side_invE[OF x(7) n(2)])
  have "ngroup ?g u \<noteq> Some G" using g1 G(1) x(5) by (metis IntI empty_iff option.inject ranI)
  then have use: "arc_use ?g G i a = (if ngroup ?g v = Some G then map (unit_of s bd q) (bp_constraints bp') ! i else 0)"
    using h(8,10) bd by (simp add: arc_use_def a ucaps_def unit_caps_at_def)
  show ?thesis
  proof (cases "ngroup ?g v = Some G")
    case True
    then have "p2 = p" using g2(2,3) G(1) x(1) unfolding groups_ok_def inj_on_def by (metis domI option.inject)
    then have pp: "bd_portfolio bd = p" "bp' = bp" using g2(1) h(1,4) bd p(2) e(4) by auto
    have "b \<in> set (bp_bids bp)" using d(10)[OF b(1)] b(2) p(2) pp e(3,4) by auto
    then have "conv_ok (cc_converter c) (mk_world s) (bd_offer bd)" "0 < q"
      using ok p i b(2) h(5) bd e(1) nth_mem[OF i(1)] by (force simp: market_ok_def bp_ok_def bid_ok_def dbl_def)+
    then have "unit_of s bd q c = offer_unit s0 c b" "0 < unit_of s bd q c"
      using unit_of_conv_ok[of c s bd q] b(2) h(5) bd e(1) by (auto simp: offer_unit_def)
    then show ?thesis using True i by (simp add: use pp)
  next
    case False
    then have "bid_port s0 b \<noteq> Some p" using g2 G(1) e(3) by auto
    then show ?thesis using False by (auto simp: use)
  qed
qed

lemma constraint_trades:
  assumes ph: "phase2 s0 gp gq Q A s" and ok: "market_ok s0" "Q = ec_bids (mk_ctx s0)" and M: "good_matches eps (mk_graph s) M" "0 \<le> eps"
    "within_caps r (mk_graph s) M" and p: "p \<in> set Q" "mk_bps s0 p = Some bp" "c \<in> set (bp_constraints bp)" "cc_capacity c \<noteq> DBL_MAX"
  shows "traded (\<lambda>t. bid_port s0 (t_bid t) = Some p) (\<lambda>t. offer_unit s0 c (t_bid t)) (map (trade_of (mk_xl s)) M) \<le> cc_capacity c * (1 + r)"
proof -
  note d = phase2D[OF ph]
  note e = staticD[OF d(6)]
  obtain G where G: "gq p = Some G" "gcaps (mk_graph s) G = map cc_capacity (bp_constraints bp)"
    using d(9)[OF p(1)] p(2) e(4) by (auto simp: bp_done_def)
  obtain i where i: "i < length (bp_constraints bp)" "bp_constraints bp ! i = c" using p(3) by (auto simp: in_set_conv_nth)
  have "traded (\<lambda>t. bid_port s0 (t_bid t) = Some p) (\<lambda>t. offer_unit s0 c (t_bid t)) (map (trade_of (mk_xl s)) M) \<le> cap_use (mk_graph s) M G i"
    unfolding cap_use_def
  proof (rule traded_le)
    fix m assume m: "m \<in> set M"
    then have g: "eps < snd m" "good_arc (mk_graph s) (fst m)" using M(1) by (auto simp: good_matches_def)
    obtain b bd where b: "b \<in> A" "mk_bids s0 b = Some bd" "arc_pair s b = Some (arc_key (fst m))"
      "map_of (node_to_bid (mk_xl s)) (a_vnode (fst m)) = Some b" by (rule back_bid[OF ph g(2)])
    have use: "0 \<le> arc_use (mk_graph s) G i (fst m)" "bid_port s0 b = Some p \<Longrightarrow> arc_use (mk_graph s) G i (fst m) = offer_unit s0 c b"
      using arc_constraint_use[OF ph ok G i p(1,2) b(1-3)] by blast+
    then show "(if bid_port s0 (t_bid (trade_of (mk_xl s) m)) = Some p then t_amt (trade_of (mk_xl s) m) * offer_unit s0 c (t_bid (trade_of (mk_xl s) m)) else 0)
        \<le> (\<lambda>(a, q). q * arc_use (mk_graph s) G i a) m"
      using b(4) g(1) M(2) by (auto simp: trade_of_def case_prod_beta)
  qed
  also have "\<dots> \<le> cc_capacity c * (1 + r)"
    using M(3) phase2_group(2)[OF ph G(1)] G(2) i p(4) unfolding within_caps_def by (metis length_map nth_map)
  finally show ?thesis .
qed

section \<open>The exchange\<close>

definition all_quantities :: "'u market \<Rightarrow> (double \<Rightarrow> bool) \<Rightarrow> bool" where
  "all_quantities s P \<longleftrightarrow> (\<forall>p res. w_res (mk_world s) p = Some res \<longrightarrow> P (quantity res))"

lemma node_quantities:
  assumes ph: "phase2 s0 gp gq Q A s" and P: "all_quantities s0 P" "P 0"
  shows "P (nqty (mk_graph s) n)"
proof (cases "x_nodes (mk_graph s) n")
  case None
  then show ?thesis using P(2) by (simp add: nqty_def)
next
  case (Some nd)
  note d = phase2D[OF ph]
  note x = xl_invD[OF d(1)] and e = staticD[OF d(6)]
  have q: "P (the (target_qty s r))" if "target_qty s r \<noteq> None" for r
    using that P(1) e(1) by (auto simp: target_qty_def all_quantities_def bind_eq_Some_conv)
  have q': "P (the (offer_qty s b))" if "offer_qty s b \<noteq> None" for b
    using that P(1) e(1) by (auto simp: offer_qty_def all_quantities_def bind_eq_Some_conv)
  have "ngroup (mk_graph s) n \<noteq> None" using Some x(2) by (simp add: groups_inv_def)
  then obtain G where G: "ngroup (mk_graph s) n = Some G" by auto
  have "G \<in> ran gp \<union> ran gq" using x(1) ngroup_alive[OF x(2) G] unfolding groups_ok_def by blast
  then consider p where "gp p = Some G" | p where "gq p = Some G" by (auto simp: ran_def)
  then show ?thesis
  proof cases
    case 1
    then have "map_of (node_to_request (mk_xl s)) n \<noteq> None" using x(6) G unfolding side_inv_def by blast
    then obtain r where "map_of (request_to_node (mk_xl s)) r = Some n" using x(3) by (auto simp: matched_def)
    then have "target_qty s r = Some (nqty (mk_graph s) n)" by (rule side_invE[OF x(6)])
    then show ?thesis using q[of r] by simp
  next
    case 2
    then have "map_of (node_to_bid (mk_xl s)) n \<noteq> None" using x(7) G unfolding side_inv_def by blast
    then obtain b where "map_of (bid_to_node (mk_xl s)) b = Some n" using x(4) by (auto simp: matched_def)
    then have "offer_qty s b = Some (nqty (mk_graph s) n)" by (rule side_invE[OF x(7)])
    then show ?thesis using q'[of b] by simp
  qed
qed

lemma exchange_facts:
  assumes ok: "market_ok s" and ulp: "ulp_bound (env_eps env) (env_fdist env) r" and fine: "all_quantities s (\<lambda>q. r * q \<le> env_eps env)"
  obtains s1 gp gq A s2 obj M where "Translate (env_fdist env) s = (Inr (), s1)" "phase2 s gp gq (ec_bids (mk_ctx s)) A s1"
    "solve_market env s1 = (Inr obj, s2)" "mk_xl s2 = mk_xl s1" "matches (mk_graph s2) = M"
    "BackTranslateSolution (mk_xl s2) M [] = Inr (map (trade_of (mk_xl s1)) M)"
    "good_matches (env_eps env) (mk_graph s1) M" "within_nodes r (mk_graph s1) M" "within_caps r (mk_graph s1) M"
    "\<forall>p \<in> set (request_groups (mk_graph s1)). group_sum (mk_graph s1) M p \<le> gtarget (mk_graph s1) p * (1 + r)"
proof -
  obtain s1 gp gq A where t: "Translate (env_fdist env) s = (Inr (), s1)" "phase2 s gp gq (ec_bids (mk_ctx s)) A s1"
    by (rule Translate_ok[OF ok])
  have dis: "distinct (ec_requests (mk_ctx s))" "distinct (ec_bids (mk_ctx s))" using ok by (simp_all add: market_ok_def)
  note wf = phase2_wf[OF t(2) dis]
  let ?sv = "env_solver env\<lparr>gs_graph := mk_graph s1\<rparr>"
  have g: "gs_graph ?sv = mk_graph s1" by simp
  have fq: "fine_qty (env_eps env) r (mk_graph s1)"
    using node_quantities[OF t(2) fine] ulp unfolding fine_qty_def by (simp add: ulp_bound_def)
  obtain sv M where M: "SolveGraph (env_eps env) (env_fdist env) ?sv = (Inr (gs_obj sv), sv)" "matches (gs_graph sv) = matches (mk_graph s1) @ M"
    "good_matches (env_eps env) (mk_graph s1) M" "within_nodes r (mk_graph s1) M" "within_caps r (mk_graph s1) M"
    "\<forall>p \<in> set (request_groups (mk_graph s1)). group_sum (mk_graph s1) M p \<le> gtarget (mk_graph s1) p * (1 + r)"
    by (rule solve_facts[where s = ?sv, unfolded g, OF wf(1) ulp fq wf(2)])
  have s2: "solve_market env s1 = (Inr (gs_obj sv), s1\<lparr>mk_graph := gs_graph sv\<rparr>)" using M(1) by (simp add: solve_market_def Solve_def)
  have "BackTranslateSolution (mk_xl s1) M [] = Inr ([] @ map (trade_of (mk_xl s1)) M)"
  proof (rule back_all, rule ballI)
    fix m assume "m \<in> set M"
    then have "good_arc (mk_graph s1) (fst m)" using M(3) by (auto simp: good_matches_def)
    then show "map_of (node_to_request (mk_xl s1)) (a_unode (fst m)) \<noteq> None \<and> map_of (node_to_bid (mk_xl s1)) (a_vnode (fst m)) \<noteq> None"
      by (rule back_bid[OF t(2)]) simp
  qed
  then show ?thesis using that[OF t s2] M(2-) wf(3) by simp
qed

definition demo_env :: exchange_env where
  "demo_env = \<lparr>env_fdist = demo_fdist, env_eps = 0, env_debug = False, env_solver = Context_solver\<rparr>"

lemma demo_dbl: "dbl 4" "dbl 5" "dbl 8" "(5 :: double) \<le> DBL_MAX" "(4 :: double) \<noteq> DBL_MAX"
  using DBL_MAX_large by (auto simp: dbl_def)

lemma demo_market_ok: "market_ok demo_market"
proof -
  have "conv_ok TrivialConverter (mk_world demo_market) 1"
    by (simp add: conv_ok_Trivial demo_market_def market_new_def demo_sim_def Context_new_def demo_res_def)
  then show ?thesis using demo_dbl
    by (simp add: market_ok_def rp_ok_def bp_ok_def bid_ok_def req_ok_def bid_pref_def has_manager_def demo_market_def market_new_def
      demo_sim_def Context_new_def demo_bp_def demo_rp_def demo_bid_def omap_sub_def demo_res_def)
qed

lemma demo_quantities: "all_quantities demo_market (\<lambda>q. 0 * q \<le> env_eps demo_env)"
  by (simp add: all_quantities_def demo_env_def)

lemma demo_ulp: "ulp_bound (env_eps demo_env) (env_fdist demo_env) 0"
  using demo_hyps(1) by (simp add: demo_env_def)

text \<open>C3. Trades never exceed what was offered. When traders post positive, finite quantities and
  capacities, with preferences that are not 0 and converters that depend on the offer only, the
  exchange from translation through the greedy solver back to trades returns normally, every trade
  is on a bid of the market and the request it answers, no bid is traded for more than its offer,
  and no constraint of a bid portfolio is used beyond its capacity, up to the rounding of the
  exclusivity test.\<close>

theorem exchange_respects_offers:
  assumes "market_ok s" "ulp_bound (env_eps env) (env_fdist env) r" "all_quantities s (\<lambda>q. r * q \<le> env_eps env)"
  shows "\<exists>s1 obj s2 trades. Translate (env_fdist env) s = (Inr (), s1) \<and> solve_market env s1 = (Inr obj, s2) \<and>
    BackTranslateSolution (mk_xl s2) (matches (mk_graph s2)) [] = Inr trades \<and>
    (\<forall>t \<in> set trades. env_eps env < t_amt t \<and> (\<exists>bd. mk_bids s (t_bid t) = Some bd \<and> t_request t = bd_request bd)) \<and>
    (\<forall>p \<in> set (ec_bids (mk_ctx s)). \<forall>bp. mk_bps s p = Some bp \<longrightarrow>
       (\<forall>b \<in> set (bp_bids bp). \<forall>q. offer_qty s b = Some q \<longrightarrow> traded (\<lambda>t. t_bid t = b) (\<lambda>_. 1) trades \<le> q * (1 + r)) \<and>
       (\<forall>c \<in> set (bp_constraints bp). cc_capacity c \<noteq> DBL_MAX \<longrightarrow>
          traded (\<lambda>t. bid_port s (t_bid t) = Some p) (\<lambda>t. offer_unit s c (t_bid t)) trades \<le> cc_capacity c * (1 + r)))"
proof -
  obtain s1 gp gq A s2 obj M where h: "Translate (env_fdist env) s = (Inr (), s1)" "phase2 s gp gq (ec_bids (mk_ctx s)) A s1"
    "solve_market env s1 = (Inr obj, s2)" "mk_xl s2 = mk_xl s1" "matches (mk_graph s2) = M"
    "BackTranslateSolution (mk_xl s2) M [] = Inr (map (trade_of (mk_xl s1)) M)"
    "good_matches (env_eps env) (mk_graph s1) M" "within_nodes r (mk_graph s1) M" "within_caps r (mk_graph s1) M"
    by (rule exchange_facts[OF assms])
  have e: "0 \<le> env_eps env" "0 \<le> r" using assms(2) by (simp_all add: ulp_bound_def)
  let ?ts = "map (trade_of (mk_xl s1)) M"
  have "env_eps env < t_amt t \<and> (\<exists>bd. mk_bids s (t_bid t) = Some bd \<and> t_request t = bd_request bd)" if t: "t \<in> set ?ts" for t
  proof -
    obtain m where m: "m \<in> set M" "t = trade_of (mk_xl s1) m" using t by auto
    then have g: "env_eps env < snd m" "good_arc (mk_graph s1) (fst m)" using h(7) by (auto simp: good_matches_def)
    show ?thesis by (rule back_bid[OF h(2) g(2)]) (use m(2) g(1) in \<open>simp add: trade_of_def\<close>)
  qed
  moreover have "traded (\<lambda>t. t_bid t = b) (\<lambda>_. 1) ?ts \<le> q * (1 + r)"
    if b: "p \<in> set (ec_bids (mk_ctx s))" "mk_bps s p = Some bp" "b \<in> set (bp_bids bp)" "offer_qty s b = Some q" for p bp b q
  proof (cases "map_of (bid_to_node (mk_xl s1)) b")
    case None
    have nb: "map_of (node_to_bid (mk_xl s1)) n \<noteq> Some b" for n
      using None xl_invD(4)[OF phase2D(1)[OF h(2)]] unfolding matched_def by (metis option.distinct(1))
    have "t_bid t \<noteq> b" if t: "t \<in> set ?ts" for t
    proof -
      obtain m where m: "m \<in> set M" "t = trade_of (mk_xl s1) m" using t by auto
      then have g: "good_arc (mk_graph s1) (fst m)" using h(7) by (auto simp: good_matches_def)
      show ?thesis
        by (rule back_bid[OF h(2) g]) (use m(2) nb in \<open>auto simp: trade_of_def\<close>)
    qed
    then have z: "traded (\<lambda>t. t_bid t = b) (\<lambda>_. 1) ?ts = 0" unfolding traded_def by (simp add: filter_empty_conv)
    have "bid_ok s p b" using assms(1) b(1-3) unfolding market_ok_def bp_ok_def by fastforce
    then obtain bd q' where "mk_bids s b = Some bd" "mk_qty s (bd_offer bd) = Some q'" "dbl q'" unfolding bid_ok_def by blast
    then have "0 < q" using b(4) by (auto simp: offer_qty_def dbl_def)
    then show ?thesis using z e(2) by simp
  next
    case (Some v)
    show ?thesis by (rule bid_trades[OF h(2,7,8) e(1) Some b(4)])
  qed
  moreover have "traded (\<lambda>t. bid_port s (t_bid t) = Some p) (\<lambda>t. offer_unit s c (t_bid t)) ?ts \<le> cc_capacity c * (1 + r)"
    if "p \<in> set (ec_bids (mk_ctx s))" "mk_bps s p = Some bp" "c \<in> set (bp_constraints bp)" "cc_capacity c \<noteq> DBL_MAX" for p bp c
    by (rule constraint_trades[OF h(2) assms(1) refl h(7) e(1) h(9) that])
  ultimately show ?thesis using h(1,3,5,6) by (intro exI[of _ s1] exI[of _ obj] exI[of _ s2] exI[of _ ?ts]) simp
qed

theorem exchange_respects_offers_witness:
  "\<exists>s1 obj s2 trades. Translate demo_fdist demo_market = (Inr (), s1) \<and> solve_market demo_env s1 = (Inr obj, s2) \<and>
     BackTranslateSolution (mk_xl s2) (matches (mk_graph s2)) [] = Inr trades \<and> traded (\<lambda>t. t_bid t = 2) (\<lambda>_. 1) trades \<le> 8"
proof -
  have d: "env_fdist demo_env = demo_fdist" "3 \<in> set (ec_bids (mk_ctx demo_market))" "mk_bps demo_market 3 = Some demo_bp"
    "2 \<in> set (bp_bids demo_bp)" "offer_qty demo_market 2 = Some 8"
    by (simp_all add: demo_env_def demo_market_def demo_bp_def offer_qty_def demo_bid_def market_new_def demo_sim_def Context_new_def demo_res_def)
  obtain s1 obj s2 trades where "Translate (env_fdist demo_env) demo_market = (Inr (), s1)" "solve_market demo_env s1 = (Inr obj, s2)"
    "BackTranslateSolution (mk_xl s2) (matches (mk_graph s2)) [] = Inr trades"
    "\<forall>p \<in> set (ec_bids (mk_ctx demo_market)). \<forall>bp. mk_bps demo_market p = Some bp \<longrightarrow>
       (\<forall>b \<in> set (bp_bids bp). \<forall>q. offer_qty demo_market b = Some q \<longrightarrow> traded (\<lambda>t. t_bid t = b) (\<lambda>_. 1) trades \<le> q * (1 + 0))"
    using exchange_respects_offers [OF demo_market_ok demo_ulp demo_quantities] by blast
  then show ?thesis using d by fastforce
qed

text \<open>C13. Trades never exceed what was requested: no request is given more than its target
  quantity and no request portfolio more than its total, up to the rounding of the exclusivity
  test.\<close>

theorem exchange_respects_requests:
  assumes "market_ok s" "ulp_bound (env_eps env) (env_fdist env) r" "all_quantities s (\<lambda>q. r * q \<le> env_eps env)"
  shows "\<exists>s1 obj s2 trades. Translate (env_fdist env) s = (Inr (), s1) \<and> solve_market env s1 = (Inr obj, s2) \<and>
    BackTranslateSolution (mk_xl s2) (matches (mk_graph s2)) [] = Inr trades \<and>
    (\<forall>p \<in> set (ec_requests (mk_ctx s)). \<forall>rp. mk_rps s p = Some rp \<longrightarrow>
       (\<forall>x \<in> set (rp_requests rp). \<forall>q. target_qty s x = Some q \<longrightarrow> traded (\<lambda>t. t_request t = x) (\<lambda>_. 1) trades \<le> q * (1 + r)) \<and>
       traded (\<lambda>t. req_port s (t_request t) = Some p) (\<lambda>_. 1) trades \<le> rp_qty rp * (1 + r))"
proof -
  obtain s1 gp gq A s2 obj M where h: "Translate (env_fdist env) s = (Inr (), s1)" "phase2 s gp gq (ec_bids (mk_ctx s)) A s1"
    "solve_market env s1 = (Inr obj, s2)" "mk_xl s2 = mk_xl s1" "matches (mk_graph s2) = M"
    "BackTranslateSolution (mk_xl s2) M [] = Inr (map (trade_of (mk_xl s1)) M)"
    "good_matches (env_eps env) (mk_graph s1) M" "within_nodes r (mk_graph s1) M" "within_caps r (mk_graph s1) M"
    "\<forall>p \<in> set (request_groups (mk_graph s1)). group_sum (mk_graph s1) M p \<le> gtarget (mk_graph s1) p * (1 + r)"
    by (rule exchange_facts[OF assms])
  have e: "0 \<le> env_eps env" using assms(2) by (simp add: ulp_bound_def)
  let ?ts = "map (trade_of (mk_xl s1)) M"
  have "traded (\<lambda>t. t_request t = x) (\<lambda>_. 1) ?ts \<le> q * (1 + r)"
    if x: "p \<in> set (ec_requests (mk_ctx s))" "mk_rps s p = Some rp" "x \<in> set (rp_requests rp)" "target_qty s x = Some q" for p rp x q
  proof -
    have "set (rp_requests rp) \<subseteq> dom (map_of (request_to_node (mk_xl s1)))" using phase2D(8)[OF h(2) x(1)] x(2) by (auto simp: rp_done_def)
    then obtain v where "map_of (request_to_node (mk_xl s1)) x = Some v" using x(3) by auto
    from request_trades[OF h(2,7,8) e this x(4)] show ?thesis .
  qed
  moreover have "traded (\<lambda>t. req_port s (t_request t) = Some p) (\<lambda>_. 1) ?ts \<le> rp_qty rp * (1 + r)"
    if "p \<in> set (ec_requests (mk_ctx s))" "mk_rps s p = Some rp" for p rp
    by (rule portfolio_trades[OF h(2,7) e h(10) that])
  ultimately show ?thesis using h(1,3,5,6) by (intro exI[of _ s1] exI[of _ obj] exI[of _ s2] exI[of _ ?ts]) simp
qed

theorem exchange_respects_requests_witness:
  "\<exists>s1 obj s2 trades. Translate demo_fdist demo_market = (Inr (), s1) \<and> solve_market demo_env s1 = (Inr obj, s2) \<and>
     BackTranslateSolution (mk_xl s2) (matches (mk_graph s2)) [] = Inr trades \<and> traded (\<lambda>t. t_request t = 0) (\<lambda>_. 1) trades \<le> 5"
proof -
  have d: "env_fdist demo_env = demo_fdist" "1 \<in> set (ec_requests (mk_ctx demo_market))" "mk_rps demo_market 1 = Some demo_rp"
    "0 \<in> set (rp_requests demo_rp)" "target_qty demo_market 0 = Some 5"
    by (simp_all add: demo_env_def demo_market_def demo_rp_def target_qty_def market_new_def demo_sim_def Context_new_def demo_res_def)
  obtain s1 obj s2 trades where t: "Translate (env_fdist demo_env) demo_market = (Inr (), s1)" "solve_market demo_env s1 = (Inr obj, s2)"
    "BackTranslateSolution (mk_xl s2) (matches (mk_graph s2)) [] = Inr trades"
    "\<forall>p \<in> set (ec_requests (mk_ctx demo_market)). \<forall>rp. mk_rps demo_market p = Some rp \<longrightarrow>
       (\<forall>x \<in> set (rp_requests rp). \<forall>q. target_qty demo_market x = Some q \<longrightarrow> traded (\<lambda>t. t_request t = x) (\<lambda>_. 1) trades \<le> q * (1 + 0))"
    using exchange_respects_requests [OF demo_market_ok demo_ulp demo_quantities] by blast
  have "traded (\<lambda>t. t_request t = 0) (\<lambda>_. 1) trades \<le> 5 * (1 + 0)" by (rule t(4)[rule_format, OF d(2-5)])
  then show ?thesis using t(1-3) d(1) by auto
qed

text \<open>C12. Translation and back-translation are inverse. The translated graph is well formed; every
  bid with a positive preference has an arc in it; and a match on any arc of the graph translates
  back to a trade on the bid the arc was made for and the request that bid answers, with the
  matched amount.\<close>

theorem translation_round_trip:
  assumes "market_ok s"
  shows "\<exists>s1. Translate fdist s = (Inr (), s1) \<and> wf_graph (mk_graph s1) \<and>
    (\<forall>n as a q. map_of (node_arc_map (mk_graph s1)) n = Some as \<longrightarrow> a \<in> set as \<longrightarrow>
       (\<exists>b bd. mk_bids s b = Some bd \<and> BackTranslateMatch (mk_xl s1) (a, q) = Inr \<lparr>t_request = bd_request bd, t_bid = b, t_amt = q, t_price = 0\<rparr>)) \<and>
    (\<forall>p \<in> set (ec_bids (mk_ctx s)). \<forall>bp b bd x. mk_bps s p = Some bp \<longrightarrow> b \<in> set (bp_bids bp) \<longrightarrow> mk_bids s b = Some bd \<longrightarrow>
       bid_pref s b = Some x \<longrightarrow> 0 < x \<longrightarrow>
       (\<exists>n as a. map_of (node_arc_map (mk_graph s1)) n = Some as \<and> a \<in> set as \<and>
          (\<forall>q. BackTranslateMatch (mk_xl s1) (a, q) = Inr \<lparr>t_request = bd_request bd, t_bid = b, t_amt = q, t_price = 0\<rparr>)))"
proof -
  obtain s1 gp gq A where t: "Translate fdist s = (Inr (), s1)" "phase2 s gp gq (ec_bids (mk_ctx s)) A s1" "all_arced s (ec_bids (mk_ctx s)) A"
    by (rule Translate_ok[OF assms])
  note d = phase2D[OF t(2)] and wf = phase2_wf(1)[OF t(2)]
  have x: "matched (request_to_node (mk_xl s1)) (node_to_request (mk_xl s1))" "matched (bid_to_node (mk_xl s1)) (node_to_bid (mk_xl s1))"
    using xl_invD(3,4)[OF d(1)] by simp_all
  have pair: "BackTranslateMatch (mk_xl s1) (a, q) = Inr \<lparr>t_request = bd_request bd, t_bid = b, t_amt = q, t_price = 0\<rparr>"
    if p: "arc_pair s1 b = Some (arc_key a)" "mk_bids s b = Some bd" for a b bd q
  proof -
    have "map_of (request_to_node (mk_xl s1)) (bd_request bd) = Some (a_unode a)" "map_of (bid_to_node (mk_xl s1)) b = Some (a_vnode a)"
      using p staticD(3)[OF d(6)] by (auto simp: arc_pair_def arc_key_def bind_eq_Some_conv)
    then have "map_of (node_to_request (mk_xl s1)) (a_unode a) = Some (bd_request bd)" "map_of (node_to_bid (mk_xl s1)) (a_vnode a) = Some b"
      using x by (simp_all add: matched_def)
    then show ?thesis by (simp add: BackTranslateMatch_def)
  qed
  have "\<exists>b bd. mk_bids s b = Some bd \<and> BackTranslateMatch (mk_xl s1) (a, q) = Inr \<lparr>t_request = bd_request bd, t_bid = b, t_amt = q, t_price = 0\<rparr>"
    if a: "map_of (node_arc_map (mk_graph s1)) n = Some as" "a \<in> set as" for n as a q
  proof -
    obtain b where b: "b \<in> A" "arc_pair s1 b = Some (arc_key a)" using d(7) a unfolding arc_inv_def by meson
    obtain bd where "mk_bids s b = Some bd" using d(10)[OF b(1)] staticD(3)[OF d(6)] by auto
    then show ?thesis using pair[OF b(2)] by blast
  qed
  moreover have "\<exists>n as a. map_of (node_arc_map (mk_graph s1)) n = Some as \<and> a \<in> set as \<and>
      (\<forall>q. BackTranslateMatch (mk_xl s1) (a, q) = Inr \<lparr>t_request = bd_request bd, t_bid = b, t_amt = q, t_price = 0\<rparr>)"
    if b: "p \<in> set (ec_bids (mk_ctx s))" "mk_bps s p = Some bp" "b \<in> set (bp_bids bp)" "mk_bids s b = Some bd" "bid_pref s b = Some x" "0 < x" for p bp b bd x
  proof -
    have "b \<in> A" using t(3) b by (auto simp: all_arced_def)
    then have "arc_done s1 b" using d(7) by (simp add: arc_inv_def)
    then obtain u v a where a: "arc_pair s1 b = Some (u, v)" "a \<in> set (omap_sub [] (node_arc_map (mk_graph s1)) u)" "arc_key a = (u, v)"
      by (rule arc_doneE) blast
    then obtain as where "map_of (node_arc_map (mk_graph s1)) u = Some as" "a \<in> set as"
      by (cases "map_of (node_arc_map (mk_graph s1)) u") (simp_all add: omap_sub_def)
    then show ?thesis using pair[OF _ b(4), of a] a(1,3) by auto
  qed
  moreover have "wf_graph (mk_graph s1)" using wf assms by (simp add: market_ok_def)
  ultimately show ?thesis using t(1) by (intro exI[of _ s1]) blast
qed

theorem translation_round_trip_witness:
  "\<exists>s1 a. Translate demo_fdist demo_market = (Inr (), s1) \<and>
     (\<forall>q. BackTranslateMatch (mk_xl s1) (a, q) = Inr \<lparr>t_request = 0, t_bid = 2, t_amt = q, t_price = 0\<rparr>)"
proof -
  have d: "3 \<in> set (ec_bids (mk_ctx demo_market))" "mk_bps demo_market 3 = Some demo_bp" "2 \<in> set (bp_bids demo_bp)"
    "mk_bids demo_market 2 = Some demo_bid" "bid_pref demo_market 2 = Some 1" "(0 :: double) < 1" "bd_request demo_bid = 0"
    by (simp_all add: demo_market_def demo_bp_def demo_bid_def bid_pref_def omap_sub_def)
  obtain s1 where t: "Translate demo_fdist demo_market = (Inr (), s1)"
    "\<forall>p \<in> set (ec_bids (mk_ctx demo_market)). \<forall>bp b bd x. mk_bps demo_market p = Some bp \<longrightarrow> b \<in> set (bp_bids bp) \<longrightarrow> mk_bids demo_market b = Some bd \<longrightarrow>
       bid_pref demo_market b = Some x \<longrightarrow> 0 < x \<longrightarrow>
       (\<exists>n as a. map_of (node_arc_map (mk_graph s1)) n = Some as \<and> a \<in> set as \<and>
          (\<forall>q. BackTranslateMatch (mk_xl s1) (a, q) = Inr \<lparr>t_request = bd_request bd, t_bid = b, t_amt = q, t_price = 0\<rparr>))"
    using translation_round_trip [OF demo_market_ok, of demo_fdist] by blast
  from t(2)[rule_format, OF d(1-6)] show ?thesis using t(1) d(7) by auto
qed

end
