(* ===== verification/Market_Portfolios.thy ===== *)
theory Market_Portfolios
  imports Market_Demo
begin

text \<open>
  What the portfolio classes keep of their contents. An archetype builds portfolios through the
  operations of request_portfolio.h and bid_portfolio.h only; a sequence of such calls is a list of
  \<open>port_op\<close>, and \<open>ports_ok\<close> is what holds after any of them, also after one that throws.
\<close>

section \<open>Calls\<close>

text \<open>A requester or bidder passes itself, so that the trader is never null. The caller may construct constraint
  objects at any time, read those that a portfolio holds, and pass any of them, at any time and more than
  once, to any portfolio: the second component of the state lists the objects at hand, and a call names one
  by its position.\<close>

datatype (plugins only: size) port_op =
    NewRequests
  | NewBids
  | NewConstraint double converter
  | ReadRequestConstraints ptr
  | ReadBidConstraints ptr
  | AddRequestOp ptr ptr ptr string double bool "(world \<Rightarrow> ptr \<Rightarrow> double) option"
  | MutualOp ptr "ptr list"
  | RequestConstraintOp ptr nat
  | AddBidOp ptr ptr ptr ptr bool "double option"
  | BidConstraintOp ptr nat

fun port_step :: "'u market \<times> constraint list \<Rightarrow> port_op \<Rightarrow> 'u market \<times> constraint list" where
  "port_step (s, cs) NewRequests = (snd (RequestPortfolio_new s), cs)"
| "port_step (s, cs) NewBids = (snd (BidPortfolio_new s), cs)"
| "port_step (s, cs) (NewConstraint cap conv) = (case CapacityConstraint_new cap conv s of (Inr c, s') \<Rightarrow> (s', cs @ [c]) | (Inl _, s') \<Rightarrow> (s', cs))"
| "port_step (s, cs) (ReadRequestConstraints p) = (s, case mk_rps s p of Some rp \<Rightarrow> cs @ rp_constraints rp | None \<Rightarrow> cs)"
| "port_step (s, cs) (ReadBidConstraints p) = (s, case mk_bps s p of Some bp \<Rightarrow> cs @ bp_constraints bp | None \<Rightarrow> cs)"
| "port_step (s, cs) (AddRequestOp p target t commod pref excl cost) = (snd (rp_AddRequest p target (Some t) commod pref excl cost s), cs)"
| "port_step (s, cs) (MutualOp p rs) = (snd (AddMutualReqs p rs s), cs)"
| "port_step (s, cs) (RequestConstraintOp p k) = (if k < length cs then snd (rp_AddConstraint p (cs ! k) s) else s, cs)"
| "port_step (s, cs) (AddBidOp p r offer t excl pref) = (snd (bp_AddBid p r offer (Some t) excl pref s), cs)"
| "port_step (s, cs) (BidConstraintOp p k) = (if k < length cs then snd (bp_AddConstraint p (cs ! k) s) else s, cs)"

section \<open>The invariant\<close>

definition constraints_ok :: "int \<Rightarrow> constraint list \<Rightarrow> bool" where
  "constraints_ok i cs \<longleftrightarrow> distinct (map cc_id cs) \<and> (\<forall>c \<in> set cs. cc_id c < i \<and> 0 < cc_capacity c)"

definition req_member :: "'u market \<Rightarrow> ptr \<Rightarrow> req_portfolio \<Rightarrow> ptr \<Rightarrow> bool" where
  "req_member s p rp r \<longleftrightarrow> r < mk_next s \<and> map_of (mass_coeffs rp) r \<noteq> None \<and>
     (\<exists>rq t. mk_reqs s r = Some rq \<and> rq_portfolio rq = p \<and> rq_requester rq = Some t \<and> rp_requester rp = Some t)"

definition bid_member :: "'u market \<Rightarrow> ptr \<Rightarrow> bid_portfolio \<Rightarrow> ptr \<Rightarrow> bool" where
  "bid_member s p bp b \<longleftrightarrow> b < mk_next s \<and>
     (\<exists>bd t q. mk_bids s b = Some bd \<and> bd_portfolio bd = p \<and> bd_bidder bd = Some t \<and> bp_bidder bp = Some t \<and>
        mk_qty s (bd_offer bd) = Some q \<and> 0 < q)"

definition rp_typed :: "'u market \<Rightarrow> ptr \<Rightarrow> req_portfolio \<Rightarrow> bool" where
  "rp_typed s p rp \<longleftrightarrow> distinct (rp_requests rp) \<and> omap_inv (mass_coeffs rp) \<and>
     constraints_ok (next_constraint_id s) (rp_constraints rp) \<and> (\<forall>r \<in> set (rp_requests rp). req_member s p rp r)"

definition bp_typed :: "'u market \<Rightarrow> ptr \<Rightarrow> bid_portfolio \<Rightarrow> bool" where
  "bp_typed s p bp \<longleftrightarrow> oset_inv (bp_bids bp) \<and>
     constraints_ok (next_constraint_id s) (bp_constraints bp) \<and> (\<forall>b \<in> set (bp_bids bp). bid_member s p bp b)"

definition ports_ok :: "'u market \<Rightarrow> bool" where
  "ports_ok s \<longleftrightarrow> (\<forall>p rp. mk_rps s p = Some rp \<longrightarrow> rp_typed s p rp) \<and> (\<forall>p bp. mk_bps s p = Some bp \<longrightarrow> bp_typed s p bp)"

named_theorems port_simps

lemma ports_okI:
  "(\<And>p rp. mk_rps s p = Some rp \<Longrightarrow> rp_typed s p rp) \<Longrightarrow> (\<And>p bp. mk_bps s p = Some bp \<Longrightarrow> bp_typed s p bp) \<Longrightarrow> ports_ok s"
  by (simp add: ports_ok_def)

lemma ports_okD:
  "ports_ok s \<Longrightarrow> mk_rps s p = Some rp \<Longrightarrow> rp_typed s p rp" "ports_ok s \<Longrightarrow> mk_bps s p = Some bp \<Longrightarrow> bp_typed s p bp"
  by (simp_all add: ports_ok_def)

text \<open>What an operation leaves alone: typing only looks at the objects of members and the counters,
  which grow.\<close>

definition later :: "'u market \<Rightarrow> 'u market \<Rightarrow> bool" where
  "later s s' \<longleftrightarrow> mk_sim s' = mk_sim s \<and> mk_next s \<le> mk_next s' \<and> next_constraint_id s \<le> next_constraint_id s' \<and>
     (\<forall>r < mk_next s. mk_reqs s' r = mk_reqs s r \<and> mk_bids s' r = mk_bids s r)"

lemma constraints_ok_mono: "constraints_ok i cs \<Longrightarrow> i \<le> j \<Longrightarrow> constraints_ok j cs"
  by (force simp: constraints_ok_def)

lemma typed_later:
  "later s s' \<Longrightarrow> rp_typed s p rp \<Longrightarrow> rp_typed s' p rp" "later s s' \<Longrightarrow> bp_typed s p bp \<Longrightarrow> bp_typed s' p bp"
  unfolding rp_typed_def bp_typed_def req_member_def bid_member_def later_def
  by (auto intro: constraints_ok_mono)

lemma later_refl [simp]: "later s s"
  by (simp add: later_def)

text \<open>One portfolio changes, to one that is typed.\<close>

lemma upd_rp_ok:
  assumes "ports_ok s" "later s s'" "mk_rps s' = mk_rps s" "mk_bps s' = mk_bps s"
    and "\<And>rp. mk_rps s p = Some rp \<Longrightarrow> rp_typed s p rp \<Longrightarrow> rp_typed s' p (f rp)"
  shows "ports_ok (upd_rp p f s')"
proof -
  have l: "rp_typed (upd_rp p f s') q rp = rp_typed s' q rp" "bp_typed (upd_rp p f s') q bp = bp_typed s' q bp" for q rp bp
    by (simp_all add: upd_rp_def rp_typed_def bp_typed_def req_member_def bid_member_def)
  show ?thesis using assms ports_okD[OF assms(1)] typed_later[OF assms(2)]
    by (auto intro!: ports_okI simp: l) (auto simp: upd_rp_def split: if_splits)
qed

lemma upd_bp_ok:
  assumes "ports_ok s" "later s s'" "mk_rps s' = mk_rps s" "mk_bps s' = mk_bps s"
    and "\<And>bp. mk_bps s p = Some bp \<Longrightarrow> bp_typed s p bp \<Longrightarrow> bp_typed s' p (f bp)"
  shows "ports_ok (upd_bp p f s')"
proof -
  have l: "rp_typed (upd_bp p f s') q rp = rp_typed s' q rp" "bp_typed (upd_bp p f s') q bp = bp_typed s' q bp" for q rp bp
    by (simp_all add: upd_bp_def rp_typed_def bp_typed_def req_member_def bid_member_def)
  show ?thesis using assms ports_okD[OF assms(1)] typed_later[OF assms(2)]
    by (auto intro!: ports_okI simp: l) (auto simp: upd_bp_def split: if_splits)
qed

lemma later_ok:
  assumes "ports_ok s" "later s s'" "mk_rps s' = mk_rps s" "mk_bps s' = mk_bps s" shows "ports_ok s'"
  using assms ports_okD[OF assms(1)] typed_later[OF assms(2)] by (auto intro!: ports_okI)

section \<open>Every call keeps it\<close>

lemma upd_same:
  "mk_rps s p = Some rp \<Longrightarrow> f rp = rp \<Longrightarrow> upd_rp p f s = s" "mk_bps s p = Some bp \<Longrightarrow> g bp = bp \<Longrightarrow> upd_bp p g s = s"
  by (cases s, simp add: upd_rp_def upd_bp_def fun_upd_idem)+

lemma same_trader:
  "rp_requester rp = t \<Longrightarrow> rp_requester_update (\<lambda>_. t) rp = rp" "bp_bidder bp = t \<Longrightarrow> bp_bidder_update (\<lambda>_. t) bp = bp"
  by (cases rp, simp) (cases bp, simp)

lemma VerifyRequester_eq:
  "VerifyRequester p (Some t) s = deref (mk_rps s p) s (\<lambda>rp.
     if rp_requester rp = None \<or> rp_requester rp = Some t then ok () (upd_rp p (rp_requester_update (\<lambda>_. Some t)) s) else throw KeyError s)"
  by (cases "mk_rps s p") (auto simp: VerifyRequester_def deref_def upd_same same_trader split: option.splits)

lemma VerifyResponder_eq:
  "VerifyResponder p (Some t) s = deref (mk_bps s p) s (\<lambda>bp.
     if bp_bidder bp = None \<or> bp_bidder bp = Some t then ok () (upd_bp p (bp_bidder_update (\<lambda>_. Some t)) s) else throw KeyError s)"
  by (cases "mk_bps s p") (auto simp: VerifyResponder_def deref_def upd_same same_trader split: option.splits)

lemma upd_rp_upd_rp: "upd_rp p f (upd_rp p g s) = upd_rp p (\<lambda>x. f (g x)) s"
  by (simp add: upd_rp_def option.map_comp comp_def)

lemma upd_bp_upd_bp: "upd_bp p f (upd_bp p g s) = upd_bp p (\<lambda>x. f (g x)) s"
  by (simp add: upd_bp_def option.map_comp comp_def)

lemma upd_sim [simp]: "mk_sim (upd_rp p f s) = mk_sim s" "mk_sim (upd_bp p g s) = mk_sim s"
  by (simp_all add: upd_rp_def upd_bp_def)

lemma Request_Create_later: "later s (snd (Request_Create target t p c x e f s))"
  by (simp add: Request_Create_def later_def Let_def)

lemma Bid_Create_later: "later s (snd (Bid_Create r offer t p e x s))"
  by (simp add: Bid_Create_def later_def Let_def)

lemma RequestPortfolio_new_ok: "ports_ok s \<Longrightarrow> ports_ok (snd (RequestPortfolio_new s))"
  unfolding RequestPortfolio_new_def Let_def
  by (frule later_ok[where s' = "s\<lparr>mk_next := Suc (mk_next s)\<rparr>"])
    (auto simp: later_def ports_ok_def rp_typed_def bp_typed_def req_member_def bid_member_def constraints_ok_def oset_inv_def)

lemma BidPortfolio_new_ok: "ports_ok s \<Longrightarrow> ports_ok (snd (BidPortfolio_new s))"
  unfolding BidPortfolio_new_def Let_def
  by (frule later_ok[where s' = "s\<lparr>mk_next := Suc (mk_next s)\<rparr>"])
    (auto simp: later_def ports_ok_def rp_typed_def bp_typed_def req_member_def bid_member_def constraints_ok_def oset_inv_def)

lemma AddRequest_ok:
  assumes "ports_ok s" shows "ports_ok (snd (rp_AddRequest p target (Some t) c x e f s))"
proof -
  define r where "r = mk_next s"
  define s1 where "s1 = snd (Request_Create target (Some t) p c x e f s)"
  define rq where "rq = \<lparr>rq_target = target, rq_requester = Some t, rq_preference = x, rq_commodity = c, rq_portfolio = p,
    rq_exclusive = e, rq_cost_function = f\<rparr>"
  have c: "Request_Create target (Some t) p c x e f s = (r, s1)" and s1: "mk_rps s1 = mk_rps s" "mk_bps s1 = mk_bps s"
      "mk_reqs s1 r = Some rq" "mk_next s1 = Suc r" and l: "later s s1"
    using Request_Create_later[of s target "Some t" p c x e f] by (simp_all add: s1_def r_def Request_Create_def rq_def Let_def)
  have ok: "ports_ok (upd_rp p g s1)"
    if g: "\<And>rp. rp_requester rp = None \<or> rp_requester rp = Some t \<Longrightarrow> rp_requests (g rp) = rp_requests rp @ [r] \<and> rp_requester (g rp) = Some t \<and>
        mass_coeffs (g rp) = omap_put r 1 (mass_coeffs rp) \<and> rp_constraints (g rp) = rp_constraints rp"
      and p: "mk_rps s p = Some rp0" "rp_requester rp0 = None \<or> rp_requester rp0 = Some t" for g rp0
  proof (rule upd_rp_ok[OF assms l s1(1,2)])
    fix rp assume a: "mk_rps s p = Some rp" "rp_typed s p rp"
    have t: "rp_typed s1 p rp" by (rule typed_later(1)[OF l a(2)])
    have "rp_requester rp = Some t" if "z \<in> set (rp_requests rp)" for z using p a that by (auto simp: rp_typed_def req_member_def)
    moreover have "r \<notin> set (rp_requests rp)" using a(2) by (auto simp: rp_typed_def req_member_def r_def)
    moreover have "rp_requester rp = None \<or> rp_requester rp = Some t" using p a by auto
    note g[OF this]
    ultimately show "rp_typed s1 p (g rp)" using t s1(3,4) by (auto simp: rp_typed_def req_member_def rq_def)
  qed
  show ?thesis
  proof (cases "mk_rps s p")
    case None
    then show ?thesis using later_ok[OF assms l s1(1,2)] s1 by (simp add: rp_AddRequest_def c VerifyRequester_eq deref_def throw_def)
  next
    case (Some rp)
    show ?thesis
    proof (cases "rp_requester rp = None \<or> rp_requester rp = Some t")
      case True
      then show ?thesis using Some ok[OF _ Some] s1
        by (cases "w_res (s_world (mk_sim s1)) target")
          (auto simp: rp_AddRequest_def c VerifyRequester_eq deref_def throw_def ok_def upd_rp_upd_rp intro!: ok[OF _ Some])
    next
      case False
      then show ?thesis using Some later_ok[OF assms l s1(1,2)] s1 by (auto simp: rp_AddRequest_def c VerifyRequester_eq deref_def throw_def)
    qed
  qed
qed


lemma AddBid_ok:
  assumes "ports_ok s" shows "ports_ok (snd (bp_AddBid p r offer (Some t) e x s))"
proof -
  define b where "b = mk_next s"
  define s1 where "s1 = snd (Bid_Create r offer (Some t) p e x s)"
  define bd where "bd = \<lparr>bd_request = r, bd_offer = offer, bd_bidder = Some t, bd_portfolio = p, bd_exclusive = e, bd_preference = x\<rparr>"
  have c: "Bid_Create r offer (Some t) p e x s = (b, s1)" and s1: "mk_rps s1 = mk_rps s" "mk_bps s1 = mk_bps s"
      "mk_bids s1 b = Some bd" "mk_next s1 = Suc b" and l: "later s s1"
    using Bid_Create_later[of s r offer "Some t" p e x] by (simp_all add: s1_def b_def Bid_Create_def bd_def Let_def)
  have named: "ports_ok (upd_bp p (bp_bidder_update (\<lambda>_. Some t)) s1)"
    if p: "mk_bps s p = Some bp0" "bp_bidder bp0 = None \<or> bp_bidder bp0 = Some t" for bp0
    by (rule upd_bp_ok[OF assms l s1(1,2)], drule typed_later(2)[OF l]) (use p in \<open>auto simp: bp_typed_def bid_member_def\<close>)
  have ok: "ports_ok (upd_bp p (\<lambda>bp. bp_bids_update (oset_ins b) (bp_bidder_update (\<lambda>_. Some t) bp)) s1)"
    if p: "mk_bps s p = Some bp0" "bp_bidder bp0 = None \<or> bp_bidder bp0 = Some t" and q: "mk_qty s1 offer = Some q" "0 < q" for bp0 q
    by (rule upd_bp_ok[OF assms l s1(1,2)], drule typed_later(2)[OF l]) (use p q s1(3,4) in \<open>auto simp: bp_typed_def bid_member_def bd_def\<close>)
  show ?thesis
  proof (cases "mk_bps s p")
    case None
    then show ?thesis using later_ok[OF assms l s1(1,2)] s1 by (simp add: bp_AddBid_def c VerifyResponder_eq deref_def throw_def)
  next
    case (Some bp)
    show ?thesis
    proof (cases "bp_bidder bp = None \<or> bp_bidder bp = Some t")
      case True
      show ?thesis using Some True named[OF Some True] ok[OF Some True] s1
        by (cases "w_res (s_world (mk_sim s1)) offer")
          (auto simp: bp_AddBid_def c VerifyResponder_eq deref_def throw_def ok_def upd_bp_upd_bp manager_def split: option.splits)
    next
      case False
      then show ?thesis using Some later_ok[OF assms l s1(1,2)] s1 by (auto simp: bp_AddBid_def c VerifyResponder_eq deref_def throw_def)
    qed
  qed
qed

text \<open>The stored copy of a constraint takes the next id, wherever the original's id puts it.\<close>

lemma insert_ok:
  assumes "constraints_ok (next_constraint_id s) cs" "0 < cc_capacity c" "constraints_insert c cs s = (r, s')"
  shows "(\<exists>e. r = Inl e \<and> s' = s) \<or>
    (\<exists>cs'. r = Inr cs' \<and> constraints_ok (next_constraint_id s') cs' \<and> (s' = s \<or> s' = s\<lparr>next_constraint_id := next_constraint_id s + 1\<rparr>))"
proof -
  let ?l = "takeWhile (\<lambda>e. cc_id e < cc_id c) cs" and ?r = "dropWhile (\<lambda>e. cc_id e < cc_id c) cs" and ?n = "next_constraint_id s"
  have "constraints_ok ?n (?l @ ?r)" using assms(1) by simp
  then have "constraints_ok (?n + 1) (?l @ c\<lparr>cc_id := ?n\<rparr> # ?r)" using assms(2)
    unfolding constraints_ok_def by (auto simp del: takeWhile_dropWhile_id intro: less_imp_le)
  then show ?thesis using assms
    by (auto simp: constraints_insert_def CapacityConstraint_copy_def Let_def throw_def ok_def split: if_splits)
qed

lemma RequestConstraint_ok:
  assumes "ports_ok s" "0 < cc_capacity c" shows "ports_ok (snd (rp_AddConstraint p c s))"
proof (cases "mk_rps s p")
  case None
  then show ?thesis using assms by (simp add: rp_AddConstraint_def throw_def)
next
  case (Some rp)
  obtain r s' where r: "constraints_insert c (rp_constraints rp) s = (r, s')" by fastforce
  have "constraints_ok (next_constraint_id s) (rp_constraints rp)" using ports_okD(1)[OF assms(1) Some] by (simp add: rp_typed_def)
  from insert_ok[OF this assms(2) r] show ?thesis
  proof
    assume "\<exists>e. r = Inl e \<and> s' = s"
    then show ?thesis using Some r assms(1) by (auto simp: rp_AddConstraint_def)
  next
    assume "\<exists>cs'. r = Inr cs' \<and> constraints_ok (next_constraint_id s') cs' \<and> (s' = s \<or> s' = s\<lparr>next_constraint_id := next_constraint_id s + 1\<rparr>)"
    then obtain cs' where a: "r = Inr cs'" "constraints_ok (next_constraint_id s') cs'" "s' = s \<or> s' = s\<lparr>next_constraint_id := next_constraint_id s + 1\<rparr>" by blast
    then have l: "later s s'" "mk_rps s' = mk_rps s" "mk_bps s' = mk_bps s" by (auto simp: later_def)
    have "ports_ok (upd_rp p (rp_constraints_update (\<lambda>_. cs')) s')"
      by (rule upd_rp_ok[OF assms(1) l], drule typed_later(1)[OF l(1)]) (use a(2) in \<open>auto simp: rp_typed_def req_member_def\<close>)
    then show ?thesis using Some r a(1) by (simp add: rp_AddConstraint_def ok_def)
  qed
qed

lemma BidConstraint_ok:
  assumes "ports_ok s" "0 < cc_capacity c" shows "ports_ok (snd (bp_AddConstraint p c s))"
proof (cases "mk_bps s p")
  case None
  then show ?thesis using assms by (simp add: bp_AddConstraint_def throw_def)
next
  case (Some bp)
  obtain r s' where r: "constraints_insert c (bp_constraints bp) s = (r, s')" by fastforce
  have "constraints_ok (next_constraint_id s) (bp_constraints bp)" using ports_okD(2)[OF assms(1) Some] by (simp add: bp_typed_def)
  from insert_ok[OF this assms(2) r] show ?thesis
  proof
    assume "\<exists>e. r = Inl e \<and> s' = s"
    then show ?thesis using Some r assms(1) by (auto simp: bp_AddConstraint_def)
  next
    assume "\<exists>cs'. r = Inr cs' \<and> constraints_ok (next_constraint_id s') cs' \<and> (s' = s \<or> s' = s\<lparr>next_constraint_id := next_constraint_id s + 1\<rparr>)"
    then obtain cs' where a: "r = Inr cs'" "constraints_ok (next_constraint_id s') cs'" "s' = s \<or> s' = s\<lparr>next_constraint_id := next_constraint_id s + 1\<rparr>" by blast
    then have l: "later s s'" "mk_rps s' = mk_rps s" "mk_bps s' = mk_bps s" by (auto simp: later_def)
    have "ports_ok (upd_bp p (bp_constraints_update (\<lambda>_. cs')) s')"
      by (rule upd_bp_ok[OF assms(1) l], drule typed_later(2)[OF l(1)]) (use a(2) in \<open>auto simp: bp_typed_def bid_member_def\<close>)
    then show ?thesis using Some r a(1) by (simp add: bp_AddConstraint_def ok_def)
  qed
qed

lemma Constraint_new_ok:
  assumes "ports_ok s" "CapacityConstraint_new cap conv s = (r, s')"
  shows "ports_ok s'" "r = Inr c \<Longrightarrow> 0 < cc_capacity c"
proof -
  have "ports_ok (s\<lparr>next_constraint_id := next_constraint_id s + 1\<rparr>)" by (rule later_ok[OF assms(1)]) (simp_all add: later_def)
  then show "ports_ok s'" "r = Inr c \<Longrightarrow> 0 < cc_capacity c"
    using assms(2) by (auto simp: CapacityConstraint_new_def Let_def throw_def ok_def split: if_splits)
qed

lemma read_constraints_ok:
  assumes "ports_ok s"
  shows "mk_rps s p = Some rp \<Longrightarrow> c \<in> set (rp_constraints rp) \<Longrightarrow> 0 < cc_capacity c"
    "mk_bps s p = Some bp \<Longrightarrow> c \<in> set (bp_constraints bp) \<Longrightarrow> 0 < cc_capacity c"
  using ports_okD[OF assms, of p] by (auto simp: rp_typed_def bp_typed_def constraints_ok_def)

section \<open>Mutual requests\<close>

definition mutual_update :: "double \<Rightarrow> (ptr \<times> double) list \<Rightarrow> req_portfolio \<Rightarrow> req_portfolio" where
  "mutual_update avg rqs rp = foldl (\<lambda>p (r, q). p\<lparr>mass_coeffs := omap_put r (q / avg) (mass_coeffs p), rp_qty := rp_qty p - q\<rparr>) rp rqs"

lemma mutual_update_simps [simp]:
  "mutual_update avg [] rp = rp"
  "mutual_update avg ((r, q) # rqs) rp = mutual_update avg rqs (rp\<lparr>mass_coeffs := omap_put r (q / avg) (mass_coeffs rp), rp_qty := rp_qty rp - q\<rparr>)"
  by (simp_all add: mutual_update_def)

lemma mutual_update_frame [simp]:
  "rp_requests (mutual_update avg rqs rp) = rp_requests rp" "rp_constraints (mutual_update avg rqs rp) = rp_constraints rp"
  "rp_requester (mutual_update avg rqs rp) = rp_requester rp"
  by (induction rqs arbitrary: rp) auto

lemma mutual_update_qty: "rp_qty (mutual_update avg rqs rp) = rp_qty rp - sum_list (map snd rqs)"
  by (induction rqs arbitrary: rp) auto

lemma mutual_update_inv: "omap_inv (mass_coeffs rp) \<Longrightarrow> omap_inv (mass_coeffs (mutual_update avg rqs rp))"
  by (induction rqs arbitrary: rp) auto

lemma mutual_update_coeffs:
  "distinct (map fst rqs) \<Longrightarrow> map_of (mass_coeffs (mutual_update avg rqs rp)) r =
     (case map_of rqs r of Some q \<Rightarrow> Some (q / avg) | None \<Rightarrow> map_of (mass_coeffs rp) r)"
proof (induction rqs arbitrary: rp)
  case (Cons a rqs)
  then show ?case by (cases a) (auto simp: map_of_eq_None_iff[THEN iffD2] split: option.splits)
qed simp

lemma mutual_update_dom: "\<exists>y. map_of (mass_coeffs rp) r = Some y \<Longrightarrow> \<exists>y. map_of (mass_coeffs (mutual_update avg rqs rp)) r = Some y"
  by (induction rqs arbitrary: rp) auto

lemma AddMutualReqs_eq:
  "AddMutualReqs p rs s = deref (those (map (target_qty s) rs)) s (\<lambda>qs.
     let avg = foldl (+) 0 qs / real (length qs)
     in if rs = [] \<or> avg = 0 then throw Undefined s
        else deref (mk_rps s p) s (\<lambda>_. ok () (upd_rp p (\<lambda>rp. rp_qty_update (\<lambda>x. x + avg) (mutual_update avg (zip rs qs) rp)) s)))"
  unfolding AddMutualReqs_def mutual_update_def by (rule refl)

lemma AddMutualReqs_ok:
  assumes "ports_ok s" shows "ports_ok (snd (AddMutualReqs p rs s))"
proof -
  have "ports_ok (upd_rp p (\<lambda>rp. rp_qty_update (\<lambda>x. x + avg) (mutual_update avg rqs rp)) s)" for avg rqs
    by (rule upd_rp_ok[OF assms later_refl])
      (auto simp: rp_typed_def req_member_def mutual_update_inv mutual_update_dom)
  then show ?thesis using assms by (auto simp: AddMutualReqs_eq deref_def throw_def ok_def Let_def split: option.splits)
qed

lemma those_length: "those xs = Some ys \<Longrightarrow> length ys = length xs"
  by (induction xs arbitrary: ys) (auto split: option.splits)

lemma map_of_zip_None: "x \<notin> set xs \<Longrightarrow> length ys = length xs \<Longrightarrow> map_of (zip xs ys) x = None"
  by (simp add: map_of_zip_is_None)

text \<open>A full order of \<open>q\<close> under the coefficient of \<open>AddMutualReqs\<close>.\<close>

lemma full_order:
  fixes avg q :: double
  assumes "0 < avg" "0 < q"
  shows "q / avg * q = avg \<longleftrightarrow> q = avg" "avg < q \<Longrightarrow> avg < q / avg * q" "q < avg \<Longrightarrow> q / avg * q < avg"
proof -
  have e: "q / avg * q = q * q / avg" by simp
  show "avg < q \<Longrightarrow> avg < q / avg * q" "q < avg \<Longrightarrow> q / avg * q < avg"
    unfolding e using assms by (simp_all add: pos_less_divide_eq pos_divide_less_eq mult_strict_mono)
  then show "q / avg * q = avg \<longleftrightarrow> q = avg" using assms by (cases q avg rule: linorder_cases) auto
qed

section \<open>Properties\<close>

lemma port_step_ok:
  assumes "ports_ok s" "\<forall>c \<in> set cs. 0 < cc_capacity c" "port_step (s, cs) op = (s', cs')"
  shows "ports_ok s' \<and> (\<forall>c \<in> set cs'. 0 < cc_capacity c)"
proof (cases op)
  case (NewConstraint cap conv)
  obtain r t where r: "CapacityConstraint_new cap conv s = (r, t)" by fastforce
  show ?thesis using assms(2,3) NewConstraint r Constraint_new_ok[OF assms(1) r] by (cases r) auto
next
  case (ReadRequestConstraints p)
  then show ?thesis using assms read_constraints_ok(1)[OF assms(1), of p] by (auto split: option.splits)
next
  case (ReadBidConstraints p)
  then show ?thesis using assms read_constraints_ok(2)[OF assms(1), of p] by (auto split: option.splits)
next
  case (RequestConstraintOp p k)
  then show ?thesis using assms RequestConstraint_ok[OF assms(1), of "cs ! k" p] by (auto split: if_splits)
next
  case (BidConstraintOp p k)
  then show ?thesis using assms BidConstraint_ok[OF assms(1), of "cs ! k" p] by (auto split: if_splits)
qed (use assms in \<open>auto simp: RequestPortfolio_new_ok BidPortfolio_new_ok AddRequest_ok AddMutualReqs_ok AddBid_ok\<close>)

text \<open>C28. Portfolios stay well typed under every sequence of calls, with constraint objects made at any time and
  passed to any portfolio, also after calls that throw: the requests of a portfolio are distinct objects
  made for it by its one requester, each with a coefficient in the default constraint; its bids are
  distinct, made for it by its one bidder, and offer a positive quantity; its constraints have pairwise
  different ids below the next id to be given, and positive capacities. An insertion that C++ leaves
  undefined, because the set is not ordered around the id of the constraint, counts as one that throws.\<close>

theorem portfolios_typed: "ports_ok (fst (foldl port_step (market_new i sm, []) ops))"
proof -
  have "ports_ok (fst (foldl port_step (market_new i sm, []) ops)) \<and> (\<forall>c \<in> set (snd (foldl port_step (market_new i sm, []) ops)). 0 < cc_capacity c)"
  proof (induction ops rule: rev_induct)
    case Nil
    show ?case by (simp add: ports_ok_def market_new_def)
  next
    case (snoc op ops)
    obtain s cs where "foldl port_step (market_new i sm, []) ops = (s, cs)" by fastforce
    then show ?case using snoc port_step_ok[of s cs op] by (cases "port_step (s, cs) op") auto
  qed
  then show ?thesis by simp
qed

text \<open>Mutual requests are weighted the wrong way round. After \<open>AddMutualReqs\<close> the demand of the
  portfolio counts the group once, with its average quantity, and the coefficient of each request of
  the group is its quantity over the average. A full order of such a request then uses the demand of
  the group, as the class comment promises, only if the quantity is the average itself: a larger
  order uses more than the demand and a smaller one leaves some of it.\<close>

theorem mutual_order_misweighted:
  assumes "mk_rps s p = Some rp" "rs \<noteq> []" "distinct rs" "those (map (target_qty s) rs) = Some qs" "\<forall>q \<in> set qs. 0 < q"
  shows "\<exists>s' rp' avg. AddMutualReqs p rs s = (Inr (), s') \<and> mk_rps s' p = Some rp' \<and> avg = sum_list qs / real (length rs) \<and> 0 < avg \<and>
    rp_qty rp' = rp_qty rp - sum_list qs + avg \<and>
    (\<forall>r. r \<notin> set rs \<longrightarrow> map_of (mass_coeffs rp') r = map_of (mass_coeffs rp) r) \<and>
    (\<forall>i < length rs. \<exists>k. map_of (mass_coeffs rp') (rs ! i) = Some k \<and> k = qs ! i / avg \<and>
       (k * qs ! i = avg \<longleftrightarrow> qs ! i = avg) \<and> (avg < qs ! i \<longrightarrow> avg < k * qs ! i) \<and> (qs ! i < avg \<longrightarrow> k * qs ! i < avg))"
proof -
  have len: "length qs = length rs" and ne: "qs \<noteq> []" using those_length[OF assms(4)] assms(2) by auto
  define avg where "avg = sum_list qs / real (length rs)"
  have sm: "0 < sum_list qs" using ne assms(5) by (induction qs) (auto simp: add_pos_nonneg sum_list_nonneg less_imp_le)
  then have pos: "0 < avg" using assms(2) by (simp add: avg_def)
  define rp' where "rp' = rp_qty_update (\<lambda>x. x + avg) (mutual_update avg (zip rs qs) rp)"
  have av: "foldl (+) 0 qs / real (length qs) = avg" by (simp add: avg_def len foldl_sum)
  have e: "AddMutualReqs p rs s = (Inr (), upd_rp p (\<lambda>rp. rp_qty_update (\<lambda>x. x + avg) (mutual_update avg (zip rs qs) rp)) s)"
    unfolding AddMutualReqs_eq assms(4) Let_def deref_simps av using assms(1,2) pos by (simp add: ok_def)
  have r: "mk_rps (upd_rp p (\<lambda>rp. rp_qty_update (\<lambda>x. x + avg) (mutual_update avg (zip rs qs) rp)) s) p = Some rp'"
    using assms(1) by (simp add: upd_rp_def rp'_def)
  have c: "map_of (mass_coeffs rp') x = (case map_of (zip rs qs) x of Some q \<Rightarrow> Some (q / avg) | None \<Rightarrow> map_of (mass_coeffs rp) x)" for x
    using assms(3) len by (simp add: rp'_def mutual_update_coeffs)
  have "\<exists>k. map_of (mass_coeffs rp') (rs ! i) = Some k \<and> k = qs ! i / avg \<and>
       (k * qs ! i = avg \<longleftrightarrow> qs ! i = avg) \<and> (avg < qs ! i \<longrightarrow> avg < k * qs ! i) \<and> (qs ! i < avg \<longrightarrow> k * qs ! i < avg)"
    if i: "i < length rs" for i
  proof -
    have "0 < qs ! i" using assms(5) i len by simp
    moreover have "map_of (zip rs qs) (rs ! i) = Some (qs ! i)" using assms(3) i len by (simp add: map_of_zip_nth)
    ultimately show ?thesis using full_order[OF pos] c by simp
  qed
  moreover have "map_of (mass_coeffs rp') x = map_of (mass_coeffs rp) x" if "x \<notin> set rs" for x
    using c[of x] that by (simp add: map_of_zip_None len)
  moreover have "rp_qty rp' = rp_qty rp - sum_list qs + avg" by (simp add: rp'_def mutual_update_qty len)
  ultimately show ?thesis using e r avg_def pos by blast
qed

definition mutual_market :: "unit market" where
  "mutual_market = demo_market\<lparr>mk_reqs := (mk_reqs demo_market)(4 \<mapsto> \<lparr>rq_target = 1, rq_requester = Some 0, rq_preference = 1,
     rq_commodity = ''ash'', rq_portfolio = 1, rq_exclusive = False, rq_cost_function = None\<rparr>)\<rparr>"

theorem mutual_order_misweighted_witness:
  "\<exists>s' rp'. AddMutualReqs 1 [0, 4] mutual_market = (Inr (), s') \<and> mk_rps s' 1 = Some rp' \<and>
     (\<exists>k. map_of (mass_coeffs rp') 4 = Some k \<and> 6.5 < k * 8)"
proof -
  have h: "mk_rps mutual_market 1 = Some demo_rp" "[0, 4] \<noteq> ([] :: ptr list)" "distinct [0, 4 :: ptr]"
    "those (map (target_qty mutual_market) [0, 4]) = Some [5, 8]" "\<forall>q \<in> set [5, 8 :: double]. 0 < q"
    by (simp_all add: mutual_market_def demo_market_def target_qty_def market_new_def demo_sim_def Context_new_def demo_res_def)
  obtain s' rp' avg where t: "AddMutualReqs 1 [0, 4] mutual_market = (Inr (), s')" "mk_rps s' 1 = Some rp'"
    "avg = sum_list [5, 8] / real (length [0, 4 :: ptr])"
    "\<forall>i < length [0, 4 :: ptr]. \<exists>k. map_of (mass_coeffs rp') ([0, 4] ! i) = Some k \<and> k = [5, 8] ! i / avg \<and>
       (k * [5, 8] ! i = avg \<longleftrightarrow> [5, 8] ! i = avg) \<and> (avg < [5, 8] ! i \<longrightarrow> avg < k * [5, 8] ! i) \<and> ([5, 8] ! i < avg \<longrightarrow> k * [5, 8] ! i < avg)"
    using mutual_order_misweighted [OF h] by blast
  from t(4)[rule_format, of 1] show ?thesis using t(1-3) by auto
qed

end
