(* ===== verification/Market_Trades.thy ===== *)
theory Market_Trades
  imports Market_Manager Market_Demo
begin

text \<open>
  The trade executor against its contract. \<open>execute_spec\<close> says what executing trades means without
  the maps of \<open>TradeExecutionContext\<close>: ask every supplier once for all of its trades, in the order
  of the solution; write one transaction for each response, by supplier and requester; hand every
  requester once all the responses to its requests. \<open>ExecuteTrades\<close> does this.
\<close>

section \<open>The contract\<close>

definition supplier_of :: "'u market \<Rightarrow> trade \<Rightarrow> ptr option" where
  "supplier_of s t = Option.bind (mk_bids s (t_bid t)) bd_bidder"

definition requester_of :: "'u market \<Rightarrow> trade \<Rightarrow> ptr option" where
  "requester_of s t = Option.bind (mk_reqs s (t_request t)) rq_requester"

type_synonym tagged = "(ptr option \<times> ptr option) \<times> response"

fun ask_all :: "'u trader_cb \<Rightarrow> trade list \<Rightarrow> ptr option list \<Rightarrow> 'u market \<Rightarrow> ('u market, tagged list) exec" where
  "ask_all cb ts [] s = ok [] s"
| "ask_all cb ts (p # ps) s = deref p s (\<lambda>q.
     andThen (tc_trades cb q (filter (\<lambda>t. supplier_of s t = p) ts) s) (\<lambda>rs s1.
     andThen (ask_all cb ts ps s1) (\<lambda>rest s2. ok (map (\<lambda>r. ((p, requester_of s1 (fst r)), r)) rs @ rest) s2)))"

definition record_tagged :: "tagged \<Rightarrow> 'u market \<Rightarrow> ('u market, unit) exec" where
  "record_tagged x s = manager (fst (fst x)) s (\<lambda>_ a. manager (snd (fst x)) s (\<lambda>_ b. record_trade (ag_id a) (ag_id b) (snd x) s))"

definition deliver :: "'u trader_cb \<Rightarrow> tagged list \<Rightarrow> ptr option \<Rightarrow> 'u market \<Rightarrow> ('u market, unit) exec" where
  "deliver cb rs q s = deref q s (\<lambda>p. tc_accept cb p (map snd (filter (\<lambda>x. snd (fst x) = q) rs)) s)"

definition execute_spec :: "'u trader_cb \<Rightarrow> trade list \<Rightarrow> 'u market \<Rightarrow> ('u market, unit) exec" where
  "execute_spec cb ts s =
     andThen (ask_all cb ts (sorted_list_of_set (supplier_of s ` set ts)) s) (\<lambda>rs s1.
     andThen (foreach record_tagged (sort_key fst rs) s1) (\<lambda>_ s2.
       foreach (deliver cb rs) (sorted_list_of_set (requester_of s ` set ts)) s2))"

text \<open>The trades are of this exchange, and traders answer with trades on requests of the exchange
  and leave its requests and bids alone, to which they have const access.\<close>

definition known_trades :: "'u market \<Rightarrow> trade list \<Rightarrow> bool" where
  "known_trades s ts \<longleftrightarrow> (\<forall>t \<in> set ts. mk_bids s (t_bid t) \<noteq> None \<and> mk_reqs s (t_request t) \<noteq> None)"

definition fair_suppliers :: "'u trader_cb \<Rightarrow> bool" where
  "fair_suppliers cb \<longleftrightarrow> (\<forall>p ts s r s'. tc_trades cb p ts s = (r, s') \<longrightarrow> mk_reqs s' = mk_reqs s \<and> mk_bids s' = mk_bids s \<and>
     (\<forall>rs. r = Inr rs \<longrightarrow> (\<forall>x \<in> set rs. mk_reqs s (t_request (fst x)) \<noteq> None)))"

section \<open>Grouping\<close>

lemma Group_step:
  assumes "known_trades s ts" "oset_inv (suppliers tc)" "oset_inv (requesters tc)"
  shows "\<exists>tc'. GroupTradesBySupplier ts tc s = (Inr tc', s) \<and>
    (\<forall>p. omap_sub [] (trades_by_supplier tc') p = omap_sub [] (trades_by_supplier tc) p @ filter (\<lambda>t. supplier_of s t = p) ts) \<and>
    oset_inv (suppliers tc') \<and> set (suppliers tc') = set (suppliers tc) \<union> supplier_of s ` set ts \<and>
    oset_inv (requesters tc') \<and> set (requesters tc') = set (requesters tc) \<union> requester_of s ` set ts \<and>
    trades_by_requester tc' = trades_by_requester tc \<and> all_trades tc' = all_trades tc"
  using assms
proof (induction ts arbitrary: tc)
  case Nil
  then show ?case by (simp add: ok_def)
next
  case (Cons t ts)
  then obtain bd rq where b: "mk_bids s (t_bid t) = Some bd" "mk_reqs s (t_request t) = Some rq" by (auto simp: known_trades_def)
  then have o: "supplier_of s t = bd_bidder bd" "requester_of s t = rq_requester rq" by (simp_all add: supplier_of_def requester_of_def)
  define tc1 where "tc1 = tc\<lparr>trades_by_supplier := omap_push (bd_bidder bd) t (trades_by_supplier tc),
       suppliers := oset_ins (bd_bidder bd) (suppliers tc), requesters := oset_ins (rq_requester rq) (requesters tc)\<rparr>"
  have "known_trades s ts" "oset_inv (suppliers tc1)" "oset_inv (requesters tc1)" using Cons.prems by (simp_all add: tc1_def known_trades_def)
  from Cons.IH[OF this] obtain tc' where "GroupTradesBySupplier ts tc1 s = (Inr tc', s)"
    "\<forall>p. omap_sub [] (trades_by_supplier tc') p = omap_sub [] (trades_by_supplier tc1) p @ filter (\<lambda>t. supplier_of s t = p) ts"
    "oset_inv (suppliers tc')" "set (suppliers tc') = set (suppliers tc1) \<union> supplier_of s ` set ts"
    "oset_inv (requesters tc')" "set (requesters tc') = set (requesters tc1) \<union> requester_of s ` set ts"
    "trades_by_requester tc' = trades_by_requester tc1" "all_trades tc' = all_trades tc1" by blast
  then show ?case using b o by (intro exI[of _ tc']) (auto simp: omap_sub_push tc1_def)
qed

text \<open>What has been filed: the responses of each requester, and those of each pair, in order.\<close>

definition filed :: "tagged list \<Rightarrow> trade_ctx \<Rightarrow> bool" where
  "filed rs tc \<longleftrightarrow> (\<forall>q. omap_sub [] (trades_by_requester tc) q = map snd (filter (\<lambda>x. snd (fst x) = q) rs)) \<and>
     omap_inv (all_trades tc) \<and> (\<forall>k. map_of (all_trades tc) k =
       (if k \<in> fst ` set rs then Some (map snd (filter (\<lambda>x. fst x = k) rs)) else None))"

lemma filed_push:
  assumes "filed rs tc"
  shows "filed (rs @ [((p, q), r)]) (tc\<lparr>trades_by_requester := omap_push q r (trades_by_requester tc),
    all_trades := omap_push (p, q) r (all_trades tc)\<rparr>)"
  using assms by (auto simp: filed_def omap_sub_push omap_push_def omap_sub_def filter_empty_conv image_iff)

lemma file_responses_filed:
  assumes "filed rs tc" "\<forall>x \<in> set xs. mk_reqs s (t_request (fst x)) \<noteq> None"
  shows "\<exists>tc'. file_responses p xs tc s = (Inr tc', s) \<and> filed (rs @ map (\<lambda>r. ((p, requester_of s (fst r)), r)) xs) tc' \<and>
    trades_by_supplier tc' = trades_by_supplier tc \<and> requesters tc' = requesters tc"
  using assms
proof (induction xs arbitrary: tc rs)
  case Nil
  then show ?case by (simp add: ok_def)
next
  case (Cons x xs)
  then obtain rq where rq: "mk_reqs s (t_request (fst x)) = Some rq" by auto
  then have q: "requester_of s (fst x) = rq_requester rq" by (simp add: requester_of_def)
  from Cons.IH[OF filed_push[OF Cons.prems(1), of p "rq_requester rq" x]] Cons.prems(2)
  show ?case using rq q by (auto simp: ok_def)
qed

lemma requester_of_cong: "mk_reqs s' = mk_reqs s \<Longrightarrow> requester_of s' = requester_of s"
  by (simp add: fun_eq_iff requester_of_def)

lemma supplier_of_cong: "mk_bids s' = mk_bids s \<Longrightarrow> supplier_of s' = supplier_of s"
  by (simp add: fun_eq_iff supplier_of_def)

lemma Get_ask:
  assumes "fair_suppliers cb" "filed rs tc" "\<forall>p. omap_sub [] (trades_by_supplier tc) p = filter (\<lambda>t. supplier_of s t = p) ts"
  shows "case ask_all cb ts ps s of
      (Inl e, s') \<Rightarrow> GetTradeResponses cb ps tc s = (Inl e, s')
    | (Inr new, s') \<Rightarrow> \<exists>tc'. GetTradeResponses cb ps tc s = (Inr tc', s') \<and> filed (rs @ new) tc' \<and> requesters tc' = requesters tc"
  using assms(2,3)
proof (induction ps arbitrary: s tc rs)
  case Nil
  then show ?case by (simp add: ok_def)
next
  case (Cons p ps)
  show ?case
  proof (cases p)
    case None
    then show ?thesis by (simp add: throw_def)
  next
    case (Some q)
    obtain r s1 where r: "tc_trades cb q (filter (\<lambda>t. supplier_of s t = p) ts) s = (r, s1)" by fastforce
    show ?thesis
    proof (cases r)
      case (Inl e)
      then show ?thesis using r Some Cons.prems(2) by simp
    next
      case (Inr xs)
      have k: "mk_reqs s1 = mk_reqs s" "mk_bids s1 = mk_bids s" "\<forall>x \<in> set xs. mk_reqs s (t_request (fst x)) \<noteq> None"
        using assms(1) r Inr unfolding fair_suppliers_def by metis+
      define tc1 where "tc1 = tc\<lparr>trades_by_supplier := omap_touch [] p (trades_by_supplier tc)\<rparr>"
      have f: "filed rs tc1" using Cons.prems(1) by (simp add: filed_def tc1_def)
      have "\<forall>x \<in> set xs. mk_reqs s1 (t_request (fst x)) \<noteq> None" using k(1,3) by simp
      from file_responses_filed[OF f this, of p] obtain tc2 where t2: "file_responses p xs tc1 s1 = (Inr tc2, s1)"
        "filed (rs @ map (\<lambda>r. ((p, requester_of s1 (fst r)), r)) xs) tc2" "trades_by_supplier tc2 = trades_by_supplier tc1" "requesters tc2 = requesters tc1"
        by blast
      have "\<forall>p. omap_sub [] (trades_by_supplier tc2) p = filter (\<lambda>t. supplier_of s1 t = p) ts"
        using Cons.prems(2) t2(3) supplier_of_cong[OF k(2)] by (simp add: tc1_def)
      note ih = Cons.IH[OF t2(2) this]
      show ?thesis using ih r Inr Some Cons.prems(2) t2 unfolding tc1_def
        by (cases "ask_all cb ts ps s1"; cases "fst (ask_all cb ts ps s1)") (auto simp: ok_def)
    qed
  qed
qed

section \<open>Recording\<close>

lemma andThen_cong: "r = r' \<Longrightarrow> (\<And>a s. f a s = g a s) \<Longrightarrow> andThen r f = andThen r' g"
  by (simp add: andThen_def split: prod.splits sum.splits)

lemma foreach_concat: "foreach f (concat xss) s = foreach (foreach f) xss s"
  by (induction xss arbitrary: s) (simp_all add: foreach_append)

definition flat :: "(ptr option \<times> ptr option, response list) omap \<Rightarrow> tagged list" where
  "flat m = concat (map (\<lambda>(k, l). map (Pair k) l) m)"

lemma flat_Nil [simp]: "flat [] = []"
  by (simp add: flat_def)

lemma flat_Cons [simp]: "flat ((k, l) # m) = map (Pair k) l @ flat m"
  by (simp add: flat_def)

lemma fst_flat: "fst ` set (flat m) \<subseteq> fst ` set m"
  by (force simp: flat_def)

lemma flat_sorted: "omap_inv m \<Longrightarrow> sorted (map fst (flat m))"
proof (induction m)
  case (Cons a m)
  obtain k l where a: "a = (k, l)" by fastforce
  have "k \<le> fst y" if "y \<in> set (flat m)" for y
  proof -
    have "fst y \<in> fst ` set m" using that fst_flat[of m] by blast
    then show ?thesis using Cons.prems by (auto simp: a omap_inv_def)
  qed
  moreover have "map (fst \<circ> Pair k) l = replicate (length l) k" by (simp add: map_replicate_const comp_def)
  ultimately show ?case using Cons by (auto simp: a omap_inv_def sorted_append)
qed simp

lemma flat_part: "omap_inv m \<Longrightarrow> filter (\<lambda>x. k = fst x) (flat m) = map (Pair k) (omap_sub [] m k)"
proof (induction m)
  case (Cons a m)
  obtain k' l where a: "a = (k', l)" by fastforce
  have d: "filter (\<lambda>x. k = fst x) (map (Pair k') l) = (if k = k' then map (Pair k) l else [])"
    by (auto simp: filter_empty_conv filter_id_conv)
  have n: "filter (\<lambda>x. k' = fst x) (flat m) = []"
    using Cons.prems fst_flat[of m] by (force simp: a omap_inv_def filter_empty_conv)
  show ?case using Cons n by (auto simp: d a omap_inv_def omap_sub_def)
qed (simp add: omap_sub_def)

lemma filed_sorted:
  assumes "filed rs tc" shows "flat (all_trades tc) = sort_key fst rs"
proof -
  have inv: "omap_inv (all_trades tc)" and m: "\<And>k. map_of (all_trades tc) k = (if k \<in> fst ` set rs then Some (map snd (filter (\<lambda>x. fst x = k) rs)) else None)"
    using assms unfolding filed_def by blast+
  have fl: "filter (\<lambda>x. k = fst x) (flat (all_trades tc)) = filter (\<lambda>x. k = fst x) rs" for k
  proof -
    have "map (Pair k) (map snd (filter (\<lambda>x. fst x = k) rs)) = filter (\<lambda>x. k = fst x) rs" by (induction rs) auto
    moreover have "filter (\<lambda>x. k = fst x) rs = []" if "k \<notin> fst ` set rs" using that by (auto simp: filter_empty_conv)
    ultimately show ?thesis unfolding flat_part[OF inv] omap_sub_def m by (cases "k \<in> fst ` set rs") auto
  qed
  have "mset (flat (all_trades tc)) = mset rs"
  proof (rule multiset_eqI)
    fix x have "count (mset (flat (all_trades tc))) x = count (mset (filter (\<lambda>y. fst x = fst y) (flat (all_trades tc)))) x" by simp
    also have "\<dots> = count (mset rs) x" unfolding fl by simp
    finally show "count (mset (flat (all_trades tc))) x = count (mset rs) x" .
  qed
  then show ?thesis using flat_sorted[OF inv] by (intro properties_for_sort_key[symmetric] fl ballI)
qed

lemma filed_nonempty: "filed rs tc \<Longrightarrow> (k, l) \<in> set (all_trades tc) \<Longrightarrow> l \<noteq> []"
proof -
  assume f: "filed rs tc" "(k, l) \<in> set (all_trades tc)"
  then have "map_of (all_trades tc) k = Some l" by (simp add: filed_def omap_inv_def strict_sorted_iff)
  moreover have "map_of (all_trades tc) k = (if k \<in> fst ` set rs then Some (map snd (filter (\<lambda>x. fst x = k) rs)) else None)"
    using f(1) unfolding filed_def by blast
  ultimately show ?thesis by (force simp: filter_empty_conv split: if_splits)
qed

lemma record_trade_frame:
  "record_trade i j r s = (x, s') \<Longrightarrow> managers (mk_sim s') = managers (mk_sim s) \<and> s_agents (mk_sim s') = s_agents (mk_sim s)"
  by (auto simp: record_trade_def NextTransactionID_def record_row_def deref_def throw_def ok_def Let_def split: option.splits prod.splits)

lemma record_group:
  assumes "l \<noteq> []"
  shows "foreach record_tagged (map (Pair k) l) s =
    manager (fst k) s (\<lambda>_ a. manager (snd k) s (\<lambda>_ b. foreach (record_trade (ag_id a) (ag_id b)) l s))"
proof -
  have all: "foreach record_tagged (map (Pair k) l) s1 = foreach (record_trade (ag_id a) (ag_id b)) l s1"
    if "fst k = Some p" "snd k = Some p'" "managers (mk_sim s1) p = Some m" "managers (mk_sim s1) p' = Some m'"
      "s_agents (mk_sim s1) m = Some a" "s_agents (mk_sim s1) m' = Some b" for s1 p p' m m' a b l
    using that
  proof (induction l arbitrary: s1)
    case (Cons r l)
    obtain x s2 where r: "record_trade (ag_id a) (ag_id b) r s1 = (x, s2)" by fastforce
    have "record_tagged (k, r) s1 = (x, s2)" using Cons.prems r by (simp add: record_tagged_def manager_def)
    then show ?case using r Cons record_trade_frame[OF r] by (cases x) simp_all
  qed (simp add: ok_def)
  obtain r l' where l: "l = r # l'" using assms by (cases l) auto
  show ?thesis
    using all[of _ _ s _ _ _ _ l]
    by (auto simp: l manager_def deref_def record_tagged_def throw_def split: option.splits)
qed

lemma RecordTrades_sorted:
  assumes "filed rs tc" shows "RecordTrades tc s = foreach record_tagged (sort_key fst rs) s"
proof -
  have "RecordTrades tc s = foreach (foreach record_tagged) (map (\<lambda>(k, l). map (Pair k) l) m) s"
    if "m = all_trades tc" "\<forall>(k, l) \<in> set m. l \<noteq> []" for m
    unfolding RecordTrades_def that(1)[symmetric] using that(2)
    by (induction m arbitrary: s) (auto simp: record_group cong: andThen_cong)
  from this[OF refl] show ?thesis using filed_nonempty[OF assms]
    unfolding filed_sorted[OF assms, symmetric] flat_def foreach_concat by blast
qed

section \<open>Properties\<close>

text \<open>C5. Executing trades refines its contract. Whatever the traders do, with whatever exception,
  \<open>ExecuteTrades\<close> gives the result and the state of the contract: every supplier is asked once for
  exactly its trades; one transaction is recorded for every response, ordered by supplier and
  requester; every requester of a trade is handed exactly the responses to its requests, once.\<close>

theorem ExecuteTrades_refines:
  assumes "known_trades s ts" "fair_suppliers cb"
  shows "ExecuteTrades cb ts s = execute_spec cb ts s"
proof -
  obtain tc where g: "GroupTradesBySupplier ts trade_ctx_new s = (Inr tc, s)"
    "\<forall>p. omap_sub [] (trades_by_supplier tc) p = omap_sub [] (trades_by_supplier trade_ctx_new) p @ filter (\<lambda>t. supplier_of s t = p) ts"
    "oset_inv (suppliers tc)" "set (suppliers tc) = set (suppliers trade_ctx_new) \<union> supplier_of s ` set ts"
    "oset_inv (requesters tc)" "set (requesters tc) = set (requesters trade_ctx_new) \<union> requester_of s ` set ts"
    "trades_by_requester tc = trades_by_requester trade_ctx_new" "all_trades tc = all_trades trade_ctx_new"
    using Group_step[OF assms(1), of trade_ctx_new] by (auto simp: trade_ctx_new_def)
  have l: "suppliers tc = sorted_list_of_set (supplier_of s ` set ts)" "requesters tc = sorted_list_of_set (requester_of s ` set ts)"
    using oset_eq[OF g(3)] oset_eq[OF g(5)] g(4,6) by (simp_all add: trade_ctx_new_def)
  have f: "filed [] tc" using g(7,8) by (simp add: filed_def trade_ctx_new_def omap_sub_def)
  have p: "\<forall>p. omap_sub [] (trades_by_supplier tc) p = filter (\<lambda>t. supplier_of s t = p) ts"
    using g(2) by (simp add: trade_ctx_new_def omap_sub_def)
  note ask = Get_ask[OF assms(2) f p, of "suppliers tc"]
  obtain a s1 where a: "ask_all cb ts (suppliers tc) s = (a, s1)" by fastforce
  show ?thesis
  proof (cases a)
    case (Inl e)
    then show ?thesis using a ask by (simp add: ExecuteTrades_def execute_spec_def g(1) flip: l)
  next
    case (Inr rs)
    then obtain tc' where t: "GetTradeResponses cb (suppliers tc) tc s = (Inr tc', s1)" "filed rs tc'" "requesters tc' = requesters tc"
      using a ask by auto
    have "SendTradeResources cb tc' = foreach (deliver cb rs) (requesters tc)"
      using t(2,3) unfolding fun_eq_iff SendTradeResources_def filed_def by (simp add: deliver_def[abs_def])
    then show ?thesis using a Inr t(1) RecordTrades_sorted[OF t(2), of s1] by (simp add: ExecuteTrades_def execute_spec_def g(1) flip: l)
  qed
qed

text \<open>Suppliers that answer every trade on a known request with resource 1, requesters that take it.\<close>

definition demo_traders :: "unit trader_cb" where
  "demo_traders = Trader_default\<lparr>
     tc_trades := (\<lambda>_ ts s. ok (map (\<lambda>t. (t, 1)) (filter (\<lambda>t. mk_reqs s (t_request t) \<noteq> None) ts)) s)\<rparr>"

definition demo_trade :: trade where
  "demo_trade = \<lparr>t_request = 0, t_bid = 2, t_amt = 4, t_price = 0\<rparr>"

theorem ExecuteTrades_refines_witness:
  "ExecuteTrades demo_traders [demo_trade] demo_market = record_trade 1 0 (demo_trade, 1) demo_market"
proof -
  have h: "known_trades demo_market [demo_trade]" "fair_suppliers demo_traders"
    by (auto simp: known_trades_def demo_market_def demo_trade_def fair_suppliers_def demo_traders_def ok_def)
  have c: "tc_trades demo_traders p ts s = ok (map (\<lambda>t. (t, 1)) (filter (\<lambda>t. mk_reqs s (t_request t) \<noteq> None) ts)) s"
    "tc_accept demo_traders p rs s = ok () s" for p ts rs s by (simp_all add: demo_traders_def Trader_default_def)
  have d: "supplier_of demo_market demo_trade = Some 1" "requester_of demo_market demo_trade = Some 0"
    by (simp_all add: supplier_of_def requester_of_def demo_market_def demo_trade_def demo_bid_def)
  have m: "record_tagged ((Some 1, Some 0), r) demo_market = record_trade 1 0 r demo_market" for r
    by (simp add: record_tagged_def manager_def demo_market_def market_new_def demo_sim_def Context_new_def demo_agent_def)
  obtain s' where "record_trade 1 0 (demo_trade, 1) demo_market = (Inr (), s')"
    by (simp add: record_trade_def demo_market_def market_new_def demo_sim_def Context_new_def demo_trade_def demo_res_def NextTransactionID_def ok_def)
  moreover have "mk_reqs demo_market (t_request demo_trade) \<noteq> None" by (simp add: demo_market_def demo_trade_def)
  ultimately show ?thesis using ExecuteTrades_refines [OF h] d m
    by (simp add: execute_spec_def c deliver_def ok_def)
qed

end
