(* ===== verification/Res_Ops.thy ===== *)
theory Res_Ops
  imports Resource_Model
begin

text \<open>
  The virtual methods of class \<open>Resource\<close> that the toolkit's containers use, and what they promise:
  \<open>ExtractRes\<close> splits off an exact quantity as a new object and \<open>Absorb\<close> moves a whole quantity,
  and neither throws on well-formed objects. The contract is a locale; products of one quality and
  materials both satisfy it.
\<close>

section \<open>The virtual methods\<close>

definition ExtractRes :: "nucdata \<Rightarrow> double \<Rightarrow> ptr \<Rightarrow> double \<Rightarrow> world \<Rightarrow> (world, ptr) exec" where
  "ExtractRes nd eps_rsrc p q w = with_res p w (\<lambda>r.
     case body r of MatBody _ _ \<Rightarrow> ExtractQty nd eps_rsrc p q w | ProdBody _ \<Rightarrow> Product_Extract nd p q w)"

definition AbsorbRes :: "nucdata \<Rightarrow> ptr \<Rightarrow> ptr \<Rightarrow> world \<Rightarrow> (world, unit) exec" where
  "AbsorbRes nd p other w = with_res p w (\<lambda>r.
     case body r of MatBody _ _ \<Rightarrow> Material_Absorb nd p other w | ProdBody _ \<Rightarrow> Product_Absorb nd p other w)"

section \<open>The contract\<close>

locale splittable =
  fixes live :: "world \<Rightarrow> ptr \<Rightarrow> bool"
    and split_off :: "ptr \<Rightarrow> double \<Rightarrow> world \<Rightarrow> (world, ptr) exec"
    and absorb :: "ptr \<Rightarrow> ptr \<Rightarrow> world \<Rightarrow> (world, unit) exec"
  assumes live_res: "live w p \<Longrightarrow> w_res w p \<noteq> None \<and> 0 \<le> qty_at w p"
    and split_law: "live w p \<Longrightarrow> 0 \<le> q \<Longrightarrow> q \<le> qty_at w p \<Longrightarrow>
      \<exists>p' w'. split_off p q w = (Inr p', w') \<and> w_res w p' = None \<and> live w' p' \<and> (\<forall>x. live w x \<longrightarrow> live w' x) \<and>
        qty_at w' = (qty_at w)(p := qty_at w p - q, p' := q)"
    and absorb_law: "live w p \<Longrightarrow> live w p' \<Longrightarrow> p \<noteq> p' \<Longrightarrow>
      \<exists>w'. absorb p p' w = (Inr (), w') \<and> (\<forall>x. live w x \<longrightarrow> live w' x) \<and>
        qty_at w' = (qty_at w)(p := qty_at w p + qty_at w p', p' := 0)"

section \<open>Well-formed objects\<close>

text \<open>The object has a context and, when tracked, its tracker points back to it.\<close>

definition sound_res :: "world \<Rightarrow> ptr \<Rightarrow> resource \<Rightarrow> bool" where
  "sound_res w p r \<longleftrightarrow> w_res w p = Some r \<and> has_ctx r \<and> w_res w (tracker_res r) \<noteq> None \<and>
     (tracked r \<longrightarrow> tracker_res r = p) \<and> 0 \<le> quantity r"

definition prod_live :: "string \<Rightarrow> world \<Rightarrow> ptr \<Rightarrow> bool" where
  "prod_live ql w p \<longleftrightarrow> res_fresh w \<and> (\<exists>r. sound_res w p r \<and> body r = ProdBody ql)"

definition good_comp :: "nucdata \<Rightarrow> world \<Rightarrow> ptr \<Rightarrow> bool" where
  "good_comp nd w c \<longleftrightarrow> (\<exists>cp. w_comp w c = Some cp \<and> compmath_ValidNucs (isnuclide nd) (mass_vec nd cp) \<and>
     compmath_AllPositive (mass_vec nd cp))"

definition mat_live :: "nucdata \<Rightarrow> world \<Rightarrow> ptr \<Rightarrow> bool" where
  "mat_live nd w p \<longleftrightarrow> res_fresh w \<and> comp_inv w \<and> w_decay w \<noteq> ''lazy'' \<and>
     (\<exists>r c t. sound_res w p r \<and> body r = MatBody c t \<and> good_comp nd w c)"

section \<open>Frame of the trackers\<close>

definition kframe :: "nucdata \<Rightarrow> world \<Rightarrow> world \<Rightarrow> bool" where
  "kframe nd w w' \<longleftrightarrow> mframe nd w w' \<and>
     (\<forall>p. map_option (\<lambda>r. (quantity r, body r, has_ctx r, tracked r, tracker_res r)) (w_res w' p) =
          map_option (\<lambda>r. (quantity r, body r, has_ctx r, tracked r, tracker_res r)) (w_res w p)) \<and>
     w_next w \<le> w_next w' \<and> w_decay w' = w_decay w \<and> (comp_inv w \<longrightarrow> comp_inv w')"

lemma kframe_refl [simp, intro]: "kframe nd w w"
  by (simp add: kframe_def)

lemma kframe_trans: "kframe nd w w' \<Longrightarrow> kframe nd w' w'' \<Longrightarrow> kframe nd w w''"
  by (auto simp: kframe_def intro: mframe_trans)

lemma comp_inv_same:
  "w_comp w' = w_comp w \<Longrightarrow> w_chain w' = w_chain w \<Longrightarrow> w_next w' = w_next w \<Longrightarrow> next_comp_id w' = next_comp_id w \<Longrightarrow>
   comp_inv w \<Longrightarrow> comp_inv w'"
  by (erule comp_inv_grow) simp_all

lemma kframe_upd_res:
  "(\<And>r. w_res w p = Some r \<Longrightarrow> (quantity (f r), body (f r), has_ctx (f r), tracked (f r), tracker_res (f r)) =
     (quantity r, body r, has_ctx r, tracked r, tracker_res r)) \<Longrightarrow> kframe nd w (upd_res p f w)"
  unfolding kframe_def by (auto simp: option.map_comp comp_def mframe_def option.map_ident elim!: comp_inv_same[rotated -1]
      intro!: option.map_cong split: option.splits)

lemma kframe_steps:
  "kframe nd w (BumpStateId p w)" "kframe nd w (set_parents p i j w)" "kframe nd w (emit x w)"
  "kframe nd w (w\<lparr>qualids := q\<rparr>)"
proof -
  have u: "kframe nd w (upd_res p (state_id_update (\<lambda>_. i)) w)" for i by (rule kframe_upd_res) simp
  have "kframe nd v (v\<lparr>nextstate_id := i\<rparr>)" for v i by (auto simp: kframe_def mframe_def elim!: comp_inv_same[rotated -1])
  then show "kframe nd w (BumpStateId p w)" unfolding BumpStateId_def by (rule kframe_trans[OF u])
  show "kframe nd w (set_parents p i j w)" unfolding set_parents_def by (rule kframe_upd_res) simp
qed (auto simp: kframe_def mframe_def emit_def elim!: comp_inv_same[rotated -1])

lemma kframe_of_comp: "mframe nd w w' \<Longrightarrow> res_frame w w' \<Longrightarrow> (comp_inv w \<Longrightarrow> comp_inv w') \<Longrightarrow> kframe nd w w'"
  by (simp add: kframe_def res_frame_def)

lemma kframe_resD:
  assumes "kframe nd w w'" "w_res w p = Some r"
  obtains r' where "w_res w' p = Some r'" "quantity r' = quantity r" "body r' = body r" "has_ctx r' = has_ctx r"
    "tracked r' = tracked r" "tracker_res r' = tracker_res r"
proof -
  have "map_option (\<lambda>r. (quantity r, body r, has_ctx r, tracked r, tracker_res r)) (w_res w' p) =
      Some (quantity r, body r, has_ctx r, tracked r, tracker_res r)" using assms by (simp add: kframe_def)
  then show thesis using that by auto
qed

lemma kframe_qty: "kframe nd w w' \<Longrightarrow> qty_at w' = qty_at w"
proof
  fix p assume "kframe nd w w'"
  then have e: "map_option (\<lambda>r. (quantity r, body r, has_ctx r, tracked r, tracker_res r)) (w_res w' p) =
      map_option (\<lambda>r. (quantity r, body r, has_ctx r, tracked r, tracker_res r)) (w_res w p)" by (simp add: kframe_def)
  then show "qty_at w' p = qty_at w p" by (cases "w_res w p"; cases "w_res w' p") (auto simp: qty_at_def)
qed

lemma kframe_dom: "kframe nd w w' \<Longrightarrow> w_res w' p = None \<longleftrightarrow> w_res w p = None"
  unfolding kframe_def by (metis (no_types, lifting) map_option_is_None)

lemma kframe_sound:
  "kframe nd w w' \<Longrightarrow> sound_res w p r \<Longrightarrow>
   \<exists>r'. sound_res w' p r' \<and> body r' = body r \<and> quantity r' = quantity r \<and> tracked r' = tracked r"
proof -
  assume k: "kframe nd w w'" and s: "sound_res w p r"
  obtain r' where "w_res w' p = Some r'" "quantity r' = quantity r" "body r' = body r" "has_ctx r' = has_ctx r"
    "tracked r' = tracked r" "tracker_res r' = tracker_res r"
    by (rule kframe_resD[OF k s[unfolded sound_res_def, THEN conjunct1]])
  then show ?thesis using s kframe_dom[OF k, of "tracker_res r"] unfolding sound_res_def by (intro exI[of _ r']) simp
qed

lemma kframe_fresh: "kframe nd w w' \<Longrightarrow> res_fresh w \<Longrightarrow> res_fresh w'"
  using kframe_dom[of nd w w'] order_trans[of "w_next w" "w_next w'"] unfolding res_fresh_def kframe_def by blast

lemma kframe_good: "kframe nd w w' \<Longrightarrow> good_comp nd w c \<Longrightarrow> good_comp nd w' c"
  unfolding good_comp_def using mframeD[of nd w w' c] by (auto simp: kframe_def)

lemma kframe_live:
  "kframe nd w w' \<Longrightarrow> prod_live ql w p \<Longrightarrow> prod_live ql w' p"
  "kframe nd w w' \<Longrightarrow> mat_live nd w p \<Longrightarrow> mat_live nd w' p"
proof -
  assume k: "kframe nd w w'"
  show "prod_live ql w' p" if "prod_live ql w p"
    using that kframe_sound[OF k] kframe_fresh[OF k] unfolding prod_live_def by fastforce
  show "mat_live nd w' p" if "mat_live nd w p"
  proof -
    obtain r c t where r: "sound_res w p r" "body r = MatBody c t" "good_comp nd w c" using \<open>mat_live nd w p\<close> by (auto simp: mat_live_def)
    obtain r' where "sound_res w' p r'" "body r' = body r" using kframe_sound[OF k r(1)] by blast
    then show ?thesis using that r(2) kframe_good[OF k r(3)] kframe_fresh[OF k] k by (auto simp: mat_live_def kframe_def)
  qed
qed

section \<open>Trackers do not throw on well-formed objects\<close>

lemma foldl_emit: "foldl (\<lambda>w' (nuc, q). emit (Compositions i nuc q) w') w v = w\<lparr>w_db := w_db w @ map (\<lambda>(nuc, q). Compositions i nuc q) v\<rparr>"
  by (induction v arbitrary: w) (auto simp: emit_def)

lemma Composition_Record_ok:
  assumes "w_comp w c = Some cp"
  obtains w' where "Composition_Record nd c w = (Inr (), w')" "kframe nd w w'"
proof -
  let ?r = "Composition_Record nd c w" and ?w1 = "upd_comp c (comp_recorded_update (\<lambda>_. True)) w"
  have inv: "comp_inv (snd ?r)" if "comp_inv w"
  proof (cases "comp_recorded cp")
    case True
    then show ?thesis using assms that by (simp add: Composition_Record_def ok_def)
  next
    case False
    have i1: "comp_inv ?w1" by (rule comp_inv_upd_comp[OF that]) (auto dest: comp_invD(3,4)[OF that])
    obtain m w2 where m: "Composition_mass nd c ?w1 = (m, w2)" by fastforce
    have "comp_inv w2" by (rule comp_inv_mass[OF i1 m])
    then have "comp_inv (w2\<lparr>w_db := d\<rparr>)" for d by (rule comp_inv_same[rotated -1]) simp_all
    then show ?thesis using False assms \<open>comp_inv w2\<close>
      by (cases m) (auto simp: Composition_Record_def m foldl_emit ok_def)
  qed
  obtain w2 where "Composition_mass nd c ?w1 = (Inr (mass_vec nd (cp\<lparr>comp_recorded := True\<rparr>)), w2)"
    by (rule Composition_mass_spec[of ?w1 c "cp\<lparr>comp_recorded := True\<rparr>" nd]) (use assms in simp_all)
  then have "fst ?r = Inr ()" using assms by (simp add: Composition_Record_def ok_def)
  then have "?r = (Inr (), snd ?r)" by (metis prod.collapse)
  moreover have "kframe nd w (snd ?r)"
    by (intro kframe_of_comp mframe_Record mframe_refl inv res_frame_Record[OF prod.collapse[symmetric]])
  ultimately show thesis by (rule that)
qed

lemma qual_id_ok:
  assumes "\<And>c t. body r = MatBody c t \<Longrightarrow> w_comp w c \<noteq> None"
  obtains i w' where "qual_id r w = (Inr i, w')" "kframe nd w w'" "w_res w' = w_res w" "w_comp w' = w_comp w"
proof (cases "body r")
  case (MatBody c t)
  then obtain cp where "w_comp w c = Some cp" using assms by blast
  then have "qual_id r w = (Inr (comp_id cp), w)" using MatBody by (simp add: qual_id_def with_comp_def ok_def)
  then show ?thesis by (rule that) simp_all
next
  case (ProdBody ql)
  show ?thesis
  proof (cases "map_of (qualids w) ql")
    case None
    have "qual_id r w = (Inr 0, w\<lparr>qualids := (ql, 0) # qualids w\<rparr>)" using ProdBody None by (simp add: qual_id_def ok_def)
    then show ?thesis by (rule that[OF _ kframe_steps(4)]) simp_all
  next
    case (Some i)
    have "qual_id r w = (Inr i, w)" using ProdBody Some by (simp add: qual_id_def ok_def)
    then show ?thesis by (rule that) simp_all
  qed
qed

lemma tracker_Record_ok:
  assumes "sound_res w p r" "tracked r" "\<And>c t. body r = MatBody c t \<Longrightarrow> w_comp w c \<noteq> None"
  obtains w' where "tracker_Record nd p w = (Inr (), w')" "kframe nd w w'"
proof -
  have r: "w_res w p = Some r" "has_ctx r" "tracker_res r = p" using assms(1,2) by (auto simp: sound_res_def)
  let ?r1 = "r\<lparr>state_id := nextstate_id w\<rparr>" and ?w1 = "BumpStateId p w"
  have r1: "w_res ?w1 p = Some ?r1" "w_comp ?w1 = w_comp w" using r(1) by (simp_all add: BumpStateId_def)
  obtain i w2 where q: "qual_id ?r1 ?w1 = (Inr i, w2)" "kframe nd ?w1 w2" "w_res w2 = w_res ?w1" "w_comp w2 = w_comp ?w1"
    by (rule qual_id_ok[of ?r1 ?w1 nd]) (use assms(3) r1 in auto)
  define row where "row = Resources (state_id ?r1) (obj_id ?r1) (res_type (body ?r1)) (w_time w2) (quantity ?r1) (res_units (body ?r1)) i (parent1 r) (parent2 r)"
  have e: "tracker_Record nd p w = res_Record nd p (emit row w2)"
    using r r1(1) q(1) by (simp add: tracker_Record_def Let_def with_res_def row_def)
  have w2r: "w_res (emit row w2) p = Some ?r1" "w_comp (emit row w2) = w_comp w" using q(3,4) r1 by simp_all
  have k: "kframe nd w (emit row w2)" by (rule kframe_trans[OF kframe_steps(1) kframe_trans[OF q(2) kframe_steps(3)]])
  show thesis
  proof (cases "body r")
    case (ProdBody ql)
    then have "res_Record nd p (emit row w2) = (Inr (), emit row w2)" using w2r by (simp add: res_Record_def with_res_def ok_def)
    then show thesis using that e k by simp
  next
    case (MatBody c t)
    then obtain cp where "w_comp w c = Some cp" using assms(3) by blast
    then have c: "w_comp (emit (MaterialInfo (nextstate_id w) t) (emit row w2)) c = Some cp" using w2r by simp
    obtain w' where w': "Composition_Record nd c (emit (MaterialInfo (nextstate_id w) t) (emit row w2)) = (Inr (), w')"
      "kframe nd (emit (MaterialInfo (nextstate_id w) t) (emit row w2)) w'" by (rule Composition_Record_ok[OF c])
    have "res_Record nd p (emit row w2) = (Inr (), w')" using w2r MatBody r(2) w'(1) by (simp add: res_Record_def with_res_def)
    then show thesis using that e kframe_trans[OF k kframe_trans[OF kframe_steps(3) w'(2)]] by simp
  qed
qed

lemma tracked_state_id_sound: "sound_res w p r \<Longrightarrow> tracked_state_id p w f = f (state_id (the (w_res w (tracker_res r))))"
  by (auto simp: tracked_state_id_def sound_res_def with_res_def split: option.splits)

lemma tracker_Absorb_ok:
  assumes "sound_res w p r" "sound_res w p' r'" "\<And>c t. body r = MatBody c t \<Longrightarrow> w_comp w c \<noteq> None"
  obtains w' where "tracker_Absorb nd p p' w = (Inr (), w')" "kframe nd w w'"
proof (cases "tracked r")
  case False
  then show ?thesis using assms(1) that[of w] by (simp add: tracker_Absorb_def sound_res_def with_res_def ok_def)
next
  case True
  define i j where "i = state_id (the (w_res w (tracker_res r)))" and "j = state_id (the (w_res w (tracker_res r')))"
  note ij = tracked_state_id_sound[OF assms(1), folded i_def] tracked_state_id_sound[OF assms(2), folded j_def]
  have k: "kframe nd w (set_parents p i j w)" by (rule kframe_steps(2))
  have s: "sound_res (set_parents p i j w) p (r\<lparr>parent1 := i, parent2 := j\<rparr>)" using assms(1) by (auto simp: sound_res_def set_parents_def)
  obtain w' where "tracker_Record nd p (set_parents p i j w) = (Inr (), w')" "kframe nd (set_parents p i j w) w'"
    by (rule tracker_Record_ok[OF s]) (use True assms(3) in \<open>auto simp: set_parents_def\<close>)
  then show ?thesis using that[of w'] kframe_trans[OF k] True assms(1) by (simp add: tracker_Absorb_def sound_res_def with_res_def ij)
qed

lemma tracker_Extract_ok:
  assumes "sound_res w p r" "sound_res w p' r'" "tracked r'" "p \<noteq> p'"
    "\<And>c t. body r = MatBody c t \<Longrightarrow> w_comp w c \<noteq> None" "\<And>c t. body r' = MatBody c t \<Longrightarrow> w_comp w c \<noteq> None"
  obtains w' where "tracker_Extract nd p p' w = (Inr (), w')" "kframe nd w w'"
proof (cases "tracked r")
  case False
  then show ?thesis using assms(1) that[of w] by (simp add: tracker_Extract_def sound_res_def with_res_def ok_def)
next
  case True
  define i where "i = state_id (the (w_res w (tracker_res r)))"
  note i = tracked_state_id_sound[OF assms(1), folded i_def]
  define w2 where "w2 = upd_res p' (\<lambda>o'. o'\<lparr>parent1 := i, parent2 := 0, tracked := True\<rparr>) (set_parents p i 0 w)"
  have k2: "kframe nd w w2" unfolding w2_def
    by (rule kframe_trans[OF kframe_steps(2)], rule kframe_upd_res) (use assms in \<open>auto simp: sound_res_def set_parents_def\<close>)
  have c2: "w_comp w2 = w_comp w" by (simp add: w2_def set_parents_def)
  have s2: "sound_res w2 p (r\<lparr>parent1 := i, parent2 := 0\<rparr>)" "sound_res w2 p' (r'\<lparr>parent1 := i, parent2 := 0, tracked := True\<rparr>)"
    using assms(1-4) by (auto simp: sound_res_def w2_def set_parents_def)
  obtain w3 where w3: "tracker_Record nd p w2 = (Inr (), w3)" "kframe nd w2 w3"
    by (rule tracker_Record_ok[OF s2(1)]) (use True assms(5) c2 in auto)
  obtain r3 where r3: "sound_res w3 p' r3" "body r3 = body r'" "tracked r3"
    using kframe_sound[OF w3(2) s2(2)] by auto
  have c3: "w_comp w3 c \<noteq> None" if "body r3 = MatBody c t" for c t
    using assms(6)[of c t] that r3(2) c2 w3(2) mframeD[of nd w2 w3 c] by (auto simp: kframe_def)
  obtain w4 where "tracker_Record nd p' w3 = (Inr (), w4)" "kframe nd w3 w4" by (rule tracker_Record_ok[OF r3(1,3) c3])
  then show ?thesis using that[of w4] kframe_trans[OF k2 kframe_trans[OF w3(2)]] True assms(1) w3(1)
    by (simp add: tracker_Extract_def sound_res_def with_res_def Let_def w2_def i)
qed

section \<open>Splitting off\<close>

text \<open>The store after the source lost \<open>q\<close> and the new object was made, before the trackers run.\<close>

definition split_world :: "world \<Rightarrow> ptr \<Rightarrow> resource \<Rightarrow> double \<Rightarrow> resource \<Rightarrow> world \<Rightarrow> bool" where
  "split_world w p r q r' w2 \<longleftrightarrow> sound_res w p r \<and> 0 \<le> q \<and> q \<le> quantity r \<and>
     w_res w2 = (w_res w)(p \<mapsto> r\<lparr>quantity := quantity r - q\<rparr>, w_next w \<mapsto> r') \<and>
     has_ctx r' \<and> tracked r' \<and> tracker_res r' = w_next w \<and> quantity r' = q \<and>
     w_next w2 = Suc (w_next w) \<and> w_comp w2 = w_comp w \<and> w_decay w2 = w_decay w \<and> (comp_inv w \<longrightarrow> comp_inv w2)"

lemma split_world_facts:
  assumes "split_world w p r q r' w2" "res_fresh w"
  shows "p \<noteq> w_next w" "res_fresh w2" "w_res w (w_next w) = None" "qty_at w2 = (qty_at w)(p := qty_at w p - q, w_next w := q)"
    "sound_res w2 p (r\<lparr>quantity := quantity r - q\<rparr>)" "sound_res w2 (w_next w) r'"
    "\<And>x rx. sound_res w x rx \<Longrightarrow> \<exists>rx'. sound_res w2 x rx' \<and> body rx' = body rx"
proof -
  have r: "w_res w p = Some r" using assms(1) by (simp add: split_world_def sound_res_def)
  show p: "p \<noteq> w_next w" using res_freshD[OF assms(2) r] by simp
  show n: "w_res w (w_next w) = None" using assms(2) by (simp add: res_fresh_def)
  show "res_fresh w2" using assms p by (auto simp: split_world_def res_fresh_def sound_res_def)
  show "qty_at w2 = (qty_at w)(p := qty_at w p - q, w_next w := q)"
    using assms(1) r by (auto simp: split_world_def qty_at_def fun_eq_iff)
  show s: "sound_res w2 p (r\<lparr>quantity := quantity r - q\<rparr>)" "sound_res w2 (w_next w) r'"
    using assms(1) p by (auto simp: split_world_def sound_res_def)
  show "\<exists>rx'. sound_res w2 x rx' \<and> body rx' = body rx" if "sound_res w x rx" for x rx
  proof (cases "x = p")
    case True
    then show ?thesis using s(1) that r by (intro exI[of _ "r\<lparr>quantity := quantity r - q\<rparr>"]) (simp add: sound_res_def)
  next
    case False
    have "x \<noteq> w_next w" using that n by (auto simp: sound_res_def)
    then show ?thesis using that False assms(1) by (intro exI[of _ rx]) (auto simp: split_world_def sound_res_def)
  qed
qed

lemma split_finish:
  assumes "split_world w p r q r' w2" "res_fresh w"
    "\<And>c t. body r = MatBody c t \<Longrightarrow> w_comp w c \<noteq> None" "\<And>c t. body r' = MatBody c t \<Longrightarrow> w_comp w c \<noteq> None"
  obtains w' where "tracker_Extract nd p (w_next w) w2 = (Inr (), w')" "kframe nd w2 w'"
proof -
  note f = split_world_facts[OF assms(1,2)]
  have c: "w_comp w2 = w_comp w" "tracked r'" using assms(1) by (simp_all add: split_world_def)
  show thesis by (rule tracker_Extract_ok[OF f(5,6) c(2) f(1)]) (use assms(3,4) c(1) that in auto)
qed

lemma split_live:
  assumes "split_world w p r q r' w2" "kframe nd w2 w'"
  shows "prod_live ql w x \<Longrightarrow> prod_live ql w' x" "mat_live nd w x \<Longrightarrow> mat_live nd w' x"
proof -
  have c: "w_comp w2 = w_comp w" "w_decay w2 = w_decay w" "comp_inv w \<Longrightarrow> comp_inv w2" using assms(1) by (simp_all add: split_world_def)
  show "prod_live ql w' x" if "prod_live ql w x"
    by (rule kframe_live(1)[OF assms(2)]) (use that split_world_facts(2,7)[OF assms(1)] in \<open>fastforce simp: prod_live_def\<close>)
  show "mat_live nd w' x" if m: "mat_live nd w x"
  proof (rule kframe_live(2)[OF assms(2)])
    obtain rx k t where x: "sound_res w x rx" "body rx = MatBody k t" "good_comp nd w k" "res_fresh w" using m by (auto simp: mat_live_def)
    obtain rx' where "sound_res w2 x rx'" "body rx' = body rx" using split_world_facts(7)[OF assms(1) x(4,1)] by blast
    then show "mat_live nd w2 x" using x m c split_world_facts(2)[OF assms(1) x(4)] by (auto simp: mat_live_def good_comp_def)
  qed
qed

lemma Product_Extract_law:
  assumes "prod_live ql w p" "0 \<le> q" "q \<le> qty_at w p"
  shows "\<exists>p' w'. Product_Extract nd p q w = (Inr p', w') \<and> w_res w p' = None \<and> prod_live ql w' p' \<and>
    (\<forall>x. prod_live ql w x \<longrightarrow> prod_live ql w' x) \<and> qty_at w' = (qty_at w)(p := qty_at w p - q, p' := q)"
proof -
  obtain r where r: "sound_res w p r" "body r = ProdBody ql" "res_fresh w" using assms(1) by (auto simp: prod_live_def)
  then have wr: "w_res w p = Some r" "has_ctx r" "q \<le> quantity r" using assms(3) by (simp_all add: sound_res_def qty_at_def)
  obtain w2 where n: "Product_new (has_ctx r) q ql (upd_res p (quantity_update (\<lambda>x. x - q)) w) = (w_next w, w2)"
    by (simp add: Product_new_def new_resource_def Let_def)
  define r' where "r' = the (w_res w2 (w_next w))"
  have s: "split_world w p r q r' w2" and b: "body r' = ProdBody ql"
    using n r(1) wr assms(2) unfolding r'_def
    by (auto simp: split_world_def Product_new_def new_resource_def Let_def elim!: comp_inv_grow)
  obtain w' where w': "tracker_Extract nd p (w_next w) w2 = (Inr (), w')" "kframe nd w2 w'"
    by (rule split_finish[OF s r(3)]) (use r(2) b in auto)
  have "Product_Extract nd p q w = (Inr (w_next w), w')"
    using wr r(2) n w'(1) by (simp add: Product_Extract_def with_res_def ok_def)
  moreover have "prod_live ql w' (w_next w)"
    by (rule kframe_live(1)[OF w'(2)]) (use split_world_facts(2,6)[OF s r(3)] b in \<open>auto simp: prod_live_def\<close>)
  ultimately show ?thesis using split_world_facts(3,4)[OF s r(3)] split_live(1)[OF s w'(2)] kframe_qty[OF w'(2)] by auto
qed

lemma Material_Extract_law:
  assumes "mat_live nd w p" "0 \<le> q" "q \<le> qty_at w p"
  shows "\<exists>p' w'. ExtractQty nd eps p q w = (Inr p', w') \<and> w_res w p' = None \<and> mat_live nd w' p' \<and>
    (\<forall>x. mat_live nd w x \<longrightarrow> mat_live nd w' x) \<and> qty_at w' = (qty_at w)(p := qty_at w p - q, p' := q)"
proof -
  obtain r c t where r: "sound_res w p r" "body r = MatBody c t" "res_fresh w" "good_comp nd w c" "comp_inv w" "w_decay w \<noteq> ''lazy''"
    using assms(1) by (auto simp: mat_live_def)
  then have wr: "w_res w p = Some r" "has_ctx r" "q \<le> quantity r" using assms(3) by (simp_all add: sound_res_def qty_at_def)
  obtain w4 where n: "Material_new (has_ctx r) q c (upd_res p (quantity_update (\<lambda>x. x - q)) w) = (w_next w, w4)"
    using wr(2) by (simp add: Material_new_def new_resource_def Let_def)
  define w2 where "w2 = set_prev_decay_time (w_next w) t w4"
  define r' where "r' = the (w_res w2 (w_next w))"
  have s: "split_world w p r q r' w2" and b: "body r' = MatBody c t"
    using n r(1) wr assms(2) unfolding r'_def w2_def
    by (auto simp: split_world_def Material_new_def new_resource_def Let_def set_prev_decay_time_def elim!: comp_inv_grow)
  have gc: "w_comp w c \<noteq> None" using r(4) by (auto simp: good_comp_def)
  obtain w' where w': "tracker_Extract nd p (w_next w) w2 = (Inr (), w')" "kframe nd w2 w'"
    by (rule split_finish[OF s r(3)]) (use r(2) b gc in auto)
  have "ExtractQty nd eps p q w = (Inr (w_next w), w')"
    using wr r(2) n w'(1) by (simp add: ExtractQty_def ExtractComp_def with_mat_def with_res_def ok_def w2_def)
  moreover have "mat_live nd w' (w_next w)"
    by (rule kframe_live(2)[OF w'(2)])
      (use split_world_facts(2,6)[OF s r(3)] b r(4-6) s in \<open>auto simp: mat_live_def split_world_def good_comp_def\<close>)
  ultimately show ?thesis using split_world_facts(3,4)[OF s r(3)] split_live(2)[OF s w'(2)] kframe_qty[OF w'(2)] by auto
qed

section \<open>Absorbing\<close>

definition move_world :: "world \<Rightarrow> ptr \<Rightarrow> resource \<Rightarrow> ptr \<Rightarrow> resource \<Rightarrow> res_body \<Rightarrow> world \<Rightarrow> bool" where
  "move_world w p r p' r' bd w2 \<longleftrightarrow> sound_res w p r \<and> sound_res w p' r' \<and> p \<noteq> p' \<and>
     w_res w2 = (w_res w)(p \<mapsto> r\<lparr>quantity := quantity r + quantity r', body := bd\<rparr>, p' \<mapsto> r'\<lparr>quantity := 0\<rparr>) \<and>
     w_next w2 = w_next w \<and> w_comp w2 = w_comp w \<and> w_decay w2 = w_decay w \<and> (comp_inv w \<longrightarrow> comp_inv w2)"

lemma move_world_facts:
  assumes "move_world w p r p' r' bd w2" "res_fresh w"
  shows "res_fresh w2" "qty_at w2 = (qty_at w)(p := qty_at w p + qty_at w p', p' := 0)"
    "sound_res w2 p (r\<lparr>quantity := quantity r + quantity r', body := bd\<rparr>)" "sound_res w2 p' (r'\<lparr>quantity := 0\<rparr>)"
    "\<And>x rx. sound_res w x rx \<Longrightarrow> \<exists>rx'. sound_res w2 x rx' \<and> body rx' = (if x = p then bd else body rx)"
proof -
  have r: "w_res w p = Some r" "w_res w p' = Some r'" "p \<noteq> p'" using assms(1) by (simp_all add: move_world_def sound_res_def)
  show "res_fresh w2" using assms r res_freshD[OF assms(2)] by (auto simp: move_world_def res_fresh_def)
  show "qty_at w2 = (qty_at w)(p := qty_at w p + qty_at w p', p' := 0)"
    using assms(1) r by (auto simp: move_world_def qty_at_def fun_eq_iff)
  show s: "sound_res w2 p (r\<lparr>quantity := quantity r + quantity r', body := bd\<rparr>)" "sound_res w2 p' (r'\<lparr>quantity := 0\<rparr>)"
    using assms(1) by (auto simp: move_world_def sound_res_def)
  show "\<exists>rx'. sound_res w2 x rx' \<and> body rx' = (if x = p then bd else body rx)" if "sound_res w x rx" for x rx
  proof -
    consider "x = p" | "x = p'" | "x \<noteq> p" "x \<noteq> p'" by blast
    then show ?thesis
    proof cases
      case 1
      then show ?thesis using s(1) by (intro exI) auto
    next
      case 2
      then show ?thesis using s(2) that r by (intro exI[of _ "r'\<lparr>quantity := 0\<rparr>"]) (auto simp: sound_res_def)
    next
      case 3
      then show ?thesis using that assms(1) by (intro exI[of _ rx]) (auto simp: move_world_def sound_res_def)
    qed
  qed
qed

lemma move_finish:
  assumes "move_world w p r p' r' bd w2" "res_fresh w" "\<And>c t. bd = MatBody c t \<Longrightarrow> w_comp w c \<noteq> None"
  obtains w' where "tracker_Absorb nd p p' w2 = (Inr (), w')" "kframe nd w2 w'"
proof -
  have c: "w_comp w2 = w_comp w" using assms(1) by (simp add: move_world_def)
  show thesis by (rule tracker_Absorb_ok[OF move_world_facts(3,4)[OF assms(1,2)]]) (use assms(3) c that in auto)
qed

lemma Product_Absorb_law:
  assumes "prod_live ql w p" "prod_live ql w p'" "p \<noteq> p'"
  shows "\<exists>w'. Product_Absorb nd p p' w = (Inr (), w') \<and> (\<forall>x. prod_live ql w x \<longrightarrow> prod_live ql w' x) \<and>
    qty_at w' = (qty_at w)(p := qty_at w p + qty_at w p', p' := 0)"
proof -
  obtain r r' where r: "sound_res w p r" "body r = ProdBody ql" "sound_res w p' r'" "body r' = ProdBody ql" "res_fresh w"
    using assms(1,2) by (auto simp: prod_live_def)
  define w2 where "w2 = upd_res p' (quantity_update (\<lambda>_. 0)) (upd_res p (quantity_update (\<lambda>x. x + quantity r')) w)"
  have m: "move_world w p r p' r' (ProdBody ql) w2"
    using r assms(3) by (auto simp: move_world_def w2_def sound_res_def fun_eq_iff elim!: comp_inv_same[rotated -1])
  obtain w' where w': "tracker_Absorb nd p p' w2 = (Inr (), w')" "kframe nd w2 w'" by (rule move_finish[OF m r(5)]) simp
  have "Product_Absorb nd p p' w = (Inr (), w')" using r w'(1) by (simp add: Product_Absorb_def sound_res_def with_res_def Let_def w2_def)
  moreover have "prod_live ql w' x" if px: "prod_live ql w x" for x
  proof (rule kframe_live(1)[OF w'(2)])
    obtain rx where rx: "sound_res w x rx" "body rx = ProdBody ql" using px by (auto simp: prod_live_def)
    from move_world_facts(5)[OF m r(5) rx(1)] show "prod_live ql w2 x" using rx(2) move_world_facts(1)[OF m r(5)]
      by (auto simp: prod_live_def split: if_splits)
  qed
  ultimately show ?thesis using move_world_facts(2)[OF m r(5)] kframe_qty[OF w'(2)] by auto
qed

subsection \<open>Mixing compositions\<close>

lemma valid_Normalize: "compmath_ValidNucs f v \<Longrightarrow> compmath_ValidNucs f (compmath_Normalize q v)"
  by (auto simp: compmath_ValidNucs_def compmath_Normalize_def Let_def list_all_iff)

lemma mass_total_nonneg: "compmath_AllPositive v \<Longrightarrow> 0 \<le> compmath_Sum v"
  unfolding compmath_Sum_eq by (induction v) (auto simp: compmath_AllPositive_def)

lemma positive_Normalize: "compmath_AllPositive v \<Longrightarrow> 0 \<le> q \<Longrightarrow> compmath_AllPositive (compmath_Normalize q v)"
  using mass_total_nonneg[of v] by (auto simp: compmath_AllPositive_def compmath_Normalize_def Let_def list_all_iff not_less)

lemma checks_Cons:
  "compmath_ValidNucs f ((n, x) # v) \<longleftrightarrow> f n \<and> compmath_ValidNucs f v" "compmath_AllPositive ((n, x) # v) \<longleftrightarrow> 0 \<le> x \<and> compmath_AllPositive v"
  by (auto simp: compmath_ValidNucs_def compmath_AllPositive_def)

lemma valid_put: "compmath_ValidNucs f v \<Longrightarrow> f n \<Longrightarrow> compmath_ValidNucs f (omap_put n x v)"
  by (induction n x v rule: omap_put.induct) (auto simp: compmath_ValidNucs_def)

lemma positive_put: "compmath_AllPositive v \<Longrightarrow> 0 \<le> x \<Longrightarrow> compmath_AllPositive (omap_put n x v)"
  by (induction n x v rule: omap_put.induct) (auto simp: compmath_AllPositive_def)

lemma valid_Add: "compmath_ValidNucs f u \<Longrightarrow> compmath_ValidNucs f v \<Longrightarrow> compmath_ValidNucs f (compmath_Add u v)"
  by (induction u v rule: compmath_Add.induct) (auto simp: valid_put checks_Cons)

lemma positive_Add: "compmath_AllPositive u \<Longrightarrow> compmath_AllPositive v \<Longrightarrow> compmath_AllPositive (compmath_Add u v)"
proof (induction u v rule: compmath_Add.induct)
  case (2 out nuc q v2)
  then show ?case using nuc_qty_nonneg[of out nuc] by (simp add: checks_Cons positive_put)
qed simp

lemma absorb_mixture_ok:
  assumes "good_comp nd w c0" "good_comp nd w c1" "comp_inv w" "0 \<le> q0" "0 \<le> q1"
  obtains c w' where "absorb_mixture nd q0 c0 q1 c1 w = (Inr c, w')" "kframe nd w w'" "good_comp nd w' c"
proof -
  obtain cp0 cp1 where c: "w_comp w c0 = Some cp0" "compmath_ValidNucs (isnuclide nd) (mass_vec nd cp0)" "compmath_AllPositive (mass_vec nd cp0)"
    "w_comp w c1 = Some cp1" "compmath_ValidNucs (isnuclide nd) (mass_vec nd cp1)" "compmath_AllPositive (mass_vec nd cp1)"
    using assms(1,2) by (auto simp: good_comp_def)
  obtain w1 where w1: "Composition_mass nd c0 w = (Inr (mass_vec nd cp0), w1)" "mframe nd w w1" "res_frame w w1" "comp_inv w1"
    by (rule Composition_mass_spec[OF c(1), of nd]) (use assms(3) in blast)
  obtain cp1' where cp1': "w_comp w1 c1 = Some cp1'" "mass_vec nd cp1' = mass_vec nd cp1" using mframeD[OF w1(2) c(4)] by blast
  obtain w2 where w2: "Composition_mass nd c1 w1 = (Inr (mass_vec nd cp1), w2)" "mframe nd w1 w2" "res_frame w1 w2" "comp_inv w2"
    by (rule Composition_mass_spec[OF cp1'(1), of nd]) (use w1(4) cp1'(2) in simp)
  define v where "v = compmath_Add (compmath_Normalize q0 (mass_vec nd cp0)) (compmath_Normalize q1 (mass_vec nd cp1))"
  have v: "compmath_ValidNucs (isnuclide nd) v" "compmath_AllPositive v" "omap_inv v"
    using c assms(4,5) omap_inv_mass_vec[OF assms(3) c(1), of nd] by (auto simp: v_def valid_Add positive_Add valid_Normalize positive_Normalize)
  obtain k w3 where k: "CreateFromMass nd v w2 = (Inr k, w3)"
    using v(1,2) by (cases "new_composition0 w2") (simp add: CreateFromMass_def ok_def)
  have "mframe nd w w3" by (rule mframe_trans[OF w1(2) mframe_trans[OF w2(2) mframe_CreateFromMass[OF w2(4) v(3) k]]])
  moreover have "res_frame w w3" by (rule res_frame_trans[OF w1(3) res_frame_trans[OF w2(3) res_frame_CreateFromMass[OF k]]])
  ultimately have "kframe nd w w3" by (rule kframe_of_comp) (rule CreateFromMass_spec(1)[OF w2(4) v(3) k])
  moreover have "good_comp nd w3 k" using CreateFromMass_mass_vec[OF w2(4) v(3) k] v(1,2) by (auto simp: good_comp_def)
  moreover have "absorb_mixture nd q0 c0 q1 c1 w = (Inr k, w3)" using w1(1) w2(1) k by (simp add: absorb_mixture_def v_def)
  ultimately show thesis using that by blast
qed

lemma Material_comp_eager:
  "w_res w p = Some r \<Longrightarrow> body r = MatBody c t \<Longrightarrow> w_decay w \<noteq> ''lazy'' \<Longrightarrow> Material_comp nd p w = (Inr c, w)"
  by (simp add: Material_comp_def with_mat_def with_res_def ok_def)

text \<open>The assignments of \<open>Absorb\<close> after the composition is known.\<close>

lemma absorb_tail:
  assumes s: "sound_res w p r" "sound_res w p' r'" "p \<noteq> p'" "body r = MatBody c t"
    and w2: "w2 = upd_res p' (quantity_update (\<lambda>_. 0)) (upd_res p (quantity_update (\<lambda>x. x + quantity r'))
      (if b then set_prev_decay_time p t' (set_comp p k w) else set_comp p k w))"
  shows "move_world w p r p' r' (MatBody k (if b then t' else t)) w2"
  using assms by (auto simp: move_world_def sound_res_def set_comp_def set_prev_decay_time_def fun_eq_iff elim!: comp_inv_same[rotated -1])

lemma set_comp_same: "w_res w p = Some r \<Longrightarrow> body r = MatBody c t \<Longrightarrow> set_comp p c w = w"
  by (cases w, cases r) (simp add: set_comp_def upd_res_def fun_upd_idem)

lemma Material_Absorb_law:
  assumes "mat_live nd w p" "mat_live nd w p'" "p \<noteq> p'"
  shows "\<exists>w'. Material_Absorb nd p p' w = (Inr (), w') \<and> (\<forall>x. mat_live nd w x \<longrightarrow> mat_live nd w' x) \<and>
    qty_at w' = (qty_at w)(p := qty_at w p + qty_at w p', p' := 0)"
proof -
  obtain r c t r' c' t' where r: "sound_res w p r" "body r = MatBody c t" "good_comp nd w c"
      "sound_res w p' r'" "body r' = MatBody c' t'" "good_comp nd w c'"
    and g: "res_fresh w" "comp_inv w" "w_decay w \<noteq> ''lazy''"
    using assms(1,2) by (auto simp: mat_live_def)
  have wr: "w_res w p = Some r" "w_res w p' = Some r'" "0 \<le> quantity r" "0 \<le> quantity r'" using r by (simp_all add: sound_res_def)
  obtain k w3 where k: "(if c \<noteq> c' then andThen (absorb_mixture nd (quantity r) c (quantity r') c' w) (\<lambda>k w3. ok () (set_comp p k w3)) else ok () w) =
      (Inr (), set_comp p k w3)" "kframe nd w w3" "good_comp nd w3 k"
  proof (cases "c = c'")
    case True
    then show thesis using that[of c w] r(3) set_comp_same[OF wr(1) r(2)] by (simp add: ok_def)
  next
    case False
    obtain k w3 where "absorb_mixture nd (quantity r) c (quantity r') c' w = (Inr k, w3)" "kframe nd w w3" "good_comp nd w3 k"
      by (rule absorb_mixture_ok[OF r(3,6) g(2) wr(3,4)])
    then show thesis using that[of k w3] False by (simp add: ok_def)
  qed
  obtain r3 where r3: "sound_res w3 p r3" "body r3 = body r" "quantity r3 = quantity r" using kframe_sound[OF k(2) r(1)] by blast
  obtain r3' where r3': "sound_res w3 p' r3'" "body r3' = body r'" "quantity r3' = quantity r'" using kframe_sound[OF k(2) r(4)] by blast
  define w2 where "w2 = upd_res p' (quantity_update (\<lambda>_. 0)) (upd_res p (quantity_update (\<lambda>x. x + quantity r3'))
      (if quantity r < quantity r' then set_prev_decay_time p t' (set_comp p k w3) else set_comp p k w3))"
  have "body r3 = MatBody c t" using r3(2) r(2) by simp
  note m = absorb_tail[OF r3(1) r3'(1) assms(3) this w2_def]
  note f3 = kframe_fresh[OF k(2) g(1)]
  obtain w' where w': "tracker_Absorb nd p p' w2 = (Inr (), w')" "kframe nd w2 w'"
    by (rule move_finish[OF m f3]) (use k(3) in \<open>auto simp: good_comp_def\<close>)
  have "absorb_rest nd p p' c c' w = (Inr (), w')"
    using wr r(2,5) k(1) w'(1) r3'(3) by (simp add: absorb_rest_def with_mat_def with_res_def Let_def w2_def cong: if_cong)
  then have e: "Material_Absorb nd p p' w = (Inr (), w')"
    by (simp add: Material_Absorb_def Material_comp_eager[OF wr(1) r(2) g(3)] Material_comp_eager[OF wr(2) r(5) g(3)])
  have live: "mat_live nd w' x" if x: "mat_live nd w x" for x
  proof (rule kframe_live(2)[OF w'(2)])
    obtain rx kx tx where rx: "sound_res w3 x rx" "body rx = MatBody kx tx" "good_comp nd w3 kx" "comp_inv w3" "w_decay w3 \<noteq> ''lazy''"
      using kframe_live(2)[OF k(2) x] by (auto simp: mat_live_def)
    obtain rx' where "sound_res w2 x rx'" "body rx' = (if x = p then MatBody k (if quantity r < quantity r' then t' else t) else body rx)"
      using move_world_facts(5)[OF m f3 rx(1)] by blast
    then show "mat_live nd w2 x" using rx k(3) m move_world_facts(1)[OF m f3]
      by (auto simp: mat_live_def move_world_def good_comp_def split: if_splits)
  qed
  show ?thesis using e live move_world_facts(2)[OF m f3] kframe_qty[OF w'(2)] kframe_qty[OF k(2)] by auto
qed

section \<open>Both classes keep the contract\<close>

lemma live_dispatch:
  "prod_live ql w p \<Longrightarrow> ExtractRes nd eps p q w = Product_Extract nd p q w"
  "prod_live ql w p \<Longrightarrow> AbsorbRes nd p p' w = Product_Absorb nd p p' w"
  "mat_live nd w p \<Longrightarrow> ExtractRes nd eps p q w = ExtractQty nd eps p q w"
  "mat_live nd w p \<Longrightarrow> AbsorbRes nd p p' w = Material_Absorb nd p p' w"
  by (auto simp: prod_live_def mat_live_def sound_res_def ExtractRes_def AbsorbRes_def with_res_def)

interpretation prod: splittable "prod_live ql" "ExtractRes nd eps" "AbsorbRes nd" for ql nd eps
proof (unfold_locales, goal_cases)
  case (1 w p)
  then show ?case by (auto simp: prod_live_def sound_res_def qty_at_def)
next
  case (2 w p q)
  then show ?case using Product_Extract_law by (simp add: live_dispatch(1))
next
  case (3 w p p')
  then show ?case using Product_Absorb_law by (simp add: live_dispatch(2))
qed

interpretation mat: splittable "mat_live nd" "ExtractRes nd eps" "AbsorbRes nd" for nd eps
proof (unfold_locales, goal_cases)
  case (1 w p)
  then show ?case by (auto simp: mat_live_def sound_res_def qty_at_def)
next
  case (2 w p q)
  then show ?case using Material_Extract_law by (simp add: live_dispatch(3))
next
  case (3 w p p')
  then show ?case using Material_Absorb_law by (simp add: live_dispatch(4))
qed

end
