(* ===== verification/Res_Buf.thy ===== *)
theory Res_Buf
  imports Res_Ops
begin

text \<open>
  The toolkit's containers of resources: res_buf.h, its predecessor resource_buff.{h,cc}, and
  res_manip.cc. A buffer is a member of an agent and holds shared pointers to resources, so that its
  operations work on the buffer together with the store of resources.
\<close>

section \<open>res_manip.cc\<close>

text \<open>\<open>Squash\<close> on a vector: the first element absorbs the others in turn. The overload for plain
  resources casts the whole vector to the class of the first element; an element of the other class
  becomes a null pointer, which \<open>Absorb\<close> dereferences. The virtual methods the containers call on
  their elements, \<open>AbsorbRes nd\<close> and \<open>ExtractRes nd eps\<close>, are arguments of the operations.\<close>

type_synonym absorb_fn = "ptr \<Rightarrow> ptr \<Rightarrow> world \<Rightarrow> (world, unit) exec"
type_synonym split_fn = "ptr \<Rightarrow> double \<Rightarrow> world \<Rightarrow> (world, ptr) exec"

fun squash_into :: "absorb_fn \<Rightarrow> ptr \<Rightarrow> ptr list \<Rightarrow> world \<Rightarrow> (world, ptr) exec" where
  "squash_into ab p [] w = ok p w"
| "squash_into ab p (x # xs) w = andThen (ab p x w) (\<lambda>_ w1. squash_into ab p xs w1)"

definition Squash :: "absorb_fn \<Rightarrow> ptr list \<Rightarrow> world \<Rightarrow> (world, ptr) exec" where
  "Squash ab ps w = (case ps of [] \<Rightarrow> throw Error_exn w | p # xs \<Rightarrow> squash_into ab p xs w)"

section \<open>res_buf.h\<close>

text \<open>The class is a template in the type of its resources.\<close>

datatype buf_type = OfMaterial | OfProduct | OfResource

definition cast_ok :: "buf_type \<Rightarrow> res_body \<Rightarrow> bool" where
  "cast_ok ty b = (case ty of OfMaterial \<Rightarrow> (case b of MatBody _ _ \<Rightarrow> True | _ \<Rightarrow> False)
     | OfProduct \<Rightarrow> (case b of ProdBody _ \<Rightarrow> True | _ \<Rightarrow> False) | OfResource \<Rightarrow> True)"

text \<open>\<open>rb_cap\<close> is None for the infinite capacity of a new buffer.\<close>

record resbuf =
  rb_type :: buf_type
  rb_qty :: double
  rb_cap :: "double option"
  rb_rs :: "ptr list"
  rb_present :: "ptr list"

type_synonym buf_state = "resbuf \<times> world"

definition ResBuf_new :: "buf_type \<Rightarrow> resbuf" where
  "ResBuf_new ty = \<lparr>rb_type = ty, rb_qty = 0, rb_cap = None, rb_rs = [], rb_present = []\<rparr>"

definition in_buf :: "resbuf \<Rightarrow> (world, 'a) exec \<Rightarrow> (buf_state, 'a) exec" where
  "in_buf b m = (fst m, (b, snd m))"

definition set_capacity :: "double \<Rightarrow> double \<Rightarrow> buf_state \<Rightarrow> (buf_state, unit) exec" where
  "set_capacity eps cap s = (case s of (b, w) \<Rightarrow>
     if eps < rb_qty b - cap then throw ValueError s else ok () (b\<lparr>rb_cap := Some cap\<rparr>, w))"

text \<open>\<open>space()\<close>, None when it is infinite, and the test that a quantity does not fit.\<close>

definition buf_space :: "resbuf \<Rightarrow> double option" where
  "buf_space b = map_option (\<lambda>c. max 0 (c - rb_qty b)) (rb_cap b)"

definition breaks_limit :: "double \<Rightarrow> resbuf \<Rightarrow> double \<Rightarrow> bool" where
  "breaks_limit eps b q = (case buf_space b of None \<Rightarrow> False | Some sp \<Rightarrow> eps < q - sp)"

definition UpdateQty :: "buf_state \<Rightarrow> (buf_state, unit) exec" where
  "UpdateQty s = (case s of (b, w) \<Rightarrow>
     (case rb_rs b of
        [] \<Rightarrow> ok () (b\<lparr>rb_qty := 0\<rparr>, w)
      | [r] \<Rightarrow> deref (w_res w r) s (\<lambda>x. ok () (b\<lparr>rb_qty := quantity x\<rparr>, w))
      | _ \<Rightarrow> ok () s))"

text \<open>
  The loop of \<open>Pop(double)\<close>. After a split the quantity that is left is negative, which ends the
  loop.
\<close>

fun pop_loop :: "split_fn \<Rightarrow> ptr list \<Rightarrow> double \<Rightarrow> ptr list \<Rightarrow> buf_state \<Rightarrow> (buf_state, ptr list) exec" where
  "pop_loop ext [] left out s = ok out s"
| "pop_loop ext (r # rs) left out (b, w) =
     (if 0 < left
      then let b1 = b\<lparr>rb_rs := rs\<rparr>
           in deref (w_res w r) (b1, w) (\<lambda>x.
             if left < quantity x
             then andThen (in_buf b1 (ext r left w)) (\<lambda>tmp (b2, w2).
                    let b3 = b2\<lparr>rb_rs := r # rs\<rparr>
                    in deref (w_res w2 tmp) (b3, w2) (\<lambda>y.
                         ok (out @ [tmp]) (b3\<lparr>rb_qty := rb_qty b3 - quantity y\<rparr>, w2)))
             else pop_loop ext rs (left - quantity x) (out @ [r])
                    (b1\<lparr>rb_present := oset_del r (rb_present b1), rb_qty := rb_qty b1 - quantity x\<rparr>, w))
      else ok out (b, w))"

definition Pop_qty :: "split_fn \<Rightarrow> absorb_fn \<Rightarrow> double \<Rightarrow> buf_state \<Rightarrow> (buf_state, ptr) exec" where
  "Pop_qty ext ab q s =
     (if rb_qty (fst s) < q then throw ValueError s
      else andThen (pop_loop ext (rb_rs (fst s)) q [] s) (\<lambda>rs s1.
           andThen (UpdateQty s1) (\<lambda>_ s2. in_buf (fst s2) (Squash ab rs (snd s2)))))"

fun popn_loop :: "nat \<Rightarrow> ptr list \<Rightarrow> buf_state \<Rightarrow> (buf_state, ptr list) exec" where
  "popn_loop 0 out s = ok out s"
| "popn_loop (Suc n) out (b, w) =
     (case rb_rs b of
        [] \<Rightarrow> throw Undefined (b, w)
      | r # rs \<Rightarrow> deref (w_res w r) (b, w) (\<lambda>x.
          popn_loop n (out @ [r]) (b\<lparr>rb_qty := rb_qty b - quantity x, rb_rs := rs, rb_present := oset_del r (rb_present b)\<rparr>, w)))"

definition PopN :: "int \<Rightarrow> buf_state \<Rightarrow> (buf_state, ptr list) exec" where
  "PopN n s =
     (if int (length (rb_rs (fst s))) < n \<or> n < 0 then throw ValueError s
      else andThen (popn_loop (nat n) [] s) (\<lambda>rs s1. andThen (UpdateQty s1) (\<lambda>_ s2. ok rs s2)))"

definition Pop_eps :: "split_fn \<Rightarrow> absorb_fn \<Rightarrow> double \<Rightarrow> double \<Rightarrow> buf_state \<Rightarrow> (buf_state, ptr) exec" where
  "Pop_eps ext ab q e s =
     (if rb_qty (fst s) + e < q then throw ValueError s
      else if rb_qty (fst s) \<le> q
        then andThen (PopN (int (length (rb_rs (fst s)))) s) (\<lambda>rs s1. in_buf (fst s1) (Squash ab rs (snd s1)))
        else Pop_qty ext ab q s)"

definition Peek :: "buf_state \<Rightarrow> (buf_state, ptr) exec" where
  "Peek s = (case rb_rs (fst s) of [] \<Rightarrow> throw ValueError s | r # _ \<Rightarrow> ok r s)"

text \<open>Removing one object, from the front or the back.\<close>

definition take_out :: "ptr \<Rightarrow> ptr list \<Rightarrow> buf_state \<Rightarrow> (buf_state, ptr) exec" where
  "take_out r rest s = (case s of (b, w) \<Rightarrow>
     let b1 = b\<lparr>rb_rs := rest, rb_present := oset_del r (rb_present b)\<rparr>
     in deref (w_res w r) (b1, w) (\<lambda>x.
        andThen (UpdateQty (b1\<lparr>rb_qty := rb_qty b1 - quantity x\<rparr>, w)) (\<lambda>_ s1. ok r s1)))"

definition Pop :: "buf_state \<Rightarrow> (buf_state, ptr) exec" where
  "Pop s = (case rb_rs (fst s) of [] \<Rightarrow> throw ValueError s | r # rs \<Rightarrow> take_out r rs s)"

definition PopBack :: "buf_state \<Rightarrow> (buf_state, ptr) exec" where
  "PopBack s = (if rb_rs (fst s) = [] then throw ValueError s
     else take_out (last (rb_rs (fst s))) (butlast (rb_rs (fst s))) s)"

definition Push :: "double \<Rightarrow> ptr option \<Rightarrow> buf_state \<Rightarrow> (buf_state, unit) exec" where
  "Push eps p s = (case s of (b, w) \<Rightarrow>
     (case p of
        None \<Rightarrow> throw CastError s
      | Some r \<Rightarrow> deref (w_res w r) s (\<lambda>x.
          if \<not> cast_ok (rb_type b) (body x) then throw CastError s
          else if breaks_limit eps b (quantity x) then throw ValueError s
          else if r \<in> set (rb_present b) then throw KeyError s
          else UpdateQty (b\<lparr>rb_rs := rb_rs b @ [r], rb_present := oset_ins r (rb_present b), rb_qty := rb_qty b + quantity x\<rparr>, w))))"

text \<open>The casts of the whole vector come first, then the sum of the quantities.\<close>

fun cast_all :: "buf_type \<Rightarrow> ptr option list \<Rightarrow> world \<Rightarrow> exn + (ptr \<times> double) list" where
  "cast_all ty [] w = Inr []"
| "cast_all ty (p # ps) w =
     (case p of
        None \<Rightarrow> Inl CastError
      | Some r \<Rightarrow> (case w_res w r of
          None \<Rightarrow> Inl Undefined
        | Some x \<Rightarrow> if \<not> cast_ok ty (body x) then Inl CastError
            else (case cast_all ty ps w of Inl e \<Rightarrow> Inl e | Inr rs \<Rightarrow> Inr ((r, quantity x) # rs))))"

definition Push_all :: "double \<Rightarrow> ptr option list \<Rightarrow> buf_state \<Rightarrow> (buf_state, unit) exec" where
  "Push_all eps ps s = (case s of (b, w) \<Rightarrow>
     (case cast_all (rb_type b) ps w of
        Inl e \<Rightarrow> throw e s
      | Inr rss \<Rightarrow>
          let tot = foldl (+) 0 (map snd rss)
          in if breaks_limit eps b tot then throw ValueError s
             else if list_ex (\<lambda>(r, _). r \<in> set (rb_present b)) rss then throw KeyError s
             else ok () (b\<lparr>rb_rs := rb_rs b @ map fst rss, rb_present := foldl (\<lambda>m (r, _). oset_ins r m) (rb_present b) rss,
               rb_qty := rb_qty b + tot\<rparr>, w)))"

section \<open>resource_buff.{h,cc}\<close>

text \<open>
  The older buffer of plain resources. Its capacity starts as the largest double; it sums the
  quantities anew after every change but a bulk push, and it gives popped resources as a list.
\<close>

definition ResourceBuff_new :: resbuf where
  "ResourceBuff_new = \<lparr>rb_type = OfResource, rb_qty = 0, rb_cap = Some DBL_MAX, rb_rs = [], rb_present = []\<rparr>"

definition rbuff_UpdateQty :: "buf_state \<Rightarrow> (buf_state, unit) exec" where
  "rbuff_UpdateQty s = (case s of (b, w) \<Rightarrow>
     deref (those (map (\<lambda>r. map_option quantity (w_res w r)) (rb_rs b))) s (\<lambda>qtys. ok () (b\<lparr>rb_qty := KahanSum qtys\<rparr>, w)))"

fun manifest_loop :: "split_fn \<Rightarrow> ptr list \<Rightarrow> double \<Rightarrow> ptr list \<Rightarrow> buf_state \<Rightarrow> (buf_state, ptr list) exec" where
  "manifest_loop ext [] left out s = ok out s"
| "manifest_loop ext (r # rs) left out (b, w) =
     (if 0 < left
      then let b1 = b\<lparr>rb_rs := rs\<rparr>
           in deref (w_res w r) (b1, w) (\<lambda>x.
             if left < quantity x
             then andThen (in_buf b1 (ext r left w)) (\<lambda>tmp (b2, w2). ok (out @ [tmp]) (b2\<lparr>rb_rs := r # rs\<rparr>, w2))
             else manifest_loop ext rs (left - quantity x) (out @ [r]) (b1\<lparr>rb_present := oset_del r (rb_present b1)\<rparr>, w))
      else ok out (b, w))"

definition rbuff_PopQty :: "split_fn \<Rightarrow> double \<Rightarrow> buf_state \<Rightarrow> (buf_state, ptr list) exec" where
  "rbuff_PopQty ext q s =
     (if rb_qty (fst s) < q then throw ValueError s
      else andThen (manifest_loop ext (rb_rs (fst s)) q [] s) (\<lambda>rs s1. andThen (rbuff_UpdateQty s1) (\<lambda>_ s2. ok rs s2)))"

definition rbuff_PopN :: "int \<Rightarrow> buf_state \<Rightarrow> (buf_state, ptr list) exec" where
  "rbuff_PopN n s =
     (if int (length (rb_rs (fst s))) < n \<or> n < 0 then throw ValueError s
      else let b = fst s; out = take (nat n) (rb_rs b)
           in andThen (rbuff_UpdateQty (b\<lparr>rb_rs := drop (nat n) (rb_rs b),
                rb_present := foldl (\<lambda>m r. oset_del r m) (rb_present b) out\<rparr>, snd s)) (\<lambda>_ s1. ok out s1))"

definition rbuff_PopQty_eps :: "split_fn \<Rightarrow> double \<Rightarrow> double \<Rightarrow> buf_state \<Rightarrow> (buf_state, ptr list) exec" where
  "rbuff_PopQty_eps ext q e s =
     (if rb_qty (fst s) + e < q then throw ValueError s
      else if rb_qty (fst s) \<le> q then rbuff_PopN (int (length (rb_rs (fst s)))) s
      else rbuff_PopQty ext q s)"

datatype AccessDir = FRONT | BACK

definition rbuff_Pop :: "AccessDir \<Rightarrow> buf_state \<Rightarrow> (buf_state, ptr) exec" where
  "rbuff_Pop dir s = (case s of (b, w) \<Rightarrow>
     if rb_rs b = [] then throw ValueError s
     else let r = (if dir = FRONT then hd (rb_rs b) else last (rb_rs b));
              rest = (if dir = FRONT then tl (rb_rs b) else butlast (rb_rs b))
          in andThen (rbuff_UpdateQty (b\<lparr>rb_rs := rest, rb_present := oset_del r (rb_present b)\<rparr>, w)) (\<lambda>_ s1. ok r s1))"

definition rbuff_Push :: "double \<Rightarrow> ptr option \<Rightarrow> buf_state \<Rightarrow> (buf_state, unit) exec" where
  "rbuff_Push eps p s = (case s of (b, w) \<Rightarrow> deref p s (\<lambda>r. deref (w_res w r) s (\<lambda>x.
     if breaks_limit eps b (quantity x) then throw ValueError s
     else if r \<in> set (rb_present b) then throw KeyError s
     else rbuff_UpdateQty (b\<lparr>rb_rs := rb_rs b @ [r], rb_present := oset_ins r (rb_present b)\<rparr>, w))))"

definition rbuff_PushAll :: "double \<Rightarrow> ptr list \<Rightarrow> buf_state \<Rightarrow> (buf_state, unit) exec" where
  "rbuff_PushAll eps rs s = (case s of (b, w) \<Rightarrow>
     deref (those (map (\<lambda>r. map_option quantity (w_res w r)) rs)) s (\<lambda>qtys.
       let tot = foldl (+) 0 qtys
       in if breaks_limit eps b tot then throw ValueError s
          else if list_ex (\<lambda>r. r \<in> set (rb_present b)) rs then throw KeyError s
          else ok () (b\<lparr>rb_rs := rb_rs b @ rs, rb_present := foldl (\<lambda>m r. oset_ins r m) (rb_present b) rs,
            rb_qty := rb_qty b + tot\<rparr>, w)))"

section \<open>Valid buffers\<close>

text \<open>What a buffer promises: its resources are distinct objects that are well formed, the set of
  those present is the set of those in the list, and the quantity is their sum.\<close>

definition buf_ok :: "(world \<Rightarrow> ptr \<Rightarrow> bool) \<Rightarrow> buf_state \<Rightarrow> bool" where
  "buf_ok live s \<longleftrightarrow> (case s of (b, w) \<Rightarrow> distinct (rb_rs b) \<and> oset_inv (rb_present b) \<and> set (rb_present b) = set (rb_rs b) \<and>
     (\<forall>r \<in> set (rb_rs b). live w r) \<and> rb_qty b = sum_list (map (qty_at w) (rb_rs b)))"

text \<open>The buffer as a queue of quantities: popping a quantity drains the front.\<close>

fun drain :: "double \<Rightarrow> double list \<Rightarrow> double list" where
  "drain q [] = []"
| "drain q (x # xs) = (if 0 < q then if q < x then (x - q) # xs else drain (q - x) xs else x # xs)"

definition contents :: "buf_state \<Rightarrow> double list" where
  "contents s = map (qty_at (snd s)) (rb_rs (fst s))"

lemma map_qty_cong: "(\<And>x. x \<in> set xs \<Longrightarrow> qty_at w' x = qty_at w x) \<Longrightarrow> map (qty_at w') xs = map (qty_at w) xs"
  by simp

lemma buf_ok_queue: "buf_ok live s \<Longrightarrow> rb_qty (fst s) = sum_list (contents s)"
  by (auto simp: buf_ok_def contents_def split: prod.splits)

lemma resbuf_same_qty: "rb_qty b = q \<Longrightarrow> b\<lparr>rb_qty := q\<rparr> = b"
  by (cases b) simp

lemma UpdateQty_exact:
  assumes "\<And>r. r \<in> set (rb_rs b) \<Longrightarrow> w_res w r \<noteq> None" "rb_qty b = sum_list (map (qty_at w) (rb_rs b))"
  shows "UpdateQty (b, w) = (Inr (), (b, w))"
proof (cases "rb_rs b")
  case Nil
  then show ?thesis using assms(2) by (simp add: UpdateQty_def ok_def resbuf_same_qty)
next
  case (Cons r rs)
  then obtain x where "w_res w r = Some x" using assms(1)[of r] by auto
  then show ?thesis using Cons assms(2) by (cases rs) (simp_all add: UpdateQty_def ok_def resbuf_same_qty qty_at_def)
qed

text \<open>What a pop leaves, and what a push may add, whether or not it throws.\<close>

definition kept :: "(world \<Rightarrow> ptr \<Rightarrow> bool) \<Rightarrow> buf_state \<Rightarrow> buf_state \<Rightarrow> bool" where
  "kept live s s' \<longleftrightarrow> buf_ok live s' \<and> rb_qty (fst s') \<le> rb_qty (fst s) \<and> rb_cap (fst s') = rb_cap (fst s)"

definition grown_by :: "(world \<Rightarrow> ptr \<Rightarrow> bool) \<Rightarrow> double \<Rightarrow> buf_state \<Rightarrow> buf_state \<Rightarrow> bool" where
  "grown_by live eps s s' \<longleftrightarrow> buf_ok live s' \<and> rb_cap (fst s') = rb_cap (fst s) \<and>
     (\<forall>c. rb_cap (fst s) = Some c \<longrightarrow> rb_qty (fst s') \<le> max c (rb_qty (fst s)) + eps)"

section \<open>Popping, for any class that keeps the contract\<close>

context splittable
begin

lemma squash_into_spec:
  assumes "live w p" "\<forall>x \<in> set xs. live w x" "distinct (p # xs)"
  shows "\<exists>w'. squash_into absorb p xs w = (Inr p, w') \<and> (\<forall>x. live w x \<longrightarrow> live w' x) \<and>
    qty_at w' p = qty_at w p + sum_list (map (qty_at w) xs) \<and> (\<forall>x. x \<notin> set (p # xs) \<longrightarrow> qty_at w' x = qty_at w x)"
  using assms
proof (induction xs arbitrary: w)
  case Nil
  then show ?case by (simp add: ok_def)
next
  case (Cons y ys)
  obtain w1 where w1: "absorb p y w = (Inr (), w1)" "\<forall>x. live w x \<longrightarrow> live w1 x"
    "qty_at w1 = (qty_at w)(p := qty_at w p + qty_at w y, y := 0)"
    using absorb_law[of w p y] Cons.prems by auto
  obtain w' where w': "squash_into absorb p ys w1 = (Inr p, w')" "\<forall>x. live w1 x \<longrightarrow> live w' x"
    "qty_at w' p = qty_at w1 p + sum_list (map (qty_at w1) ys)" "\<forall>x. x \<notin> set (p # ys) \<longrightarrow> qty_at w' x = qty_at w1 x"
    using Cons.IH[of w1] Cons.prems w1(2) by auto
  have "map (qty_at w1) ys = map (qty_at w) ys" by (rule map_qty_cong) (use Cons.prems(3) w1(3) in auto)
  then show ?case using w1 w' Cons.prems(3) by (intro exI[of _ w']) (auto simp: w1(3))
qed

lemma Squash_spec:
  assumes "xs \<noteq> []" "\<forall>x \<in> set xs. live w x" "distinct xs"
  shows "\<exists>p w'. Squash absorb xs w = (Inr p, w') \<and> p \<in> set xs \<and> (\<forall>x. live w x \<longrightarrow> live w' x) \<and>
    qty_at w' p = sum_list (map (qty_at w) xs) \<and> (\<forall>x. x \<notin> set xs \<longrightarrow> qty_at w' x = qty_at w x)"
proof -
  obtain p ys where xs: "xs = p # ys" using assms(1) by (cases xs) auto
  show ?thesis using squash_into_spec[of w p ys] assms(2,3) by (auto simp: Squash_def xs)
qed

lemma pop_loop_spec:
  assumes "buf_ok live (b, w)" "0 \<le> left" "left \<le> rb_qty b"
  shows "\<exists>new b' w'. pop_loop split_off (rb_rs b) left out (b, w) = (Inr (out @ new), (b', w')) \<and> buf_ok live (b', w') \<and>
    contents (b', w') = drain left (contents (b, w)) \<and> sum_list (map (qty_at w') new) = left \<and> rb_qty b' = rb_qty b - left \<and>
    (0 < left \<longrightarrow> new \<noteq> []) \<and> distinct new \<and> set new \<inter> set (rb_rs b') = {} \<and> (\<forall>x \<in> set new. live w' x) \<and>
    (\<forall>x. live w x \<longrightarrow> live w' x) \<and> (\<forall>x. x \<notin> set (rb_rs b) \<longrightarrow> w_res w x \<noteq> None \<longrightarrow> qty_at w' x = qty_at w x) \<and>
    rb_cap b' = rb_cap b \<and> rb_type b' = rb_type b \<and> set new \<subseteq> set (rb_rs b) \<union> {x. w_res w x = None} \<and> set (rb_rs b') \<subseteq> set (rb_rs b)"
  using assms
proof (induction "rb_rs b" arbitrary: b left out)
  case Nil
  then have "rb_qty b = 0" "left = 0" by (auto simp: buf_ok_def)
  then show ?case using Nil by (intro exI[of _ "[]"] exI[of _ b] exI[of _ w]) (auto simp: ok_def contents_def Nil.hyps[symmetric])
next
  case (Cons r rs)
  note rs = Cons.hyps(2)[symmetric]
  have lv: "live w r" "distinct (r # rs)" "\<forall>x \<in> set rs. live w x" "oset_inv (rb_present b)" "set (rb_present b) = insert r (set rs)"
      "rb_qty b = qty_at w r + sum_list (map (qty_at w) rs)" using Cons.prems(1) by (auto simp: buf_ok_def rs)
  obtain x where x: "w_res w r = Some x" "qty_at w r = quantity x" "0 \<le> quantity x" using live_res[OF lv(1)] by (auto simp: qty_at_def)
  show ?case
  proof (cases "0 < left")
    case False
    then have "left = 0" using Cons.prems(2) by simp
    then show ?thesis using Cons.prems(1)
      by (intro exI[of _ "[]"] exI[of _ b] exI[of _ w]) (auto simp: ok_def rs contents_def)
  next
    case pos: True
    show ?thesis
    proof (cases "left < quantity x")
      case True
      obtain p w1 where p: "split_off r left w = (Inr p, w1)" "w_res w p = None" "live w1 p" "\<forall>y. live w y \<longrightarrow> live w1 y"
        "qty_at w1 = (qty_at w)(r := qty_at w r - left, p := left)" using split_law[OF lv(1) Cons.prems(2)] True x(2) by auto
      obtain y where y: "w_res w1 p = Some y" "quantity y = left" using live_res[OF p(3)] p(5) by (auto simp: qty_at_def fun_eq_iff split: option.splits)
      have pn: "p \<notin> set (r # rs)" using p(2) live_res[of w p] lv(1,3) by auto
      have m: "map (qty_at w1) rs = map (qty_at w) rs" by (rule map_qty_cong) (use p(5) pn lv(2) in auto)
      let ?b = "b\<lparr>rb_rs := r # rs, rb_qty := rb_qty b - left\<rparr>"
      have e: "pop_loop split_off (rb_rs b) left out (b, w) = (Inr (out @ [p]), (?b, w1))"
        using pos True x(1) p(1) y by (simp add: rs in_buf_def ok_def)
      have "buf_ok live (?b, w1)" using lv p(4,5) pn m by (simp add: buf_ok_def)
      moreover have "contents (?b, w1) = drain left (contents (b, w))" using pos True x(2) p(5) pn m by (simp add: contents_def rs)
      ultimately show ?thesis using e p(2,3,4,5) pn y lv(2)
        by (intro exI[of _ "[p]"] exI[of _ ?b] exI[of _ w1]) (auto simp: rs)
    next
      case False
      let ?b = "b\<lparr>rb_rs := rs, rb_present := oset_del r (rb_present b), rb_qty := rb_qty b - quantity x\<rparr>"
      have ok: "buf_ok live (?b, w)" using lv x(2) by (auto simp: buf_ok_def)
      have "0 \<le> left - quantity x" "left - quantity x \<le> rb_qty ?b" using False Cons.prems(3) by auto
      from Cons.hyps(1)[of ?b, OF _ ok this, of "out @ [r]"] obtain new b' w' where
        ih: "pop_loop split_off rs (left - quantity x) (out @ [r]) (?b, w) = (Inr ((out @ [r]) @ new), (b', w'))" "buf_ok live (b', w')"
        "contents (b', w') = drain (left - quantity x) (contents (?b, w))" "sum_list (map (qty_at w') new) = left - quantity x"
        "rb_qty b' = rb_qty ?b - (left - quantity x)" "distinct new" "set new \<inter> set (rb_rs b') = {}" "\<forall>x \<in> set new. live w' x"
        "\<forall>x. live w x \<longrightarrow> live w' x" "\<forall>x. x \<notin> set rs \<longrightarrow> w_res w x \<noteq> None \<longrightarrow> qty_at w' x = qty_at w x"
        "rb_cap b' = rb_cap b" "rb_type b' = rb_type b" "set new \<subseteq> set rs \<union> {x. w_res w x = None}" "set (rb_rs b') \<subseteq> set rs"
        by auto
      have e: "pop_loop split_off (rb_rs b) left out (b, w) = (Inr (out @ r # new), (b', w'))"
        using pos False x(1) ih(1) by (simp add: rs)
      have "qty_at w' r = quantity x" using ih(10) lv(2) x(1,2) by simp
      moreover have "r \<notin> set new" "r \<notin> set (rb_rs b')" using ih(13,14) lv(2) x(1) by auto
      moreover have "contents (b', w') = drain left (contents (b, w))" using ih(3) pos False x(2) by (simp add: contents_def rs)
      ultimately show ?thesis using e ih(2,4-14) lv(1)
        by (intro exI[of _ "r # new"] exI[of _ b'] exI[of _ w']) (auto simp: rs)
    qed
  qed
qed

lemma buf_ok_Update: "buf_ok live (b, w) \<Longrightarrow> UpdateQty (b, w) = (Inr (), (b, w))"
  using live_res by (intro UpdateQty_exact) (auto simp: buf_ok_def)

text \<open>A world in which nothing of the buffer changed.\<close>

lemma buf_ok_world:
  "buf_ok live (b, w) \<Longrightarrow> \<forall>x. live w x \<longrightarrow> live w' x \<Longrightarrow> \<forall>x \<in> set (rb_rs b). qty_at w' x = qty_at w x \<Longrightarrow> buf_ok live (b, w')"
  unfolding buf_ok_def by (auto cong: map_cong)

lemma Pop_qty_spec:
  assumes "buf_ok live (b, w)" "0 < q" "q \<le> rb_qty b"
  shows "\<exists>p b' w'. Pop_qty split_off absorb q (b, w) = (Inr p, (b', w')) \<and> buf_ok live (b', w') \<and> live w' p \<and>
    p \<notin> set (rb_rs b') \<and> qty_at w' p = q \<and> contents (b', w') = drain q (contents (b, w)) \<and> rb_qty b' = rb_qty b - q \<and>
    rb_cap b' = rb_cap b \<and> rb_type b' = rb_type b \<and> (\<forall>x. live w x \<longrightarrow> live w' x) \<and>
    p \<in> set (rb_rs b) \<union> {x. w_res w x = None} \<and> set (rb_rs b') \<subseteq> set (rb_rs b) \<and>
    (\<forall>x. x \<notin> set (rb_rs b) \<longrightarrow> w_res w x \<noteq> None \<longrightarrow> qty_at w' x = qty_at w x)"
proof -
  obtain new b1 w1 where l: "pop_loop split_off (rb_rs b) q [] (b, w) = (Inr new, (b1, w1))" "buf_ok live (b1, w1)"
    "contents (b1, w1) = drain q (contents (b, w))" "sum_list (map (qty_at w1) new) = q" "rb_qty b1 = rb_qty b - q" "new \<noteq> []"
    "distinct new" "set new \<inter> set (rb_rs b1) = {}" "\<forall>x \<in> set new. live w1 x" "\<forall>x. live w x \<longrightarrow> live w1 x" "rb_cap b1 = rb_cap b" "rb_type b1 = rb_type b"
    "set new \<subseteq> set (rb_rs b) \<union> {x. w_res w x = None}" "set (rb_rs b1) \<subseteq> set (rb_rs b)"
    "\<forall>x. x \<notin> set (rb_rs b) \<longrightarrow> w_res w x \<noteq> None \<longrightarrow> qty_at w1 x = qty_at w x"
    using pop_loop_spec[OF assms(1) less_imp_le[OF assms(2)] assms(3), of "[]"] assms(2) by auto
  obtain p w' where s: "Squash absorb new w1 = (Inr p, w')" "p \<in> set new" "\<forall>x. live w1 x \<longrightarrow> live w' x"
    "qty_at w' p = sum_list (map (qty_at w1) new)" "\<forall>x. x \<notin> set new \<longrightarrow> qty_at w' x = qty_at w1 x"
    using Squash_spec[OF l(6,9,7)] by blast
  have keep: "\<forall>x \<in> set (rb_rs b1). qty_at w' x = qty_at w1 x" using s(5) l(8) by auto
  have "Pop_qty split_off absorb q (b, w) = (Inr p, (b1, w'))"
    using assms(3) l(1) buf_ok_Update[OF l(2)] s(1) by (simp add: Pop_qty_def in_buf_def)
  moreover have "\<forall>x. x \<notin> set (rb_rs b) \<longrightarrow> w_res w x \<noteq> None \<longrightarrow> qty_at w' x = qty_at w x" 
  proof (intro allI impI)
    fix x assume x: "x \<notin> set (rb_rs b)" "w_res w x \<noteq> None"
    then have "x \<notin> set (rb_rs b) \<union> {x. w_res w x = None}" by simp
    then have "x \<notin> set new" using l(13) by (meson subsetD)
    then show "qty_at w' x = qty_at w x" using s(5) l(15) x by simp
  qed
  moreover have "contents (b1, w') = contents (b1, w1)" using keep by (simp add: contents_def)
  ultimately show ?thesis using buf_ok_world[OF l(2) s(3) keep] l s(2-4) by (intro exI[of _ p] exI[of _ b1] exI[of _ w']) auto
qed

lemma popn_loop_spec:
  assumes "buf_ok live (b, w)" "n \<le> length (rb_rs b)"
  shows "\<exists>b'. popn_loop n out (b, w) = (Inr (out @ take n (rb_rs b)), (b', w)) \<and> buf_ok live (b', w) \<and> rb_rs b' = drop n (rb_rs b) \<and>
    rb_cap b' = rb_cap b \<and> rb_type b' = rb_type b"
  using assms
proof (induction n arbitrary: b out)
  case 0
  then show ?case by (auto simp: ok_def)
next
  case (Suc n)
  then obtain r rs where rs: "rb_rs b = r # rs" by (cases "rb_rs b") auto
  obtain x where x: "w_res w r = Some x" "qty_at w r = quantity x" using live_res[of w r] Suc.prems(1) rs by (auto simp: buf_ok_def qty_at_def)
  let ?b = "b\<lparr>rb_qty := rb_qty b - quantity x, rb_rs := rs, rb_present := oset_del r (rb_present b)\<rparr>"
  have "buf_ok live (?b, w)" using Suc.prems(1) x(2) by (auto simp: buf_ok_def rs)
  from Suc.IH[OF this, of "out @ [r]"] Suc.prems(2) show ?case using x(1) by (auto simp: rs)
qed

lemma PopN_spec:
  assumes "buf_ok live (b, w)" "0 \<le> n" "n \<le> int (length (rb_rs b))"
  shows "\<exists>b'. PopN n (b, w) = (Inr (take (nat n) (rb_rs b)), (b', w)) \<and> buf_ok live (b', w) \<and> rb_rs b' = drop (nat n) (rb_rs b) \<and>
    rb_cap b' = rb_cap b \<and> rb_type b' = rb_type b"
proof -
  obtain b' where "popn_loop (nat n) [] (b, w) = (Inr ([] @ take (nat n) (rb_rs b)), (b', w))" "buf_ok live (b', w)"
    "rb_rs b' = drop (nat n) (rb_rs b)" "rb_cap b' = rb_cap b" "rb_type b' = rb_type b"
    using popn_loop_spec[OF assms(1), of "nat n" "[]"] assms(3) by (auto simp: nat_le_iff)
  then show ?thesis using assms(2,3) buf_ok_Update[of b' w] by (intro exI[of _ b']) (simp add: PopN_def ok_def)
qed

lemma take_out_spec:
  assumes "buf_ok live (b, w)" "rb_rs b = l @ r # m" 
  shows "\<exists>b'. take_out r (l @ m) (b, w) = (Inr r, (b', w)) \<and> buf_ok live (b', w) \<and> rb_rs b' = l @ m \<and> rb_cap b' = rb_cap b \<and> rb_type b' = rb_type b"
proof -
  obtain x where x: "w_res w r = Some x" "qty_at w r = quantity x" using live_res[of w r] assms by (auto simp: buf_ok_def qty_at_def)
  let ?b = "b\<lparr>rb_rs := l @ m, rb_present := oset_del r (rb_present b), rb_qty := rb_qty b - quantity x\<rparr>"
  have ok: "buf_ok live (?b, w)" using assms x(2) by (auto simp: buf_ok_def)
  have "take_out r (l @ m) (b, w) = (Inr r, (?b, w))" using x(1) buf_ok_Update[OF ok] by (simp add: take_out_def ok_def)
  then show ?thesis using ok by auto
qed

lemma Push_spec:
  assumes "buf_ok live (b, w)" "live w r" "r \<notin> set (rb_rs b)" "w_res w r = Some x" "cast_ok (rb_type b) (body x)" "\<not> breaks_limit eps b (quantity x)"
  shows "\<exists>b'. Push eps (Some r) (b, w) = (Inr (), (b', w)) \<and> buf_ok live (b', w) \<and> rb_rs b' = rb_rs b @ [r] \<and> rb_cap b' = rb_cap b \<and>
    rb_type b' = rb_type b \<and> rb_qty b' = rb_qty b + quantity x"
proof -
  let ?b = "b\<lparr>rb_rs := rb_rs b @ [r], rb_present := oset_ins r (rb_present b), rb_qty := rb_qty b + quantity x\<rparr>"
  have ok: "buf_ok live (?b, w)" using assms(1-4) by (auto simp: buf_ok_def qty_at_def)
  have "r \<notin> set (rb_present b)" using assms(1,3) by (auto simp: buf_ok_def)
  then have "Push eps (Some r) (b, w) = (Inr (), (?b, w))" using assms(4-6) buf_ok_Update[OF ok] by (simp add: Push_def)
  then show ?thesis using ok by auto
qed

lemma rest_qty: "buf_ok live (b', w) \<Longrightarrow> buf_ok live (b, w) \<Longrightarrow> set (rb_rs b') \<subseteq> set (rb_rs b) \<Longrightarrow> rb_qty b' \<le> rb_qty b"
proof -
  assume a: "buf_ok live (b', w)" "buf_ok live (b, w)" "set (rb_rs b') \<subseteq> set (rb_rs b)"
  have "(\<Sum>x\<in>set (rb_rs b'). qty_at w x) \<le> (\<Sum>x\<in>set (rb_rs b). qty_at w x)"
    by (rule sum_mono2) (use a live_res in \<open>auto simp: buf_ok_def\<close>)
  then show ?thesis using a(1,2) by (simp add: buf_ok_def sum_list_distinct_conv_sum_set)
qed

lemma kept_refl: "buf_ok live s \<Longrightarrow> kept live s s"
  by (simp add: kept_def)

lemma kept_Pop_qty: "buf_ok live s \<Longrightarrow> kept live s (snd (Pop_qty split_off absorb q s))"
proof -
  assume ok: "buf_ok live s"
  obtain b w where s: "s = (b, w)" by fastforce
  show ?thesis
  proof (cases "0 < q \<and> q \<le> rb_qty b")
    case True
    then show ?thesis using Pop_qty_spec[of b w q] ok by (auto simp: s kept_def)
  next
    case False
    have l: "pop_loop split_off (rb_rs b) q [] (b, w) = (Inr [], (b, w))" if "\<not> 0 < q" using that by (cases "rb_rs b") (auto simp: ok_def)
    have "snd (Pop_qty split_off absorb q (b, w)) = (b, w)"
      using False l buf_ok_Update ok by (auto simp: Pop_qty_def throw_def in_buf_def Squash_def s)
    then show ?thesis using kept_refl[OF ok] by (simp add: s)
  qed
qed

lemma kept_PopN: "buf_ok live s \<Longrightarrow> kept live s (snd (PopN n s))"
proof -
  assume ok: "buf_ok live s"
  obtain b w where s: "s = (b, w)" by fastforce
  show ?thesis
  proof (cases "0 \<le> n \<and> n \<le> int (length (rb_rs b))")
    case True
    obtain b' where b': "PopN n (b, w) = (Inr (take (nat n) (rb_rs b)), (b', w))" "buf_ok live (b', w)" "rb_rs b' = drop (nat n) (rb_rs b)" "rb_cap b' = rb_cap b"
      using PopN_spec[of b w n] ok True by (auto simp: s)
    have "set (rb_rs b') \<subseteq> set (rb_rs b)" unfolding b'(3) by (rule set_drop_subset)
    then show ?thesis using b' rest_qty[OF b'(2), of b] ok by (simp add: s kept_def)
  next
    case False
    then show ?thesis using kept_refl[OF ok] by (auto simp: PopN_def s)
  qed
qed

lemma kept_Pop_eps: "buf_ok live s \<Longrightarrow> kept live s (snd (Pop_eps split_off absorb q e s))"
proof -
  assume ok: "buf_ok live s"
  obtain b w where s: "s = (b, w)" by fastforce
  obtain b' where b': "PopN (int (length (rb_rs b))) (b, w) = (Inr (rb_rs b), (b', w))" "buf_ok live (b', w)" "rb_rs b' = []" "rb_cap b' = rb_cap b"
    using PopN_spec[of b w "int (length (rb_rs b))"] ok by (auto simp: s)
  have z: "kept live s (b', w')" if "\<forall>x. live w x \<longrightarrow> live w' x" for w'
    using b' ok live_res sum_list_nonneg[of "map (qty_at w) (rb_rs b)"] by (auto simp: kept_def buf_ok_def s)
  have "kept live s (b', snd (Squash absorb (rb_rs b) w))"
  proof (cases "rb_rs b = []")
    case True
    then show ?thesis using z[of w] by (simp add: Squash_def)
  next
    case False
    then show ?thesis using Squash_spec[of "rb_rs b" w] ok z by (fastforce simp: s buf_ok_def)
  qed
  then show ?thesis using kept_refl[OF ok] kept_Pop_qty[OF ok] b'(1) by (simp add: Pop_eps_def s in_buf_def)
qed

text \<open>Popping with a tolerance, for a quantity that is there.\<close>

lemma Pop_eps_spec:
  assumes "buf_ok live (b, w)" "0 < q" "q \<le> rb_qty b" "0 \<le> e"
  shows "\<exists>p b' w'. Pop_eps split_off absorb q e (b, w) = (Inr p, (b', w')) \<and> buf_ok live (b', w') \<and> live w' p \<and>
    p \<notin> set (rb_rs b') \<and> qty_at w' p = q \<and> rb_qty b' = rb_qty b - q \<and> (\<forall>x. live w x \<longrightarrow> live w' x) \<and>
    p \<in> set (rb_rs b) \<union> {x. w_res w x = None} \<and> set (rb_rs b') \<subseteq> set (rb_rs b) \<and>
    (\<forall>x. x \<notin> set (rb_rs b) \<longrightarrow> w_res w x \<noteq> None \<longrightarrow> qty_at w' x = qty_at w x)"
proof (cases "q < rb_qty b")
  case True
  have "Pop_eps split_off absorb q e (b, w) = Pop_qty split_off absorb q (b, w)" using True assms(4) by (simp add: Pop_eps_def)
  then show ?thesis using Pop_qty_spec[OF assms(1-3)] by auto
next
  case False
  then have q: "q = rb_qty b" using assms(3) by simp
  have ne: "rb_rs b \<noteq> []" using assms(1,2) q by (auto simp: buf_ok_def)
  obtain b' where b': "PopN (int (length (rb_rs b))) (b, w) = (Inr (rb_rs b), (b', w))" "buf_ok live (b', w)" "rb_rs b' = []"
    using PopN_spec[OF assms(1), of "int (length (rb_rs b))"] by auto
  obtain p w' where s: "Squash absorb (rb_rs b) w = (Inr p, w')" "p \<in> set (rb_rs b)" "\<forall>x. live w x \<longrightarrow> live w' x"
    "qty_at w' p = sum_list (map (qty_at w) (rb_rs b))" "\<forall>x. x \<notin> set (rb_rs b) \<longrightarrow> qty_at w' x = qty_at w x"
    using Squash_spec[OF ne, of w] assms(1) by (auto simp: buf_ok_def)
  have "live w p" using assms(1) s(2) by (auto simp: buf_ok_def)
  moreover have "rb_qty b' = 0" "buf_ok live (b', w')" "rb_qty b = sum_list (map (qty_at w) (rb_rs b))" using b'(2,3) assms(1) by (auto simp: buf_ok_def)
  ultimately show ?thesis using assms(4) q b' s by (intro exI[of _ p] exI[of _ b'] exI[of _ w']) (auto simp: Pop_eps_def in_buf_def)
qed

lemma kept_take_out:
  assumes "buf_ok live (b, w)" "rb_rs b = l @ r # m" shows "kept live (b, w) (snd (take_out r (l @ m) (b, w)))"
proof -
  obtain b' where b': "take_out r (l @ m) (b, w) = (Inr r, (b', w))" "buf_ok live (b', w)" "rb_rs b' = l @ m" "rb_cap b' = rb_cap b"
    using take_out_spec[OF assms] by blast
  have "set (rb_rs b') \<subseteq> set (rb_rs b)" unfolding b'(3) assms(2) by auto
  then show ?thesis using b' rest_qty[OF b'(2) assms(1)] by (simp add: kept_def)
qed

lemma kept_Pop: "buf_ok live s \<Longrightarrow> kept live s (snd (Pop s))"
  using kept_take_out[of "fst s" "snd s" "[]"] kept_refl[of s] by (cases "rb_rs (fst s)") (auto simp: Pop_def)

lemma kept_PopBack: "buf_ok live s \<Longrightarrow> kept live s (snd (PopBack s))"
  using kept_take_out[of "fst s" "snd s" "butlast (rb_rs (fst s))" "last (rb_rs (fst s))" "[]"] kept_refl[of s]
  by (cases "rb_rs (fst s) = []") (simp_all add: PopBack_def)

lemma limit_bound: "\<not> breaks_limit eps b q \<Longrightarrow> rb_cap b = Some c \<Longrightarrow> rb_qty b + q \<le> max c (rb_qty b) + eps"
  by (simp add: breaks_limit_def buf_space_def max_def split: if_splits)

lemma unpushed_grown: "buf_ok live s \<Longrightarrow> 0 \<le> eps \<Longrightarrow> grown_by live eps s s"
  by (simp add: grown_by_def max_def)

lemma grown_Push: "buf_ok live s \<Longrightarrow> 0 \<le> eps \<Longrightarrow> live (snd s) r \<Longrightarrow> grown_by live eps s (snd (Push eps (Some r) s))"
proof -
  assume ok: "buf_ok live s" and e: "0 \<le> eps" and l: "live (snd s) r"
  obtain b w where s: "s = (b, w)" by fastforce
  obtain x where x: "w_res w r = Some x" using live_res[OF l] s by auto
  show ?thesis
  proof (cases "cast_ok (rb_type b) (body x) \<and> \<not> breaks_limit eps b (quantity x) \<and> r \<notin> set (rb_rs b)")
    case True
    then show ?thesis using Push_spec[of b w r x eps] ok l x limit_bound[of eps b "quantity x"] by (auto simp: s grown_by_def)
  next
    case False
    then have "snd (Push eps (Some r) s) = s" using x ok by (auto simp: Push_def s throw_def buf_ok_def)
    then show ?thesis using unpushed_grown[OF ok e] by simp
  qed
qed

lemma cast_all_map: "cast_all ty (map Some rs) w = Inr rss \<Longrightarrow> rss = map (\<lambda>r. (r, qty_at w r)) rs"
  by (induction rs arbitrary: rss) (auto simp: qty_at_def split: option.splits if_splits sum.splits)

lemma grown_Push_all:
  "buf_ok live s \<Longrightarrow> 0 \<le> eps \<Longrightarrow> \<forall>r \<in> set rs. live (snd s) r \<Longrightarrow> distinct rs \<Longrightarrow> grown_by live eps s (snd (Push_all eps (map Some rs) s))"
proof -
  assume ok: "buf_ok live s" and e: "0 \<le> eps" and l: "\<forall>r \<in> set rs. live (snd s) r" and d: "distinct rs"
  obtain b w where s: "s = (b, w)" by fastforce
  have ins: "oset_inv m \<Longrightarrow> oset_inv (foldl (\<lambda>m (r, _). oset_ins r m) m xs) \<and> set (foldl (\<lambda>m (r, _). oset_ins r m) m xs) = set m \<union> fst ` set xs"
    for m and xs :: "(ptr \<times> double) list" by (induction xs arbitrary: m) auto
  show ?thesis
  proof (cases "cast_all (rb_type b) (map Some rs) w")
    case (Inl ex)
    then show ?thesis using unpushed_grown[OF ok e] by (simp add: Push_all_def s)
  next
    case (Inr rss)
    note rss = cast_all_map[OF Inr]
    define tot where "tot = sum_list (map (qty_at w) rs)"
    have t: "foldl (+) 0 (map snd rss) = tot" by (simp add: rss tot_def foldl_sum comp_def)
    show ?thesis
    proof (cases "breaks_limit eps b tot \<or> set rs \<inter> set (rb_rs b) \<noteq> {}")
      case True
      then have "snd (Push_all eps (map Some rs) s) = s" using Inr t ok by (auto simp: Push_all_def s rss list_ex_iff buf_ok_def)
      then show ?thesis using unpushed_grown[OF ok e] by simp
    next
      case False
      let ?b = "b\<lparr>rb_rs := rb_rs b @ rs, rb_present := foldl (\<lambda>m (r, _). oset_ins r m) (rb_present b) rss, rb_qty := rb_qty b + tot\<rparr>"
      have "snd (Push_all eps (map Some rs) s) = (?b, w)"
        using False Inr t ok by (auto simp: Push_all_def s rss list_ex_iff buf_ok_def ok_def comp_def)
      moreover have "buf_ok live (?b, w)" using ok l d False ins[of "rb_present b" rss] by (auto simp: buf_ok_def s rss tot_def image_image)
      ultimately show ?thesis using limit_bound[of eps b tot] False by (auto simp: grown_by_def s)
    qed
  qed
qed

end

end
