(* ===== verification/Res_Buf_Properties.thy ===== *)
theory Res_Buf_Properties
  imports Res_Buf
begin

text \<open>
  The properties of the resource buffers, for buffers of products of one quality and for buffers of
  materials, through the two interpretations of the contract of resources.
\<close>

section \<open>Runs\<close>

text \<open>Any operation on a buffer, with or without exception, and whether it pushes. What is pushed is
  a null pointer or a well-formed resource; a vector that is pushed has no object twice.\<close>

inductive buf_step :: "nucdata \<Rightarrow> double \<Rightarrow> (world \<Rightarrow> ptr \<Rightarrow> bool) \<Rightarrow> buf_state \<Rightarrow> nat \<Rightarrow> buf_state \<Rightarrow> bool" for nd eps live where
  cap: "buf_step nd eps live s 0 (snd (set_capacity eps c s))"
| pop_qty: "buf_step nd eps live s 0 (snd (Pop_qty (ExtractRes nd eps) (AbsorbRes nd) q s))"
| pop_eps: "buf_step nd eps live s 0 (snd (Pop_eps (ExtractRes nd eps) (AbsorbRes nd) q e s))"
| pop_n: "buf_step nd eps live s 0 (snd (PopN n s))"
| peek: "buf_step nd eps live s 0 (snd (Peek s))"
| pop: "buf_step nd eps live s 0 (snd (Pop s))"
| pop_back: "buf_step nd eps live s 0 (snd (PopBack s))"
| push: "live (snd s) r \<Longrightarrow> buf_step nd eps live s 1 (snd (Push eps (Some r) s))"
| push_null: "buf_step nd eps live s 0 (snd (Push eps None s))"
| push_nulls: "None \<in> set ps \<Longrightarrow> buf_step nd eps live s 0 (snd (Push_all eps ps s))"
| push_all: "\<forall>r \<in> set rs. live (snd s) r \<Longrightarrow> distinct rs \<Longrightarrow> buf_step nd eps live s 1 (snd (Push_all eps (map Some rs) s))"

inductive buf_run :: "nucdata \<Rightarrow> double \<Rightarrow> (world \<Rightarrow> ptr \<Rightarrow> bool) \<Rightarrow> buf_state \<Rightarrow> nat \<Rightarrow> buf_state \<Rightarrow> bool" for nd eps live where
  none: "buf_run nd eps live s 0 s"
| more: "buf_run nd eps live s n s' \<Longrightarrow> buf_step nd eps live s' k s'' \<Longrightarrow> buf_run nd eps live s (n + k) s''"

definition resource_kind :: "nucdata \<Rightarrow> (world \<Rightarrow> ptr \<Rightarrow> bool) \<Rightarrow> bool" where
  "resource_kind nd live \<longleftrightarrow> (\<exists>ql. live = prod_live ql) \<or> live = mat_live nd"

lemma resource_kind_splittable: "resource_kind nd live \<Longrightarrow> splittable live (ExtractRes nd eps) (AbsorbRes nd)"
  using prod.splittable_axioms mat.splittable_axioms unfolding resource_kind_def by blast

text \<open>The bound on the quantity after some pushes.\<close>

definition in_bounds :: "double \<Rightarrow> nat \<Rightarrow> buf_state \<Rightarrow> bool" where
  "in_bounds eps n s \<longleftrightarrow> (\<forall>c. rb_cap (fst s) = Some c \<longrightarrow> rb_qty (fst s) \<le> c + real (Suc n) * eps)"

lemma kept_within: "kept live s s' \<Longrightarrow> in_bounds eps n s \<Longrightarrow> in_bounds eps n s'"
  by (auto simp: kept_def in_bounds_def intro: order_trans)

lemma grown_within: "grown_by live eps s s' \<Longrightarrow> in_bounds eps n s \<Longrightarrow> 0 \<le> eps \<Longrightarrow> in_bounds eps (Suc n) s'"
  unfolding in_bounds_def
proof (intro allI impI)
  fix c assume g: "grown_by live eps s s'" and b: "\<forall>c. rb_cap (fst s) = Some c \<longrightarrow> rb_qty (fst s) \<le> c + real (Suc n) * eps"
    and e: "0 \<le> eps" and c: "rb_cap (fst s') = Some c"
  have "rb_qty (fst s) \<le> c + real (Suc n) * eps" "rb_qty (fst s') \<le> max c (rb_qty (fst s)) + eps"
    using g b c by (simp_all add: grown_by_def)
  moreover have "0 \<le> real (Suc n) * eps" using e by simp
  ultimately show "rb_qty (fst s') \<le> c + real (Suc (Suc n)) * eps" by (simp add: algebra_simps max_def split: if_splits)
qed

lemma buf_step_ok:
  assumes "buf_step nd eps live s k s'" "resource_kind nd live" "0 \<le> eps" "buf_ok live s" "in_bounds eps n s"
  shows "buf_ok live s' \<and> in_bounds eps (n + k) s'"
proof -
  note sp = resource_kind_splittable[OF assms(2), of eps]
  note K = splittable.kept_Pop_qty[OF sp] splittable.kept_Pop_eps[OF sp] splittable.kept_PopN[OF sp] splittable.kept_Pop[OF sp] splittable.kept_PopBack[OF sp]
  note G = splittable.grown_Push[OF sp] splittable.grown_Push_all[OF sp]
  have c: "buf_ok live (snd (set_capacity eps c s)) \<and> in_bounds eps n (snd (set_capacity eps c s))" for c
  proof -
    obtain b w where s: "s = (b, w)" by fastforce
    have "c + eps \<le> c + real (Suc n) * eps" using assms(3) by (simp add: algebra_simps)
    then show ?thesis using assms(4,5) by (auto simp: s set_capacity_def throw_def ok_def buf_ok_def in_bounds_def)
  qed
  have kp: "buf_ok live s'' \<and> in_bounds eps (n + 0) s''" if "kept live s s''" for s''
    using kept_within[OF that assms(5)] that by (simp add: kept_def)
  have gr: "buf_ok live s'' \<and> in_bounds eps (n + 1) s''" if "grown_by live eps s s''" for s''
    using grown_within[OF that assms(5,3)] that by (simp add: grown_by_def)
  have nulls: "snd (Push_all eps ps s) = s" if "None \<in> set ps" for ps
  proof -
    have "\<exists>e. cast_all ty ps w = Inl e" for ty w
      using that by (induction ps) (auto split: option.splits sum.splits)
    then obtain e where "cast_all (rb_type (fst s)) ps (snd s) = Inl e" by blast
    then show ?thesis by (cases s) (simp add: Push_all_def)
  qed
  have null: "snd (Push eps None s) = s" by (cases s) (simp add: Push_def)
  from assms(1) show ?thesis
    by cases (use null nulls c kp[OF K(1)[OF assms(4)]] kp[OF K(2)[OF assms(4)]] kp[OF K(3)[OF assms(4)]] kp[OF K(4)[OF assms(4)]] kp[OF K(5)[OF assms(4)]]
        gr[OF G(1)[OF assms(4,3)]] gr[OF G(2)[OF assms(4,3)]] assms(4,5) in \<open>auto simp: Peek_def split: list.splits\<close>)
qed

lemma Push_all_distinct:
  assumes "Push_all eps (map Some rs) (b, w) = (Inr (), (b', w'))" "buf_ok live (b', w')"
  shows "distinct rs"
proof -
  obtain rss where r: "cast_all (rb_type b) (map Some rs) w = Inr rss"
    using assms(1) by (cases "cast_all (rb_type b) (map Some rs) w") (simp_all add: Push_all_def)
  have "rb_rs b' = rb_rs b @ rs"
    using assms(1) r prod.cast_all_map[OF r] by (auto simp: Push_all_def Let_def ok_def throw_def comp_def split: if_splits)
  then show ?thesis using assms(2) by (simp add: buf_ok_def)
qed

text \<open>C17. A resource buffer of materials, or of products of one quality, stays valid under any sequence of
  its operations, with or without exceptions, in which no vector that is pushed lists an object twice: its
  resources are distinct well-formed objects, the set of those present is the set of those listed, and
  the quantity it reports is their sum. That quantity exceeds the capacity by at most one epsilon per
  push and one more. The condition on vectors is exact: after such a sequence, a vector of
  well-formed resources that is accepted leaves the buffer valid if and only if it lists no object
  twice, which \<open>Push\<close> does not check.\<close>

theorem buffer_valid_and_bounded:
  assumes "buf_run nd eps live (ResBuf_new ty, w) n (b, w')" "resource_kind nd live" "0 \<le> eps"
  shows "buf_ok live (b, w') \<and> (\<forall>c. rb_cap b = Some c \<longrightarrow> rb_qty b \<le> c + real (Suc n) * eps) \<and>
    (\<forall>rs b1 w1. (\<forall>r \<in> set rs. live w' r) \<longrightarrow> Push_all eps (map Some rs) (b, w') = (Inr (), (b1, w1)) \<longrightarrow>
       (buf_ok live (b1, w1) \<longleftrightarrow> distinct rs))"
proof -
  have "buf_ok live s' \<and> in_bounds eps m s'" if "buf_run nd eps live s m s'" "buf_ok live s" "in_bounds eps 0 s" for s s' m
    using that by (induction rule: buf_run.induct) (use buf_step_ok[OF _ assms(2,3)] in blast)+
  moreover have "buf_ok live (ResBuf_new ty, w)" "in_bounds eps 0 (ResBuf_new ty, w)" by (simp_all add: buf_ok_def ResBuf_new_def in_bounds_def)
  ultimately have ok: "buf_ok live (b, w')" "in_bounds eps n (b, w')" using assms(1) by blast+
  have "buf_ok live (b1, w1)" if "\<forall>r \<in> set rs. live w' r" "Push_all eps (map Some rs) (b, w') = (Inr (), (b1, w1))" "distinct rs" for rs b1 w1
    using splittable.grown_Push_all[OF resource_kind_splittable[OF assms(2), of eps] ok(1) assms(3), of rs] that by (simp add: grown_by_def)
  then show ?thesis using ok Push_all_distinct[of eps _ b w' _ _ live] by (auto simp: in_bounds_def)
qed

text \<open>Two tracked products of one quality, of 5 and 3 units.\<close>

definition buf_demo_res :: "ptr \<Rightarrow> double \<Rightarrow> resource" where
  "buf_demo_res p q = \<lparr>state_id = int p, obj_id = int p, quantity = q, has_ctx = True, parent1 = 0, parent2 = 0, tracked = True,
     tracker_res = p, body = ProdBody ''ore''\<rparr>"

definition buf_demo_world :: world where
  "buf_demo_world = (init_world ''manual'' 1)\<lparr>w_res := [0 \<mapsto> buf_demo_res 0 5, 1 \<mapsto> buf_demo_res 1 3], w_next := 2\<rparr>"

lemma buf_demo_live: "prod_live ''ore'' buf_demo_world 0" "prod_live ''ore'' buf_demo_world 1"
  by (auto simp: prod_live_def sound_res_def res_fresh_def buf_demo_world_def buf_demo_res_def)

theorem buffer_valid_and_bounded_witness:
  "buf_ok (prod_live ''ore'') (snd (Push 0 (Some 0) (ResBuf_new OfProduct, buf_demo_world))) \<and>
   \<not> buf_ok (prod_live ''ore'') (snd (Push_all 0 [Some 1, Some 1] (snd (Push 0 (Some 0) (ResBuf_new OfProduct, buf_demo_world)))))"
proof -
  define b where "b = fst (snd (Push 0 (Some 0) (ResBuf_new OfProduct, buf_demo_world)))"
  have e: "snd (Push 0 (Some 0) (ResBuf_new OfProduct, buf_demo_world)) = (b, buf_demo_world)"
    by (simp add: b_def Push_def ResBuf_new_def buf_demo_world_def buf_demo_res_def cast_ok_def breaks_limit_def buf_space_def UpdateQty_def)
  have "buf_run demo_nd 0 (prod_live ''ore'') (ResBuf_new OfProduct, buf_demo_world) (0 + 1) (b, buf_demo_world)"
    unfolding e[symmetric] by (rule more[OF none push]) (simp add: buf_demo_live)
  note h = buffer_valid_and_bounded [OF this]
  have k: "resource_kind demo_nd (prod_live ''ore'')" by (auto simp: resource_kind_def)
  obtain b1 w1 where p: "Push_all 0 (map Some [1, 1]) (b, buf_demo_world) = (Inr (), (b1, w1))"
    by (simp add: b_def Push_all_def Push_def ResBuf_new_def buf_demo_world_def buf_demo_res_def cast_ok_def breaks_limit_def buf_space_def
        UpdateQty_def ok_def)
  have "\<not> buf_ok (prod_live ''ore'') (b1, w1)"
    using h[OF k] p buf_demo_live(2) by (auto dest!: spec[of _ "[1, 1]"])
  then show ?thesis using h[OF k] p e by simp
qed

section \<open>Popping a quantity\<close>

text \<open>C16. A buffer implements a first-in first-out queue of quantities. Popping a positive quantity up
  to what is there never throws and gives one resource of exactly that quantity, not in the buffer
  any more, whether resources have to be split or combined; what is left is the queue with that
  much taken from its front.\<close>

theorem Pop_drains_queue:
  assumes "buf_ok live (b, w)" "resource_kind nd live" "0 < q" "q \<le> rb_qty b"
  shows "\<exists>p b' w'. Pop_qty (ExtractRes nd eps) (AbsorbRes nd) q (b, w) = (Inr p, (b', w')) \<and> live w' p \<and> p \<notin> set (rb_rs b') \<and>
    qty_at w' p = q \<and> contents (b', w') = drain q (contents (b, w)) \<and> rb_qty b' = rb_qty b - q \<and> buf_ok live (b', w')"
  using splittable.Pop_qty_spec[OF resource_kind_splittable[OF assms(2)] assms(1,3,4)] by blast

definition demo_buf :: resbuf where
  "demo_buf = \<lparr>rb_type = OfProduct, rb_qty = 8, rb_cap = None, rb_rs = [0, 1], rb_present = [0, 1]\<rparr>"

lemma demo_buf_ok: "buf_ok (prod_live ''ore'') (demo_buf, buf_demo_world)"
  using buf_demo_live by (simp add: buf_ok_def demo_buf_def buf_demo_world_def buf_demo_res_def qty_at_def oset_inv_def)

theorem Pop_drains_queue_witness:
  "\<exists>p b' w'. Pop_qty (ExtractRes demo_nd 0) (AbsorbRes demo_nd) 6 (demo_buf, buf_demo_world) = (Inr p, (b', w')) \<and>
     qty_at w' p = 6 \<and> contents (b', w') = [2]"
proof -
  have "contents (demo_buf, buf_demo_world) = [5, 3]" by (simp add: contents_def demo_buf_def qty_at_def buf_demo_world_def buf_demo_res_def)
  then have d: "drain 6 (contents (demo_buf, buf_demo_world)) = [2]" by simp
  have k: "resource_kind demo_nd (prod_live ''ore'')" "6 \<le> rb_qty demo_buf" by (auto simp: resource_kind_def demo_buf_def)
  show ?thesis using Pop_drains_queue [OF demo_buf_ok k(1) _ k(2), of 0] d by auto
qed

section \<open>The two buffer classes agree\<close>

lemma manifest_of_pop:
  "pop_loop ext rs left out (b, w) = (Inr o', (b', w')) \<Longrightarrow>
   manifest_loop ext rs left out (b\<lparr>rb_qty := z\<rparr>, w) = (Inr o', (b'\<lparr>rb_qty := z\<rparr>, w'))"
proof (induction rs arbitrary: left out b)
  case Nil
  then show ?case by (simp add: ok_def)
next
  case (Cons r rs)
  show ?case
  proof (cases "0 < left")
    case False
    then show ?thesis using Cons by (simp add: ok_def)
  next
    case True
    then obtain x where x: "w_res w r = Some x" using Cons.prems by (cases "w_res w r") (auto simp: throw_def)
    obtain e w1 where e: "ext r left w = (e, w1)" by fastforce
    show ?thesis
    proof (cases "left < quantity x")
      case split: True
      then obtain tmp where tmp: "e = Inr tmp" using Cons.prems True x e by (cases e) (auto simp: in_buf_def)
      then show ?thesis using Cons.prems True x e split by (cases "w_res w1 tmp") (auto simp: in_buf_def ok_def throw_def)
    next
      case nosplit: False
      have o: "b\<lparr>rb_qty := z, rb_rs := rs, rb_present := m\<rparr> = b\<lparr>rb_rs := rs, rb_present := m, rb_qty := z\<rparr>" for m by (cases b) simp
      show ?thesis using Cons.IH[of "left - quantity x" "out @ [r]"
          "b\<lparr>rb_rs := rs, rb_present := oset_del r (rb_present b), rb_qty := rb_qty b - quantity x\<rparr>"] Cons.prems nosplit True x by (simp add: o)
    qed
  qed
qed

lemma rbuff_UpdateQty_exact:
  assumes "\<And>r. r \<in> set (rb_rs b) \<Longrightarrow> w_res w r \<noteq> None"
  shows "rbuff_UpdateQty (b, w) = (Inr (), (b\<lparr>rb_qty := sum_list (map (qty_at w) (rb_rs b))\<rparr>, w))"
proof -
  have "those (map (\<lambda>r. map_option quantity (w_res w r)) rs) = Some (map (qty_at w) rs)" if "\<And>r. r \<in> set rs \<Longrightarrow> w_res w r \<noteq> None" for rs
    using that by (induction rs) (force simp: qty_at_def)+
  from this[OF assms] show ?thesis by (simp add: rbuff_UpdateQty_def ok_def)
qed

text \<open>C19. The deprecated buffer and its replacement do the same. On a valid buffer of products or of
  materials, popping a quantity from a \<open>ResourceBuff\<close> and squashing the manifest has the result, the
  exceptions, the buffer and the resources of popping it from a \<open>ResBuf\<close>, although one sums its
  quantities anew and the other keeps a running total.\<close>

theorem ResourceBuff_matches_ResBuf:
  assumes "buf_ok live s" "resource_kind nd live"
  shows "andThen (rbuff_PopQty (ExtractRes nd eps) q s) (\<lambda>rs s1. in_buf (fst s1) (Squash (AbsorbRes nd) rs (snd s1))) =
    Pop_qty (ExtractRes nd eps) (AbsorbRes nd) q s"
proof -
  note sp = resource_kind_splittable[OF assms(2), of eps]
  obtain b w where s: "s = (b, w)" by fastforce
  let ?ext = "ExtractRes nd eps"
  consider "rb_qty b < q" | "q \<le> rb_qty b" by linarith
  then show ?thesis
  proof cases
    case 1
    then show ?thesis by (simp add: rbuff_PopQty_def Pop_qty_def s)
  next
    case 2
    obtain o' b' w' where l: "pop_loop ?ext (rb_rs b) q [] (b, w) = (Inr o', (b', w'))" "buf_ok live (b', w')"
    proof (cases "0 \<le> q")
      case True
      then show thesis using splittable.pop_loop_spec[OF sp _ True 2, of w "[]"] assms(1) that by (auto simp: s)
    next
      case False
      then show thesis using that[of "[]" b w] assms(1) by (cases "rb_rs b") (auto simp: s ok_def)
    qed
    have ex: "w_res w' r \<noteq> None" if "r \<in> set (rb_rs b')" for r using that l(2) splittable.live_res[OF sp] by (auto simp: buf_ok_def)
    have q: "rb_qty b' = sum_list (map (qty_at w') (rb_rs b'))" using l(2) by (simp add: buf_ok_def)
    have "manifest_loop ?ext (rb_rs b) q [] (b, w) = (Inr o', (b'\<lparr>rb_qty := rb_qty b\<rparr>, w'))"
      using manifest_of_pop[OF l(1), of "rb_qty b"] by (simp add: resbuf_same_qty)
    moreover have "rbuff_UpdateQty (b'\<lparr>rb_qty := rb_qty b\<rparr>, w') = (Inr (), (b', w'))"
      using rbuff_UpdateQty_exact[of "b'\<lparr>rb_qty := rb_qty b\<rparr>" w'] ex by (simp add: q[symmetric] resbuf_same_qty)
    moreover have "UpdateQty (b', w') = (Inr (), (b', w'))" by (rule splittable.buf_ok_Update[OF sp l(2)])
    ultimately show ?thesis using 2 l(1) by (simp add: rbuff_PopQty_def Pop_qty_def s ok_def)
  qed
qed

theorem ResourceBuff_matches_ResBuf_witness:
  "andThen (rbuff_PopQty (ExtractRes demo_nd 0) 6 (demo_buf, buf_demo_world)) (\<lambda>rs s1. in_buf (fst s1) (Squash (AbsorbRes demo_nd) rs (snd s1))) =
    Pop_qty (ExtractRes demo_nd 0) (AbsorbRes demo_nd) 6 (demo_buf, buf_demo_world)"
  by (rule ResourceBuff_matches_ResBuf [OF demo_buf_ok]) (auto simp: resource_kind_def)

section \<open>Where the buffers depart from their contract\<close>

text \<open>The vector form of \<open>Push\<close> checks each element against the buffer but not against the rest of
  the vector: a resource that occurs twice is stored twice and counted twice, while pushing it one by
  one is refused with a \<open>KeyError\<close>.\<close>

theorem bulk_push_stores_twice:
  assumes "w_res w r = Some x" "cast_ok ty (body x)"
  shows "\<exists>b. Push_all eps [Some r, Some r] (ResBuf_new ty, w) = (Inr (), (b, w)) \<and> rb_rs b = [r, r] \<and> rb_qty b = 2 * quantity x \<and>
    (\<exists>b1. Push eps (Some r) (ResBuf_new ty, w) = (Inr (), (b1, w)) \<and> fst (Push eps (Some r) (b1, w)) = Inl KeyError)"
  using assms by (simp add: Push_all_def Push_def ResBuf_new_def breaks_limit_def buf_space_def ok_def throw_def UpdateQty_def)

theorem bulk_push_stores_twice_witness:
  "\<exists>b. Push_all 0 [Some 0, Some 0] (ResBuf_new OfProduct, buf_demo_world) = (Inr (), (b, buf_demo_world)) \<and> rb_qty b = 10"
proof -
  have "w_res buf_demo_world 0 = Some (buf_demo_res 0 5)" "cast_ok OfProduct (body (buf_demo_res 0 5))" "quantity (buf_demo_res 0 5) = 5"
    by (simp_all add: buf_demo_world_def buf_demo_res_def cast_ok_def)
  then show ?thesis using bulk_push_stores_twice [of buf_demo_world 0 "buf_demo_res 0 5" OfProduct 0] by auto
qed

text \<open>The capacity can be exceeded by any amount. The space of a full buffer is 0, not negative,
  so that every push of at most epsilon is accepted: pushing products of epsilon units each onto a
  full buffer succeeds every time and takes its quantity that many epsilons above the capacity.\<close>

theorem crumbs_exceed_capacity:
  assumes "buf_ok (prod_live ql) (b, w)" "rb_cap b = Some c" "rb_qty b = c" "rb_type b = OfProduct" "0 \<le> eps"
    and "distinct rs" "set rs \<inter> set (rb_rs b) = {}" "\<forall>r \<in> set rs. prod_live ql w r \<and> qty_at w r = eps"
  shows "\<exists>b'. foreach (\<lambda>r. Push eps (Some r)) rs (b, w) = (Inr (), (b', w)) \<and> rb_cap b' = Some c \<and> rb_qty b' = c + real (length rs) * eps"
proof -
  have "\<exists>b'. foreach (\<lambda>r. Push eps (Some r)) xs (b1, w) = (Inr (), (b', w)) \<and> rb_cap b' = Some c \<and> rb_qty b' = rb_qty b1 + real (length xs) * eps"
    if "buf_ok (prod_live ql) (b1, w)" "rb_cap b1 = Some c" "c \<le> rb_qty b1" "rb_type b1 = OfProduct" "distinct xs" "set xs \<inter> set (rb_rs b1) = {}"
      "\<forall>r \<in> set xs. prod_live ql w r \<and> qty_at w r = eps" for xs b1
    using that
  proof (induction xs arbitrary: b1)
    case Nil
    then show ?case by (simp add: ok_def)
  next
    case (Cons r xs)
    obtain x where x: "w_res w r = Some x" "body x = ProdBody ql" "quantity x = eps" using Cons.prems(7) by (auto simp: prod_live_def sound_res_def qty_at_def)
    have nb: "\<not> breaks_limit eps b1 (quantity x)" using Cons.prems(2,3) x(3) by (simp add: breaks_limit_def buf_space_def)
    obtain b2 where b2: "Push eps (Some r) (b1, w) = (Inr (), (b2, w))" "buf_ok (prod_live ql) (b2, w)" "rb_rs b2 = rb_rs b1 @ [r]"
      "rb_cap b2 = rb_cap b1" "rb_type b2 = rb_type b1" "rb_qty b2 = rb_qty b1 + quantity x"
      using prod.Push_spec[OF Cons.prems(1), of r x eps] Cons.prems(4,6,7) x nb by (auto simp: cast_ok_def)
    have "c \<le> rb_qty b2" "set xs \<inter> set (rb_rs b2) = {}" "rb_cap b2 = Some c" using b2 Cons.prems x(3) assms(5) by auto
    then obtain b' where "foreach (\<lambda>r. Push eps (Some r)) xs (b2, w) = (Inr (), (b', w))" "rb_cap b' = Some c" "rb_qty b' = rb_qty b2 + real (length xs) * eps"
      using Cons.IH[OF b2(2)] b2(5) Cons.prems(4,5,7) by auto
    then show ?case using b2(1,6) x(3) by (intro exI[of _ b']) (simp add: algebra_simps)
  qed
  from this[of b rs] show ?thesis using assms by simp
qed

theorem crumbs_exceed_capacity_witness:
  "\<exists>b'. foreach (\<lambda>r. Push 5 (Some r)) [0] ((ResBuf_new OfProduct)\<lparr>rb_cap := Some 0\<rparr>, buf_demo_world) = (Inr (), (b', buf_demo_world)) \<and>
     rb_cap b' = Some 0 \<and> rb_qty b' = 5"
proof -
  let ?b = "(ResBuf_new OfProduct)\<lparr>rb_cap := Some 0\<rparr>"
  have "buf_ok (prod_live ''ore'') (?b, buf_demo_world)" "rb_cap ?b = Some 0" "rb_qty ?b = 0" "rb_type ?b = OfProduct" "(0 :: double) \<le> 5"
      "distinct [0 :: ptr]" "set [0] \<inter> set (rb_rs ?b) = {}" by (simp_all add: buf_ok_def ResBuf_new_def)
  moreover have "\<forall>r \<in> set [0]. prod_live ''ore'' buf_demo_world r \<and> qty_at buf_demo_world r = 5"
    using buf_demo_live by (simp add: qty_at_def buf_demo_world_def buf_demo_res_def)
  ultimately show ?thesis using crumbs_exceed_capacity [of "''ore''" ?b buf_demo_world 0 5 "[0]"] by simp
qed

text \<open>A product split off an untracked product cannot be split again. The tracker of an untracked
  product returns before it passes its state on, so that the new product, which has no context,
  counts as tracked; the next extraction from it dereferences the null context.\<close>

theorem split_of_untracked_crashes:
  assumes "res_fresh w" "q1 \<le> q" "q2 \<le> q1"
  shows "\<exists>p w1 p' w2. Product_CreateUntracked q ql w = (p, w1) \<and> Product_Extract nd p q1 w1 = (Inr p', w2) \<and> qty_at w2 p' = q1 \<and>
    fst (Product_Extract nd p' q2 w2) = Inl Undefined"
  using assms
  by (auto simp: Product_CreateUntracked_def Product_new_def new_resource_def DontTrack_def Product_Extract_def with_res_def tracker_Extract_def
      tracked_state_id_def tracker_Record_def set_parents_def BumpStateId_def ok_def throw_def qty_at_def Let_def)

theorem split_of_untracked_crashes_witness:
  "\<exists>p w1 p' w2. Product_CreateUntracked 5 ''ore'' (init_world ''manual'' 1) = (p, w1) \<and> Product_Extract demo_nd p 3 w1 = (Inr p', w2) \<and>
     fst (Product_Extract demo_nd p' 1 w2) = Inl Undefined"
proof -
  have "res_fresh (init_world ''manual'' 1)" by (simp add: res_fresh_def init_world_def)
  from split_of_untracked_crashes [OF this, of 3 5 1 "''ore''" demo_nd] show ?thesis by auto
qed

end
