(* ===== verification/Res_Map.thy ===== *)
theory Res_Map
  imports Resource_Model
begin

text \<open>
  res_map.h: a map from keys to resources with a cached total quantity, and the pair of accessors by
  which a simulation saves and restores it.
\<close>

section \<open>Model\<close>

text \<open>A key that is only read through \<open>operator[]\<close> gets a null pointer, None.\<close>

record 'k resmap =
  rm_dirty :: bool
  rm_quantity :: double
  rm_resources :: "('k, ptr option) omap"
  rm_obj_ids :: "('k, int) omap"

definition ResMap_new :: "'k resmap" where
  "ResMap_new = \<lparr>rm_dirty = True, rm_quantity = 0, rm_resources = [], rm_obj_ids = []\<rparr>"

definition rm_size :: "'k resmap \<Rightarrow> nat" where
  "rm_size m = length (rm_resources m)"

definition rm_empty :: "'k resmap \<Rightarrow> bool" where
  "rm_empty m \<longleftrightarrow> rm_resources m = []"

text \<open>The resources behind the pointers; a null pointer is dereferenced.\<close>

definition rm_objects :: "'k resmap \<Rightarrow> world \<Rightarrow> resource list option" where
  "rm_objects m w = those (map (\<lambda>(_, p). Option.bind p (w_res w)) (rm_resources m))"

definition UpdateQuantity :: "world \<Rightarrow> 'k resmap \<Rightarrow> ('k resmap, unit) exec" where
  "UpdateQuantity w m =
     (if rm_resources m = [] then ok () (m\<lparr>rm_quantity := 0, rm_dirty := False\<rparr>)
      else deref (rm_objects m w) m (\<lambda>rs. ok () (m\<lparr>rm_quantity := KahanSum (map quantity rs), rm_dirty := False\<rparr>)))"

definition rm_total :: "world \<Rightarrow> 'k resmap \<Rightarrow> ('k resmap, double) exec" where
  "rm_total w m = andThen (if rm_dirty m then UpdateQuantity w m else ok () m) (\<lambda>_ m1. ok (rm_quantity m1) m1)"

text \<open>\<open>obj_ids()\<close> rebuilds the table of object ids and returns it; \<open>obj_ids(oi)\<close> sets it.\<close>

definition get_obj_ids :: "world \<Rightarrow> 'k :: linorder resmap \<Rightarrow> ('k resmap, ('k, int) omap) exec" where
  "get_obj_ids w m = (let m1 = m\<lparr>rm_obj_ids := []\<rparr> in
     deref (rm_objects m w) m1 (\<lambda>rs.
       let ids = foldl (\<lambda>t (k, r). omap_put k (obj_id r) t) [] (zip (map fst (rm_resources m)) rs)
       in ok ids (m1\<lparr>rm_obj_ids := ids\<rparr>)))"

definition set_obj_ids :: "('k, int) omap \<Rightarrow> 'k resmap \<Rightarrow> 'k resmap" where
  "set_obj_ids oi m = m\<lparr>rm_obj_ids := oi, rm_dirty := True\<rparr>"

definition rm_get :: "'k :: linorder \<Rightarrow> 'k resmap \<Rightarrow> ptr option \<times> 'k resmap" where
  "rm_get k m = (omap_sub None (rm_resources m) k, m\<lparr>rm_dirty := True, rm_resources := omap_touch None k (rm_resources m)\<rparr>)"

definition rm_assign :: "'k :: linorder \<Rightarrow> ptr option \<Rightarrow> 'k resmap \<Rightarrow> 'k resmap" where
  "rm_assign k p m = m\<lparr>rm_dirty := True, rm_resources := omap_put k p (rm_resources m)\<rparr>"

definition rm_erase :: "world \<Rightarrow> 'k :: linorder \<Rightarrow> 'k resmap \<Rightarrow> ('k resmap, nat) exec" where
  "rm_erase w k m =
     (let n = (if map_of (rm_resources m) k = None then 0 else 1)
      in andThen (UpdateQuantity w (m\<lparr>rm_resources := omap_del k (rm_resources m)\<rparr>)) (\<lambda>_ m1. ok n m1))"

text \<open>Iterators are positions. \<open>begin()\<close> and \<open>end()\<close> of a map that is not const give access to the
  pointers and so mark the total as stale; erasing takes a range of positions, or the range of one.\<close>

definition rm_begin :: "'k resmap \<Rightarrow> nat \<times> 'k resmap" where
  "rm_begin m = (0, m\<lparr>rm_dirty := True\<rparr>)"

definition rm_end :: "'k resmap \<Rightarrow> nat \<times> 'k resmap" where
  "rm_end m = (length (rm_resources m), m\<lparr>rm_dirty := True\<rparr>)"

definition rm_erase_range :: "world \<Rightarrow> nat \<Rightarrow> nat \<Rightarrow> 'k resmap \<Rightarrow> ('k resmap, unit) exec" where
  "rm_erase_range w i j m =
     (if j < i \<or> length (rm_resources m) < j then throw Undefined m
      else UpdateQuantity w (m\<lparr>rm_resources := take i (rm_resources m) @ drop j (rm_resources m)\<rparr>))"

definition rm_erase_at :: "world \<Rightarrow> nat \<Rightarrow> 'k resmap \<Rightarrow> ('k resmap, unit) exec" where
  "rm_erase_at w i m = rm_erase_range w i (Suc i) m"

definition rm_clear :: "'k resmap \<Rightarrow> 'k resmap" where
  "rm_clear m = m\<lparr>rm_resources := [], rm_obj_ids := [], rm_dirty := True\<rparr>"

definition rm_Values :: "'k resmap \<Rightarrow> ptr option list" where
  "rm_Values m = map snd (rm_resources m)"

text \<open>\<open>Values(vals)\<close>: the key of a value is looked up by its object id; an unknown id gives the
  default key \<open>dk\<close> of the key type.\<close>

definition id_lookup :: "('k, int) omap \<Rightarrow> (int, 'k) omap" where
  "id_lookup ids = foldl (\<lambda>t (k, i). omap_put i k t) [] ids"

definition set_Values :: "'k :: linorder \<Rightarrow> ptr option list \<Rightarrow> world \<Rightarrow> 'k resmap \<Rightarrow> ('k resmap, unit) exec" where
  "set_Values dk vals w m =
     (let lookup = id_lookup (rm_obj_ids m)
      in andThen (foreach (\<lambda>p m. deref (Option.bind p (w_res w)) m (\<lambda>r.
           ok () (m\<lparr>rm_resources := omap_put (omap_sub dk lookup (obj_id r)) p (rm_resources m)\<rparr>))) vals m)
         (\<lambda>_ m1. ok () (m1\<lparr>rm_dirty := True\<rparr>)))"

definition rm_Pop :: "'k :: linorder \<Rightarrow> 'k resmap \<Rightarrow> ('k resmap, ptr option) exec" where
  "rm_Pop k m = (case map_of (rm_resources m) k of
     None \<Rightarrow> throw KeyError m
   | Some p \<Rightarrow> ok p (m\<lparr>rm_resources := omap_del k (rm_resources m), rm_dirty := True\<rparr>))"

section \<open>Saving and restoring\<close>

text \<open>A map whose pointers are valid, with its objects.\<close>

definition rm_valid :: "world \<Rightarrow> 'k :: linorder resmap \<Rightarrow> resource list \<Rightarrow> bool" where
  "rm_valid w m rs \<longleftrightarrow> omap_inv (rm_resources m) \<and> rm_objects m w = Some rs \<and> distinct (map obj_id rs)"

lemma rm_objects_list:
  "those (map (\<lambda>(_, p). Option.bind p (w_res w)) kps) = Some rs \<Longrightarrow>
   length rs = length kps \<and> (\<forall>i < length kps. Option.bind (snd (kps ! i)) (w_res w) = Some (rs ! i))"
proof (induction kps arbitrary: rs)
  case (Cons a kps)
  obtain k p where a: "a = (k, p)" by fastforce
  from Cons.prems obtain r rs' where r: "Option.bind p (w_res w) = Some r" "those (map (\<lambda>(_, p). Option.bind p (w_res w)) kps) = Some rs'"
    "rs = r # rs'" by (auto simp: a split: option.splits)
  then show ?case using Cons.IH[OF r(2)] by (auto simp: a nth_Cons split: nat.splits)
qed simp

lemma foldl_put:
  "distinct (map fst kvs) \<Longrightarrow> map_of (foldl (\<lambda>t (k, v). omap_put k v t) t kvs) x = (case map_of kvs x of Some v \<Rightarrow> Some v | None \<Rightarrow> map_of t x)"
proof (induction kvs arbitrary: t)
  case (Cons a kvs)
  then show ?case by (cases a) (auto simp: map_of_eq_None_iff[THEN iffD2] split: option.splits)
qed simp

lemma foldl_put_inv: "omap_inv t \<Longrightarrow> omap_inv (foldl (\<lambda>t (k, v). omap_put k v t) t kvs)"
  by (induction kvs arbitrary: t) auto

lemma foldl_put_sorted: "omap_inv kvs \<Longrightarrow> foldl (\<lambda>t (k, v). omap_put k v t) [] kvs = kvs"
proof (rule omap_eqI)
  assume o: "omap_inv kvs"
  then show "omap_inv kvs" "omap_inv (foldl (\<lambda>t (k, v). omap_put k v t) [] kvs)" by (simp_all add: foldl_put_inv)
  have "distinct (map fst kvs)" using o by (simp add: omap_inv_def strict_sorted_iff)
  then show "map_of (foldl (\<lambda>t (k, v). omap_put k v t) [] kvs) = map_of kvs"
    by (auto simp: foldl_put fun_eq_iff split: option.splits)
qed

lemma foldl_put_map:
  "foldl (\<lambda>t (k, r). omap_put k (f r) t) t (zip ks rs) = foldl (\<lambda>t (k, v). omap_put k v t) t (zip ks (map f rs))"
proof (induction ks arbitrary: t rs)
  case (Cons k ks)
  then show ?case by (cases rs) auto
qed simp

lemma get_obj_ids_valid:
  assumes "rm_valid w m rs"
  shows "get_obj_ids w m = (Inr (zip (map fst (rm_resources m)) (map obj_id rs)),
    m\<lparr>rm_obj_ids := zip (map fst (rm_resources m)) (map obj_id rs)\<rparr>)"
proof -
  have l: "length rs = length (rm_resources m)" using assms rm_objects_list by (auto simp: rm_valid_def rm_objects_def)
  have "omap_inv (zip (map fst (rm_resources m)) (map obj_id rs))" using assms l by (simp add: rm_valid_def omap_inv_def)
  then show ?thesis using assms by (simp add: get_obj_ids_def rm_valid_def Let_def ok_def foldl_put_map[where f = obj_id] foldl_put_sorted)
qed

lemma id_lookup_zip:
  assumes "length ks = length is" "distinct is" "i < length is"
  shows "map_of (id_lookup (zip ks is)) (is ! i) = Some (ks ! i)"
proof -
  have sw: "foldl (\<lambda>t (k, i). omap_put i k t) t (zip ks is) = foldl (\<lambda>t (k, v). omap_put k v t) t (zip is ks)" for t
    using assms(1) by (induction ks "is" arbitrary: t rule: list_induct2) auto
  show ?thesis using assms by (simp add: id_lookup_def sw foldl_put map_of_zip_nth)
qed

lemma set_Values_loop:
  assumes "length kps = length rs" "\<forall>i < length kps. Option.bind (snd (kps ! i)) (w_res w) = Some (rs ! i) \<and> map_of lk (obj_id (rs ! i)) = Some (fst (kps ! i))"
  shows "foreach (\<lambda>p m. deref (Option.bind p (w_res w)) m (\<lambda>r.
      ok () (m\<lparr>rm_resources := omap_put (omap_sub dk lk (obj_id r)) p (rm_resources m)\<rparr>))) (map snd kps) m =
    (Inr (), m\<lparr>rm_resources := foldl (\<lambda>t (k, v). omap_put k v t) (rm_resources m) kps\<rparr>)"
  using assms
proof (induction kps rs arbitrary: m rule: list_induct2)
  case Nil
  then show ?case by (cases m) (simp add: ok_def)
next
  case (Cons a kps r rs)
  have "Option.bind (snd a) (w_res w) = Some r" "map_of lk (obj_id r) = Some (fst a)" using Cons.prems by force+
  moreover have "\<forall>i < length kps. Option.bind (snd (kps ! i)) (w_res w) = Some (rs ! i) \<and> map_of lk (obj_id (rs ! i)) = Some (fst (kps ! i))"
    using Cons.prems by force
  ultimately show ?case using Cons.IH by (cases a) (simp add: ok_def omap_sub_Some)
qed

text \<open>C20. A resource map survives a save and a restore. The object ids and values read from a map
  with valid pointers and distinct objects, written to a new map, give the same keys with the same
  resources, and the total quantity asked of the new map is the sum of their quantities.\<close>

theorem resmap_restores:
  assumes "rm_valid w m rs"
  shows "\<exists>ids m1 m2 m3. get_obj_ids w m = (Inr ids, m1) \<and> set_Values dk (rm_Values m1) w (set_obj_ids ids ResMap_new) = (Inr (), m2) \<and>
    rm_resources m2 = rm_resources m \<and> rm_obj_ids m2 = ids \<and> rm_total w m2 = (Inr (sum_list (map quantity rs)), m3)"
proof -
  let ?kps = "rm_resources m" and ?ids = "zip (map fst (rm_resources m)) (map obj_id rs)"
  have l: "length ?kps = length rs" "\<forall>i < length ?kps. Option.bind (snd (?kps ! i)) (w_res w) = Some (rs ! i)"
    using assms rm_objects_list[of w ?kps rs] by (auto simp: rm_valid_def rm_objects_def)
  have lk: "map_of (id_lookup ?ids) (obj_id (rs ! i)) = Some (fst (?kps ! i))" if "i < length ?kps" for i
    using id_lookup_zip[of "map fst ?kps" "map obj_id rs" i] assms l(1) that by (simp add: rm_valid_def)
  have srt: "foldl (\<lambda>t (k, v). omap_put k v t) [] ?kps = ?kps" by (rule foldl_put_sorted) (use assms in \<open>simp add: rm_valid_def\<close>)
  define m2 where "m2 = (set_obj_ids ?ids ResMap_new)\<lparr>rm_resources := ?kps, rm_dirty := True\<rparr>"
  have "foreach (\<lambda>p m. deref (Option.bind p (w_res w)) m (\<lambda>r.
      ok () (m\<lparr>rm_resources := omap_put (omap_sub dk (id_lookup ?ids) (obj_id r)) p (rm_resources m)\<rparr>))) (map snd ?kps) (set_obj_ids ?ids ResMap_new) =
    (Inr (), (set_obj_ids ?ids ResMap_new)\<lparr>rm_resources := ?kps\<rparr>)"
    using set_Values_loop[OF l(1), of w "id_lookup ?ids" dk "set_obj_ids ?ids ResMap_new"] l(2) lk srt
    by (simp add: set_obj_ids_def ResMap_new_def)
  then have "set_Values dk (rm_Values m) w (set_obj_ids ?ids ResMap_new) = (Inr (), m2)"
    by (simp add: set_Values_def rm_Values_def m2_def ok_def Let_def set_obj_ids_def)
  moreover have "\<exists>m3. rm_total w m2 = (Inr (sum_list (map quantity rs)), m3)"
    using assms l(1) by (auto simp: rm_total_def UpdateQuantity_def m2_def ok_def rm_valid_def rm_objects_def)
  ultimately show ?thesis using get_obj_ids_valid[OF assms]
    by (auto simp: rm_Values_def m2_def set_obj_ids_def)
qed

definition rm_demo_res :: "int \<Rightarrow> double \<Rightarrow> resource" where
  "rm_demo_res i q = \<lparr>state_id = i, obj_id = i, quantity = q, has_ctx = True, parent1 = 0, parent2 = 0, tracked = True,
     tracker_res = 0, body = ProdBody ''ore''\<rparr>"

definition rm_demo_world :: world where
  "rm_demo_world = (init_world ''manual'' 1)\<lparr>w_res := [0 \<mapsto> rm_demo_res 7 5, 1 \<mapsto> rm_demo_res 4 3], w_next := 2\<rparr>"

definition rm_demo :: "int resmap" where
  "rm_demo = ResMap_new\<lparr>rm_resources := [(10, Some 0), (20, Some 1)]\<rparr>"

theorem resmap_restores_witness:
  "\<exists>ids m1 m2 m3. get_obj_ids rm_demo_world rm_demo = (Inr ids, m1) \<and>
     set_Values 0 (rm_Values m1) rm_demo_world (set_obj_ids ids ResMap_new) = (Inr (), m2) \<and>
     rm_resources m2 = [(10, Some 0), (20, Some 1)] \<and> rm_total rm_demo_world m2 = (Inr 8, m3)"
proof -
  have "rm_valid rm_demo_world rm_demo [rm_demo_res 7 5, rm_demo_res 4 3]"
    by (simp add: rm_valid_def rm_demo_def ResMap_new_def rm_objects_def rm_demo_world_def omap_inv_def rm_demo_res_def)
  from resmap_restores [OF this, of 0] show ?thesis by (auto simp: rm_demo_def rm_demo_res_def)
qed

end
