(* ===== verification/Matl_Policies.thy ===== *)
theory Matl_Policies
  imports Market_Manager Res_Buf
begin

text \<open>
  toolkit/matl_buy_policy.{h,cc} and toolkit/matl_sell_policy.{h,cc}: traders that keep a buffer of
  materials full, or empty, through the resource exchange. A policy is a member of an agent and
  points to a buffer of that agent, so that its operations work on the policy, the buffer and the
  market; \<open>eps\<close> and \<open>eps_rsrc\<close> are the two tolerances of cyc_limits.h.
\<close>

section \<open>Working on a buffer within a market\<close>

type_synonym 'u buf_market = "resbuf \<times> 'u market"

definition set_world :: "world \<Rightarrow> 'u market \<Rightarrow> 'u market" where
  "set_world w s = s\<lparr>mk_sim := (mk_sim s)\<lparr>s_world := w\<rparr>\<rparr>"

definition on_buf :: "(buf_state \<Rightarrow> (buf_state, 'a) exec) \<Rightarrow> 'u buf_market \<Rightarrow> ('u buf_market, 'a) exec" where
  "on_buf f s = (case f (fst s, mk_world (snd s)) of (r, (b, w)) \<Rightarrow> (r, (b, set_world w (snd s))))"

definition on_world :: "(world \<Rightarrow> (world, 'a) exec) \<Rightarrow> 'u buf_market \<Rightarrow> ('u buf_market, 'a) exec" where
  "on_world f s = (case f (mk_world (snd s)) of (r, w) \<Rightarrow> (r, (fst s, set_world w (snd s))))"

definition on_market :: "('u market \<Rightarrow> ('u market, 'a) exec) \<Rightarrow> 'u buf_market \<Rightarrow> ('u buf_market, 'a) exec" where
  "on_market f s = (case f (snd s) of (r, m) \<Rightarrow> (r, (fst s, m)))"

text \<open>\<open>static_cast<int>\<close> of a double, undefined when the truncated value is no 32-bit integer.\<close>

definition cast_int :: "double \<Rightarrow> int option" where
  "cast_int x = (let n = (if 0 \<le> x then \<lfloor>x\<rfloor> else \<lceil>x\<rceil>) in if - (2 ^ 31) \<le> n \<and> n < 2 ^ 31 then Some n else None)"

section \<open>The sell policy\<close>

record sell_policy =
  sp_self :: ptr
  sp_manager :: "ptr option"
  sp_name :: string
  sp_commods :: "string list"
  sp_quantize :: double
  sp_throughput :: double
  sp_ignore_comp :: bool

definition MatlSellPolicy_new :: "ptr \<Rightarrow> sell_policy" where
  "MatlSellPolicy_new self = \<lparr>sp_self = self, sp_manager = None, sp_name = [], sp_commods = [], sp_quantize = -1,
     sp_throughput = DBL_MAX, sp_ignore_comp = False\<rparr>"

definition sp_set_quantize :: "double \<Rightarrow> sell_policy \<Rightarrow> (sell_policy, unit) exec" where
  "sp_set_quantize x p = (if x = 0 then throw AssertFailed p else ok () (p\<lparr>sp_quantize := x\<rparr>))"

definition sp_set_throughput :: "double \<Rightarrow> sell_policy \<Rightarrow> (sell_policy, unit) exec" where
  "sp_set_throughput x p = (if x < 0 then throw AssertFailed p else ok () (p\<lparr>sp_throughput := x\<rparr>))"

definition sp_set_ignore_comp :: "bool \<Rightarrow> sell_policy \<Rightarrow> sell_policy" where
  "sp_set_ignore_comp x p = p\<lparr>sp_ignore_comp := x\<rparr>"

text \<open>The overloads of \<open>Init\<close>.\<close>

definition sp_Init :: "ptr option \<Rightarrow> string \<Rightarrow> sell_policy \<Rightarrow> sell_policy" where
  "sp_Init mgr name p = p\<lparr>sp_manager := mgr, sp_name := name\<rparr>"

definition sp_Init_throughput :: "ptr option \<Rightarrow> string \<Rightarrow> double \<Rightarrow> sell_policy \<Rightarrow> (sell_policy, unit) exec" where
  "sp_Init_throughput mgr name thr p = sp_set_throughput thr (sp_Init mgr name p)"

definition sp_Init_ignore :: "ptr option \<Rightarrow> string \<Rightarrow> bool \<Rightarrow> sell_policy \<Rightarrow> sell_policy" where
  "sp_Init_ignore mgr name ign p = sp_set_ignore_comp ign (sp_Init mgr name p)"

definition sp_Init_both :: "ptr option \<Rightarrow> string \<Rightarrow> double \<Rightarrow> bool \<Rightarrow> sell_policy \<Rightarrow> (sell_policy, unit) exec" where
  "sp_Init_both mgr name thr ign p =
     andThen (sp_set_throughput thr (sp_Init mgr name p)) (\<lambda>_ p1. ok () (sp_set_ignore_comp ign p1))"

definition sp_Init_all :: "ptr option \<Rightarrow> string \<Rightarrow> double \<Rightarrow> bool \<Rightarrow> double \<Rightarrow> sell_policy \<Rightarrow> (sell_policy, unit) exec" where
  "sp_Init_all mgr name thr ign quant p =
     andThen (sp_set_quantize quant (sp_Init mgr name p)) (\<lambda>_ p1.
     andThen (sp_set_throughput thr p1) (\<lambda>_ p2. ok () (sp_set_ignore_comp ign p2)))"

definition sp_Set :: "string \<Rightarrow> sell_policy \<Rightarrow> sell_policy" where
  "sp_Set commod p = p\<lparr>sp_commods := oset_ins commod (sp_commods p)\<rparr>"

definition sp_Start :: "sell_policy \<Rightarrow> 'u sim \<Rightarrow> ('u sim, unit) exec" where
  "sp_Start p s = (if sp_manager p = None then throw ValueError s else ok () (RegisterTrader (sp_self p) s))"

definition sp_Stop :: "sell_policy \<Rightarrow> 'u sim \<Rightarrow> ('u sim, unit) exec" where
  "sp_Stop p s = (if sp_manager p = None then throw ValueError s else ok () (UnregisterTrader (sp_self p) s))"

definition sp_delete :: "sell_policy \<Rightarrow> 'u sim \<Rightarrow> 'u sim" where
  "sp_delete p s = (if sp_manager p \<noteq> None then UnregisterTrader (sp_self p) s else s)"

definition sp_Excl :: "sell_policy \<Rightarrow> bool" where
  "sp_Excl p \<longleftrightarrow> 0 < sp_quantize p"

definition sp_Limit :: "sell_policy \<Rightarrow> resbuf \<Rightarrow> double option" where
  "sp_Limit p b =
     (let bcap = rb_qty b
      in map_option (min (sp_throughput p))
        (if sp_Excl p then map_option (\<lambda>n. sp_quantize p * of_int n) (cast_int (of_int \<lfloor>bcap / sp_quantize p\<rfloor>)) else Some bcap))"

text \<open>One bid: the buffer is turned by one element to look at its front, and an untracked material of
  the quantity is offered.\<close>

definition sp_bid :: "nucdata \<Rightarrow> double \<Rightarrow> sell_policy \<Rightarrow> ptr \<Rightarrow> ptr \<Rightarrow> double \<Rightarrow> 'u buf_market \<Rightarrow> ('u buf_market, unit) exec" where
  "sp_bid nd eps_rsrc p port req qty s =
     andThen (on_buf Pop s) (\<lambda>m s1.
     andThen (on_buf (Push eps_rsrc (Some m)) s1) (\<lambda>_ s2.
     andThen (if sp_ignore_comp p
              then deref (mk_reqs (snd s2) req) s2 (\<lambda>rq. on_world (Material_comp nd (rq_target rq)) s2)
              else on_world (Material_comp nd m) s2) (\<lambda>c s3.
     andThen (on_world (\<lambda>w. let (offer, w1) = Material_CreateUntracked qty c w in ok offer w1) s3) (\<lambda>offer s4.
     andThen (on_market (bp_AddBid port req offer (Some (sp_self p)) (sp_Excl p) None) s4) (\<lambda>_ s5. ok () s5)))))"

definition sp_request :: "nucdata \<Rightarrow> double \<Rightarrow> sell_policy \<Rightarrow> ptr \<Rightarrow> double \<Rightarrow> ptr \<Rightarrow> 'u buf_market \<Rightarrow> ('u buf_market, unit) exec" where
  "sp_request nd eps_rsrc p port limit req s =
     deref (mk_reqs (snd s) req) s (\<lambda>rq. deref (mk_qty (snd s) (rq_target rq)) s (\<lambda>tq.
       let qty = min tq limit
       in deref (if sp_Excl p then cast_int (of_int \<lfloor>qty / sp_quantize p\<rfloor>) else Some 1) s (\<lambda>nbids.
          let qty1 = (if sp_Excl p then sp_quantize p else qty)
          in foreach (\<lambda>_. sp_bid nd eps_rsrc p port req qty1) [0..<nat nbids] s)))"

definition sp_GetMatlBids :: "nucdata \<Rightarrow> double \<Rightarrow> double \<Rightarrow> sell_policy \<Rightarrow> 'u buf_market \<Rightarrow> ('u buf_market, ptr list) exec" where
  "sp_GetMatlBids nd eps eps_rsrc p s =
     (if rb_rs (fst s) = [] \<or> rb_qty (fst s) < eps then ok [] s
      else case BidPortfolio_new (snd s) of
        (port, m1) \<Rightarrow> deref (sp_Limit p (fst s)) (fst s, m1) (\<lambda>limit.
          andThen (on_market (CapacityConstraint_new limit TrivialConverter) (fst s, m1)) (\<lambda>cc s2.
          andThen (on_market (bp_AddConstraint port cc) s2) (\<lambda>_ s3.
          andThen (foreach (\<lambda>commod s. case map_of (commod_requests (mk_ctx (snd s))) commod of
                None \<Rightarrow> ok () s
              | Some requests \<Rightarrow> foreach (sp_request nd eps_rsrc p port limit) requests s) (sp_commods p) s3)
            (\<lambda>_ s4. ok [port] s4)))))"

fun sp_GetMatlTrades :: "nucdata \<Rightarrow> double \<Rightarrow> sell_policy \<Rightarrow> trade list \<Rightarrow> response list \<Rightarrow> 'u buf_market \<Rightarrow>
    ('u buf_market, response list) exec" where
  "sp_GetMatlTrades nd eps_rsrc p [] out s = ok out s"
| "sp_GetMatlTrades nd eps_rsrc p (t # ts) out s =
     andThen (on_buf (Pop_eps (ExtractRes nd eps_rsrc) (AbsorbRes nd) (t_amt t) eps_rsrc) s) (\<lambda>mat s1.
     andThen (if sp_ignore_comp p
              then deref (mk_reqs (snd s1) (t_request t)) s1 (\<lambda>rq.
                   andThen (on_world (Material_comp nd (rq_target rq)) s1) (\<lambda>c. on_world (Transmute nd mat c)))
              else ok () s1) (\<lambda>_ s2. sp_GetMatlTrades nd eps_rsrc p ts (out @ [(t, mat)]) s2))"

section \<open>The buy policy\<close>

record commod_detail =
  cd_comp :: ptr
  cd_pref :: double

record buy_policy =
  yp_self :: ptr
  yp_manager :: "ptr option"
  yp_name :: string
  yp_fill_to :: double
  yp_req_when_under :: double
  yp_quantize :: double
  yp_throughput :: double
  yp_rsrc_commods :: "(ptr, string) omap"
  yp_commod_details :: "(string, commod_detail) omap"

definition MatlBuyPolicy_new :: "ptr \<Rightarrow> buy_policy" where
  "MatlBuyPolicy_new self = \<lparr>yp_self = self, yp_manager = None, yp_name = [], yp_fill_to = 1, yp_req_when_under = 1,
     yp_quantize = -1, yp_throughput = DBL_MAX, yp_rsrc_commods = [], yp_commod_details = []\<rparr>"

text \<open>A value above 1 is an amount and is divided by the capacity; over an infinite capacity it
  becomes 0.\<close>

definition as_fraction :: "double \<Rightarrow> resbuf \<Rightarrow> double" where
  "as_fraction x b = (if 1 < x then (case rb_cap b of None \<Rightarrow> 0 | Some c \<Rightarrow> x / c) else x)"

definition yp_set_fill_to :: "double \<Rightarrow> resbuf \<Rightarrow> buy_policy \<Rightarrow> (buy_policy, unit) exec" where
  "yp_set_fill_to x b p = (let y = as_fraction x b
     in if 0 < y \<and> y \<le> 1 then ok () (p\<lparr>yp_fill_to := y\<rparr>) else throw AssertFailed p)"

definition yp_set_req_when_under :: "double \<Rightarrow> resbuf \<Rightarrow> buy_policy \<Rightarrow> (buy_policy, unit) exec" where
  "yp_set_req_when_under x b p = (let y = as_fraction x b
     in if 0 < y \<and> y \<le> 1 then ok () (p\<lparr>yp_req_when_under := y\<rparr>) else throw AssertFailed p)"

definition yp_set_quantize :: "double \<Rightarrow> buy_policy \<Rightarrow> (buy_policy, unit) exec" where
  "yp_set_quantize x p = (if x = 0 then throw AssertFailed p else ok () (p\<lparr>yp_quantize := x\<rparr>))"

definition yp_set_throughput :: "double \<Rightarrow> buy_policy \<Rightarrow> (buy_policy, unit) exec" where
  "yp_set_throughput x p = (if x < 0 then throw AssertFailed p else ok () (p\<lparr>yp_throughput := x\<rparr>))"

definition yp_Init :: "ptr option \<Rightarrow> string \<Rightarrow> buy_policy \<Rightarrow> buy_policy" where
  "yp_Init mgr name p = p\<lparr>yp_manager := mgr, yp_name := name\<rparr>"

definition yp_Init_throughput :: "ptr option \<Rightarrow> string \<Rightarrow> double \<Rightarrow> buy_policy \<Rightarrow> (buy_policy, unit) exec" where
  "yp_Init_throughput mgr name thr p = yp_set_throughput thr (yp_Init mgr name p)"

definition yp_Init_levels :: "ptr option \<Rightarrow> resbuf \<Rightarrow> string \<Rightarrow> double \<Rightarrow> double \<Rightarrow> buy_policy \<Rightarrow> (buy_policy, unit) exec" where
  "yp_Init_levels mgr b name fill lvl p =
     andThen (yp_set_fill_to fill b (yp_Init mgr name p)) (\<lambda>_ p1. yp_set_req_when_under lvl b p1)"

definition yp_Init_all :: "ptr option \<Rightarrow> resbuf \<Rightarrow> string \<Rightarrow> double \<Rightarrow> double \<Rightarrow> double \<Rightarrow> double \<Rightarrow> buy_policy \<Rightarrow> (buy_policy, unit) exec" where
  "yp_Init_all mgr b name thr fill lvl quant p =
     andThen (yp_set_fill_to fill b (yp_Init mgr name p)) (\<lambda>_ p1.
     andThen (yp_set_req_when_under lvl b p1) (\<lambda>_ p2.
     andThen (yp_set_quantize quant p2) (\<lambda>_ p3. yp_set_throughput thr p3)))"

definition yp_Set :: "string \<Rightarrow> ptr \<Rightarrow> double \<Rightarrow> buy_policy \<Rightarrow> buy_policy" where
  "yp_Set commod c pref p = p\<lparr>yp_commod_details := omap_put commod \<lparr>cd_comp = c, cd_pref = pref\<rparr> (yp_commod_details p)\<rparr>"

text \<open>Without a composition the policy asks for a trace of hydrogen.\<close>

definition yp_Set_commod :: "nucdata \<Rightarrow> string \<Rightarrow> buy_policy \<Rightarrow> world \<Rightarrow> (world, buy_policy) exec" where
  "yp_Set_commod nd commod p w = andThen (CreateFromMass nd [(10010000, 1 / 10 ^ 100)] w) (\<lambda>c w1. ok (yp_Set commod c 1 p) w1)"

definition yp_Start :: "buy_policy \<Rightarrow> 'u sim \<Rightarrow> ('u sim, unit) exec" where
  "yp_Start p s = (if yp_manager p = None then throw ValueError s else ok () (RegisterTrader (yp_self p) s))"

definition yp_Stop :: "buy_policy \<Rightarrow> 'u sim \<Rightarrow> ('u sim, unit) exec" where
  "yp_Stop p s = (if yp_manager p = None then throw ValueError s else ok () (UnregisterTrader (yp_self p) s))"

definition yp_delete :: "buy_policy \<Rightarrow> 'u sim \<Rightarrow> 'u sim" where
  "yp_delete p s = (if yp_manager p \<noteq> None then UnregisterTrader (yp_self p) s else s)"

definition yp_TotalQty :: "buy_policy \<Rightarrow> resbuf \<Rightarrow> double" where
  "yp_TotalQty p b = (case rb_cap b of
     None \<Rightarrow> yp_throughput p
   | Some c \<Rightarrow> min (yp_throughput p) (yp_fill_to p * c - rb_qty b))"

definition yp_Excl :: "buy_policy \<Rightarrow> bool" where
  "yp_Excl p \<longleftrightarrow> 0 < yp_quantize p"

definition yp_ReqQty :: "buy_policy \<Rightarrow> resbuf \<Rightarrow> double" where
  "yp_ReqQty p b = (if yp_Excl p then yp_quantize p else yp_TotalQty p b)"

definition yp_NReq :: "buy_policy \<Rightarrow> resbuf \<Rightarrow> int option" where
  "yp_NReq p b = (if yp_Excl p then cast_int (yp_TotalQty p b / yp_quantize p) else Some 1)"

definition yp_make_req :: "buy_policy \<Rightarrow> resbuf \<Rightarrow> bool" where
  "yp_make_req p b = (case rb_cap b of None \<Rightarrow> True | Some c \<Rightarrow> rb_qty b < yp_req_when_under p * c)"

text \<open>One request for each commodity, collected in the group \<open>i\<close>.\<close>

fun yp_requests :: "buy_policy \<Rightarrow> ptr \<Rightarrow> int \<Rightarrow> double \<Rightarrow> (string \<times> commod_detail) list \<Rightarrow> (int, ptr list) omap \<Rightarrow>
    'u market \<Rightarrow> ('u market, (int, ptr list) omap) exec" where
  "yp_requests p port i amt [] grps s = ok grps s"
| "yp_requests p port i amt ((commod, d) # ds) grps s =
     (case Material_CreateUntracked amt (cd_comp d) (mk_world s) of
        (m, w) \<Rightarrow> andThen (rp_AddRequest port m (Some (yp_self p)) commod (cd_pref d) (yp_Excl p) None (set_world w s)) (\<lambda>r s1.
          yp_requests p port i amt ds (omap_push i r grps) s1))"

definition yp_portfolio :: "buy_policy \<Rightarrow> double \<Rightarrow> int \<Rightarrow> 'u market \<Rightarrow> ('u market, ptr) exec" where
  "yp_portfolio p amt i s =
     (case RequestPortfolio_new s of
        (port, s1) \<Rightarrow> andThen (yp_requests p port i amt (yp_commod_details p) [] s1) (\<lambda>grps s2.
          andThen (if 1 < length grps then foreach (\<lambda>(_, rs). AddMutualReqs port rs) grps s2 else ok () s2) (\<lambda>_ s3. ok port s3)))"

fun yp_portfolios :: "buy_policy \<Rightarrow> double \<Rightarrow> int list \<Rightarrow> ptr list \<Rightarrow> 'u market \<Rightarrow> ('u market, ptr list) exec" where
  "yp_portfolios p amt [] ports s = ok ports s"
| "yp_portfolios p amt (i # is) ports s = andThen (yp_portfolio p amt i s) (\<lambda>port s1. yp_portfolios p amt is (ports @ [port]) s1)"

text \<open>A number of requests below 0 would make the loop run until the counter wraps around; a total of
  at least \<open>eps\<close> over a positive quantum rules it out.\<close>

definition yp_GetMatlRequests :: "double \<Rightarrow> buy_policy \<Rightarrow> resbuf \<Rightarrow> 'u market \<Rightarrow> ('u market, buy_policy \<times> ptr list) exec" where
  "yp_GetMatlRequests eps p b s =
     (let p1 = p\<lparr>yp_rsrc_commods := []\<rparr>; amt = yp_TotalQty p b
      in if \<not> yp_make_req p b \<or> amt < eps then ok (p1, []) s
         else deref (yp_NReq p b) s (\<lambda>n_req.
           if n_req < 0 then throw Undefined s
           else andThen (yp_portfolios p1 (yp_ReqQty p b) [0..n_req - 1] [] s) (\<lambda>ports s1. ok (p1, ports) s1)))"

fun yp_accept :: "double \<Rightarrow> response list \<Rightarrow> buy_policy \<Rightarrow> 'u buf_market \<Rightarrow> ('u buf_market, buy_policy) exec" where
  "yp_accept eps_rsrc [] p s = ok p s"
| "yp_accept eps_rsrc ((t, m) # rs) p s = deref (mk_reqs (snd s) (t_request t)) s (\<lambda>rq.
     let p1 = p\<lparr>yp_rsrc_commods := omap_put m (rq_commodity rq) (yp_rsrc_commods p)\<rparr>
     in andThen (on_buf (Push eps_rsrc (Some m)) s) (\<lambda>_ s1. yp_accept eps_rsrc rs p1 s1))"

definition yp_AcceptMatlTrades :: "double \<Rightarrow> response list \<Rightarrow> buy_policy \<Rightarrow> 'u buf_market \<Rightarrow> ('u buf_market, buy_policy) exec" where
  "yp_AcceptMatlTrades eps_rsrc rs p s = yp_accept eps_rsrc rs (p\<lparr>yp_rsrc_commods := []\<rparr>) s"

end
