(* ===== verification/Body_Frame.thy ===== *)
theory Body_Frame
  imports Res_Buf
begin

text \<open>
  What taking a quantity out of a buffer leaves alone: the class, composition and quality of every object
  that was there and is not in the buffer, and the existence of every composition. This is what a client
  needs that looks at other objects between two pops, as the sell policy does.
\<close>

section \<open>The frame\<close>

definition bframe :: "ptr set \<Rightarrow> world \<Rightarrow> world \<Rightarrow> bool" where
  "bframe S w w' \<longleftrightarrow> res_fresh w' \<and>
     (\<forall>y r. y \<notin> S \<longrightarrow> w_res w y = Some r \<longrightarrow> (\<exists>r'. w_res w' y = Some r' \<and> body r' = body r)) \<and>
     dom (w_comp w) \<subseteq> dom (w_comp w')"

text \<open>The objects an operation may change: those of the buffer, and those made since.\<close>

definition touchable :: "ptr set \<Rightarrow> world \<Rightarrow> ptr \<Rightarrow> bool" where
  "touchable S w p \<longleftrightarrow> p \<in> S \<or> w_res w p = None"

lemma bframeD: "bframe S w w' \<Longrightarrow> y \<notin> S \<Longrightarrow> w_res w y = Some r \<Longrightarrow> \<exists>r'. w_res w' y = Some r' \<and> body r' = body r"
  by (simp add: bframe_def)

lemma bframe_refl: "res_fresh w \<Longrightarrow> bframe S w w"
  by (auto simp: bframe_def)

lemma bframe_upd_comp [simp]: "bframe S w (upd_comp c f w') = bframe S w w'"
proof -
  have "dom (w_comp (upd_comp c f w')) = dom (w_comp w')" by (auto simp: upd_comp_def)
  then show ?thesis unfolding bframe_def by (simp add: res_fresh_def)
qed

lemma bframe_simps [simp]:
  "bframe S w (emit x w') = bframe S w w'"
  "bframe S w (w'\<lparr>w_chain := ch\<rparr>) = bframe S w w'" "bframe S w (w'\<lparr>qualids := ql\<rparr>) = bframe S w w'"
  "bframe S w (w'\<lparr>nextstate_id := i\<rparr>) = bframe S w w'"
  by (simp_all add: bframe_def res_fresh_def emit_def)

lemma bframe_upd:
  assumes "bframe S w w'" "\<And>r. p \<notin> S \<Longrightarrow> w_res w p \<noteq> None \<Longrightarrow> body (f r) = body r"
  shows "bframe S w (upd_res p f w')"
proof -
  have "\<exists>r'. w_res (upd_res p f w') y = Some r' \<and> body r' = body r" if y: "y \<notin> S" "w_res w y = Some r" for y r
  proof -
    obtain r1 where r1: "w_res w' y = Some r1" "body r1 = body r" using bframeD[OF assms(1) y] by blast
    show ?thesis
    proof (cases "y = p")
      case True
      then show ?thesis using r1 assms(2)[of r1] y by simp
    qed (use r1 in simp)
  qed
  then show ?thesis using assms(1) by (simp add: bframe_def)
qed

lemma bframe_upd_body: "bframe S w w' \<Longrightarrow> (\<And>r. body (f r) = body r) \<Longrightarrow> bframe S w (upd_res p f w')"
  by (rule bframe_upd) simp_all

lemma bframe_upd_touch: "bframe S w w' \<Longrightarrow> touchable S w p \<Longrightarrow> bframe S w (upd_res p f w')"
  by (rule bframe_upd) (auto simp: touchable_def)

lemma bframe_bump: "bframe S w w' \<Longrightarrow> bframe S w (BumpStateId p w')" "bframe S w w' \<Longrightarrow> bframe S w (set_parents p i j w')"
  unfolding BumpStateId_def set_parents_def by (auto intro: bframe_upd_body)

lemma bframe_set:
  "bframe S w w' \<Longrightarrow> touchable S w p \<Longrightarrow> bframe S w (set_comp p c w')"
  "bframe S w w' \<Longrightarrow> touchable S w p \<Longrightarrow> bframe S w (set_prev_decay_time p t w')"
  unfolding set_comp_def set_prev_decay_time_def by (auto intro: bframe_upd_touch)

lemmas bframe_andThen = snd_andThenI[where P = "bframe S w" for S w]
lemmas bframe_with_comp = snd_with_compI[where P = "bframe S w" for S w]
lemmas bframe_with_res = snd_with_resI[where P = "bframe S w" for S w]

lemma bframe_with_mat: "bframe S w w' \<Longrightarrow> (\<And>r c t. bframe S w (snd (f r c t))) \<Longrightarrow> bframe S w (snd (with_mat p w' f))"
  unfolding with_mat_def by (rule bframe_with_res) (auto split: res_body.splits)

section \<open>Compositions\<close>

lemma bframe_new: "new_composition prev line w' = (p, w'') \<Longrightarrow> bframe S w w' \<Longrightarrow> bframe S w w''"
  by (auto simp: bframe_def new_composition_def Let_def res_fresh_def)

lemma bframe_new0: "new_composition0 w' = (p, w'') \<Longrightarrow> bframe S w w' \<Longrightarrow> bframe S w w''"
  by (auto simp: bframe_def new_composition0_def new_chain_def new_composition_def Let_def res_fresh_def)

lemma bframe_CreateFromMass: "bframe S w w' \<Longrightarrow> bframe S w (snd (CreateFromMass nd v w'))"
  by (auto simp: CreateFromMass_def Let_def split: prod.splits intro: bframe_new0)

lemma bframe_vectors:
  "bframe S w w' \<Longrightarrow> bframe S w (snd (Composition_mass nd c w'))"
  "bframe S w w' \<Longrightarrow> bframe S w (snd (Composition_atom nd c w'))"
  by (auto simp: Composition_mass_def Composition_atom_def Let_def intro!: bframe_with_comp)

lemma bframe_Decay: "bframe S w w' \<Longrightarrow> bframe S w (snd (Composition_Decay nd c d s w'))"
proof -
  assume b: "bframe S w w'"
  have "bframe S w (snd (NewDecay nd c d s w'))" unfolding NewDecay_def Let_def
    by (auto split: prod.splits intro!: bframe_with_comp bframe_andThen bframe_vectors b intro: bframe_new[OF _ bframe_vectors(2)[OF b]])
  then show ?thesis unfolding Composition_Decay_def Let_def
    by (auto split: option.splits intro!: bframe_with_comp bframe_andThen b)
qed

lemma bframe_Record: "bframe S w w' \<Longrightarrow> bframe S w (snd (Composition_Record nd c w'))"
proof -
  have l: "bframe S w w1 \<Longrightarrow> bframe S w (foldl (\<lambda>w' (nuc, q). emit (Compositions i nuc q) w') w1 cm)" for w1 i cm
    by (induction cm arbitrary: w1) auto
  show "bframe S w w' \<Longrightarrow> ?thesis"
    by (auto simp: Composition_Record_def Let_def intro!: bframe_with_comp bframe_andThen bframe_vectors l)
qed

section \<open>Materials and products\<close>

lemma bframe_tracker_Record: "bframe S w w' \<Longrightarrow> bframe S w (snd (tracker_Record nd p w'))"
  unfolding tracker_Record_def res_Record_def qual_id_def Let_def
  by (auto intro!: bframe_with_res bframe_andThen bframe_with_comp bframe_Record bframe_bump split: res_body.splits option.splits)

lemma bframe_trackers:
  "bframe S w w' \<Longrightarrow> bframe S w (snd (tracker_Modify nd p w'))"
  "bframe S w w' \<Longrightarrow> bframe S w (snd (tracker_Absorb nd p q w'))"
  "bframe S w w' \<Longrightarrow> bframe S w (snd (tracker_Extract nd p q w'))"
  unfolding tracker_Modify_def tracker_Absorb_def tracker_Extract_def tracked_state_id_def Let_def
  by (auto intro!: bframe_with_res bframe_andThen bframe_tracker_Record bframe_bump bframe_upd_body)

lemma bframe_Transmute: "bframe S w w' \<Longrightarrow> touchable S w p \<Longrightarrow> bframe S w (snd (Transmute nd p c w'))"
  unfolding Transmute_def by (auto intro!: bframe_andThen bframe_with_mat bframe_trackers bframe_set)

lemma bframe_Material_comp: "bframe S w w' \<Longrightarrow> touchable S w p \<Longrightarrow> bframe S w (snd (Material_comp nd p w'))"
  unfolding Material_comp_def Material_Decay_def Let_def
  by (auto intro!: bframe_andThen bframe_with_mat bframe_vectors bframe_Decay bframe_Transmute bframe_set)

lemma bframe_Absorb:
  assumes "bframe S w w'" "touchable S w p" "touchable S w q"
  shows "bframe S w (snd (Material_Absorb nd p q w'))" "bframe S w (snd (Product_Absorb nd p q w'))"
proof -
  have a: "bframe S w (snd (absorb_rest nd p q c0 c1 w'))" if "bframe S w w'" for c0 c1 w'
    unfolding absorb_rest_def absorb_mixture_def Let_def
    by (auto intro!: bframe_andThen bframe_with_mat bframe_vectors bframe_CreateFromMass bframe_set bframe_trackers bframe_upd_body assms that)
  show "bframe S w (snd (Material_Absorb nd p q w'))"
    unfolding Material_Absorb_def by (auto intro!: bframe_andThen bframe_Material_comp assms a)
  show "bframe S w (snd (Product_Absorb nd p q w'))"
    unfolding Product_Absorb_def Let_def
    by (auto intro!: bframe_with_res bframe_trackers bframe_upd_body assms split: res_body.splits)
qed

lemma bframe_new_resource:
  assumes "bframe S w w'" "new_resource b q ctx w' = (p, w'')"
  shows "bframe S w w'' \<and> touchable S w p"
proof -
  have p: "p = w_next w'" "w_res w' p = None" using assms by (auto simp: new_resource_def Let_def bframe_def res_fresh_def)
  then have t: "touchable S w p" using assms(1) by (fastforce simp: touchable_def bframe_def)
  have "res_fresh w''" using assms by (auto simp: new_resource_def Let_def bframe_def res_fresh_def)
  then show ?thesis using assms t p by (fastforce simp: new_resource_def Let_def bframe_def touchable_def)
qed

text \<open>Where a new object is returned, it is one the client may go on with.\<close>

definition splits :: "ptr set \<Rightarrow> world \<Rightarrow> (world, ptr) exec \<Rightarrow> bool" where
  "splits S w x \<longleftrightarrow> bframe S w (snd x) \<and> (\<forall>p. fst x = Inr p \<longrightarrow> touchable S w p)"

lemma splits_andThen:
  assumes "bframe S w (snd r)" "\<And>a. bframe S w (snd r) \<Longrightarrow> splits S w (f a (snd r))"
  shows "splits S w (andThen r f)"
  using assms by (cases r; cases "fst r") (auto simp: splits_def)

lemma splits_with:
  "bframe S w w' \<Longrightarrow> (\<And>r. splits S w (f r)) \<Longrightarrow> splits S w (with_res p w' f)"
  "bframe S w w' \<Longrightarrow> (\<And>r c t. splits S w (g r c t)) \<Longrightarrow> splits S w (with_mat p w' g)"
  by (auto simp: with_mat_def with_res_def splits_def split: option.splits res_body.splits)

lemma splits_ExtractComp:
  assumes "bframe S w w'" "touchable S w p"
  shows "splits S w (ExtractComp nd p q c thr w')"
  unfolding ExtractComp_def
proof (intro splits_with(2) assms(1))
  fix r comp0 t
  let ?m = "if comp0 \<noteq> c then andThen (extract_remainder nd (quantity r) comp0 q c thr w') (\<lambda>c' w1. ok () (set_comp p c' w1)) else ok () w'"
  have "bframe S w (snd (extract_remainder nd (quantity r) comp0 q c thr w'))"
    unfolding extract_remainder_def Let_def
    by (auto intro!: bframe_andThen bframe_vectors bframe_CreateFromMass assms split: prod.splits sum.splits)
  then have m: "bframe S w (snd ?m)" using assms by (auto intro!: bframe_andThen bframe_set)
  have rest: "splits S w (let w3 = upd_res p (quantity_update (\<lambda>x. x - q)) w2; (other, w4) = Material_new (has_ctx r) q c w3;
      w5 = set_prev_decay_time other t w4 in andThen (tracker_Extract nd p other w5) (\<lambda>_ w6. ok other w6))" if w2: "bframe S w w2" for w2
  proof -
    obtain other w4 where new: "new_resource (MatBody c (if has_ctx r then w_time w2 else 0)) q (has_ctx r) (upd_res p (quantity_update (\<lambda>x. x - q)) w2) = (other, w4)"
      by fastforce
    have f: "bframe S w w4 \<and> touchable S w other" by (rule bframe_new_resource[OF bframe_upd_body[OF w2] new]) simp
    then have "bframe S w (set_prev_decay_time other t (if has_ctx r then w4 else DontTrack other w4))"
      unfolding DontTrack_def by (auto intro!: bframe_set bframe_upd_body)
    then have "splits S w (andThen (tracker_Extract nd p other (set_prev_decay_time other t (if has_ctx r then w4 else DontTrack other w4)))
        (\<lambda>_ w6. ok other w6))" using f by (auto simp: splits_def[of _ _ "ok _ _"] intro!: splits_andThen bframe_trackers)
    then show ?thesis using new by (cases "has_ctx r") (simp_all add: Material_new_def Let_def)
  qed
  show "splits S w (if quantity r < q then throw ValueError w' else andThen ?m (\<lambda>_ w2.
      let w3 = upd_res p (quantity_update (\<lambda>x. x - q)) w2; (other, w4) = Material_new (has_ctx r) q c w3;
        w5 = set_prev_decay_time other t w4 in andThen (tracker_Extract nd p other w5) (\<lambda>_ w6. ok other w6)))"
  proof (cases "quantity r < q")
    case True
    then show ?thesis using assms(1) by (simp add: splits_def)
  next
    case False
    then show ?thesis unfolding if_not_P[OF False] by (intro splits_andThen[OF m] rest)
  qed
qed

lemma splits_ExtractRes:
  assumes "bframe S w w'" "touchable S w p"
  shows "splits S w (ExtractRes nd eps p q w')"
proof -
  have new: "splits S w (andThen (tracker_Extract nd p other w2) (\<lambda>_ w3. ok other w3))"
    if "Product_new ctx q ql (upd_res p (quantity_update (\<lambda>x. x - q)) w') = (other, w2)" for ctx ql other w2
  proof -
    have f: "bframe S w w2 \<and> touchable S w other"
      by (rule bframe_new_resource[OF bframe_upd_body[OF assms(1)] that[unfolded Product_new_def]]) simp
    show ?thesis by (rule splits_andThen) (use f in \<open>auto simp: splits_def intro: bframe_trackers\<close>)
  qed
  have "splits S w (Product_Extract nd p q w')" unfolding Product_Extract_def Let_def
    by (intro splits_with(1) assms(1)) (use assms(1) in \<open>auto simp: splits_def[of _ _ "throw _ _"] intro!: new split: res_body.splits prod.splits\<close>)
  then show ?thesis unfolding ExtractRes_def ExtractQty_def
    by (intro splits_with(1) assms(1)) (auto intro!: splits_with splits_ExtractComp assms split: res_body.splits)
qed

section \<open>Buffers\<close>

lemma bframe_AbsorbRes:
  "bframe S w w' \<Longrightarrow> touchable S w p \<Longrightarrow> touchable S w q \<Longrightarrow> bframe S w (snd (AbsorbRes nd p q w'))"
  unfolding AbsorbRes_def by (auto intro!: bframe_with_res bframe_Absorb split: res_body.splits)

lemma splits_squash:
  "bframe S w w' \<Longrightarrow> touchable S w p \<Longrightarrow> \<forall>x \<in> set xs. touchable S w x \<Longrightarrow> splits S w (squash_into (AbsorbRes nd) p xs w')"
proof (induction xs arbitrary: w')
  case (Cons x xs)
  then show ?case by (auto intro!: splits_andThen bframe_AbsorbRes Cons.IH)
qed (simp add: splits_def)

lemma splits_Squash: "bframe S w w' \<Longrightarrow> \<forall>x \<in> set xs. touchable S w x \<Longrightarrow> splits S w (Squash (AbsorbRes nd) xs w')"
  by (auto simp: Squash_def splits_squash splits_def[of _ _ "throw _ _"] split: list.splits)

lemma pop_loop_frame:
  "bframe S w w' \<Longrightarrow> \<forall>x \<in> set rs \<union> set out. touchable S w x \<Longrightarrow> pop_loop (ExtractRes nd eps) rs left out (b, w') = (x, (b', w'')) \<Longrightarrow>
    bframe S w w'' \<and> (\<forall>o'. x = Inr o' \<longrightarrow> (\<forall>p \<in> set o'. touchable S w p))"
proof (induction rs arbitrary: left out b)
  case (Cons r rs)
  show ?case
  proof (cases "0 < left")
    case False
    then show ?thesis using Cons.prems by (auto simp: ok_def)
  next
    case pos: True
    show ?thesis
    proof (cases "w_res w' r")
      case None
      then show ?thesis using Cons.prems pos by (auto simp: throw_def)
    next
      case (Some y)
      show ?thesis
      proof (cases "left < quantity y")
        case True
        obtain e w1 where e: "ExtractRes nd eps r left w' = (e, w1)" by fastforce
        have "splits S w (e, w1)" using splits_ExtractRes[OF Cons.prems(1), of r nd eps left] Cons.prems(2) e by simp
        then have f: "bframe S w w1" "\<And>p. e = Inr p \<Longrightarrow> touchable S w p" by (auto simp: splits_def)
        show ?thesis
        proof (cases e)
          case (Inr t)
          then show ?thesis using Cons.prems(2,3) f pos Some True e
            by (cases "w_res w1 t") (auto simp: in_buf_def ok_def throw_def)
        qed (use Cons.prems(3) f pos Some True e in \<open>auto simp: in_buf_def\<close>)
      next
        case False
        have "\<forall>x \<in> set rs \<union> set (out @ [r]). touchable S w x" using Cons.prems(2) by auto
        from Cons.IH[OF Cons.prems(1) this] show ?thesis using Cons.prems(3) pos Some False by (auto simp: Let_def)
      qed
    qed
  qed
qed (auto simp: ok_def)

lemma popn_loop_frame:
  "popn_loop n out (b, w) = (x, (b', w')) \<Longrightarrow> w' = w \<and> (\<forall>o'. x = Inr o' \<longrightarrow> set o' \<subseteq> set out \<union> set (rb_rs b))"
proof (induction n arbitrary: out b)
  case (Suc n)
  show ?case
  proof (cases "rb_rs b")
    case (Cons r rs)
    show ?thesis
    proof (cases "w_res w r")
      case (Some y)
      then show ?thesis using Suc.IH[of "out @ [r]"] Suc.prems Cons by fastforce
    qed (use Suc.prems Cons in \<open>auto simp: throw_def\<close>)
  qed (use Suc.prems in \<open>auto simp: throw_def\<close>)
qed (auto simp: ok_def)

lemma UpdateQty_frame: "UpdateQty (b, w) = (x, (b', w')) \<Longrightarrow> w' = w"
  by (auto simp: UpdateQty_def ok_def throw_def deref_def split: list.splits option.splits)

text \<open>Popping changes nothing outside the buffer.\<close>

lemma Pop_eps_frame:
  assumes "res_fresh w" "Pop_eps (ExtractRes nd eps) (AbsorbRes nd) q e (b, w) = (x, (b', w'))"
  shows "bframe (set (rb_rs b)) w w'"
proof -
  let ?S = "set (rb_rs b)"
  have t: "\<forall>p \<in> ?S. touchable ?S w p" by (simp add: touchable_def)
  note r = bframe_refl[OF assms(1), of ?S]
  have sq: "bframe ?S w (snd (Squash (AbsorbRes nd) xs w1))" if "bframe ?S w w1" "\<forall>p \<in> set xs. touchable ?S w p" for xs w1
    using splits_Squash[OF that, of nd] by (simp add: splits_def)
  consider "rb_qty b + e < q" | "\<not> rb_qty b + e < q" "rb_qty b \<le> q" | "\<not> rb_qty b + e < q" "q < rb_qty b" by linarith
  then show ?thesis
  proof cases
    case 1
    then show ?thesis using assms r by (simp add: Pop_eps_def throw_def)
  next
    case 2
    obtain y b1 w1 where p: "popn_loop (length (rb_rs b)) [] (b, w) = (y, (b1, w1))" by (metis prod.collapse)
    note f = popn_loop_frame[OF p]
    obtain z b2 w2 where u: "UpdateQty (b1, w1) = (z, (b2, w2))" by (metis prod.collapse)
    note g = UpdateQty_frame[OF u]
    have "bframe ?S w (snd (Squash (AbsorbRes nd) xs w))" if "y = Inr xs" for xs
      by (rule sq[OF r]) (use f t that in auto)
    then show ?thesis using assms(2) 2 p u f g r
      by (cases y; cases z) (auto simp: Pop_eps_def PopN_def in_buf_def ok_def)
  next
    case 3
    obtain y b1 w1 where p: "pop_loop (ExtractRes nd eps) (rb_rs b) q [] (b, w) = (y, (b1, w1))" by (metis prod.collapse)
    have f: "bframe ?S w w1 \<and> (\<forall>o'. y = Inr o' \<longrightarrow> (\<forall>p \<in> set o'. touchable ?S w p))" by (rule pop_loop_frame[OF r _ p]) (use t in simp)
    obtain z b2 w2 where u: "UpdateQty (b1, w1) = (z, (b2, w2))" by (metis prod.collapse)
    note g = UpdateQty_frame[OF u]
    show ?thesis using assms(2) 3 p u f g sq[of w1]
      by (cases y; cases z) (auto simp: Pop_eps_def Pop_qty_def in_buf_def)
  qed
qed

end
