(* ===== verification/Policy_Properties.thy ===== *)
theory Policy_Properties
  imports Matl_Policies Market_Demo Body_Frame
begin

text \<open>
  What the inventory policies do with their buffers.
\<close>

section \<open>Selling\<close>

lemma mk_world_set [simp]: "mk_world (set_world w m) = w"
  by (simp add: set_world_def)

text \<open>Transmuting a well-formed material to a composition that exists.\<close>

definition comp_at :: "world \<Rightarrow> ptr \<Rightarrow> ptr option" where
  "comp_at w p = Option.bind (w_res w p) (\<lambda>r. case body r of MatBody c _ \<Rightarrow> Some c | ProdBody _ \<Rightarrow> None)"

lemma mat_live_upd_other: "mat_live nd w y \<Longrightarrow> y \<noteq> x \<Longrightarrow> mat_live nd (upd_res x f w) y"
proof -
  assume m: "mat_live nd w y" and n: "y \<noteq> x"
  have "comp_inv (upd_res x f w)" using m by (auto simp: mat_live_def elim!: comp_inv_same[rotated -1])
  then show ?thesis using m n by (auto simp: mat_live_def sound_res_def good_comp_def res_fresh_def)
qed

lemma Transmute_ok:
  assumes x: "mat_live nd w x" and c: "w_comp w c \<noteq> None"
  shows "\<exists>w'. Transmute nd x c w = (Inr (), w') \<and> qty_at w' = qty_at w \<and> (\<forall>y. y \<noteq> x \<longrightarrow> mat_live nd w y \<longrightarrow> mat_live nd w' y) \<and>
    comp_at w' x = Some c \<and> bframe {x} w w'"
proof -
  obtain r c0 t where r: "sound_res w x r" "body r = MatBody c0 t" using x by (auto simp: mat_live_def)
  let ?r = "r\<lparr>body := MatBody c t\<rparr>" and ?w = "set_comp x c w"
  have rx: "w_res w x = Some r" using r(1) by (simp add: sound_res_def)
  have s: "sound_res ?w x ?r" using r by (auto simp: sound_res_def set_comp_def)
  have cc: "w_comp ?w c \<noteq> None" using c by (simp add: set_comp_def)
  obtain w1 where w1: "tracker_Modify nd x ?w = (Inr (), w1)" "kframe nd ?w w1"
  proof (cases "tracked r")
    case False
    then show thesis using s that[of ?w] by (simp add: tracker_Modify_def sound_res_def with_res_def ok_def)
  next
    case True
    define i where "i = state_id (the (w_res ?w (tracker_res ?r)))"
    note ti = tracked_state_id_sound[OF s, folded i_def]
    have s2: "sound_res (set_parents x i 0 ?w) x (?r\<lparr>parent1 := i, parent2 := 0\<rparr>)" using s by (auto simp: sound_res_def set_parents_def)
    obtain w' where "tracker_Record nd x (set_parents x i 0 ?w) = (Inr (), w')" "kframe nd (set_parents x i 0 ?w) w'"
      by (rule tracker_Record_ok[OF s2]) (use True cc in \<open>auto simp: set_parents_def\<close>)
    then show thesis using that[of w'] kframe_trans[OF kframe_steps(2)] True s
      by (simp add: tracker_Modify_def sound_res_def with_res_def ti)
  qed
  obtain r1 where r1: "w_res w1 x = Some r1" "body r1 = MatBody c t"
    using kframe_sound[OF w1(2) s] by (auto simp: sound_res_def)
  define w2 where "w2 = (if has_ctx r1 \<and> w_time w1 > t then set_prev_decay_time x (w_time w1) w1 else w1)"
  have e: "Transmute nd x c w = (Inr (), w2)" using w1(1) r1 by (simp add: Transmute_def with_mat_def with_res_def ok_def w2_def)
  have q0: "qty_at ?w = qty_at w" using rx by (auto simp: qty_at_def set_comp_def fun_eq_iff r(2))
  have q2: "qty_at w2 = qty_at w1" using r1 by (auto simp: qty_at_def w2_def set_prev_decay_time_def fun_eq_iff)
  have "mat_live nd w2 y" if "y \<noteq> x" "mat_live nd w y" for y
    using kframe_live(2)[OF w1(2)] mat_live_upd_other[OF that(2,1)] that(1)
    by (auto simp: w2_def set_comp_def set_prev_decay_time_def intro!: mat_live_upd_other)
  moreover have "comp_at w2 x = Some c" using r1 by (simp add: comp_at_def w2_def set_prev_decay_time_def)
  moreover have "bframe {x} w w2"
    using bframe_Transmute[of "{x}" w w x nd c] bframe_refl[of w "{x}"] x e by (simp add: touchable_def mat_live_def)
  ultimately show ?thesis using e q0 q2 kframe_qty[OF w1(2)] by auto
qed

text \<open>The composition a trade asks for is the one of the target of its request, which exists and is not an
  object of the seller's buffer.\<close>

definition asked_comp :: "'u market \<Rightarrow> trade \<Rightarrow> ptr option" where
  "asked_comp m t = Option.bind (mk_reqs m (t_request t)) (\<lambda>rq. comp_at (mk_world m) (rq_target rq))"

definition asked_ok :: "resbuf \<Rightarrow> 'u market \<Rightarrow> trade \<Rightarrow> bool" where
  "asked_ok b m t \<longleftrightarrow> (\<exists>rq c. mk_reqs m (t_request t) = Some rq \<and> rq_target rq \<notin> set (rb_rs b) \<and>
     comp_at (mk_world m) (rq_target rq) = Some c \<and> w_comp (mk_world m) c \<noteq> None)"

text \<open>Objects outside the buffer are left alone.\<close>

definition others_kept :: "resbuf \<Rightarrow> world \<Rightarrow> world \<Rightarrow> ptr set \<Rightarrow> bool" where
  "others_kept b w w' X \<longleftrightarrow> (\<forall>y r. y \<notin> set (rb_rs b) \<longrightarrow> w_res w y = Some r \<longrightarrow>
     y \<notin> X \<and> (\<exists>r'. w_res w' y = Some r' \<and> body r' = body r \<and> quantity r' = quantity r))"

lemma comp_at_cong: "w_res w y = Some r \<Longrightarrow> w_res w' y = Some r' \<Longrightarrow> body r' = body r \<Longrightarrow> comp_at w' y = comp_at w y"
  by (simp add: comp_at_def)

lemma others_kept_comp: "others_kept b w w' X \<Longrightarrow> y \<notin> set (rb_rs b) \<Longrightarrow> comp_at w y = Some c \<Longrightarrow> comp_at w' y = Some c"
  by (fastforce simp: others_kept_def comp_at_def split: bind_splits)

text \<open>One trade: what is popped and, if compositions are ignored, transmuted.\<close>

lemma sell_one:
  assumes b: "buf_ok (mat_live nd) (c, mk_world n)" and q: "0 < t_amt t" "t_amt t \<le> rb_qty c" and e0: "0 \<le> eps"
    and a: "sp_ignore_comp p \<Longrightarrow> asked_ok c n t"
  obtains x c1 w where "\<And>us out. sp_GetMatlTrades nd eps p (t # us) out (c, n) = sp_GetMatlTrades nd eps p us (out @ [(t, x)]) (c1, set_world w n)"
    "buf_ok (mat_live nd) (c1, w)" "x \<notin> set (rb_rs c1)" "w_res w x \<noteq> None" "qty_at w x = t_amt t" "rb_qty c1 = rb_qty c - t_amt t"
    "set (rb_rs c1) \<subseteq> set (rb_rs c)" "others_kept c (mk_world n) w {x}" "dom (w_comp (mk_world n)) \<subseteq> dom (w_comp w)"
    "sp_ignore_comp p \<Longrightarrow> comp_at w x = asked_comp n t"
proof -
  let ?w = "mk_world n"
  obtain x c1 w1 where x: "Pop_eps (ExtractRes nd eps) (AbsorbRes nd) (t_amt t) eps (c, ?w) = (Inr x, (c1, w1))" "buf_ok (mat_live nd) (c1, w1)"
    "mat_live nd w1 x" "x \<notin> set (rb_rs c1)" "qty_at w1 x = t_amt t" "rb_qty c1 = rb_qty c - t_amt t"
    "x \<in> set (rb_rs c) \<union> {y. w_res ?w y = None}" "set (rb_rs c1) \<subseteq> set (rb_rs c)"
    "\<forall>y. y \<notin> set (rb_rs c) \<longrightarrow> w_res ?w y \<noteq> None \<longrightarrow> qty_at w1 y = qty_at ?w y"
    using mat.Pop_eps_spec[OF b q e0, of eps] by auto
  have "rb_rs c \<noteq> []" using b q by (auto simp: buf_ok_def)
  then have fr: "res_fresh ?w" using b by (cases "rb_rs c") (auto simp: buf_ok_def mat_live_def)
  note f1 = Pop_eps_frame[OF fr x(1)]
  have k1: "others_kept c ?w w1 {x}" unfolding others_kept_def
  proof (intro allI impI conjI)
    fix y r assume y: "y \<notin> set (rb_rs c)" "w_res ?w y = Some r"
    then show "y \<notin> {x}" using x(7) by auto
    obtain r' where "w_res w1 y = Some r'" "body r' = body r" using bframeD[OF f1 y] by blast
    then show "\<exists>r'. w_res w1 y = Some r' \<and> body r' = body r \<and> quantity r' = quantity r" using x(9) y by (force simp: qty_at_def)
  qed
  have d1: "dom (w_comp ?w) \<subseteq> dom (w_comp w1)" using f1 by (simp add: bframe_def)
  have rx: "w_res w1 x \<noteq> None" using mat.live_res[OF x(3)] by simp
  show thesis
  proof (cases "sp_ignore_comp p")
    case False
    then show thesis using x rx k1 d1 by (intro that[of x c1 w1]) (simp_all add: on_buf_def ok_def)
  next
    case True
    then obtain rq k where k: "mk_reqs n (t_request t) = Some rq" "rq_target rq \<notin> set (rb_rs c)" "comp_at ?w (rq_target rq) = Some k" "w_comp ?w k \<noteq> None"
      using a by (auto simp: asked_ok_def)
    have kt: "comp_at w1 (rq_target rq) = Some k" by (rule others_kept_comp[OF k1 k(2,3)])
    then obtain rt tm where rt: "w_res w1 (rq_target rq) = Some rt" "body rt = MatBody k tm"
      by (auto simp: comp_at_def split: bind_splits res_body.splits)
    have mc: "Material_comp nd (rq_target rq) w1 = (Inr k, w1)"
      using rt x(3) by (simp add: Material_comp_def with_mat_def with_res_def mat_live_def ok_def)
    have "w_comp w1 k \<noteq> None" using d1 k(4) by auto
    then obtain w2 where w2: "Transmute nd x k w1 = (Inr (), w2)" "qty_at w2 = qty_at w1" "\<forall>y. y \<noteq> x \<longrightarrow> mat_live nd w1 y \<longrightarrow> mat_live nd w2 y"
      "comp_at w2 x = Some k" "bframe {x} w1 w2" using Transmute_ok[OF x(3)] by blast
    have b2: "buf_ok (mat_live nd) (c1, w2)" using x(2,4) w2(2,3) by (auto simp: buf_ok_def)
    have "others_kept c ?w w2 {x}" unfolding others_kept_def
    proof (intro allI impI conjI)
      fix y r assume y: "y \<notin> set (rb_rs c)" "w_res ?w y = Some r"
      then obtain r1 where r1: "y \<notin> {x}" "w_res w1 y = Some r1" "body r1 = body r" "quantity r1 = quantity r"
        using k1 by (auto simp: others_kept_def)
      then show "y \<notin> {x}" by simp
      obtain r2 where "w_res w2 y = Some r2" "body r2 = body r1" using bframeD[OF w2(5) r1(1,2)] by blast
      then show "\<exists>r'. w_res w2 y = Some r' \<and> body r' = body r \<and> quantity r' = quantity r"
        using r1 fun_cong[OF w2(2), of y] by (auto simp: qty_at_def)
    qed
    moreover have "dom (w_comp ?w) \<subseteq> dom (w_comp w2)" using w2(5) subset_trans[OF d1] by (simp add: bframe_def)
    moreover have "w_res w2 x \<noteq> None" using w2(4) by (auto simp: comp_at_def split: bind_splits)
    moreover have "comp_at w2 x = asked_comp n t" using w2(4) k(1,3) by (simp add: asked_comp_def)
    moreover have "sp_GetMatlTrades nd eps p (t # us) out (c, n) = sp_GetMatlTrades nd eps p us (out @ [(t, x)]) (c1, set_world w2 n)" for us out
      using True x(1) k(1) mc w2(1) by (simp add: on_buf_def on_world_def set_world_def)
    ultimately show thesis using that[of x c1 w2] b2 x(4-6,8) w2(2) by simp
  qed
qed

lemma sell_policy_trades:
  assumes "0 \<le> eps" and "buf_ok (mat_live nd) (c, mk_world n)" "\<forall>t \<in> set us. 0 < t_amt t" "sum_list (map t_amt us) \<le> rb_qty c"
    and "sp_ignore_comp p \<Longrightarrow> \<forall>t \<in> set us. asked_ok c n t"
  shows "\<exists>rs b' m'. sp_GetMatlTrades nd eps p us out (c, n) = (Inr (out @ rs), (b', m')) \<and> map fst rs = us \<and> distinct (map snd rs) \<and>
    (\<forall>(t, x) \<in> set rs. qty_at (mk_world m') x = t_amt t \<and> x \<notin> set (rb_rs b') \<and>
       (sp_ignore_comp p \<longrightarrow> comp_at (mk_world m') x = asked_comp n t)) \<and>
    rb_qty b' = rb_qty c - sum_list (map t_amt us) \<and> buf_ok (mat_live nd) (b', mk_world m') \<and> set (rb_rs b') \<subseteq> set (rb_rs c) \<and>
    others_kept c (mk_world n) (mk_world m') (snd ` set rs)"
  using assms(2-5)
proof (induction us arbitrary: out c n)
  case Nil
  then show ?case by (intro exI[of _ "[]"] exI[of _ c] exI[of _ n]) (auto simp: ok_def others_kept_def)
next
  case (Cons t us)
  have "0 \<le> sum_list (map t_amt us)" using Cons.prems(2) by (intro sum_list_nonneg) (auto intro: less_imp_le)
  then have q: "0 < t_amt t" "t_amt t \<le> rb_qty c" using Cons.prems(2,3) by auto
  have at: "asked_ok c n t" if "sp_ignore_comp p" using Cons.prems(4) that by simp
  obtain x c1 w where x: "\<And>us out. sp_GetMatlTrades nd eps p (t # us) out (c, n) = sp_GetMatlTrades nd eps p us (out @ [(t, x)]) (c1, set_world w n)"
    "buf_ok (mat_live nd) (c1, w)" "x \<notin> set (rb_rs c1)" "w_res w x \<noteq> None" "qty_at w x = t_amt t" "rb_qty c1 = rb_qty c - t_amt t"
    "set (rb_rs c1) \<subseteq> set (rb_rs c)" "others_kept c (mk_world n) w {x}" "dom (w_comp (mk_world n)) \<subseteq> dom (w_comp w)"
    "sp_ignore_comp p \<Longrightarrow> comp_at w x = asked_comp n t"
    by (rule sell_one[OF Cons.prems(1) q assms(1) at]) blast+
  let ?n = "set_world w n"
  have reqs: "mk_reqs ?n = mk_reqs n" by (simp add: set_world_def)
  have ok: "asked_ok c1 ?n t' \<and> asked_comp ?n t' = asked_comp n t'" if ig: "sp_ignore_comp p" and tu: "t' \<in> set us" for t'
  proof -
    obtain rq k where k: "mk_reqs n (t_request t') = Some rq" "rq_target rq \<notin> set (rb_rs c)" "comp_at (mk_world n) (rq_target rq) = Some k"
      "w_comp (mk_world n) k \<noteq> None" using Cons.prems(4)[OF ig] tu by (auto simp: asked_ok_def)
    have "comp_at w (rq_target rq) = Some k" by (rule others_kept_comp[OF x(8) k(2,3)])
    then show ?thesis using k x(7,9) by (auto simp: asked_ok_def asked_comp_def reqs)
  qed
  have "sum_list (map t_amt us) \<le> rb_qty c1" using Cons.prems(3) x(6) by simp
  then obtain rs b' m' where ih: "sp_GetMatlTrades nd eps p us (out @ [(t, x)]) (c1, ?n) = (Inr ((out @ [(t, x)]) @ rs), (b', m'))"
    "map fst rs = us" "distinct (map snd rs)"
    "\<forall>(t, y) \<in> set rs. qty_at (mk_world m') y = t_amt t \<and> y \<notin> set (rb_rs b') \<and> (sp_ignore_comp p \<longrightarrow> comp_at (mk_world m') y = asked_comp ?n t)"
    "rb_qty b' = rb_qty c1 - sum_list (map t_amt us)" "buf_ok (mat_live nd) (b', mk_world m')" "set (rb_rs b') \<subseteq> set (rb_rs c1)"
    "others_kept c1 w (mk_world m') (snd ` set rs)"
    using Cons.IH[of c1 ?n "out @ [(t, x)]"] x(2) Cons.prems(2) ok by (auto simp del: append_assoc)
  obtain rx where rx: "w_res w x = Some rx" using x(4) by auto
  then obtain rx' where rx': "x \<notin> snd ` set rs" "w_res (mk_world m') x = Some rx'" "body rx' = body rx" "quantity rx' = quantity rx"
    using ih(8) x(3) unfolding others_kept_def by blast
  have "comp_at (mk_world m') x = comp_at w x" by (rule comp_at_cong[OF rx rx'(2,3)])
  moreover have "qty_at (mk_world m') x = t_amt t" using rx rx'(2,4) x(5) by (simp add: qty_at_def)
  moreover have "x \<notin> set (rb_rs b')" using x(3) ih(7) by auto
  ultimately have new: "qty_at (mk_world m') x = t_amt t \<and> x \<notin> set (rb_rs b') \<and> (sp_ignore_comp p \<longrightarrow> comp_at (mk_world m') x = asked_comp n t)"
    using x(10) by simp
  have old: "\<forall>(t, y) \<in> set rs. qty_at (mk_world m') y = t_amt t \<and> y \<notin> set (rb_rs b') \<and> (sp_ignore_comp p \<longrightarrow> comp_at (mk_world m') y = asked_comp n t)"
  proof (clarify)
    fix t' y assume m: "(t', y) \<in> set rs"
    then have "t' \<in> set us" using ih(2) by force
    then show "qty_at (mk_world m') y = t_amt t' \<and> y \<notin> set (rb_rs b') \<and> (sp_ignore_comp p \<longrightarrow> comp_at (mk_world m') y = asked_comp n t')"
      using ih(4) m ok by force
  qed
  have "others_kept c (mk_world n) (mk_world m') (snd ` set ((t, x) # rs))" unfolding others_kept_def
  proof (intro allI impI conjI)
    fix y r assume y: "y \<notin> set (rb_rs c)" "w_res (mk_world n) y = Some r"
    then obtain r1 where r1: "y \<noteq> x" "w_res w y = Some r1" "body r1 = body r" "quantity r1 = quantity r"
      using x(8) by (auto simp: others_kept_def)
    have "y \<notin> set (rb_rs c1)" using y(1) x(7) by auto
    then obtain r2 where "y \<notin> snd ` set rs" "w_res (mk_world m') y = Some r2" "body r2 = body r1" "quantity r2 = quantity r1"
      using ih(8) r1(2) unfolding others_kept_def by blast
    then show "y \<notin> snd ` set ((t, x) # rs)" "\<exists>r'. w_res (mk_world m') y = Some r' \<and> body r' = body r \<and> quantity r' = quantity r"
      using r1 by auto
  qed
  moreover have "sp_GetMatlTrades nd eps p (t # us) out (c, n) = (Inr (out @ (t, x) # rs), (b', m'))" using x(1) ih(1) by simp
  ultimately show ?case using ih(2,3,5-7) rx'(1) new old x(6,7)
    by (intro exI[of _ "(t, x) # rs"] exI[of _ b'] exI[of _ m']) auto
qed

text \<open>C18. A sell policy delivers what was traded. From a valid buffer of materials, with a decay mode
  other than lazy, it answers any list of trades of positive amounts that together do not exceed its
  inventory: no exception, one response per trade in the order of the trades, each a separate material of
  exactly the traded amount, and the buffer is valid and holds what is left. A policy that ignores
  compositions moreover gives each delivered material the composition that the target of its request has;
  for it the requests are assumed to be there, their targets to be materials outside the buffer.\<close>

theorem sell_policy_delivers:
  assumes "buf_ok (mat_live nd) (b, mk_world m)" "0 \<le> eps" "\<forall>t \<in> set ts. 0 < t_amt t" "sum_list (map t_amt ts) \<le> rb_qty b"
    and "sp_ignore_comp p \<Longrightarrow> \<forall>t \<in> set ts. asked_ok b m t"
  shows "\<exists>rs b' m'. sp_GetMatlTrades nd eps p ts [] (b, m) = (Inr rs, (b', m')) \<and> map fst rs = ts \<and> distinct (map snd rs) \<and>
    (\<forall>(t, x) \<in> set rs. qty_at (mk_world m') x = t_amt t \<and> x \<notin> set (rb_rs b') \<and>
       (sp_ignore_comp p \<longrightarrow> comp_at (mk_world m') x = asked_comp m t)) \<and>
    rb_qty b' = rb_qty b - sum_list (map t_amt ts) \<and> buf_ok (mat_live nd) (b', mk_world m')"
  using sell_policy_trades[where p = p and out = "[]", OF assms(2,1,3-5)] by auto

text \<open>Two tracked materials of 5 and 3 units, both of the first composition of the small instance, and the target of
  a request, of the second composition.\<close>

definition stock_res :: "ptr \<Rightarrow> double \<Rightarrow> resource" where
  "stock_res p q = \<lparr>state_id = int p, obj_id = int p, quantity = q, has_ctx = True, parent1 = 0, parent2 = 0, tracked = True,
     tracker_res = p, body = MatBody 1 0\<rparr>"

definition stock_world :: world where
  "stock_world = demo_world2\<lparr>w_res := [0 \<mapsto> (stock_res 0 6)\<lparr>tracked := False, body := MatBody 3 0\<rparr>, 2 \<mapsto> stock_res 2 5, 3 \<mapsto> stock_res 3 3],
     w_next := w_next demo_world2 + 4\<rparr>"

definition stock_buf :: resbuf where
  "stock_buf = \<lparr>rb_type = OfMaterial, rb_qty = 8, rb_cap = None, rb_rs = [2, 3], rb_present = [2, 3]\<rparr>"

lemma stock_comps: "w_comp stock_world 1 = Some \<lparr>comp_id = 1, comp_recorded = False, comp_atom = [],
    comp_mass = [(10010000, 6)], prev_decay = 0, decay_line = 0\<rparr>" "w_comp stock_world 3 \<noteq> None"
  by (simp_all add: stock_world_def demo_eval)

lemma stock_live: "mat_live demo_nd stock_world 2" "mat_live demo_nd stock_world 3"
proof -
  have "comp_inv stock_world" by (rule comp_inv_grow[OF demo_world2_inv]) (simp_all add: stock_world_def)
  moreover have "good_comp demo_nd stock_world 1"
    by (simp del: One_nat_def add: good_comp_def stock_comps mass_vec_def compmath_ValidNucs_def compmath_AllPositive_def demo_nd_def)
  moreover have "res_fresh stock_world" by (auto simp: res_fresh_def stock_world_def)
  moreover have "w_decay stock_world \<noteq> ''lazy''" by (simp add: stock_world_def demo_eval)
  ultimately show "mat_live demo_nd stock_world 2" "mat_live demo_nd stock_world 3"
    by (auto simp: mat_live_def sound_res_def stock_world_def stock_res_def good_comp_def)
qed

lemma stock_ok: "buf_ok (mat_live demo_nd) (stock_buf, stock_world)"
  using stock_live by (simp add: buf_ok_def stock_buf_def oset_inv_def) (simp add: qty_at_def stock_world_def stock_res_def)

definition seller :: sell_policy where
  "seller = sp_Set ''ore'' (MatlSellPolicy_new 1)"

theorem sell_policy_delivers_witness:
  "\<forall>ignore. \<exists>rs b' m'. sp_GetMatlTrades demo_nd 0 (seller\<lparr>sp_ignore_comp := ignore\<rparr>)
       [\<lparr>t_request = 0, t_bid = 2, t_amt = 6, t_price = 1\<rparr>, \<lparr>t_request = 0, t_bid = 2, t_amt = 1, t_price = 1\<rparr>] []
       (stock_buf, set_world stock_world demo_market) = (Inr rs, (b', m')) \<and> length rs = 2 \<and> rb_qty b' = 1 \<and>
     (ignore \<longrightarrow> (\<forall>(t, x) \<in> set rs. comp_at (mk_world m') x = Some 3))"
proof
  fix ignore
  let ?ts = "[\<lparr>t_request = 0, t_bid = 2, t_amt = 6, t_price = 1\<rparr>, \<lparr>t_request = 0, t_bid = 2, t_amt = 1, t_price = 1\<rparr>]"
    and ?p = "seller\<lparr>sp_ignore_comp := ignore\<rparr>" and ?m = "set_world stock_world demo_market"
  have a: "asked_ok stock_buf ?m t \<and> asked_comp ?m t = Some 3" if "t \<in> set ?ts" for t
  proof -
    have "comp_at stock_world 0 = Some 3" by (simp add: comp_at_def stock_world_def)
    then show ?thesis using that stock_comps(2) by (auto simp: asked_ok_def asked_comp_def set_world_def demo_market_def stock_buf_def)
  qed
  obtain rs b' m' where r: "sp_GetMatlTrades demo_nd 0 ?p ?ts [] (stock_buf, ?m) = (Inr rs, (b', m'))" "map fst rs = ?ts"
    "\<forall>(t, x) \<in> set rs. qty_at (mk_world m') x = t_amt t \<and> x \<notin> set (rb_rs b') \<and> (sp_ignore_comp ?p \<longrightarrow> comp_at (mk_world m') x = asked_comp ?m t)"
    "rb_qty b' = rb_qty stock_buf - sum_list (map t_amt ?ts)"
    using sell_policy_delivers [of demo_nd stock_buf ?m 0 ?ts ?p] stock_ok a by (force simp: stock_buf_def set_world_def)
  have "comp_at (mk_world m') x = Some 3" if "(t, x) \<in> set rs" ignore for t x
    using r(2,3) a[of t] that by (force dest: arg_cong[of _ _ set])
  moreover have "length rs = 2" using arg_cong[OF r(2), of length] by simp
  ultimately show "\<exists>rs b' m'. sp_GetMatlTrades demo_nd 0 ?p ?ts [] (stock_buf, ?m) = (Inr rs, (b', m')) \<and> length rs = 2 \<and> rb_qty b' = 1 \<and>
     (ignore \<longrightarrow> (\<forall>(t, x) \<in> set rs. comp_at (mk_world m') x = Some 3))"
    using r(1,4) by (auto simp: stock_buf_def)
qed

text \<open>C40. A quantized seller that cannot fill one quantum brings the simulation down. When the buffer is
  neither empty nor below the tolerance but holds less than the quantum, the bid limit is 0 and the
  capacity constraint built from it refuses the value: asking for bids throws instead of giving none.\<close>

theorem quantized_seller_throws:
  assumes "0 < sp_quantize p" "0 \<le> sp_throughput p" "rb_rs b \<noteq> []" "eps \<le> rb_qty b" "0 \<le> rb_qty b" "rb_qty b < sp_quantize p"
  shows "fst (sp_GetMatlBids nd eps eps_rsrc p (b, m)) = Inl ValueError"
proof -
  have "\<lfloor>rb_qty b / sp_quantize p\<rfloor> = 0" using assms(1,5,6) by (simp add: floor_eq_iff)
  then have "sp_Limit p b = Some 0" using assms(1,2) by (simp add: sp_Limit_def sp_Excl_def cast_int_def Let_def)
  then show ?thesis using assms(3,4)
    by (simp add: sp_GetMatlBids_def BidPortfolio_new_def Let_def on_market_def CapacityConstraint_new_def throw_def)
qed

theorem quantized_seller_throws_witness:
  "fst (sp_GetMatlBids demo_nd 0 0 (seller\<lparr>sp_quantize := 10\<rparr>) (stock_buf, set_world stock_world demo_market)) = Inl ValueError"
  by (rule quantized_seller_throws) (simp_all add: seller_def sp_Set_def MatlSellPolicy_new_def stock_buf_def DBL_MAX_def)

section \<open>Buying\<close>

lemma omap_put_snd: "snd ` set (omap_put k v m) \<subseteq> insert v (snd ` set m)"
  by (induction k v m rule: omap_put.induct) auto

lemma omap_push_group: "set (map fst g) \<subseteq> {i} \<Longrightarrow> length g \<le> 1 \<Longrightarrow> set (map fst (omap_push i r g)) \<subseteq> {i} \<and> length (omap_push i r g) \<le> 1"
  by (cases g) (auto simp: omap_push_def)

lemma rp_AddRequest_fresh:
  assumes "mk_rps s port = Some rp" "rp_requester rp \<in> {None, Some a}" "mk_qty s target = Some q"
  shows "\<exists>r s' rp'. rp_AddRequest port target (Some a) commod pref excl None s = (Inr r, s') \<and> mk_rps s' port = Some rp' \<and>
    rp_requester rp' = Some a \<and> rp_qty rp' = rp_qty rp + q \<and> length (rp_requests rp') = Suc (length (rp_requests rp)) \<and>
    mass_coeffs rp' = omap_put r 1 (mass_coeffs rp)"
  using assms by (auto simp: rp_AddRequest_def Request_Create_def VerifyRequester_def upd_rp_def Let_def ok_def)

lemma yp_requests_spec:
  assumes "mk_rps s port = Some rp" "rp_requester rp \<in> {None, Some (yp_self p)}" "set (map fst g) \<subseteq> {i}" "length g \<le> 1"
    "set (map snd (mass_coeffs rp)) \<subseteq> {1}"
  shows "\<exists>g' s' rp'. yp_requests p port i amt ds g s = (Inr g', s') \<and> length g' \<le> 1 \<and> mk_rps s' port = Some rp' \<and>
    rp_qty rp' = rp_qty rp + real (length ds) * amt \<and> length (rp_requests rp') = length (rp_requests rp) + length ds \<and>
    set (map snd (mass_coeffs rp')) \<subseteq> {1}"
  using assms
proof (induction ds arbitrary: g s rp)
  case Nil
  then show ?case by (simp add: ok_def)
next
  case (Cons d ds)
  obtain commod e where d: "d = (commod, e)" by (cases d)
  obtain x w where x: "Material_CreateUntracked amt (cd_comp e) (mk_world s) = (x, w)" by fastforce
  then have q: "mk_qty (set_world w s) x = Some amt" and r: "mk_rps (set_world w s) port = Some rp"
    using Cons.prems(1) by (auto simp: Material_CreateUntracked_def Material_new_def new_resource_def DontTrack_def set_world_def Let_def)
  obtain r s1 rp1 where a: "rp_AddRequest port x (Some (yp_self p)) commod (cd_pref e) (yp_Excl p) None (set_world w s) = (Inr r, s1)"
    "mk_rps s1 port = Some rp1" "rp_requester rp1 = Some (yp_self p)" "rp_qty rp1 = rp_qty rp + amt"
    "length (rp_requests rp1) = Suc (length (rp_requests rp))" "mass_coeffs rp1 = omap_put r 1 (mass_coeffs rp)"
    using rp_AddRequest_fresh[OF r Cons.prems(2) q] by blast
  have "snd ` set (mass_coeffs rp) \<subseteq> {1}" using Cons.prems(5) by simp
  then have "set (map snd (mass_coeffs rp1)) \<subseteq> {1}" using subset_trans[OF omap_put_snd[of r 1 "mass_coeffs rp"], of "{1}"] a(6) by simp
  from Cons.IH[OF a(2) _ _ _ this, of "omap_push i r g"] omap_push_group[OF Cons.prems(3,4), of r] a(1,3-5) x
  show ?case by (auto simp: d algebra_simps)
qed

text \<open>A buy policy demands its amount once per commodity. The group of the requests that should be
  alternatives has one entry in every portfolio, so that the test for more than one never succeeds
  and the requests are never made mutual: a portfolio for k commodities has k requests, all with
  coefficient 1, and asks for k times the amount wanted.\<close>

theorem buyer_never_mutual:
  "\<exists>port s' rp. yp_portfolio p amt i s = (Inr port, s') \<and> mk_rps s' port = Some rp \<and>
     rp_qty rp = real (length (yp_commod_details p)) * amt \<and> length (rp_requests rp) = length (yp_commod_details p) \<and>
     set (map snd (mass_coeffs rp)) \<subseteq> {1}"
proof -
  obtain port s1 where n: "RequestPortfolio_new s = (port, s1)" by fastforce
  then have "mk_rps s1 port = Some \<lparr>rp_requests = [], mass_coeffs = [], rp_constraints = [], rp_qty = 0, rp_requester = None\<rparr>"
    by (auto simp: RequestPortfolio_new_def Let_def)
  from yp_requests_spec[OF this, of p "[]" i amt "yp_commod_details p"] n show ?thesis
    by (auto simp: yp_portfolio_def ok_def)
qed

end
