(* ===== verification/Prog_Translator.thy ===== *)
theory Prog_Translator
  imports Greedy_Solver
begin

text \<open>
  prog_translator.{h,cc} and prog_solver.{h,cc}: the exchange graph as a mathematical program, for
  the COIN solvers. The solver library is a parameter: a function from the program that is loaded
  into it to the values of the columns and the objective. \<open>CoinPackedMatrix\<close> and \<open>CoinPackedVector\<close>
  are lists of what the code appends and inserts. \<open>infty\<close> is the interface's value for infinity.

  The map \<open>unit_capacities\<close> of a node has arcs as keys, and the translator reads the members of these
  arc objects. The graph keeps the two nodes of a key only, so that the objects are an argument:
  \<open>kept n k\<close> is the arc that the map of node \<open>n\<close> holds at the key \<open>k\<close>.
\<close>

section \<open>The translator\<close>

type_synonym prow = "(int \<times> double) list"

record prog_ctx =
  obj_coeffs :: "xdouble list"
  row_ubs :: "double list"
  row_lbs :: "double list"
  col_ubs :: "double list"
  col_lbs :: "double list"
  pm_cols :: int
  pm_rows :: "prow list"

record prog_translator =
  pt_graph :: graph
  pt_excl :: bool
  arc_offset :: int
  pt_ctx :: prog_ctx
  pseudo_cost :: xdouble

definition ProgTranslator_Init :: "prog_translator \<Rightarrow> prog_translator" where
  "ProgTranslator_Init t =
     (let off = length (arcs (pt_graph t)); n_cols = off + length (request_groups (pt_graph t))
      in t\<lparr>arc_offset := int off,
           pt_ctx := (pt_ctx t)\<lparr>obj_coeffs := replicate n_cols (Fin 0), col_ubs := replicate n_cols 0, col_lbs := replicate n_cols 0,
             pm_cols := 0, pm_rows := []\<rparr>\<rparr>)"

text \<open>The four constructors; the absent arguments are false and the largest double.\<close>

definition ProgTranslator_new :: "graph \<Rightarrow> bool \<Rightarrow> xdouble \<Rightarrow> prog_translator" where
  "ProgTranslator_new g excl cost = ProgTranslator_Init
     \<lparr>pt_graph = g, pt_excl = excl, arc_offset = 0,
      pt_ctx = \<lparr>obj_coeffs = [], row_ubs = [], row_lbs = [], col_ubs = [], col_lbs = [], pm_cols = 0, pm_rows = []\<rparr>,
      pseudo_cost = cost\<rparr>"

definition CheckPref :: "double \<Rightarrow> prog_translator \<Rightarrow> (prog_translator, unit) exec" where
  "CheckPref pref t = (if pref \<le> 0 then throw ValueError t else ok () t)"

text \<open>Assigning to \<open>v[i]\<close> outside the vector is undefined.\<close>

definition vec_put :: "int \<Rightarrow> 'a \<Rightarrow> 'a list \<Rightarrow> 'a list option" where
  "vec_put i x xs = (if 0 \<le> i \<and> i < int (length xs) then Some (xs[nat i := x]) else None)"

definition set_col :: "int \<Rightarrow> xdouble \<Rightarrow> double \<Rightarrow> double \<Rightarrow> prog_translator \<Rightarrow> (prog_translator, unit) exec" where
  "set_col i c lb ub t = deref (vec_put i c (obj_coeffs (pt_ctx t))) t (\<lambda>cs.
     deref (vec_put i lb (col_lbs (pt_ctx t))) t (\<lambda>ls. deref (vec_put i ub (col_ubs (pt_ctx t))) t (\<lambda>us.
       ok () (t\<lparr>pt_ctx := (pt_ctx t)\<lparr>obj_coeffs := cs, col_lbs := ls, col_ubs := us\<rparr>\<rparr>))))"

text \<open>\<open>arc_ids()[a]\<close> adds the id 0 for an arc that is missing.\<close>

definition arc_id :: "akey \<Rightarrow> prog_translator \<Rightarrow> int \<times> prog_translator" where
  "arc_id k t = (omap_sub 0 (arc_ids (pt_graph t)) k,
     t\<lparr>pt_graph := (pt_graph t)\<lparr>arc_ids := omap_touch 0 k (arc_ids (pt_graph t))\<rparr>\<rparr>)"

definition add_row :: "double \<Rightarrow> double \<Rightarrow> prow \<Rightarrow> prog_translator \<Rightarrow> prog_translator" where
  "add_row lb ub row t = t\<lparr>pt_ctx := (pt_ctx t)\<lparr>row_lbs := row_lbs (pt_ctx t) @ [lb], row_ubs := row_ubs (pt_ctx t) @ [ub],
     pm_rows := pm_rows (pt_ctx t) @ [row]\<rparr>\<rparr>"

definition arc_coeff :: "bool \<Rightarrow> arc \<Rightarrow> double \<Rightarrow> double" where
  "arc_coeff excl a c = (if excl \<and> a_exclusive a then c * a_excl_val a else c)"

text \<open>One coefficient into each capacity row; a unit capacity without a row is undefined.\<close>

fun put_coeffs :: "int \<Rightarrow> (double \<Rightarrow> double) \<Rightarrow> double list \<Rightarrow> prow list \<Rightarrow> prow list option" where
  "put_coeffs i f [] rows = Some rows"
| "put_coeffs i f (u # us) [] = None"
| "put_coeffs i f (u # us) (r # rows) = map_option (\<lambda>rs. (r @ [(i, f u)]) # rs) (put_coeffs i f us rows)"

definition arc_ub :: "double \<Rightarrow> bool \<Rightarrow> arc \<Rightarrow> double \<Rightarrow> double" where
  "arc_ub infty excl a qty = (if excl \<and> a_exclusive a then 1 else min qty infty)"

fun xlate_arcs :: "double \<Rightarrow> bool \<Rightarrow> (akey \<Rightarrow> arc) \<Rightarrow> double \<Rightarrow> (akey \<times> double list) list \<Rightarrow> prow list \<Rightarrow> prog_translator \<Rightarrow>
    (prog_translator, prow list) exec" where
  "xlate_arcs infty request kept qty [] rows t = ok rows t"
| "xlate_arcs infty request kept qty ((k, ucaps) # xs) rows t =
     (let a = kept k; (i, t1) = arc_id k t
      in deref (put_coeffs i (arc_coeff (pt_excl t) a) ucaps rows) t1 (\<lambda>rows1.
         andThen (if request
                  then andThen (CheckPref (a_pref a) t1) (\<lambda>_. set_col i (Cost a (pt_excl t)) 0 (arc_ub infty (pt_excl t) a qty))
                  else ok () t1) (\<lambda>_. xlate_arcs infty request kept qty xs rows1)))"

fun xlate_nodes :: "double \<Rightarrow> bool \<Rightarrow> (ptr \<Rightarrow> akey \<Rightarrow> arc) \<Rightarrow> ptr list \<Rightarrow> prow list \<Rightarrow> prog_translator \<Rightarrow>
    (prog_translator, prow list) exec" where
  "xlate_nodes infty request kept [] rows t = ok rows t"
| "xlate_nodes infty request kept (n # ns) rows t = deref (x_nodes (pt_graph t) n) t (\<lambda>nd.
     andThen (xlate_arcs infty request (kept n) (n_qty nd) (unit_capacities nd) rows t) (xlate_nodes infty request kept ns))"

fun add_cap_rows :: "double \<Rightarrow> int option \<Rightarrow> double list \<Rightarrow> prow list \<Rightarrow> prog_translator \<Rightarrow> prog_translator" where
  "add_cap_rows infty faux (c # cs) (r # rs) t = add_cap_rows infty faux cs rs
     (case faux of Some i \<Rightarrow> add_row (min c (10 ^ 15)) infty (r @ [(i, 1)]) t | None \<Rightarrow> add_row 0 c r t)"
| "add_cap_rows infty faux _ _ t = t"

fun row_ids :: "arc list \<Rightarrow> prow \<Rightarrow> prog_translator \<Rightarrow> prow \<times> prog_translator" where
  "row_ids [] row t = (row, t)"
| "row_ids (a # as) row t = (case arc_id (arc_key a) t of (i, t1) \<Rightarrow> row_ids as (row @ [(i, 1)]) t1)"

fun excl_row :: "ptr list \<Rightarrow> prow \<Rightarrow> prog_translator \<Rightarrow> prow \<times> prog_translator" where
  "excl_row [] row t = (row, t)"
| "excl_row (n # ns) row t =
     (let as = omap_sub [] (node_arc_map (pt_graph t)) n;
          t1 = t\<lparr>pt_graph := (pt_graph t)\<lparr>node_arc_map := omap_touch [] n (node_arc_map (pt_graph t))\<rparr>\<rparr>;
          (row1, t2) = row_ids as row t1
      in excl_row ns row1 t2)"

fun excl_rows :: "ptr list list \<Rightarrow> prow list \<Rightarrow> prog_translator \<Rightarrow> prow list \<times> prog_translator" where
  "excl_rows [] rows t = (rows, t)"
| "excl_rows (g # gs) rows t =
     (case excl_row g [] t of (row, t1) \<Rightarrow> excl_rows gs (if row \<noteq> [] then rows @ [row] else rows) t1)"

definition XlateGrp :: "double \<Rightarrow> (ptr \<Rightarrow> akey \<Rightarrow> arc) \<Rightarrow> bool \<Rightarrow> ptr \<Rightarrow> prog_translator \<Rightarrow> (prog_translator, unit) exec" where
  "XlateGrp infty kept request p t = deref (x_groups (pt_graph t) p) t (\<lambda>gr.
     if request \<and> \<not> HasArcs p (pt_graph t) then ok () t
     else andThen (xlate_nodes infty request kept (g_nodes gr) (replicate (length (g_capacities gr)) []) t) (\<lambda>rows t1.
       let faux = (if request then Some (arc_offset t1) else None);
           t2 = (if request then t1\<lparr>arc_offset := arc_offset t1 + 1\<rparr> else t1);
           t3 = add_cap_rows infty faux (g_capacities gr) rows t2
       in ok () (if pt_excl t3 then (case excl_rows (g_excl_groups gr) [] t3 of
            (rs, t4) \<Rightarrow> foldl (\<lambda>t r. add_row 0 1 r t) t4 rs) else t3)))"

definition ProgTranslator_Translate :: "double \<Rightarrow> (ptr \<Rightarrow> akey \<Rightarrow> arc) \<Rightarrow> prog_translator \<Rightarrow> (prog_translator, unit) exec" where
  "ProgTranslator_Translate infty kept t =
     (let g = pt_graph t;
          nfalse = length (filter (\<lambda>p. HasArcs p g) (request_groups g));
          t1 = t\<lparr>pt_ctx := (pt_ctx t)\<lparr>pm_cols := int (length (arcs g) + nfalse)\<rparr>\<rparr>
      in andThen (foreach (XlateGrp infty kept False) (supply_groups g) t1) (\<lambda>_ t2.
         andThen (foreach (XlateGrp infty kept True) (request_groups g) t2) (\<lambda>_ t3.
           foreach (\<lambda>i t. set_col i (pseudo_cost t) 0 infty t) [int (length (arcs g))..arc_offset t3 - 1] t3)))"

section \<open>The program and its solution\<close>

text \<open>What \<open>Populate\<close> loads into the interface: the context and the integer columns.\<close>

record lprog =
  lp_ctx :: prog_ctx
  lp_ints :: "int list"

fun integer_cols :: "arc list \<Rightarrow> int list \<Rightarrow> prog_translator \<Rightarrow> int list \<times> prog_translator" where
  "integer_cols [] js t = (js, t)"
| "integer_cols (a # as) js t =
     (if a_exclusive a then (case arc_id (arc_key a) t of (i, t1) \<Rightarrow> integer_cols as (js @ [i]) t1) else integer_cols as js t)"

definition Populate :: "prog_translator \<Rightarrow> lprog \<times> prog_translator" where
  "Populate t = (case (if pt_excl t then integer_cols (arcs (pt_graph t)) [] t else ([], t)) of
     (js, t1) \<Rightarrow> (\<lparr>lp_ctx = pt_ctx t, lp_ints = js\<rparr>, t1))"

definition ToProg :: "double \<Rightarrow> (ptr \<Rightarrow> akey \<Rightarrow> arc) \<Rightarrow> prog_translator \<Rightarrow> (prog_translator, lprog) exec" where
  "ToProg infty kept t = andThen (ProgTranslator_Translate infty kept t) (\<lambda>_ t1. case Populate t1 of (lp, t2) \<Rightarrow> ok lp t2)"

fun from_prog :: "double \<Rightarrow> (nat \<Rightarrow> double) \<Rightarrow> nat list \<Rightarrow> prog_translator \<Rightarrow> (prog_translator, unit) exec" where
  "from_prog eps sol [] t = ok () t"
| "from_prog eps sol (i # is) t = (case map_of (arc_by_id (pt_graph t)) (int i) of
     None \<Rightarrow> throw OutOfRange t
   | Some a \<Rightarrow> (let flow = (if pt_excl t \<and> a_exclusive a then sol i * a_excl_val a else sol i)
       in from_prog eps sol is (if eps < flow then t\<lparr>pt_graph := AddMatch a flow (pt_graph t)\<rparr> else t)))"

definition FromProg :: "double \<Rightarrow> (nat \<Rightarrow> double) \<Rightarrow> prog_translator \<Rightarrow> (prog_translator, unit) exec" where
  "FromProg eps sol t = from_prog eps sol [0..<length (arcs (pt_graph t))] t"

section \<open>The solver\<close>

text \<open>\<open>osi\<close> is the library: it is given the program and the objective of the greedy solution, and may
  throw. A solver type other than the two known ones is refused before anything is done.\<close>

definition SolverFactory_get :: "string \<Rightarrow> 's \<Rightarrow> ('s, unit) exec" where
  "SolverFactory_get ty s = (if ty = ''clp'' \<or> ty = ''cbc'' then ok () s else throw ValueError s)"

type_synonym osi = "lprog \<Rightarrow> xdouble \<Rightarrow> exn + (nat \<Rightarrow> double) \<times> double"

definition ProgSolver_SolveGraph :: "double \<Rightarrow> (double \<Rightarrow> double \<Rightarrow> double) \<Rightarrow> double \<Rightarrow> (ptr \<Rightarrow> akey \<Rightarrow> arc) \<Rightarrow> osi \<Rightarrow> string \<Rightarrow> bool \<Rightarrow>
    graph \<Rightarrow> (graph, double) exec" where
  "ProgSolver_SolveGraph eps fdist infty kept osi solver_t exclusive_orders g =
     andThen (SolverFactory_get solver_t g) (\<lambda>_ g.
     case Solve eps fdist (Some g) (GreedySolver_new exclusive_orders
            (Some \<lparr>avg_prefs = [], commod_weights = [], group_weights = []\<rparr>) ExchangeGraph_new) of
       (Inl e, sv) \<Rightarrow> throw e (gs_graph sv)
     | (Inr greedy_obj, sv) \<Rightarrow>
         let g1 = ClearMatches (gs_graph sv)
         in (case ToProg infty kept (ProgTranslator_new g1 exclusive_orders (PseudoCost exclusive_orders g1)) of
           (Inl e, t) \<Rightarrow> throw e (pt_graph t)
         | (Inr lp, t) \<Rightarrow> (case osi lp greedy_obj of
             Inl e \<Rightarrow> throw e (pt_graph t)
           | Inr (sol, obj) \<Rightarrow> (case FromProg eps sol t of
               (Inl e, t1) \<Rightarrow> throw e (pt_graph t1)
             | (Inr _, t1) \<Rightarrow> ok obj (pt_graph t1)))))"

end
