(* ===== verification/Prog_Correct.thy ===== *)
theory Prog_Correct
  imports Prog_Translator Greedy_Correct
begin

text \<open>
  The translation to a mathematical program, proved: the rows and columns the translator builds, as
  a function of the graph, and what a solution that satisfies them means for the exchange.
\<close>

section \<open>Graphs that can be translated\<close>

definition arcs_indexed :: "graph \<Rightarrow> bool" where
  "arcs_indexed g \<longleftrightarrow> (\<forall>i < length (arcs g). map_of (arc_ids g) (arc_key (arcs g ! i)) = Some (int i) \<and>
     map_of (arc_by_id g) (int i) = Some (arcs g ! i))"

definition node_caps :: "graph \<Rightarrow> ptr \<Rightarrow> (akey \<times> double list) list" where
  "node_caps g n = (case x_nodes g n of None \<Rightarrow> [] | Some nd \<Rightarrow> unit_capacities nd)"

definition gexcl :: "graph \<Rightarrow> ptr \<Rightarrow> ptr list list" where
  "gexcl g p = (case x_groups g p of None \<Rightarrow> [] | Some gr \<Rightarrow> g_excl_groups gr)"

definition node_arcs :: "graph \<Rightarrow> ptr \<Rightarrow> arc list" where
  "node_arcs g n = omap_sub [] (node_arc_map g) n"

text \<open>The index of an arc in the vector of arcs is its id.\<close>

definition aid :: "graph \<Rightarrow> akey \<Rightarrow> int" where
  "aid g k = omap_sub 0 (arc_ids g) k"

definition arc_keys :: "graph \<Rightarrow> akey set" where
  "arc_keys g = arc_key ` set (arcs g)"

definition prog_graph :: "(ptr \<Rightarrow> akey \<Rightarrow> arc) \<Rightarrow> graph \<Rightarrow> bool" where
  "prog_graph kept g \<longleftrightarrow> wf_graph g \<and> arcs_indexed g \<and>
     (\<forall>p \<in> set (request_groups g @ supply_groups g). \<forall>n \<in> set (gnodes g p). distinct (map fst (node_caps g n)) \<and>
        (\<forall>k \<in> fst ` set (node_caps g n). \<exists>a \<in> set (arcs g). arc_key a = k \<and> kept n k = a \<and> n \<in> {a_unode a, a_vnode a})) \<and>
     (\<forall>a \<in> set (arcs g). good_arc g a \<and> 0 < a_pref a \<and> 0 \<le> a_excl_val a \<and>
        a_unode a \<in> set (gnodes g (the (ngroup g (a_unode a)))) \<and> a_vnode a \<in> set (gnodes g (the (ngroup g (a_vnode a))))) \<and>
     (\<forall>p \<in> set (request_groups g @ supply_groups g). \<forall>ns \<in> set (gexcl g p). \<forall>n \<in> set ns. n \<in> set (gnodes g p) \<and>
        (\<forall>a \<in> set (node_arcs g n). arc_key a \<in> arc_keys g \<and> n \<in> {a_unode a, a_vnode a}))"

lemma aid_index: "arcs_indexed g \<Longrightarrow> i < length (arcs g) \<Longrightarrow> aid g (arc_key (arcs g ! i)) = int i"
  by (simp add: arcs_indexed_def aid_def omap_sub_def)

lemma aid_known:
  assumes "arcs_indexed g" "k \<in> arc_keys g"
  shows "map_of (arc_ids g) k = Some (aid g k)" "0 \<le> aid g k" "aid g k < int (length (arcs g))" "arc_key (arcs g ! nat (aid g k)) = k"
proof -
  obtain i where i: "i < length (arcs g)" "k = arc_key (arcs g ! i)" using assms(2) by (auto simp: arc_keys_def in_set_conv_nth)
  have "map_of (arc_ids g) k = Some (int i)" using assms(1) i by (simp add: arcs_indexed_def)
  then show "map_of (arc_ids g) k = Some (aid g k)" "0 \<le> aid g k" "aid g k < int (length (arcs g))" "arc_key (arcs g ! nat (aid g k)) = k"
    using i by (simp_all add: aid_def omap_sub_def)
qed

section \<open>The rows as a function of the graph\<close>

definition cap_row :: "(ptr \<Rightarrow> akey \<Rightarrow> arc) \<Rightarrow> bool \<Rightarrow> graph \<Rightarrow> ptr list \<Rightarrow> nat \<Rightarrow> prow" where
  "cap_row kept excl g ns j = concat (map (\<lambda>n. map (\<lambda>(k, us). (aid g k, arc_coeff excl (kept n k) (us ! j))) (node_caps g n)) ns)"

definition excl_of :: "graph \<Rightarrow> ptr list \<Rightarrow> prow" where
  "excl_of g ns = concat (map (\<lambda>n. map (\<lambda>a. (aid g (arc_key a), 1)) (node_arcs g n)) ns)"

definition bounded_row :: "double \<Rightarrow> int option \<Rightarrow> double \<Rightarrow> prow \<Rightarrow> double \<times> double \<times> prow" where
  "bounded_row infty faux c r = (case faux of Some i \<Rightarrow> (min c (10 ^ 15), infty, r @ [(i, 1)]) | None \<Rightarrow> (0, c, r))"

definition group_rows :: "(ptr \<Rightarrow> akey \<Rightarrow> arc) \<Rightarrow> bool \<Rightarrow> double \<Rightarrow> graph \<Rightarrow> int option \<Rightarrow> ptr \<Rightarrow> (double \<times> double \<times> prow) list" where
  "group_rows kept excl infty g faux p =
     map (\<lambda>j. bounded_row infty faux (gcaps g p ! j) (cap_row kept excl g (gnodes g p) j)) [0..<length (gcaps g p)] @
     (if excl then map (\<lambda>r. (0, 1, r)) (filter (\<lambda>r. r \<noteq> []) (map (excl_of g) (gexcl g p))) else [])"

text \<open>The rows of a translator with their bounds.\<close>

definition rows_ok :: "prog_translator \<Rightarrow> bool" where
  "rows_ok t \<longleftrightarrow> length (row_lbs (pt_ctx t)) = length (pm_rows (pt_ctx t)) \<and> length (row_ubs (pt_ctx t)) = length (pm_rows (pt_ctx t))"

definition ctx_rows :: "prog_ctx \<Rightarrow> (double \<times> double \<times> prow) list" where
  "ctx_rows c = zip (row_lbs c) (zip (row_ubs c) (pm_rows c))"

abbreviation trows :: "prog_translator \<Rightarrow> (double \<times> double \<times> prow) list" where
  "trows t \<equiv> ctx_rows (pt_ctx t)"

lemma add_row_trows:
  assumes "rows_ok t"
  shows "trows (add_row lb ub r t) = trows t @ [(lb, ub, r)]" "rows_ok (add_row lb ub r t)"
  using assms by (simp_all add: rows_ok_def ctx_rows_def add_row_def)

section \<open>The state of a translation\<close>

text \<open>Translating reads the graph through maps that add missing entries; nothing else of it changes.\<close>

definition same_graph :: "graph \<Rightarrow> graph \<Rightarrow> bool" where
  "same_graph g g' \<longleftrightarrow> (\<exists>m. g' = g\<lparr>node_arc_map := m\<rparr> \<and> (\<forall>n. omap_sub [] m n = omap_sub [] (node_arc_map g) n))"

lemma same_graph_refl: "same_graph g g"
  unfolding same_graph_def by (rule exI[of _ "node_arc_map g"]) simp

lemma same_graphD:
  assumes "same_graph g g'"
  shows "x_nodes g' = x_nodes g" "x_groups g' = x_groups g" "request_groups g' = request_groups g" "supply_groups g' = supply_groups g"
    "arcs g' = arcs g" "arc_ids g' = arc_ids g" "arc_by_id g' = arc_by_id g" "matches g' = matches g" "node_arcs g' n = node_arcs g n"
    "HasArcs p g' = HasArcs p g"
  using assms by (auto simp: same_graph_def node_arcs_def HasArcs_def cong: option.case_cong)

lemma same_graph_touch:
  "same_graph g g' \<Longrightarrow> same_graph g (g'\<lparr>node_arc_map := omap_touch [] n (node_arc_map g')\<rparr>)"
  by (auto simp: same_graph_def)

definition col_at :: "prog_translator \<Rightarrow> nat \<Rightarrow> xdouble \<times> double \<times> double" where
  "col_at t i = (obj_coeffs (pt_ctx t) ! i, col_lbs (pt_ctx t) ! i, col_ubs (pt_ctx t) ! i)"

definition arc_col :: "double \<Rightarrow> bool \<Rightarrow> graph \<Rightarrow> arc \<Rightarrow> xdouble \<times> double \<times> double" where
  "arc_col infty excl g a = (Cost a excl, 0, arc_ub infty excl a (nqty g (a_unode a)))"

text \<open>\<open>D\<close> are the columns that are set so far.\<close>

definition tinv :: "double \<Rightarrow> bool \<Rightarrow> graph \<Rightarrow> nat set \<Rightarrow> prog_translator \<Rightarrow> bool" where
  "tinv infty excl g D t \<longleftrightarrow> same_graph g (pt_graph t) \<and> pt_excl t = excl \<and> rows_ok t \<and>
     (let n = length (arcs g) + length (request_groups g)
      in length (obj_coeffs (pt_ctx t)) = n \<and> length (col_lbs (pt_ctx t)) = n \<and> length (col_ubs (pt_ctx t)) = n) \<and>
     (\<forall>i < length (arcs g). col_at t i = (if i \<in> D then arc_col infty excl g (arcs g ! i) else (Fin 0, 0, 0)))"

text \<open>What a step leaves alone but the graph and the columns.\<close>

definition xframe :: "prog_translator \<Rightarrow> prog_translator \<Rightarrow> bool" where
  "xframe t t' \<longleftrightarrow> trows t' = trows t \<and> arc_offset t' = arc_offset t \<and> pseudo_cost t' = pseudo_cost t \<and>
     pm_cols (pt_ctx t') = pm_cols (pt_ctx t) \<and>
     (\<forall>i \<ge> length (arcs (pt_graph t)). col_at t' i = col_at t i) \<and> arcs (pt_graph t') = arcs (pt_graph t)"

lemma xframe_refl: "xframe t t"
  by (simp add: xframe_def)

lemma xframe_trans: "xframe t t' \<Longrightarrow> xframe t' t'' \<Longrightarrow> xframe t t''"
  by (simp add: xframe_def)

lemma arc_id_known:
  assumes "same_graph g (pt_graph t)" "arcs_indexed g" "k \<in> arc_keys g"
  shows "arc_id k t = (aid g k, t)"
  using aid_known(1)[OF assms(2,3)] same_graphD(6)[OF assms(1)] by (simp add: arc_id_def aid_def)

lemma put_coeffs_all:
  "length us = length rows \<Longrightarrow> put_coeffs i f us rows = Some (map (\<lambda>j. rows ! j @ [(i, f (us ! j))]) [0..<length rows])"
proof (induction us arbitrary: rows)
  case (Cons u us)
  then obtain r rs where r: "rows = r # rs" "length us = length rs" by (cases rows) auto
  then show ?case using Cons.IH[OF r(2)] by (simp add: map_upt_Suc del: upt_Suc)
qed simp

lemma set_col_ok:
  assumes t: "tinv infty excl g D t" and i: "i < length (arcs g)" "a = arcs g ! i" "q = nqty g (a_unode a)"
  shows "\<exists>t'. set_col (int i) (Cost a excl) 0 (arc_ub infty excl a q) t = (Inr (), t') \<and> tinv infty excl g (insert i D) t' \<and> xframe t t'"
proof -
  define n where "n = length (arcs g) + length (request_groups g)"
  have l: "length (obj_coeffs (pt_ctx t)) = n" "length (col_lbs (pt_ctx t)) = n" "length (col_ubs (pt_ctx t)) = n" "i < n"
    using t i by (simp_all add: tinv_def n_def Let_def)
  let ?t = "t\<lparr>pt_ctx := (pt_ctx t)\<lparr>obj_coeffs := (obj_coeffs (pt_ctx t))[i := Cost a excl], col_lbs := (col_lbs (pt_ctx t))[i := 0],
    col_ubs := (col_ubs (pt_ctx t))[i := arc_ub infty excl a q]\<rparr>\<rparr>"
  have "set_col (int i) (Cost a excl) 0 (arc_ub infty excl a q) t = (Inr (), ?t)" using l by (simp add: set_col_def vec_put_def ok_def)
  moreover have "col_at ?t j = (if j = i then arc_col infty excl g a else col_at t j)" for j
    using l i(3) by (simp add: col_at_def arc_col_def nth_list_update)
  then have "tinv infty excl g (insert i D) ?t" "xframe t ?t" using t i same_graphD(5)[of g "pt_graph t"]
    by (auto simp: tinv_def rows_ok_def xframe_def ctx_rows_def)
  ultimately show ?thesis by blast
qed

section \<open>The loops\<close>

lemma xlate_arcs_ok:
  assumes ix: "arcs_indexed g" and t: "tinv infty excl g D t"
    and xs: "\<And>k us. (k, us) \<in> set xs \<Longrightarrow> length us = length rows \<and> k \<in> arc_keys g \<and> kept k = arcs g ! nat (aid g k) \<and>
      (request \<longrightarrow> 0 < a_pref (kept k) \<and> qty = nqty g (a_unode (kept k)))"
  shows "\<exists>t'. xlate_arcs infty request kept qty xs rows t =
      (Inr (map (\<lambda>j. rows ! j @ map (\<lambda>(k, us). (aid g k, arc_coeff excl (kept k) (us ! j))) xs) [0..<length rows]), t') \<and>
    tinv infty excl g (if request then D \<union> (\<lambda>(k, _). nat (aid g k)) ` set xs else D) t' \<and> xframe t t'"
  using t xs
proof (induction xs arbitrary: rows t D)
  case Nil
  then show ?case by (intro exI[of _ t]) (simp add: map_nth xframe_refl ok_def)
next
  case (Cons x xs)
  obtain k us where x: "x = (k, us)" by (cases x)
  have h: "length us = length rows" "k \<in> arc_keys g" "kept k = arcs g ! nat (aid g k)"
    "request \<Longrightarrow> 0 < a_pref (kept k)" "request \<Longrightarrow> qty = nqty g (a_unode (kept k))" using Cons.prems(2)[of k us] x by auto
  have s: "same_graph g (pt_graph t)" "pt_excl t = excl" using Cons.prems(1) by (simp_all add: tinv_def)
  note i = aid_known(2,3)[OF ix h(2)]
  let ?rows = "map (\<lambda>j. rows ! j @ [(aid g k, arc_coeff excl (kept k) (us ! j))]) [0..<length rows]"
  let ?D = "if request then insert (nat (aid g k)) D else D"
  have "\<exists>t1. (if request then andThen (CheckPref (a_pref (kept k)) t) (\<lambda>_. set_col (aid g k) (Cost (kept k) excl) 0 (arc_ub infty excl (kept k) qty))
      else ok () t) = (Inr (), t1) \<and> tinv infty excl g ?D t1 \<and> xframe t t1"
  proof (cases request)
    case True
    from set_col_ok[OF Cons.prems(1), of "nat (aid g k)" "kept k" qty] True h(3,4,5) i show ?thesis
      by (auto simp: CheckPref_def)
  next
    case False
    then show ?thesis using Cons.prems(1) xframe_refl by (auto simp: ok_def)
  qed
  then obtain t1 where t1: "(if request then andThen (CheckPref (a_pref (kept k)) t) (\<lambda>_. set_col (aid g k) (Cost (kept k) excl) 0 (arc_ub infty excl (kept k) qty))
      else ok () t) = (Inr (), t1)" "tinv infty excl g ?D t1" "xframe t t1" by blast
  have e: "xlate_arcs infty request kept qty (x # xs) rows t = xlate_arcs infty request kept qty xs ?rows t1"
    using t1(1) by (simp only: x xlate_arcs.simps arc_id_known[OF s(1) ix h(2)] s(2) Let_def prod.case put_coeffs_all[OF h(1)] deref_simps andThen_simps)
  have l: "length ?rows = length rows" by simp
  obtain t' where t': "xlate_arcs infty request kept qty xs ?rows t1 =
      (Inr (map (\<lambda>j. ?rows ! j @ map (\<lambda>(k, us). (aid g k, arc_coeff excl (kept k) (us ! j))) xs) [0..<length ?rows]), t')"
    "tinv infty excl g (if request then ?D \<union> (\<lambda>(k, _). nat (aid g k)) ` set xs else ?D) t'" "xframe t1 t'"
    using Cons.IH[of ?D t1 ?rows, unfolded l, OF t1(2)] Cons.prems(2) by auto
  have "map (\<lambda>j. ?rows ! j @ map (\<lambda>(k, us). (aid g k, arc_coeff excl (kept k) (us ! j))) xs) [0..<length ?rows] =
      map (\<lambda>j. rows ! j @ map (\<lambda>(k, us). (aid g k, arc_coeff excl (kept k) (us ! j))) (x # xs)) [0..<length rows]"
    by (simp add: x)
  moreover have "(if request then ?D \<union> (\<lambda>(k, _). nat (aid g k)) ` set xs else ?D) =
      (if request then D \<union> (\<lambda>(k, _). nat (aid g k)) ` set (x # xs) else D)" by (auto simp: x)
  ultimately show ?case using e t' xframe_trans[OF t1(3) t'(3)] by auto
qed

definition ncols :: "graph \<Rightarrow> ptr \<Rightarrow> nat set" where
  "ncols g n = (\<lambda>(k, _). nat (aid g k)) ` set (node_caps g n)"

definition ready_node :: "(ptr \<Rightarrow> akey \<Rightarrow> arc) \<Rightarrow> graph \<Rightarrow> bool \<Rightarrow> nat \<Rightarrow> ptr \<Rightarrow> bool" where
  "ready_node kept g request m n \<longleftrightarrow> x_nodes g n \<noteq> None \<and>
     (\<forall>(k, us) \<in> set (node_caps g n). length us = m \<and> k \<in> arc_keys g \<and> kept n k = arcs g ! nat (aid g k) \<and>
        (request \<longrightarrow> 0 < a_pref (kept n k) \<and> a_unode (kept n k) = n))"

lemma xlate_nodes_ok:
  assumes ix: "arcs_indexed g" and t: "tinv infty excl g D t" and ns: "\<forall>n \<in> set ns. ready_node kept g request (length rows) n"
  shows "\<exists>t'. xlate_nodes infty request kept ns rows t = (Inr (map (\<lambda>j. rows ! j @ cap_row kept excl g ns j) [0..<length rows]), t') \<and>
    tinv infty excl g (if request then D \<union> (\<Union>n \<in> set ns. ncols g n) else D) t' \<and> xframe t t'"
  using t ns
proof (induction ns arbitrary: rows t D)
  case Nil
  then show ?case by (intro exI[of _ t]) (simp add: cap_row_def map_nth xframe_refl ok_def)
next
  case (Cons n ns)
  have "same_graph g (pt_graph t)" using Cons.prems(1) by (simp add: tinv_def)
  then obtain nd where nd: "x_nodes (pt_graph t) n = Some nd" "unit_capacities nd = node_caps g n" "n_qty nd = nqty g n"
    using Cons.prems(2) same_graphD(1) by (fastforce simp: ready_node_def node_caps_def nqty_def)
  let ?rows = "map (\<lambda>j. rows ! j @ map (\<lambda>(k, us). (aid g k, arc_coeff excl (kept n k) (us ! j))) (node_caps g n)) [0..<length rows]"
  let ?D = "if request then D \<union> ncols g n else D"
  have rd: "length us = length rows \<and> k \<in> arc_keys g \<and> kept n k = arcs g ! nat (aid g k) \<and>
      (request \<longrightarrow> 0 < a_pref (kept n k) \<and> nqty g n = nqty g (a_unode (kept n k)))" if "(k, us) \<in> set (node_caps g n)" for k us
  proof -
    have "\<forall>(k, us) \<in> set (node_caps g n). length us = length rows \<and> k \<in> arc_keys g \<and> kept n k = arcs g ! nat (aid g k) \<and>
        (request \<longrightarrow> 0 < a_pref (kept n k) \<and> a_unode (kept n k) = n)" using Cons.prems(2) by (simp add: ready_node_def)
    from bspec[OF this that] show ?thesis by auto
  qed
  obtain t1 where t1: "xlate_arcs infty request (kept n) (n_qty nd) (unit_capacities nd) rows t = (Inr ?rows, t1)"
    "tinv infty excl g ?D t1" "xframe t t1"
    using xlate_arcs_ok[OF ix Cons.prems(1) rd] unfolding nd(2,3) ncols_def by blast
  obtain t' where t': "xlate_nodes infty request kept ns ?rows t1 = (Inr (map (\<lambda>j. ?rows ! j @ cap_row kept excl g ns j) [0..<length ?rows]), t')"
    "tinv infty excl g (if request then ?D \<union> (\<Union>n \<in> set ns. ncols g n) else ?D) t'" "xframe t1 t'"
    using Cons.IH[OF t1(2), of ?rows] Cons.prems(2) by auto
  have "map (\<lambda>j. ?rows ! j @ cap_row kept excl g ns j) [0..<length ?rows] = map (\<lambda>j. rows ! j @ cap_row kept excl g (n # ns) j) [0..<length rows]"
    by (simp add: cap_row_def)
  moreover have "(if request then ?D \<union> (\<Union>n \<in> set ns. ncols g n) else ?D) = (if request then D \<union> (\<Union>n \<in> set (n # ns). ncols g n) else D)" by auto
  ultimately show ?case using t1(1) t' nd(1) xframe_trans[OF t1(3) t'(3)] by auto
qed

lemma add_cap_rows_ok:
  assumes "tinv infty excl g D t" "length rows = length cs"
  shows "trows (add_cap_rows infty faux cs rows t) = trows t @ map2 (bounded_row infty faux) cs rows \<and>
    tinv infty excl g D (add_cap_rows infty faux cs rows t) \<and>
    arc_offset (add_cap_rows infty faux cs rows t) = arc_offset t \<and> pseudo_cost (add_cap_rows infty faux cs rows t) = pseudo_cost t \<and>
    pm_cols (pt_ctx (add_cap_rows infty faux cs rows t)) = pm_cols (pt_ctx t) \<and> col_at (add_cap_rows infty faux cs rows t) = col_at t \<and>
    pt_graph (add_cap_rows infty faux cs rows t) = pt_graph t"
  using assms
proof (induction cs arbitrary: rows t)
  case (Cons c cs)
  obtain r rs where r: "rows = r # rs" "length rs = length cs" using Cons.prems(2) by (cases rows) auto
  define t1 where "t1 = (case faux of Some i \<Rightarrow> add_row (min c (10 ^ 15)) infty (r @ [(i, 1)]) t | None \<Rightarrow> add_row 0 c r t)"
  have ro: "rows_ok t" using Cons.prems(1) by (simp add: tinv_def)
  have t1: "trows t1 = trows t @ [bounded_row infty faux c r]" "rows_ok t1"
    using add_row_trows[OF ro] by (auto simp: t1_def bounded_row_def split: option.splits)
  have fr: "arc_offset t1 = arc_offset t" "pseudo_cost t1 = pseudo_cost t" "pm_cols (pt_ctx t1) = pm_cols (pt_ctx t)" "col_at t1 = col_at t"
    "pt_graph t1 = pt_graph t" "pt_excl t1 = pt_excl t" "length (obj_coeffs (pt_ctx t1)) = length (obj_coeffs (pt_ctx t))"
    "length (col_lbs (pt_ctx t1)) = length (col_lbs (pt_ctx t))" "length (col_ubs (pt_ctx t1)) = length (col_ubs (pt_ctx t))"
    by (auto simp: t1_def add_row_def col_at_def split: option.splits)
  then have "tinv infty excl g D t1" using Cons.prems(1) t1(2) by (simp add: tinv_def)
  from Cons.IH[OF this r(2)] show ?case using t1(1) fr(1-5) r(1) by (simp add: t1_def[symmetric])
qed simp

lemma row_ids_ok:
  assumes "same_graph g (pt_graph t)" "arcs_indexed g" "arc_key ` set as \<subseteq> arc_keys g"
  shows "row_ids as row t = (row @ map (\<lambda>a. (aid g (arc_key a), 1)) as, t)"
  using assms(3) by (induction as arbitrary: row) (simp_all add: arc_id_known[OF assms(1,2)])

text \<open>Reading the arcs of a node changes the translator only through the map it reads.\<close>

definition touched :: "prog_translator \<Rightarrow> prog_translator \<Rightarrow> bool" where
  "touched t t' \<longleftrightarrow> (\<exists>g'. t' = t\<lparr>pt_graph := g'\<rparr>)"

lemma touched_trans: "touched t t' \<Longrightarrow> touched t' t'' \<Longrightarrow> touched t t''"
  by (auto simp: touched_def)

lemma excl_row_ok:
  assumes "same_graph g (pt_graph t)" "arcs_indexed g" "\<forall>n \<in> set ns. arc_key ` set (node_arcs g n) \<subseteq> arc_keys g"
  shows "\<exists>t'. excl_row ns row t = (row @ excl_of g ns, t') \<and> same_graph g (pt_graph t') \<and> touched t t'"
  using assms(1,3)
proof (induction ns arbitrary: row t)
  case Nil
  then show ?case by (auto simp: excl_of_def touched_def intro: exI[of _ "pt_graph t"])
next
  case (Cons n ns)
  let ?t = "t\<lparr>pt_graph := (pt_graph t)\<lparr>node_arc_map := omap_touch [] n (node_arc_map (pt_graph t))\<rparr>\<rparr>"
  have s: "same_graph g (pt_graph ?t)" using same_graph_touch[OF Cons.prems(1)] by simp
  have n: "omap_sub [] (node_arc_map (pt_graph t)) n = node_arcs g n" using same_graphD(9)[OF Cons.prems(1), of n] by (simp add: node_arcs_def)
  have "arc_key ` set (node_arcs g n) \<subseteq> arc_keys g" using Cons.prems(2) by simp
  note r = row_ids_ok[OF s assms(2) this, of row]
  obtain t' where t': "excl_row ns (row @ map (\<lambda>a. (aid g (arc_key a), 1)) (node_arcs g n)) ?t =
      ((row @ map (\<lambda>a. (aid g (arc_key a), 1)) (node_arcs g n)) @ excl_of g ns, t')" "same_graph g (pt_graph t')" "touched ?t t'"
    using Cons.IH[OF s, of "row @ map (\<lambda>a. (aid g (arc_key a), 1)) (node_arcs g n)"] Cons.prems(2) by auto
  have "touched t t'" using t'(3) by (auto simp: touched_def)
  then show ?case using t'(1,2) r n by (simp add: excl_of_def)
qed

lemma excl_rows_ok:
  assumes "same_graph g (pt_graph t)" "arcs_indexed g" "\<forall>ns \<in> set gs. \<forall>n \<in> set ns. arc_key ` set (node_arcs g n) \<subseteq> arc_keys g"
  shows "\<exists>t'. excl_rows gs rows t = (rows @ filter (\<lambda>r. r \<noteq> []) (map (excl_of g) gs), t') \<and> same_graph g (pt_graph t') \<and> touched t t'"
  using assms(1,3)
proof (induction gs arbitrary: rows t)
  case Nil
  then show ?case by (auto simp: touched_def intro: exI[of _ "pt_graph t"])
next
  case (Cons ns gs)
  obtain t1 where t1: "excl_row ns [] t = (excl_of g ns, t1)" "same_graph g (pt_graph t1)" "touched t t1"
    using excl_row_ok[OF Cons.prems(1) assms(2), of ns "[]"] Cons.prems(2) by auto
  let ?rows = "if excl_of g ns \<noteq> [] then rows @ [excl_of g ns] else rows"
  obtain t' where "excl_rows gs ?rows t1 = (?rows @ filter (\<lambda>r. r \<noteq> []) (map (excl_of g) gs), t')" "same_graph g (pt_graph t')" "touched t1 t'"
    using Cons.IH[OF t1(2), of ?rows] Cons.prems(2) by auto
  then show ?case using t1 touched_trans[OF t1(3)] by (auto split: if_splits)
qed

lemma touched_facts:
  assumes "touched t t'"
  shows "pt_ctx t' = pt_ctx t" "pt_excl t' = pt_excl t" "arc_offset t' = arc_offset t" "pseudo_cost t' = pseudo_cost t" "col_at t' = col_at t"
  using assms by (auto simp: touched_def col_at_def)

lemma add_excl_rows:
  assumes "rows_ok t"
  shows "trows (foldl (\<lambda>t r. add_row 0 1 r t) t rs) = trows t @ map (\<lambda>r. (0, 1, r)) rs \<and> rows_ok (foldl (\<lambda>t r. add_row 0 1 r t) t rs) \<and>
    pt_graph (foldl (\<lambda>t r. add_row 0 1 r t) t rs) = pt_graph t \<and> pt_excl (foldl (\<lambda>t r. add_row 0 1 r t) t rs) = pt_excl t \<and>
    arc_offset (foldl (\<lambda>t r. add_row 0 1 r t) t rs) = arc_offset t \<and> pseudo_cost (foldl (\<lambda>t r. add_row 0 1 r t) t rs) = pseudo_cost t \<and>
    pm_cols (pt_ctx (foldl (\<lambda>t r. add_row 0 1 r t) t rs)) = pm_cols (pt_ctx t) \<and>
    obj_coeffs (pt_ctx (foldl (\<lambda>t r. add_row 0 1 r t) t rs)) = obj_coeffs (pt_ctx t) \<and>
    col_lbs (pt_ctx (foldl (\<lambda>t r. add_row 0 1 r t) t rs)) = col_lbs (pt_ctx t) \<and>
    col_ubs (pt_ctx (foldl (\<lambda>t r. add_row 0 1 r t) t rs)) = col_ubs (pt_ctx t)"
  using assms
proof (induction rs arbitrary: t)
  case (Cons r rs)
  from Cons.IH[OF add_row_trows(2)[OF Cons.prems]] add_row_trows(1)[OF Cons.prems] show ?case by (simp add: add_row_def)
qed simp

lemma excl_part_ok:
  assumes ix: "arcs_indexed g" and t: "tinv infty excl g D t"
    and ex: "\<forall>ns \<in> set gs. \<forall>n \<in> set ns. arc_key ` set (node_arcs g n) \<subseteq> arc_keys g"
  shows "let t' = (if excl then (case excl_rows gs [] t of (rs, t1) \<Rightarrow> foldl (\<lambda>t r. add_row 0 1 r t) t1 rs) else t)
    in trows t' = trows t @ (if excl then map (\<lambda>r. (0, 1, r)) (filter (\<lambda>r. r \<noteq> []) (map (excl_of g) gs)) else []) \<and>
      tinv infty excl g D t' \<and> arc_offset t' = arc_offset t \<and> pseudo_cost t' = pseudo_cost t \<and> pm_cols (pt_ctx t') = pm_cols (pt_ctx t) \<and>
      col_at t' = col_at t"
proof (cases excl)
  case True
  have e: "pt_excl t = excl" "same_graph g (pt_graph t)" "rows_ok t" using t by (auto simp: tinv_def)
  obtain t1 where t1: "excl_rows gs [] t = (filter (\<lambda>r. r \<noteq> []) (map (excl_of g) gs), t1)" "same_graph g (pt_graph t1)" "touched t t1"
    using excl_rows_ok[OF e(2) ix ex, of "[]"] by auto
  note f = touched_facts[OF t1(3)]
  have r1: "rows_ok t1" using e(3) f(1) by (simp add: rows_ok_def)
  note a = add_excl_rows[OF r1, of "filter (\<lambda>r. r \<noteq> []) (map (excl_of g) gs)"]
  define t2 where "t2 = foldl (\<lambda>t r. add_row 0 1 r t) t1 (filter (\<lambda>r. r \<noteq> []) (map (excl_of g) gs))"
  have c: "col_at t2 = col_at t" using a f(1) unfolding t2_def by (intro ext) (simp add: col_at_def)
  then have "tinv infty excl g D t2" using t a f e(1) t1(2) unfolding t2_def tinv_def by simp
  then show ?thesis using a f c True t1(1) by (simp add: t2_def[symmetric] Let_def)
qed (use t in simp)

section \<open>Groups\<close>

text \<open>What translating a group does: its rows are appended, the columns of its arcs are set if it is a
  request group, and one column is taken for unmet demand.\<close>

definition group_done :: "(ptr \<Rightarrow> akey \<Rightarrow> arc) \<Rightarrow> double \<Rightarrow> graph \<Rightarrow> bool \<Rightarrow> ptr \<Rightarrow> nat set \<Rightarrow> prog_translator \<Rightarrow> prog_translator \<Rightarrow> bool" where
  "group_done kept infty g request p D t t' \<longleftrightarrow>
     (let skip = (request \<and> \<not> HasArcs p g)
      in trows t' = trows t @ (if skip then [] else group_rows kept (pt_excl t) infty g (if request then Some (arc_offset t) else None) p) \<and>
         arc_offset t' = arc_offset t + (if request \<and> \<not> skip then 1 else 0) \<and>
         tinv infty (pt_excl t) g (if request \<and> \<not> skip then D \<union> (\<Union>n \<in> set (gnodes g p). ncols g n) else D) t' \<and>
         pseudo_cost t' = pseudo_cost t \<and> pm_cols (pt_ctx t') = pm_cols (pt_ctx t) \<and>
         (\<forall>i \<ge> length (arcs g). col_at t' i = col_at t i))"

lemma map2_upt: "map2 f cs (map h [0..<length cs]) = map (\<lambda>j. f (cs ! j) (h j)) [0..<length cs]"
  by (rule nth_equalityI) simp_all

lemma XlateGrp_ok:
  assumes ix: "arcs_indexed g" and t: "tinv infty excl g D t" and p: "x_groups g p \<noteq> None"
    and ns: "\<forall>n \<in> set (gnodes g p). ready_node kept g request (length (gcaps g p)) n"
    and ex: "\<forall>ns \<in> set (gexcl g p). \<forall>n \<in> set ns. arc_key ` set (node_arcs g n) \<subseteq> arc_keys g"
  shows "\<exists>t'. XlateGrp infty kept request p t = (Inr (), t') \<and> group_done kept infty g request p D t t'"
proof (cases "request \<and> \<not> HasArcs p g")
  case True
  have "same_graph g (pt_graph t)" using t by (simp add: tinv_def)
  then show ?thesis using True t p same_graphD(2,10) by (auto simp: XlateGrp_def group_done_def ok_def tinv_def)
next
  case False
  have s: "same_graph g (pt_graph t)" "pt_excl t = excl" using t by (simp_all add: tinv_def)
  obtain gr where gr: "x_groups (pt_graph t) p = Some gr" "g_nodes gr = gnodes g p" "g_capacities gr = gcaps g p" "g_excl_groups gr = gexcl g p"
    using p same_graphD(2)[OF s(1)] by (auto simp: gnodes_def gcaps_def gexcl_def)
  define D' where "D' = (if request then D \<union> (\<Union>n \<in> set (gnodes g p). ncols g n) else D)"
  let ?rows = "map (\<lambda>j. cap_row kept excl g (gnodes g p) j) [0..<length (gcaps g p)]"
  obtain t1 where t1: "xlate_nodes infty request kept (gnodes g p) (replicate (length (gcaps g p)) []) t = (Inr ?rows, t1)"
    "tinv infty excl g D' t1" "xframe t t1"
    using xlate_nodes_ok[OF ix t, of "gnodes g p" kept request "replicate (length (gcaps g p)) []"] ns by (auto simp: D'_def cong: map_cong)
  define faux where "faux = (if request then Some (arc_offset t1) else None)"
  define t2 where "t2 = (if request then t1\<lparr>arc_offset := arc_offset t1 + 1\<rparr> else t1)"
  have t2: "tinv infty excl g D' t2" using t1(2) by (simp add: t2_def tinv_def rows_ok_def col_at_def)
  define t3 where "t3 = add_cap_rows infty faux (gcaps g p) ?rows t2"
  note t3 = add_cap_rows_ok[OF t2, of ?rows "gcaps g p" faux, folded t3_def]
  define t5 where "t5 = (if excl then (case excl_rows (gexcl g p) [] t3 of (rs, t4) \<Rightarrow> foldl (\<lambda>t r. add_row 0 1 r t) t4 rs) else t3)"
  have i3: "tinv infty excl g D' t3" using t3 by simp
  then have e3: "pt_excl t3 = excl" by (simp add: tinv_def)
  note t5 = excl_part_ok[OF ix i3 ex, folded t5_def, unfolded Let_def]
  have c: "(request \<and> \<not> HasArcs p (pt_graph t)) = False" using False same_graphD(10)[OF s(1)] by simp
  have e: "XlateGrp infty kept request p t = (Inr (), t5)"
    by (simp only: XlateGrp_def gr deref_simps c if_False t1(1) andThen_simps Let_def faux_def[symmetric] t2_def[symmetric]
        t3_def[symmetric] e3 t5_def[symmetric] ok_def)
  have "trows t3 = trows t @ map2 (bounded_row infty faux) (gcaps g p) ?rows" "col_at t3 = col_at t1" "arc_offset t3 = arc_offset t2"
    using t3 t1(3) by (auto simp: t2_def xframe_def col_at_def)
  then show ?thesis using e False t1(3) s t3 t5 same_graphD(5)[OF s(1)]
    by (intro exI[of _ t5]) (auto simp: group_done_def group_rows_def map2_upt D'_def t2_def faux_def xframe_def Let_def)
qed

section \<open>The whole translation\<close>

lemma aid_arc:
  assumes "arcs_indexed g" "a \<in> set (arcs g)"
  shows "arcs g ! nat (aid g (arc_key a)) = a" "nat (aid g (arc_key a)) < length (arcs g)"
proof -
  obtain i where "i < length (arcs g)" "a = arcs g ! i" using assms(2) by (auto simp: in_set_conv_nth)
  then show "arcs g ! nat (aid g (arc_key a)) = a" "nat (aid g (arc_key a)) < length (arcs g)" using aid_index[OF assms(1)] by auto
qed

lemma caps_entry:
  assumes "prog_graph kept g" "p \<in> set (request_groups g @ supply_groups g)" "n \<in> set (gnodes g p)" "(k, us) \<in> set (node_caps g n)"
  shows "\<exists>a \<in> set (arcs g). arc_key a = k \<and> kept n k = a \<and> n \<in> {a_unode a, a_vnode a} \<and> us = ucaps g n a \<and> length us = length (gcaps g p)"
proof -
  obtain a where a: "a \<in> set (arcs g)" "arc_key a = k" "kept n k = a" "n \<in> {a_unode a, a_vnode a}"
    using assms unfolding prog_graph_def by force
  have n: "ngroup g n = Some p" using assms(1-3) by (auto simp: prog_graph_def wf_graph_def)
  then obtain nd where nd: "x_nodes g n = Some nd" by (auto simp: ngroup_def split: option.splits)
  have "distinct (map fst (node_caps g n))" using assms(1-3) unfolding prog_graph_def by blast
  then have "map_of (node_caps g n) k = Some us" using assms(4) by simp
  then have us: "us = ucaps g n a" using nd a(2) by (simp add: ucaps_def unit_caps_at_def node_caps_def omap_sub_def)
  have "good_arc g a" using assms(1) a(1) unfolding prog_graph_def by blast
  then have "length us = length (gcaps g p)" using a(4) n us by (auto simp: good_arc_def)
  then show ?thesis using a us by blast
qed

lemma request_side:
  assumes "wf_graph g" "good_arc g a" "ngroup g n = Some p" "n \<in> {a_unode a, a_vnode a}"
  shows "p \<in> set (request_groups g) \<Longrightarrow> n = a_unode a" "p \<in> set (supply_groups g) \<Longrightarrow> n = a_vnode a"
proof -
  obtain pu pv where "ngroup g (a_unode a) = Some pu" "pu \<in> set (request_groups g)" "ngroup g (a_vnode a) = Some pv" "pv \<in> set (supply_groups g)"
    "set (request_groups g) \<inter> set (supply_groups g) = {}" using assms(1,2) by (auto simp: good_arc_def wf_graph_def)
  then show "p \<in> set (request_groups g) \<Longrightarrow> n = a_unode a" "p \<in> set (supply_groups g) \<Longrightarrow> n = a_vnode a" using assms(3,4) by auto
qed

lemma prog_ready:
  assumes pg: "prog_graph kept g" and p: "p \<in> set (request_groups g @ supply_groups g)" "request \<Longrightarrow> p \<in> set (request_groups g)" and n: "n \<in> set (gnodes g p)"
  shows "ready_node kept g request (length (gcaps g p)) n"
proof -
  have wf: "wf_graph g" and ix: "arcs_indexed g" using pg by (simp_all add: prog_graph_def)
  have ng: "ngroup g n = Some p" using wf p n by (auto simp: wf_graph_def)
  have "length us = length (gcaps g p) \<and> k \<in> arc_keys g \<and> kept n k = arcs g ! nat (aid g k) \<and> (request \<longrightarrow> 0 < a_pref (kept n k) \<and> a_unode (kept n k) = n)"
    if x: "(k, us) \<in> set (node_caps g n)" for k us
  proof -
    obtain a where a: "a \<in> set (arcs g)" "arc_key a = k" "kept n k = a" "n \<in> {a_unode a, a_vnode a}" "length us = length (gcaps g p)"
      using caps_entry[OF pg p(1) n x] by blast
    have ga: "good_arc g a" "0 < a_pref a" using pg a(1) unfolding prog_graph_def by blast+
    show ?thesis using a ga(2) aid_arc(1)[OF ix a(1)] request_side(1)[OF wf ga(1) ng a(4)] p(2) by (auto simp: arc_keys_def)
  qed
  then show ?thesis using ng by (auto simp: ready_node_def ngroup_def split: option.splits)
qed

lemma XlateGrp_step:
  assumes "prog_graph kept g" "tinv infty excl g D t" "p \<in> set (request_groups g @ supply_groups g)" "request \<Longrightarrow> p \<in> set (request_groups g)"
  shows "\<exists>t'. XlateGrp infty kept request p t = (Inr (), t') \<and> group_done kept infty g request p D t t'"
proof (rule XlateGrp_ok[OF _ assms(2)])
  show "arcs_indexed g" "x_groups g p \<noteq> None" using assms(1,3) by (auto simp: prog_graph_def wf_graph_def)
  show "\<forall>n \<in> set (gnodes g p). ready_node kept g request (length (gcaps g p)) n" using prog_ready[OF assms(1,3,4)] by blast
  show "\<forall>ns \<in> set (gexcl g p). \<forall>n \<in> set ns. arc_key ` set (node_arcs g n) \<subseteq> arc_keys g" using assms(1,3) unfolding prog_graph_def by blast
qed

text \<open>The state between the loops: everything but the rows.\<close>

definition tmid :: "double \<Rightarrow> bool \<Rightarrow> graph \<Rightarrow> xdouble \<Rightarrow> int \<Rightarrow> prog_translator \<Rightarrow> bool" where
  "tmid infty excl g cost n t \<longleftrightarrow> (\<exists>D. tinv infty excl g D t) \<and> pseudo_cost t = cost \<and> pm_cols (pt_ctx t) = n"

lemma supply_loop:
  assumes "prog_graph kept g" "tmid infty excl g cost n t" "set ps \<subseteq> set (supply_groups g)"
  shows "\<exists>t'. foreach (XlateGrp infty kept False) ps t = (Inr (), t') \<and> tmid infty excl g cost n t' \<and> arc_offset t' = arc_offset t \<and>
    trows t' = trows t @ concat (map (group_rows kept excl infty g None) ps)"
  using assms(2,3)
proof (induction ps arbitrary: t)
  case Nil
  then show ?case by (simp add: ok_def)
next
  case (Cons p ps)
  obtain D where D: "tinv infty excl g D t" using Cons.prems(1) by (auto simp: tmid_def)
  then have e: "pt_excl t = excl" by (simp add: tinv_def)
  obtain t1 where t1: "XlateGrp infty kept False p t = (Inr (), t1)" "group_done kept infty g False p D t t1"
    using XlateGrp_step[OF assms(1) D, of p False] Cons.prems(2) by auto
  then have m: "tmid infty excl g cost n t1" "arc_offset t1 = arc_offset t" "trows t1 = trows t @ group_rows kept excl infty g None p"
    using Cons.prems(1) e by (auto simp: group_done_def tmid_def)
  from Cons.IH[OF m(1)] Cons.prems(2) t1(1) m(2,3) show ?case by auto
qed

definition request_rows :: "(ptr \<Rightarrow> akey \<Rightarrow> arc) \<Rightarrow> bool \<Rightarrow> double \<Rightarrow> graph \<Rightarrow> int \<Rightarrow> int \<Rightarrow> ptr list \<Rightarrow> (double \<times> double \<times> prow) list \<Rightarrow> bool" where
  "request_rows kept excl infty g lo hi ps rows \<longleftrightarrow>
     (\<forall>x \<in> set rows. \<exists>p \<in> set ps. \<exists>i. lo \<le> i \<and> i < hi \<and> x \<in> set (group_rows kept excl infty g (Some i) p)) \<and>
     (\<forall>p \<in> set ps. HasArcs p g \<longrightarrow> (\<exists>i. set (group_rows kept excl infty g (Some i) p) \<subseteq> set rows))"

lemma request_loop:
  assumes "prog_graph kept g" "tmid infty excl g cost n t" "set ps \<subseteq> set (request_groups g)"
  shows "\<exists>t' rows. foreach (XlateGrp infty kept True) ps t = (Inr (), t') \<and> tmid infty excl g cost n t' \<and>
    arc_offset t' = arc_offset t + int (length (filter (\<lambda>p. HasArcs p g) ps)) \<and> trows t' = trows t @ rows \<and>
    request_rows kept excl infty g (arc_offset t) (arc_offset t') ps rows"
  using assms(2,3)
proof (induction ps arbitrary: t)
  case Nil
  then show ?case by (simp add: ok_def request_rows_def)
next
  case (Cons p ps)
  obtain D where D: "tinv infty excl g D t" using Cons.prems(1) by (auto simp: tmid_def)
  then have e: "pt_excl t = excl" by (simp add: tinv_def)
  obtain t1 where t1: "XlateGrp infty kept True p t = (Inr (), t1)" "group_done kept infty g True p D t t1"
    using XlateGrp_step[OF assms(1) D, of p True] Cons.prems(2) by auto
  let ?r = "if HasArcs p g then group_rows kept excl infty g (Some (arc_offset t)) p else []"
  have m: "tmid infty excl g cost n t1" "arc_offset t1 = arc_offset t + (if HasArcs p g then 1 else 0)" "trows t1 = trows t @ ?r"
    using t1(2) Cons.prems(1) e by (auto simp: group_done_def tmid_def)
  obtain t' rows where t': "foreach (XlateGrp infty kept True) ps t1 = (Inr (), t')" "tmid infty excl g cost n t'"
    "arc_offset t' = arc_offset t1 + int (length (filter (\<lambda>p. HasArcs p g) ps))" "trows t' = trows t1 @ rows"
    "request_rows kept excl infty g (arc_offset t1) (arc_offset t') ps rows" using Cons.IH[OF m(1)] Cons.prems(2) by auto
  have "request_rows kept excl infty g (arc_offset t) (arc_offset t') (p # ps) (?r @ rows)"
    unfolding request_rows_def
  proof (intro conjI ballI impI)
    fix x assume "x \<in> set (?r @ rows)"
    then consider "HasArcs p g" "x \<in> set (group_rows kept excl infty g (Some (arc_offset t)) p)" | "x \<in> set rows" by (auto split: if_splits)
    then show "\<exists>q \<in> set (p # ps). \<exists>i. arc_offset t \<le> i \<and> i < arc_offset t' \<and> x \<in> set (group_rows kept excl infty g (Some i) q)"
    proof cases
      case 1
      moreover have "arc_offset t < arc_offset t'" using 1(1) m(2) t'(3) by simp
      ultimately show ?thesis by auto
    next
      case 2
      then obtain q i where "q \<in> set ps" "arc_offset t1 \<le> i" "i < arc_offset t'" "x \<in> set (group_rows kept excl infty g (Some i) q)"
        using t'(5) unfolding request_rows_def by blast
      moreover have "arc_offset t \<le> arc_offset t1" using m(2) by simp
      ultimately show ?thesis by fastforce
    qed
  next
    fix q assume q: "q \<in> set (p # ps)" "HasArcs q g"
    show "\<exists>i. set (group_rows kept excl infty g (Some i) q) \<subseteq> set (?r @ rows)"
    proof (cases "q \<in> set ps")
      case True
      then obtain i where "set (group_rows kept excl infty g (Some i) q) \<subseteq> set rows" using t'(5) q(2) unfolding request_rows_def by blast
      then show ?thesis by (intro exI[of _ i]) auto
    qed (use q in \<open>auto intro: exI[of _ "arc_offset t"]\<close>)
  qed
  then show ?case using t1(1) t' m(2,3) by (intro exI[of _ t'] exI[of _ "?r @ rows"]) auto
qed

lemma false_loop:
  assumes "tinv infty excl g D t" "\<forall>i \<in> set is. int (length (arcs g)) \<le> i \<and> i < int (length (arcs g) + length (request_groups g))"
  shows "\<exists>t'. foreach (\<lambda>i t. set_col i (pseudo_cost t) 0 infty t) is t = (Inr (), t') \<and> tinv infty excl g D t' \<and> trows t' = trows t \<and>
    arc_offset t' = arc_offset t \<and> pseudo_cost t' = pseudo_cost t \<and> pm_cols (pt_ctx t') = pm_cols (pt_ctx t) \<and>
    (\<forall>j. col_at t' j = (if int j \<in> set is then (pseudo_cost t, 0, infty) else col_at t j))"
  using assms
proof (induction "is" arbitrary: t)
  case Nil
  then show ?case by (simp add: ok_def)
next
  case (Cons i "is")
  define n where "n = length (arcs g) + length (request_groups g)"
  have l: "length (obj_coeffs (pt_ctx t)) = n" "length (col_lbs (pt_ctx t)) = n" "length (col_ubs (pt_ctx t)) = n" "0 \<le> i" "i < int n" "length (arcs g) \<le> nat i"
    using Cons.prems by (auto simp: tinv_def n_def Let_def)
  define t1 where "t1 = t\<lparr>pt_ctx := (pt_ctx t)\<lparr>obj_coeffs := (obj_coeffs (pt_ctx t))[nat i := pseudo_cost t], col_lbs := (col_lbs (pt_ctx t))[nat i := 0],
    col_ubs := (col_ubs (pt_ctx t))[nat i := infty]\<rparr>\<rparr>"
  have s: "set_col i (pseudo_cost t) 0 infty t = (Inr (), t1)" using l by (simp add: set_col_def vec_put_def ok_def t1_def)
  have c: "col_at t1 j = (if int j = i then (pseudo_cost t, 0, infty) else col_at t j)" for j
    using l by (auto simp: col_at_def t1_def nth_list_update)
  have f: "trows t1 = trows t" "arc_offset t1 = arc_offset t" "pseudo_cost t1 = pseudo_cost t" "pm_cols (pt_ctx t1) = pm_cols (pt_ctx t)"
    by (simp_all add: t1_def ctx_rows_def)
  have "tinv infty excl g D t1" using Cons.prems(1) l c by (auto simp: tinv_def t1_def rows_ok_def Let_def)
  from Cons.IH[OF this] Cons.prems(2) obtain t' where "foreach (\<lambda>i t. set_col i (pseudo_cost t) 0 infty t) is t1 = (Inr (), t')" "tinv infty excl g D t'"
    "trows t' = trows t1" "arc_offset t' = arc_offset t1" "pseudo_cost t' = pseudo_cost t1" "pm_cols (pt_ctx t') = pm_cols (pt_ctx t1)"
    "\<forall>j. col_at t' j = (if int j \<in> set is then (pseudo_cost t1, 0, infty) else col_at t1 j)" by auto
  then show ?case using s c f by (intro exI[of _ t']) auto
qed

definition nfaux :: "graph \<Rightarrow> nat" where
  "nfaux g = length (filter (\<lambda>p. HasArcs p g) (request_groups g))"

text \<open>The finished program.\<close>

definition translated :: "(ptr \<Rightarrow> akey \<Rightarrow> arc) \<Rightarrow> double \<Rightarrow> bool \<Rightarrow> graph \<Rightarrow> xdouble \<Rightarrow> prog_translator \<Rightarrow> bool" where
  "translated kept infty excl g cost t \<longleftrightarrow> (\<exists>D. tinv infty excl g D t) \<and> pm_cols (pt_ctx t) = int (length (arcs g) + nfaux g) \<and>
     (\<forall>j. length (arcs g) \<le> j \<longrightarrow> j < length (arcs g) + nfaux g \<longrightarrow> col_at t j = (cost, 0, infty)) \<and>
     (\<exists>rows. trows t = concat (map (group_rows kept excl infty g None) (supply_groups g)) @ rows \<and>
        request_rows kept excl infty g (int (length (arcs g))) (int (length (arcs g) + nfaux g)) (request_groups g) rows)"

lemma Translate_translated:
  assumes pg: "prog_graph kept g"
  shows "\<exists>t. ProgTranslator_Translate infty kept (ProgTranslator_new g excl cost) = (Inr (), t) \<and> translated kept infty excl g cost t"
proof -
  let ?t = "ProgTranslator_new g excl cost" and ?L = "length (arcs g)"
  define t1 where "t1 = ?t\<lparr>pt_ctx := (pt_ctx ?t)\<lparr>pm_cols := int (?L + nfaux g)\<rparr>\<rparr>"
  have "tinv infty excl g {} t1"
    by (simp add: t1_def tinv_def ProgTranslator_new_def ProgTranslator_Init_def Let_def same_graph_refl rows_ok_def col_at_def)
  then have m1: "tmid infty excl g cost (int (?L + nfaux g)) t1" by (auto simp: tmid_def t1_def ProgTranslator_new_def ProgTranslator_Init_def Let_def)
  have o1: "arc_offset t1 = int ?L" "trows t1 = []" by (simp_all add: t1_def ProgTranslator_new_def ProgTranslator_Init_def Let_def ctx_rows_def)
  obtain t2 where t2: "foreach (XlateGrp infty kept False) (supply_groups g) t1 = (Inr (), t2)" "tmid infty excl g cost (int (?L + nfaux g)) t2"
    "arc_offset t2 = int ?L" "trows t2 = concat (map (group_rows kept excl infty g None) (supply_groups g))"
    using supply_loop[OF pg m1 order_refl] o1 by auto
  obtain t3 rows where t3: "foreach (XlateGrp infty kept True) (request_groups g) t2 = (Inr (), t3)" "tmid infty excl g cost (int (?L + nfaux g)) t3"
    "arc_offset t3 = int (?L + nfaux g)" "trows t3 = trows t2 @ rows"
    "request_rows kept excl infty g (int ?L) (int (?L + nfaux g)) (request_groups g) rows"
    using request_loop[OF pg t2(2) order_refl] t2(3) by (auto simp: nfaux_def)
  obtain D where D: "tinv infty excl g D t3" using t3(2) by (auto simp: tmid_def)
  have "nfaux g \<le> length (request_groups g)" by (simp add: nfaux_def)
  then obtain t' where t': "foreach (\<lambda>i t. set_col i (pseudo_cost t) 0 infty t) [int ?L..arc_offset t3 - 1] t3 = (Inr (), t')" "tinv infty excl g D t'"
    "trows t' = trows t3" "pm_cols (pt_ctx t') = pm_cols (pt_ctx t3)"
    "\<forall>j. col_at t' j = (if int j \<in> set [int ?L..arc_offset t3 - 1] then (pseudo_cost t3, 0, infty) else col_at t3 j)"
    using false_loop[OF D, of "[int ?L..arc_offset t3 - 1]"] t3(3) by auto
  have g: "pt_graph ?t = g" by (simp add: ProgTranslator_new_def ProgTranslator_Init_def Let_def)
  have "ProgTranslator_Translate infty kept ?t = (Inr (), t')"
    unfolding ProgTranslator_Translate_def Let_def g nfaux_def[symmetric] t1_def[symmetric] using t2(1) t3(1) t'(1) by simp
  moreover have "translated kept infty excl g cost t'"
    using t' t3(2-5) t2(4) by (auto simp: translated_def tmid_def)
  ultimately show ?thesis by blast
qed

lemma integer_cols_ok:
  assumes "same_graph g (pt_graph t)" "arcs_indexed g" "arc_key ` set as \<subseteq> arc_keys g"
  shows "integer_cols as js t = (js @ map (\<lambda>a. aid g (arc_key a)) (filter a_exclusive as), t)"
  using assms(3) by (induction as arbitrary: js) (simp_all add: arc_id_known[OF assms(1,2)])

lemma ToProg_ok:
  assumes pg: "prog_graph kept g"
  obtains lp t where "ToProg infty kept (ProgTranslator_new g excl cost) = (Inr lp, t)" "translated kept infty excl g cost t"
    "lp_ctx lp = pt_ctx t" "lp_ints lp = (if excl then map (\<lambda>a. aid g (arc_key a)) (filter a_exclusive (arcs g)) else [])"
proof -
  obtain t where t: "ProgTranslator_Translate infty kept (ProgTranslator_new g excl cost) = (Inr (), t)" "translated kept infty excl g cost t"
    using Translate_translated[OF pg] by blast
  then have s: "same_graph g (pt_graph t)" "pt_excl t = excl" by (auto simp: translated_def tinv_def)
  have "arc_key ` set (arcs g) \<subseteq> arc_keys g" "arcs_indexed g" using pg by (simp_all add: arc_keys_def prog_graph_def)
  then have "Populate t = (\<lparr>lp_ctx = pt_ctx t, lp_ints = (if excl then map (\<lambda>a. aid g (arc_key a)) (filter a_exclusive (arcs g)) else [])\<rparr>, t)"
    using integer_cols_ok[OF s(1), of "arcs g" "[]"] same_graphD(5)[OF s(1)] s(2) by (simp add: Populate_def)
  then have "ToProg infty kept (ProgTranslator_new g excl cost) =
      (Inr \<lparr>lp_ctx = pt_ctx t, lp_ints = (if excl then map (\<lambda>a. aid g (arc_key a)) (filter a_exclusive (arcs g)) else [])\<rparr>, t)"
    using t(1) by (simp add: ToProg_def ok_def)
  then show ?thesis by (rule that) (simp_all add: t(2))
qed

end
