(* ===== verification/Prog_Properties.thy ===== *)
theory Prog_Properties
  imports Prog_Correct
begin

text \<open>
  What the solutions of the translated program are worth: there always is one, every one respects the
  capacities of the suppliers and the exclusive orders, and an optimal one may take more from a bid
  than it offers.
\<close>

section \<open>Solutions\<close>

definition row_val :: "(nat \<Rightarrow> double) \<Rightarrow> prow \<Rightarrow> double" where
  "row_val sol row = sum_list (map (\<lambda>(i, c). c * sol (nat i)) row)"

text \<open>A solution of a program: every column and row within its bounds, the integer columns integral.
  This is what the solver library promises of the values it returns.\<close>

definition lp_feasible :: "lprog \<Rightarrow> (nat \<Rightarrow> double) \<Rightarrow> bool" where
  "lp_feasible lp sol \<longleftrightarrow>
     (\<forall>i < nat (pm_cols (lp_ctx lp)). col_lbs (lp_ctx lp) ! i \<le> sol i \<and> sol i \<le> col_ubs (lp_ctx lp) ! i) \<and>
     (\<forall>(lb, ub, row) \<in> set (ctx_rows (lp_ctx lp)). lb \<le> row_val sol row \<and> row_val sol row \<le> ub) \<and>
     (\<forall>i \<in> set (lp_ints lp). sol (nat i) \<in> \<int>)"

lemma row_val_append [simp]: "row_val sol (r @ r') = row_val sol r + row_val sol r'"
  by (simp add: row_val_def)

lemma row_val_Cons [simp]: "row_val sol ((i, c) # r) = c * sol (nat i) + row_val sol r"
  by (simp add: row_val_def)

lemma row_val_concat: "row_val sol (concat rs) = sum_list (map (row_val sol) rs)"
  by (induction rs) (simp_all add: row_val_def[of _ "[]"])

lemma row_val_zero: "\<forall>(i, c) \<in> set row. sol (nat i) = 0 \<Longrightarrow> row_val sol row = 0"
  by (induction row) (auto simp: row_val_def)

lemma row_val_nonneg_ge:
  assumes "\<forall>(i, c) \<in> set row. 0 \<le> c * sol (nat i)" "(i, c) \<in> set row"
  shows "c * sol (nat i) \<le> row_val sol row"
proof -
  have "(\<lambda>(i, c). c * sol (nat i)) (i, c) \<in> set (map (\<lambda>(i, c). c * sol (nat i)) row)" using assms(2) by force
  then show ?thesis using assms(1) unfolding row_val_def by (force intro: member_le_sum_list)
qed

section \<open>There always is a solution\<close>

definition idle :: "nat \<Rightarrow> nat \<Rightarrow> double" where
  "idle n i = (if i < n then 0 else 10 ^ 15)"

lemma cap_row_ids:
  assumes "prog_graph kept g" "p \<in> set (request_groups g @ supply_groups g)" "(i, c) \<in> set (cap_row kept excl g (gnodes g p) j)"
  shows "nat i < length (arcs g)"
proof -
  obtain n k us where x: "n \<in> set (gnodes g p)" "(k, us) \<in> set (node_caps g n)" "i = aid g k" using assms(3) by (auto simp: cap_row_def)
  then obtain a where "a \<in> set (arcs g)" "arc_key a = k" using caps_entry[OF assms(1,2)] by blast
  then show ?thesis using aid_arc(2)[of g a] assms(1) x(3) by (auto simp: prog_graph_def)
qed

lemma excl_row_ids:
  assumes "prog_graph kept g" "p \<in> set (request_groups g @ supply_groups g)" "ns \<in> set (gexcl g p)" "(i, c) \<in> set (excl_of g ns)"
  shows "nat i < length (arcs g)" "c = 1"
proof -
  obtain n a where x: "n \<in> set ns" "a \<in> set (node_arcs g n)" "i = aid g (arc_key a)" "c = 1" using assms(4) by (auto simp: excl_of_def)
  then have "arc_key a \<in> arc_keys g" using assms(1-3) unfolding prog_graph_def by blast
  then show "nat i < length (arcs g)" "c = 1" using aid_known(2,3)[of g "arc_key a"] assms(1) x(3,4) by (auto simp: prog_graph_def)
qed

lemma idle_rows:
  assumes pg: "prog_graph kept g" and p: "p \<in> set (request_groups g @ supply_groups g)" and f: "\<forall>i. faux = Some i \<longrightarrow> int (length (arcs g)) \<le> i"
    and inf: "10 ^ 15 \<le> infty" and x: "(lb, ub, row) \<in> set (group_rows kept excl infty g faux p)"
  shows "lb \<le> row_val (idle (length (arcs g))) row" "row_val (idle (length (arcs g))) row \<le> ub"
proof -
  let ?sol = "idle (length (arcs g))"
  consider j where "j < length (gcaps g p)" "(lb, ub, row) = bounded_row infty faux (gcaps g p ! j) (cap_row kept excl g (gnodes g p) j)"
    | ns where "ns \<in> set (gexcl g p)" "(lb, ub, row) = (0, 1, excl_of g ns)"
    using x by (auto simp: group_rows_def split: if_splits)
  then have "lb \<le> row_val ?sol row \<and> row_val ?sol row \<le> ub"
  proof cases
    case 1
    have z: "row_val ?sol (cap_row kept excl g (gnodes g p) j) = 0"
      by (rule row_val_zero) (use cap_row_ids[OF pg p] in \<open>auto simp: idle_def\<close>)
    have "0 \<le> gcaps g p ! j" using pg p nth_mem[OF 1(1)] by (auto simp: prog_graph_def wf_graph_def)
    then show ?thesis using 1(2) z f inf by (cases faux) (auto simp: bounded_row_def idle_def row_val_def[of _ "[]"])
  next
    case 2
    have "row_val ?sol (excl_of g ns) = 0" by (rule row_val_zero) (use excl_row_ids[OF pg p 2(1)] in \<open>auto simp: idle_def\<close>)
    then show ?thesis using 2(2) by simp
  qed
  then show "lb \<le> row_val ?sol row" "row_val ?sol row \<le> ub" by blast+
qed

lemma translated_col:
  assumes "translated kept infty excl g cost t" "i < length (arcs g)"
  shows "col_lbs (pt_ctx t) ! i = 0"
    "col_ubs (pt_ctx t) ! i = arc_ub infty excl (arcs g ! i) (nqty g (a_unode (arcs g ! i))) \<or> col_ubs (pt_ctx t) ! i = 0"
  using assms by (auto simp: translated_def tinv_def col_at_def arc_col_def split: if_splits)

lemma translated_rows:
  assumes "translated kept infty excl g cost t"
  shows "x \<in> set (trows t) \<Longrightarrow> (\<exists>p \<in> set (supply_groups g). x \<in> set (group_rows kept excl infty g None p)) \<or>
      (\<exists>p \<in> set (request_groups g). \<exists>i \<ge> int (length (arcs g)). x \<in> set (group_rows kept excl infty g (Some i) p))"
    "p \<in> set (supply_groups g) \<Longrightarrow> set (group_rows kept excl infty g None p) \<subseteq> set (trows t)"
    "p \<in> set (request_groups g) \<Longrightarrow> HasArcs p g \<Longrightarrow> \<exists>i. set (group_rows kept excl infty g (Some i) p) \<subseteq> set (trows t)"
proof -
  obtain rows where r: "trows t = concat (map (group_rows kept excl infty g None) (supply_groups g)) @ rows"
    "request_rows kept excl infty g (int (length (arcs g))) (int (length (arcs g) + nfaux g)) (request_groups g) rows"
    using assms by (auto simp: translated_def)
  show "(\<exists>p \<in> set (supply_groups g). x \<in> set (group_rows kept excl infty g None p)) \<or>
      (\<exists>p \<in> set (request_groups g). \<exists>i \<ge> int (length (arcs g)). x \<in> set (group_rows kept excl infty g (Some i) p))" if "x \<in> set (trows t)"
  proof (cases "x \<in> set rows")
    case True
    then show ?thesis using r(2) unfolding request_rows_def by blast
  qed (use that r(1) in auto)
  show "set (group_rows kept excl infty g None p) \<subseteq> set (trows t)" if "p \<in> set (supply_groups g)" using that r(1) by auto
  show "\<exists>i. set (group_rows kept excl infty g (Some i) p) \<subseteq> set (trows t)" if p: "p \<in> set (request_groups g)" "HasArcs p g"
  proof -
    obtain i where "set (group_rows kept excl infty g (Some i) p) \<subseteq> set rows" using r(2) p unfolding request_rows_def by blast
    then show ?thesis using r(1) by (intro exI[of _ i]) auto
  qed
qed

text \<open>C11. An exchange can always be solved. For a graph whose arcs are indexed and have positive
  preferences, the translation to a mathematical program returns without an exception, and the
  program has a solution: the columns for unmet demand make the demand rows satisfiable whatever
  the suppliers can deliver.\<close>

theorem program_always_feasible:
  assumes "prog_graph kept g" "10 ^ 15 \<le> infty"
  shows "\<exists>lp t sol. ToProg infty kept (ProgTranslator_new g excl cost) = (Inr lp, t) \<and> lp_feasible lp sol"
proof -
  obtain lp t where t: "ToProg infty kept (ProgTranslator_new g excl cost) = (Inr lp, t)" "translated kept infty excl g cost t"
    "lp_ctx lp = pt_ctx t" "lp_ints lp = (if excl then map (\<lambda>a. aid g (arc_key a)) (filter a_exclusive (arcs g)) else [])"
    by (rule ToProg_ok[OF assms(1)])
  let ?L = "length (arcs g)"
  have "col_lbs (pt_ctx t) ! i \<le> idle ?L i \<and> idle ?L i \<le> col_ubs (pt_ctx t) ! i" if "i < ?L + nfaux g" for i
  proof (cases "i < ?L")
    case True
    have "0 \<le> nqty g (a_unode (arcs g ! i))" using assms(1) by (simp add: prog_graph_def wf_graph_def)
    moreover have "0 \<le> infty" using assms(2) by (rule order_trans[rotated]) simp
    ultimately show ?thesis using translated_col[OF t(2) True] True by (auto simp: idle_def arc_ub_def)
  next
    case False
    then have "col_at t i = (cost, 0, infty)" using t(2) that by (simp add: translated_def)
    then show ?thesis using False assms(2) by (simp add: col_at_def idle_def)
  qed
  moreover have "lb \<le> row_val (idle ?L) row \<and> row_val (idle ?L) row \<le> ub" if x: "(lb, ub, row) \<in> set (trows t)" for lb ub row
  proof -
    consider p where "p \<in> set (supply_groups g)" "(lb, ub, row) \<in> set (group_rows kept excl infty g None p)"
      | p i where "p \<in> set (request_groups g)" "int ?L \<le> i" "(lb, ub, row) \<in> set (group_rows kept excl infty g (Some i) p)"
      using translated_rows(1)[OF t(2) x] by blast
    then show ?thesis
    proof cases
      case 1
      then show ?thesis using idle_rows[OF assms(1) _ _ assms(2) 1(2)] by simp
    next
      case 2
      then show ?thesis using idle_rows[OF assms(1) _ _ assms(2) 2(3)] by simp
    qed
  qed
  moreover have "idle ?L (nat i) \<in> \<int>" for i by (simp add: idle_def)
  moreover have "nat (pm_cols (pt_ctx t)) = ?L + nfaux g" using t(2) by (simp add: translated_def)
  ultimately have "lp_feasible lp (idle ?L)" using t(3) by (auto simp: lp_feasible_def)
  then show ?thesis using t(1) by blast
qed

section \<open>Flows\<close>

definition flow :: "bool \<Rightarrow> graph \<Rightarrow> (nat \<Rightarrow> double) \<Rightarrow> nat \<Rightarrow> double" where
  "flow excl g sol i = (if excl \<and> a_exclusive (arcs g ! i) then sol i * a_excl_val (arcs g ! i) else sol i)"

definition flow_matches :: "double \<Rightarrow> bool \<Rightarrow> graph \<Rightarrow> (nat \<Rightarrow> double) \<Rightarrow> nat list \<Rightarrow> match_list" where
  "flow_matches eps excl g sol is = map (\<lambda>i. (arcs g ! i, flow excl g sol i)) (filter (\<lambda>i. eps < flow excl g sol i) is)"

lemma from_prog_matches:
  assumes "arcs_indexed g" "arc_by_id (pt_graph t) = arc_by_id g" "pt_excl t = excl" "\<forall>i \<in> set is. i < length (arcs g)"
  shows "\<exists>t'. from_prog eps sol is t = (Inr (), t') \<and> matches (pt_graph t') = matches (pt_graph t) @ flow_matches eps excl g sol is"
  using assms(2-4)
proof (induction "is" arbitrary: t)
  case Nil
  then show ?case by (simp add: ok_def flow_matches_def)
next
  case (Cons i "is")
  have a: "map_of (arc_by_id (pt_graph t)) (int i) = Some (arcs g ! i)" using assms(1) Cons.prems(1,3) by (simp add: arcs_indexed_def)
  define t1 where "t1 = (if eps < flow excl g sol i then t\<lparr>pt_graph := AddMatch (arcs g ! i) (flow excl g sol i) (pt_graph t)\<rparr> else t)"
  have "arc_by_id (pt_graph t1) = arc_by_id g" "pt_excl t1 = excl" using Cons.prems(1,2) by (simp_all add: t1_def AddMatch_def)
  then obtain t' where "from_prog eps sol is t1 = (Inr (), t')" "matches (pt_graph t') = matches (pt_graph t1) @ flow_matches eps excl g sol is"
    using Cons.IH Cons.prems(3) by auto
  moreover have "from_prog eps sol (i # is) t = from_prog eps sol is t1" using a Cons.prems(2) by (simp add: t1_def flow_def Let_def)
  ultimately show ?case by (auto simp: t1_def flow_matches_def AddMatch_def)
qed

lemma solution_nonneg:
  assumes t: "translated kept infty excl g cost t" "lp_ctx lp = pt_ctx t" and f: "lp_feasible lp sol" and i: "i < length (arcs g)"
  shows "0 \<le> sol i" "sol i \<le> arc_ub infty excl (arcs g ! i) (nqty g (a_unode (arcs g ! i))) \<or> sol i = 0"
proof -
  have "i < nat (pm_cols (lp_ctx lp))" using t i by (simp add: translated_def)
  then have "col_lbs (pt_ctx t) ! i \<le> sol i" "sol i \<le> col_ubs (pt_ctx t) ! i" using f t(2) by (auto simp: lp_feasible_def)
  then show "0 \<le> sol i" "sol i \<le> arc_ub infty excl (arcs g ! i) (nqty g (a_unode (arcs g ! i))) \<or> sol i = 0"
    using translated_col[OF t(1) i] by auto
qed

text \<open>The value of a capacity row is the load that the flows put on the capacity.\<close>

definition arcs_at :: "graph \<Rightarrow> ptr \<Rightarrow> nat set" where
  "arcs_at g n = {i. i < length (arcs g) \<and> a_vnode (arcs g ! i) = n}"

lemma supply_entry:
  assumes pg: "prog_graph kept g" and p: "p \<in> set (supply_groups g)" "n \<in> set (gnodes g p)" and x: "(k, us) \<in> set (node_caps g n)"
  shows "\<exists>a \<in> set (arcs g). arc_key a = k \<and> kept n k = a \<and> n = a_vnode a \<and> us = ucaps g n a"
proof -
  have p': "p \<in> set (request_groups g @ supply_groups g)" and wf: "wf_graph g" using p(1) pg by (simp_all add: prog_graph_def)
  have ng: "ngroup g n = Some p" using wf p by (auto simp: wf_graph_def)
  obtain a where a: "a \<in> set (arcs g)" "arc_key a = k" "kept n k = a" "n \<in> {a_unode a, a_vnode a}" "us = ucaps g n a"
    using caps_entry[OF pg p' p(2) x] by blast
  have "good_arc g a" using pg a(1) unfolding prog_graph_def by blast
  then show ?thesis using request_side(2)[OF wf _ ng a(4)] p(1) a by blast
qed

lemma caps_bij:
  assumes pg: "prog_graph kept g" and p: "p \<in> set (supply_groups g)" "n \<in> set (gnodes g p)" "j < length (gcaps g p)"
  shows "bij_betw (\<lambda>(k, us). nat (aid g k)) (set (node_caps g n)) (arcs_at g n)"
proof (rule bij_betwI')
  have ix: "arcs_indexed g" and wf: "wf_graph g" and dk: "distinct (map fst (node_caps g n))"
    using pg p(1,2) unfolding prog_graph_def by auto
  note ent = supply_entry[OF pg p(1,2)]
  {
    fix x y assume x: "x \<in> set (node_caps g n)" and y: "y \<in> set (node_caps g n)"
    obtain k us k' us' where e: "x = (k, us)" "y = (k', us')" by (cases x; cases y)
    obtain a a' where a: "a \<in> set (arcs g)" "arc_key a = k" "a' \<in> set (arcs g)" "arc_key a' = k'" using ent x y e by blast
    have "k = k'" if "nat (aid g k) = nat (aid g k')" using that aid_arc(1)[OF ix a(1)] aid_arc(1)[OF ix a(3)] a by metis
    then show "((\<lambda>(k, us). nat (aid g k)) x = (\<lambda>(k, us). nat (aid g k)) y) = (x = y)"
      using x y e eq_key_imp_eq_value[OF dk, of k' us us'] by auto
  next
    fix x assume x: "x \<in> set (node_caps g n)"
    then obtain a where "a \<in> set (arcs g)" "arc_key a = fst x" "n = a_vnode a" using ent[of "fst x" "snd x"] by auto
    then show "(\<lambda>(k, us). nat (aid g k)) x \<in> arcs_at g n" using aid_arc[OF ix, of a] by (auto simp: arcs_at_def case_prod_beta)
  next
    fix i assume "i \<in> arcs_at g n"
    then have i: "i < length (arcs g)" "a_vnode (arcs g ! i) = n" by (simp_all add: arcs_at_def)
    have "good_arc g (arcs g ! i)" using pg i(1) unfolding prog_graph_def by simp
    moreover have "ngroup g n = Some p" using wf p(1,2) by (auto simp: wf_graph_def)
    ultimately have "length (ucaps g n (arcs g ! i)) = length (gcaps g p)" using i(2) by (auto simp: good_arc_def)
    then have "ucaps g n (arcs g ! i) \<noteq> []" using p(3) by auto
    then obtain us where "map_of (node_caps g n) (arc_key (arcs g ! i)) = Some us"
      by (auto simp: ucaps_def node_caps_def unit_caps_at_def omap_sub_def split: option.splits)
    then have "(arc_key (arcs g ! i), us) \<in> set (node_caps g n)" by (rule map_of_SomeD)
    then show "\<exists>x \<in> set (node_caps g n). i = (\<lambda>(k, us). nat (aid g k)) x" using aid_index[OF ix i(1)] by (intro bexI) auto
  }
qed

lemma node_load:
  assumes pg: "prog_graph kept g" and p: "p \<in> set (supply_groups g)" "n \<in> set (gnodes g p)" "j < length (gcaps g p)"
  shows "sum_list (map (\<lambda>(k, us). arc_coeff excl (kept n k) (us ! j) * sol (nat (aid g k))) (node_caps g n)) =
    (\<Sum>i \<in> arcs_at g n. flow excl g sol i * ucaps g n (arcs g ! i) ! j)"
proof -
  have ix: "arcs_indexed g" and dk: "distinct (map fst (node_caps g n))" using pg p(1,2) unfolding prog_graph_def by auto
  have "sum_list (map (\<lambda>(k, us). arc_coeff excl (kept n k) (us ! j) * sol (nat (aid g k))) (node_caps g n)) =
      (\<Sum>(k, us) \<in> set (node_caps g n). arc_coeff excl (kept n k) (us ! j) * sol (nat (aid g k)))"
    using dk by (intro sum_list_distinct_conv_sum_set) (simp add: distinct_map)
  also have "\<dots> = (\<Sum>x \<in> set (node_caps g n). (\<lambda>i. flow excl g sol i * ucaps g n (arcs g ! i) ! j) ((\<lambda>(k, us). nat (aid g k)) x))"
  proof (rule sum.cong[OF refl])
    fix x assume "x \<in> set (node_caps g n)"
    then obtain a where "a \<in> set (arcs g)" "arc_key a = fst x" "kept n (fst x) = a" "snd x = ucaps g n a"
      using supply_entry[OF pg p(1,2), of "fst x" "snd x"] by auto
    then show "(\<lambda>(k, us). arc_coeff excl (kept n k) (us ! j) * sol (nat (aid g k))) x =
        (\<lambda>i. flow excl g sol i * ucaps g n (arcs g ! i) ! j) ((\<lambda>(k, us). nat (aid g k)) x)"
      using aid_arc(1)[OF ix, of a] by (auto simp: case_prod_beta arc_coeff_def flow_def)
  qed
  also have "\<dots> = (\<Sum>i \<in> arcs_at g n. flow excl g sol i * ucaps g n (arcs g ! i) ! j)"
    by (rule sum.reindex_bij_betw[OF caps_bij[OF pg p]])
  finally show ?thesis .
qed

lemma group_load:
  assumes pg: "prog_graph kept g" and p: "p \<in> set (supply_groups g)" "j < length (gcaps g p)"
  shows "row_val sol (cap_row kept excl g (gnodes g p) j) = (\<Sum>i < length (arcs g). flow excl g sol i * arc_use g p j (arcs g ! i))"
proof -
  have wf: "wf_graph g" and dn: "distinct (gnodes g p)" using pg p(1) by (auto simp: prog_graph_def wf_graph_def)
  have use: "arc_use g p j (arcs g ! i) = (if a_vnode (arcs g ! i) \<in> set (gnodes g p) then ucaps g (a_vnode (arcs g ! i)) (arcs g ! i) ! j else 0)"
    if i: "i < length (arcs g)" for i
  proof -
    have a: "good_arc g (arcs g ! i)" "a_vnode (arcs g ! i) \<in> set (gnodes g (the (ngroup g (a_vnode (arcs g ! i)))))"
      using pg i unfolding prog_graph_def by simp_all
    have "ngroup g (a_unode (arcs g ! i)) \<noteq> Some p" using request_side(2)[OF wf a(1), of "a_unode (arcs g ! i)" p] p(1) good_arcD[OF a(1) wf] by blast
    moreover have "ngroup g (a_vnode (arcs g ! i)) = Some p \<longleftrightarrow> a_vnode (arcs g ! i) \<in> set (gnodes g p)"
      using a wf p(1) good_arcD[OF a(1) wf] by (auto simp: wf_graph_def)
    ultimately show ?thesis by (simp add: arc_use_def)
  qed
  have "row_val sol (cap_row kept excl g (gnodes g p) j) =
      sum_list (map (\<lambda>n. sum_list (map (\<lambda>(k, us). arc_coeff excl (kept n k) (us ! j) * sol (nat (aid g k))) (node_caps g n))) (gnodes g p))"
    unfolding cap_row_def row_val_concat by (simp add: row_val_def comp_def case_prod_unfold)
  also have "\<dots> = (\<Sum>n \<in> set (gnodes g p). \<Sum>i \<in> arcs_at g n. flow excl g sol i * ucaps g n (arcs g ! i) ! j)"
    using node_load[OF pg p(1) _ p(2)] by (simp add: sum_list_distinct_conv_sum_set[OF dn])
  also have "\<dots> = (\<Sum>i \<in> (\<Union>n \<in> set (gnodes g p). arcs_at g n). flow excl g sol i * arc_use g p j (arcs g ! i))"
    by (subst sum.UNION_disjoint) (auto simp: arcs_at_def use intro!: sum.cong)
  also have "\<dots> = (\<Sum>i < length (arcs g). flow excl g sol i * arc_use g p j (arcs g ! i))"
    by (rule sum.mono_neutral_left) (auto simp: arcs_at_def use)
  finally show ?thesis .
qed

section \<open>Respecting capacities\<close>

lemma flow_nonneg:
  assumes "prog_graph kept g" "translated kept infty excl g cost t" "lp_ctx lp = pt_ctx t" "lp_feasible lp sol" "i < length (arcs g)"
  shows "0 \<le> flow excl g sol i"
proof -
  have "0 \<le> a_excl_val (arcs g ! i)" using assms(1,5) unfolding prog_graph_def by simp
  then show ?thesis using solution_nonneg(1)[OF assms(2-5)] by (simp add: flow_def)
qed

lemma matched_load:
  assumes "\<And>i. i \<in> set is \<Longrightarrow> 0 \<le> flow excl g sol i * f (arcs g ! i)"
  shows "sum_list (map (\<lambda>(a, q). q * f a) (flow_matches eps excl g sol is)) \<le> sum_list (map (\<lambda>i. flow excl g sol i * f (arcs g ! i)) is)"
  using assms by (induction "is") (auto simp: flow_matches_def intro: add_increasing)

lemma solution_within_caps:
  assumes pg: "prog_graph kept g" and t: "translated kept infty excl g cost t" "lp_ctx lp = pt_ctx t" "lp_feasible lp sol"
  shows "within_caps 0 g (flow_matches eps excl g sol [0..<length (arcs g)])"
  unfolding within_caps_def
proof (intro ballI allI impI)
  fix p j assume p: "p \<in> set (supply_groups g)" and j: "j < length (gcaps g p)"
  let ?L = "length (arcs g)" and ?row = "cap_row kept excl g (gnodes g p) j"
  have "(0, gcaps g p ! j, ?row) \<in> set (group_rows kept excl infty g None p)"
    using j by (auto simp: group_rows_def bounded_row_def)
  then have "(0, gcaps g p ! j, ?row) \<in> set (ctx_rows (lp_ctx lp))" using translated_rows(2)[OF t(1) p] t(2) by auto
  then have ub: "row_val sol ?row \<le> gcaps g p ! j" using t(3) by (auto simp: lp_feasible_def)
  have "0 \<le> flow excl g sol i * arc_use g p j (arcs g ! i)" if i: "i < ?L" for i
  proof -
    have "good_arc g (arcs g ! i)" "wf_graph g" using pg i unfolding prog_graph_def by simp_all
    then show ?thesis using arc_use_nonneg j flow_nonneg[OF pg t i] by (auto intro!: mult_nonneg_nonneg)
  qed
  then have "cap_use g (flow_matches eps excl g sol [0..<?L]) p j \<le> sum_list (map (\<lambda>i. flow excl g sol i * arc_use g p j (arcs g ! i)) [0..<?L])"
    unfolding cap_use_def by (intro matched_load) simp
  also have "\<dots> = row_val sol ?row" unfolding group_load[OF pg p j] by (simp add: sum_list_distinct_conv_sum_set atLeast0LessThan)
  finally show "cap_use g (flow_matches eps excl g sol [0..<?L]) p j \<le> gcaps g p ! j * (1 + 0)" using ub by simp
qed

lemma HasArcs_node:
  assumes "good_arc g a" "n = a_unode a" "n \<in> set (gnodes g p)"
  shows "HasArcs p g"
proof -
  have "npref g n a \<noteq> 0" using assms(1,2) by (auto simp: good_arc_def)
  then obtain nd where nd: "x_nodes g n = Some nd" "map_of (prefs nd) (arc_key a) \<noteq> None" by (auto simp: npref_def pref_at_def split: option.splits)
  then have "prefs nd \<noteq> []" by auto
  with nd(1) show ?thesis using assms(3) by (cases "x_groups g p") (auto simp: HasArcs_def gnodes_def list_ex_iff intro!: bexI[of _ n])
qed

text \<open>The exclusive orders a group of nodes can take.\<close>

definition excl_arc :: "graph \<Rightarrow> ptr list \<Rightarrow> nat \<Rightarrow> bool" where
  "excl_arc g ns i \<longleftrightarrow> i < length (arcs g) \<and> a_exclusive (arcs g ! i) \<and> (\<exists>n \<in> set ns. arc_key (arcs g ! i) \<in> arc_key ` set (node_arcs g n))"

lemma excl_row_present:
  assumes pg: "prog_graph kept g" and t: "translated kept infty True g cost t"
    and p: "p \<in> set (request_groups g @ supply_groups g)" "ns \<in> set (gexcl g p)" and i: "excl_arc g ns i"
  shows "(0, 1, excl_of g ns) \<in> set (trows t)" "(int i, 1) \<in> set (excl_of g ns)"
proof -
  have ix: "arcs_indexed g" and wf: "wf_graph g" using pg by (simp_all add: prog_graph_def)
  obtain n a where a: "n \<in> set ns" "a \<in> set (node_arcs g n)" "arc_key a = arc_key (arcs g ! i)" "i < length (arcs g)"
    using i by (auto simp: excl_arc_def)
  have n: "n \<in> set (gnodes g p)" "n \<in> {a_unode a, a_vnode a}" using pg p a(1,2) unfolding prog_graph_def by blast+
  show m: "(int i, 1) \<in> set (excl_of g ns)" using a aid_index[OF ix a(4)] by (force simp: excl_of_def)
  have r: "(0, 1, excl_of g ns) \<in> set (group_rows kept True infty g faux p)" for faux using p(2) m by (auto simp: group_rows_def)
  show "(0, 1, excl_of g ns) \<in> set (trows t)"
  proof (cases "p \<in> set (supply_groups g)")
    case False
    then have pr: "p \<in> set (request_groups g)" using p(1) by simp
    have ga: "good_arc g (arcs g ! i)" using pg a(4) unfolding prog_graph_def by simp
    have e: "a_unode a = a_unode (arcs g ! i)" "a_vnode a = a_vnode (arcs g ! i)" using a(3) by (auto simp: arc_key_def)
    have "ngroup g n = Some p" using wf p(1) n(1) by (auto simp: wf_graph_def)
    then have "n = a_unode (arcs g ! i)" using request_side(1)[OF wf ga _ _ pr] n(2) e by auto
    then obtain f where "set (group_rows kept True infty g (Some f) p) \<subseteq> set (trows t)"
      using translated_rows(3)[OF t pr] HasArcs_node[OF ga _ n(1)] by blast
    then show ?thesis using r by blast
  qed (use translated_rows(2)[OF t] r in blast)
qed

lemma row_val_two:
  assumes "\<forall>(i, c) \<in> set row. 0 \<le> c * sol (nat i)" "(i, c) \<in> set row" "(i', c') \<in> set row" "i \<noteq> i'"
  shows "c * sol (nat i) + c' * sol (nat i') \<le> row_val sol row"
  using assms
proof (induction row)
  case (Cons x row)
  obtain j d where x: "x = (j, d)" by (cases x)
  have n: "0 \<le> d * sol (nat j)" "\<forall>(i, c) \<in> set row. 0 \<le> c * sol (nat i)" using Cons.prems(1) x by auto
  consider "x = (i, c)" "(i', c') \<in> set row" | "x = (i', c')" "(i, c) \<in> set row" | "(i, c) \<in> set row" "(i', c') \<in> set row"
    using Cons.prems(2-4) by auto
  then show ?case
  proof cases
    case 1
    then show ?thesis using row_val_nonneg_ge[OF n(2) 1(2)] by simp
  next
    case 2
    then show ?thesis using row_val_nonneg_ge[OF n(2) 2(2)] by simp
  next
    case 3
    then show ?thesis using Cons.IH[OF n(2) 3 Cons.prems(4)] n(1) x by simp
  qed
qed simp

lemma one_exclusive_order:
  assumes pg: "prog_graph kept g" and t: "translated kept infty True g cost t" "lp_ctx lp = pt_ctx t" "lp_feasible lp sol"
    and ints: "lp_ints lp = map (\<lambda>a. aid g (arc_key a)) (filter a_exclusive (arcs g))"
    and p: "p \<in> set (request_groups g @ supply_groups g)" "ns \<in> set (gexcl g p)"
    and i: "excl_arc g ns i" "excl_arc g ns i'" "sol i \<noteq> 0" "sol i' \<noteq> 0"
  shows "i = i'"
proof (rule ccontr)
  assume ne: "i \<noteq> i'"
  have ix: "arcs_indexed g" using pg by (simp add: prog_graph_def)
  have ge: "1 \<le> sol k" if k: "excl_arc g ns k" "sol k \<noteq> 0" for k
  proof -
    have b: "k < length (arcs g)" "a_exclusive (arcs g ! k)" using k(1) by (auto simp: excl_arc_def)
    then have "aid g (arc_key (arcs g ! k)) \<in> set (lp_ints lp)" unfolding ints by auto
    then have "sol k \<in> \<int>" using t(3) aid_index[OF ix b(1)] by (force simp: lp_feasible_def)
    moreover have "0 < sol k" using solution_nonneg(1)[OF t b(1)] k(2) by simp
    ultimately show ?thesis by (auto elim!: Ints_cases)
  qed
  have nn: "\<forall>(k, c) \<in> set (excl_of g ns). 0 \<le> c * sol (nat k)"
    using excl_row_ids[OF pg p] solution_nonneg(1)[OF t] by force
  have "1 * sol (nat (int i)) + 1 * sol (nat (int i')) \<le> row_val sol (excl_of g ns)"
    by (rule row_val_two[OF nn excl_row_present(2)[OF pg t(1) p i(1)] excl_row_present(2)[OF pg t(1) p i(2)]]) (use ne in simp)
  moreover have "row_val sol (excl_of g ns) \<le> 1"
    using t(2,3) excl_row_present(1)[OF pg t(1) p i(1)] by (auto simp: lp_feasible_def)
  ultimately show False using ge[OF i(1,3)] ge[OF i(2,4)] by simp
qed

lemma flow_matches_good:
  assumes pg: "prog_graph kept g" and "\<forall>i \<in> set is. i < length (arcs g)"
  shows "good_matches eps g (flow_matches eps excl g sol is)"
proof -
  have "good_arc g (arcs g ! i)" if "i \<in> set is" for i using pg assms(2) that unfolding prog_graph_def by simp
  then show ?thesis by (auto simp: good_matches_def flow_matches_def)
qed

lemma match_amount:
  assumes pg: "prog_graph kept g" and t: "translated kept infty excl g cost t" "lp_ctx lp = pt_ctx t" "lp_feasible lp sol"
    and ints: "lp_ints lp = (if excl then map (\<lambda>a. aid g (arc_key a)) (filter a_exclusive (arcs g)) else [])" and "0 \<le> eps"
    and m: "(a, q) \<in> set (flow_matches eps excl g sol [0..<length (arcs g)])"
  shows "if excl \<and> a_exclusive a then q = a_excl_val a else q \<le> nqty g (a_unode a)"
proof -
  have ix: "arcs_indexed g" using pg by (simp add: prog_graph_def)
  obtain i where i: "i < length (arcs g)" "a = arcs g ! i" "q = flow excl g sol i" "eps < q" using m by (auto simp: flow_matches_def)
  note n = solution_nonneg[OF t i(1)]
  have q: "sol i \<noteq> 0" using i(3,4) \<open>0 \<le> eps\<close> by (auto simp: flow_def split: if_splits)
  show ?thesis
  proof (cases "excl \<and> a_exclusive a")
    case True
    then have "aid g (arc_key (arcs g ! i)) \<in> set (lp_ints lp)" using i(1,2) ints by auto
    then have "sol i \<in> \<int>" using t(3) aid_index[OF ix i(1)] by (force simp: lp_feasible_def)
    moreover have "0 < sol i" "sol i \<le> 1" using n q True i(2) by (auto simp: arc_ub_def)
    ultimately have "sol i = 1" by (auto elim!: Ints_cases)
    then show ?thesis using True i(2,3) by (simp add: flow_def)
  next
    case False
    then show ?thesis using n(2) q i(2,3) by (auto simp: flow_def arc_ub_def split: if_splits)
  qed
qed

text \<open>C4. Solutions of the program are safe. Whatever feasible solution the solver returns for the
  program of a graph, reading it back does not throw and gives matches on arcs of the graph that respect
  every capacity of every supply group exactly; each single match is at most the quantity of its request, or,
  for an exclusive order, the whole order; and of the exclusive orders in a group at most one is matched.
  The bound on a request is per match only: the rows of a request group have no upper bound, so a
  feasible solution (though a wasteful one) may serve a request from several arcs with more than it asked
  for in total.\<close>

theorem program_solution_safe:
  assumes "prog_graph kept g" "matches g = []" "ToProg infty kept (ProgTranslator_new g excl cost) = (Inr lp, t)" "lp_feasible lp sol" "0 \<le> eps"
  shows "\<exists>t' M. FromProg eps sol t = (Inr (), t') \<and> matches (pt_graph t') = M \<and> good_matches eps g M \<and> within_caps 0 g M \<and>
    (\<forall>(a, q) \<in> set M. if excl \<and> a_exclusive a then q = a_excl_val a else q \<le> nqty g (a_unode a)) \<and>
    (excl \<longrightarrow> (\<forall>p \<in> set (request_groups g @ supply_groups g). \<forall>ns \<in> set (gexcl g p). \<forall>i i'.
       excl_arc g ns i \<longrightarrow> excl_arc g ns i' \<longrightarrow> arcs g ! i \<in> fst ` set M \<longrightarrow> arcs g ! i' \<in> fst ` set M \<longrightarrow> i = i'))"
proof -
  obtain lp' t1 where tt: "ToProg infty kept (ProgTranslator_new g excl cost) = (Inr lp', t1)" "translated kept infty excl g cost t1"
    "lp_ctx lp' = pt_ctx t1" "lp_ints lp' = (if excl then map (\<lambda>a. aid g (arc_key a)) (filter a_exclusive (arcs g)) else [])"
    by (rule ToProg_ok[OF assms(1)])
  have tr: "translated kept infty excl g cost t" "lp_ctx lp = pt_ctx t" "lp_ints lp = (if excl then map (\<lambda>a. aid g (arc_key a)) (filter a_exclusive (arcs g)) else [])"
    using tt assms(3) by auto
  then have s: "same_graph g (pt_graph t)" "pt_excl t = excl" by (auto simp: translated_def tinv_def)
  have ix: "arcs_indexed g" using assms(1) by (simp add: prog_graph_def)
  let ?L = "length (arcs g)"
  let ?M = "flow_matches eps excl g sol [0..<?L]"
  obtain t' where t': "FromProg eps sol t = (Inr (), t')" "matches (pt_graph t') = ?M"
    using from_prog_matches[OF ix same_graphD(7)[OF s(1)] s(2), of "[0..<?L]" eps sol] same_graphD(5,8)[OF s(1)] assms(2) by (auto simp: FromProg_def)
  note amount = match_amount[OF assms(1) tr(1,2) assms(4) tr(3) assms(5)]
  have inj: "sol i \<noteq> 0" if x: "excl_arc g ns i" "arcs g ! i \<in> fst ` set ?M" for i ns
  proof -
    obtain k where k: "k < ?L" "arcs g ! k = arcs g ! i" "eps < flow excl g sol k" using x(2) by (auto simp: flow_matches_def)
    then have "k = i" using aid_index[OF ix k(1)] aid_index[OF ix, of i] x(1) by (simp add: excl_arc_def)
    then show ?thesis using k(3) assms(5) by (auto simp: flow_def split: if_splits)
  qed
  have "i = i'" if "excl" "p \<in> set (request_groups g @ supply_groups g)" "ns \<in> set (gexcl g p)" "excl_arc g ns i" "excl_arc g ns i'"
    "arcs g ! i \<in> fst ` set ?M" "arcs g ! i' \<in> fst ` set ?M" for p ns i i'
    using one_exclusive_order[OF assms(1) _ tr(2) assms(4) _ that(2-5)] tr(1,3) that(1) inj[OF that(4,6)] inj[OF that(5,7)] by simp
  then show ?thesis using t' flow_matches_good[OF assms(1)] solution_within_caps[OF assms(1) tr(1,2) assms(4)] amount
    by (intro exI[of _ t'] exI[of _ ?M]) (auto simp del: set_append)
qed

section \<open>An instance\<close>

text \<open>A request for 5 units, and a bid on it that offers 3 from a supplier that could deliver 10.\<close>

definition offer_graph :: graph where
  "offer_graph = \<lparr>x_nodes =
       [1 \<mapsto> \<lparr>n_group = Some 0, unit_capacities = [((1, 3), [1])], prefs = [((1, 3), (demo_arc, 2))],
             n_exclusive = False, n_commod = ''fuel'', n_agent_id = 7, n_qty = 5\<rparr>,
        3 \<mapsto> \<lparr>n_group = Some 2, unit_capacities = [((1, 3), [1])], prefs = [],
             n_exclusive = False, n_commod = ''fuel'', n_agent_id = 8, n_qty = 3\<rparr>],
     x_groups =
       [0 \<mapsto> \<lparr>g_nodes = [1], g_excl_groups = [], g_capacities = [5], g_qty = 5\<rparr>,
        2 \<mapsto> \<lparr>g_nodes = [3], g_excl_groups = [], g_capacities = [10], g_qty = 0\<rparr>],
     x_next = 4, request_groups = [0], supply_groups = [2],
     node_arc_map = [(1, [demo_arc]), (3, [demo_arc])], matches = [], arcs = [demo_arc],
     arc_ids = [((1, 3), 0)], arc_by_id = [(0, demo_arc)], next_arc_id = 1\<rparr>"

lemmas offer_eval = offer_graph_def demo_arc_def ngroup_def nqty_def ucaps_def
  npref_def gcaps_def gtarget_def gnodes_def unit_caps_at_def pref_at_def arc_key_def omap_sub_def

lemma offer_good_arc: "good_arc offer_graph demo_arc"
  by (simp add: good_arc_def offer_eval)

lemma offer_wf: "wf_graph offer_graph"
proof -
  have "0 \<le> nqty offer_graph n \<and> nqty offer_graph n \<le> DBL_MAX" for n using DBL_MAX_large by (simp add: offer_eval)
  moreover have "\<forall>p \<in> {0, 2}. \<forall>c \<in> set (gcaps offer_graph p). 0 \<le> c \<and> c \<le> DBL_MAX" using DBL_MAX_large by (simp add: offer_eval)
  ultimately show ?thesis using offer_good_arc by (simp add: wf_graph_def) (simp add: offer_eval)
qed

lemma offer_prog: "prog_graph (\<lambda>_ _. demo_arc) offer_graph"
  using offer_wf offer_good_arc
  by (simp add: prog_graph_def) (simp add: arcs_indexed_def node_caps_def gexcl_def arc_keys_def offer_eval)

definition offer_ctx :: prog_ctx where
  "offer_ctx = \<lparr>obj_coeffs = [Fin (1 / 2), Fin (11 / 20)], row_ubs = [10, 10 ^ 20], row_lbs = [0, 5], col_ubs = [5, 10 ^ 20], col_lbs = [0, 0],
     pm_cols = 2, pm_rows = [[(0, 1)], [(0, 1), (1, 1)]]\<rparr>"

lemma offer_ToProg:
  "ToProg (10 ^ 20) (\<lambda>_ _. demo_arc) (ProgTranslator_new offer_graph False (PseudoCost False offer_graph)) =
    (Inr \<lparr>lp_ctx = offer_ctx, lp_ints = []\<rparr>,
     \<lparr>pt_graph = offer_graph, pt_excl = False, arc_offset = 2, pt_ctx = offer_ctx, pseudo_cost = Fin (11 / 20)\<rparr>)"
  by (simp add: ToProg_def ProgTranslator_Translate_def ProgTranslator_new_def ProgTranslator_Init_def Populate_def XlateGrp_def HasArcs_def
      PseudoCost_def PseudoCostByPref_def pref_cost_def Cost_def CheckPref_def set_col_def vec_put_def arc_id_def add_row_def arc_coeff_def
      arc_ub_def offer_graph_def demo_arc_def offer_ctx_def omap_sub_def omap_touch_def omap_ins_def ok_def Let_def upto.simps)

lemma offer_feasible:
  "lp_feasible \<lparr>lp_ctx = offer_ctx, lp_ints = []\<rparr> sol \<longleftrightarrow>
    0 \<le> sol 0 \<and> sol 0 \<le> 5 \<and> 0 \<le> sol 1 \<and> sol 1 \<le> 10 ^ 20 \<and> 5 \<le> sol 0 + sol 1 \<and> sol 0 + sol 1 \<le> 10 ^ 20"
  by (auto simp: lp_feasible_def offer_ctx_def ctx_rows_def row_val_def less_2_cases_iff numeral_2_eq_2 less_Suc_eq)

theorem program_always_feasible_witness:
  "\<exists>lp t sol. ToProg (10 ^ 20) (\<lambda>_ _. demo_arc) (ProgTranslator_new offer_graph True (Fin 1)) = (Inr lp, t) \<and> lp_feasible lp sol"
  using program_always_feasible [OF offer_prog, of "10 ^ 20" True "Fin 1"] by simp

theorem program_solution_safe_witness:
  "\<exists>t' M. FromProg 0 (\<lambda>i. if i = 0 then 4 else 1)
       \<lparr>pt_graph = offer_graph, pt_excl = False, arc_offset = 2, pt_ctx = offer_ctx, pseudo_cost = Fin (11 / 20)\<rparr> = (Inr (), t') \<and>
     matches (pt_graph t') = M \<and> within_caps 0 offer_graph M"
proof -
  have "matches offer_graph = []" by (simp add: offer_graph_def)
  moreover have "lp_feasible \<lparr>lp_ctx = offer_ctx, lp_ints = []\<rparr> (\<lambda>i. if i = 0 then 4 else 1)" by (simp add: offer_feasible)
  ultimately show ?thesis using program_solution_safe [OF offer_prog _ offer_ToProg] by blast
qed

section \<open>Offers\<close>

text \<open>The objective of a program whose coefficients are finite.\<close>

definition lp_cost :: "lprog \<Rightarrow> (nat \<Rightarrow> double) \<Rightarrow> xdouble" where
  "lp_cost lp sol = foldl (\<lambda>s i. xadd s (xmul (obj_coeffs (lp_ctx lp) ! i) (Fin (sol i)))) (Fin 0) [0..<nat (pm_cols (lp_ctx lp))]"

definition lp_optimal :: "lprog \<Rightarrow> (nat \<Rightarrow> double) \<Rightarrow> bool" where
  "lp_optimal lp sol \<longleftrightarrow> lp_feasible lp sol \<and> (\<forall>sol'. lp_feasible lp sol' \<longrightarrow> \<not> xless (lp_cost lp sol') (lp_cost lp sol))"

lemma offer_cost: "lp_cost \<lparr>lp_ctx = offer_ctx, lp_ints = []\<rparr> sol = Fin (sol 0 / 2 + 11 / 20 * sol 1)"
  by (simp add: lp_cost_def offer_ctx_def upt_rec)

text \<open>C33. The optimising solver trades more than a bid offers. The column of an arc is bounded by the
  quantity of the request alone, never by the quantity of the bid: for a request of 5 units and a
  bid that offers 3 of it, with a supplier capacity of 10, the program has optimal solutions and
  every one of them matches 5 units on the bid. The greedy solver takes the smaller of the two.\<close>

theorem program_exceeds_offer:
  "(\<exists>sol. lp_optimal \<lparr>lp_ctx = offer_ctx, lp_ints = []\<rparr> sol) \<and>
   ToProg (10 ^ 20) (\<lambda>_ _. demo_arc) (ProgTranslator_new offer_graph False (PseudoCost False offer_graph)) =
    (Inr \<lparr>lp_ctx = offer_ctx, lp_ints = []\<rparr>,
     \<lparr>pt_graph = offer_graph, pt_excl = False, arc_offset = 2, pt_ctx = offer_ctx, pseudo_cost = Fin (11 / 20)\<rparr>) \<and>
   {sol. lp_optimal \<lparr>lp_ctx = offer_ctx, lp_ints = []\<rparr> sol} \<subseteq>
     {sol. matches (pt_graph (snd (FromProg 0 sol
        \<lparr>pt_graph = offer_graph, pt_excl = False, arc_offset = 2, pt_ctx = offer_ctx, pseudo_cost = Fin (11 / 20)\<rparr>))) = [(demo_arc, 5)]} \<and>
   nqty offer_graph (a_vnode demo_arc) = 3"
proof -
  have opt: "lp_optimal \<lparr>lp_ctx = offer_ctx, lp_ints = []\<rparr> sol \<longleftrightarrow> sol 0 = 5 \<and> sol 1 = 0" for sol
  proof
    assume o: "lp_optimal \<lparr>lp_ctx = offer_ctx, lp_ints = []\<rparr> sol"
    then have f: "sol 0 \<le> 5" "0 \<le> sol 1" "5 \<le> sol 0 + sol 1" by (auto simp: lp_optimal_def offer_feasible)
    have "\<not> xless (lp_cost \<lparr>lp_ctx = offer_ctx, lp_ints = []\<rparr> (\<lambda>i. if i = 0 then 5 else 0)) (lp_cost \<lparr>lp_ctx = offer_ctx, lp_ints = []\<rparr> sol)"
      using o by (auto simp: lp_optimal_def offer_feasible)
    then show "sol 0 = 5 \<and> sol 1 = 0" using f by (simp add: offer_cost)
  next
    assume "sol 0 = 5 \<and> sol 1 = 0"
    then show "lp_optimal \<lparr>lp_ctx = offer_ctx, lp_ints = []\<rparr> sol" by (auto simp: lp_optimal_def offer_feasible offer_cost)
  qed
  have "matches (pt_graph (snd (FromProg 0 sol \<lparr>pt_graph = offer_graph, pt_excl = False, arc_offset = 2, pt_ctx = offer_ctx,
      pseudo_cost = Fin (11 / 20)\<rparr>))) = [(demo_arc, 5)]" if "sol 0 = 5" for sol
    using that by (simp add: FromProg_def offer_graph_def demo_arc_def Let_def AddMatch_def ok_def)
  moreover have "lp_optimal \<lparr>lp_ctx = offer_ctx, lp_ints = []\<rparr> (\<lambda>i. if i = 0 then 5 else 0)" by (simp add: opt)
  moreover have "nqty offer_graph (a_vnode demo_arc) = 3" by (simp add: offer_eval)
  ultimately show ?thesis using offer_ToProg opt by blast
qed

end
