(* ===== verification/Recorder_Model.thy ===== *)
theory Recorder_Model
  imports Cyclus_Prelude
begin

text \<open>
  recorder.{h,cc} and datum.{h,cc}: the buffer between the simulation and its output databases. The
  recorder owns a fixed vector of \<open>Datum\<close> objects that it hands out again and again, so that a datum
  is an address in a store. The back ends are a parameter: \<open>notify\<close> and \<open>flush\<close> are the virtual
  methods of rec_backend.h on the state \<open>'b\<close> of all of them, and may throw.
\<close>

section \<open>Data\<close>

text \<open>A value is stored with a \<open>const char*\<close> to the name of its field: a pointer to a literal, or one
  into a string that has been destroyed since (\<open>None\<close>).\<close>

record 'v datum =
  d_title :: string
  d_vals :: "(string option \<times> 'v) list"
  d_shapes :: "int list list"
  d_fields :: "string list"

record 'v recorder =
  rc_store :: "ptr \<rightharpoonup> 'v datum"
  rc_next :: ptr
  rc_data :: "ptr list"
  rc_index :: nat
  rc_backs :: "ptr list"
  rc_dump_count :: nat
  rc_uuid :: 'v
  rc_inject :: bool

definition Datum_new :: "string \<Rightarrow> 'v datum" where
  "Datum_new title = \<lparr>d_title = title, d_vals = [], d_shapes = [], d_fields = []\<rparr>"

definition upd_datum :: "ptr \<Rightarrow> ('v datum \<Rightarrow> 'v datum) \<Rightarrow> 'v recorder \<Rightarrow> 'v recorder" where
  "upd_datum p f r = r\<lparr>rc_store := (rc_store r)(p := map_option f (rc_store r p))\<rparr>"

definition AddValBase :: "string option \<Rightarrow> 'v \<Rightarrow> int list option \<Rightarrow> 'v datum \<Rightarrow> 'v datum" where
  "AddValBase field v shape d = d\<lparr>d_vals := d_vals d @ [(field, v)],
     d_shapes := d_shapes d @ [case shape of None \<Rightarrow> [] | Some s \<Rightarrow> s]\<rparr>"

text \<open>The overload for literals, and the one for strings, which keeps a pointer into its argument.\<close>

definition add_literal :: "string \<Rightarrow> 'v \<Rightarrow> int list option \<Rightarrow> 'v datum \<Rightarrow> 'v datum" where
  "add_literal field v shape d = AddValBase (Some field) v shape (d\<lparr>d_fields := d_fields d @ [field]\<rparr>)"

definition add_string :: "string \<Rightarrow> 'v \<Rightarrow> int list option \<Rightarrow> 'v datum \<Rightarrow> 'v datum" where
  "add_string field v shape d = AddValBase None v shape (d\<lparr>d_fields := d_fields d @ [field]\<rparr>)"

definition AddVal :: "ptr \<Rightarrow> string \<Rightarrow> 'v \<Rightarrow> int list option \<Rightarrow> 'v recorder \<Rightarrow> ('v recorder, unit) exec" where
  "AddVal p field v shape r = deref (rc_store r p) r (\<lambda>_. ok () (upd_datum p (add_literal field v shape) r))"

definition AddVal_string :: "ptr \<Rightarrow> string \<Rightarrow> 'v \<Rightarrow> int list option \<Rightarrow> 'v recorder \<Rightarrow> ('v recorder, unit) exec" where
  "AddVal_string p field v shape r = deref (rc_store r p) r (\<lambda>_. ok () (upd_datum p (add_string field v shape) r))"

section \<open>The buffer\<close>

definition delete_data :: "'v recorder \<Rightarrow> 'v recorder" where
  "delete_data r = r\<lparr>rc_store := (rc_store r) |` (- set (rc_data r))\<rparr>"

definition blank :: "'v recorder \<Rightarrow> 'v datum" where
  "blank r = (if rc_inject r then add_literal ''SimId'' (rc_uuid r) None (Datum_new '''') else Datum_new '''')"

fun make_data :: "nat \<Rightarrow> 'v recorder \<Rightarrow> 'v recorder" where
  "make_data 0 r = r"
| "make_data (Suc n) r = make_data n (r\<lparr>rc_store := (rc_store r)(rc_next r \<mapsto> blank r), rc_data := rc_data r @ [rc_next r],
     rc_next := Suc (rc_next r)\<rparr>)"

definition set_dump_count :: "nat \<Rightarrow> 'v recorder \<Rightarrow> 'v recorder" where
  "set_dump_count n r = (make_data n ((delete_data r)\<lparr>rc_data := []\<rparr>))\<lparr>rc_dump_count := n\<rparr>"

definition kDefaultDumpCount :: nat where
  "kDefaultDumpCount = 10000"

text \<open>The constructors differ in the arguments they have defaults for; the id is random or given.\<close>

definition Recorder_new :: "'v \<Rightarrow> bool \<Rightarrow> nat \<Rightarrow> 'v recorder" where
  "Recorder_new uuid inject_sim_id dump_count = set_dump_count dump_count
     \<lparr>rc_store = Map.empty, rc_next = 0, rc_data = [], rc_index = 0, rc_backs = [], rc_dump_count = 0, rc_uuid = uuid,
      rc_inject = inject_sim_id\<rparr>"

definition NewDatum :: "string \<Rightarrow> 'v recorder \<Rightarrow> ('v recorder, ptr) exec" where
  "NewDatum title r =
     (if rc_index r < length (rc_data r) then
        let p = rc_data r ! rc_index r; n = (if rc_inject r then 1 else 0)
        in deref (rc_store r p) r (\<lambda>_. ok p (upd_datum p (\<lambda>d. \<lparr>d_title = title, d_vals = take n (d_vals d), d_shapes = take n (d_shapes d),
             d_fields = take n (d_fields d)\<rparr>) (r\<lparr>rc_index := rc_index r + 1\<rparr>)))
      else throw Undefined r)"

type_synonym ('v, 'b) rec_state = "'v recorder \<times> 'b"

definition send :: "(ptr \<Rightarrow> 'v datum list \<Rightarrow> 'b \<Rightarrow> ('b, unit) exec) \<Rightarrow> ptr list \<Rightarrow> ptr \<Rightarrow> ('v, 'b) rec_state \<Rightarrow> (('v, 'b) rec_state, unit) exec" where
  "send notify ps b s = deref (those (map (rc_store (fst s)) ps)) s (\<lambda>ds.
     case notify b ds (snd s) of (x, w) \<Rightarrow> (x, (fst s, w)))"

definition flush_back :: "(ptr \<Rightarrow> 'b \<Rightarrow> ('b, unit) exec) \<Rightarrow> ptr \<Rightarrow> ('v, 'b) rec_state \<Rightarrow> (('v, 'b) rec_state, unit) exec" where
  "flush_back flush b s = (case flush b (snd s) of (x, w) \<Rightarrow> (x, (fst s, w)))"

definition NotifyBackends :: "(ptr \<Rightarrow> 'v datum list \<Rightarrow> 'b \<Rightarrow> ('b, unit) exec) \<Rightarrow> ('v, 'b) rec_state \<Rightarrow> (('v, 'b) rec_state, unit) exec" where
  "NotifyBackends notify s = foreach (send notify (rc_data (fst s))) (rc_backs (fst s)) ((fst s)\<lparr>rc_index := 0\<rparr>, snd s)"

definition AddDatum :: "(ptr \<Rightarrow> 'v datum list \<Rightarrow> 'b \<Rightarrow> ('b, unit) exec) \<Rightarrow> ('v, 'b) rec_state \<Rightarrow> (('v, 'b) rec_state, unit) exec" where
  "AddDatum notify s = (if length (rc_data (fst s)) \<le> rc_index (fst s) then NotifyBackends notify s else ok () s)"

definition Record :: "(ptr \<Rightarrow> 'v datum list \<Rightarrow> 'b \<Rightarrow> ('b, unit) exec) \<Rightarrow> ptr \<Rightarrow> ('v, 'b) rec_state \<Rightarrow> (('v, 'b) rec_state, unit) exec" where
  "Record notify p s = deref (rc_store (fst s) p) s (\<lambda>_. AddDatum notify s)"

text \<open>A copy of the vector is cut to the data handed out so far; were it longer than the vector, null
  pointers would be appended.\<close>

definition rc_Flush :: "(ptr \<Rightarrow> 'v datum list \<Rightarrow> 'b \<Rightarrow> ('b, unit) exec) \<Rightarrow> (ptr \<Rightarrow> 'b \<Rightarrow> ('b, unit) exec) \<Rightarrow>
    ('v, 'b) rec_state \<Rightarrow> (('v, 'b) rec_state, unit) exec" where
  "rc_Flush notify flush s =
     (if rc_index (fst s) = 0 then ok () s
      else if length (rc_data (fst s)) < rc_index (fst s) then throw Undefined ((fst s)\<lparr>rc_index := 0\<rparr>, snd s)
      else foreach (\<lambda>b s1. andThen (send notify (take (rc_index (fst s)) (rc_data (fst s))) b s1) (\<lambda>_. flush_back flush b))
        (rc_backs (fst s)) ((fst s)\<lparr>rc_index := 0\<rparr>, snd s))"

definition RegisterBackend :: "ptr \<Rightarrow> 'v recorder \<Rightarrow> 'v recorder" where
  "RegisterBackend b r = r\<lparr>rc_backs := rc_backs r @ [b]\<rparr>"

definition rc_Close :: "(ptr \<Rightarrow> 'v datum list \<Rightarrow> 'b \<Rightarrow> ('b, unit) exec) \<Rightarrow> (ptr \<Rightarrow> 'b \<Rightarrow> ('b, unit) exec) \<Rightarrow>
    ('v, 'b) rec_state \<Rightarrow> (('v, 'b) rec_state, unit) exec" where
  "rc_Close notify flush s = andThen (rc_Flush notify flush s) (\<lambda>_ s1. ok () ((fst s1)\<lparr>rc_backs := []\<rparr>, snd s1))"

definition set_inject_sim_id :: "(ptr \<Rightarrow> 'v datum list \<Rightarrow> 'b \<Rightarrow> ('b, unit) exec) \<Rightarrow> (ptr \<Rightarrow> 'b \<Rightarrow> ('b, unit) exec) \<Rightarrow> bool \<Rightarrow>
    ('v, 'b) rec_state \<Rightarrow> (('v, 'b) rec_state, unit) exec" where
  "set_inject_sim_id notify flush x s =
     (if x = rc_inject (fst s) then ok () s
      else andThen (rc_Flush notify flush s) (\<lambda>_ s1. ok () (set_dump_count (rc_dump_count (fst s1)) ((fst s1)\<lparr>rc_inject := x\<rparr>), snd s1)))"

text \<open>The destructor swallows the library's errors; other exceptions end the program.\<close>

definition Recorder_delete :: "(ptr \<Rightarrow> 'v datum list \<Rightarrow> 'b \<Rightarrow> ('b, unit) exec) \<Rightarrow> (ptr \<Rightarrow> 'b \<Rightarrow> ('b, unit) exec) \<Rightarrow>
    ('v, 'b) rec_state \<Rightarrow> (('v, 'b) rec_state, unit) exec" where
  "Recorder_delete notify flush s = (case rc_Flush notify flush s of
     (Inl e, s1) \<Rightarrow> if e \<in> {OutOfRange, DomainError, BadAnyCast, AssertFailed, Undefined} then throw e s1 else ok () (delete_data (fst s1), snd s1)
   | (Inr _, s1) \<Rightarrow> ok () (delete_data (fst s1), snd s1))"

section \<open>Rows\<close>

text \<open>What a client writes: \<open>NewDatum(title)->AddVal(..)->..->Record()\<close>.\<close>

definition write_row :: "(ptr \<Rightarrow> 'v datum list \<Rightarrow> 'b \<Rightarrow> ('b, unit) exec) \<Rightarrow> string \<Rightarrow> (string \<times> 'v) list \<Rightarrow>
    ('v, 'b) rec_state \<Rightarrow> (('v, 'b) rec_state, unit) exec" where
  "write_row notify title vals s = (case NewDatum title (fst s) of
     (Inl e, r) \<Rightarrow> throw e (r, snd s)
   | (Inr p, r) \<Rightarrow> (case foreach (\<lambda>(f, v). AddVal p f v None) vals r of
       (Inl e, r1) \<Rightarrow> throw e (r1, snd s)
     | (Inr _, r1) \<Rightarrow> Record notify p (r1, snd s)))"

definition row_datum :: "'v recorder \<Rightarrow> string \<Rightarrow> (string \<times> 'v) list \<Rightarrow> 'v datum" where
  "row_datum r title vals = foldl (\<lambda>d (f, v). add_literal f v None d) ((blank r)\<lparr>d_title := title\<rparr>) vals"

end
