(* ===== verification/Recorder_Properties.thy ===== *)
theory Recorder_Properties
  imports Recorder_Model
begin

text \<open>
  The recorder against its contract: every row that is written reaches every back end once and in
  order; and two ways to lose this.
\<close>

section \<open>Back ends\<close>

text \<open>What a back end promises (rec_backend.h): it takes all data it is notified of, and flushing neither
  fails nor changes what was taken. \<open>taken w b\<close> is what the back end \<open>b\<close> has taken in the state \<open>w\<close>.\<close>

definition takes_all :: "(ptr \<Rightarrow> 'v datum list \<Rightarrow> 'b \<Rightarrow> ('b, unit) exec) \<Rightarrow> (ptr \<Rightarrow> 'b \<Rightarrow> ('b, unit) exec) \<Rightarrow> ('b \<Rightarrow> ptr \<Rightarrow> 'v datum list) \<Rightarrow> bool" where
  "takes_all notify flush taken \<longleftrightarrow>
     (\<forall>b ds w. \<exists>w'. notify b ds w = (Inr (), w') \<and> taken w' = (taken w)(b := taken w b @ ds)) \<and>
     (\<forall>b w. \<exists>w'. flush b w = (Inr (), w') \<and> taken w' = taken w)"

definition given :: "ptr list \<Rightarrow> 'v datum list \<Rightarrow> (ptr \<Rightarrow> 'v datum list) \<Rightarrow> ptr \<Rightarrow> 'v datum list" where
  "given bs ds t b = (if b \<in> set bs then t b @ ds else t b)"

lemma those_map: "\<forall>x \<in> set xs. f x = Some (g x) \<Longrightarrow> those (map f xs) = Some (map g xs)"
  by (induction xs) auto

lemma send_loop:
  assumes "takes_all notify flush taken" "those (map (rc_store r) ps) = Some ds" "distinct bs"
  shows "\<exists>w'. foreach (send notify ps) bs (r, w) = (Inr (), (r, w')) \<and> taken w' = given bs ds (taken w)"
  using assms(3)
proof (induction bs arbitrary: w)
  case Nil
  then show ?case by (auto simp: ok_def given_def)
next
  case (Cons b bs)
  obtain w1 where w1: "notify b ds w = (Inr (), w1)" "taken w1 = (taken w)(b := taken w b @ ds)"
    using assms(1) unfolding takes_all_def by metis
  obtain w' where "foreach (send notify ps) bs (r, w1) = (Inr (), (r, w'))" "taken w' = given bs ds (taken w1)" using Cons by auto
  moreover have "send notify ps b (r, w) = (Inr (), (r, w1))" using w1(1) assms(2) by (simp add: send_def)
  ultimately show ?case using w1(2) Cons.prems by (auto simp: given_def fun_eq_iff)
qed

lemma flush_loop:
  assumes "takes_all notify flush taken" "those (map (rc_store r) ps) = Some ds" "distinct bs"
  shows "\<exists>w'. foreach (\<lambda>b s. andThen (send notify ps b s) (\<lambda>_. flush_back flush b)) bs (r, w) = (Inr (), (r, w')) \<and>
    taken w' = given bs ds (taken w)"
  using assms(3)
proof (induction bs arbitrary: w)
  case Nil
  then show ?case by (auto simp: ok_def given_def)
next
  case (Cons b bs)
  obtain w1 where w1: "notify b ds w = (Inr (), w1)" "taken w1 = (taken w)(b := taken w b @ ds)"
    using assms(1) unfolding takes_all_def by metis
  obtain w2 where w2: "flush b w1 = (Inr (), w2)" "taken w2 = taken w1" using assms(1) unfolding takes_all_def by metis
  obtain w' where "foreach (\<lambda>b s. andThen (send notify ps b s) (\<lambda>_. flush_back flush b)) bs (r, w2) = (Inr (), (r, w'))"
    "taken w' = given bs ds (taken w2)" using Cons by auto
  moreover have "andThen (send notify ps b (r, w)) (\<lambda>_. flush_back flush b) = (Inr (), (r, w2))"
    using w1(1) w2(1) assms(2) by (simp add: send_def flush_back_def)
  ultimately show ?case using w1(2) w2(2) Cons.prems by (auto simp: given_def fun_eq_iff)
qed

section \<open>The buffer between two calls\<close>

text \<open>\<open>pend\<close> are the rows that are buffered. Every datum starts with what a blank one has, so that it can
  be handed out again.\<close>

definition reusable :: "'v recorder \<Rightarrow> 'v datum \<Rightarrow> bool" where
  "reusable r d \<longleftrightarrow> (let n = (if rc_inject r then 1 else 0)
     in take n (d_vals d) = d_vals (blank r) \<and> take n (d_shapes d) = d_shapes (blank r) \<and> take n (d_fields d) = d_fields (blank r))"

definition rec_inv :: "'v recorder \<Rightarrow> 'v datum list \<Rightarrow> bool" where
  "rec_inv r pend \<longleftrightarrow> distinct (rc_data r) \<and> rc_index r < length (rc_data r) \<and>
     (\<forall>p \<in> set (rc_data r). \<exists>d. rc_store r p = Some d \<and> reusable r d) \<and>
     those (map (rc_store r) (take (rc_index r) (rc_data r))) = Some pend"

definition same_setup :: "'v recorder \<Rightarrow> 'v recorder \<Rightarrow> bool" where
  "same_setup r r' \<longleftrightarrow> rc_inject r' = rc_inject r \<and> rc_uuid r' = rc_uuid r \<and> rc_backs r' = rc_backs r"

lemma same_setup_blank: "same_setup r r' \<Longrightarrow> blank r' = blank r"
  by (simp add: same_setup_def blank_def)

lemma same_setup_trans: "same_setup r r' \<Longrightarrow> same_setup r' r'' \<Longrightarrow> same_setup r r''"
  by (simp add: same_setup_def)

lemma add_vals:
  assumes "rc_store r p = Some d"
  shows "foreach (\<lambda>(f, v). AddVal p f v None) vals r =
    (Inr (), r\<lparr>rc_store := (rc_store r)(p \<mapsto> foldl (\<lambda>d (f, v). add_literal f v None d) d vals)\<rparr>)"
  using assms
proof (induction vals arbitrary: r d)
  case Nil
  then show ?case by (simp add: ok_def fun_upd_idem)
next
  case (Cons x vals)
  obtain f v where x: "x = (f, v)" by (cases x)
  let ?r = "r\<lparr>rc_store := (rc_store r)(p \<mapsto> add_literal f v None d)\<rparr>"
  have "rc_store ?r p = Some (add_literal f v None d)" by simp
  note ih = Cons.IH[OF this]
  have "AddVal p f v None r = (Inr (), ?r)" using Cons.prems by (simp add: AddVal_def upd_datum_def ok_def)
  then show ?case using ih by (auto simp: x intro!: arg_cong[where f = "\<lambda>z. r\<lparr>rc_store := z\<rparr>"] ext)
qed

lemma add_literal_reusable: "reusable r d \<Longrightarrow> reusable r (add_literal f v None d)"
  by (cases "d_vals d"; cases "d_shapes d"; cases "d_fields d")
    (auto simp: reusable_def add_literal_def AddValBase_def blank_def Datum_new_def Let_def split: if_splits)

lemma row_reusable:
  assumes "reusable r d"
  shows "reusable r (foldl (\<lambda>d (f, v). add_literal f v None d) d vals)"
  using assms by (induction vals arbitrary: d) (auto intro: add_literal_reusable)

lemma those_take_Suc:
  assumes "those (map f (take i xs)) = Some ys" "i < length xs" "f (xs ! i) = Some y"
  shows "those (map f (take (Suc i) xs)) = Some (ys @ [y])"
proof -
  have "those (as @ [Some y]) = Some (ys @ [y])" if "those as = Some ys" for as ys using that by (induction as arbitrary: ys) (auto split: option.splits)
  then show ?thesis using assms by (simp add: take_Suc_conv_app_nth)
qed

text \<open>The row is filled in: the recorder before \<open>Record\<close>.\<close>

lemma row_filled:
  assumes "rec_inv r pend"
  shows "\<exists>p r1 r2. NewDatum title r = (Inr p, r1) \<and> foreach (\<lambda>(f, v). AddVal p f v None) vals r1 = (Inr (), r2) \<and> same_setup r r2 \<and>
    rc_data r2 = rc_data r \<and> rc_index r2 = Suc (rc_index r) \<and> rc_store r2 p \<noteq> None \<and> (\<forall>q \<in> set (rc_data r2). \<exists>d. rc_store r2 q = Some d \<and> reusable r2 d) \<and>
    those (map (rc_store r2) (take (rc_index r2) (rc_data r2))) = Some (pend @ [row_datum r title vals])"
proof -
  have i: "rc_index r < length (rc_data r)" "distinct (rc_data r)" using assms by (simp_all add: rec_inv_def)
  define p where "p = rc_data r ! rc_index r"
  have p: "p \<in> set (rc_data r)" using i by (simp add: p_def)
  then obtain d where d: "rc_store r p = Some d" "reusable r d" using assms by (auto simp: rec_inv_def)
  define d0 where "d0 = (blank r)\<lparr>d_title := title\<rparr>"
  have d0: "d0 = \<lparr>d_title = title, d_vals = d_vals (blank r), d_shapes = d_shapes (blank r), d_fields = d_fields (blank r)\<rparr>"
    by (cases "blank r") (simp add: d0_def)
  define r1 where "r1 = r\<lparr>rc_index := Suc (rc_index r), rc_store := (rc_store r)(p \<mapsto> d0)\<rparr>"
  have new: "NewDatum title r = (Inr p, r1)"
    using i d by (auto simp: NewDatum_def Let_def p_def[symmetric] upd_datum_def r1_def d0 reusable_def ok_def)
  let ?d = "foldl (\<lambda>d (f, v). add_literal f v None d) d0 vals"
  define r2 where "r2 = r1\<lparr>rc_store := (rc_store r1)(p \<mapsto> ?d)\<rparr>"
  have add: "foreach (\<lambda>(f, v). AddVal p f v None) vals r1 = (Inr (), r2)" unfolding r2_def by (rule add_vals) (simp add: r1_def)
  have st: "rc_store r2 = (rc_store r)(p \<mapsto> row_datum r title vals)" by (simp add: r2_def r1_def row_datum_def d0_def)
  have s: "same_setup r r2" by (simp add: same_setup_def r2_def r1_def)
  have "reusable r d0" by (auto simp: d0_def reusable_def blank_def Datum_new_def add_literal_def AddValBase_def Let_def)
  then have "reusable r (row_datum r title vals)" by (simp add: row_datum_def row_reusable d0_def)
  then have "\<forall>q \<in> set (rc_data r). \<exists>d. rc_store r2 q = Some d \<and> reusable r2 d"
    using assms same_setup_blank[OF s] s by (auto simp: st rec_inv_def reusable_def same_setup_def)
  moreover have "p \<notin> set (take (rc_index r) (rc_data r))" using i by (auto simp: p_def in_set_conv_nth nth_eq_iff_index_eq)
  then have e: "map (rc_store r2) (take (rc_index r) (rc_data r)) = map (rc_store r) (take (rc_index r) (rc_data r))" unfolding st by (auto intro: map_cong)
  have "those (map (rc_store r2) (take (rc_index r) (rc_data r))) = Some pend" unfolding e using assms by (simp add: rec_inv_def)
  then have "those (map (rc_store r2) (take (Suc (rc_index r)) (rc_data r))) = Some (pend @ [row_datum r title vals])"
    by (rule those_take_Suc) (use i in \<open>simp_all add: st p_def[symmetric]\<close>)
  ultimately show ?thesis using new add s by (intro exI[of _ p] exI[of _ r1] exI[of _ r2]) (auto simp: st r2_def r1_def)
qed

lemma write_row_ok:
  assumes t: "takes_all notify flush taken" and i: "rec_inv r pend" and d: "distinct (rc_backs r)"
  shows "\<exists>r' w' pend' out. write_row notify title vals (r, w) = (Inr (), (r', w')) \<and> rec_inv r' pend' \<and> same_setup r r' \<and>
    taken w' = given (rc_backs r) out (taken w) \<and> out @ pend' = pend @ [row_datum r title vals]"
proof -
  let ?row = "row_datum r title vals"
  obtain p r1 r2 where h: "NewDatum title r = (Inr p, r1)" "foreach (\<lambda>(f, v). AddVal p f v None) vals r1 = (Inr (), r2)" "same_setup r r2"
    "rc_data r2 = rc_data r" "rc_index r2 = Suc (rc_index r)" "rc_store r2 p \<noteq> None" "\<forall>q \<in> set (rc_data r2). \<exists>d. rc_store r2 q = Some d \<and> reusable r2 d"
    "those (map (rc_store r2) (take (rc_index r2) (rc_data r2))) = Some (pend @ [?row])" using row_filled[OF i] by blast
  have e: "write_row notify title vals (r, w) = AddDatum notify (r2, w)" using h(1,2,6) by (auto simp: write_row_def Record_def)
  have b: "rc_backs r2 = rc_backs r" using h(3) by (simp add: same_setup_def)
  show ?thesis
  proof (cases "length (rc_data r2) \<le> rc_index r2")
    case True
    let ?r = "r2\<lparr>rc_index := 0\<rparr>"
    have "those (map (rc_store ?r) (rc_data r2)) = Some (pend @ [?row])" using h(8) True by simp
    from send_loop[OF t this, of "rc_backs r" w] d b obtain w' where "AddDatum notify (r2, w) = (Inr (), (?r, w'))"
      "taken w' = given (rc_backs r) (pend @ [?row]) (taken w)" using True by (auto simp: AddDatum_def NotifyBackends_def)
    moreover have "rec_inv ?r []" using i h(4,7) True by (auto simp: rec_inv_def reusable_def blank_def Let_def)
    moreover have "same_setup r ?r" using h(3) by (simp add: same_setup_def)
    ultimately show ?thesis using e by (intro exI[of _ ?r] exI[of _ w'] exI[of _ "[]"] exI[of _ "pend @ [?row]"]) simp
  next
    case False
    then have "rec_inv r2 (pend @ [?row])" using i h(4,7,8) by (auto simp: rec_inv_def)
    moreover have "given (rc_backs r) [] (taken w) = taken w" by (simp add: given_def fun_eq_iff)
    ultimately show ?thesis using e False h(3) by (intro exI[of _ r2] exI[of _ w] exI[of _ "pend @ [?row]"] exI[of _ "[]"]) (simp add: AddDatum_def ok_def)
  qed
qed

lemma Flush_ok:
  assumes t: "takes_all notify flush taken" and i: "rec_inv r pend" and d: "distinct (rc_backs r)"
  shows "\<exists>r' w'. rc_Flush notify flush (r, w) = (Inr (), (r', w')) \<and> rec_inv r' [] \<and> same_setup r r' \<and> taken w' = given (rc_backs r) pend (taken w)"
proof (cases "rc_index r = 0")
  case True
  then have "pend = []" using i by (simp add: rec_inv_def)
  then show ?thesis using True i by (intro exI[of _ r] exI[of _ w]) (auto simp: rc_Flush_def ok_def same_setup_def given_def)
next
  case False
  let ?r = "r\<lparr>rc_index := 0\<rparr>"
  have "those (map (rc_store ?r) (take (rc_index r) (rc_data r))) = Some pend" using i by (simp add: rec_inv_def)
  from flush_loop[OF t this d, of w] obtain w' where w': "rc_Flush notify flush (r, w) = (Inr (), (?r, w'))"
    "taken w' = given (rc_backs r) pend (taken w)" using False i by (auto simp: rc_Flush_def rec_inv_def)
  moreover have "rec_inv ?r []" using i by (auto simp: rec_inv_def reusable_def blank_def Let_def)
  ultimately show ?thesis by (intro exI[of _ ?r] exI[of _ w']) (simp add: same_setup_def)
qed

section \<open>Histories\<close>

text \<open>What a simulation does with its recorder: rows, and flushes in between.\<close>

datatype 'v rec_op = Row string "(string \<times> 'v) list" | FlushNow

fun rec_step :: "(ptr \<Rightarrow> 'v datum list \<Rightarrow> 'b \<Rightarrow> ('b, unit) exec) \<Rightarrow> (ptr \<Rightarrow> 'b \<Rightarrow> ('b, unit) exec) \<Rightarrow> 'v rec_op \<Rightarrow>
    ('v, 'b) rec_state \<Rightarrow> (('v, 'b) rec_state, unit) exec" where
  "rec_step notify flush (Row title vals) s = write_row notify title vals s"
| "rec_step notify flush FlushNow s = rc_Flush notify flush s"

fun rows_of :: "'v recorder \<Rightarrow> 'v rec_op list \<Rightarrow> 'v datum list" where
  "rows_of r [] = []"
| "rows_of r (Row title vals # ops) = row_datum r title vals # rows_of r ops"
| "rows_of r (FlushNow # ops) = rows_of r ops"

lemma rows_of_setup: "same_setup r r' \<Longrightarrow> rows_of r' ops = rows_of r ops"
  by (induction r ops rule: rows_of.induct) (auto simp: row_datum_def same_setup_blank)

lemma given_trans: "given bs ys (given bs xs t) = given bs (xs @ ys) t"
  by (auto simp: given_def)

lemma history_ok:
  assumes t: "takes_all notify flush taken" and "rec_inv r pend" "distinct (rc_backs r)"
  shows "\<exists>r' w' pend' out. foreach (rec_step notify flush) ops (r, w) = (Inr (), (r', w')) \<and> rec_inv r' pend' \<and> same_setup r r' \<and>
    taken w' = given (rc_backs r) out (taken w) \<and> out @ pend' = pend @ rows_of r ops"
  using assms(2,3)
proof (induction ops arbitrary: r w pend)
  case Nil
  then show ?case by (intro exI[of _ r] exI[of _ w] exI[of _ pend] exI[of _ "[]"]) (auto simp: ok_def same_setup_def given_def)
next
  case (Cons op ops)
  have "\<exists>r1 w1 pend1 out1. rec_step notify flush op (r, w) = (Inr (), (r1, w1)) \<and> rec_inv r1 pend1 \<and> same_setup r r1 \<and>
      taken w1 = given (rc_backs r) out1 (taken w) \<and> out1 @ pend1 = pend @ rows_of r [op]"
  proof (cases op)
    case (Row title vals)
    then show ?thesis using write_row_ok[OF t Cons.prems] by simp
  next
    case FlushNow
    then show ?thesis using Flush_ok[OF t Cons.prems] by fastforce
  qed
  then obtain r1 w1 pend1 out1 where s: "rec_step notify flush op (r, w) = (Inr (), (r1, w1))" "rec_inv r1 pend1" "same_setup r r1"
    "taken w1 = given (rc_backs r) out1 (taken w)" "out1 @ pend1 = pend @ rows_of r [op]" by blast
  have b: "rc_backs r1 = rc_backs r" using s(3) by (simp add: same_setup_def)
  obtain r' w' pend' out where h: "foreach (rec_step notify flush) ops (r1, w1) = (Inr (), (r', w'))" "rec_inv r' pend'" "same_setup r1 r'"
    "taken w' = given (rc_backs r1) out (taken w1)" "out @ pend' = pend1 @ rows_of r1 ops" using Cons.IH[OF s(2)] Cons.prems(2) b by metis
  have "rows_of r (op # ops) = rows_of r [op] @ rows_of r ops" by (cases op) simp_all
  then have "(out1 @ out) @ pend' = pend @ rows_of r (op # ops)" using h(5) s(5) rows_of_setup[OF s(3)] by (metis append.assoc)
  moreover have "taken w' = given (rc_backs r) (out1 @ out) (taken w)" using h(4) s(4) b by (simp add: given_trans)
  ultimately show ?case using s(1) h(1,2) same_setup_trans[OF s(3) h(3)] by (intro exI[of _ r'] exI[of _ w'] exI[of _ pend'] exI[of _ "out1 @ out"]) simp
qed

lemma make_data_setup [simp]:
  "rc_backs (make_data n r) = rc_backs r" "rc_inject (make_data n r) = rc_inject r" "rc_uuid (make_data n r) = rc_uuid r"
  by (induction n arbitrary: r) simp_all

lemma Recorder_new_setup [simp]:
  "rc_backs (Recorder_new u inject n) = []" "rc_inject (Recorder_new u inject n) = inject" "rc_uuid (Recorder_new u inject n) = u"
  by (simp_all add: Recorder_new_def set_dump_count_def delete_data_def)

lemma make_data_facts:
  assumes "distinct (rc_data r)" "\<forall>p \<in> set (rc_data r). p < rc_next r \<and> rc_store r p = Some (blank r)"
  shows "let r' = make_data n r in distinct (rc_data r') \<and> length (rc_data r') = length (rc_data r) + n \<and> rc_index r' = rc_index r \<and>
    rc_inject r' = rc_inject r \<and> rc_uuid r' = rc_uuid r \<and> rc_backs r' = rc_backs r \<and> (\<forall>p \<in> set (rc_data r'). rc_store r' p = Some (blank r))"
  using assms
proof (induction n arbitrary: r)
  case (Suc n)
  let ?r = "r\<lparr>rc_store := (rc_store r)(rc_next r \<mapsto> blank r), rc_data := rc_data r @ [rc_next r], rc_next := Suc (rc_next r)\<rparr>"
  have b: "blank ?r = blank r" by (simp add: blank_def)
  have "distinct (rc_data ?r)" "\<forall>p \<in> set (rc_data ?r). p < rc_next ?r \<and> rc_store ?r p = Some (blank ?r)" using Suc.prems by (auto simp: b)
  from Suc.IH[OF this] show ?case by (simp add: b Let_def)
qed simp

lemma Recorder_new_inv:
  assumes "0 < n"
  shows "rec_inv ((Recorder_new u inject n)\<lparr>rc_backs := bs\<rparr>) []"
proof -
  let ?r0 = "\<lparr>rc_store = Map.empty, rc_next = 0, rc_data = [], rc_index = 0, rc_backs = [], rc_dump_count = 0, rc_uuid = u, rc_inject = inject\<rparr>"
  have r: "blank ((make_data n ?r0)\<lparr>rc_dump_count := n, rc_backs := bs\<rparr>) = blank ?r0" "reusable ((make_data n ?r0)\<lparr>rc_dump_count := n, rc_backs := bs\<rparr>) (blank ?r0)"
    using make_data_facts[of ?r0 n] by (auto simp: blank_def reusable_def Let_def Datum_new_def add_literal_def AddValBase_def)
  show ?thesis using make_data_facts[of ?r0 n] r(2) assms
    by (auto simp: rec_inv_def Recorder_new_def set_dump_count_def delete_data_def Let_def)
qed

section \<open>Properties\<close>

text \<open>With a buffer of size 0 the first row reads the first entry of an empty vector.\<close>

lemma empty_buffer:
  assumes "rc_data r = []" "rc_index r = 0"
  shows "if rows_of r ops = [] then foreach (rec_step notify flush) ops (r, w) = (Inr (), (r, w))
         else foreach (rec_step notify flush) ops (r, w) = (Inl Undefined, (r, w))"
proof (induction ops)
  case (Cons op ops)
  show ?case
  proof (cases op)
    case (Row t vs)
    then show ?thesis using assms by (simp add: write_row_def NewDatum_def throw_def)
  next
    case FlushNow
    then show ?thesis using Cons assms by (simp add: rc_Flush_def ok_def)
  qed
qed (simp add: ok_def)

text \<open>C6. Nothing that is recorded is lost, repeated or reordered. A recorder with any positive buffer size
  and any number of distinct back ends that take what they are given: whatever rows are written and wherever
  flushes happen, closing it returns normally and every back end has received all the rows of the
  history, each once, in order and with the simulation id if it is injected. With buffer size 0 this holds
  only for a history without rows: the first row that is written is undefined behaviour, and no back end
  has received anything by then.\<close>

theorem recorder_delivers:
  assumes "takes_all notify flush taken" "distinct bs" "r = foldr RegisterBackend (rev bs) (Recorder_new u inject n)"
  shows "if 0 < n \<or> rows_of r ops = []
    then \<exists>r' w'. andThen (foreach (rec_step notify flush) ops (r, w)) (\<lambda>_. rc_Close notify flush) = (Inr (), (r', w')) \<and>
      (\<forall>b. taken w' b = taken w b @ (if b \<in> set bs then rows_of r ops else []))
    else andThen (foreach (rec_step notify flush) ops (r, w)) (\<lambda>_. rc_Close notify flush) = (Inl Undefined, (r, w))"
proof -
  have reg: "foldr RegisterBackend (rev cs) q = q\<lparr>rc_backs := rc_backs q @ cs\<rparr>" for cs and q :: "'a recorder"
    by (induction cs rule: rev_induct) (simp_all add: RegisterBackend_def)
  have r: "r = (Recorder_new u inject n)\<lparr>rc_backs := bs\<rparr>" using assms(3) by (simp add: reg)
  show ?thesis
  proof (cases "0 < n")
    case True
    have b: "rec_inv r []" "rc_backs r = bs" using r Recorder_new_inv[OF True] by simp_all
    obtain r1 w1 pend out where h: "foreach (rec_step notify flush) ops (r, w) = (Inr (), (r1, w1))" "rec_inv r1 pend" "same_setup r r1"
      "taken w1 = given bs out (taken w)" "out @ pend = rows_of r ops" using history_ok[OF assms(1) b(1), of ops w] b(2) assms(2) by auto
    have "rc_backs r1 = bs" using h(3) b(2) by (simp add: same_setup_def)
    then obtain r2 w2 where "rc_Flush notify flush (r1, w1) = (Inr (), (r2, w2))" "taken w2 = given bs pend (taken w1)"
      using Flush_ok[OF assms(1) h(2), of w1] assms(2) by auto
    then show ?thesis using True h(1,4,5) by (auto simp: rc_Close_def ok_def given_def)
  next
    case False
    then have e: "rc_data r = []" "rc_index r = 0" using r by (simp_all add: Recorder_new_def set_dump_count_def delete_data_def)
    show ?thesis using False e empty_buffer[OF e, of ops notify flush w]
      by (auto simp: rc_Close_def rc_Flush_def ok_def split: if_splits)
  qed
qed

text \<open>Two back ends that keep what they are given.\<close>

definition keep :: "ptr \<Rightarrow> 'v datum list \<Rightarrow> (ptr \<Rightarrow> 'v datum list) \<Rightarrow> (ptr \<Rightarrow> 'v datum list, unit) exec" where
  "keep b ds w = ok () (w(b := w b @ ds))"

lemma keep_takes_all: "takes_all keep (\<lambda>_. ok ()) (\<lambda>w. w)"
  by (simp add: takes_all_def keep_def ok_def)

theorem recorder_delivers_witness:
  "(\<exists>r' w'. andThen (foreach (rec_step keep (\<lambda>_. ok ())) [Row ''Info'' [(''a'', 1 :: int)], Row ''Info'' [(''a'', 2)], FlushNow, Row ''Info'' [(''a'', 3)]]
       (foldr RegisterBackend (rev [7, 8]) (Recorder_new 0 True 2), (\<lambda>_. []))) (\<lambda>_. rc_Close keep (\<lambda>_. ok ())) = (Inr (), (r', w')) \<and>
     map d_vals (w' 8) = [[(Some ''SimId'', 0), (Some ''a'', 1)], [(Some ''SimId'', 0), (Some ''a'', 2)], [(Some ''SimId'', 0), (Some ''a'', 3)]]) \<and>
   fst (andThen (foreach (rec_step keep (\<lambda>_. ok ())) [Row ''Info'' [(''a'', 1 :: int)]]
       (foldr RegisterBackend (rev [7, 8]) (Recorder_new 0 True 0), (\<lambda>_. []))) (\<lambda>_. rc_Close keep (\<lambda>_. ok ()))) = Inl Undefined"
proof -
  let ?r = "foldr RegisterBackend (rev [7, 8]) (Recorder_new (0 :: int) True 2)"
  let ?ops = "[Row ''Info'' [(''a'', 1 :: int)], Row ''Info'' [(''a'', 2)], FlushNow, Row ''Info'' [(''a'', 3)]]"
  have i: "rc_inject ?r" "rc_uuid ?r = 0" by (simp_all add: RegisterBackend_def)
  obtain r' w' where a: "andThen (foreach (rec_step keep (\<lambda>_. ok ())) ?ops (?r, (\<lambda>_. []))) (\<lambda>_. rc_Close keep (\<lambda>_. ok ())) = (Inr (), (r', w'))"
    "\<forall>b. w' b = (if b \<in> set [7, 8] then rows_of ?r ?ops else [])"
    using recorder_delivers [OF keep_takes_all, of "[7, 8]" ?r 0 True 2 ?ops "\<lambda>_. []"] by auto
  moreover have "fst (andThen (foreach (rec_step keep (\<lambda>_. ok ())) [Row ''Info'' [(''a'', 1 :: int)]]
       (foldr RegisterBackend (rev [7, 8]) (Recorder_new 0 True 0), (\<lambda>_. []))) (\<lambda>_. rc_Close keep (\<lambda>_. ok ()))) = Inl Undefined"
    using recorder_delivers [OF keep_takes_all, of "[7, 8]" _ "0 :: int" True 0 "[Row ''Info'' [(''a'', 1)]]" "\<lambda>_. []"] by simp
  ultimately show ?thesis using i by (auto simp: row_datum_def blank_def add_literal_def AddValBase_def Datum_new_def)
qed

text \<open>C39. Changing the buffer size corrupts the output. The position in the buffer is not reset, so that
  the rows buffered so far are destroyed and as many rows without title take their place: the next
  flush hands these to every back end.\<close>

theorem set_dump_count_writes_blanks:
  assumes "rec_inv r pend" "rc_index r \<le> n" "rc_backs r = [b]" "0 < rc_index r"
  shows "rc_Flush keep (\<lambda>_. ok ()) (set_dump_count n r, w) =
    (Inr (), (set_dump_count n r)\<lparr>rc_index := 0\<rparr>, w(b := w b @ replicate (rc_index r) (blank r)))"
proof -
  let ?r = "(delete_data r)\<lparr>rc_data := []\<rparr>"
  have e: "blank ?r = blank r" by (simp add: blank_def delete_data_def)
  have h: "distinct (rc_data (set_dump_count n r))" "length (rc_data (set_dump_count n r)) = n" "rc_index (set_dump_count n r) = rc_index r"
    "rc_backs (set_dump_count n r) = [b]" "\<forall>p \<in> set (rc_data (set_dump_count n r)). rc_store (set_dump_count n r) p = Some (blank r)"
    using make_data_facts[of ?r n] assms(3) by (auto simp: set_dump_count_def Let_def delete_data_def e[unfolded delete_data_def])
  have "those (map (rc_store (set_dump_count n r)) (take (rc_index r) (rc_data (set_dump_count n r)))) =
      Some (map (\<lambda>_. blank r) (take (rc_index r) (rc_data (set_dump_count n r))))"
    by (rule those_map) (use h(5) in \<open>auto dest: in_set_takeD\<close>)
  also have "map (\<lambda>_. blank r) (take (rc_index r) (rc_data (set_dump_count n r))) = replicate (rc_index r) (blank r)"
    using h(2) assms(2) by (simp add: map_replicate_const)
  finally show ?thesis using h assms(2,4) by (simp add: rc_Flush_def send_def flush_back_def keep_def ok_def)
qed

theorem set_dump_count_writes_blanks_witness:
  "\<exists>r w. write_row keep ''Info'' [(''a'', 1 :: int)] (RegisterBackend 7 (Recorder_new 0 False 2), (\<lambda>_. [])) = (Inr (), (r, w)) \<and>
     rc_Flush keep (\<lambda>_. ok ()) (set_dump_count 5 r, w) = (Inr (), (set_dump_count 5 r)\<lparr>rc_index := 0\<rparr>, w(7 := w 7 @ [Datum_new '''']))"
proof -
  let ?r = "RegisterBackend 7 (Recorder_new (0 :: int) False 2)"
  obtain r w where e: "write_row keep ''Info'' [(''a'', 1)] (?r, (\<lambda>_. [])) = (Inr (), (r, w))" "rc_index r = 1" "rc_backs r = [7]" "\<not> rc_inject r"
      "rec_inv r [row_datum ?r ''Info'' [(''a'', 1)]]"
    by (simp add: write_row_def NewDatum_def RegisterBackend_def Recorder_new_def set_dump_count_def delete_data_def numeral_2_eq_2 blank_def
        Datum_new_def Let_def upd_datum_def AddVal_def add_literal_def AddValBase_def Record_def AddDatum_def ok_def rec_inv_def reusable_def row_datum_def)
  from set_dump_count_writes_blanks [OF e(5), of 5 7 w] e show ?thesis by (auto simp: blank_def)
qed

end
