(* ===== verification/Query_Backend.thy ===== *)
theory Query_Backend
  imports Cyclus_Prelude "HOL-Library.List_Lexorder" "HOL-Library.Char_ord"
begin

text \<open>
  query_backend.h without the list of column types: conditions, the results of queries, and the two
  back ends that wrap another one and add conditions or a prefix to its queries; and the specification
  of an agent's implementation of dynamic_module.cc, whose text the tables keep. The databases behind
  the interface are a parameter.
\<close>

section \<open>Pure computations that may throw\<close>

definition bindE :: "exn + 'a \<Rightarrow> ('a \<Rightarrow> exn + 'b) \<Rightarrow> exn + 'b" where
  "bindE x f = (case x of Inl e \<Rightarrow> Inl e | Inr a \<Rightarrow> f a)"

lemma bindE_simps [simp, exec_simps]: "bindE (Inl e) f = Inl e" "bindE (Inr a) f = f a"
  by (simp_all add: bindE_def)

lemma bindE_Inr [exec_simps]: "bindE x f = Inr b \<longleftrightarrow> (\<exists>a. x = Inr a \<and> f a = Inr b)"
  by (cases x) simp_all

fun mapE :: "('a \<Rightarrow> exn + 'b) \<Rightarrow> 'a list \<Rightarrow> exn + 'b list" where
  "mapE f [] = Inr []"
| "mapE f (x # xs) = bindE (f x) (\<lambda>y. bindE (mapE f xs) (\<lambda>ys. Inr (y # ys)))"

lemma mapE_Inr: "(\<And>x. x \<in> set xs \<Longrightarrow> f x = Inr (g x)) \<Longrightarrow> mapE f xs = Inr (map g xs)"
  by (induction xs) simp_all

definition lift_x :: "exn + 'a \<Rightarrow> 's \<Rightarrow> ('s, 'a) exec" where
  "lift_x x s = (case x of Inl e \<Rightarrow> throw e s | Inr a \<Rightarrow> ok a s)"

lemma lift_x_simps [simp, exec_simps]: "lift_x (Inl e) s = throw e s" "lift_x (Inr a) s = ok a s"
  by (simp_all add: lift_x_def)

text \<open>What \<open>catch (std::exception err)\<close> stops: everything but a failed assertion and undefined behaviour.\<close>

definition catchable :: "exn \<Rightarrow> bool" where
  "catchable e \<longleftrightarrow> e \<noteq> AssertFailed \<and> e \<noteq> Undefined"

section \<open>Values and conditions\<close>

text \<open>The types of \<open>hold_any\<close> that the kernel stores in its tables.\<close>

datatype dbval = VInt int | VDouble double | VStr string | VBool bool | VUuid string

datatype CmpOpCode = LT | GT | LE | GE | EQ | NE

record Cond =
  c_field :: string
  c_op :: string
  c_opcode :: CmpOpCode
  c_val :: dbval

definition opcode_of :: "string \<Rightarrow> exn + CmpOpCode" where
  "opcode_of op =
     (if op = ''<'' then Inr LT else if op = ''>'' then Inr GT else if op = ''<='' then Inr LE
      else if op = ''>='' then Inr GE else if op = ''=='' then Inr EQ else if op = ''!='' then Inr NE
      else Inl ValueError)"

definition Cond_new :: "string \<Rightarrow> string \<Rightarrow> dbval \<Rightarrow> exn + Cond" where
  "Cond_new field op v = bindE (opcode_of op) (\<lambda>code. Inr \<lparr>c_field = field, c_op = op, c_opcode = code, c_val = v\<rparr>)"

definition cmp_op :: "CmpOpCode \<Rightarrow> 'a :: linorder \<Rightarrow> 'a \<Rightarrow> bool" where
  "cmp_op code x y = (case code of LT \<Rightarrow> x < y | GT \<Rightarrow> x > y | LE \<Rightarrow> x \<le> y | GE \<Rightarrow> x \<ge> y | EQ \<Rightarrow> x = y | NE \<Rightarrow> x \<noteq> y)"

text \<open>\<open>CmpCond<T>\<close> at the type of the value; a condition on another type is a bad cast.\<close>

fun CmpCond :: "dbval \<Rightarrow> Cond \<Rightarrow> exn + bool" where
  "CmpCond x c = (case (x, c_val c) of
     (VInt i, VInt j) \<Rightarrow> Inr (cmp_op (c_opcode c) i j)
   | (VDouble i, VDouble j) \<Rightarrow> Inr (cmp_op (c_opcode c) i j)
   | (VStr i, VStr j) \<Rightarrow> Inr (cmp_op (c_opcode c) i j)
   | (VBool i, VBool j) \<Rightarrow> Inr (cmp_op (c_opcode c) i j)
   | (VUuid i, VUuid j) \<Rightarrow> Inr (cmp_op (c_opcode c) i j)
   | _ \<Rightarrow> Inl BadAnyCast)"

declare CmpCond.simps [simp del]

lemma CmpCond_same [simp]:
  "CmpCond (VInt i) \<lparr>c_field = f, c_op = op, c_opcode = code, c_val = VInt j\<rparr> = Inr (cmp_op code i j)"
  "CmpCond (VUuid v) \<lparr>c_field = f, c_op = op, c_opcode = code, c_val = VUuid w\<rparr> = Inr (cmp_op code v w)"
  by (simp_all add: CmpCond.simps)

fun CmpConds :: "dbval \<Rightarrow> Cond list \<Rightarrow> exn + bool" where
  "CmpConds x [] = Inr True"
| "CmpConds x (c # cs) = bindE (CmpCond x c) (\<lambda>b. if b then CmpConds x cs else Inr False)"

section \<open>Results\<close>

type_synonym DbTypes = nat

record QueryResult =
  qr_fields :: "string list"
  qr_types :: "DbTypes list"
  qr_rows :: "dbval list list"

definition qr_Reset :: "QueryResult \<Rightarrow> QueryResult" where
  "qr_Reset q = q\<lparr>qr_fields := [], qr_types := [], qr_rows := []\<rparr>"

fun field_index :: "string \<Rightarrow> string list \<Rightarrow> nat option" where
  "field_index f [] = None"
| "field_index f (g # gs) = (if g = f then Some 0 else map_option Suc (field_index f gs))"

definition GetVal :: "QueryResult \<Rightarrow> string \<Rightarrow> nat \<Rightarrow> exn + dbval" where
  "GetVal q field row =
     (if qr_rows q = [] then Inl StateError
      else if length (qr_rows q) \<le> row then Inl KeyError
      else case field_index field (qr_fields q) of
        None \<Rightarrow> Inl KeyError
      | Some i \<Rightarrow> if i < length (qr_rows q ! row) then Inr (qr_rows q ! row ! i) else Inl Undefined)"

definition GetInt :: "QueryResult \<Rightarrow> string \<Rightarrow> nat \<Rightarrow> exn + int" where
  "GetInt q f i = bindE (GetVal q f i) (\<lambda>v. case v of VInt x \<Rightarrow> Inr x | _ \<Rightarrow> Inl BadAnyCast)"

definition GetDouble :: "QueryResult \<Rightarrow> string \<Rightarrow> nat \<Rightarrow> exn + double" where
  "GetDouble q f i = bindE (GetVal q f i) (\<lambda>v. case v of VDouble x \<Rightarrow> Inr x | _ \<Rightarrow> Inl BadAnyCast)"

definition GetString :: "QueryResult \<Rightarrow> string \<Rightarrow> nat \<Rightarrow> exn + string" where
  "GetString q f i = bindE (GetVal q f i) (\<lambda>v. case v of VStr x \<Rightarrow> Inr x | _ \<Rightarrow> Inl BadAnyCast)"

definition GetBool :: "QueryResult \<Rightarrow> string \<Rightarrow> nat \<Rightarrow> exn + bool" where
  "GetBool q f i = bindE (GetVal q f i) (\<lambda>v. case v of VBool x \<Rightarrow> Inr x | _ \<Rightarrow> Inl BadAnyCast)"

definition GetUuid :: "QueryResult \<Rightarrow> string \<Rightarrow> nat \<Rightarrow> exn + string" where
  "GetUuid q f i = bindE (GetVal q f i) (\<lambda>v. case v of VUuid x \<Rightarrow> Inr x | _ \<Rightarrow> Inl BadAnyCast)"

lemma GetInt_Inr: "GetInt q f i = Inr x \<longleftrightarrow> GetVal q f i = Inr (VInt x)"
  by (cases "GetVal q f i") (auto simp: GetInt_def split: dbval.splits)

lemma GetVal_typed:
  "GetVal q f i = Inr (VInt x) \<Longrightarrow> GetInt q f i = Inr x" "GetVal q f i = Inr (VDouble d) \<Longrightarrow> GetDouble q f i = Inr d"
  "GetVal q f i = Inr (VStr s) \<Longrightarrow> GetString q f i = Inr s"
  by (simp_all add: GetInt_def GetDouble_def GetString_def)

section \<open>Back ends\<close>

record ColumnInfo =
  ci_table :: string
  ci_col :: string
  ci_index :: int
  ci_dbtype :: DbTypes
  ci_shape :: "int list"

record QueryableBackend =
  qb_Query :: "string \<Rightarrow> Cond list option \<Rightarrow> exn + QueryResult"
  qb_ColumnTypes :: "string \<Rightarrow> exn + (string, DbTypes) omap"
  qb_Schema :: "string \<Rightarrow> exn + ColumnInfo list"
  qb_Tables :: "string list"

definition CondInjector :: "QueryableBackend \<Rightarrow> Cond list \<Rightarrow> QueryableBackend" where
  "CondInjector b to_inject = b\<lparr>qb_Query := \<lambda>table conds. case conds of
     None \<Rightarrow> qb_Query b table (Some to_inject)
   | Some c \<Rightarrow> qb_Query b table (Some (c @ to_inject))\<rparr>"

definition PrefixInjector :: "QueryableBackend \<Rightarrow> string \<Rightarrow> QueryableBackend" where
  "PrefixInjector b prefix = b\<lparr>qb_Query := \<lambda>table conds. qb_Query b (prefix @ table) conds\<rparr>"

text \<open>A query as the clients write it: conditions are built from their three parts, then the back end is
  asked.\<close>

definition ask :: "QueryableBackend \<Rightarrow> string \<Rightarrow> (string \<times> string \<times> dbval) list \<Rightarrow> exn + QueryResult" where
  "ask b table cs = bindE (mapE (\<lambda>(f, op, v). Cond_new f op v) cs) (\<lambda>conds. qb_Query b table (Some conds))"

definition inject :: "QueryableBackend \<Rightarrow> (string \<times> string \<times> dbval) list \<Rightarrow> exn + QueryableBackend" where
  "inject b cs = bindE (mapE (\<lambda>(f, op, v). Cond_new f op v) cs) (\<lambda>conds. Inr (CondInjector b conds))"

section \<open>Agent specifications\<close>

record AgentSpec =
  sp_path :: string
  sp_lib :: string
  sp_agent :: string
  sp_alias :: string

text \<open>The first constructor means to default the alias, but assigns to its parameter.\<close>

definition AgentSpec_new :: "string \<Rightarrow> string \<Rightarrow> string \<Rightarrow> string \<Rightarrow> AgentSpec" where
  "AgentSpec_new path lib agent alias =
     \<lparr>sp_path = path, sp_lib = (if lib = '''' then agent else lib), sp_agent = agent, sp_alias = alias\<rparr>"

text \<open>\<open>boost::split\<close> at every occurrence of the separator.\<close>

fun split_at :: "char \<Rightarrow> string \<Rightarrow> string list" where
  "split_at c [] = [[]]"
| "split_at c (x # xs) = (if x = c then [] # split_at c xs
     else case split_at c xs of [] \<Rightarrow> [[x]] | t # ts \<Rightarrow> (x # t) # ts)"

definition AgentSpec_parse :: "string \<Rightarrow> exn + AgentSpec" where
  "AgentSpec_parse str = (case split_at CHR '':'' str of
     [path, lib, agent] \<Rightarrow> Inr \<lparr>sp_path = path, sp_lib = lib, sp_agent = agent, sp_alias = agent\<rparr>
   | _ \<Rightarrow> Inl ValueError)"

definition sp_str :: "AgentSpec \<Rightarrow> string" where
  "sp_str sp = sp_path sp @ '':'' @ sp_lib sp @ '':'' @ sp_agent sp"

definition Sanitize :: "AgentSpec \<Rightarrow> string" where
  "Sanitize sp = map (\<lambda>c. if c \<in> {CHR ''/'', CHR ''-'', CHR '':'', CHR ''.''} then CHR ''_'' else c) (sp_str sp)"

lemma split_at_word: "c \<notin> set w \<Longrightarrow> split_at c w = [w]"
  by (induction w) auto

lemma split_at_sep: "c \<notin> set w \<Longrightarrow> split_at c (w @ c # rest) = w # split_at c rest"
  by (induction w) auto

lemma split_at_length: "length (split_at c xs) = Suc (count_list xs c)"
proof (induction xs)
  case (Cons x xs)
  then show ?case by (cases "split_at c xs") auto
qed simp

lemma count_list_0: "count_list xs c = 0 \<longleftrightarrow> c \<notin> set xs"
  by (induction xs) auto

text \<open>The text of a specification parses back to it, up to the alias, exactly when none of its three
  parts has a colon.\<close>

lemma spec_round_trip:
  "AgentSpec_parse (sp_str sp) =
     (if CHR '':'' \<in> set (sp_path sp) \<union> set (sp_lib sp) \<union> set (sp_agent sp) then Inl ValueError
      else Inr (sp\<lparr>sp_alias := sp_agent sp\<rparr>))"
proof (cases "CHR '':'' \<in> set (sp_path sp) \<union> set (sp_lib sp) \<union> set (sp_agent sp)")
  case True
  let ?c = "CHR '':''"
  have "length (split_at ?c (sp_str sp)) =
      Suc (count_list (sp_path sp) ?c + Suc (count_list (sp_lib sp) ?c + Suc (count_list (sp_agent sp) ?c)))"
    by (simp add: split_at_length sp_str_def)
  moreover have "count_list (sp_path sp) ?c \<noteq> 0 \<or> count_list (sp_lib sp) ?c \<noteq> 0 \<or> count_list (sp_agent sp) ?c \<noteq> 0"
    using True by (auto simp: count_list_0)
  ultimately have "length (split_at ?c (sp_str sp)) \<noteq> 3" by linarith
  then show ?thesis using True by (auto simp: AgentSpec_parse_def split: list.splits)
next
  case False
  then show ?thesis by (simp add: AgentSpec_parse_def sp_str_def split_at_sep split_at_word)
qed

end
