(* ===== verification/Sim_Init.thy ===== *)
theory Sim_Init
  imports Sim_Timer Greedy_Solver Query_Backend
begin

text \<open>
  sim_init.{h,cc}: reading a simulation back from its output database, either its initial state or the
  state at a snapshot, with the parts of dynamic_module.cc and agent.cc this uses. The database is a
  back end of \<open>Query_Backend\<close>; opening the library of an archetype and what an archetype reads from
  its own tables are parameters (record \<open>loader\<close>).
\<close>

section \<open>State\<close>

text \<open>A loaded module is its path and its constructor. \<open>man_ctors_\<close> are constructors registered by tests.\<close>

type_synonym 'u ctor = "'u sim \<Rightarrow> ('u sim, ptr) exec"

record 'u dyn_modules =
  dm_modules :: "(string, string \<times> 'u ctor) omap"
  dm_man_ctors :: "(string, 'u ctor) omap"

record 'u loader =
  ld_DynamicModule :: "AgentSpec \<Rightarrow> exn + string \<times> 'u ctor"
  ld_MakePyAgent :: "string \<Rightarrow> string \<Rightarrow> 'u ctor"
  ld_InitFrom :: "ptr \<Rightarrow> QueryableBackend \<Rightarrow> 'u sim \<Rightarrow> ('u sim, unit) exec"
  ld_InitInv :: "ptr \<Rightarrow> (string, ptr list) omap \<Rightarrow> 'u sim \<Rightarrow> ('u sim, unit) exec"

datatype loaded_solver =
    GreedyLoaded greedy
  | ProgLoaded (ps_type: string) (ps_tmax: double) (ps_exclusive: bool) (ps_verbose: bool) (ps_mps: bool)

record 'u sim_init =
  in_sim :: "'u sim"
  in_solver :: "loaded_solver option"
  in_modules :: "'u dyn_modules"
  in_agents :: "(int, ptr option) omap"
  in_si :: SimInfo
  in_t :: int
  in_simid :: string

definition on_sim :: "('u sim \<Rightarrow> ('u sim, 'a) exec) \<Rightarrow> 'u sim_init \<Rightarrow> ('u sim_init, 'a) exec" where
  "on_sim f s = (case f (in_sim s) of (r, x) \<Rightarrow> (r, s\<lparr>in_sim := x\<rparr>))"

lemma on_sim_simps [simp]:
  "f (in_sim s) = (Inr a, x) \<Longrightarrow> on_sim f s = (Inr a, s\<lparr>in_sim := x\<rparr>)"
  "f (in_sim s) = (Inl e, x) \<Longrightarrow> on_sim f s = (Inl e, s\<lparr>in_sim := x\<rparr>)"
  by (simp_all add: on_sim_def)

section \<open>Resources\<close>

fun read_comp :: "QueryResult \<Rightarrow> nat list \<Rightarrow> CompMap \<Rightarrow> exn + CompMap" where
  "read_comp qr [] cm = Inr cm"
| "read_comp qr (i # is) cm = bindE (GetInt qr ''NucId'' i) (\<lambda>nucid.
     bindE (GetDouble qr ''MassFrac'' i) (\<lambda>mass_frac. read_comp qr is (omap_put nucid mass_frac cm)))"

definition LoadComposition :: "nucdata \<Rightarrow> QueryableBackend \<Rightarrow> int \<Rightarrow> world \<Rightarrow> (world, ptr) exec" where
  "LoadComposition nd b stateid w =
     andThen (lift_x (bindE (ask b ''Compositions'' [(''QualId'', ''=='', VInt stateid)])
                        (\<lambda>qr. read_comp qr [0..<length (qr_rows qr)] [])) w) (\<lambda>cm w.
     andThen (CreateFromMass nd cm w) (\<lambda>c w1.
       ok c (upd_comp c (\<lambda>cp. cp\<lparr>comp_recorded := True, comp_id := stateid\<rparr>) w1)))"

text \<open>The creator of a loaded resource is a region that only lives for the call.\<close>

definition with_dummy :: "(int \<Rightarrow> world \<Rightarrow> (world, ptr) exec) \<Rightarrow> (ptr \<Rightarrow> world \<Rightarrow> world) \<Rightarrow> 'u sim \<Rightarrow> ('u sim, ptr) exec" where
  "with_dummy create adjust s =
     (case Agent_new KRegion s of (dummy, s1) \<Rightarrow>
        andThen (on_world (create (next_agent_id s)) s1) (\<lambda>r s2.
        andThen (DelAgent dummy (s2\<lparr>s_world := adjust r (s_world s2)\<rparr>)) (\<lambda>_ s3. ok r s3)))"

definition LoadMaterial :: "nucdata \<Rightarrow> QueryableBackend \<Rightarrow> int \<Rightarrow> 'u sim \<Rightarrow> ('u sim, ptr) exec" where
  "LoadMaterial nd b sid s =
     andThen (lift_x
       (bindE (ask b ''MaterialInfo'' [(''ResourceId'', ''=='', VInt sid)]) (\<lambda>qi.
        bindE (GetInt qi ''PrevDecayTime'' 0) (\<lambda>prev.
        bindE (ask b ''Resources'' [(''ResourceId'', ''=='', VInt sid)]) (\<lambda>qr.
        bindE (GetDouble qr ''Quantity'' 0) (\<lambda>qty.
        bindE (GetInt qr ''QualId'' 0) (\<lambda>stateid. Inr (prev, qty, stateid))))))) s) (\<lambda>(prev, qty, stateid) s.
     andThen (on_world (LoadComposition nd b stateid) s) (\<lambda>c.
       with_dummy (\<lambda>creator. Material_Create nd creator qty c) (\<lambda>m. set_prev_decay_time m prev)))"

definition LoadProduct :: "nucdata \<Rightarrow> QueryableBackend \<Rightarrow> int \<Rightarrow> 'u sim \<Rightarrow> ('u sim, ptr) exec" where
  "LoadProduct nd b sid s =
     andThen (lift_x
       (bindE (ask b ''Resources'' [(''ResourceId'', ''=='', VInt sid)]) (\<lambda>qr.
        bindE (GetDouble qr ''Quantity'' 0) (\<lambda>qty.
        bindE (GetInt qr ''QualId'' 0) (\<lambda>stateid.
        bindE (ask b ''Products'' [(''QualId'', ''=='', VInt stateid)]) (\<lambda>qp.
        bindE (GetString qp ''Quality'' 0) (\<lambda>quality. Inr (qty, stateid, quality))))))) s) (\<lambda>(qty, stateid, quality) s.
       with_dummy (\<lambda>creator. Product_Create nd creator qty quality) (\<lambda>_ w. w)
         (s\<lparr>s_world := (s_world s)\<lparr>qualids := (quality, stateid) # qualids (s_world s)\<rparr>\<rparr>))"

definition LoadResource :: "nucdata \<Rightarrow> QueryableBackend \<Rightarrow> int \<Rightarrow> 'u sim \<Rightarrow> ('u sim, ptr) exec" where
  "LoadResource nd b sid s =
     andThen (lift_x
       (bindE (ask b ''Resources'' [(''ResourceId'', ''=='', VInt sid)]) (\<lambda>qr.
        bindE (GetString qr ''Type'' 0) (\<lambda>ty. bindE (GetInt qr ''ObjId'' 0) (\<lambda>oid. Inr (ty, oid))))) s) (\<lambda>(ty, oid) s.
     andThen (if ty = ''Material'' then LoadMaterial nd b sid s
              else if ty = ''Product'' then LoadProduct nd b sid s
              else throw IOError s) (\<lambda>r s1.
       ok r (s1\<lparr>s_world := upd_res r (\<lambda>x. x\<lparr>state_id := sid, obj_id := oid\<rparr>) (s_world s1)\<rparr>)))"

text \<open>Loading into a context that is destroyed afterwards. The static counters live on, the rows
  recorded meanwhile do not, and the object is cut off from the context. A cast to the wrong class is a
  null pointer that is dereferenced.\<close>

definition BuildResource :: "string \<Rightarrow> nucdata \<Rightarrow> double \<times> double \<Rightarrow> QueryableBackend \<Rightarrow> int \<Rightarrow> int \<times> world \<Rightarrow> (int \<times> world, ptr) exec" where
  "BuildResource cls nd junk b resid st =
     (case LoadResource nd b resid
         ((Context_new (SimInfo_new junk 0 2010 1 '''' ''manual'') ((snd st)\<lparr>w_decay := ''manual'', w_dt := kDefaultTimeStepDur\<rparr>) ())\<lparr>next_agent_id := fst st\<rparr>) of
        (x, s) \<Rightarrow>
          (let out = (\<lambda>w. (next_agent_id s, w\<lparr>w_db := w_db (snd st), w_time := w_time (snd st),
             w_decay := w_decay (snd st), w_dt := w_dt (snd st)\<rparr>))
           in case x of
                Inl e \<Rightarrow> throw e (out (s_world s))
              | Inr m \<Rightarrow> deref (w_res (s_world s) m) (out (s_world s)) (\<lambda>r.
                  if res_type (body r) \<noteq> cls then throw Undefined (out (s_world s))
                  else ok m (out (upd_res m (has_ctx_update (\<lambda>_. False)) (DontTrack m (s_world s)))))))"

definition BuildMaterial :: "nucdata \<Rightarrow> double \<times> double \<Rightarrow> QueryableBackend \<Rightarrow> int \<Rightarrow> int \<times> world \<Rightarrow> (int \<times> world, ptr) exec" where
  "BuildMaterial = BuildResource ''Material''"

definition BuildProduct :: "nucdata \<Rightarrow> double \<times> double \<Rightarrow> QueryableBackend \<Rightarrow> int \<Rightarrow> int \<times> world \<Rightarrow> (int \<times> world, ptr) exec" where
  "BuildProduct = BuildResource ''Product''"

section \<open>Information, recipes and the solver\<close>

definition to_uint64 :: "int \<Rightarrow> nat" where
  "to_uint64 i = nat (i mod 2 ^ 64)"

definition read_info :: "double \<times> double \<Rightarrow> QueryableBackend \<Rightarrow> exn + SimInfo" where
  "read_info junk b =
     bindE (qb_Query b ''Info'' None) (\<lambda>qr. bindE (GetInt qr ''Duration'' 0) (\<lambda>dur.
     bindE (GetInt qr ''InitialYear'' 0) (\<lambda>y. bindE (GetInt qr ''InitialMonth'' 0) (\<lambda>m. bindE (GetString qr ''Handle'' 0) (\<lambda>h.
     bindE (qb_Query b ''DecayMode'' None) (\<lambda>dq. bindE (GetString dq ''Decay'' 0) (\<lambda>d.
     bindE (GetUuid qr ''ParentSimId'' 0) (\<lambda>parent.
     bindE (qb_Query b ''TimeStepDur'' None) (\<lambda>qt. bindE (GetInt qt ''DurationSecs'' 0) (\<lambda>dt.
     bindE (qb_Query b ''Epsilon'' None) (\<lambda>qe. bindE (GetDouble qe ''GenericEpsilon'' 0) (\<lambda>e. bindE (GetDouble qe ''ResourceEpsilon'' 0) (\<lambda>er.
     bindE (qb_Query b ''InfoExplicitInv'' None) (\<lambda>qi. bindE (GetBool qi ''RecordInventory'' 0) (\<lambda>inv.
     bindE (GetBool qi ''RecordInventoryCompact'' 0) (\<lambda>invc.
       Inr ((SimInfo_new junk dur y m h d)\<lparr>parent_sim := parent, si_dt := to_uint64 dt, si_eps := e, si_eps_rsrc := er,
              explicit_inventory := inv, explicit_inventory_compact := invc\<rparr>)))))))))))))))))"

definition LoadInfo :: "double \<times> double \<Rightarrow> QueryableBackend \<Rightarrow> 'u sim_init \<Rightarrow> ('u sim_init, unit) exec" where
  "LoadInfo junk b s = andThen (lift_x (read_info junk b) s) (\<lambda>si s. on_sim (InitSim si) (s\<lparr>in_si := si\<rparr>))"

definition LoadRecipes :: "nucdata \<Rightarrow> QueryableBackend \<Rightarrow> 'u sim_init \<Rightarrow> ('u sim_init, unit) exec" where
  "LoadRecipes nd b s = (case qb_Query b ''Recipes'' None of
     Inl e \<Rightarrow> if catchable e then ok () s else throw e s
   | Inr qr \<Rightarrow> foreach (\<lambda>i s.
       andThen (lift_x (bindE (GetString qr ''Recipe'' i) (\<lambda>recipe. bindE (GetInt qr ''QualId'' i) (\<lambda>sid. Inr (recipe, sid)))) s) (\<lambda>(recipe, sid) s.
       on_sim (\<lambda>x. andThen (on_world (LoadComposition nd b sid) x) (\<lambda>c. AddRecipe recipe c)) s)) [0..<length (qr_rows qr)] s)"

fun read_order :: "QueryResult \<Rightarrow> nat list \<Rightarrow> (string, double) omap \<Rightarrow> exn + (string, double) omap" where
  "read_order qr [] m = Inr m"
| "read_order qr (i # is) m = bindE (GetString qr ''Commodity'' i) (\<lambda>commod.
     bindE (GetDouble qr ''SolutionOrder'' i) (\<lambda>order. read_order qr is (omap_put commod order m)))"

text \<open>A null pointer is returned when the table cannot be read.\<close>

definition LoadPreconditioner :: "QueryableBackend \<Rightarrow> string \<Rightarrow> exn + precond option" where
  "LoadPreconditioner b name =
     (case bindE (qb_Query b ''CommodPriority'' None) (\<lambda>qr. read_order qr [0..<length (qr_rows qr)] []) of
        Inl e \<Rightarrow> if catchable e then Inr None else Inl e
      | Inr commod_order \<Rightarrow>
          if name = ''greedy'' then bindE (GreedyPreconditioner_new commod_order REVERSE) (\<lambda>c. Inr (Some c))
          else Inl ValueError)"

definition LoadGreedySolver :: "QueryableBackend \<Rightarrow> bool \<Rightarrow> string list \<Rightarrow> exn + loaded_solver" where
  "LoadGreedySolver b exclusive tables =
     bindE (if ''GreedySolverInfo'' \<in> set tables
            then bindE (qb_Query b ''GreedySolverInfo'' None) (\<lambda>qr.
                   if length (qr_rows qr) > 0 then GetString qr ''Preconditioner'' 0 else Inr ''greedy'')
            else Inr ''greedy'') (\<lambda>precon_name.
     bindE (LoadPreconditioner b precon_name) (\<lambda>precon.
       Inr (GreedyLoaded (GreedySolver_new exclusive (case precon of
           None \<Rightarrow> Some \<lparr>avg_prefs = [], commod_weights = [], group_weights = []\<rparr>
         | Some c \<Rightarrow> Some c) ExchangeGraph_new))))"

definition ps_kDefaultTimeout :: double where
  "ps_kDefaultTimeout = 5 * 60"

text \<open>Without the table, three variables are read that were never set.\<close>

definition LoadCoinSolver :: "QueryableBackend \<Rightarrow> bool \<Rightarrow> string list \<Rightarrow> exn + loaded_solver" where
  "LoadCoinSolver b exclusive tables =
     (if ''CoinSolverInfo'' \<in> set tables
      then bindE (qb_Query b ''CoinSolverInfo'' None) (\<lambda>qr. bindE (GetDouble qr ''Timeout'' 0) (\<lambda>timeout.
           bindE (GetBool qr ''Verbose'' 0) (\<lambda>verbose. bindE (GetBool qr ''Mps'' 0) (\<lambda>mps.
             Inr (ProgLoaded ''cbc'' (if timeout \<le> 0 then ps_kDefaultTimeout else timeout) exclusive verbose mps)))))
      else Inl Undefined)"

text \<open>The name of the solver is empty when there is no row, so that the flag is never read unset.\<close>

definition read_solver :: "QueryableBackend \<Rightarrow> string list \<Rightarrow> exn + string \<times> bool" where
  "read_solver b tables =
     (if ''SolverInfo'' \<in> set tables
      then bindE (qb_Query b ''SolverInfo'' None) (\<lambda>qr.
           if length (qr_rows qr) > 0
           then bindE (GetString qr ''Solver'' 0) (\<lambda>name. bindE (GetBool qr ''ExclusiveOrders'' 0) (\<lambda>excl. Inr (name, excl)))
           else Inr ('''', False))
      else Inr ('''', False))"

definition LoadSolverInfo :: "QueryableBackend \<Rightarrow> 'u sim_init \<Rightarrow> ('u sim_init, unit) exec" where
  "LoadSolverInfo b s =
     andThen (lift_x (bindE (read_solver b (qb_Tables b)) (\<lambda>(name, excl).
        if name = ''greedy'' then LoadGreedySolver b excl (qb_Tables b)
        else if name = ''coin-or'' then LoadCoinSolver b excl (qb_Tables b)
        else Inl ValueError)) s) (\<lambda>solver s. ok () (s\<lparr>in_solver := Some solver\<rparr>))"

section \<open>Prototypes and agents\<close>

text \<open>\<open>DynamicModule::Make\<close>: modules are opened once and kept by the text of their specification.\<close>

definition construct :: "'u ctor \<Rightarrow> AgentSpec \<Rightarrow> 'u sim_init \<Rightarrow> ('u sim_init, ptr) exec" where
  "construct c spec s = andThen (on_sim c s) (\<lambda>p s1. deref (s_agents (in_sim s1) p) s1 (\<lambda>_.
     ok p (s1\<lparr>in_sim := upd_agent p (ag_spec_update (\<lambda>_. sp_str spec)) (in_sim s1)\<rparr>)))"

definition starts_with :: "string \<Rightarrow> string \<Rightarrow> bool" where
  "starts_with xs pre \<longleftrightarrow> take (length pre) xs = pre"

definition Make :: "'u loader \<Rightarrow> AgentSpec \<Rightarrow> 'u sim_init \<Rightarrow> ('u sim_init, ptr) exec" where
  "Make ld spec s = (case map_of (dm_man_ctors (in_modules s)) (sp_str spec) of
     Some c \<Rightarrow> construct c spec s
   | None \<Rightarrow>
       andThen (case map_of (dm_modules (in_modules s)) (sp_str spec) of
           Some d \<Rightarrow> ok d s
         | None \<Rightarrow> andThen (lift_x (ld_DynamicModule ld spec) s) (\<lambda>d s.
             ok d (s\<lparr>in_modules := (in_modules s)\<lparr>dm_modules := omap_put (sp_str spec) d (dm_modules (in_modules s))\<rparr>\<rparr>))) (\<lambda>(path, c).
         construct (if starts_with path ''<py>'' then ld_MakePyAgent ld (sp_lib spec) (sp_agent spec) else c) spec))"

text \<open>\<open>Agent::InitFrom(QueryableBackend*)\<close>; members are assigned one after the other.\<close>

definition Agent_InitFrom_db :: "ptr \<Rightarrow> QueryableBackend \<Rightarrow> 'u sim \<Rightarrow> ('u sim, unit) exec" where
  "Agent_InitFrom_db p b s =
     andThen (lift_x (qb_Query b ''Agent'' None) s) (\<lambda>qr s.
     andThen (lift_x (GetString qr ''Prototype'' 0) s) (\<lambda>proto s.
     andThen (lift_x (GetInt qr ''AgentId'' 0) (upd_agent p (ag_prototype_update (\<lambda>_. proto)) s)) (\<lambda>aid s.
     andThen (lift_x (GetInt qr ''Lifetime'' 0) (upd_agent p (ag_id_update (\<lambda>_. aid)) s)) (\<lambda>life s.
       ok () (upd_agent p (ag_lifetime_update (\<lambda>_. life)) s)))))"

text \<open>Both initialisations of an agent, from the common table and from those of its archetype.\<close>

definition init_agent :: "'u loader \<Rightarrow> QueryableBackend \<Rightarrow> AgentSpec \<Rightarrow> ptr \<Rightarrow> 'u sim_init \<Rightarrow> ('u sim_init, unit) exec" where
  "init_agent ld ci spec p s =
     andThen (on_sim (Agent_InitFrom_db p (PrefixInjector ci ''AgentState'')) s) (\<lambda>_.
       on_sim (ld_InitFrom ld p (PrefixInjector ci (''AgentState'' @ Sanitize spec))))"

definition load_prototype :: "'u arch \<Rightarrow> 'u loader \<Rightarrow> QueryableBackend \<Rightarrow> QueryResult \<Rightarrow> nat \<Rightarrow> 'u sim_init \<Rightarrow> ('u sim_init, unit) exec" where
  "load_prototype cb ld b qr i s =
     andThen (lift_x (bindE (GetString qr ''Prototype'' i) (\<lambda>proto. bindE (GetInt qr ''AgentId'' i) (\<lambda>aid.
        bindE (GetString qr ''Spec'' i) (\<lambda>impl. bindE (AgentSpec_parse impl) (\<lambda>spec. Inr (proto, aid, spec)))))) s) (\<lambda>(proto, aid, spec) s.
     andThen (Make ld spec s) (\<lambda>p s.
     andThen (lift_x (inject b [(''AgentId'', ''=='', VInt aid)]) (s\<lparr>in_sim := upd_agent p (ag_id_update (\<lambda>_. aid)) (in_sim s)\<rparr>)) (\<lambda>ci s.
     andThen (init_agent ld ci spec p s) (\<lambda>_.
       on_sim (AddPrototype cb proto p False)))))"

definition LoadPrototypes :: "'u arch \<Rightarrow> 'u loader \<Rightarrow> QueryableBackend \<Rightarrow> 'u sim_init \<Rightarrow> ('u sim_init, unit) exec" where
  "LoadPrototypes cb ld b s = andThen (lift_x (qb_Query b ''Prototypes'' None) s) (\<lambda>qr.
     foreach (load_prototype cb ld b qr) [0..<length (qr_rows qr)])"

text \<open>Whether an agent left before the time; a missing table means that nobody did.\<close>

definition left_before :: "QueryableBackend \<Rightarrow> int \<Rightarrow> int \<Rightarrow> exn + bool" where
  "left_before b t aid = (case ask b ''AgentExit'' [(''AgentId'', ''=='', VInt aid), (''ExitTime'', ''<'', VInt t)] of
     Inl e \<Rightarrow> if catchable e then Inr False else Inl e
   | Inr qexit \<Rightarrow> Inr (length (qr_rows qexit) \<noteq> 0))"

type_synonym unbuilt = "(int, ptr) omap \<times> (int, int) omap"

definition load_agent :: "'u loader \<Rightarrow> QueryableBackend \<Rightarrow> QueryResult \<Rightarrow> nat \<Rightarrow> int \<Rightarrow> unbuilt \<Rightarrow> 'u sim_init \<Rightarrow> ('u sim_init, unbuilt) exec" where
  "load_agent ld b qentry i aid ub s =
     andThen (lift_x (bindE (GetString qentry ''Prototype'' i) (\<lambda>proto. bindE (GetString qentry ''Spec'' i) (\<lambda>impl.
        bindE (AgentSpec_parse impl) (\<lambda>spec. Inr (proto, spec))))) s) (\<lambda>(proto, spec) s.
     andThen (Make ld spec s) (\<lambda>p s.
     andThen (lift_x (GetInt qentry ''EnterTime'' i)
        (s\<lparr>in_sim := upd_agent p (\<lambda>a. a\<lparr>ag_prototype := proto, ag_id := aid\<rparr>) (in_sim s)\<rparr>)) (\<lambda>enter s.
     andThen (lift_x (GetInt qentry ''ParentId'' i)
        (s\<lparr>in_sim := upd_agent p (ag_enter_time_update (\<lambda>_. enter)) (in_sim s)\<rparr>)) (\<lambda>parent s.
     andThen (lift_x (inject b [(''AgentId'', ''=='', VInt aid), (''SimTime'', ''=='', VInt (in_t s))]) s) (\<lambda>ci s.
     andThen (init_agent ld ci spec p s) (\<lambda>_ s.
       ok (omap_put aid p (fst ub), omap_put aid parent (snd ub)) s))))))"

fun load_entries :: "'u loader \<Rightarrow> QueryableBackend \<Rightarrow> QueryResult \<Rightarrow> nat list \<Rightarrow> unbuilt \<Rightarrow> 'u sim_init \<Rightarrow> ('u sim_init, unbuilt) exec" where
  "load_entries ld b qentry [] ub s = ok ub s"
| "load_entries ld b qentry (i # is) ub s =
     andThen (lift_x (if in_t s > 0 then bindE (GetInt qentry ''EnterTime'' i) (\<lambda>e. Inr (e = in_t s)) else Inr False) s) (\<lambda>due s.
       if due then load_entries ld b qentry is ub s
       else andThen (lift_x (GetInt qentry ''AgentId'' i) s) (\<lambda>aid s.
            andThen (lift_x (left_before b (in_t s) aid) s) (\<lambda>gone s.
              if gone then load_entries ld b qentry is ub s
              else andThen (load_agent ld b qentry i aid ub s) (load_entries ld b qentry is))))"

text \<open>
  The loop that builds the hierarchy walks the map of agents that are not connected yet again and
  again: \<open>seen\<close> are those it passed over on this walk, \<open>ahead\<close> those from the iterator on. It ends when
  both are empty; it does not end when the parent of an agent is not among the loaded ones.
\<close>

definition link :: "int \<Rightarrow> ptr \<Rightarrow> ptr option \<Rightarrow> 'u sim_init \<Rightarrow> ('u sim_init, unit) exec" where
  "link aid m parent s = andThen (on_sim (Connect m parent) s) (\<lambda>_ s1. ok () (s1\<lparr>in_agents := omap_put aid (Some m) (in_agents s1)\<rparr>))"

partial_function (option) link_loop :: "(int, int) omap \<Rightarrow> (int \<times> ptr) list \<Rightarrow> (int \<times> ptr) list \<Rightarrow> ptr list \<Rightarrow> 'u sim_init \<Rightarrow>
    ('u sim_init, ptr list) pexec" where
  "link_loop parentmap seen ahead entered s =
     (case ahead of
        [] \<Rightarrow> if seen = [] then Some (ok entered s) else link_loop parentmap [] seen entered s
      | (aid, m) # rest \<Rightarrow>
          (let parentid = omap_sub 0 parentmap aid
           in if parentid = -1 then pthen (Some (link aid m None s)) (\<lambda>_. link_loop parentmap seen rest (entered @ [m]))
              else case map_of (in_agents s) parentid of
                Some q \<Rightarrow> pthen (Some (link aid m q s)) (\<lambda>_. link_loop parentmap seen rest (entered @ [m]))
              | None \<Rightarrow> link_loop parentmap (seen @ [(aid, m)]) rest entered s))"

definition LoadInitialAgents :: "'u arch \<Rightarrow> 'u loader \<Rightarrow> QueryableBackend \<Rightarrow> 'u sim_init \<Rightarrow> ('u sim_init, unit) pexec" where
  "LoadInitialAgents cb ld b s =
     pthen (Some (andThen (lift_x (ask b ''AgentEntry'' [(''EnterTime'', ''<='', VInt (in_t s))]) s) (\<lambda>qentry.
        load_entries ld b qentry [0..<length (qr_rows qentry)] ([], [])))) (\<lambda>(ub, parentmap) s.
     pthen (link_loop parentmap [] ub [] s) (\<lambda>entered s.
       Some (foreach (\<lambda>m. on_sim (EnterNotify cb m)) entered s)))"

section \<open>Inventories, schedules and counters\<close>

fun load_invs :: "nucdata \<Rightarrow> QueryableBackend \<Rightarrow> QueryResult \<Rightarrow> nat list \<Rightarrow> (string, ptr list) omap \<Rightarrow> 'u sim \<Rightarrow>
    ('u sim, (string, ptr list) omap) exec" where
  "load_invs nd b qr [] invs s = ok invs s"
| "load_invs nd b qr (i # is) invs s =
     andThen (lift_x (bindE (GetString qr ''InventoryName'' i) (\<lambda>name. bindE (GetInt qr ''ResourceId'' i) (\<lambda>sid. Inr (name, sid)))) s) (\<lambda>(name, sid) s.
     andThen (LoadResource nd b sid s) (\<lambda>r. load_invs nd b qr is (omap_push name r invs)))"

text \<open>The first agent whose query fails ends the loop.\<close>

fun load_inventories :: "nucdata \<Rightarrow> 'u loader \<Rightarrow> QueryableBackend \<Rightarrow> ptr option list \<Rightarrow> 'u sim_init \<Rightarrow> ('u sim_init, unit) exec" where
  "load_inventories nd ld b [] s = ok () s"
| "load_inventories nd ld b (mo # ms) s = deref mo s (\<lambda>m. deref (s_agents (in_sim s) m) s (\<lambda>a.
     case ask b ''AgentStateInventories'' [(''SimTime'', ''=='', VInt (in_t s)), (''AgentId'', ''=='', VInt (ag_id a))] of
       Inl e \<Rightarrow> if catchable e then ok () s else throw e s
     | Inr qr \<Rightarrow> andThen (on_sim (load_invs nd b qr [0..<length (qr_rows qr)] []) s) (\<lambda>invs s.
         andThen (on_sim (ld_InitInv ld m invs) s) (\<lambda>_. load_inventories nd ld b ms))))"

definition LoadInventories :: "nucdata \<Rightarrow> 'u loader \<Rightarrow> QueryableBackend \<Rightarrow> 'u sim_init \<Rightarrow> ('u sim_init, unit) exec" where
  "LoadInventories nd ld b s = load_inventories nd ld b (map snd (in_agents s)) s"

text \<open>\<open>agents_[id]\<close> enters a null pointer for an id that is missing.\<close>

definition agent_at :: "int \<Rightarrow> 'u sim_init \<Rightarrow> ptr option \<times> 'u sim_init" where
  "agent_at aid s = (omap_sub None (in_agents s) aid, s\<lparr>in_agents := omap_touch None aid (in_agents s)\<rparr>)"

definition LoadBuildSched :: "QueryableBackend \<Rightarrow> 'u sim_init \<Rightarrow> ('u sim_init, unit) exec" where
  "LoadBuildSched b s = (case ask b ''BuildSchedule'' [(''BuildTime'', ''>'', VInt (in_t s))] of
     Inl e \<Rightarrow> if catchable e then ok () s else throw e s
   | Inr qr \<Rightarrow> foreach (\<lambda>i s.
       andThen (lift_x (bindE (GetInt qr ''BuildTime'' i) (\<lambda>t. bindE (GetInt qr ''ParentId'' i) (\<lambda>pid.
          bindE (GetString qr ''Prototype'' i) (\<lambda>proto. Inr (t, pid, proto))))) s) (\<lambda>(t, pid, proto) s.
       case agent_at pid s of (parent, s1) \<Rightarrow> on_sim (Context_SchedBuild parent proto t) s1)) [0..<length (qr_rows qr)] s)"

text \<open>With a null pointer the queue takes it before its id is read.\<close>

definition sched_decom_at :: "ptr option \<Rightarrow> int \<Rightarrow> 'u sim \<Rightarrow> ('u sim, unit) exec" where
  "sched_decom_at mo t s = (case mo of
     Some m \<Rightarrow> Context_SchedDecom m t s
   | None \<Rightarrow> if (if t = -1 then time_of s else t) < time_of s then throw ValueError s else throw Undefined s)"

definition LoadDecomSched :: "QueryableBackend \<Rightarrow> 'u sim_init \<Rightarrow> ('u sim_init, unit) exec" where
  "LoadDecomSched b s = (case ask b ''DecomSchedule'' [(''DecomTime'', ''>='', VInt (in_t s))] of
     Inl e \<Rightarrow> if catchable e then ok () s else throw e s
   | Inr qr \<Rightarrow> foreach (\<lambda>i s.
       andThen (lift_x (bindE (GetInt qr ''DecomTime'' i) (\<lambda>t. bindE (GetInt qr ''AgentId'' i) (\<lambda>aid. Inr (t, aid)))) s) (\<lambda>(t, aid) s.
       case agent_at aid s of (m, s1) \<Rightarrow> on_sim (sched_decom_at m t) s1)) [0..<length (qr_rows qr)] s)"

definition set_next_id :: "string \<Rightarrow> exn + int \<Rightarrow> 'u sim \<Rightarrow> ('u sim, unit) exec" where
  "set_next_id obj n s =
     (if obj = ''Agent'' then andThen (lift_x n s) (\<lambda>i s. ok () (s\<lparr>next_agent_id := i\<rparr>))
      else if obj = ''Transaction'' then andThen (lift_x n s) (\<lambda>i s. ok () (s\<lparr>trans_id := i\<rparr>))
      else if obj = ''Composition'' then andThen (lift_x n s) (\<lambda>i s. ok () (s\<lparr>s_world := (s_world s)\<lparr>next_comp_id := i\<rparr>\<rparr>))
      else if obj = ''ResourceState'' then andThen (lift_x n s) (\<lambda>i s. ok () (s\<lparr>s_world := (s_world s)\<lparr>nextstate_id := i\<rparr>\<rparr>))
      else if obj = ''ResourceObj'' then andThen (lift_x n s) (\<lambda>i s. ok () (s\<lparr>s_world := (s_world s)\<lparr>nextobj_id := i\<rparr>\<rparr>))
      else if obj = ''Product'' then andThen (lift_x n s) (\<lambda>i s. ok () (s\<lparr>s_world := (s_world s)\<lparr>next_qualid := i\<rparr>\<rparr>))
      else throw IOError s)"

definition LoadNextIds :: "QueryableBackend \<Rightarrow> 'u sim_init \<Rightarrow> ('u sim_init, unit) exec" where
  "LoadNextIds b s = andThen (lift_x (ask b ''NextIds'' [(''Time'', ''=='', VInt (in_t s))]) s) (\<lambda>qr.
     foreach (\<lambda>i s. andThen (lift_x (GetString qr ''Object'' i) s) (\<lambda>obj. on_sim (set_next_id obj (GetInt qr ''NextId'' i))))
       [0..<length (qr_rows qr)])"

section \<open>The whole\<close>

text \<open>
  A fresh object, with the world of the process for its static counters. Everything recorded while
  loading goes to a recorder that has no back end, so that flushing it discards the rows.
\<close>

definition SimInit_new :: "double \<times> double \<Rightarrow> 'u dyn_modules \<Rightarrow> world \<Rightarrow> 'u \<Rightarrow> 'u sim_init" where
  "SimInit_new junk dm w u = \<lparr>in_sim = Context_new (SimInfo_new junk 0 2010 1 '''' ''manual'') w u, in_solver = None, in_modules = dm,
     in_agents = [], in_si = SimInfo_new junk 0 2010 1 '''' ''manual'', in_t = 0, in_simid = ''''\<rparr>"

definition drop_rows :: "'u sim_init \<Rightarrow> 'u sim_init" where
  "drop_rows s = s\<lparr>in_sim := (in_sim s)\<lparr>s_db := [], s_world := (s_world (in_sim s))\<lparr>w_db := []\<rparr>\<rparr>\<rparr>"

definition InitBase :: "nucdata \<Rightarrow> 'u arch \<Rightarrow> 'u loader \<Rightarrow> double \<times> double \<Rightarrow> QueryableBackend \<Rightarrow> string \<Rightarrow> int \<Rightarrow>
    'u sim_init \<Rightarrow> ('u sim_init, unit) pexec" where
  "InitBase nd cb ld junk b0 simid t s =
     pthen (Some (lift_x (inject b0 [(''SimId'', ''=='', VUuid simid)]) s)) (\<lambda>b s.
     pthen (Some (LoadInfo junk b (s\<lparr>in_t := t, in_simid := simid\<rparr>))) (\<lambda>_ s.
     pthen (Some (LoadRecipes nd b s)) (\<lambda>_ s.
     pthen (Some (LoadSolverInfo b s)) (\<lambda>_ s.
     pthen (Some (LoadPrototypes cb ld b s)) (\<lambda>_ s.
     pthen (LoadInitialAgents cb ld b s) (\<lambda>_ s.
     pthen (Some (LoadInventories nd ld b s)) (\<lambda>_ s.
     pthen (Some (LoadBuildSched b s)) (\<lambda>_ s.
     pthen (Some (LoadDecomSched b s)) (\<lambda>_ s.
     pthen (Some (LoadNextIds b s)) (\<lambda>_ s. Some (ok () (drop_rows s))))))))))))"

definition SimInit_Init :: "nucdata \<Rightarrow> 'u arch \<Rightarrow> 'u loader \<Rightarrow> double \<times> double \<Rightarrow> string \<Rightarrow> QueryableBackend \<Rightarrow> 'u sim_init \<Rightarrow> ('u sim_init, unit) pexec" where
  "SimInit_Init nd cb ld junk rec_sim_id b s = InitBase nd cb ld junk b rec_sim_id 0 s"

definition Restart :: "nucdata \<Rightarrow> 'u arch \<Rightarrow> 'u loader \<Rightarrow> double \<times> double \<Rightarrow> QueryableBackend \<Rightarrow> string \<Rightarrow> int \<Rightarrow> 'u sim_init \<Rightarrow> ('u sim_init, unit) pexec" where
  "Restart nd cb ld junk b simid t s = pthen (InitBase nd cb ld junk b simid t s) (\<lambda>_ s.
     let si = (in_si s)\<lparr>parent_sim := simid, parent_type := ''restart'', branch_time := t\<rparr>
     in Some (on_sim (InitSim si) (s\<lparr>in_si := si\<rparr>)))"

definition Branch :: "QueryableBackend \<Rightarrow> string \<Rightarrow> int \<Rightarrow> string \<Rightarrow> 'u sim_init \<Rightarrow> ('u sim_init, unit) exec" where
  "Branch b prev_sim_id t new_sim_id s = throw Error_exn s"

end
