(* ===== verification/Database.thy ===== *)
theory Database
  imports Sim_Init
begin

text \<open>
  What the databases promise: a query returns the rows of a table that satisfy all conditions, in the
  order they were recorded. This is the contract the loading of a simulation rests on. The wrappers of
  query_backend.h keep it, and the tables that the rows recorded by the kernel form satisfy it.
\<close>

section \<open>The contract\<close>

type_synonym table = "string list \<times> dbval list list"

text \<open>A row meets a condition on a column of the table.\<close>

definition meets :: "string list \<Rightarrow> dbval list \<Rightarrow> Cond \<Rightarrow> bool" where
  "meets fs row c \<longleftrightarrow> (case field_index (c_field c) fs of
     None \<Rightarrow> False | Some i \<Rightarrow> i < length row \<and> CmpCond (row ! i) c = Inr True)"

definition select :: "Cond list \<Rightarrow> table \<Rightarrow> table" where
  "select cs tb = (fst tb, filter (\<lambda>row. \<forall>c \<in> set cs. meets (fst tb) row c) (snd tb))"

definition result_of :: "DbTypes list \<Rightarrow> table \<Rightarrow> QueryResult" where
  "result_of tys tb = \<lparr>qr_fields = fst tb, qr_types = tys, qr_rows = snd tb\<rparr>"

locale database =
  fixes b :: QueryableBackend and db :: "string \<Rightarrow> table option"
  assumes missing: "db t = None \<Longrightarrow> \<exists>e. qb_Query b t cs = Inl e \<and> catchable e"
    and present: "db t = Some tb \<Longrightarrow> \<forall>c \<in> set (case cs of None \<Rightarrow> [] | Some l \<Rightarrow> l). c_field c \<in> set (fst tb) \<Longrightarrow>
      \<exists>tys. qb_Query b t cs = Inr (result_of tys (select (case cs of None \<Rightarrow> [] | Some l \<Rightarrow> l) tb))"
begin

lemma injected:
  assumes "\<And>t tb. db t = Some tb \<Longrightarrow> \<forall>c \<in> set js. c_field c \<in> set (fst tb)"
  shows "database (CondInjector b js) (\<lambda>t. map_option (select js) (db t))"
proof
  fix t and cs :: "Cond list option" assume "map_option (select js) (db t) = None"
  then show "\<exists>e. qb_Query (CondInjector b js) t cs = Inl e \<and> catchable e"
    using missing[of t] by (cases cs) (simp_all add: CondInjector_def)
next
  fix t tb and cs :: "Cond list option"
  assume h: "map_option (select js) (db t) = Some tb"
    and c: "\<forall>c \<in> set (case cs of None \<Rightarrow> [] | Some l \<Rightarrow> l). c_field c \<in> set (fst tb)"
  from h obtain tb0 where t0: "db t = Some tb0" "tb = select js tb0" by auto
  let ?l = "case cs of None \<Rightarrow> [] | Some l \<Rightarrow> l"
  have q: "qb_Query (CondInjector b js) t cs = qb_Query b t (Some (?l @ js))" by (cases cs) (simp_all add: CondInjector_def)
  have f: "\<forall>c \<in> set (?l @ js). c_field c \<in> set (fst tb0)" using c assms[OF t0(1)] t0(2) by (auto simp: select_def)
  have "select (?l @ js) tb0 = select ?l tb"
    using t0(2) by (simp add: select_def ball_Un conj_commute)
  then show "\<exists>tys. qb_Query (CondInjector b js) t cs = Inr (result_of tys (select ?l tb))"
    using present[OF t0(1), of "Some (?l @ js)"] f q by simp
qed

lemma prefixed: "database (PrefixInjector b pre) (\<lambda>t. db (pre @ t))"
  using missing present by unfold_locales (simp_all add: PrefixInjector_def)

lemma ask_rows:
  assumes "db t = Some tb" "mapE (\<lambda>(f, op, v). Cond_new f op v) qs = Inr cs" "\<forall>c \<in> set cs. c_field c \<in> set (fst tb)"
  shows "\<exists>tys. ask b t qs = Inr (result_of tys (select cs tb))"
  using present[OF assms(1), of "Some cs"] assms(2,3) by (simp add: ask_def)

end

section \<open>Tables of recorded rows\<close>

text \<open>A database that is a list of named tables.\<close>

definition table_backend :: "(string \<Rightarrow> table option) \<Rightarrow> QueryableBackend" where
  "table_backend db = \<lparr>qb_Query = \<lambda>t cs. case db t of None \<Rightarrow> Inl ValueError
       | Some tb \<Rightarrow> Inr (result_of [] (select (case cs of None \<Rightarrow> [] | Some l \<Rightarrow> l) tb)),
     qb_ColumnTypes = \<lambda>_. Inl ValueError, qb_Schema = \<lambda>_. Inl ValueError, qb_Tables = []\<rparr>"

interpretation tabled: database "table_backend db" db
  by unfold_locales (auto simp: table_backend_def catchable_def)

text \<open>The columns of the tables that loading reads, as the calls of \<open>AddVal\<close> give them.\<close>

fun krow_row :: "krow \<Rightarrow> string \<times> (string \<times> dbval) list" where
  "krow_row (AgentEntry aid kind spec proto pid life enter) = (''AgentEntry'',
     [(''AgentId'', VInt aid), (''Kind'', VStr kind), (''Spec'', VStr spec), (''Prototype'', VStr proto), (''ParentId'', VInt pid),
      (''Lifetime'', VInt life), (''EnterTime'', VInt enter)])"
| "krow_row (AgentExit aid t) = (''AgentExit'', [(''AgentId'', VInt aid), (''ExitTime'', VInt t)])"
| "krow_row (AgentState aid t proto life) = (''AgentStateAgent'',
     [(''AgentId'', VInt aid), (''SimTime'', VInt t), (''Prototype'', VStr proto), (''Lifetime'', VInt life)])"
| "krow_row (AgentStateInventories aid t name rid) = (''AgentStateInventories'',
     [(''AgentId'', VInt aid), (''SimTime'', VInt t), (''InventoryName'', VStr name), (''ResourceId'', VInt rid)])"
| "krow_row (BuildSchedule pid proto st bt) = (''BuildSchedule'',
     [(''ParentId'', VInt pid), (''Prototype'', VStr proto), (''SchedTime'', VInt st), (''BuildTime'', VInt bt)])"
| "krow_row (DecomSchedule aid st dt) = (''DecomSchedule'', [(''AgentId'', VInt aid), (''SchedTime'', VInt st), (''DecomTime'', VInt dt)])"
| "krow_row (Prototypes proto aid spec) = (''Prototypes'', [(''Prototype'', VStr proto), (''AgentId'', VInt aid), (''Spec'', VStr spec)])"
| "krow_row (Recipes name qid) = (''Recipes'', [(''Recipe'', VStr name), (''QualId'', VInt qid)])"
| "krow_row (NextIds t obj n) = (''NextIds'', [(''Time'', VInt t), (''Object'', VStr obj), (''NextId'', VInt n)])"
| "krow_row _ = ('''', [])"

fun world_row :: "row \<Rightarrow> string \<times> (string \<times> dbval) list" where
  "world_row (Resources rid oid ty t q u qid p1 p2) = (''Resources'',
     [(''ResourceId'', VInt rid), (''ObjId'', VInt oid), (''Type'', VStr ty), (''TimeCreated'', VInt t), (''Quantity'', VDouble q),
      (''Units'', VStr u), (''QualId'', VInt qid), (''Parent1'', VInt p1), (''Parent2'', VInt p2)])"
| "world_row (ResCreators rid aid) = (''ResCreators'', [(''ResourceId'', VInt rid), (''AgentId'', VInt aid)])"
| "world_row (MaterialInfo rid t) = (''MaterialInfo'', [(''ResourceId'', VInt rid), (''PrevDecayTime'', VInt t)])"
| "world_row (Compositions qid nuc q) = (''Compositions'', [(''QualId'', VInt qid), (''NucId'', VInt nuc), (''MassFrac'', VDouble q)])"
| "world_row (Products qid quality) = (''Products'', [(''QualId'', VInt qid), (''Quality'', VStr quality)])"

text \<open>The recorder puts the id of the simulation in front of every row.\<close>

definition tables_of :: "string \<Rightarrow> (string \<times> (string \<times> dbval) list) list \<Rightarrow> string \<Rightarrow> table option" where
  "tables_of u rows t = (case filter (\<lambda>r. fst r = t) rows of
     [] \<Rightarrow> None
   | rs \<Rightarrow> Some (''SimId'' # map fst (snd (hd rs)), map (\<lambda>r. VUuid u # map snd (snd r)) rs))"

definition of_sim :: "string \<Rightarrow> Cond" where
  "of_sim u = \<lparr>c_field = ''SimId'', c_op = ''=='', c_opcode = EQ, c_val = VUuid u\<rparr>"

lemma select_of_sim: "tables_of u rows t = Some tb \<Longrightarrow> select [of_sim u] tb = tb \<and> ''SimId'' \<in> set (fst tb)"
  by (auto simp: tables_of_def select_def meets_def of_sim_def cmp_op_def split: list.splits intro!: filter_True)

text \<open>The back end the loading works on keeps the tables of a simulation as they are.\<close>

lemma injected_sim:
  assumes "database b (tables_of u rows)"
  shows "inject b [(''SimId'', ''=='', VUuid u)] = Inr (CondInjector b [of_sim u]) \<and> database (CondInjector b [of_sim u]) (tables_of u rows)"
proof
  show "inject b [(''SimId'', ''=='', VUuid u)] = Inr (CondInjector b [of_sim u])"
    by (simp add: inject_def Cond_new_def opcode_of_def of_sim_def)
  have "map_option (select [of_sim u]) (tables_of u rows t) = tables_of u rows t" for t
    using select_of_sim[of u rows t] by (cases "tables_of u rows t") auto
  then have e: "(\<lambda>t. map_option (select [of_sim u]) (tables_of u rows t)) = tables_of u rows" by auto
  have f: "\<forall>c \<in> set [of_sim u]. c_field c \<in> set (fst tb)" if "tables_of u rows t = Some tb" for t tb
    using select_of_sim[OF that] by (simp add: of_sim_def)
  show "database (CondInjector b [of_sim u]) (tables_of u rows)"
    using database.injected[OF assms, of "[of_sim u]", OF f] by (simp only: e)
qed

definition recorded :: "string \<Rightarrow> 'u sim \<Rightarrow> string \<Rightarrow> table option" where
  "recorded u s = tables_of u (map krow_row (s_db s) @ map world_row (w_db (s_world s)))"

section \<open>Queries on recorded rows\<close>

definition sat :: "(string \<times> dbval) list \<Rightarrow> Cond \<Rightarrow> bool" where
  "sat l c \<longleftrightarrow> (\<exists>v. map_of l (c_field c) = Some v \<and> CmpCond v c = Inr True)"

definition rows_result :: "DbTypes list \<Rightarrow> string \<Rightarrow> string list \<Rightarrow> (string \<times> dbval) list list \<Rightarrow> QueryResult" where
  "rows_result tys u fs ls = result_of tys (''SimId'' # fs, map (\<lambda>l. VUuid u # map snd l) ls)"

lemma rows_result_rows [simp]: "length (qr_rows (rows_result tys u fs ls)) = length ls"
  by (simp add: rows_result_def result_of_def)

lemma field_index_map_of:
  "map_of l f = (case field_index f (map fst l) of None \<Rightarrow> None | Some i \<Rightarrow> Some (snd (l ! i)))"
  "field_index f (map fst l) = Some i \<Longrightarrow> i < length l"
  by (induction l arbitrary: i) (auto split: option.splits if_splits)

lemma field_index_None: "field_index f fs = None \<longleftrightarrow> f \<notin> set fs"
  by (induction fs) auto

lemma GetVal_rows:
  assumes "i < length ls" "map fst (ls ! i) = fs" "f \<noteq> ''SimId''" "map_of (ls ! i) f = Some v"
  shows "GetVal (rows_result tys u fs ls) f i = Inr v"
proof -
  obtain k where k: "field_index f fs = Some k" "v = snd ((ls ! i) ! k)" "k < length (ls ! i)"
    using assms(4) field_index_map_of(1)[of "ls ! i" f] field_index_map_of(2)[of f "ls ! i"] assms(2) by (auto split: option.splits)
  have "field_index f (''SimId'' # fs) = Some (Suc k)" using k(1) assms(3) by simp
  then show ?thesis using k(2,3) assms(1) by (auto simp: GetVal_def rows_result_def result_of_def)
qed

lemma meets_sat:
  assumes "map fst l = fs" "c_field c \<noteq> ''SimId''"
  shows "meets (''SimId'' # fs) (VUuid u # map snd l) c \<longleftrightarrow> sat l c"
  using assms field_index_map_of(1)[of l "c_field c"] field_index_map_of(2)[of "c_field c" l]
  by (auto simp: meets_def sat_def split: option.splits)

lemma ask_recorded:
  assumes "database b (tables_of u R)" "\<exists>r \<in> set R. fst r = t" "\<And>r. r \<in> set R \<Longrightarrow> fst r = t \<Longrightarrow> map fst (snd r) = fs"
    and "mapE (\<lambda>(f, op, v). Cond_new f op v) qs = Inr cs" "\<forall>c \<in> set cs. c_field c \<in> set fs \<and> c_field c \<noteq> ''SimId''"
  shows "\<exists>tys. ask b t qs = Inr (rows_result tys u fs (filter (\<lambda>l. \<forall>c \<in> set cs. sat l c) (map snd (filter (\<lambda>r. fst r = t) R))))"
proof -
  let ?rs = "filter (\<lambda>r. fst r = t) R"
  obtain r rs where r: "?rs = r # rs" using assms(2) by (cases ?rs) (auto simp: filter_empty_conv)
  have fs: "map fst (snd x) = fs" if "x \<in> set ?rs" for x using assms(3) that by simp
  have tb: "tables_of u R t = Some (''SimId'' # fs, map (\<lambda>r. VUuid u # map snd (snd r)) ?rs)"
    using r fs[of r] by (simp add: tables_of_def)
  have m: "(\<forall>c \<in> set cs. meets (''SimId'' # fs) (VUuid u # map snd (snd x)) c) \<longleftrightarrow> (\<forall>c \<in> set cs. sat (snd x) c)" if "x \<in> set ?rs" for x
    using meets_sat[OF fs[OF that]] assms(5) by auto
  have "filter (\<lambda>x. \<forall>c \<in> set cs. meets (''SimId'' # fs) (VUuid u # map snd (snd x)) c) ?rs = filter (\<lambda>x. \<forall>c \<in> set cs. sat (snd x) c) ?rs"
    using m by (rule filter_cong[OF refl])
  then have "select cs (''SimId'' # fs, map (\<lambda>r. VUuid u # map snd (snd r)) ?rs) =
      (''SimId'' # fs, map (\<lambda>l. VUuid u # map snd l) (filter (\<lambda>l. \<forall>c \<in> set cs. sat l c) (map snd ?rs)))"
    by (simp only: select_def filter_map o_def fst_conv snd_conv map_map)
  moreover have "\<forall>c \<in> set cs. c_field c \<in> set (fst (''SimId'' # fs, map (\<lambda>r. VUuid u # map snd (snd r)) ?rs))"
    using assms(5) by simp
  ultimately show ?thesis
    using database.ask_rows[OF assms(1) tb assms(4)] by (simp add: rows_result_def)
qed

lemma foreach_rows:
  assumes "\<And>i s. i < length xs \<Longrightarrow> f i s = g (xs ! i) s"
  shows "foreach f [0..<length xs] s = foreach g xs s"
proof -
  have "foreach f [k..<length xs] s = foreach g (drop k xs) s" if "k \<le> length xs" for k s
    using that
  proof (induction "length xs - k" arbitrary: k s)
    case (Suc n)
    then have k: "k < length xs" by simp
    have "foreach f [k..<length xs] = (\<lambda>s. andThen (f k s) (\<lambda>_. foreach f [Suc k..<length xs]))"
      using k by (simp add: upt_conv_Cons fun_eq_iff)
    moreover have "foreach f [Suc k..<length xs] = foreach g (drop (Suc k) xs)"
      using Suc.hyps(1)[of "Suc k"] Suc.hyps(2) k by (simp add: fun_eq_iff)
    ultimately show ?case using k assms(1)[OF k] by (simp add: Cons_nth_drop_Suc[symmetric])
  qed simp
  from this[of 0] show ?thesis by simp
qed

end
