(* ===== verification/Restart_Hierarchy.thy ===== *)
theory Restart_Hierarchy
  imports Sim_Init
begin

text \<open>
  The loop of \<open>SimInit::LoadInitialAgents\<close> that connects the loaded agents: it ends whatever the order of
  the ids when every chain of parents ends in a root, and then connects every agent after its parent;
  it never ends when a parent is missing.
\<close>

abbreviation parent_of :: "(int, int) omap \<Rightarrow> int \<Rightarrow> int" where
  "parent_of pm a \<equiv> omap_sub 0 pm a"

text \<open>What connecting the agents \<open>D\<close> leaves: they are registered by id, and each is among the children of its
  parent.\<close>

definition hierarchy :: "(int, int) omap \<Rightarrow> (int \<times> ptr) list \<Rightarrow> 'u sim_init \<Rightarrow> bool" where
  "hierarchy pm D s \<longleftrightarrow> (\<forall>a. map_of (in_agents s) a = map_option Some (map_of D a)) \<and>
     (\<forall>(a, m) \<in> set D. parent_of pm a \<noteq> -1 \<longrightarrow> (\<exists>q x y. map_of D (parent_of pm a) = Some q \<and>
        s_agents (in_sim s) m = Some x \<and> ag_parent x = Some q \<and> s_agents (in_sim s) q = Some y \<and> m \<in> set (ag_children y)))"

definition parents_first :: "(int, int) omap \<Rightarrow> (int \<times> ptr) list \<Rightarrow> bool" where
  "parents_first pm D \<longleftrightarrow> (\<forall>i < length D. parent_of pm (fst (D ! i)) = -1 \<or> parent_of pm (fst (D ! i)) \<in> fst ` set (take i D))"

lemma parents_first_snoc:
  "parents_first pm D \<Longrightarrow> parent_of pm a = -1 \<or> parent_of pm a \<in> fst ` set D \<Longrightarrow> parents_first pm (D @ [(a, m)])"
  by (auto simp: parents_first_def nth_append less_Suc_eq)

definition alive :: "(int \<times> ptr) list \<Rightarrow> 'u sim_init \<Rightarrow> bool" where
  "alive ub s \<longleftrightarrow> (\<forall>m \<in> snd ` set ub. s_agents (in_sim s) m \<noteq> None)"

lemma link_ok:
  assumes "hierarchy pm D s" "alive ub s" "set D \<subseteq> set ub" "distinct (map fst ub)" "distinct (map snd ub)"
    and "(a, m) \<in> set ub" "(a, m) \<notin> set D" "parent_of pm a = -1 \<and> q = None \<or> parent_of pm a \<noteq> -1 \<and> q \<noteq> None \<and> map_of D (parent_of pm a) = q"
  shows "\<exists>s'. link a m q s = (Inr (), s') \<and> hierarchy pm (D @ [(a, m)]) s' \<and> alive ub s'"
proof -
  have i: "inj_on fst (set ub)" "inj_on snd (set ub)" using assms(4,5) by (simp_all add: distinct_map)
  have u: "fst c \<noteq> a \<and> snd c \<noteq> m" if "c \<in> set D" for c
  proof -
    have c: "c \<in> set ub" "c \<noteq> (a, m)" using that assms(3,7) by auto
    show ?thesis using inj_onD[OF i(1) _ c(1) assms(6)] inj_onD[OF i(2) _ c(1) assms(6)] c(2) by auto
  qed
  have new: "a \<notin> fst ` set D" "m \<notin> snd ` set D" using u by auto
  have ext: "map_of (D @ [(a, m)]) k = (case map_of D k of None \<Rightarrow> if k = a then Some m else None | Some x \<Rightarrow> Some x)" for k
    by (simp add: map_add_def split: option.splits)
  have agents: "map_of (omap_put a (Some m) (in_agents s)) k = map_option Some (map_of (D @ [(a, m)]) k)" for k
  proof -
    have "map_of (in_agents s) k = map_option Some (map_of D k)" using assms(1) by (simp add: hierarchy_def)
    moreover have "map_of D a = None" using new(1) by (simp add: map_of_eq_None_iff)
    ultimately show ?thesis by (simp add: ext del: map_of_append split: option.splits)
  qed
  show ?thesis
  proof (cases q)
    case None
    let ?s = "s\<lparr>in_agents := omap_put a (Some m) (in_agents s)\<rparr>"
    have "link a m q s = (Inr (), ?s)"
      using None by (simp add: link_def on_sim_def Connect_def ok_def)
    moreover have "hierarchy pm (D @ [(a, m)]) ?s"
      unfolding hierarchy_def
    proof (intro conjI ballI allI)
      show "map_of (in_agents ?s) k = map_option Some (map_of (D @ [(a, m)]) k)" for k using agents by simp
      show "case c of (k, n) \<Rightarrow> parent_of pm k \<noteq> -1 \<longrightarrow> (\<exists>q x y. map_of (D @ [(a, m)]) (parent_of pm k) = Some q \<and>
          s_agents (in_sim ?s) n = Some x \<and> ag_parent x = Some q \<and> s_agents (in_sim ?s) q = Some y \<and> n \<in> set (ag_children y))"
        if c: "c \<in> set (D @ [(a, m)])" for c
      proof (cases c)
        case (Pair k n)
        have "\<exists>q x y. map_of D (parent_of pm k) = Some q \<and> s_agents (in_sim s) n = Some x \<and> ag_parent x = Some q \<and>
            s_agents (in_sim s) q = Some y \<and> n \<in> set (ag_children y)" if "parent_of pm k \<noteq> -1"
          using assms(1,8) None c Pair that unfolding hierarchy_def by auto
        then show ?thesis using Pair by (auto simp add: ext simp del: map_of_append)
      qed
    qed
    ultimately show ?thesis using assms(2) by (simp add: alive_def)
  next
    case (Some p)
    then have p: "map_of D (parent_of pm a) = Some p" "parent_of pm a \<noteq> -1" using assms(8) by auto
    then have pm: "p \<in> snd ` set D" by (metis image_eqI map_of_SomeD snd_conv)
    then have ne: "p \<noteq> m" using new(2) by auto
    obtain y where y: "s_agents (in_sim s) p = Some y" using pm assms(2,3) by (auto simp: alive_def)
    obtain x where x: "s_agents (in_sim s) m = Some x" using assms(2,6) by (auto simp: alive_def)
    let ?S = "upd_agent p (ag_children_update (oset_ins m)) (upd_agent m (\<lambda>z. z\<lparr>ag_parent := Some p, ag_parent_id := ag_id y\<rparr>) (in_sim s))"
    let ?s = "s\<lparr>in_sim := ?S, in_agents := omap_put a (Some m) (in_agents s)\<rparr>"
    have "link a m q s = (Inr (), ?s)" using Some ne y by (simp add: link_def on_sim_def Connect_def ok_def)
    moreover have "alive ub ?s" using assms(2) by (auto simp: alive_def upd_agent_def)
    moreover have "hierarchy pm (D @ [(a, m)]) ?s"
      unfolding hierarchy_def
    proof (intro conjI ballI allI)
      show "map_of (in_agents ?s) k = map_option Some (map_of (D @ [(a, m)]) k)" for k using agents by simp
      fix c assume c: "c \<in> set (D @ [(a, m)])"
      have keep: "\<exists>q x y. map_of (D @ [(a, m)]) (parent_of pm k) = Some q \<and> s_agents ?S n = Some x \<and> ag_parent x = Some q \<and>
          s_agents ?S q = Some y \<and> n \<in> set (ag_children y)" if k: "(k, n) \<in> set D" "parent_of pm k \<noteq> -1" for k n
      proof -
        obtain q x y where q: "map_of D (parent_of pm k) = Some q" "s_agents (in_sim s) n = Some x" "ag_parent x = Some q"
          "s_agents (in_sim s) q = Some y" "n \<in> set (ag_children y)"
          using assms(1) k unfolding hierarchy_def by blast
        have n: "n \<noteq> m" using k(1) new(2) by (metis image_eqI snd_conv)
        have qm: "q \<noteq> m" using q(1) new(2) by (metis image_eqI map_of_SomeD snd_conv)
        have "map_of (D @ [(a, m)]) (parent_of pm k) = Some q" by (simp add: ext q(1) del: map_of_append)
        then show ?thesis using q n qm by (auto simp add: upd_agent_def simp del: map_of_append)
      qed
      show "case c of (k, n) \<Rightarrow> parent_of pm k \<noteq> -1 \<longrightarrow> (\<exists>q x y. map_of (D @ [(a, m)]) (parent_of pm k) = Some q \<and>
          s_agents (in_sim ?s) n = Some x \<and> ag_parent x = Some q \<and> s_agents (in_sim ?s) q = Some y \<and> n \<in> set (ag_children y))"
      proof (cases "c \<in> set D")
        case True
        obtain k n where "c = (k, n)" by (cases c)
        then show ?thesis using True keep[of k n] by simp
      next
        case False
        then have "c = (a, m)" using c by simp
        moreover have "map_of (D @ [(a, m)]) (parent_of pm a) = Some p" by (simp add: ext p(1) del: map_of_append)
        ultimately show ?thesis using x y ne by (auto simp add: upd_agent_def simp del: map_of_append)
      qed
    qed
    ultimately show ?thesis by blast
  qed
qed

lemma link_done:
  "hierarchy pm D s \<Longrightarrow> (map_of (in_agents s) k = None) = (k \<notin> fst ` set D) \<and> (map_of (in_agents s) k = Some q \<longrightarrow> map_of D k = q \<and> q \<noteq> None)"
  by (auto simp: hierarchy_def map_of_eq_None_iff)

text \<open>One walk over what lies ahead.\<close>

definition ready :: "(int, int) omap \<Rightarrow> (int \<times> ptr) list \<Rightarrow> int \<Rightarrow> bool" where
  "ready pm D a \<longleftrightarrow> parent_of pm a = -1 \<or> parent_of pm a \<in> fst ` set D"

lemma walk:
  assumes "hierarchy pm D s" "alive ub s" "parents_first pm D" "distinct (map fst ub)" "distinct (map snd ub)"
    and "mset D + mset seen + mset ahead = mset ub"
  shows "\<exists>D' s' rest. link_loop pm seen ahead (map snd D) s = link_loop pm (seen @ rest) [] (map snd D') s' \<and>
    hierarchy pm D' s' \<and> alive ub s' \<and> parents_first pm D' \<and> mset D' + mset seen + mset rest = mset ub \<and>
    length rest \<le> length ahead \<and> ((\<exists>c \<in> set ahead. ready pm D (fst c)) \<longrightarrow> length rest < length ahead)"
  using assms
proof (induction ahead arbitrary: seen D s)
  case Nil
  then show ?case by (intro exI[of _ D] exI[of _ s] exI[of _ "[]"]) simp
next
  case (Cons c ahead)
  obtain a m where c: "c = (a, m)" by (cases c)
  have m: "mset (D @ seen @ c # ahead) = mset ub" using Cons.prems(6) by (simp add: ac_simps)
  have "distinct ub" using Cons.prems(4) by (simp add: distinct_map)
  then have dist: "distinct (D @ seen @ c # ahead)" using m mset_eq_imp_distinct_iff by blast
  have set: "set (D @ seen @ c # ahead) = set ub" using m by (rule mset_eq_setD)
  show ?case
  proof (cases "ready pm D a")
    case True
    define q where "q = (if parent_of pm a = -1 then None else map_of D (parent_of pm a))"
    have "map_of D (parent_of pm a) \<noteq> None" if "parent_of pm a \<noteq> -1" using True that by (simp add: ready_def map_of_eq_None_iff)
    then have q: "parent_of pm a = -1 \<and> q = None \<or> parent_of pm a \<noteq> -1 \<and> q \<noteq> None \<and> map_of D (parent_of pm a) = q"
      by (simp add: q_def)
    have d: "set D \<subseteq> set ub" "(a, m) \<in> set ub" "(a, m) \<notin> set D" using set dist c by auto
    obtain s1 where s1: "link a m q s = (Inr (), s1)" "hierarchy pm (D @ [(a, m)]) s1" "alive ub s1"
      using link_ok[OF Cons.prems(1,2) d(1) Cons.prems(4,5) d(2,3) q] by blast
    have "map_of (in_agents s) (parent_of pm a) = Some q" if "parent_of pm a \<noteq> -1"
      using Cons.prems(1) q that by (auto simp: hierarchy_def)
    then have "link_loop pm seen (c # ahead) (map snd D) s = link_loop pm seen ahead (map snd (D @ [(a, m)])) s1"
      using s1(1) q by (subst link_loop.simps) (auto simp: c Let_def)
    moreover have "mset (D @ [(a, m)]) + mset seen + mset ahead = mset ub" using Cons.prems(6) c by simp
    ultimately obtain D' s' rest where h: "link_loop pm seen (c # ahead) (map snd D) s = link_loop pm (seen @ rest) [] (map snd D') s'"
      "hierarchy pm D' s'" "alive ub s'" "parents_first pm D'" "mset D' + mset seen + mset rest = mset ub" "length rest \<le> length ahead"
      using Cons.IH[OF s1(2,3) parents_first_snoc[OF Cons.prems(3) True[unfolded ready_def]] Cons.prems(4,5)] by metis
    then show ?thesis by (intro exI[of _ D'] exI[of _ s'] exI[of _ rest]) simp
  next
    case False
    then have "map_of (in_agents s) (parent_of pm a) = None" "parent_of pm a \<noteq> -1"
      using link_done[OF Cons.prems(1)] by (auto simp: ready_def)
    then have e: "link_loop pm seen (c # ahead) (map snd D) s = link_loop pm (seen @ [c]) ahead (map snd D) s"
      by (subst link_loop.simps) (simp add: c Let_def)
    have "mset D + mset (seen @ [c]) + mset ahead = mset ub" using Cons.prems(6) by simp
    then obtain D' s' rest where h: "link_loop pm (seen @ [c]) ahead (map snd D) s = link_loop pm ((seen @ [c]) @ rest) [] (map snd D') s'"
      "hierarchy pm D' s'" "alive ub s'" "parents_first pm D'" "mset D' + mset (seen @ [c]) + mset rest = mset ub"
      "length rest \<le> length ahead" "(\<exists>c \<in> set ahead. ready pm D (fst c)) \<longrightarrow> length rest < length ahead"
      using Cons.IH[OF Cons.prems(1-5)] by blast
    show ?thesis
    proof (intro exI conjI)
      show "link_loop pm seen (c # ahead) (map snd D) s = link_loop pm (seen @ c # rest) [] (map snd D') s'" using e h(1) by simp
      show "mset D' + mset seen + mset (c # rest) = mset ub" using h(5) by simp
      show "(\<exists>c \<in> set (c # ahead). ready pm D (fst c)) \<longrightarrow> length (c # rest) < length (c # ahead)" using h(7) False c by simp
    qed (use h in simp_all)
  qed
qed

lemma walks:
  assumes "hierarchy pm D s" "alive ub s" "parents_first pm D" "distinct (map fst ub)" "distinct (map snd ub)" "mset D + mset ahead = mset ub"
    and "\<And>c. c \<in> set ub \<Longrightarrow> parent_of pm (fst c) = -1 \<or> (parent_of pm (fst c) \<in> fst ` set ub \<and> rank (parent_of pm (fst c)) < (rank (fst c) :: nat))"
  shows "\<exists>D' s'. link_loop pm [] ahead (map snd D) s = Some (Inr (map snd D'), s') \<and> hierarchy pm D' s' \<and> parents_first pm D' \<and> mset D' = mset ub"
  using assms(1-3,6)
proof (induction "length ahead" arbitrary: ahead D s rule: less_induct)
  case less
  show ?case
  proof (cases "ahead = []")
    case True
    then have "link_loop pm [] ahead (map snd D) s = Some (Inr (map snd D), s)" by (subst link_loop.simps) (simp add: ok_def)
    then show ?thesis using less.prems True by auto
  next
    case False
    obtain c where c: "c \<in> set ahead" "\<And>d. d \<in> set ahead \<Longrightarrow> rank (fst c) \<le> rank (fst d)"
      using ex_has_least_nat[of "\<lambda>c. c \<in> set ahead" "hd ahead" "\<lambda>c. rank (fst c)"] list.set_sel(1)[OF False] by blast
    have set: "set D \<union> set ahead = set ub" using less.prems(4) by (metis set_mset_mset set_mset_union)
    have "ready pm D (fst c)"
    proof (rule ccontr)
      assume n: "\<not> ready pm D (fst c)"
      then have p: "parent_of pm (fst c) \<in> fst ` set ub" "rank (parent_of pm (fst c)) < rank (fst c)"
        using assms(7)[of c] c(1) set by (auto simp: ready_def)
      then obtain d where d: "d \<in> set ub" "parent_of pm (fst c) = fst d" by auto
      have "d \<notin> set D" using n d(2) unfolding ready_def by auto
      then have "d \<in> set ahead" "rank (fst d) < rank (fst c)" using d p(2) set by auto
      then show False using c(2)[of d] by simp
    qed
    then obtain D' s' rest where h: "link_loop pm [] ahead (map snd D) s = link_loop pm rest [] (map snd D') s'"
      "hierarchy pm D' s'" "alive ub s'" "parents_first pm D'" "mset D' + mset rest = mset ub" "length rest < length ahead"
      using walk[OF less.prems(1-3) assms(4,5), of "[]" ahead] less.prems(4) c(1) by auto
    have "link_loop pm rest [] (map snd D') s' = link_loop pm [] rest (map snd D') s'"
      by (cases "rest = []"; subst (1) link_loop.simps) (simp_all add: link_loop.simps[of pm "[]" "[]"])
    then show ?thesis using less.hyps[OF h(6,2,3,4,5)] h(1) by simp
  qed
qed

text \<open>C22. The hierarchy of agents is rebuilt. For loaded agents with distinct ids whose chains of parents end in
  roots, in whatever order their ids come, the loop ends, connects every agent exactly once and after
  its parent, and leaves each among the children of the agent that has the recorded parent's id.\<close>

theorem hierarchy_rebuilt:
  assumes "distinct (map fst ub)" "distinct (map snd ub)" "alive ub s" "in_agents s = []"
    and "\<forall>c \<in> set ub. parent_of pm (fst c) = -1 \<or> parent_of pm (fst c) \<in> fst ` set ub \<and> rank (parent_of pm (fst c)) < (rank (fst c) :: nat)"
  shows "\<exists>D s'. link_loop pm [] ub [] s = Some (Inr (map snd D), s') \<and> mset D = mset ub \<and> parents_first pm D \<and> hierarchy pm D s'"
proof -
  have "hierarchy pm [] s" "parents_first pm []" using assms(4) by (simp_all add: hierarchy_def parents_first_def)
  then show ?thesis using walks[of pm "[]" s ub ub rank] assms by auto
qed

lemma link_agents: "link a m q s = (Inr (), s') \<Longrightarrow> in_agents s' = omap_put a (Some m) (in_agents s)"
  by (auto simp: link_def on_sim_def andThen_Inr split: prod.splits)

definition orphaned :: "(int, int) omap \<Rightarrow> int \<times> ptr \<Rightarrow> (int \<times> ptr) list \<Rightarrow> 'u sim_init \<Rightarrow> bool" where
  "orphaned pm c l s \<longleftrightarrow> c \<in> set l \<and> parent_of pm (fst c) \<noteq> -1 \<and> parent_of pm (fst c) \<notin> fst ` set l \<and>
     map_of (in_agents s) (parent_of pm (fst c)) = None"

lemma orphaned_link:
  assumes "orphaned pm c (seen @ d # rest) s" "parent_of pm (fst d) = -1 \<or> map_of (in_agents s) (parent_of pm (fst d)) \<noteq> None"
    and "link (fst d) m q s = (Inr (), s')"
  shows "orphaned pm c (seen @ rest) s'"
  using assms link_agents[OF assms(3)] by (auto simp: orphaned_def)

definition stuck :: "(int \<times> ptr) list \<Rightarrow> int \<times> ptr \<Rightarrow> (int, int) omap \<Rightarrow> (int \<times> ptr) list \<Rightarrow> (int \<times> ptr) list \<Rightarrow> 'u sim_init \<Rightarrow> bool" where
  "stuck ub c pm seen ahead s \<longleftrightarrow> orphaned pm c (seen @ ahead) s \<and> alive ub s \<and>
     (\<exists>D. hierarchy pm D s \<and> mset D + mset seen + mset ahead = mset ub)"

lemma stuck_link:
  assumes "stuck ub c pm seen ((k, m) # rest) s" "distinct (map fst ub)" "distinct (map snd ub)"
    and "parent_of pm k = -1 \<and> q = None \<or> parent_of pm k \<noteq> -1 \<and> map_of (in_agents s) (parent_of pm k) = Some q"
  shows "\<exists>s'. link k m q s = (Inr (), s') \<and> stuck ub c pm seen rest s'"
proof -
  obtain D where D: "hierarchy pm D s" "mset D + mset seen + mset ((k, m) # rest) = mset ub" using assms(1) by (auto simp: stuck_def)
  have m: "mset (D @ seen @ (k, m) # rest) = mset ub" using D(2) by (simp add: ac_simps)
  have "distinct ub" using assms(2) by (simp add: distinct_map)
  then have dist: "distinct (D @ seen @ (k, m) # rest)" using m mset_eq_imp_distinct_iff by blast
  then have d: "set D \<subseteq> set ub" "(k, m) \<in> set ub" "(k, m) \<notin> set D" using mset_eq_setD[OF m] by auto
  have q: "parent_of pm k = -1 \<and> q = None \<or> parent_of pm k \<noteq> -1 \<and> q \<noteq> None \<and> map_of D (parent_of pm k) = q"
    using assms(4) link_done[OF D(1), of "parent_of pm k" q] by auto
  obtain s' where s': "link k m q s = (Inr (), s')" "hierarchy pm (D @ [(k, m)]) s'" "alive ub s'"
    using link_ok[OF D(1) _ d(1) assms(2,3) d(2,3) q] assms(1) by (auto simp: stuck_def)
  have "orphaned pm c (seen @ rest) s'"
    using orphaned_link[of pm c seen "(k, m)" rest s m q s'] assms(1,4) s'(1) by (auto simp: stuck_def)
  moreover have "mset (D @ [(k, m)]) + mset seen + mset rest = mset ub" using D(2) by simp
  ultimately show ?thesis using s' unfolding stuck_def by blast
qed

lemma orphan_loop:
  assumes "link_loop pm seen ahead en s = Some y" "distinct (map fst ub)" "distinct (map snd ub)"
  shows "\<not> stuck ub c pm seen ahead s"
proof (rule link_loop.raw_induct[where P = "\<lambda>pm seen ahead en s y. \<not> stuck ub c pm seen ahead s", OF _ assms(1)], rule notI)
  fix f :: "(int, int) omap \<Rightarrow> (int \<times> ptr) list \<Rightarrow> (int \<times> ptr) list \<Rightarrow> ptr list \<Rightarrow> 'a sim_init \<Rightarrow> ('a sim_init, ptr list) pexec"
    and pm seen ahead en s y
  assume IH: "\<And>pm seen ahead en s y. f pm seen ahead en s = Some y \<Longrightarrow> \<not> stuck ub c pm seen ahead s"
    and y: "(case ahead of
        [] \<Rightarrow> if seen = [] then Some (ok en s) else f pm [] seen en s
      | (aid, m) # rest \<Rightarrow>
          (let parentid = parent_of pm aid
           in if parentid = -1 then pthen (Some (link aid m None s)) (\<lambda>_. f pm seen rest (en @ [m]))
              else case map_of (in_agents s) parentid of
                Some q \<Rightarrow> pthen (Some (link aid m q s)) (\<lambda>_. f pm seen rest (en @ [m]))
              | None \<Rightarrow> f pm (seen @ [(aid, m)]) rest en s)) = Some y"
    and st: "stuck ub c pm seen ahead s"
  show False
  proof (cases ahead)
    case Nil
    then have "seen \<noteq> []" "stuck ub c pm [] seen s" using st by (auto simp: stuck_def orphaned_def)
    then show ?thesis using IH[of pm "[]" seen en s y] y Nil by simp
  next
    case (Cons d rest)
    obtain k m where d: "d = (k, m)" by (cases d)
    note link = stuck_link[OF st[unfolded Cons d] assms(2,3)]
    consider (root) "parent_of pm k = -1" | (child) q where "parent_of pm k \<noteq> -1" "map_of (in_agents s) (parent_of pm k) = Some q"
      | (later) "parent_of pm k \<noteq> -1" "map_of (in_agents s) (parent_of pm k) = None"
      by (cases "map_of (in_agents s) (parent_of pm k)") auto
    then show ?thesis
    proof cases
      case root
      then show ?thesis using link[of None] IH[of pm seen rest "en @ [m]" _ y] y Cons d by (auto simp: Let_def)
    next
      case (child q)
      then show ?thesis using link[of q] IH[of pm seen rest "en @ [m]" _ y] y Cons d by (auto simp: Let_def)
    next
      case later
      have "stuck ub c pm (seen @ [d]) rest s" using st Cons by (auto simp: stuck_def)
      then show ?thesis using IH[of pm "seen @ [d]" rest en s y] y later Cons d by simp
    qed
  qed
qed

text \<open>C37. A missing parent hangs the restart. When the recorded parent of a loaded agent is not loaded, as
  when it was decommissioned before its child, the loop runs forever.\<close>

theorem orphan_hangs:
  assumes "distinct (map fst ub)" "distinct (map snd ub)" "alive ub s" "in_agents s = []"
    and "(a, m) \<in> set ub" "parent_of pm a \<noteq> -1" "parent_of pm a \<notin> fst ` set ub"
  shows "link_loop pm [] ub [] s = None"
proof -
  have "stuck ub (a, m) pm [] ub s"
    using assms(3-7) by (auto simp: stuck_def orphaned_def hierarchy_def intro!: exI[of _ "[]"])
  then show ?thesis using orphan_loop[of pm "[]" ub "[]" s _ ub] assms(1,2) by (cases "link_loop pm [] ub [] s") auto
qed

section \<open>An instance\<close>

text \<open>An agent with a smaller id than its parent, and one whose parent is gone.\<close>

definition loaded :: "unit sim_init" where
  "loaded = SimInit_new (0, 0) \<lparr>dm_modules = [], dm_man_ctors = []\<rparr> (init_world ''manual'' 1) ()"

definition family :: "unit sim_init" where
  "family = loaded\<lparr>in_sim := snd (Agent_new KInst (snd (Agent_new KFacility (in_sim loaded))))\<rparr>"

lemma family_facts: "alive [(3, 0), (5, 1)] family \<and> in_agents family = []"
  by (simp add: alive_def family_def loaded_def SimInit_new_def Context_new_def Agent_new_def Let_def)

theorem hierarchy_rebuilt_witness:
  "\<exists>D s'. link_loop [(3, 5), (5, -1)] [] [(3, 0), (5, 1)] [] family = Some (Inr (map snd D), s') \<and>
     mset D = mset [(3, 0), (5, 1)] \<and> parents_first [(3, 5), (5, -1)] D \<and> hierarchy [(3, 5), (5, -1)] D s'"
  by (rule hierarchy_rebuilt[where rank = "\<lambda>a. if a = 3 then 1 else 0"]) (simp_all add: family_facts[simplified] omap_sub_def)

theorem orphan_hangs_witness: "link_loop [(3, 5), (5, 7)] [] [(3, 0), (5, 1)] [] family = None"
  by (rule orphan_hangs[where a = 5 and m = 1]) (simp_all add: family_facts[simplified] omap_sub_def)

end
