(* ===== verification/Restart_Properties.thy ===== *)
theory Restart_Properties
  imports Database Restart_Hierarchy Sim_Properties
begin

text \<open>
  Loading a simulation from the rows it recorded: the counters and the resources come back as they
  were, the hierarchy of agents is rebuilt for any order of ids, and what is due at the time of the
  restart is lost.
\<close>

section \<open>Counters\<close>

fun is_next :: "krow \<Rightarrow> bool" where
  "is_next (NextIds t obj n) = True"
| "is_next _ = False"

lemma is_next_iff: "is_next k \<longleftrightarrow> (\<exists>t obj n. k = NextIds t obj n)"
  by (cases k) simp_all

lemma next_table:
  "map snd (filter (\<lambda>r. fst r = ''NextIds'') (map krow_row ks @ map world_row ws)) = map (snd \<circ> krow_row) (filter is_next ks)"
proof -
  have k: "fst (krow_row k) = ''NextIds'' \<longleftrightarrow> is_next k" for k by (cases k) simp_all
  have w: "fst (world_row r) \<noteq> ''NextIds''" for r by (cases r) simp_all
  show ?thesis by (simp add: filter_map o_def k w)
qed

definition records_only :: "(krow \<Rightarrow> bool) \<Rightarrow> 'u sim \<Rightarrow> 'u sim \<Rightarrow> bool" where
  "records_only P s s' \<longleftrightarrow> (\<exists>rows. s' = s\<lparr>s_db := s_db s @ rows\<rparr> \<and> (\<forall>r \<in> set rows. P r))"

lemma records_only_refl [simp]: "records_only P s s"
  unfolding records_only_def by (rule exI[of _ "[]"]) simp

lemma records_only_trans: "records_only P s s1 \<Longrightarrow> records_only P s1 s2 \<Longrightarrow> records_only P s s2"
  unfolding records_only_def by (elim exE conjE) (rule exI, auto)

lemma records_only_row: "records_only P s s1 \<Longrightarrow> P r \<Longrightarrow> records_only P s (record_row r s1)"
  by (rule records_only_trans) (auto simp: records_only_def record_row_def)

lemma records_only_foreach:
  assumes "\<And>x s. records_only P s (snd (f x s))"
  shows "records_only P s (snd (foreach f xs s))"
proof (induction xs arbitrary: s)
  case (Cons x xs)
  show ?case
    using assms[of s x] Cons.IH by (auto intro!: snd_andThenI[where P = "records_only P s"] intro: records_only_trans)
qed simp

lemma records_only_SnapAgent: "records_only (\<lambda>r. \<not> is_next r) s (snd (SnapAgent cb p s))"
proof -
  let ?P = "records_only (\<lambda>r. \<not> is_next r)"
  have arch: "?P s1 (foldl (\<lambda>s r. record_row (ArchetypeRow i r) s) s1 rs)" for s1 :: "'a sim" and i rs
    by (induction rs rule: rev_induct) (simp_all add: records_only_row)
  have inv: "?P s1 (snd (foreach (\<lambda>(name, inv). foreach (\<lambda>r s. deref (w_res (s_world s) r) s (\<lambda>rs.
          ok () (record_row (AgentStateInventories i (time_of s) name (state_id rs)) s))) inv) invs s1))" for s1 :: "'a sim" and i invs
  proof (rule records_only_foreach)
    fix x :: "string \<times> ptr list" and s :: "'a sim"
    show "?P s (snd ((\<lambda>(name, inv). foreach (\<lambda>r s. deref (w_res (s_world s) r) s (\<lambda>rs.
          ok () (record_row (AgentStateInventories i (time_of s) name (state_id rs)) s))) inv) x s))"
      unfolding case_prod_beta
      by (rule records_only_foreach, rule snd_derefI) (simp_all add: records_only_row)
  qed
  show ?thesis
    unfolding SnapAgent_def Let_def
    by (rule snd_derefI, simp, rule records_only_trans[OF _ inv], rule records_only_trans[OF _ arch]) (simp add: records_only_row)
qed

lemma Snapshot_records:
  assumes "SimInit_Snapshot cb s = (Inr (), s')"
  shows "\<exists>rows. s_db s' = s_db s @ rows @ next_ids s \<and> (\<forall>r \<in> set rows. \<not> is_next r)"
proof -
  let ?P = "records_only (\<lambda>r. \<not> is_next r)" and ?s1 = "record_row (Snapshots (time_of s)) s"
  let ?f = "\<lambda>p s. deref (s_agents s p) s (\<lambda>a. if ag_enter_time a \<noteq> -1 then SnapAgent cb p s else ok () s)"
  have f: "?P s (snd (?f x s))" for x and s :: "'a sim"
  proof (rule snd_derefI)
    show "?P s (snd (if ag_enter_time a \<noteq> -1 then SnapAgent cb x s else ok () s))" for a
      using records_only_SnapAgent[of s cb x] by (cases "ag_enter_time a \<noteq> -1") simp_all
  qed simp
  define x where "x = foreach ?f (agent_list ?s1) ?s1"
  have "andThen x (\<lambda>_ s2. ok () (foldl (\<lambda>s r. record_row r s) s2 (next_ids s2))) = (Inr (), s')"
    using assms unfolding SimInit_Snapshot_def Let_def x_def .
  then obtain s2 where s2: "snd x = s2" "s' = foldl (\<lambda>s r. record_row r s) s2 (next_ids s2)" unfolding andThen_Inr by auto
  have "?P ?s1 s2" unfolding s2(1)[symmetric] x_def by (rule records_only_foreach) (rule f)
  then have "?P s s2" by (rule records_only_trans[OF records_only_row[OF records_only_refl], rotated]) simp
  then obtain rows where r: "s2 = s\<lparr>s_db := s_db s @ rows\<rparr>" "\<forall>r \<in> set rows. \<not> is_next r" unfolding records_only_def by blast
  have db: "s_db (foldl (\<lambda>s r. record_row r s) x ks) = s_db x @ ks" for x :: "'a sim" and ks
    by (induction ks rule: rev_induct) (simp_all add: record_row_def)
  have "next_ids s2 = next_ids s" using r(1) by (simp add: next_ids_def)
  then show ?thesis using r s2(2) db by auto
qed

text \<open>C23. The counters survive a snapshot. After a snapshot, loading the ids recorded for its time, from any
  database that keeps the recorded rows, gives all six counters of the simulation the values they had,
  whatever they are in the process that loads.\<close>

theorem next_ids_restored:
  assumes "SimInit_Snapshot cb s = (Inr (), s')" "\<forall>t obj n. NextIds t obj n \<in> set (s_db s) \<longrightarrow> t \<noteq> time_of s"
    and "database b (recorded u s')" "in_t (i :: 'b sim_init) = time_of s"
  shows "\<exists>i'. LoadNextIds (CondInjector b [of_sim u]) i = (Inr (), i') \<and>
    next_agent_id (in_sim i') = next_agent_id s \<and> trans_id (in_sim i') = trans_id s \<and>
    next_comp_id (s_world (in_sim i')) = next_comp_id (s_world s) \<and> nextstate_id (s_world (in_sim i')) = nextstate_id (s_world s) \<and>
    nextobj_id (s_world (in_sim i')) = nextobj_id (s_world s) \<and> next_qualid (s_world (in_sim i')) = next_qualid (s_world s)"
proof -
  obtain rows where rows: "s_db s' = s_db s @ rows @ next_ids s" "\<forall>r \<in> set rows. \<not> is_next r" using Snapshot_records[OF assms(1)] by blast
  let ?b = "CondInjector b [of_sim u]" and ?t = "time_of s"
  let ?R = "map krow_row (s_db s') @ map world_row (w_db (s_world s'))" and ?c = "\<lparr>c_field = ''Time'', c_op = ''=='', c_opcode = EQ, c_val = VInt ?t\<rparr>"
  let ?fs = "[''Time'', ''Object'', ''NextId'']" and ?ls = "map (snd \<circ> krow_row) (next_ids s)"
  have db: "database ?b (tables_of u ?R)" using injected_sim assms(3) unfolding recorded_def by blast
  have k: "map fst (snd (krow_row k)) = ?fs" if "fst (krow_row k) = ''NextIds''" for k using that by (cases k) simp_all
  have w: "fst (world_row r) \<noteq> ''NextIds''" for r by (cases r) simp_all
  have fs: "map fst (snd r) = ?fs" if "r \<in> set ?R" "fst r = ''NextIds''" for r using that k w by auto
  have ex: "\<exists>r \<in> set ?R. fst r = ''NextIds''" using rows(1) by (auto simp: next_ids_def)
  have old: "\<not> sat (snd (krow_row k)) ?c" if "k \<in> set (s_db s)" "is_next k" for k
    using that assms(2) by (fastforce simp: is_next_iff sat_def cmp_op_def)
  have new: "sat (snd (krow_row k)) ?c" if "k \<in> set (next_ids s)" for k
    using that by (auto simp: next_ids_def sat_def cmp_op_def)
  have isn: "filter is_next (next_ids s) = next_ids s" by (simp add: next_ids_def)
  have sel: "filter (\<lambda>l. \<forall>c \<in> set [?c]. sat l c) (map snd (filter (\<lambda>r. fst r = ''NextIds'') ?R)) = ?ls"
    unfolding next_table rows(1) filter_map o_def using old new rows(2) isn by (auto simp: filter_empty_conv intro!: filter_True)
  obtain tys where ask: "ask ?b ''NextIds'' [(''Time'', ''=='', VInt (in_t i))] = Inr (rows_result tys u ?fs ?ls)"
    using ask_recorded[OF db ex fs, of "[(''Time'', ''=='', VInt (in_t i))]" "[?c]"] assms(4) unfolding sel
    by (auto simp: Cond_new_def opcode_of_def)
  let ?qr = "rows_result tys u ?fs ?ls"
  define step :: "krow \<Rightarrow> 'b sim_init \<Rightarrow> ('b sim_init, unit) exec"
    where "step k = on_sim (case k of NextIds _ obj n \<Rightarrow> set_next_id obj (Inr n) | _ \<Rightarrow> ok ())" for k
  have get: "\<exists>t obj n. next_ids s ! j = NextIds t obj n \<and> GetString ?qr ''Object'' j = Inr obj \<and> GetInt ?qr ''NextId'' j = Inr n"
    if j: "j < length (next_ids s)" for j
  proof -
    have "is_next (next_ids s ! j)" using nth_mem[OF j] isn filter_id_conv[of is_next "next_ids s"] by blast
    then obtain t obj n where k: "next_ids s ! j = NextIds t obj n" unfolding is_next_iff by blast
    then have l: "?ls ! j = [(''Time'', VInt t), (''Object'', VStr obj), (''NextId'', VInt n)]" using j by simp
    have "GetVal ?qr ''Object'' j = Inr (VStr obj)" "GetVal ?qr ''NextId'' j = Inr (VInt n)"
      by (rule GetVal_rows; use j l in simp)+
    then show ?thesis using k by (simp add: GetString_def GetInt_def)
  qed
  have "foreach (\<lambda>j s. andThen (lift_x (GetString ?qr ''Object'' j) s) (\<lambda>obj. on_sim (set_next_id obj (GetInt ?qr ''NextId'' j))))
      [0..<length (next_ids s)] i = foreach step (next_ids s) i"
    by (rule foreach_rows) (use get in \<open>force simp: step_def\<close>)
  then have "LoadNextIds ?b i = foreach step (next_ids s) i" by (simp add: LoadNextIds_def ask)
  then show ?thesis by (simp add: step_def next_ids_def on_sim_def set_next_id_def ok_def)
qed

section \<open>What is due at the time of the restart\<close>

lemma SchedBuild_queue:
  assumes "Context_SchedBuild parent proto t s = (r, s')" "0 \<le> t"
  shows "fst ` set (build_queue s') \<subseteq> insert t (fst ` set (build_queue s))"
proof -
  have "build_queue s' = build_queue s \<or> build_queue s' = omap_push t (proto, parent) (build_queue s)"
    using assms by (auto simp: Context_SchedBuild_def Timer_SchedBuild_def Let_def record_row_def
        andThen_def throw_def ok_def deref_def split: option.splits if_splits)
  then show ?thesis by (elim disjE) (simp_all add: omap_push_def keys_omap_put subset_insertI)
qed

lemma ask_later:
  assumes "database b db" "db t = Some tb" "f \<in> set (fst tb)" "ask b t [(f, ''>'', VInt n)] = Inr qr" "GetInt qr f i = Inr k"
  shows "n < k"
proof -
  let ?c = "\<lparr>c_field = f, c_op = ''>'', c_opcode = GT, c_val = VInt n\<rparr>"
  obtain tys where q: "qr = result_of tys (select [?c] tb)"
    using database.ask_rows[OF assms(1,2), of "[(f, ''>'', VInt n)]" "[?c]"] assms(3,4) by (auto simp: Cond_new_def opcode_of_def)
  have "GetVal qr f i = Inr (VInt k)" using assms(5) by (simp add: GetInt_Inr)
  then obtain j where j: "field_index f (fst tb) = Some j" "i < length (snd (select [?c] tb))" "snd (select [?c] tb) ! i ! j = VInt k"
    by (auto simp: GetVal_def q result_of_def select_def split: if_splits option.splits)
  have "meets (fst tb) (snd (select [?c] tb) ! i) ?c" using nth_mem[OF j(2)] by (simp add: select_def)
  then show ?thesis using j by (simp add: meets_def cmp_op_def)
qed

lemma BuildSched_later:
  assumes "database b db" "\<And>tb. db ''BuildSchedule'' = Some tb \<Longrightarrow> ''BuildTime'' \<in> set (fst tb)" "0 \<le> in_t s" "build_queue (in_sim s) = []"
  shows "\<forall>k \<in> fst ` set (build_queue (in_sim (snd (LoadBuildSched b s)))). in_t s < k"
proof (cases "ask b ''BuildSchedule'' [(''BuildTime'', ''>'', VInt (in_t s))]")
  case (Inl e)
  then show ?thesis using assms(4) by (simp add: LoadBuildSched_def)
next
  case (Inr qr)
  then obtain cs where "qb_Query b ''BuildSchedule'' (Some cs) = Inr qr" by (auto simp: ask_def bindE_Inr)
  then obtain tb where tb: "db ''BuildSchedule'' = Some tb"
    using database.missing[OF assms(1), of "''BuildSchedule''" "Some cs"] by (cases "db ''BuildSchedule''") auto
  let ?I = "\<lambda>x. \<forall>k \<in> fst ` set (build_queue (in_sim x)). in_t s < k"
  define step where "step = (\<lambda>i (s :: 'a sim_init).
       andThen (lift_x (bindE (GetInt qr ''BuildTime'' i) (\<lambda>t. bindE (GetInt qr ''ParentId'' i) (\<lambda>pid.
          bindE (GetString qr ''Prototype'' i) (\<lambda>proto. Inr (t, pid, proto))))) s) (\<lambda>(t, pid, proto) s.
       case agent_at pid s of (parent, s1) \<Rightarrow> on_sim (Context_SchedBuild parent proto t) s1))"
  have "?I x'" if h: "?I x" "step i x = (r, x')" for i x x' r
  proof (cases "bindE (GetInt qr ''BuildTime'' i) (\<lambda>t. bindE (GetInt qr ''ParentId'' i) (\<lambda>pid.
          bindE (GetString qr ''Prototype'' i) (\<lambda>proto. Inr (t, pid, proto))))")
    case (Inl e)
    then show ?thesis using h by (simp add: step_def throw_def)
  next
    case (Inr v)
    then obtain t pid proto where v: "v = (t, pid, proto)" "GetInt qr ''BuildTime'' i = Inr t" by (auto simp: bindE_Inr)
    have t: "in_t s < t" using ask_later[OF assms(1) tb assms(2)[OF tb] \<open>ask b ''BuildSchedule'' _ = Inr qr\<close> v(2)] .
    obtain y where y: "Context_SchedBuild (fst (agent_at pid x)) proto t (in_sim x) = (r, y)" "in_sim x' = y"
      using h(2) Inr v(1) by (auto simp: step_def on_sim_def agent_at_def split: prod.splits)
    have "fst ` set (build_queue (in_sim x')) \<subseteq> insert t (fst ` set (build_queue (in_sim x)))"
      using SchedBuild_queue[OF y(1)] t assms(3) y(2) by simp
    then show ?thesis using t h(1) by blast
  qed
  then have "?I (snd (foreach step [0..<length (qr_rows qr)] s))"
    using foreach_invariant[of ?I s "[0..<length (qr_rows qr)]" step] assms(4)
    by (metis empty_iff image_empty list.set(1) prod.collapse)
  then show ?thesis using Inr by (simp add: LoadBuildSched_def step_def)
qed

text \<open>Making and initialising agents leaves the time of the restart alone.\<close>

lemma in_t_on_sim [simp]: "in_t (snd (on_sim f s)) = in_t s"
  by (simp add: on_sim_def split: prod.splits)

lemmas in_t_andThen = snd_andThenI[where P = "\<lambda>x. in_t x = n" for n]
lemmas in_t_deref = snd_derefI[where P = "\<lambda>x. in_t x = n" for n]

lemma in_t_lift [simp]: "in_t (snd (lift_x x s)) = in_t s"
  by (cases x) simp_all

lemma in_t_construct: "in_t (snd (construct c spec s)) = in_t s"
  by (auto simp: construct_def intro!: in_t_andThen in_t_deref)

lemma in_t_Make: "in_t s = n \<Longrightarrow> in_t (snd (Make ld spec s)) = n"
  by (auto simp: Make_def in_t_construct case_prod_beta split: option.splits intro!: in_t_andThen)

lemma in_t_load_agent: "in_t (snd (load_agent ld b qe i aid ub s)) = in_t s"
  by (auto simp: load_agent_def init_agent_def case_prod_beta in_t_Make intro!: in_t_andThen)

lemma load_agent_ub: "load_agent ld b qe i aid ub s = (Inr ub', s') \<Longrightarrow> fst ` set (fst ub') = insert aid (fst ` set (fst ub))"
  unfolding load_agent_def andThen_Inr case_prod_beta by (elim exE conjE) (clarsimp simp only: exec_eq_simps sum.inject fst_conv keys_omap_put)

lemma entries_not_due:
  assumes "load_entries ld b qe is ub s = (Inr ub', s')" "0 < in_t s" "a \<in> fst ` set (fst ub')"
  shows "a \<in> fst ` set (fst ub) \<or> (\<exists>i \<in> set is. GetInt qe ''AgentId'' i = Inr a \<and> GetInt qe ''EnterTime'' i \<noteq> Inr (in_t s))"
  using assms
proof (induction "is" arbitrary: ub s)
  case Nil
  then show ?case by simp
next
  case (Cons i "is")
  let ?n = "in_t s"
  obtain due where due: "(if 0 < in_t s then bindE (GetInt qe ''EnterTime'' i) (\<lambda>e. Inr (e = in_t s)) else Inr False) = Inr due"
    using Cons.prems(1) by (cases "if 0 < in_t s then bindE (GetInt qe ''EnterTime'' i) (\<lambda>e. Inr (e = in_t s)) else Inr False") auto
  show ?case
  proof (cases due)
    case True
    then have "load_entries ld b qe is ub s = (Inr ub', s')" using Cons.prems(1) due by simp
    then show ?thesis using Cons.IH[of ub s] Cons.prems(2,3) by auto
  next
    case False
    then have nd: "GetInt qe ''EnterTime'' i \<noteq> Inr ?n" using due Cons.prems(2) by auto
    obtain aid gone where g: "GetInt qe ''AgentId'' i = Inr aid" "left_before b ?n aid = Inr gone"
      using Cons.prems(1) due False by (auto simp: andThen_Inr lift_x_def split: sum.splits)
    show ?thesis
    proof (cases gone)
      case True
      then have "load_entries ld b qe is ub s = (Inr ub', s')" using Cons.prems(1) due False g by simp
      then show ?thesis using Cons.IH[of ub s] Cons.prems(2,3) by auto
    next
      case False
      then obtain ub1 s1 where u: "load_agent ld b qe i aid ub s = (Inr ub1, s1)" "load_entries ld b qe is ub1 s1 = (Inr ub', s')"
        using Cons.prems(1) due \<open>\<not> due\<close> g by (auto simp: andThen_Inr)
      have "in_t s1 = ?n" using in_t_load_agent[of ld b qe i aid ub s] u(1) by simp
      then show ?thesis using Cons.IH[OF u(2)] Cons.prems(2,3) load_agent_ub[OF u(1)] nd g(1) by auto
    qed
  qed
qed

text \<open>C36. A restart loses what is due at its time. Snapshots are taken before the agents due at a time step are
  built. Loading for a restart at time \<open>t\<close> skips the agents that entered at \<open>t\<close>, since they are scheduled to
  be built, but takes over only the builds scheduled after \<open>t\<close>: from any database, nothing is queued for
  time \<open>t\<close> or before, and no agent that entered at \<open>t\<close> only is loaded.\<close>

theorem due_builds_lost:
  assumes "database b db" "0 < in_t s" "build_queue (in_sim s) = []" "\<forall>tb. db ''BuildSchedule'' = Some tb \<longrightarrow> ''BuildTime'' \<in> set (fst tb)"
    and "load_entries ld b qentry rows ([], []) s0 = (Inr ub, s1)" "in_t s0 = in_t s"
  shows "(\<forall>k \<le> in_t s. map_of (build_queue (in_sim (snd (LoadBuildSched b s)))) k = None) \<and>
    (\<forall>a m. (a, m) \<in> set (fst ub) \<longrightarrow> (\<exists>i \<in> set rows. GetInt qentry ''AgentId'' i = Inr a \<and> GetInt qentry ''EnterTime'' i \<noteq> Inr (in_t s)))"
proof -
  have "\<forall>k \<in> fst ` set (build_queue (in_sim (snd (LoadBuildSched b s)))). in_t s < k"
    by (rule BuildSched_later[OF assms(1)]) (use assms(2-4) in auto)
  then have "map_of (build_queue (in_sim (snd (LoadBuildSched b s)))) k = None" if "k \<le> in_t s" for k
    using that by (fastforce simp: map_of_eq_None_iff)
  moreover have "\<exists>i \<in> set rows. GetInt qentry ''AgentId'' i = Inr a \<and> GetInt qentry ''EnterTime'' i \<noteq> Inr (in_t s)"
    if "(a, m) \<in> set (fst ub)" for a m
    using entries_not_due[OF assms(5), of a] assms(2,6) that by force
  ultimately show ?thesis by blast
qed

section \<open>An instance\<close>

text \<open>A simulation at time 2 without agents, and a schedule with a build at that time and an agent that entered then.\<close>

definition at_two :: "unit sim" where
  "at_two = (in_sim loaded)\<lparr>s_world := (s_world (in_sim loaded))\<lparr>w_time := 2, nextstate_id := 8\<rparr>, next_agent_id := 6\<rparr>"

theorem next_ids_restored_witness:
  "let s' = snd (SimInit_Snapshot quiet_arch at_two)
   in \<exists>i'. LoadNextIds (CondInjector (table_backend (recorded ''u'' s')) [of_sim ''u'']) (loaded\<lparr>in_t := 2\<rparr>) = (Inr (), i') \<and>
        next_agent_id (in_sim i') = 6 \<and> nextstate_id (s_world (in_sim i')) = 8"
proof -
  let ?s' = "snd (SimInit_Snapshot quiet_arch at_two)"
  have s: "SimInit_Snapshot quiet_arch at_two = (Inr (), ?s')" "s_db at_two = []" "time_of at_two = 2"
    by (simp_all add: SimInit_Snapshot_def at_two_def loaded_def SimInit_new_def Context_new_def record_row_def ok_def Let_def)
  have v: "next_agent_id at_two = 6" "nextstate_id (s_world at_two) = 8" by (simp_all add: at_two_def)
  show ?thesis
    using next_ids_restored[OF s(1) _ tabled.database_axioms, of "loaded\<lparr>in_t := 2\<rparr>" "''u''"] s(2,3) v by (auto simp: Let_def)
qed

definition due_db :: "string \<Rightarrow> table option" where
  "due_db = tables_of ''u'' (map krow_row [BuildSchedule 1 ''reactor'' 0 2, AgentEntry 4 ''Facility'' '':a:b'' ''reactor'' 1 (-1) 2])"

definition due_entry :: QueryResult where
  "due_entry = \<lparr>qr_fields = [''AgentId'', ''EnterTime''], qr_types = [], qr_rows = [[VInt 4, VInt 2]]\<rparr>"

definition no_loader :: "unit loader" where
  "no_loader = \<lparr>ld_DynamicModule = \<lambda>_. Inl IOError, ld_MakePyAgent = \<lambda>_ _. throw IOError, ld_InitFrom = \<lambda>_ _. ok (), ld_InitInv = \<lambda>_ _. ok ()\<rparr>"

theorem due_builds_lost_witness:
  "map_of (build_queue (in_sim (snd (LoadBuildSched (table_backend due_db) (loaded\<lparr>in_t := 2\<rparr>))))) 2 = None \<and>
   load_entries no_loader (table_backend due_db) due_entry [0] ([], []) (loaded\<lparr>in_t := 2\<rparr>) = (Inr ([], []), loaded\<lparr>in_t := 2\<rparr>)"
proof -
  let ?s = "loaded\<lparr>in_t := 2\<rparr>"
  have e: "load_entries no_loader (table_backend due_db) due_entry [0] ([], []) ?s = (Inr ([], []), ?s)"
    by (simp add: due_entry_def GetInt_def GetVal_def ok_def)
  have q: "build_queue (in_sim ?s) = []" by (simp add: loaded_def SimInit_new_def Context_new_def)
  have t: "\<forall>tb. due_db ''BuildSchedule'' = Some tb \<longrightarrow> ''BuildTime'' \<in> set (fst tb)" by (simp add: due_db_def tables_of_def)
  show ?thesis using due_builds_lost[OF tabled.database_axioms _ q t e] e by simp
qed

end
