(* ===== verification/Restart_Resources.thy ===== *)
theory Restart_Resources
  imports Database Provenance
begin

text \<open>
  A material that is recorded and loaded again from the database, possibly by another process.
\<close>

definition mass_vector :: "nucdata \<Rightarrow> composition \<Rightarrow> CompMap" where
  "mass_vector nd cp = (if comp_mass cp = [] then mass_of_atom nd (comp_atom cp) else comp_mass cp)"

definition comp_rows :: "nucdata \<Rightarrow> composition \<Rightarrow> row list" where
  "comp_rows nd cp = map (\<lambda>(nuc, q). Compositions (comp_id cp) nuc q) (compmath_Normalize 1 (mass_vector nd cp))"

definition material_rows :: "nucdata \<Rightarrow> resource \<Rightarrow> composition \<Rightarrow> int \<Rightarrow> int \<Rightarrow> int \<Rightarrow> row list" where
  "material_rows nd r cp sid now t =
     [Resources sid (obj_id r) ''Material'' now (quantity r) ''kg'' (comp_id cp) (parent1 r) (parent2 r), MaterialInfo sid t] @
     (if comp_recorded cp then [] else comp_rows nd cp)"

lemma emit_all: "w_db (foldl (\<lambda>w (nuc, q). emit (Compositions i nuc q) w) w cm) = w_db w @ map (\<lambda>(nuc, q). Compositions i nuc q) cm"
  by (induction cm arbitrary: w) (auto simp: emit_def)

lemma Record_rows:
  assumes "w_res w p = Some r" "tracker_res r = p" "has_ctx r" "body r = MatBody c t" "w_comp w c = Some cp"
  shows "\<exists>w'. tracker_Record nd p w = (Inr (), w') \<and> w_db w' = w_db w @ material_rows nd r cp (nextstate_id w) (w_time w) t"
  using assms
  by (simp add: tracker_Record_def BumpStateId_def Let_def qual_id_def res_Record_def Composition_Record_def Composition_mass_def
      emit_all material_rows_def comp_rows_def mass_vector_def ok_def res_type_def res_units_def)

section \<open>Reading rows of resources\<close>

fun row_key :: "row \<Rightarrow> int" where
  "row_key (Resources rid oid ty t q u qid p1 p2) = rid"
| "row_key (ResCreators rid aid) = rid"
| "row_key (MaterialInfo rid t) = rid"
| "row_key (Compositions qid nuc q) = qid"
| "row_key (Products qid quality) = qid"

definition rows_with :: "string \<Rightarrow> int \<Rightarrow> row list \<Rightarrow> row list" where
  "rows_with t k ws = filter (\<lambda>r. fst (world_row r) = t \<and> row_key r = k) ws"

definition key_column :: "string \<Rightarrow> string" where
  "key_column t = (if t = ''Resources'' \<or> t = ''MaterialInfo'' then ''ResourceId'' else ''QualId'')"

lemma ask_world:
  assumes "database b (tables_of u (map krow_row ks @ map world_row ws))" "t \<in> {''Resources'', ''MaterialInfo'', ''Compositions''}"
    and "rows_with t k ws \<noteq> []"
  shows "\<exists>qr. ask b t [(key_column t, ''=='', VInt k)] = Inr qr \<and> length (qr_rows qr) = length (rows_with t k ws) \<and>
    (\<forall>i < length (rows_with t k ws). \<forall>f v. f \<noteq> ''SimId'' \<longrightarrow> map_of (snd (world_row (rows_with t k ws ! i))) f = Some v \<longrightarrow> GetVal qr f i = Inr v)"
proof -
  let ?R = "map krow_row ks @ map world_row ws" and ?c = "\<lparr>c_field = key_column t, c_op = ''=='', c_opcode = EQ, c_val = VInt k\<rparr>"
  obtain r where r: "r \<in> set ws" "fst (world_row r) = t" using assms(3) by (auto simp: rows_with_def filter_empty_conv)
  let ?fs = "map fst (snd (world_row r))"
  have kt: "fst (krow_row x) \<noteq> t" for x using assms(2) by (cases x) auto
  have same: "map fst (snd (world_row x)) = ?fs" if "fst (world_row x) = t" for x
    using that r(2) assms(2) by (cases x; cases r) auto
  have fs: "map fst (snd x) = ?fs" if "x \<in> set ?R" "fst x = t" for x using that kt same by auto
  have key: "key_column t \<in> set ?fs \<and> key_column t \<noteq> ''SimId''" using r(2) assms(2) by (cases r) (auto simp: key_column_def)
  have sat: "sat (snd (world_row x)) ?c \<longleftrightarrow> row_key x = k" if "fst (world_row x) = t" for x
    using that assms(2) by (cases x) (auto simp: sat_def key_column_def cmp_op_def)
  have sel: "filter (\<lambda>l. \<forall>c \<in> set [?c]. sat l c) (map snd (filter (\<lambda>r. fst r = t) ?R)) = map (snd \<circ> world_row) (rows_with t k ws)"
    using sat kt by (simp add: filter_map o_def rows_with_def cong: filter_cong) (auto intro!: arg_cong[where f = "map _"] filter_cong)
  obtain tys where a: "ask b t [(key_column t, ''=='', VInt k)] = Inr (rows_result tys u ?fs (map (snd \<circ> world_row) (rows_with t k ws)))"
    using ask_recorded[OF assms(1) _ fs, of t "[(key_column t, ''=='', VInt k)]" "[?c]"] r key unfolding sel
    by (auto simp: Cond_new_def opcode_of_def)
  have "GetVal (rows_result tys u ?fs (map (snd \<circ> world_row) (rows_with t k ws))) f i = Inr v"
    if "i < length (rows_with t k ws)" "f \<noteq> ''SimId''" "map_of (snd (world_row (rows_with t k ws ! i))) f = Some v" for i f v
  proof (rule GetVal_rows)
    have "fst (world_row (rows_with t k ws ! i)) = t" using nth_mem[OF that(1)] by (simp add: rows_with_def)
    then show "map fst (map (snd \<circ> world_row) (rows_with t k ws) ! i) = ?fs" using same that(1) by simp
  qed (use that in simp_all)
  then show ?thesis using a by auto
qed

lemma omap_put_last: "\<forall>k' \<in> fst ` set m. k' < k \<Longrightarrow> omap_put k v m = m @ [(k, v)]"
  by (induction m) auto

lemma read_comp_rows:
  assumes "omap_inv cm" "\<And>i. i < length cm \<Longrightarrow> GetInt qr ''NucId'' i = Inr (fst (cm ! i)) \<and> GetDouble qr ''MassFrac'' i = Inr (snd (cm ! i))"
  shows "read_comp qr [0..<length cm] [] = Inr cm"
proof -
  have "read_comp qr [k..<length cm] (take k cm) = Inr cm" if "k \<le> length cm" for k
    using that
  proof (induction "length cm - k" arbitrary: k)
    case (Suc n)
    then have k: "k < length cm" by simp
    have "sorted_wrt (<) (map fst cm)" using assms(1) by (simp add: omap_inv_def)
    then have "\<forall>k' \<in> fst ` set (take k cm). k' < fst (cm ! k)"
      using k by (auto simp: sorted_wrt_iff_nth_less in_set_conv_nth) (metis fst_conv)
    then have "omap_put (fst (cm ! k)) (snd (cm ! k)) (take k cm) = take (Suc k) cm"
      using k by (simp add: omap_put_last take_Suc_conv_app_nth)
    then show ?case using Suc.hyps(1)[of "Suc k"] Suc.hyps(2) k assms(2)[OF k] by (simp add: upt_conv_Cons)
  qed simp
  from this[of 0] show ?thesis by simp
qed

lemma LoadComposition_rows:
  assumes "database b (tables_of u (map krow_row ks @ map world_row ws))" "rows_with ''Compositions'' cid ws = map (\<lambda>(n, q). Compositions cid n q) cm"
    and "cm \<noteq> []" "omap_inv cm" "compmath_ValidNucs (isnuclide nd) cm" "compmath_AllPositive cm"
  shows "\<exists>c cp w'. LoadComposition nd b cid w = (Inr c, w') \<and> w_comp w' c = Some cp \<and> comp_id cp = cid \<and> comp_mass cp = cm \<and> comp_recorded cp"
proof -
  have ne: "rows_with ''Compositions'' cid ws \<noteq> []" using assms(2,3) by simp
  obtain qr where qr: "ask b ''Compositions'' [(key_column ''Compositions'', ''=='', VInt cid)] = Inr qr"
    "length (qr_rows qr) = length (rows_with ''Compositions'' cid ws)"
    "\<forall>i < length (rows_with ''Compositions'' cid ws). \<forall>f v. f \<noteq> ''SimId'' \<longrightarrow>
       map_of (snd (world_row (rows_with ''Compositions'' cid ws ! i))) f = Some v \<longrightarrow> GetVal qr f i = Inr v"
    using ask_world[OF assms(1) _ ne] by auto
  have get: "GetInt qr ''NucId'' i = Inr (fst (cm ! i)) \<and> GetDouble qr ''MassFrac'' i = Inr (snd (cm ! i))" if "i < length cm" for i
  proof -
    have "rows_with ''Compositions'' cid ws ! i = Compositions cid (fst (cm ! i)) (snd (cm ! i))"
      using assms(2) that by (simp add: case_prod_beta)
    then have "GetVal qr ''NucId'' i = Inr (VInt (fst (cm ! i)))" "GetVal qr ''MassFrac'' i = Inr (VDouble (snd (cm ! i)))"
      using qr(3) that assms(2) by simp_all
    then show ?thesis by (simp add: GetVal_typed)
  qed
  have "read_comp qr [0..<length (qr_rows qr)] [] = Inr cm" using read_comp_rows[OF assms(4) get] qr(2) assms(2) by simp
  then show ?thesis
    using qr(1) assms(5,6) by (simp add: LoadComposition_def key_column_def CreateFromMass_def new_composition0_def new_composition_def
        new_chain_def Let_def ok_def)
qed

text \<open>Creating a material from a composition that counts as recorded.\<close>

lemma Material_Create_recorded:
  assumes "w_comp w c = Some cp" "comp_recorded cp"
  shows "\<exists>w' x. Material_Create nd creator q c w = (Inr (w_next w), w') \<and> w_comp w' = w_comp w \<and>
    w_res w' (w_next w) = Some x \<and> quantity x = q \<and> body x = MatBody c (w_time w) \<and> has_ctx x \<and> tracked x"
  using assms by (simp add: Material_Create_def Material_new_def new_resource_def Let_def tracker_Create_def tracker_Record_def set_parents_def
      BumpStateId_def qual_id_def res_Record_def Composition_Record_def tracked_state_id_def emit_def ok_def)

lemma DelAgent_dummy:
  assumes "Agent_new KRegion s = (dummy, s1)" "s_agents s2 = s_agents s1" "agent_list s2 = agent_list s1"
  shows "\<exists>s3. DelAgent dummy s2 = (Inr (), s3) \<and> s_world s3 = s_world s2"
  using assms by (auto simp: Agent_new_def Let_def DelAgent_def Agent_delete_def set_oset_ins ok_def)

section \<open>The round trip\<close>

text \<open>A material of a world in which state ids grow and a composition's rows are in the database exactly when its
  recorded flag is set.\<close>

definition loggable :: "nucdata \<Rightarrow> world \<Rightarrow> ptr \<Rightarrow> resource \<Rightarrow> ptr \<Rightarrow> int \<Rightarrow> composition \<Rightarrow> bool" where
  "loggable nd w p r c t cp \<longleftrightarrow> w_res w p = Some r \<and> tracker_res r = p \<and> has_ctx r \<and> body r = MatBody c t \<and>
     w_comp w c = Some cp \<and> prov_inv w \<and>
     (\<forall>rid t'. MaterialInfo rid t' \<in> set (w_db w) \<longrightarrow> rid < nextstate_id w) \<and>
     rows_with ''Compositions'' (comp_id cp) (w_db w) = (if comp_recorded cp then comp_rows nd cp else []) \<and>
     mass_vector nd cp \<noteq> [] \<and> omap_inv (mass_vector nd cp) \<and>
     compmath_ValidNucs (isnuclide nd) (mass_vector nd cp) \<and> compmath_AllPositive (mass_vector nd cp)"

definition old_ids :: "int \<Rightarrow> row list \<Rightarrow> bool" where
  "old_ids sid rows \<longleftrightarrow> rows_with ''Resources'' sid rows = [] \<and> rows_with ''MaterialInfo'' sid rows = []"

definition other_ids :: "int \<Rightarrow> int \<Rightarrow> row list \<Rightarrow> bool" where
  "other_ids sid cid rows \<longleftrightarrow> rows_with ''Resources'' sid rows = [] \<and> rows_with ''MaterialInfo'' sid rows = [] \<and> rows_with ''Compositions'' cid rows = []"

lemma rows_with_append: "rows_with t k (xs @ ys) = rows_with t k xs @ rows_with t k ys"
  by (simp add: rows_with_def)

lemma rows_with_comps: "rows_with t k (map (\<lambda>(n, q). Compositions k n q) cm) = (if t = ''Compositions'' then map (\<lambda>(n, q). Compositions k n q) cm else [])"
  by (induction cm) (auto simp: rows_with_def)

lemma world_row_table:
  "fst (world_row x) = ''Resources'' \<longleftrightarrow> is_Resources x"
  "fst (world_row x) = ''MaterialInfo'' \<longleftrightarrow> (\<exists>rid t. x = MaterialInfo rid t)"
  "fst (world_row x) = ''Compositions'' \<longleftrightarrow> (\<exists>qid n q. x = Compositions qid n q)"
  by (cases x; simp)+

lemma fresh_old_rows:
  assumes "loggable nd w p r c t cp"
  shows "old_ids (nextstate_id w) (w_db w)"
proof -
  have "row_key x \<noteq> nextstate_id w" if "x \<in> set (w_db w)" "fst (world_row x) = ''Resources''" for x
  proof -
    have x: "is_Resources x" "row_key x = row_id x" using that(2) by (auto simp: world_row_table is_Resources_def)
    then have "x \<in> set (res_rows w)" using that(1) by (simp add: res_rows_def)
    then show ?thesis using assms x(2) by (auto simp: loggable_def prov_inv_def row_ok_def)
  qed
  moreover have "row_key x \<noteq> nextstate_id w" if "x \<in> set (w_db w)" "fst (world_row x) = ''MaterialInfo''" for x
    using that assms by (auto simp: world_row_table loggable_def)
  ultimately show ?thesis by (auto simp: old_ids_def rows_with_def filter_empty_conv)
qed

lemma recorded_rows:
  assumes "old_ids sid old" "rows_with ''Compositions'' (comp_id cp) old = (if comp_recorded cp then comp_rows nd cp else [])"
    and "other_ids sid (comp_id cp) later" and ws_def: "ws = old @ material_rows nd r cp sid now t @ later"
  shows "rows_with ''Resources'' sid ws = [Resources sid (obj_id r) ''Material'' now (quantity r) ''kg'' (comp_id cp) (parent1 r) (parent2 r)]"
    "rows_with ''MaterialInfo'' sid ws = [MaterialInfo sid t]"
    "rows_with ''Compositions'' (comp_id cp) ws = map (\<lambda>(n, q). Compositions (comp_id cp) n q) (compmath_Normalize 1 (mass_vector nd cp))"
proof -
  have no: "rows_with t' sid (comp_rows nd cp) = []" if "t' \<noteq> ''Compositions''" for t'
    using that by (auto simp: rows_with_def filter_empty_conv comp_rows_def)
  show "rows_with ''Resources'' sid ws = [Resources sid (obj_id r) ''Material'' now (quantity r) ''kg'' (comp_id cp) (parent1 r) (parent2 r)]"
    "rows_with ''MaterialInfo'' sid ws = [MaterialInfo sid t]"
    using assms(1,3) no by (simp_all add: ws_def material_rows_def rows_with_append other_ids_def old_ids_def) (simp_all add: rows_with_def)
  have "rows_with ''Compositions'' (comp_id cp) [Resources sid (obj_id r) ''Material'' now (quantity r) ''kg'' (comp_id cp) (parent1 r) (parent2 r), MaterialInfo sid t] = []"
    by (simp add: rows_with_def)
  moreover have "rows_with ''Compositions'' (comp_id cp) (comp_rows nd cp) = comp_rows nd cp" by (simp add: comp_rows_def rows_with_comps)
  ultimately show "rows_with ''Compositions'' (comp_id cp) ws = map (\<lambda>(n, q). Compositions (comp_id cp) n q) (compmath_Normalize 1 (mass_vector nd cp))"
    using assms(2,3) unfolding ws_def material_rows_def rows_with_append other_ids_def by (simp add: comp_rows_def rows_with_def)
qed

lemma ValidNucs_Normalize: "compmath_ValidNucs P v \<Longrightarrow> compmath_ValidNucs P (compmath_Normalize x v)"
  by (auto simp: compmath_ValidNucs_def compmath_Normalize_def Let_def list_all_iff)

lemma with_dummy_material:
  assumes "w_comp (s_world s) c = Some cp" "comp_recorded cp"
  shows "\<exists>m s' x. with_dummy (\<lambda>creator. Material_Create nd creator q c) (\<lambda>m. set_prev_decay_time m prev) s = (Inr m, s') \<and>
    w_res (s_world s') m = Some x \<and> quantity x = q \<and> body x = MatBody c prev \<and> w_comp (s_world s') = w_comp (s_world s)"
proof -
  obtain dummy s1 where a: "Agent_new KRegion s = (dummy, s1)" by (cases "Agent_new KRegion s")
  then have w: "s_world s1 = s_world s" by (auto simp: Agent_new_def Let_def)
  obtain w' x where m: "Material_Create nd (next_agent_id s) q c (s_world s) = (Inr (w_next (s_world s)), w')" "w_comp w' = w_comp (s_world s)"
    "w_res w' (w_next (s_world s)) = Some x" "quantity x = q" "body x = MatBody c (w_time (s_world s))"
    using Material_Create_recorded[OF assms, of nd "next_agent_id s" q] by auto
  let ?s2 = "s1\<lparr>s_world := set_prev_decay_time (w_next (s_world s)) prev w'\<rparr>"
  obtain s3 where d: "DelAgent dummy ?s2 = (Inr (), s3)" "s_world s3 = s_world ?s2" using DelAgent_dummy[OF a, of ?s2] by auto
  have "with_dummy (\<lambda>creator. Material_Create nd creator q c) (\<lambda>m. set_prev_decay_time m prev) s = (Inr (w_next (s_world s)), s3)"
    using a w m(1) d(1) by (simp add: with_dummy_def on_world_def ok_def)
  then show ?thesis using m d(2) by (auto simp: set_prev_decay_time_def)
qed

text \<open>C21. A recorded material can be loaded again. When the tracker records a material, whether its composition
  is recorded with it or was recorded before, then from any database that keeps the rows, with whatever
  is recorded under other ids, loading the state id gives a material with the same ids, quantity and time
  of decay, whose composition has the same id and the mass fractions of the original. The composition is
  not empty, has valid nuclides and no negative mass, and its rows are in the database exactly when its
  recorded flag is set.\<close>

theorem material_reloaded:
  assumes "loggable nd w p r c t cp" "tracker_Record nd p w = (Inr (), w')" "other_ids (nextstate_id w) (comp_id cp) later"
    and "database b (tables_of u (map krow_row ks @ map world_row (w_db w' @ later)))"
  shows "\<exists>m s' x c' cp'. LoadResource nd (CondInjector b [of_sim u]) (nextstate_id w) s = (Inr m, s') \<and> w_res (s_world s') m = Some x \<and>
    state_id x = nextstate_id w \<and> obj_id x = obj_id r \<and> quantity x = quantity r \<and> body x = MatBody c' t \<and>
    w_comp (s_world s') c' = Some cp' \<and> comp_id cp' = comp_id cp \<and> comp_mass cp' = compmath_Normalize 1 (mass_vector nd cp)"
proof -
  let ?b = "CondInjector b [of_sim u]" and ?sid = "nextstate_id w" and ?cm = "compmath_Normalize 1 (mass_vector nd cp)"
  note f = assms(1)[unfolded loggable_def]
  have db: "w_db w' = w_db w @ material_rows nd r cp ?sid (w_time w) t" using Record_rows[of w p r c t cp nd] f assms(2) by auto
  define ws where "ws = w_db w @ material_rows nd r cp ?sid (w_time w) t @ later"
  have d: "database ?b (tables_of u (map krow_row ks @ map world_row ws))" using injected_sim[OF assms(4)] db by (simp add: ws_def)
  have cr: "rows_with ''Compositions'' (comp_id cp) (w_db w) = (if comp_recorded cp then comp_rows nd cp else [])" using f by simp
  note rows = recorded_rows[OF fresh_old_rows[OF assms(1)] cr assms(3) ws_def]
  have kc: "key_column ''Resources'' = ''ResourceId''" "key_column ''MaterialInfo'' = ''ResourceId''" by (simp_all add: key_column_def)
  obtain qr where "ask ?b ''Resources'' [(''ResourceId'', ''=='', VInt ?sid)] = Inr qr"
    "\<forall>f v. f \<noteq> ''SimId'' \<longrightarrow> map_of (snd (world_row (Resources ?sid (obj_id r) ''Material'' (w_time w) (quantity r) ''kg'' (comp_id cp) (parent1 r) (parent2 r)))) f = Some v \<longrightarrow> GetVal qr f 0 = Inr v"
    using ask_world[OF d, of "''Resources''" ?sid] by (auto simp: rows(1) kc)
  then have qr: "ask ?b ''Resources'' [(''ResourceId'', ''=='', VInt ?sid)] = Inr qr" "GetString qr ''Type'' 0 = Inr ''Material''"
    "GetInt qr ''ObjId'' 0 = Inr (obj_id r)" "GetDouble qr ''Quantity'' 0 = Inr (quantity r)" "GetInt qr ''QualId'' 0 = Inr (comp_id cp)"
    by (simp_all add: GetVal_typed)
  obtain qi where "ask ?b ''MaterialInfo'' [(''ResourceId'', ''=='', VInt ?sid)] = Inr qi"
    "\<forall>f v. f \<noteq> ''SimId'' \<longrightarrow> map_of (snd (world_row (MaterialInfo ?sid t))) f = Some v \<longrightarrow> GetVal qi f 0 = Inr v"
    using ask_world[OF d, of "''MaterialInfo''" ?sid] by (auto simp: rows(2) kc)
  then have qi: "ask ?b ''MaterialInfo'' [(''ResourceId'', ''=='', VInt ?sid)] = Inr qi" "GetInt qi ''PrevDecayTime'' 0 = Inr t"
    by (simp_all add: GetVal_typed)
  have "?cm \<noteq> []" using f by (metis keys_Normalize map_is_Nil_conv)
  then obtain c' cp' w1 where c: "LoadComposition nd ?b (comp_id cp) (s_world s) = (Inr c', w1)" "w_comp w1 c' = Some cp'"
    "comp_id cp' = comp_id cp" "comp_mass cp' = ?cm" "comp_recorded cp'"
    using LoadComposition_rows[OF d rows(3), of nd "s_world s"] f by (auto simp: ValidNucs_Normalize AllPositive_Normalize)
  let ?s1 = "s\<lparr>s_world := w1\<rparr>"
  obtain m s2 x where m: "with_dummy (\<lambda>creator. Material_Create nd creator (quantity r) c') (\<lambda>m. set_prev_decay_time m t) ?s1 = (Inr m, s2)"
    "w_res (s_world s2) m = Some x" "quantity x = quantity r" "body x = MatBody c' t" "w_comp (s_world s2) = w_comp w1"
    using with_dummy_material[of ?s1 c' cp' nd "quantity r" t] c(2,5) by auto
  have "LoadMaterial nd ?b ?sid s = (Inr m, s2)" using qi qr c(1) m(1) by (simp add: LoadMaterial_def on_world_def)
  then have "LoadResource nd ?b ?sid s = (Inr m, s2\<lparr>s_world := upd_res m (\<lambda>x. x\<lparr>state_id := ?sid, obj_id := obj_id r\<rparr>) (s_world s2)\<rparr>)"
    using qr by (simp add: LoadResource_def ok_def)
  then show ?thesis using m c by auto
qed

section \<open>An instance\<close>

definition store_data :: nucdata where
  "store_data = \<lparr>isnuclide = \<lambda>_. True, atomic_mass = \<lambda>_. 1, decay_const = \<lambda>_. 0, pyne_decay = \<lambda>v _. v\<rparr>"

definition store_comp :: composition where
  "store_comp = \<lparr>comp_id = 4, comp_recorded = False, comp_atom = [], comp_mass = [(922350000, 1), (922380000, 3)], prev_decay = 0, decay_line = 9\<rparr>"

definition store_mat :: "ptr \<Rightarrow> resource" where
  "store_mat p = \<lparr>state_id = 5 - int p, obj_id = 3 - int p, quantity = 7 - real p, has_ctx = True, parent1 = 0, parent2 = 0, tracked = True,
     tracker_res = p, body = MatBody 1 2\<rparr>"

text \<open>Two materials, at 0 and 2, that share one composition.\<close>

definition store :: world where
  "store = (init_world ''manual'' 1)\<lparr>w_res := [0 \<mapsto> store_mat 0, 2 \<mapsto> store_mat 2], w_comp := [1 \<mapsto> store_comp], w_next := 3, nextstate_id := 6\<rparr>"

definition stored :: world where
  "stored = snd (tracker_Record store_data 0 store)"

definition reader :: "unit sim" where
  "reader = Context_new (SimInfo_new (0, 0) 0 2010 1 '''' ''manual'') (init_world ''manual'' 1) ()"

lemmas store_defs = store_def store_mat_def store_comp_def store_data_def init_world_def

lemma store_fresh: "loggable store_data store 0 (store_mat 0) 1 2 store_comp"
  by (simp add: loggable_def store_defs prov_inv_def prov_res_def res_rows_def rows_with_def mass_vector_def compmath_ValidNucs_def compmath_AllPositive_def)

lemma store_recorded: "tracker_Record store_data 0 store = (Inr (), stored)"
  using Record_rows[of store 0 "store_mat 0" 1 2 store_comp store_data] by (auto simp: store_defs stored_def)

lemmas stored_eval = stored_def store_defs tracker_Record_def BumpStateId_def Let_def qual_id_def res_Record_def Composition_Record_def Composition_mass_def
  compmath_Normalize_def compmath_Sum_def

lemma stored_fresh: "loggable store_data stored 2 (store_mat 2) 1 2 (store_comp\<lparr>comp_recorded := True\<rparr>)"
proof -
  have "prov_inv stored" using prov_tracker_Record[of store store_data 0] store_fresh by (simp add: stored_def loggable_def)
  moreover have "w_res stored 2 = Some (store_mat 2)" "w_comp stored 1 = Some (store_comp\<lparr>comp_recorded := True\<rparr>)" "nextstate_id stored = 7"
    by (simp_all add: stored_eval)
  moreover have "w_db stored = material_rows store_data (store_mat 0) store_comp 6 0 2"
    using Record_rows[of store 0 "store_mat 0" 1 2 store_comp store_data] by (auto simp: store_defs stored_def)
  moreover have "compmath_Normalize 1 [(922350000, 1), (922380000, 3)] = [(922350000, 1/4), (922380000, 3/4)]"
    by (simp add: compmath_Normalize_def compmath_Sum_def)
  ultimately show ?thesis
    by (simp add: loggable_def material_rows_def comp_rows_def rows_with_def mass_vector_def compmath_ValidNucs_def compmath_AllPositive_def
        store_comp_def store_mat_def store_data_def)
qed

theorem material_reloaded_witness:
  "let b = table_backend (tables_of ''u'' (map krow_row [] @ map world_row (w_db stored @ [ResCreators 6 2])));
       b' = table_backend (tables_of ''u'' (map krow_row [] @ map world_row (w_db (snd (tracker_Record store_data 2 stored)) @ [ResCreators 7 2])))
   in (\<exists>m s' x c' cp'. LoadResource store_data (CondInjector b [of_sim ''u'']) 6 reader = (Inr m, s') \<and> w_res (s_world s') m = Some x \<and>
     state_id x = 6 \<and> obj_id x = 3 \<and> quantity x = 7 \<and> body x = MatBody c' 2 \<and> w_comp (s_world s') c' = Some cp' \<and> comp_id cp' = 4 \<and>
     comp_mass cp' = compmath_Normalize 1 [(922350000, 1), (922380000, 3)]) \<and>
    (\<exists>m s' x c' cp'. LoadResource store_data (CondInjector b' [of_sim ''u'']) 7 reader = (Inr m, s') \<and> w_res (s_world s') m = Some x \<and>
     state_id x = 7 \<and> obj_id x = 1 \<and> quantity x = 5 \<and> body x = MatBody c' 2 \<and> w_comp (s_world s') c' = Some cp' \<and> comp_id cp' = 4 \<and>
     comp_mass cp' = compmath_Normalize 1 [(922350000, 1), (922380000, 3)])"
proof -
  have o: "other_ids (nextstate_id store) (comp_id store_comp) [ResCreators 6 2]" by (simp add: other_ids_def rows_with_def)
  have o': "other_ids (nextstate_id stored) (comp_id (store_comp\<lparr>comp_recorded := True\<rparr>)) [ResCreators 7 2]" by (simp add: other_ids_def rows_with_def)
  have n: "nextstate_id stored = 7" by (simp add: stored_eval)
  obtain w' where w: "tracker_Record store_data 2 stored = (Inr (), w')"
    using stored_fresh Record_rows[of stored 2 "store_mat 2" 1 2 "store_comp\<lparr>comp_recorded := True\<rparr>" store_data] by (auto simp: loggable_def store_mat_def)
  show ?thesis
    using material_reloaded[OF store_fresh store_recorded o tabled.database_axioms, of "''u''" "[]" reader]
      material_reloaded[OF stored_fresh w o' tabled.database_axioms, of "''u''" "[]" reader] w n by (simp add: store_defs mass_vector_def)
qed

end
