(* ===== verification/Spec2Isabelle.thy ===== *)
theory Spec2Isabelle
  imports Provenance Greedy_Orders Sim_Findings Sim_Market Market_Properties Market_Portfolios Market_Trades Res_Buf_Properties Res_Map Policy_Properties Prog_Properties Recorder_Properties Restart_Properties Restart_Resources
begin

text \<open>
  \<^bold>\<open>Cyclus: a verification of the simulation kernel.\<close>

  Cyclus simulates a nuclear fuel cycle as agents (regions, institutions, facilities) that trade
  resources at discrete time steps. A run of the program is the main loop of \<open>Timer\<close>: in every step
  the agents that are due are built, every time listener gets a \<open>Tick\<close>, the two resource exchanges
  (materials, products) collect requests and bids from the traders, translate them to a bipartite
  graph, solve it, translate the solution back to trades and execute them, every listener gets a
  \<open>Tock\<close>, and the agents that are due are decommissioned. Everything an agent holds is a \<open>Resource\<close>
  whose changes are recorded by a tracker.

  \<^bold>\<open>Conventions.\<close> A \<open>double\<close> is an exact real; where non-finite values decide a branch (division by 0 in
  a solver) a type with infinities and NaN is used instead, and one lemma on summation is for an
  arbitrary rounding. Objects behind shared or raw pointers live in explicit stores by address, so
  that aliasing is visible. A \<open>std::map\<close> or \<open>std::set\<close> is a list ordered by key, with the order of the
  code. Every function that can throw returns a value of a sum type together with the state at the
  throw, since the code has no rollback; reading a null or dangling pointer and other undefined
  behaviour is the exception \<open>Undefined\<close>. Loops that can run forever are partial functions into the
  option type; no fuel is used, and results on them are stated as \<open>Some\<close> (the main loop ends) or as
  \<open>None\<close> (printing a tree of agents does not end).

  \<^bold>\<open>Parameters.\<close> The nuclide data and the decay solver of PyNE (record \<open>nucdata\<close>), boost's
  \<open>float_distance\<close>, the two global tolerances, and the virtual methods by which archetypes take part
  (record \<open>arch\<close> for agents, \<open>trader_cb\<close> for traders, \<open>loader\<close> for loading) are arguments of the definitions that use them.

  \<^bold>\<open>Theories.\<close> All paths are under src/src.

  \<^item> \<open>Cyclus_Prelude\<close>, \<open>World\<close>: types, exceptions, ordered maps and sets, stable sort; the store of
    resources and compositions.
  \<^item> \<open>Comp_Math\<close> (cyc_limits.h, cyc_arithmetic.cc, comp_math.cc): sums, normalisation, comparison and
    filtering of nuclide vectors. Mixing vectors conserves mass.
  \<^item> \<open>Composition_Model\<close> (composition.cc): immutable compositions and the decay line they share. Decaying
    in two steps or in one gives the same shared object; the cache ignores the length of a step.
  \<^item> \<open>Resource_Model\<close>, \<open>Provenance\<close> (resource.h, res_tracker.cc, product.cc, material.cc): creating,
    splitting, merging, transmuting and decaying. Quantity is conserved over all histories of
    operations, but for an object that is absorbed into itself, which loses all of it; the masses of an extraction balance per nuclide, and the recorded parent links are
    acyclic with unique state ids.
  \<^item> \<open>Res_Ops\<close>, \<open>Res_Buf\<close>, \<open>Res_Buf_Properties\<close>, \<open>Body_Frame\<close>, \<open>Res_Map\<close> (toolkit/res_buf.h, resource_buff.cc,
    res_manip.cc, res_map.h): buffers over the contract \<open>splittable\<close> of resources, which products
    and materials satisfy. A buffer is a queue of quantities that popping drains exactly; it stays
    valid and within its capacity over all sequences of operations that push no vector with an object
    twice; popping leaves the objects outside the buffer alone; the older class agrees with the
    newer one; a map of resources is restored by its two accessors.
  \<^item> \<open>Exchange_Graph\<close>, \<open>Greedy_Preconditioner\<close>, \<open>Greedy_Solver\<close>, \<open>Greedy_Refinement\<close>, \<open>Greedy_Correct\<close>,
    \<open>Greedy_Orders\<close> (exchange_graph.cc, exchange_solver.cc, greedy_preconditioner.cc,
    greedy_solver.cc): the solver refines a function on lists of matches; on well-formed graphs it
    never throws, respects all capacities and demands, accounts for unmet demand and leaves no arc
    that could still carry flow. On a graph with unit capacities of 0 a match can exceed the capacity of
    a supplier, and an exclusive arc that does not fit can make the cost of unmet demand infinite.
  \<^item> \<open>Sim_State\<close>, \<open>Sim_Kernel\<close>, \<open>Sim_Timer\<close>, \<open>Sim_Invariant\<close>, \<open>Sim_Run\<close>, \<open>Sim_Lifecycle\<close>, \<open>Sim_Properties\<close>,
    \<open>Sim_Findings\<close>, \<open>Sim_Market\<close> (agent.cc, facility.cc, institution.cc, region.cc, context.cc, timer.cc and the
    snapshots of sim_init.cc): an invariant of every reachable state whatever the archetypes do,
    safety of decommissioning also when an archetype throws, one notification per listener and step, and
    the end of the main loop with the exchanges of \<open>Market_Manager\<close> in it. Archetypes are \<open>conforming\<close>: they act
    through the context, and in the decommissioning phase do not reschedule an agent of this phase.
    The reachable states are those from a new context by operations of the kernel; loading from a
    database is treated in the theories on restarts.
  \<^item> \<open>Market_State\<close>, \<open>Market_Exchange\<close>, \<open>Market_Manager\<close> (request.h, bid.h, the portfolios,
    capacity_constraint.h, trader_management.h, exchange_context.h, resource_exchange.h,
    exchange_translator.h, trade_executor.h, exchange_manager.h) and their proofs in \<open>Market_Graph\<close>,
    \<open>Market_Translate\<close>, \<open>Market_Arcs\<close>, \<open>Market_Solution\<close>, \<open>Market_Properties\<close>, \<open>Market_Portfolios\<close>,
    \<open>Market_Trades\<close>, with a small instance in \<open>Market_Demo\<close>: the composition of translation, solver
    and back translation gives trades that respect every offer, request and constraint, and
    executing trades refines a contract that groups and delivers them.
  \<^item> \<open>Matl_Policies\<close>, \<open>Policy_Properties\<close> (toolkit/matl_buy_policy.cc, matl_sell_policy.cc): traders that
    work on a buffer. A seller delivers every trade within its inventory, and if it ignores compositions,
    with the composition that was asked for.
  \<^item> \<open>Prog_Translator\<close>, \<open>Prog_Correct\<close>, \<open>Prog_Properties\<close> (prog_translator.cc, prog_solver.cc,
    solver_factory.cc): the exchange graph as a mathematical program for the COIN solvers, which are
    a parameter. The program of a well-formed graph always has a solution, and every solution reads
    back as matches that respect capacities, requests and exclusive groups; a bid's own quantity is
    not among the bounds.
  \<^item> \<open>Recorder_Model\<close>, \<open>Recorder_Properties\<close> (recorder.cc, datum.cc): the buffer of data that are handed
    out again and again. Every back end receives every row once, in order; changing the size of the
    buffer breaks this.
  \<^item> \<open>Query_Backend\<close>, \<open>Sim_Init\<close>, \<open>Database\<close>, \<open>Restart_Hierarchy\<close>, \<open>Restart_Resources\<close>, \<open>Restart_Properties\<close>
    (query_backend.h, sim_init.cc, dynamic_module.cc): starting or restarting a simulation from its
    database, over the contract \<open>database\<close> that a query returns the recorded rows that meet its
    conditions. Materials and counters are restored as recorded and the hierarchy of agents is rebuilt;
    a missing parent makes the loop endless, and builds due at the time of a restart are lost.

  \<^bold>\<open>Not modelled.\<close> Rounding of doubles and the allocation of memory; logging and warnings, which have no
  effect on the state; the databases (sqlite_back.cc, the HDF5 back end), of
  which only the contract is used; XML input and its validation (xml_parser.cc,
  relax_ng_validator.cc, xml_file_loader.cc); the COIN solvers and their interface classes; the Python
  and the dynamic library loading layers; PyNE.
\<close>

end
